(* ===== verification/Prelude.thy ===== *)
theory Prelude
  imports Complex_Main "HOL-Library.Word"
begin

text \<open>
  Shared vocabulary of the development: bytes, results with errors as values,
  fixed-width integers on the wire, readers over a byte buffer, and the generic
  lemmas on lists that several components use.

  A fallible Rust function returns \<^typ>\<open>'a + 'b\<close> with the error on the left.
  An error is \<open>Bail\<close> for an \<open>anyhow\<close> error that is returned to the caller, and
  \<open>Panic\<close> for a panic (failed \<open>assert!\<close>, division by zero, index out of range,
  arithmetic overflow in a checked build) that aborts the task.
\<close>

named_theorems wire "rewrite rules for encoders and readers"
named_theorems wf_intros "introduction rules for well-formedness"

type_synonym byte = "8 word"
type_synonym bytes = "8 word list"

datatype err = Bail string | Panic string

type_synonym 'a res = "err + 'a"

definition rbind :: "'a res \<Rightarrow> ('a \<Rightarrow> 'b res) \<Rightarrow> 'b res" where
  "rbind m f = (case m of Inl e \<Rightarrow> Inl e | Inr x \<Rightarrow> f x)"

definition ensure :: "bool \<Rightarrow> string \<Rightarrow> unit res" where
  "ensure b msg = (if b then Inr () else Inl (Bail msg))"

definition of_option :: "string \<Rightarrow> 'a option \<Rightarrow> 'a res" where
  "of_option msg x = (case x of None \<Rightarrow> Inl (Bail msg) | Some y \<Rightarrow> Inr y)"

fun is_ok :: "'a res \<Rightarrow> bool" where
  "is_ok (Inl e) = False"
| "is_ok (Inr x) = True"

fun is_panic :: "'a res \<Rightarrow> bool" where
  "is_panic (Inl (Panic m)) = True"
| "is_panic (Inl (Bail m)) = False"
| "is_panic (Inr x) = False"

fun rmap :: "('a \<Rightarrow> 'b res) \<Rightarrow> 'a list \<Rightarrow> 'b list res" where
  "rmap f [] = Inr []"
| "rmap f (x # xs) = rbind (f x) (\<lambda>y. rbind (rmap f xs) (\<lambda>ys. Inr (y # ys)))"

lemma rbind_simps [simp]:
  "rbind (Inl e) f = Inl e"
  "rbind (Inr x) f = f x"
  by (simp_all add: rbind_def)

lemma rbind_eq_Inr [simp]: "rbind m f = Inr y \<longleftrightarrow> (\<exists>x. m = Inr x \<and> f x = Inr y)"
  by (cases m) auto

lemma Inr_eq_rbind [simp]: "Inr y = rbind m f \<longleftrightarrow> (\<exists>x. m = Inr x \<and> f x = Inr y)"
  by (cases m) auto

lemma rbind_cong [fundef_cong]:
  assumes "m = m'" "\<And>x. m' = Inr x \<Longrightarrow> f x = f' x"
  shows "rbind m f = rbind m' f'"
  using assms by (cases m') (auto simp: rbind_def)

lemma rbind_assoc: "rbind (rbind m f) g = rbind m (\<lambda>x. rbind (f x) g)"
  by (cases m) auto

lemma ensure_simps [simp]:
  "ensure True msg = Inr ()"
  "ensure False msg = Inl (Bail msg)"
  "ensure b msg = Inr u \<longleftrightarrow> b"
  "ensure b msg = Inl e \<longleftrightarrow> \<not> b \<and> e = Bail msg"
  by (auto simp: ensure_def)

lemma rbind_ensure: "rbind (ensure b msg) f = (if b then f () else Inl (Bail msg))"
  by (simp add: ensure_def)

lemma of_option_simps [simp]:
  "of_option msg (Some x) = Inr x"
  "of_option msg None = Inl (Bail msg)"
  "of_option msg m = Inr y \<longleftrightarrow> m = Some y"
  by (auto simp: of_option_def split: option.splits)

lemma is_ok_iff: "is_ok r \<longleftrightarrow> (\<exists>x. r = Inr x)"
  by (cases r) auto

lemma rmap_eq_Inr:
  "rmap f xs = Inr ys \<longleftrightarrow> list_all2 (\<lambda>x y. f x = Inr y) xs ys"
  by (induction xs arbitrary: ys) (auto simp: list_all2_Cons1)

lemma rmap_all_Inr:
  assumes "\<And>x. x \<in> set xs \<Longrightarrow> f x = Inr (g x)"
  shows "rmap f xs = Inr (map g xs)"
  using assms by (induction xs) auto


section \<open>Fixed-width integers as bytes\<close>

fun le_bytes :: "nat \<Rightarrow> nat \<Rightarrow> bytes" where
  "le_bytes 0 n = []"
| "le_bytes (Suc k) n = word_of_nat n # le_bytes k (n div 256)"

fun le_nat :: "bytes \<Rightarrow> nat" where
  "le_nat [] = 0"
| "le_nat (b # bs) = unat b + 256 * le_nat bs"

definition be_bytes :: "nat \<Rightarrow> nat \<Rightarrow> bytes" where
  "be_bytes k n = rev (le_bytes k n)"

definition be_nat :: "bytes \<Rightarrow> nat" where
  "be_nat bs = le_nat (rev bs)"

lemma length_le_bytes [simp]: "length (le_bytes k n) = k"
  by (induction k arbitrary: n) auto

lemma length_be_bytes [simp]: "length (be_bytes k n) = k"
  by (simp add: be_bytes_def)

lemma unat_byte_of_nat: "unat (word_of_nat n :: byte) = n mod 256"
  by (simp add: unat_of_nat)

lemma le_nat_le_bytes [simp]: "le_nat (le_bytes k n) = n mod 256 ^ k"
proof (induction k arbitrary: n)
  case (Suc k)
  have "n mod 256 ^ Suc k = n mod 256 + 256 * (n div 256 mod 256 ^ k)"
    by (simp add: mod_mult2_eq)
  with Suc show ?case by (simp add: unat_byte_of_nat)
qed simp

lemma be_nat_be_bytes [simp]: "be_nat (be_bytes k n) = n mod 256 ^ k"
  by (simp add: be_nat_def be_bytes_def)

lemma byte_less: "unat (b :: byte) < 256"
  by (rule order_less_le_trans [OF unsigned_less]) simp

lemma le_nat_less: "le_nat bs < 256 ^ length bs"
proof (induction bs)
  case (Cons b bs)
  have "unat b < 256" by (rule byte_less)
  with Cons show ?case by simp
qed simp

lemma byte_256: "(256 :: byte) = 0"
  by (rule word_eq_iff_unsigned [where 'a = nat, THEN iffD2]) simp

lemma le_bytes_le_nat [simp]: "le_bytes (length bs) (le_nat bs) = bs"
proof (induction bs)
  case (Cons b bs)
  have "unat b < 256" by (rule byte_less)
  then have "(unat b + 256 * le_nat bs) div 256 = le_nat bs" by simp
  moreover have "(word_of_nat (unat b + 256 * le_nat bs) :: byte) = b"
    by (simp add: byte_256)
  ultimately show ?case using Cons by simp
qed simp

lemma be_nat_less: "be_nat bs < 256 ^ length bs"
  using le_nat_less[of "rev bs"] by (simp add: be_nat_def)

lemma be_bytes_be_nat [simp]: "be_bytes (length bs) (be_nat bs) = bs"
  using le_bytes_le_nat[of "rev bs"] by (simp add: be_bytes_def be_nat_def)


section \<open>Reading from a buffer\<close>

text \<open>
  The cursor of a \<open>bytes::Buf\<close> is the list of the remaining bytes. The typed getters
  of the \<open>bytes\<close> crate panic when the buffer is too short.
\<close>

type_synonym 'a reader = "bytes \<Rightarrow> ('a \<times> bytes) res"

definition split_to :: "nat \<Rightarrow> bytes reader" where
  "split_to n buf = (if length buf < n then Inl (Panic ''buffer exhausted'')
                     else Inr (take n buf, drop n buf))"

definition advance :: "nat \<Rightarrow> bytes \<Rightarrow> bytes res" where
  "advance n buf = (if length buf < n then Inl (Panic ''cannot advance past end'')
                    else Inr (drop n buf))"

definition get_u8 :: "byte reader" where
  "get_u8 buf = (case buf of [] \<Rightarrow> Inl (Panic ''buffer exhausted'') | b # bs \<Rightarrow> Inr (b, bs))"

definition get_be :: "nat \<Rightarrow> nat reader" where
  "get_be k buf = rbind (split_to k buf) (\<lambda>(h, t). Inr (be_nat h, t))"

definition get_le :: "nat \<Rightarrow> nat reader" where
  "get_le k buf = rbind (split_to k buf) (\<lambda>(h, t). Inr (le_nat h, t))"

lemma split_to_append [wire]: "length xs = n \<Longrightarrow> split_to n (xs @ ys) = Inr (xs, ys)"
  by (simp add: split_to_def)

lemma split_to_exact [wire]: "length xs = n \<Longrightarrow> split_to n xs = Inr (xs, [])"
  by (simp add: split_to_def)

lemma split_to_Inr: "split_to n buf = Inr (h, t) \<longleftrightarrow> length h = n \<and> buf = h @ t"
  by (auto simp: split_to_def)

lemma get_u8_Cons [wire]: "get_u8 (b # bs) = Inr (b, bs)"
  by (simp add: get_u8_def)

lemma get_u8_Inr: "get_u8 buf = Inr (b, bs) \<longleftrightarrow> buf = b # bs"
  by (auto simp: get_u8_def split: list.splits)

lemma get_be_append [wire]: "get_be k (be_bytes k n @ ys) = Inr (n mod 256 ^ k, ys)"
  by (simp add: get_be_def split_to_append)

lemma get_le_append [wire]: "get_le k (le_bytes k n @ ys) = Inr (n mod 256 ^ k, ys)"
  by (simp add: get_le_def split_to_append)

lemma get_be_Inr:
  "get_be k buf = Inr (n, t) \<longleftrightarrow> (n < 256 ^ k \<and> buf = be_bytes k n @ t)"
proof
  assume "get_be k buf = Inr (n, t)"
  then obtain h where h: "length h = k" "buf = h @ t" "n = be_nat h"
    by (auto simp: get_be_def split_to_Inr)
  then show "n < 256 ^ k \<and> buf = be_bytes k n @ t"
    using be_nat_less[of h] be_bytes_be_nat[of h] by simp
qed (auto simp: get_be_append)

lemma get_le_Inr:
  "get_le k buf = Inr (n, t) \<longleftrightarrow> (n < 256 ^ k \<and> buf = le_bytes k n @ t)"
proof
  assume "get_le k buf = Inr (n, t)"
  then obtain h where h: "length h = k" "buf = h @ t" "n = le_nat h"
    by (auto simp: get_le_def split_to_Inr)
  then show "n < 256 ^ k \<and> buf = le_bytes k n @ t"
    using le_nat_less[of h] le_bytes_le_nat[of h] by simp
qed (auto simp: get_le_append)


section \<open>Lists\<close>

lemma filter_distinct_map:
  "distinct (map f xs) \<Longrightarrow> distinct (map f (List.filter P xs))"
  by (simp add: distinct_map inj_on_filter_key_eq inj_on_def)

lemma sorted_wrt_filter_map:
  "sorted_wrt R xs \<Longrightarrow> sorted_wrt R (List.filter P xs)"
  by (rule sorted_wrt_filter)

lemma distinct_map_update:
  assumes "distinct (map f xs)" "i < length xs" "f y = f (xs ! i)"
  shows "distinct (map f (xs[i := y]))"
  using assms by (metis list_update_id map_update)

lemma set_take_drop: "set xs = set (take n xs) \<union> set (drop n xs)"
  by (metis append_take_drop_id set_append)

end
