(* ===== verification/Types.thy ===== *)
theory Types
  imports Prelude "HOL-Library.List_Lexorder" "HOL-Library.Sublist" "HOL-Library.Multiset"
begin

text \<open>
  The 32-, 8- and 64-byte newtypes of \<open>tools/types.rs\<close> and the small helpers of
  \<open>tools/tools.rs\<close>: array readers, leading-zero and leading-agreement bit counts (the
  proof-of-work and the Kademlia metrics), unbiased bounded random numbers, shuffling and
  length-prefixed JSON. A fixed-size array is a list of bytes together with a length
  predicate; a \<open>&[u8]\<close> slice is a list. The hex and JSON crates and the OS random
  number generator are arguments.
\<close>

unbundle bit_operations_syntax

section \<open>The newtypes\<close>

datatype id = Id (id_bytes: bytes)
datatype salt = Salt (salt_bytes: bytes)
datatype signature = Signature (signature_bytes: bytes)
datatype signature_key = SignatureKey (signature_key_bytes: bytes)
datatype verification_key_bytes = VerificationKeyBytes (vkb_bytes: bytes)
datatype pq_commitment_bytes = PQCommitmentBytes (pqc_bytes: bytes)
datatype hash = Hash (hash_bytes: bytes)

type_synonym pow = "8 word"

definition ID_BYTES :: nat where "ID_BYTES = 32"
definition SALT_BYTES :: nat where "SALT_BYTES = 8"
definition SIGNATURE_BYTES :: nat where "SIGNATURE_BYTES = 64"
definition VERIFICATION_KEY_BYTES :: nat where "VERIFICATION_KEY_BYTES = 32"
definition PQ_COMMITMENT_BYTES :: nat where "PQ_COMMITMENT_BYTES = 32"
definition HASH_BYTES :: nat where "HASH_BYTES = 32"

lemmas byte_counts = ID_BYTES_def SALT_BYTES_def SIGNATURE_BYTES_def
  VERIFICATION_KEY_BYTES_def PQ_COMMITMENT_BYTES_def HASH_BYTES_def

definition wf_id :: "id \<Rightarrow> bool" where "wf_id i \<longleftrightarrow> length (id_bytes i) = ID_BYTES"
definition wf_salt :: "salt \<Rightarrow> bool" where "wf_salt s \<longleftrightarrow> length (salt_bytes s) = SALT_BYTES"
definition wf_signature :: "signature \<Rightarrow> bool" where
  "wf_signature s \<longleftrightarrow> length (signature_bytes s) = SIGNATURE_BYTES"
definition wf_vkb :: "verification_key_bytes \<Rightarrow> bool" where
  "wf_vkb v \<longleftrightarrow> length (vkb_bytes v) = VERIFICATION_KEY_BYTES"
definition wf_pqc :: "pq_commitment_bytes \<Rightarrow> bool" where
  "wf_pqc p \<longleftrightarrow> length (pqc_bytes p) = PQ_COMMITMENT_BYTES"
definition wf_hash :: "hash \<Rightarrow> bool" where "wf_hash h \<longleftrightarrow> length (hash_bytes h) = HASH_BYTES"

lemmas wf_newtypes = wf_id_def wf_salt_def wf_signature_def wf_vkb_def wf_pqc_def wf_hash_def

lemma wf_lengths [wire]:
  "wf_id i \<Longrightarrow> length (id_bytes i) = 32"
  "wf_salt s \<Longrightarrow> length (salt_bytes s) = 8"
  "wf_signature g \<Longrightarrow> length (signature_bytes g) = 64"
  "wf_vkb v \<Longrightarrow> length (vkb_bytes v) = 32"
  "wf_pqc p \<Longrightarrow> length (pqc_bytes p) = 32"
  "wf_hash h \<Longrightarrow> length (hash_bytes h) = 32"
  by (simp_all add: wf_newtypes byte_counts)

instantiation id :: linorder
begin

definition less_eq_id :: "id \<Rightarrow> id \<Rightarrow> bool" where
  "less_eq_id x y \<longleftrightarrow> id_bytes x \<le> id_bytes y"

definition less_id :: "id \<Rightarrow> id \<Rightarrow> bool" where
  "less_id x y \<longleftrightarrow> id_bytes x < id_bytes y"

instance
  by standard (auto simp: less_eq_id_def less_id_def id.expand)

end

definition from_buf :: "nat \<Rightarrow> bytes reader" where
  "from_buf n buf = (if length buf \<ge> n then Inr (take n buf, drop n buf)
                     else Inl (Bail ''Buffer too short''))"

lemma from_buf_append [wire]: "length xs = n \<Longrightarrow> from_buf n (xs @ ys) = Inr (xs, ys)"
  by (simp add: from_buf_def)

lemma from_buf_Inr: "from_buf n buf = Inr (h, t) \<longleftrightarrow> length h = n \<and> buf = h @ t"
  by (auto simp: from_buf_def)

definition Id_zero :: id where "Id_zero = Id (replicate ID_BYTES 0)"
definition are_all_zeros :: "bytes \<Rightarrow> bool" where "are_all_zeros src \<longleftrightarrow> list_all (\<lambda>b. b = 0) src"
definition Id_is_zero :: "id \<Rightarrow> bool" where "Id_is_zero i \<longleftrightarrow> are_all_zeros (id_bytes i)"

definition array_from_slice :: "nat \<Rightarrow> string \<Rightarrow> bytes \<Rightarrow> bytes res" where
  "array_from_slice n msg bs = (if length bs = n then Inr bs else Inl (Bail msg))"

definition Id_from_slice :: "bytes \<Rightarrow> id res" where
  "Id_from_slice bs = rbind (array_from_slice ID_BYTES ''Invalid id length'' bs) (\<lambda>a. Inr (Id a))"

definition Id_from_buf :: "id reader" where
  "Id_from_buf buf = rbind (from_buf ID_BYTES buf) (\<lambda>(a, t). Inr (Id a, t))"

definition Id_from_hash :: "hash \<Rightarrow> id res" where
  "Id_from_hash h = (if length (hash_bytes h) \<noteq> 32 then Inl (Bail ''Invalid Hash length'')
                     else Inr (Id (hash_bytes h)))"

definition Salt_zero :: salt where "Salt_zero = Salt (replicate SALT_BYTES 0)"

definition Salt_from_slice :: "bytes \<Rightarrow> salt res" where
  "Salt_from_slice bs =
     rbind (array_from_slice SALT_BYTES ''Invalid salt length'' bs) (\<lambda>a. Inr (Salt a))"

definition Salt_from_buf :: "salt reader" where
  "Salt_from_buf buf = rbind (from_buf SALT_BYTES buf) (\<lambda>(a, t). Inr (Salt a, t))"

definition Signature_from_slice :: "bytes \<Rightarrow> signature res" where
  "Signature_from_slice bs =
     rbind (array_from_slice SIGNATURE_BYTES ''Invalid signature length'' bs) (\<lambda>a. Inr (Signature a))"

definition Signature_zero :: signature where
  "Signature_zero = Signature (replicate SIGNATURE_BYTES 0)"

definition VerificationKeyBytes_zero :: verification_key_bytes where
  "VerificationKeyBytes_zero = VerificationKeyBytes (replicate VERIFICATION_KEY_BYTES 0)"

definition PQCommitmentBytes_zero :: pq_commitment_bytes where
  "PQCommitmentBytes_zero = PQCommitmentBytes (replicate PQ_COMMITMENT_BYTES 0)"

definition PQCommitmentBytes_from_slice :: "bytes \<Rightarrow> pq_commitment_bytes res" where
  "PQCommitmentBytes_from_slice bs =
     rbind (array_from_slice PQ_COMMITMENT_BYTES ''Invalid PQCommitmentBytes length'' bs)
       (\<lambda>a. Inr (PQCommitmentBytes a))"

definition PQCommitmentBytes_from :: "bytes \<Rightarrow> bytes \<Rightarrow> pq_commitment_bytes" where
  "PQCommitmentBytes_from falcon dilithium = PQCommitmentBytes (take 16 falcon @ take 16 dilithium)"

definition Hash_zero :: hash where "Hash_zero = Hash (replicate HASH_BYTES 0)"

definition Hash_from_slice :: "bytes \<Rightarrow> hash res" where
  "Hash_from_slice bs = (if length bs \<noteq> HASH_BYTES then Inl (Bail ''incorrect byte count'')
                         else Inr (Hash bs))"

lemma wf_zero [simp, wf_intros]:
  "wf_id Id_zero" "wf_salt Salt_zero" "wf_signature Signature_zero"
  "wf_vkb VerificationKeyBytes_zero" "wf_pqc PQCommitmentBytes_zero" "wf_hash Hash_zero"
  by (simp_all add: wf_newtypes Id_zero_def Salt_zero_def Signature_zero_def
      VerificationKeyBytes_zero_def PQCommitmentBytes_zero_def Hash_zero_def)

lemma from_slice_wf [wire]:
  "wf_id i \<Longrightarrow> Id_from_slice (id_bytes i) = Inr i"
  "wf_salt s \<Longrightarrow> Salt_from_slice (salt_bytes s) = Inr s"
  "wf_signature g \<Longrightarrow> Signature_from_slice (signature_bytes g) = Inr g"
  "wf_pqc p \<Longrightarrow> PQCommitmentBytes_from_slice (pqc_bytes p) = Inr p"
  "wf_hash h \<Longrightarrow> Hash_from_slice (hash_bytes h) = Inr h"
  by (simp_all add: Id_from_slice_def Salt_from_slice_def Signature_from_slice_def
      PQCommitmentBytes_from_slice_def Hash_from_slice_def array_from_slice_def wf_newtypes)

lemma from_slice_Inr:
  "Id_from_slice bs = Inr i \<longleftrightarrow> wf_id i \<and> bs = id_bytes i"
  "Signature_from_slice bs = Inr g \<longleftrightarrow> wf_signature g \<and> bs = signature_bytes g"
  "Hash_from_slice bs = Inr h \<longleftrightarrow> wf_hash h \<and> bs = hash_bytes h"
  "PQCommitmentBytes_from_slice bs = Inr p \<longleftrightarrow> wf_pqc p \<and> bs = pqc_bytes p"
  by (cases i; cases g; cases h; cases p;
      auto simp: Id_from_slice_def Signature_from_slice_def Hash_from_slice_def
        PQCommitmentBytes_from_slice_def array_from_slice_def wf_newtypes)+

lemma newtypes_from_buf [wire]:
  "wf_id i \<Longrightarrow> Id_from_buf (id_bytes i @ ys) = Inr (i, ys)"
  "wf_salt s \<Longrightarrow> Salt_from_buf (salt_bytes s @ ys) = Inr (s, ys)"
  by (simp_all add: Id_from_buf_def Salt_from_buf_def from_buf_def wf_newtypes)

lemma Id_from_buf_Inr: "Id_from_buf buf = Inr (i, t) \<longleftrightarrow> wf_id i \<and> buf = id_bytes i @ t"
  by (cases i) (auto simp: Id_from_buf_def from_buf_Inr wf_id_def)

lemma Id_from_hash_Inr [simp]: "wf_hash h \<Longrightarrow> Id_from_hash h = Inr (Id (hash_bytes h))"
  by (simp add: Id_from_hash_def wf_hash_def HASH_BYTES_def)


section \<open>Hexadecimal text\<close>

text \<open>The \<open>hex\<close> crate is an argument: \<open>hex::encode\<close> and \<open>hex::decode\<close>.\<close>

definition from_hex_str :: "(string \<Rightarrow> bytes option) \<Rightarrow> nat \<Rightarrow> string \<Rightarrow> bytes res" where
  "from_hex_str hex_decode n s =
     (if length s \<noteq> 2 * n then Inl (Bail ''Invalid hex string length'')
      else rbind (of_option ''invalid hex'' (hex_decode s)) (\<lambda>decoded.
        if length decoded \<noteq> n then Inl (Bail ''Invalid hex string length'') else Inr decoded))"

definition Id_from_hex_str :: "(string \<Rightarrow> bytes option) \<Rightarrow> string \<Rightarrow> id res" where
  "Id_from_hex_str hex_decode s = rbind (from_hex_str hex_decode ID_BYTES s) (\<lambda>a. Inr (Id a))"

definition Id_to_hex_str :: "(bytes \<Rightarrow> string) \<Rightarrow> id \<Rightarrow> string" where
  "Id_to_hex_str hex_encode i = hex_encode (id_bytes i)"

lemma Id_hex_roundtrip:
  assumes "wf_id i" "length (hex_encode (id_bytes i)) = 64"
    and "hex_decode (hex_encode (id_bytes i)) = Some (id_bytes i)"
  shows "Id_from_hex_str hex_decode (Id_to_hex_str hex_encode i) = Inr i"
  using assms
  by (simp add: Id_from_hex_str_def Id_to_hex_str_def from_hex_str_def wf_id_def ID_BYTES_def)


section \<open>Bit counts\<close>

definition reverse_bytes :: "bytes \<Rightarrow> bytes" where
  "reverse_bytes bs = fold (\<lambda>(i, b) result. result[i := b])
     (enumerate 0 (rev bs)) (replicate (length bs) 0)"

lemma fold_update_enumerate:
  "length r = n + length xs \<Longrightarrow> fold (\<lambda>(i, b) r. r[i := b]) (enumerate n xs) r = take n r @ xs"
proof (induction xs arbitrary: n r)
  case (Cons x xs)
  then have "fold (\<lambda>(i, b) r. r[i := b]) (enumerate (Suc n) xs) (r[n := x]) = take (Suc n) (r[n := x]) @ xs"
    by (intro Cons.IH) simp
  with Cons.prems show ?case by (simp add: take_Suc_conv_app_nth)
qed simp

lemma reverse_bytes_rev [simp]: "reverse_bytes bs = rev bs"
  by (simp add: reverse_bytes_def fold_update_enumerate)

text \<open>The inner loop of \<open>count_leading_zero_bits\<close>: it does not return on a zero byte.\<close>

partial_function (option) mask_loop :: "byte \<Rightarrow> byte \<Rightarrow> nat \<Rightarrow> nat option" where
  [code]: "mask_loop b mask_byte cnt =
     (if b AND mask_byte = 0 then mask_loop b (drop_bit 1 mask_byte) (cnt + 1) else Some cnt)"

fun clz_loop :: "bytes \<Rightarrow> nat \<Rightarrow> nat option" where
  "clz_loop [] cnt = Some cnt"
| "clz_loop (b # bs) cnt =
     (if b = 0 then clz_loop bs (cnt + 8) else mask_loop b 0x80 cnt)"

definition count_leading_zero_bits :: "bytes \<Rightarrow> byte option" where
  "count_leading_zero_bits bs = (case clz_loop bs 0 of None \<Rightarrow> None
     | Some cnt \<Rightarrow> Some (if cnt < 256 then word_of_nat cnt else 255))"

definition byte_bits :: "byte \<Rightarrow> bool list" where
  "byte_bits b = map (bit b) (rev [0..<8])"

definition bits_of :: "bytes \<Rightarrow> bool list" where
  "bits_of bs = concat (map byte_bits bs)"

definition leading_zeros :: "byte \<Rightarrow> nat" where
  "leading_zeros b = length (takeWhile Not (byte_bits b))"

fun leading_agreement_bits_xor :: "bytes \<Rightarrow> bytes \<Rightarrow> nat" where
  "leading_agreement_bits_xor (a # as) (b # bs) =
     (if a XOR b \<noteq> 0 then leading_zeros (a XOR b) else 8 + leading_agreement_bits_xor as bs)"
| "leading_agreement_bits_xor _ _ = 0"

lemma byte_AND_exp_eq_0: "(b :: byte) AND 2 ^ k = 0 \<longleftrightarrow> \<not> bit b k" if "k < 8"
proof
  assume "b AND 2 ^ k = 0"
  then have "bit (b AND 2 ^ k) k = bit (0 :: byte) k" by simp
  with that show "\<not> bit b k" by (simp add: bit_simps)
next
  assume "\<not> bit b k"
  then show "b AND 2 ^ k = 0"
    by (intro bit_word_eqI) (auto simp: bit_and_iff bit_exp_iff)
qed

lemma byte_bit_ge_8: "\<not> bit (b :: byte) n" if "8 \<le> n"
  using that bit_imp_le_length[of b n] by fastforce

lemma byte_eq_0_iff: "(b :: byte) = 0 \<longleftrightarrow> (\<forall>k < 8. \<not> bit b k)"
  by (auto intro: bit_word_eqI)

lemma mask_loop_bits:
  assumes "k < 8" "\<exists>i \<le> k. bit b i"
  shows "mask_loop b (2 ^ k) c
    = Some (c + length (takeWhile Not (map (bit b) (rev [0..<Suc k]))))"
  using assms
proof (induction k arbitrary: c)
  case 0
  then show ?case by (subst mask_loop.simps) (simp add: and_one_eq bit_0 odd_iff_mod_2_eq_one)
next
  case (Suc k)
  show ?case
  proof (cases "bit b (Suc k)")
    case True
    with Suc.prems show ?thesis by (subst mask_loop.simps) (simp add: byte_AND_exp_eq_0 del: power_Suc)
  next
    case False
    have "\<exists>i \<le> k. bit b i" using Suc.prems False le_Suc_eq by auto
    moreover have "drop_bit 1 (2 ^ Suc k :: byte) = 2 ^ k"
      using Suc.prems by (intro bit_word_eqI) (auto simp: bit_drop_bit_eq bit_exp_iff simp del: power_Suc)
    ultimately show ?thesis
      using Suc.IH[of "Suc c"] Suc.prems False
      by (subst mask_loop.simps) (simp add: byte_AND_exp_eq_0 del: power_Suc)
  qed
qed

lemma length_byte_bits [simp]: "length (byte_bits b) = 8"
  by (simp add: byte_bits_def)

lemma length_bits_of [simp]: "length (bits_of bs) = 8 * length bs"
  by (induction bs) (auto simp: bits_of_def)

lemma bits_of_simps [simp]: "bits_of [] = []" "bits_of (b # bs) = byte_bits b @ bits_of bs"
  by (simp_all add: bits_of_def)

lemma mask_loop_eq:
  assumes "b \<noteq> 0"
  shows "mask_loop b 0x80 c = Some (c + leading_zeros b)"
proof -
  have "\<exists>i \<le> 7. bit b i" using assms byte_eq_0_iff[of b] by auto
  then show ?thesis using mask_loop_bits[of 7 b c]
    by (simp add: leading_zeros_def byte_bits_def del: upt_Suc)
qed

lemma takeWhile_bits_of_zero: "byte_bits 0 = replicate 8 False"
  by (simp add: byte_bits_def list_eq_iff_nth_eq rev_nth)

lemma byte_bits_inj: "byte_bits a = byte_bits b \<longleftrightarrow> a = b"
proof
  assume "byte_bits a = byte_bits b"
  then have "\<forall>k \<in> {0..<8}. bit a k = bit b k" by (simp add: byte_bits_def)
  then have "\<forall>k < 8. bit (a XOR b) k = False" by (simp add: bit_simps)
  then have "a XOR b = 0" by (simp add: byte_eq_0_iff)
  then show "a = b" by (metis xor.right_neutral xor_self_eq xor.assoc xor.left_neutral)
qed simp

lemma byte_bits_nonzero: "b \<noteq> 0 \<Longrightarrow> True \<in> set (byte_bits b)"
  by (auto simp: byte_eq_0_iff byte_bits_def image_iff)

lemma clz_loop_eq: "clz_loop bs c = Some (c + length (takeWhile Not (bits_of bs)))"
proof (induction bs arbitrary: c)
  case (Cons b bs)
  show ?case
  proof (cases "b = 0")
    case True
    with Cons show ?thesis by (simp add: takeWhile_bits_of_zero numeral_eq_Suc)
  next
    case False
    then have "takeWhile Not (byte_bits b @ bits_of bs) = takeWhile Not (byte_bits b)"
      using byte_bits_nonzero by (metis takeWhile_append1)
    with False show ?thesis by (simp add: mask_loop_eq leading_zeros_def)
  qed
qed simp

lemma clz_spec:
  "count_leading_zero_bits bs
     = Some (word_of_nat (min 255 (length (takeWhile Not (bits_of bs)))))"
  proof (cases "length (takeWhile Not (bits_of bs)) < 255")
  case False
  then consider "length (takeWhile Not (bits_of bs)) = 255" | "255 < length (takeWhile Not (bits_of bs))"
    by linarith
  then show ?thesis by cases (simp_all add: count_leading_zero_bits_def clz_loop_eq)
qed (simp add: count_leading_zero_bits_def clz_loop_eq)

lemma leading_zeros_xor:
  assumes "a XOR b \<noteq> 0"
  shows "longest_common_prefix (byte_bits a @ xs) (byte_bits b @ ys)
    = take (leading_zeros (a XOR b)) (byte_bits a)"
proof -
  have lcp: "longest_common_prefix (map f ns @ xs) (map g ns @ ys)
      = take (length (takeWhile Not (map (\<lambda>k. f k \<noteq> g k) ns))) (map f ns)"
    if "\<exists>k \<in> set ns. f k \<noteq> g k" for f g :: "nat \<Rightarrow> bool" and ns
    using that by (induction ns) auto
  have "\<exists>k \<in> set (rev [0..<8]). bit a k \<noteq> bit b k"
    using assms byte_eq_0_iff[of "a XOR b"] by (auto simp: bit_simps)
  moreover have "bit (a XOR b) = (\<lambda>k. bit a k \<noteq> bit b k)"
    by (rule ext) (simp add: bit_xor_iff)
  ultimately show ?thesis by (simp add: lcp leading_zeros_def byte_bits_def)
qed

lemma length_takeWhile_lt: "\<exists>x \<in> set xs. \<not> P x \<Longrightarrow> length (takeWhile P xs) < length xs"
  by (induction xs) auto

lemma leading_zeros_less: "b \<noteq> 0 \<Longrightarrow> leading_zeros b < 8"
  using byte_bits_nonzero[of b] length_takeWhile_lt[of "byte_bits b" Not]
  by (auto simp: leading_zeros_def)

lemma longest_common_prefix_same: "longest_common_prefix (xs @ ys) (xs @ zs) = xs @ longest_common_prefix ys zs"
  by (induction xs) auto

lemma leading_agreement_lcp:
  "leading_agreement_bits_xor xs ys = length (longest_common_prefix (bits_of xs) (bits_of ys))"
proof (induction xs ys rule: leading_agreement_bits_xor.induct)
  case (1 a as b bs)
  show ?case
  proof (cases "a XOR b = 0")
    case True
    then have "a = b" by (metis xor.right_neutral xor_self_eq xor.assoc xor.left_neutral)
    with 1 show ?thesis by (simp add: longest_common_prefix_same)
  next
    case False
    with leading_zeros_less[OF False] show ?thesis by (simp add: leading_zeros_xor)
  qed
qed simp_all

lemma lcp_prefix_iff: "prefix zs (longest_common_prefix xs ys) \<longleftrightarrow> prefix zs xs \<and> prefix zs ys"
  by (meson longest_common_prefix_prefix1 longest_common_prefix_prefix2
      longest_common_prefix_max_prefix prefix_order.trans)

lemma leading_agreement_bits_ge:
  "n \<le> leading_agreement_bits_xor xs ys \<longleftrightarrow>
   n \<le> length (bits_of xs) \<and> n \<le> length (bits_of ys) \<and> take n (bits_of xs) = take n (bits_of ys)"
proof -
  have "n \<le> length (longest_common_prefix as bs) \<longleftrightarrow>
        n \<le> length as \<and> n \<le> length bs \<and> take n as = take n bs" for as bs :: "bool list"
  proof (induction as bs arbitrary: n rule: longest_common_prefix.induct)
    case (1 x xs y ys)
    then show ?case by (cases n) auto
  qed auto
  then show ?thesis by (simp add: leading_agreement_lcp)
qed

lemma leading_agreement_sym: "leading_agreement_bits_xor xs ys = leading_agreement_bits_xor ys xs"
proof -
  have "leading_agreement_bits_xor as bs \<le> leading_agreement_bits_xor bs as" for as bs
    using leading_agreement_bits_ge[of "leading_agreement_bits_xor as bs" as bs]
      leading_agreement_bits_ge[of "leading_agreement_bits_xor as bs" bs as] by simp
  then show ?thesis by (simp add: antisym)
qed

lemma leading_agreement_min:
  "min (leading_agreement_bits_xor xs ys) (leading_agreement_bits_xor ys zs) \<le> leading_agreement_bits_xor xs zs"
proof -
  let ?n = "min (leading_agreement_bits_xor xs ys) (leading_agreement_bits_xor ys zs)"
  have "?n \<le> leading_agreement_bits_xor xs ys" "?n \<le> leading_agreement_bits_xor ys zs"
    by simp_all
  then show ?thesis unfolding leading_agreement_bits_ge by simp
qed

text \<open>the Kademlia metric is the length of the longest common bit prefix of two keys; it is symmetric, and any
  two keys that both agree with a third on some number of bits agree with each other on as many.\<close>

theorem leading_agreement_ultrametric:
  "leading_agreement_bits_xor xs ys = length (longest_common_prefix (bits_of xs) (bits_of ys))
    \<and> leading_agreement_bits_xor xs ys = leading_agreement_bits_xor ys xs
    \<and> min (leading_agreement_bits_xor xs ys) (leading_agreement_bits_xor ys zs) \<le> leading_agreement_bits_xor xs zs"
  using leading_agreement_lcp leading_agreement_sym leading_agreement_min by blast




section \<open>Random choices\<close>

text \<open>
  The OS generator is the list of the words it will deliver; a function that runs out of
  words has not returned, which is \<open>None\<close>. \<open>usize\<close> is 64 bits wide. The remainder by zero
  panics.
\<close>

type_synonym 'a random = "nat list \<Rightarrow> ('a res \<times> nat list) option"

definition USIZE_MAX :: nat where "USIZE_MAX = 2 ^ 64 - 1"

definition random_zone :: "nat \<Rightarrow> nat" where
  "random_zone upper = USIZE_MAX - (USIZE_MAX mod upper)"

fun random_draw :: "nat \<Rightarrow> nat \<Rightarrow> nat list \<Rightarrow> (nat \<times> nat list) option" where
  "random_draw zone upper [] = None"
| "random_draw zone upper (r # rs) =
     (if r < zone then Some (r mod upper, rs) else random_draw zone upper rs)"

definition random_usize_bounded :: "nat \<Rightarrow> nat random" where
  "random_usize_bounded upper rs =
     (if upper = 0 then Some (Inl (Panic ''remainder with a divisor of zero''), rs)
      else map_option (\<lambda>(v, rs'). (Inr v, rs')) (random_draw (random_zone upper) upper rs))"

definition swap :: "nat \<Rightarrow> nat \<Rightarrow> 'a list \<Rightarrow> 'a list" where
  "swap i j xs = xs[i := xs ! j, j := xs ! i]"

fun shuffle_from :: "nat list \<Rightarrow> 'a list \<Rightarrow> nat list \<Rightarrow> ('a list \<times> nat list) option" where
  "shuffle_from [] xs rs = Some (xs, rs)"
| "shuffle_from (i # is) xs rs =
     (case random_usize_bounded (i + 1) rs of
        Some (Inr j, rs') \<Rightarrow> shuffle_from is (swap i j xs) rs'
      | _ \<Rightarrow> None)"

definition shuffle :: "'a list \<Rightarrow> nat list \<Rightarrow> ('a list \<times> nat list) option" where
  "shuffle xs rs = shuffle_from [1..<length xs] xs rs"

lemma random_draw_Some:
  "random_draw z u rs = Some (v, rs') \<Longrightarrow> \<exists>r. r \<in> set rs \<and> r < z \<and> v = r mod u"
  by (induction rs) (auto split: if_splits)

lemma random_usize_bounded_less:
  "random_usize_bounded upper rs = Some (Inr v, rs') \<Longrightarrow> v < upper"
  by (auto simp: random_usize_bounded_def split: if_splits dest!: random_draw_Some)

lemma card_mod_class:
  assumes "0 < u" "j < u"
  shows "card {r. r < u * q \<and> r mod u = j} = q"
proof -
  have "{r. r < u * q \<and> r mod u = j} = (\<lambda>k. u * k + j) ` {..<q}"
  proof (safe)
    fix r assume r: "r < u * q" "j = r mod u"
    then have "r = u * (r div u) + r mod u" "r div u < q"
      using assms by (auto simp: less_mult_imp_div_less mult.commute)
    then show "r \<in> (\<lambda>k. u * k + r mod u) ` {..<q}" by blast
  next
    fix k assume k: "k < q"
    have "u * k + j < u * (k + 1)" using assms by simp
    also have "\<dots> \<le> u * q" using k by (intro mult_le_mono2) simp
    finally show "u * k + j < u * q" .
  qed (use assms in auto)
  moreover have "inj_on (\<lambda>k. u * k + j) {..<q}" using assms by (auto intro: inj_onI)
  ultimately show ?thesis by (simp add: card_image)
qed

text \<open>rejection sampling has no modulo bias: among the accepted words every residue below the
  bound is hit by the same number of words.\<close>

theorem random_usize_bounded_unbiased:
  assumes "0 < upper" "j < upper"
  shows "card {r. r < random_zone upper \<and> r mod upper = j} = USIZE_MAX div upper"
proof -
  have "random_zone upper = upper * (USIZE_MAX div upper)"
    by (metis minus_mod_eq_mult_div random_zone_def)
  then show ?thesis using card_mod_class[OF assms] by simp
qed

theorem random_usize_bounded_unbiased_witness:
  "card {r. r < random_zone 7 \<and> r mod 7 = 3} = USIZE_MAX div 7"
  using random_usize_bounded_unbiased[of 7 3] by simp

lemma mset_swap: "i < length xs \<Longrightarrow> j < length xs \<Longrightarrow> mset (swap i j xs) = mset xs"
  by (simp add: swap_def mset_swap)

lemma length_swap [simp]: "length (swap i j xs) = length xs"
  by (simp add: swap_def)

lemma shuffle_from_mset:
  "shuffle_from is xs rs = Some (ys, rs') \<Longrightarrow> \<forall>i \<in> set is. i < length xs \<Longrightarrow> mset ys = mset xs"
proof (induction "is" xs rs rule: shuffle_from.induct)
  case (2 i "is" xs rs)
  then obtain j rs'' where j: "random_usize_bounded (i + 1) rs = Some (Inr j, rs'')"
      "shuffle_from is (swap i j xs) rs'' = Some (ys, rs')"
    by (auto split: option.splits sum.splits prod.splits)
  moreover have "j < length xs" using random_usize_bounded_less[OF j(1)] 2(3) by auto
  ultimately show ?case using 2 by (auto simp: mset_swap)
qed simp

lemma shuffle_mset: "shuffle xs rs = Some (ys, rs') \<Longrightarrow> mset ys = mset xs"
  unfolding shuffle_def by (erule shuffle_from_mset) simp


section \<open>JSON and length prefixes\<close>

text \<open>A \<open>serde_json\<close> codec is the pair of its printer and its parser, arguments of the model.\<close>

record 'a codec =
  enc :: "'a \<Rightarrow> bytes"
  dec :: "bytes \<Rightarrow> 'a option"

definition usize_encode_le64 :: "nat \<Rightarrow> bytes" where
  "usize_encode_le64 v = le_bytes 8 v"

definition usize_decode_le64 :: "bytes \<Rightarrow> nat res" where
  "usize_decode_le64 bs = (if length bs = 8 then Inr (le_nat bs) else Inl (Bail ''TryFromSlice''))"

definition write_length_prefixed_json :: "'a codec \<Rightarrow> bytes \<Rightarrow> 'a \<Rightarrow> bytes" where
  "write_length_prefixed_json c out v = out @ be_bytes 8 (length (enc c v)) @ enc c v"

definition read_length_prefixed_json :: "'a codec \<Rightarrow> 'a reader" where
  "read_length_prefixed_json c buf =
     (if length buf < 8 then Inl (Bail ''Invalid buffer: missing json length'')
      else rbind (get_be 8 buf) (\<lambda>(len, buf1).
        if length buf1 < len then Inl (Bail ''Invalid buffer: json data truncated'')
        else rbind (split_to len buf1) (\<lambda>(json_bytes, rest).
          rbind (of_option ''json'' (dec c json_bytes)) (\<lambda>v. Inr (v, rest)))))"

lemma usize_le64_roundtrip: "v \<le> USIZE_MAX \<Longrightarrow> usize_decode_le64 (usize_encode_le64 v) = Inr v"
  by (simp add: usize_decode_le64_def usize_encode_le64_def USIZE_MAX_def)

lemma read_write_length_prefixed_json [wire]:
  assumes "dec c (enc c v) = Some v" "length (enc c v) < 2 ^ 64"
  shows "read_length_prefixed_json c (write_length_prefixed_json c [] v @ rest) = Inr (v, rest)"
  using assms
  by (simp add: read_length_prefixed_json_def write_length_prefixed_json_def get_be_append split_to_append)

end
