(* ===== verification/Text.thy ===== *)
theory Text
  imports Prelude "HOL-Library.Signed_Division"
begin

text \<open>
  The part of Rust's \<open>str\<close> and integer formatting that the program uses. A \<open>str\<close> is its
  list of UTF-8 bytes, an Isabelle \<^typ>\<open>string\<close>; slicing at a byte position that is not a
  character boundary panics. \<open>i64\<close> values are mathematical integers, and each operation
  that may leave the range says what it does.
\<close>

section \<open>Signed 64-bit range\<close>

definition I64_MAX :: int where "I64_MAX = 2 ^ 63 - 1"
definition I64_MIN :: int where "I64_MIN = - (2 ^ 63)"

definition in_i64 :: "int \<Rightarrow> bool" where
  "in_i64 x \<longleftrightarrow> I64_MIN \<le> x \<and> x \<le> I64_MAX"

definition sat_i64 :: "int \<Rightarrow> int" where
  "sat_i64 x = (if x < I64_MIN then I64_MIN else if x > I64_MAX then I64_MAX else x)"

definition checked_i64 :: "int \<Rightarrow> int option" where
  "checked_i64 x = (if in_i64 x then Some x else None)"

lemma sat_i64_in [simp]: "in_i64 (sat_i64 x)"
  by (simp add: in_i64_def sat_i64_def I64_MAX_def I64_MIN_def)

lemma sat_i64_id [simp]: "in_i64 x \<Longrightarrow> sat_i64 x = x"
  by (simp add: in_i64_def sat_i64_def)

lemma in_i64_numeral: "in_i64 x \<longleftrightarrow> - 9223372036854775808 \<le> x \<and> x \<le> 9223372036854775807"
  by (simp add: in_i64_def I64_MIN_def I64_MAX_def)

lemma sat_i64_mono: "x \<le> y \<Longrightarrow> sat_i64 x \<le> sat_i64 y"
  by (simp add: sat_i64_def I64_MIN_def I64_MAX_def)

definition encode_i64_be :: "int \<Rightarrow> bytes" where
  "encode_i64_be v = be_bytes 8 (nat (v mod 2 ^ 64))"

definition decode_i64_be :: "bytes \<Rightarrow> int" where
  "decode_i64_be bs = (let n = int (be_nat bs) in if n < 2 ^ 63 then n else n - 2 ^ 64)"

lemma length_encode_i64_be [simp]: "length (encode_i64_be v) = 8"
  by (simp add: encode_i64_be_def)

lemma decode_encode_i64_be [wire]: "in_i64 v \<Longrightarrow> decode_i64_be (encode_i64_be v) = v"
proof -
  assume v: "in_i64 v"
  have "nat (v mod 2 ^ 64) < 256 ^ 8" by (simp add: nat_less_iff)
  then have "be_nat (encode_i64_be v) = nat (v mod 2 ^ 64)"
    by (simp add: encode_i64_be_def)
  moreover have "v mod 2 ^ 64 = (if v < 0 then v + 2 ^ 64 else v)"
  proof (cases "v < 0")
    case True
    have "v mod 2 ^ 64 = (v + 2 ^ 64) mod 2 ^ 64" by simp
    also have "\<dots> = v + 2 ^ 64" by (rule mod_pos_pos_trivial) (use v True in \<open>auto simp: in_i64_numeral\<close>)
    finally show ?thesis using True by simp
  qed (use v in \<open>simp add: in_i64_numeral mod_pos_pos_trivial\<close>)
  ultimately show ?thesis
    using v by (auto simp: decode_i64_be_def in_i64_numeral Let_def)
qed

lemma encode_i64_be_inj: "in_i64 v \<Longrightarrow> in_i64 w \<Longrightarrow> encode_i64_be v = encode_i64_be w \<longleftrightarrow> v = w"
  by (metis decode_encode_i64_be)

lemma in_i64_decode [simp]: "length bs = 8 \<Longrightarrow> in_i64 (decode_i64_be bs)"
  using be_nat_less[of bs] by (auto simp: decode_i64_be_def in_i64_numeral Let_def)


section \<open>Decimal numbers\<close>

definition is_digit :: "char \<Rightarrow> bool" where
  "is_digit c \<longleftrightarrow> c \<in> set ''0123456789''"

definition digit_char :: "nat \<Rightarrow> char" where
  "digit_char d = ''0123456789'' ! d"

definition digit_val :: "char \<Rightarrow> nat" where
  "digit_val c = (of_char c :: nat) - 48"

fun show_nat :: "nat \<Rightarrow> string" where
  "show_nat n = (if n < 10 then [digit_char n] else show_nat (n div 10) @ [digit_char (n mod 10)])"

declare show_nat.simps [simp del]

definition digits_val :: "string \<Rightarrow> nat" where
  "digits_val ds = foldl (\<lambda>acc c. acc * 10 + digit_val c) 0 ds"

definition show_int :: "int \<Rightarrow> string" where
  "show_int x = (if x < 0 then ''-'' @ show_nat (nat (- x)) else show_nat (nat x))"

text \<open>\<open>{:0w}\<close>: the sign counts in the width, and the zeros go after it.\<close>

definition show_padded :: "nat \<Rightarrow> int \<Rightarrow> string" where
  "show_padded w x =
     (let sign = (if x < 0 then ''-'' else ''''); ds = show_nat (nat \<bar>x\<bar>)
      in sign @ replicate (w - length sign - length ds) (CHR ''0'') @ ds)"

text \<open>\<open>str::parse\<close> into an integer type with the given bounds: an optional sign (the minus
  only for signed types), then at least one digit and nothing else.\<close>

definition parse_int :: "int \<Rightarrow> int \<Rightarrow> string \<Rightarrow> int res" where
  "parse_int lo hi s =
     (let (neg, ds) = (case s of [] \<Rightarrow> (False, [])
             | c # cs \<Rightarrow> if c = CHR ''+'' then (False, cs)
                         else if c = CHR ''-'' \<and> lo < 0 then (True, cs) else (False, c # cs));
          v = (if neg then - int (digits_val ds) else int (digits_val ds))
      in if ds = [] \<or> \<not> list_all is_digit ds then Inl (Bail ''invalid digit'')
         else if lo \<le> v \<and> v \<le> hi then Inr v else Inl (Bail ''number out of range''))"

lemma lt_10_cases: "(d :: nat) < 10 \<Longrightarrow>
  d = 0 \<or> d = 1 \<or> d = 2 \<or> d = 3 \<or> d = 4 \<or> d = 5 \<or> d = 6 \<or> d = 7 \<or> d = 8 \<or> d = 9"
  by presburger

lemma digit_char_props: "d < 10 \<Longrightarrow> is_digit (digit_char d) \<and> digit_val (digit_char d) = d
    \<and> digit_char d \<noteq> CHR ''+'' \<and> digit_char d \<noteq> CHR ''-'' \<and> of_char (digit_char d) < (128 :: nat)"
  by (drule lt_10_cases) (auto simp: digit_char_def is_digit_def digit_val_def)

lemma show_nat_digits: "list_all is_digit (show_nat n)"
proof (induction n rule: show_nat.induct)
  case (1 n)
  then show ?case by (subst show_nat.simps) (auto simp: digit_char_props)
qed

lemma show_nat_ne [simp]: "show_nat n \<noteq> []"
  by (subst show_nat.simps) auto

lemma digits_val_show_nat [simp]: "digits_val (show_nat n) = n"
proof (induction n rule: show_nat.induct)
  case (1 n)
  show ?case
  proof (cases "n < 10")
    case True
    then show ?thesis by (subst show_nat.simps) (simp add: digits_val_def digit_char_props)
  next
    case False
    then have "digits_val (show_nat n) = digits_val (show_nat (n div 10)) * 10 + n mod 10"
      by (subst show_nat.simps) (simp add: digits_val_def digit_char_props)
    with 1 False show ?thesis by simp
  qed
qed

lemma is_digit_not_sign: "is_digit c \<Longrightarrow> c \<noteq> CHR ''+'' \<and> c \<noteq> CHR ''-''"
  by (auto simp: is_digit_def)

lemma digits_val_zeros: "digits_val (replicate k (CHR ''0'') @ ds) = digits_val ds"
  by (induction k) (auto simp: digits_val_def digit_val_def)

lemma parse_int_digits:
  assumes "list_all is_digit ds" "ds \<noteq> []" "lo \<le> int (digits_val ds)" "int (digits_val ds) \<le> hi"
  shows "parse_int lo hi ds = Inr (int (digits_val ds))"
  using assms is_digit_not_sign by (cases ds) (auto simp: parse_int_def)

lemma parse_int_show_nat:
  "lo \<le> int n \<Longrightarrow> int n \<le> hi \<Longrightarrow> parse_int lo hi (show_nat n) = Inr (int n)"
  using parse_int_digits[of "show_nat n"] show_nat_digits by simp

lemma length_show_nat: "0 < k \<Longrightarrow> length (show_nat n) \<le> k \<longleftrightarrow> n < 10 ^ k"
proof (induction n arbitrary: k rule: show_nat.induct)
  case (1 n)
  show ?case
  proof (cases "n < 10")
    case True
    moreover have "(10 :: nat) ^ 1 \<le> 10 ^ k" by (rule power_increasing) (use 1 in auto)
    ultimately show ?thesis using 1(2) by (subst show_nat.simps) (simp add: Suc_le_eq)
  next
    case False
    then have len: "length (show_nat n) = Suc (length (show_nat (n div 10)))"
      by (subst show_nat.simps) simp
    show ?thesis
    proof (cases "k = 1")
      case True
      with False len show ?thesis by simp
    next
      case k: False
      then obtain j where j: "k = Suc j" "0 < j" using 1(2) by (cases k) auto
      have "n div 10 < 10 ^ j \<longleftrightarrow> n < 10 ^ Suc j" by (simp add: div_less_iff_less_mult mult.commute)
      with len 1(1)[OF False j(2)] j show ?thesis by simp
    qed
  qed
qed

lemma show_padded_eq:
  "0 \<le> x \<Longrightarrow> show_padded w x = replicate (w - length (show_nat (nat x))) (CHR ''0'') @ show_nat (nat x)"
  by (simp add: show_padded_def Let_def)

lemma digit_0: "is_digit (CHR ''0'')"
  by (simp add: is_digit_def)

lemma show_padded_nonneg:
  assumes "0 \<le> x"
  shows "list_all is_digit (show_padded w x)" "digits_val (show_padded w x) = nat x"
    "show_padded w x \<noteq> []"
  using assms show_nat_digits[of "nat x"] digit_0
  by (auto simp add: show_padded_eq digits_val_zeros list_all_iff)

lemma length_show_padded:
  assumes "0 \<le> x" "0 < w" "x < 10 ^ w"
  shows "length (show_padded w x) = w"
proof -
  have "nat x < 10 ^ w" using assms by (simp add: nat_less_iff)
  with assms show ?thesis by (simp add: show_padded_eq length_show_nat)
qed

lemma parse_int_show_padded:
  assumes "0 \<le> x" "lo \<le> x" "x \<le> hi"
  shows "parse_int lo hi (show_padded w x) = Inr x"
  using parse_int_digits[of "show_padded w x" lo hi] show_padded_nonneg[of x w] assms by simp

lemma takeWhile_digits_append:
  assumes "list_all is_digit ds" "rest \<noteq> [] \<Longrightarrow> \<not> is_digit (hd rest)"
  shows "takeWhile is_digit (ds @ rest) = ds" "dropWhile is_digit (ds @ rest) = rest"
  using assms by (induction ds; cases rest; auto)+


section \<open>Slices, splits and trimming\<close>

definition char_boundary :: "string \<Rightarrow> nat \<Rightarrow> bool" where
  "char_boundary s i \<longleftrightarrow> i = length s \<or>
     (i < length s \<and> \<not> (128 \<le> (of_char (s ! i) :: nat) \<and> (of_char (s ! i) :: nat) < 192))"

definition str_slice :: "string \<Rightarrow> nat \<Rightarrow> nat \<Rightarrow> string res" where
  "str_slice s i j = (if i \<le> j \<and> char_boundary s i \<and> char_boundary s j
     then Inr (take (j - i) (drop i s)) else Inl (Panic ''byte index is not a char boundary''))"

lemma str_slice_ascii:
  assumes "list_all is_digit s" "i \<le> j" "j \<le> length s"
  shows "str_slice s i j = Inr (take (j - i) (drop i s))"
proof -
  have "char_boundary s k" if "k \<le> length s" for k
  proof (cases "k = length s")
    case False
    then have "is_digit (s ! k)" using assms(1) that by (simp add: list_all_length)
    then show ?thesis using that False by (auto simp: char_boundary_def is_digit_def)
  qed (simp add: char_boundary_def)
  with assms show ?thesis by (auto simp: str_slice_def)
qed

fun split_on :: "char \<Rightarrow> string \<Rightarrow> string list" where
  "split_on d [] = [ [] ]"
| "split_on d (c # cs) = (if c = d then [] # split_on d cs
     else (case split_on d cs of [] \<Rightarrow> [ [c] ] | p # ps \<Rightarrow> (c # p) # ps))"

text \<open>\<open>splitn(n, d)\<close>: at most \<open>n\<close> parts, the last one keeps the remaining separators.\<close>

fun splitn_on :: "nat \<Rightarrow> char \<Rightarrow> string \<Rightarrow> string list" where
  "splitn_on 0 d s = []"
| "splitn_on (Suc 0) d s = [s]"
| "splitn_on (Suc (Suc n)) d s =
     (let p = takeWhile (\<lambda>c. c \<noteq> d) s; r = dropWhile (\<lambda>c. c \<noteq> d) s
      in case r of [] \<Rightarrow> [p] | _ # r' \<Rightarrow> p # splitn_on (Suc n) d r')"

lemma split_on_part: "d \<notin> set p \<Longrightarrow> split_on d p = [p]"
  by (induction p) auto

lemma split_on_append: "d \<notin> set p \<Longrightarrow> split_on d (p @ d # s) = p # split_on d s"
  by (induction p) auto

lemma takeWhile_sep:
  "d \<notin> set p \<Longrightarrow> takeWhile (\<lambda>c. c \<noteq> d) (p @ d # s) = p"
  "d \<notin> set p \<Longrightarrow> dropWhile (\<lambda>c. c \<noteq> d) (p @ d # s) = d # s"
  "d \<notin> set p \<Longrightarrow> takeWhile (\<lambda>c. c \<noteq> d) p = p"
  "d \<notin> set p \<Longrightarrow> dropWhile (\<lambda>c. c \<noteq> d) p = []"
  by (induction p) auto

lemma splitn_on_append:
  "d \<notin> set p \<Longrightarrow> splitn_on (Suc (Suc n)) d (p @ d # s) = p # splitn_on (Suc n) d s"
  "d \<notin> set p \<Longrightarrow> splitn_on (Suc n) d p = [p]"
  by (simp_all add: takeWhile_sep) (cases n; simp add: takeWhile_sep)

text \<open>The UTF-8 encodings of the characters with the Unicode property \<open>White_Space\<close>.\<close>

definition ws_seqs :: "string list" where
  "ws_seqs = map (map char_of) ([ [9], [10], [11], [12], [13], [32], [194, 133], [194, 160],
     [225, 154, 128], [226, 128, 168], [226, 128, 169], [226, 128, 175], [226, 129, 159],
     [227, 128, 128 :: nat] ] @ map (\<lambda>k. [226, 128, k]) [128..<139])"

definition ws_prefix :: "string \<Rightarrow> nat" where
  "ws_prefix s = (case List.find (\<lambda>w. take (length w) s = w) ws_seqs of None \<Rightarrow> 0 | Some w \<Rightarrow> length w)"

function trim_start :: "string \<Rightarrow> string" where
  "trim_start s = (let n = ws_prefix s in if n = 0 \<or> s = [] then s else trim_start (drop n s))"
  by auto
termination by (relation "measure length") auto

declare trim_start.simps [simp del]

definition ws_suffix :: "string \<Rightarrow> nat" where
  "ws_suffix s = (case List.find (\<lambda>w. length w \<le> length s \<and> drop (length s - length w) s = w) ws_seqs of
     None \<Rightarrow> 0 | Some w \<Rightarrow> length w)"

function trim_end :: "string \<Rightarrow> string" where
  "trim_end s = (let n = ws_suffix s in if n = 0 \<or> s = [] then s else trim_end (take (length s - n) s))"
  by auto
termination by (relation "measure length") (auto simp: Let_def)

declare trim_end.simps [simp del]

definition trim :: "string \<Rightarrow> string" where
  "trim s = trim_end (trim_start s)"

definition not_ws :: "char \<Rightarrow> bool" where
  "not_ws c \<longleftrightarrow> is_digit c \<or> c \<in> set ''+-MWDhms''"

lemma ws_seqs_ends: "list_all (\<lambda>w. w \<noteq> [] \<and> \<not> not_ws (hd w) \<and> \<not> not_ws (last w)) ws_seqs"
  by code_simp

lemma ws_prefix_0: "s \<noteq> [] \<Longrightarrow> not_ws (hd s) \<Longrightarrow> ws_prefix s = 0"
proof -
  assume s: "s \<noteq> []" "not_ws (hd s)"
  have "take (length w) s \<noteq> w" if "w \<in> set ws_seqs" for w
    using s ws_seqs_ends that by (cases s; cases w) (auto simp: list_all_iff)
  then have "List.find (\<lambda>w. take (length w) s = w) ws_seqs = None" by (simp add: find_None_iff)
  then show ?thesis by (simp add: ws_prefix_def)
qed

lemma ws_suffix_0: "s \<noteq> [] \<Longrightarrow> not_ws (last s) \<Longrightarrow> ws_suffix s = 0"
proof -
  assume s: "s \<noteq> []" "not_ws (last s)"
  have "\<not> (length w \<le> length s \<and> drop (length s - length w) s = w)" if "w \<in> set ws_seqs" for w
  proof
    assume w: "length w \<le> length s \<and> drop (length s - length w) s = w"
    have "w \<noteq> []" "\<not> not_ws (last w)" using that ws_seqs_ends by (auto simp: list_all_iff)
    moreover have "last w = last s"
      using w \<open>w \<noteq> []\<close> by (metis append_take_drop_id last_appendR)
    ultimately show False using s by simp
  qed
  then have "List.find (\<lambda>w. length w \<le> length s \<and> drop (length s - length w) s = w) ws_seqs = None"
    by (simp add: find_None_iff)
  then show ?thesis by (simp add: ws_suffix_def)
qed

lemma trim_id: "s \<noteq> [] \<Longrightarrow> not_ws (hd s) \<Longrightarrow> not_ws (last s) \<Longrightarrow> trim s = s"
  by (simp add: trim_def trim_start.simps[of s] trim_end.simps[of s] ws_prefix_0 ws_suffix_0)

end
