(* ===== verification/Time.thy ===== *)
theory Time
  imports Types Text
begin

text \<open>
  \<open>tools/time.rs\<close>: millisecond timestamps and durations as \<open>i64\<close>, with the saturating
  operators, the big-endian encoding that is hashed and sent, the duration syntax
  (\<open>1M2W3D4h5m6s7\<mu>s\<close>) with its parser, and the calendar text form. The calendar itself is
  the \<open>chrono\<close> crate, an argument.
\<close>

type_synonym time_millis = int
type_synonym duration_millis = int

definition time_saturating_add :: "time_millis \<Rightarrow> duration_millis \<Rightarrow> time_millis" where
  "time_saturating_add t d = sat_i64 (t + d)"

definition saturating_sub_duration :: "time_millis \<Rightarrow> duration_millis \<Rightarrow> time_millis" where
  "saturating_sub_duration t d = sat_i64 (t - d)"

definition saturating_sub_time :: "time_millis \<Rightarrow> time_millis \<Rightarrow> duration_millis" where
  "saturating_sub_time t u = sat_i64 (t - u)"

definition time_sub :: "time_millis \<Rightarrow> time_millis \<Rightarrow> duration_millis" where
  "time_sub t u = sat_i64 (t - u)"

definition time_add_dur :: "time_millis \<Rightarrow> duration_millis \<Rightarrow> time_millis" where
  "time_add_dur t d = sat_i64 (t + d)"

definition time_sub_dur :: "time_millis \<Rightarrow> duration_millis \<Rightarrow> time_millis" where
  "time_sub_dur t d = sat_i64 (t - d)"

definition as_secs :: "time_millis \<Rightarrow> int" where "as_secs t = t sdiv 1000"

definition part_nanos :: "time_millis \<Rightarrow> int" where "part_nanos t = (t smod 1000) * 1000000"

definition time_encode_be :: "time_millis \<Rightarrow> bytes" where "time_encode_be t = encode_i64_be t"

definition TimeMillisBytes_from_bytes :: "bytes \<Rightarrow> bytes res" where
  "TimeMillisBytes_from_bytes bs = (if length bs \<noteq> 8 then Inl (Bail ''Invalid time millis bytes length'')
     else Inr bs)"

definition timestamp_decode_be :: "bytes \<Rightarrow> time_millis" where
  "timestamp_decode_be bs = decode_i64_be bs"

definition duration_encode_be :: "duration_millis \<Rightarrow> bytes" where
  "duration_encode_be d = encode_i64_be d"

definition const_mul :: "duration_millis \<Rightarrow> int \<Rightarrow> duration_millis" where
  "const_mul d k = d * k"

definition duration_abs :: "duration_millis \<Rightarrow> duration_millis res" where
  "duration_abs d = (if d = I64_MIN then Inl (Panic ''attempt to negate with overflow'') else Inr \<bar>d\<bar>)"

definition MILLIS_IN_MILLISECOND :: duration_millis where "MILLIS_IN_MILLISECOND = 1"
definition MILLIS_IN_SECOND :: duration_millis where "MILLIS_IN_SECOND = const_mul MILLIS_IN_MILLISECOND 1000"
definition MILLIS_IN_MINUTE :: duration_millis where "MILLIS_IN_MINUTE = const_mul MILLIS_IN_SECOND 60"
definition MILLIS_IN_HOUR :: duration_millis where "MILLIS_IN_HOUR = const_mul MILLIS_IN_MINUTE 60"
definition MILLIS_IN_DAY :: duration_millis where "MILLIS_IN_DAY = const_mul MILLIS_IN_HOUR 24"
definition MILLIS_IN_WEEK :: duration_millis where "MILLIS_IN_WEEK = const_mul MILLIS_IN_DAY 7"
definition MILLIS_IN_MONTH :: duration_millis where "MILLIS_IN_MONTH = const_mul MILLIS_IN_WEEK 4"
definition MILLIS_IN_YEAR :: duration_millis where "MILLIS_IN_YEAR = const_mul MILLIS_IN_MONTH 12"

lemma millis_values:
  "MILLIS_IN_MILLISECOND = 1" "MILLIS_IN_SECOND = 1000" "MILLIS_IN_MINUTE = 60000"
  "MILLIS_IN_HOUR = 3600000" "MILLIS_IN_DAY = 86400000" "MILLIS_IN_WEEK = 604800000"
  "MILLIS_IN_MONTH = 2419200000" "MILLIS_IN_YEAR = 29030400000"
  by (simp_all add: const_mul_def MILLIS_IN_MILLISECOND_def MILLIS_IN_SECOND_def MILLIS_IN_MINUTE_def
      MILLIS_IN_HOUR_def MILLIS_IN_DAY_def MILLIS_IN_WEEK_def MILLIS_IN_MONTH_def MILLIS_IN_YEAR_def)

lemma time_ops_in_i64 [simp]:
  "in_i64 (time_saturating_add t d)" "in_i64 (saturating_sub_duration t d)" "in_i64 (saturating_sub_time t u)"
  "in_i64 (time_sub t u)" "in_i64 (time_add_dur t d)" "in_i64 (time_sub_dur t d)"
  by (simp_all add: time_saturating_add_def saturating_sub_duration_def saturating_sub_time_def time_sub_def
      time_add_dur_def time_sub_dur_def)

lemma length_time_encode_be [simp]: "length (time_encode_be t) = 8"
  by (simp add: time_encode_be_def)

lemma time_decode_encode [wire]: "in_i64 t \<Longrightarrow> timestamp_decode_be (time_encode_be t) = t"
  by (simp add: timestamp_decode_be_def time_encode_be_def decode_encode_i64_be)


section \<open>The duration syntax\<close>

definition MICRO_S :: string where "MICRO_S = [CHR 0xCE, CHR 0xBC, CHR ''s'']"

definition starts_with :: "string \<Rightarrow> string \<Rightarrow> bool" where
  "starts_with s p \<longleftrightarrow> take (length p) s = p"

definition parse_unit :: "string \<Rightarrow> (int \<times> nat) res" where
  "parse_unit rest =
     (if starts_with rest MICRO_S then Inr (MILLIS_IN_MILLISECOND, length MICRO_S)
      else if starts_with rest ''M'' then Inr (MILLIS_IN_MONTH, 1)
      else if starts_with rest ''W'' then Inr (MILLIS_IN_WEEK, 1)
      else if starts_with rest ''D'' then Inr (MILLIS_IN_DAY, 1)
      else if starts_with rest ''h'' then Inr (MILLIS_IN_HOUR, 1)
      else if starts_with rest ''m'' then Inr (MILLIS_IN_MINUTE, 1)
      else if starts_with rest ''s'' then Inr (MILLIS_IN_SECOND, 1)
      else Inl (Bail ''Invalid duration: unknown unit''))"

lemma starts_with_length: "starts_with s p \<Longrightarrow> length p \<le> length s"
  by (metis length_take min.absorb_iff2 starts_with_def)

lemma parse_unit_bound: "parse_unit rest = Inr (u, n) \<Longrightarrow> 0 < n \<and> n \<le> length rest"
  by (auto simp: parse_unit_def MICRO_S_def split: if_splits dest!: starts_with_length)

text \<open>The \<open>while idx < s.len()\<close> loop, on the rest of the text from \<open>idx\<close> on.\<close>

function parse_chunks :: "string \<Rightarrow> int \<Rightarrow> int res" where
  "parse_chunks s tot =
     (if s = [] then Inr tot
      else
        let ds = takeWhile is_digit s; rest = dropWhile is_digit s in
        if ds = [] then Inl (Bail ''Invalid duration: expected number'')
        else case parse_int I64_MIN I64_MAX ds of
          Inl e \<Rightarrow> Inl (Bail ''Invalid duration number'')
        | Inr n \<Rightarrow>
          if rest = [] then Inl (Bail ''Invalid duration: missing unit'')
          else case parse_unit rest of
            Inl e \<Rightarrow> Inl e
          | Inr (unit_millis, unit_len) \<Rightarrow>
            (case checked_i64 (n * unit_millis) of
               None \<Rightarrow> Inl (Bail ''Duration overflow'')
             | Some chunk \<Rightarrow>
                (case checked_i64 (tot + chunk) of
                   None \<Rightarrow> Inl (Bail ''Duration overflow'')
                 | Some tot' \<Rightarrow> parse_chunks (drop unit_len rest) tot')))"
  by auto
termination
proof (relation "measure (length \<circ> fst)", goal_cases)
  case (2 s tot ds rest n p unit_millis unit_len chunk tot')
  have "length rest \<le> length s" using 2(3) by (simp add: length_dropWhile_le)
  then show ?case using parse_unit_bound[of rest unit_millis unit_len] 2 by auto
qed simp

declare parse_chunks.simps [simp del]

definition duration_parse :: "string \<Rightarrow> duration_millis res" where
  "duration_parse input =
     (let s = trim input in
      if s = [] then Inr 0
      else if s = ''0'' \<or> s = ''+0'' \<or> s = ''-0'' then Inr 0
      else
        let sign = (if hd s = CHR ''-'' then -1 else 1);
            body = (if hd s = CHR ''+'' \<or> hd s = CHR ''-'' then tl s else s) in
        if body = [] then Inl (Bail ''Invalid duration'')
        else rbind (parse_chunks body 0) (\<lambda>tot.
               of_option ''Duration overflow'' (checked_i64 (tot * sign))))"

definition duration_units :: "(int \<times> string) list" where
  "duration_units = [(MILLIS_IN_MONTH, ''M''), (MILLIS_IN_WEEK, ''W''), (MILLIS_IN_DAY, ''D''),
     (MILLIS_IN_HOUR, ''h''), (MILLIS_IN_MINUTE, ''m''), (MILLIS_IN_SECOND, ''s''),
     (MILLIS_IN_MILLISECOND, MICRO_S)]"

fun do_units :: "(int \<times> string) list \<Rightarrow> int \<Rightarrow> string" where
  "do_units [] remaining = []"
| "do_units ((unit, descr) # us) remaining =
     (if remaining \<ge> unit
      then show_int (remaining div unit) @ descr @ do_units us (remaining - remaining div unit * unit)
      else do_units us remaining)"

definition saturating_abs :: "int \<Rightarrow> int" where
  "saturating_abs x = sat_i64 \<bar>x\<bar>"

definition duration_display :: "duration_millis \<Rightarrow> string" where
  "duration_display d =
     (let s = (if d < 0 then ''-'' else []) @ do_units duration_units (saturating_abs d)
      in if s = [] \<or> s = ''-'' then ''0'' else s)"

definition known_unit :: "int \<times> string \<Rightarrow> bool" where
  "known_unit u \<longleftrightarrow> u \<in> set duration_units"

lemma parse_unit_known:
  assumes "known_unit (unit, descr)"
  shows "parse_unit (descr @ rest) = Inr (unit, length descr)" "\<not> is_digit (hd (descr @ rest))"
    "descr \<noteq> []" "0 < unit"
  using assms
  by (auto simp: known_unit_def duration_units_def parse_unit_def starts_with_def MICRO_S_def
      is_digit_def millis_values)

lemma parse_chunks_Nil [simp]: "parse_chunks [] tot = Inr tot"
  by (simp add: parse_chunks.simps)

lemma parse_chunks_chunk:
  assumes "known_unit (unit, descr)" "in_i64 (int n)" "in_i64 (int n * unit)" "in_i64 (tot + int n * unit)"
  shows "parse_chunks (show_nat n @ descr @ rest) tot = parse_chunks rest (tot + int n * unit)"
proof -
  note u = parse_unit_known(1,2)[OF assms(1), of rest] parse_unit_known(3,4)[OF assms(1)]
  have td: "takeWhile is_digit (show_nat n @ descr @ rest) = show_nat n"
      "dropWhile is_digit (show_nat n @ descr @ rest) = descr @ rest"
    using takeWhile_digits_append[OF show_nat_digits, of "descr @ rest" n] u by auto
  have "parse_int I64_MIN I64_MAX (show_nat n) = Inr (int n)"
    using assms(2) by (simp add: parse_int_show_nat in_i64_def)
  with td u assms show ?thesis
    by (subst parse_chunks.simps) (simp add: checked_i64_def)
qed

fun units_rem :: "(int \<times> string) list \<Rightarrow> int \<Rightarrow> int" where
  "units_rem [] r = r"
| "units_rem ((unit, descr) # us) r = units_rem us (if r \<ge> unit then r mod unit else r)"

lemma units_rem_bounds:
  "\<forall>u \<in> set us. known_unit u \<Longrightarrow> 0 \<le> r \<Longrightarrow> 0 \<le> units_rem us r \<and> units_rem us r \<le> r"
proof (induction us r rule: units_rem.induct)
  case (2 unit descr us r)
  then have sp: "0 < unit" using parse_unit_known(4)[of unit descr] by simp
  let ?r = "if r \<ge> unit then r mod unit else r"
  have le: "?r \<le> r" using sp "2.prems"(2) by (simp add: zmod_le_nonneg_dividend)
  have "0 \<le> units_rem us ?r \<and> units_rem us ?r \<le> ?r"
    by (rule "2.IH") (use sp "2.prems" in auto)
  with le show ?case by simp
qed simp

lemma parse_do_units:
  assumes "\<forall>u \<in> set us. known_unit u" "0 \<le> r" "0 \<le> tot" "tot + r \<le> I64_MAX"
  shows "parse_chunks (do_units us r) tot = Inr (tot + r - units_rem us r)"
  using assms
proof (induction us r arbitrary: tot rule: units_rem.induct)
  case (2 unit descr us r)
  then have k: "known_unit (unit, descr)" by simp
  then have sp: "0 < unit" by (rule parse_unit_known(4))
  show ?case
  proof (cases "r \<ge> unit")
    case True
    define q where "q = r div unit"
    have q0: "0 \<le> q" using sp 2(3) by (simp add: q_def pos_imp_zdiv_nonneg_iff)
    have qs: "q * unit = r - r mod unit" by (simp add: q_def minus_mod_eq_div_mult)
    have m0: "0 \<le> r mod unit" using sp by simp
    have "q * 1 \<le> q * unit" using q0 sp by (intro mult_left_mono) auto
    with qs m0 have qr: "q \<le> r" by linarith
    have qu: "0 \<le> q * unit" using q0 sp by simp
    have r: "r \<le> I64_MAX" using 2 by linarith
    have i: "in_i64 (int (nat q))" "in_i64 (int (nat q) * unit)" "in_i64 (tot + int (nat q) * unit)"
      using q0 qs qu m0 qr r "2.prems" by (auto simp: in_i64_def I64_MIN_def)
    have "parse_chunks (do_units ((unit, descr) # us) r) tot
        = parse_chunks (do_units us (r mod unit)) (tot + q * unit)"
      using parse_chunks_chunk[OF k i, of "do_units us (r mod unit)"] True q0 qs m0
      by (simp add: show_int_def flip: q_def)
    also have "\<dots> = Inr (tot + q * unit + r mod unit - units_rem us (r mod unit))"
      using "2.IH"[of "tot + q * unit"] "2.prems" True qs qu m0 by simp
    finally show ?thesis using True qs by simp
  next
    case False
    with 2 show ?thesis by simp
  qed
qed simp

lemma duration_units_known: "\<forall>u \<in> set duration_units. known_unit u"
  by (simp add: known_unit_def)

lemma units_rem_duration: "0 \<le> r \<Longrightarrow> units_rem duration_units r = 0"
proof -
  assume r: "0 \<le> r"
  have last: "duration_units = butlast duration_units @ [(1, MICRO_S)]"
    by (simp add: duration_units_def millis_values)
  have app: "units_rem (us @ [(1, d)]) x = 0" if "0 \<le> x" "\<forall>u \<in> set us. known_unit u" for us d x
    using that by (induction us x rule: units_rem.induct) (auto dest: parse_unit_known(4))
  show ?thesis by (subst last, rule app) (use r duration_units_known in_set_butlastD in fastforce)+
qed

lemma do_units_ends:
  assumes "\<forall>u \<in> set us. known_unit u" "0 \<le> r" "do_units us r \<noteq> []"
  shows "is_digit (hd (do_units us r)) \<and> not_ws (last (do_units us r))"
  using assms
proof (induction us r rule: do_units.induct)
  case (2 unit descr us r)
  then have k: "known_unit (unit, descr)" by simp
  note sp = parse_unit_known(4)[OF k] and ne = parse_unit_known(3)[OF k]
  have lastd: "not_ws (last descr)"
    using k by (auto simp: known_unit_def duration_units_def MICRO_S_def not_ws_def)
  show ?case
  proof (cases "r \<ge> unit")
    case True
    have "0 \<le> r div unit" using 2 sp by (simp add: pos_imp_zdiv_nonneg_iff)
    then have si: "show_int (r div unit) = show_nat (nat (r div unit))" by (simp add: show_int_def)
    have hd: "is_digit (hd (show_nat n))" for n
      using show_nat_digits[of n] by (metis hd_in_set list_all_iff show_nat_ne)
    have "0 \<le> r - r div unit * unit" using sp by (simp add: minus_div_mult_eq_mod)
    with 2 True have "do_units us (r - r div unit * unit) \<noteq> [] \<Longrightarrow>
        not_ws (last (do_units us (r - r div unit * unit)))" by simp
    with True si hd lastd ne show ?thesis by (cases "do_units us (r - r div unit * unit) = []") auto
  next
    case False
    with 2 show ?thesis by simp
  qed
qed simp

lemma saturating_abs_bounds: "0 \<le> saturating_abs d" "saturating_abs d \<le> I64_MAX"
  by (auto simp: saturating_abs_def sat_i64_def I64_MAX_def I64_MIN_def)

lemma parse_display_body:
  "parse_chunks (do_units duration_units (saturating_abs d)) 0 = Inr (saturating_abs d)"
  using parse_do_units[OF duration_units_known saturating_abs_bounds(1), of 0 d]
    saturating_abs_bounds units_rem_duration by simp

lemma duration_parse_display:
  assumes "in_i64 d" "d \<noteq> I64_MIN"
  shows "duration_parse (duration_display d) = Inr d"
proof -
  define body where "body = do_units duration_units (saturating_abs d)"
  have sa: "saturating_abs d = \<bar>d\<bar>"
    using assms by (auto simp: saturating_abs_def sat_i64_def in_i64_def I64_MIN_def I64_MAX_def)
  have parse: "parse_chunks body 0 = Inr \<bar>d\<bar>" using parse_display_body[of d] by (simp add: body_def sa)
  show ?thesis
  proof (cases "body = []")
    case True
    with parse have "d = 0" by simp
    moreover have "do_units duration_units (saturating_abs d) = []" using True by (simp add: body_def)
    ultimately have "duration_display d = ''0''" by (simp add: duration_display_def Let_def)
    then show ?thesis
      using \<open>d = 0\<close> by (simp add: duration_parse_def Let_def trim_id not_ws_def is_digit_def)
  next
    case False
    have ends: "is_digit (hd body)" "not_ws (last body)"
      using do_units_ends[OF duration_units_known saturating_abs_bounds(1)] False by (auto simp: body_def)
    have ne: "body \<noteq> ''0''"
    proof
      assume "body = ''0''"
      with parse show False
        by (auto simp: parse_chunks.simps[of "''0''"] is_digit_def Let_def split: sum.splits)
    qed
    have s: "duration_display d = (if d < 0 then ''-'' else []) @ body"
      using False is_digit_not_sign[OF ends(1)] by (cases body) (auto simp: duration_display_def simp flip: body_def)
    have tr: "trim (duration_display d) = duration_display d"
      unfolding s using False ends by (intro trim_id) (auto simp: not_ws_def)
    have "checked_i64 d = Some d" using assms by (simp add: checked_i64_def)
    with tr s ne False is_digit_not_sign[OF ends(1)] parse show ?thesis
      by (cases body) (auto simp: duration_parse_def)
  qed
qed

lemma duration_display_min: "duration_display I64_MIN = duration_display (- I64_MAX)"
  by (simp add: duration_display_def saturating_abs_def sat_i64_def I64_MIN_def I64_MAX_def)

text \<open>a duration that is printed and parsed back is the same duration, for every \<open>i64\<close> but one:
  \<open>i64::MIN\<close> is printed saturated and comes back as \<open>-i64::MAX\<close>.\<close>

theorem duration_display_parse:
  assumes "in_i64 d"
  shows "duration_parse (duration_display d) = Inr (if d = I64_MIN then - I64_MAX else d)"
proof (cases "d = I64_MIN")
  case True
  have "in_i64 (- I64_MAX)" "- I64_MAX \<noteq> I64_MIN" by (simp_all add: in_i64_numeral I64_MAX_def I64_MIN_def)
  with True show ?thesis using duration_parse_display[of "- I64_MAX"] by (simp add: duration_display_min)
qed (use duration_parse_display[OF assms] in simp)

theorem duration_display_parse_witness:
  "duration_parse (duration_display (- 97625123)) = Inr (if - 97625123 = I64_MIN then - I64_MAX else - 97625123)"
  using duration_display_parse[of "- 97625123"] by (simp add: in_i64_numeral)


section \<open>Calendar text\<close>

text \<open>\<open>chrono\<close>: the calendar fields of a second, and the second of calendar fields.\<close>

record chrono =
  timestamp_opt :: "int \<Rightarrow> (int \<times> int \<times> int \<times> int \<times> int \<times> int) option"
  with_ymd_and_hms :: "int \<Rightarrow> int \<Rightarrow> int \<Rightarrow> int \<Rightarrow> int \<Rightarrow> int \<Rightarrow> int option"

definition time_display :: "chrono \<Rightarrow> time_millis \<Rightarrow> string" where
  "time_display ch t =
     (let secs = t sdiv 1000; millis_part = t smod 1000 in
      case timestamp_opt ch secs of
        Some (y, mo, d, h, mi, s) \<Rightarrow>
          show_int y @ show_padded 2 mo @ show_padded 2 d @ ''.'' @ show_padded 2 h @ show_padded 2 mi
            @ show_padded 2 s @ ''.'' @ show_padded 3 millis_part
      | None \<Rightarrow> ''<invalid-timestamp:'' @ show_int t @ ''>'')"

definition I32_MIN :: int where "I32_MIN = - (2 ^ 31)"
definition I32_MAX :: int where "I32_MAX = 2 ^ 31 - 1"
definition U32_MAX :: int where "U32_MAX = 2 ^ 32 - 1"

definition time_parse :: "chrono \<Rightarrow> string \<Rightarrow> time_millis res" where
  "time_parse ch s =
     (case split_on (CHR ''.'') s of
        [p0, p1, p2] \<Rightarrow>
          if length p0 \<ge> 8 \<and> length p1 = 6 \<and> length p2 = 3 then
            rbind (str_slice p0 0 (length p0 - 4)) (\<lambda>sy. rbind (parse_int I32_MIN I32_MAX sy) (\<lambda>year.
            rbind (str_slice p0 (length p0 - 4) (length p0 - 2)) (\<lambda>smo. rbind (parse_int 0 U32_MAX smo) (\<lambda>month.
            rbind (str_slice p0 (length p0 - 2) (length p0)) (\<lambda>sd. rbind (parse_int 0 U32_MAX sd) (\<lambda>day.
            rbind (str_slice p1 0 2) (\<lambda>sh. rbind (parse_int 0 U32_MAX sh) (\<lambda>hour.
            rbind (str_slice p1 2 4) (\<lambda>smi. rbind (parse_int 0 U32_MAX smi) (\<lambda>minute.
            rbind (str_slice p1 4 6) (\<lambda>ss. rbind (parse_int 0 U32_MAX ss) (\<lambda>second.
            rbind (parse_int I64_MIN I64_MAX p2) (\<lambda>millis.
            rbind (of_option ''Invalid UTC date/time'' (with_ymd_and_hms ch year month day hour minute second))
              (\<lambda>ts. Inr (ts * 1000 + millis)))))))))))))))
          else Inl (Bail ''Invalid TimeMillis string'')
      | _ \<Rightarrow> Inl (Bail ''Invalid TimeMillis string''))"

definition from_epoch_offset_str :: "string \<Rightarrow> time_millis res" where
  "from_epoch_offset_str s = rbind (duration_parse s) (\<lambda>d. Inr (time_add_dur 0 d))"

definition to_bucket :: "time_millis \<Rightarrow> duration_millis \<Rightarrow> time_millis res" where
  "to_bucket timestamp bucket_size =
     (if bucket_size = 0 then Inl (Panic ''attempt to divide by zero'')
      else if timestamp = I64_MIN \<and> bucket_size = -1 then Inl (Panic ''attempt to divide with overflow'')
      else Inr ((timestamp sdiv bucket_size) * bucket_size))"

lemma digits_not_dot: "list_all is_digit ds \<Longrightarrow> CHR ''.'' \<notin> set ds"
  by (induction ds) (auto simp: is_digit_def)

lemma show_int_pos_digits: "0 \<le> y \<Longrightarrow> list_all is_digit (show_int y)"
  by (simp add: show_int_def show_nat_digits)

lemma parse_int_show_int:
  "0 \<le> y \<Longrightarrow> lo \<le> y \<Longrightarrow> y \<le> hi \<Longrightarrow> parse_int lo hi (show_int y) = Inr y"
  by (simp add: show_int_def parse_int_show_nat)

text \<open>the calendar text of a time at or after the epoch parses back to it, whenever the
  calendar gives that second back for its own fields.\<close>

theorem time_display_parse:
  assumes "0 \<le> t" and "timestamp_opt ch (t div 1000) = Some (y, mo, d, h, mi, s)"
    and "with_ymd_and_hms ch y mo d h mi s = Some (t div 1000)"
    and "1000 \<le> y" "y < 2 ^ 31" "\<forall>f \<in> {mo, d, h, mi, s}. 0 \<le> f \<and> f < 100"
  shows "time_parse ch (time_display ch t) = Inr t"
proof -
  have pad: "length (show_padded 2 f) = 2 \<and> list_all is_digit (show_padded 2 f)
      \<and> parse_int 0 U32_MAX (show_padded 2 f) = Inr f" if "f \<in> {mo, d, h, mi, s}" for f
    using assms(6) that
    by (auto simp: length_show_padded show_padded_nonneg parse_int_show_padded U32_MAX_def)
  have ms: "t smod 1000 = t mod 1000" "t sdiv 1000 = t div 1000"
    using assms(1) by (auto simp: signed_modulo_int_def signed_divide_int_def sgn_if)
  let ?ms = "show_padded 3 (t mod 1000)" and ?y = "show_int y"
  have msl: "length ?ms = 3" "list_all is_digit ?ms" "parse_int I64_MIN I64_MAX ?ms = Inr (t mod 1000)"
    by (auto simp: length_show_padded show_padded_nonneg)
      (auto intro!: parse_int_show_padded simp: I64_MIN_def I64_MAX_def intro: order_trans[OF pos_mod_sign] order_trans[OF less_imp_le[OF pos_mod_bound]])
  have yl: "4 \<le> length ?y" "list_all is_digit ?y" "parse_int I32_MIN I32_MAX ?y = Inr y"
  proof -
    have "\<not> length (show_nat (nat y)) \<le> 3" using assms(4) by (subst length_show_nat) auto
    then show "4 \<le> length ?y" using assms(4) by (simp add: show_int_def)
    show "list_all is_digit ?y" "parse_int I32_MIN I32_MAX ?y = Inr y"
      using assms(4,5) by (auto simp: show_int_pos_digits parse_int_show_int I32_MIN_def I32_MAX_def)
  qed
  let ?p0 = "?y @ show_padded 2 mo @ show_padded 2 d"
  let ?p1 = "show_padded 2 h @ show_padded 2 mi @ show_padded 2 s"
  have dig: "list_all is_digit ?p0" "list_all is_digit ?p1" using pad yl by auto
  have disp: "time_display ch t = ?p0 @ CHR ''.'' # ?p1 @ CHR ''.'' # ?ms"
    using assms(2) by (simp add: time_display_def ms)
  have "split_on (CHR ''.'') (time_display ch t) = [?p0, ?p1, ?ms]"
    unfolding disp by (simp only: split_on_append[OF digits_not_dot[OF dig(1)]]
        split_on_append[OF digits_not_dot[OF dig(2)]] split_on_part[OF digits_not_dot[OF msl(2)]])
  moreover have "length ?p0 = length ?y + 4" "length ?p1 = 6" using pad by auto
  moreover have "str_slice ?p0 0 (length ?y) = Inr ?y"
      "str_slice ?p0 (length ?y) (length ?y + 2) = Inr (show_padded 2 mo)"
      "str_slice ?p0 (length ?y + 2) (length ?y + 4) = Inr (show_padded 2 d)"
      "str_slice ?p1 0 2 = Inr (show_padded 2 h)" "str_slice ?p1 2 4 = Inr (show_padded 2 mi)"
      "str_slice ?p1 4 6 = Inr (show_padded 2 s)"
    using dig pad by (simp_all add: str_slice_ascii)
  ultimately show ?thesis
    using yl msl pad assms(3) by (simp add: time_parse_def)
qed

end
