(* ===== verification/Config.thy ===== *)
theory Config
  imports Time
begin

text \<open>
  \<open>tools/config.rs\<close> with \<open>TESTING = false\<close>: the constants that take part in the protocol.
\<close>

definition POW_REDUCTION_FACTOR :: pow where "POW_REDUCTION_FACTOR = 1"
definition CLOCK_LENIENCE_FACTOR :: int where "CLOCK_LENIENCE_FACTOR = 1"

definition PROTOCOL_MAX_BLOB_SIZE_REQUEST :: nat where "PROTOCOL_MAX_BLOB_SIZE_REQUEST = 4 * 1024 * 1024"
definition PROTOCOL_MAX_BLOB_SIZE_RESPONSE :: nat where "PROTOCOL_MAX_BLOB_SIZE_RESPONSE = 16 * 1024 * 1024"

definition SERVER_DDOS_SCORE_THRESHOLD :: real where "SERVER_DDOS_SCORE_THRESHOLD = 15"
definition SERVER_DDOS_DECAY_PER_SECOND :: real where "SERVER_DDOS_DECAY_PER_SECOND = 1 / 2"
definition SERVER_DDOS_BAD_REQUEST_PENALTY :: real where "SERVER_DDOS_BAD_REQUEST_PENALTY = 5"
definition SERVER_DDOS_MAX_CONNECTIONS_PER_IP :: nat where "SERVER_DDOS_MAX_CONNECTIONS_PER_IP = 4"

definition POW_MINIMUM_PER_RPC_SERVER_KNOWN :: pow where
  "POW_MINIMUM_PER_RPC_SERVER_KNOWN = 16 div POW_REDUCTION_FACTOR"
definition POW_MINIMUM_PER_RPC_SERVER_UNKNOWN :: pow where
  "POW_MINIMUM_PER_RPC_SERVER_UNKNOWN = POW_MINIMUM_PER_RPC_SERVER_KNOWN + 2"
definition POW_MINIMUM_PER_POST :: pow where
  "POW_MINIMUM_PER_POST = POW_MINIMUM_PER_RPC_SERVER_KNOWN + 2"
definition POW_MINIMUM_PER_FEEDBACK :: pow where
  "POW_MINIMUM_PER_FEEDBACK = POW_MINIMUM_PER_RPC_SERVER_KNOWN + 4"
definition POW_MINIMUM_PER_URL_FETCH :: pow where
  "POW_MINIMUM_PER_URL_FETCH = POW_MINIMUM_PER_RPC_SERVER_KNOWN + 3"
definition POW_MINIMUM_PER_PEER_STATS :: pow where
  "POW_MINIMUM_PER_PEER_STATS = POW_MINIMUM_PER_RPC_SERVER_KNOWN + 6"

definition POW_MAX_CLOCK_DRIFT_MILLIS :: duration_millis where
  "POW_MAX_CLOCK_DRIFT_MILLIS = const_mul (const_mul MILLIS_IN_MINUTE 5) CLOCK_LENIENCE_FACTOR"

definition ENCODED_POST_BUNDLE_V1_OVERFLOWED_NUM_POSTS :: byte where
  "ENCODED_POST_BUNDLE_V1_OVERFLOWED_NUM_POSTS = 20"
definition ENCODED_POST_BUNDLE_V1_OVERFLOWED_NUM_POSTS_GRANTED :: byte where
  "ENCODED_POST_BUNDLE_V1_OVERFLOWED_NUM_POSTS_GRANTED = 3 * ENCODED_POST_BUNDLE_V1_OVERFLOWED_NUM_POSTS div 2"
definition ENCODED_POST_BUNDLE_V1_ELAPSED_THRESHOLD_MILLIS :: duration_millis where
  "ENCODED_POST_BUNDLE_V1_ELAPSED_THRESHOLD_MILLIS = const_mul MILLIS_IN_MINUTE 1"

definition ANNOUNCE_V1_NUM_PEERS :: nat where "ANNOUNCE_V1_NUM_PEERS = 16"
definition BOOTSTRAP_V1_NUM_PEERS :: nat where "BOOTSTRAP_V1_NUM_PEERS = 32"
definition REDUNDANT_SERVERS_PER_POST :: nat where "REDUNDANT_SERVERS_PER_POST = 3"
definition CLIENT_POST_TIMESTAMP_DELTA_THRESHOLD :: duration_millis where
  "CLIENT_POST_TIMESTAMP_DELTA_THRESHOLD = const_mul (const_mul MILLIS_IN_MINUTE 10) CLOCK_LENIENCE_FACTOR"
definition CLIENT_POST_BUNDLE_CACHE_DURATION :: duration_millis where
  "CLIENT_POST_BUNDLE_CACHE_DURATION = const_mul MILLIS_IN_MINUTE 5"
definition CLIENT_POST_BUNDLE_FEEDBACK_CACHE_DURATION :: duration_millis where
  "CLIENT_POST_BUNDLE_FEEDBACK_CACHE_DURATION = const_mul MILLIS_IN_MINUTE 15"
definition SERVER_KEY_POW_MIN :: pow where "SERVER_KEY_POW_MIN = 32 div POW_REDUCTION_FACTOR"
definition CLIENT_FEEDBACK_POW_NUMERAIRE :: nat where "CLIENT_FEEDBACK_POW_NUMERAIRE = 16 * 1024"
definition SERVER_KADEMLIA_MAX_PEERS_PER_BUCKET :: nat where "SERVER_KADEMLIA_MAX_PEERS_PER_BUCKET = 64"
definition SERVER_POST_BUNDLE_CACHE_MAX_BYTES :: nat where
  "SERVER_POST_BUNDLE_CACHE_MAX_BYTES = 128 * 1024 * 1024"
definition SERVER_POST_BUNDLE_CACHE_MAX_ORIGINATORS_PER_LOCATION :: nat where
  "SERVER_POST_BUNDLE_CACHE_MAX_ORIGINATORS_PER_LOCATION = 5"
definition SERVER_POST_BUNDLE_FEEDBACK_CACHE_MAX_BYTES :: nat where
  "SERVER_POST_BUNDLE_FEEDBACK_CACHE_MAX_BYTES = 32 * 1024 * 1024"

lemma pow_minimums:
  "POW_MINIMUM_PER_RPC_SERVER_KNOWN = 16" "POW_MINIMUM_PER_RPC_SERVER_UNKNOWN = 18"
  "POW_MINIMUM_PER_POST = 18" "POW_MINIMUM_PER_FEEDBACK = 20" "POW_MINIMUM_PER_URL_FETCH = 19"
  "POW_MINIMUM_PER_PEER_STATS = 22" "SERVER_KEY_POW_MIN = 32"
  by (simp_all add: POW_MINIMUM_PER_RPC_SERVER_KNOWN_def POW_MINIMUM_PER_RPC_SERVER_UNKNOWN_def
      POW_MINIMUM_PER_POST_def POW_MINIMUM_PER_FEEDBACK_def POW_MINIMUM_PER_URL_FETCH_def
      POW_MINIMUM_PER_PEER_STATS_def SERVER_KEY_POW_MIN_def POW_REDUCTION_FACTOR_def)

lemma bundle_limits:
  "ENCODED_POST_BUNDLE_V1_OVERFLOWED_NUM_POSTS = 20"
  "ENCODED_POST_BUNDLE_V1_OVERFLOWED_NUM_POSTS_GRANTED = 30"
  "ENCODED_POST_BUNDLE_V1_ELAPSED_THRESHOLD_MILLIS = 60000"
  "POW_MAX_CLOCK_DRIFT_MILLIS = 300000"
  "CLIENT_POST_TIMESTAMP_DELTA_THRESHOLD = 600000"
  by (simp_all add: ENCODED_POST_BUNDLE_V1_OVERFLOWED_NUM_POSTS_def
      ENCODED_POST_BUNDLE_V1_OVERFLOWED_NUM_POSTS_GRANTED_def const_mul_def millis_values
      ENCODED_POST_BUNDLE_V1_ELAPSED_THRESHOLD_MILLIS_def POW_MAX_CLOCK_DRIFT_MILLIS_def
      CLIENT_POST_TIMESTAMP_DELTA_THRESHOLD_def CLOCK_LENIENCE_FACTOR_def)

end
