(* ===== verification/Crypto.thy ===== *)
theory Crypto
  imports Config
begin

text \<open>
  \<open>tools/hashing.rs\<close>, \<open>tools/signing.rs\<close> and \<open>tools/pow.rs\<close>. The digest crates and
  Ed25519 are arguments, collected in the record \<open>crypto\<close>; what the code relies on of them
  is \<open>crypto_ok\<close> (the digests are long enough) and, per use, that a signature made with a
  key verifies under its public half.
\<close>

record crypto =
  blake3 :: "bytes \<Rightarrow> bytes"
  algo_digest :: "nat \<Rightarrow> bytes \<Rightarrow> bytes"
  ed_sign :: "bytes \<Rightarrow> bytes \<Rightarrow> bytes"
  ed_public :: "bytes \<Rightarrow> bytes"
  ed_key_valid :: "bytes \<Rightarrow> bool"
  ed_verify :: "bytes \<Rightarrow> bytes \<Rightarrow> bytes \<Rightarrow> bool"

definition crypto_ok :: "crypto \<Rightarrow> bool" where
  "crypto_ok C \<longleftrightarrow> (\<forall>x. length (blake3 C x) = 32) \<and> (\<forall>i x. i < 16 \<longrightarrow> 32 \<le> length (algo_digest C i x))"

definition key_pair_ok :: "crypto \<Rightarrow> bytes \<Rightarrow> bytes \<Rightarrow> bool" where
  "key_pair_ok C sk vk \<longleftrightarrow> ed_key_valid C vk \<and> (\<forall>msg. ed_verify C vk msg (ed_sign C sk msg))
     \<and> (\<forall>msg. length (ed_sign C sk msg) = 64)"

section \<open>Hashing\<close>

definition hashing_hash :: "crypto \<Rightarrow> bytes \<Rightarrow> hash" where
  "hashing_hash C data = Hash (blake3 C data)"

definition hash_two :: "crypto \<Rightarrow> bytes \<Rightarrow> bytes \<Rightarrow> hash" where
  "hash_two C data_1 data_2 = Hash (blake3 C (data_1 @ data_2))"

definition hash_multiple :: "crypto \<Rightarrow> bytes list \<Rightarrow> hash" where
  "hash_multiple C datas = Hash (blake3 C (concat datas))"

definition hash_multiple_plus_one :: "crypto \<Rightarrow> bytes list \<Rightarrow> bytes \<Rightarrow> hash" where
  "hash_multiple_plus_one C datas data_plus_one = Hash (blake3 C (concat datas @ data_plus_one))"

lemma wf_hashing [simp]:
  "crypto_ok C \<Longrightarrow> wf_hash (hashing_hash C x)" "crypto_ok C \<Longrightarrow> wf_hash (hash_two C x y)"
  "crypto_ok C \<Longrightarrow> wf_hash (hash_multiple C xs)" "crypto_ok C \<Longrightarrow> wf_hash (hash_multiple_plus_one C xs x)"
  by (simp_all add: crypto_ok_def wf_hash_def HASH_BYTES_def hashing_hash_def hash_two_def
      hash_multiple_def hash_multiple_plus_one_def)

text \<open>A \<open>str\<close> as the bytes it is made of.\<close>

definition str_bytes :: "string \<Rightarrow> bytes" where
  "str_bytes s = map (\<lambda>c. word_of_nat (of_char c)) s"

text \<open>\<open>str::to_lowercase\<close> is Unicode-aware; it is an argument.\<close>

definition Id_from_hashtag_str :: "crypto \<Rightarrow> (string \<Rightarrow> string) \<Rightarrow> string \<Rightarrow> id res" where
  "Id_from_hashtag_str C to_lowercase hashtag_str =
     (let lowercase_str = to_lowercase hashtag_str;
          str_stripped = (case lowercase_str of c # cs \<Rightarrow> if c = CHR ''#'' then cs else c # cs | [] \<Rightarrow> [])
      in Id_from_hash (hashing_hash C (str_bytes str_stripped)))"

section \<open>Signing\<close>

definition signing_sign :: "crypto \<Rightarrow> signature_key \<Rightarrow> bytes \<Rightarrow> signature" where
  "signing_sign C sk data = Signature (ed_sign C (signature_key_bytes sk) data)"

definition sign_multiple :: "crypto \<Rightarrow> signature_key \<Rightarrow> bytes list \<Rightarrow> signature" where
  "sign_multiple C sk datas = signing_sign C sk (hash_bytes (hash_multiple C datas))"

text \<open>A verification key in memory is one whose bytes were accepted by \<open>VerifyingKey::from_bytes\<close>.\<close>

datatype verification_key = VerificationKey (vk_bytes: bytes)

definition VerificationKey_from_bytes :: "crypto \<Rightarrow> verification_key_bytes \<Rightarrow> verification_key res" where
  "VerificationKey_from_bytes C b =
     (if ed_key_valid C (vkb_bytes b) then Inr (VerificationKey (vkb_bytes b)) else Inl (Bail ''signature error''))"

definition signing_verify :: "crypto \<Rightarrow> verification_key \<Rightarrow> signature \<Rightarrow> bytes \<Rightarrow> unit res" where
  "signing_verify C vk sig data =
     (if ed_verify C (vk_bytes vk) data (signature_bytes sig) then Inr () else Inl (Bail ''signature error''))"

lemma verify_signed:
  assumes "key_pair_ok C (signature_key_bytes sk) (vkb_bytes vkb)"
  shows "rbind (VerificationKey_from_bytes C vkb) (\<lambda>vk. signing_verify C vk (signing_sign C sk data) data) = Inr ()"
  using assms by (simp add: key_pair_ok_def VerificationKey_from_bytes_def signing_verify_def signing_sign_def)

lemma wf_signed: "key_pair_ok C (signature_key_bytes sk) vk \<Longrightarrow> wf_signature (signing_sign C sk data)"
  by (simp add: key_pair_ok_def wf_signature_def signing_sign_def SIGNATURE_BYTES_def)


section \<open>Proof of work\<close>

text \<open>Algorithms 0 to 15 are the sixteen \<open>digest\<close> crates, in the order of the match.\<close>

definition apply_hash :: "crypto \<Rightarrow> nat \<Rightarrow> hash \<Rightarrow> hash res" where
  "apply_hash C algo data =
     (let d = algo_digest C algo (hash_bytes data) in
      if length d < 32 then Inl (Panic ''slice index out of range'') else Hash_from_slice (take 32 d))"

definition ALGO_COUNT :: nat where "ALGO_COUNT = 17"

definition apply_chained_hash :: "crypto \<Rightarrow> nat \<Rightarrow> hash \<Rightarrow> hash res" where
  "apply_chained_hash C algo_index hash_current =
     (let algo_index = algo_index mod ALGO_COUNT in
      if algo_index < 16 then apply_hash C algo_index hash_current
      else if algo_index = 16 then Hash_from_slice (take 32 (blake3 C (hash_bytes hash_current)))
      else Inr hash_current)"

definition pow_compute_data_hash :: "crypto \<Rightarrow> bytes list \<Rightarrow> hash" where
  "pow_compute_data_hash C datas = hash_multiple C datas"

fun repeat_hash :: "crypto \<Rightarrow> nat \<Rightarrow> nat \<Rightarrow> hash \<Rightarrow> hash res" where
  "repeat_hash C algo_index 0 data = Inr data"
| "repeat_hash C algo_index (Suc n) data =
     rbind (apply_chained_hash C algo_index data) (repeat_hash C algo_index n)"

definition CHAIN_LENGTH :: nat where "CHAIN_LENGTH = 5"
definition MAX_REPETITIONS :: nat where "MAX_REPETITIONS = 2"

definition chain_round :: "crypto \<Rightarrow> hash \<Rightarrow> hash res" where
  "chain_round C data =
     (case hash_bytes data of
        b0 # b1 # _ \<Rightarrow> repeat_hash C (unat b0) (Suc (unat b1 mod MAX_REPETITIONS)) data
      | _ \<Rightarrow> Inl (Panic ''index out of bounds''))"

fun chain_rounds :: "crypto \<Rightarrow> nat \<Rightarrow> hash \<Rightarrow> hash res" where
  "chain_rounds C 0 data = Inr data"
| "chain_rounds C (Suc n) data = rbind (chain_round C data) (chain_rounds C n)"

definition pow_measure_from_data_hash :: "crypto \<Rightarrow> hash \<Rightarrow> salt \<Rightarrow> (pow \<times> hash) res" where
  "pow_measure_from_data_hash C data_hash s =
     rbind (chain_rounds C CHAIN_LENGTH (hash_two C (hash_bytes data_hash) (salt_bytes s))) (\<lambda>h.
       case count_leading_zero_bits (hash_bytes h) of
         None \<Rightarrow> Inl (Panic ''does not return'') | Some z \<Rightarrow> Inr (z, h))"

definition pow_measure :: "crypto \<Rightarrow> bytes list \<Rightarrow> salt \<Rightarrow> (pow \<times> hash) res" where
  "pow_measure C datas s = pow_measure_from_data_hash C (pow_compute_data_hash C datas) s"

lemma apply_chained_hash_total:
  assumes "crypto_ok C" "wf_hash h"
  shows "\<exists>h'. apply_chained_hash C i h = Inr h' \<and> wf_hash h'"
proof -
  have "\<exists>h'. Hash_from_slice (take 32 d) = Inr h' \<and> wf_hash h'" if "32 \<le> length d" for d :: bytes
    using that by (simp add: Hash_from_slice_def HASH_BYTES_def wf_hash_def)
  moreover have "32 \<le> length (blake3 C (hash_bytes h))" using assms by (simp add: crypto_ok_def)
  moreover have "i mod ALGO_COUNT < 16 \<Longrightarrow> 32 \<le> length (algo_digest C (i mod ALGO_COUNT) (hash_bytes h))"
    using assms by (simp add: crypto_ok_def)
  ultimately show ?thesis
    using assms(2) by (auto simp: apply_chained_hash_def apply_hash_def Let_def)
qed

lemma repeat_hash_total:
  "crypto_ok C \<Longrightarrow> wf_hash h \<Longrightarrow> \<exists>h'. repeat_hash C i n h = Inr h' \<and> wf_hash h'"
proof (induction n arbitrary: h)
  case (Suc n)
  then show ?case using apply_chained_hash_total[of C h i] by fastforce
qed simp

lemma chain_round_total:
  assumes "crypto_ok C" "wf_hash h"
  shows "\<exists>h'. chain_round C h = Inr h' \<and> wf_hash h'"
proof -
  obtain b0 b1 bs where "hash_bytes h = b0 # b1 # bs"
    using assms(2) Suc_le_length_iff[of "Suc 0" "hash_bytes h"]
    by (auto simp: wf_hash_def HASH_BYTES_def Suc_le_length_iff)
  with repeat_hash_total[OF assms] show ?thesis by (simp add: chain_round_def del: repeat_hash.simps)
qed

lemma chain_rounds_total:
  "crypto_ok C \<Longrightarrow> wf_hash h \<Longrightarrow> \<exists>h'. chain_rounds C n h = Inr h' \<and> wf_hash h'"
proof (induction n arbitrary: h)
  case (Suc n)
  then show ?case using chain_round_total[of C h] by fastforce
qed simp

text \<open>the measurement always returns a 32-byte hash, and the work it reports is the number of
  leading zero bits of that hash (all 256 bits zero count as 255).\<close>

theorem pow_measure_total:
  assumes "crypto_ok C"
  shows "\<exists>h. pow_measure C datas s = Inr (word_of_nat (min 255 (length (takeWhile Not (bits_of (hash_bytes h))))), h)
           \<and> wf_hash h"
  using chain_rounds_total[OF assms wf_hashing(2)[OF assms]]
  by (fastforce simp: pow_measure_def pow_measure_from_data_hash_def clz_spec)

lemma pow_measure_cases:
  assumes "crypto_ok C"
  obtains p h where "pow_measure C datas s = Inr (p, h)" "wf_hash h"
  using chain_rounds_total[OF assms wf_hashing(2)[OF assms]] that
  by (fastforce simp: pow_measure_def pow_measure_from_data_hash_def clz_spec)

lemma pow_measure_concat: "concat ds = concat es \<Longrightarrow> pow_measure C ds s = pow_measure C es s"
  by (simp add: pow_measure_def pow_compute_data_hash_def hash_multiple_def)

text \<open>A concrete instance, for the witnesses: constant digests.\<close>

definition toy_crypto :: crypto where
  "toy_crypto = \<lparr>blake3 = (\<lambda>x. replicate 32 0), algo_digest = (\<lambda>i x. replicate 32 0),
     ed_sign = (\<lambda>sk x. replicate 64 7), ed_public = (\<lambda>sk. replicate 32 1),
     ed_key_valid = (\<lambda>vk. True), ed_verify = (\<lambda>vk m sig. sig = replicate 64 7)\<rparr>"

lemma toy_crypto_ok: "crypto_ok toy_crypto"
  by (simp add: crypto_ok_def toy_crypto_def)

lemma toy_key_pair: "key_pair_ok toy_crypto sk vk"
  by (simp add: key_pair_ok_def toy_crypto_def)

theorem pow_measure_total_witness:
  "\<exists>h. pow_measure toy_crypto [ [1] ] Salt_zero
     = Inr (word_of_nat (min 255 (length (takeWhile Not (bits_of (hash_bytes h))))), h) \<and> wf_hash h"
  by (rule pow_measure_total [OF toy_crypto_ok])

end
