(* ===== verification/Identity.thy ===== *)
theory Identity
  imports Crypto
begin

text \<open>
  Identities: \<open>tools/client_id.rs\<close>, \<open>tools/server_id.rs\<close> and \<open>protocol/peer.rs\<close>. A client
  id is the hash of its keys; a server id is the byte-reversed proof-of-work hash over its
  keys; a peer is a server's self-signed record with three proofs of work. The clock, the
  random choices, the package version and the proof-of-work search are arguments.
\<close>

section \<open>Client ids\<close>

record client_id =
  cid_verification_key_bytes :: verification_key_bytes
  cid_pq_commitment_bytes :: pq_commitment_bytes
  cid_id :: id

definition id_from_parts :: "crypto \<Rightarrow> verification_key_bytes \<Rightarrow> pq_commitment_bytes \<Rightarrow> id res" where
  "id_from_parts C vkb pqcb = Id_from_hash (hash_multiple C [vkb_bytes vkb, pqc_bytes pqcb])"

definition ClientId_new :: "crypto \<Rightarrow> verification_key_bytes \<Rightarrow> pq_commitment_bytes \<Rightarrow> client_id res" where
  "ClientId_new C vkb pqcb = rbind (id_from_parts C vkb pqcb) (\<lambda>i.
     Inr \<lparr>cid_verification_key_bytes = vkb, cid_pq_commitment_bytes = pqcb, cid_id = i\<rparr>)"

definition ClientId_verify :: "crypto \<Rightarrow> client_id \<Rightarrow> unit res" where
  "ClientId_verify C c =
     rbind (id_from_parts C (cid_verification_key_bytes c) (cid_pq_commitment_bytes c)) (\<lambda>i.
       if i \<noteq> cid_id c then Inl (Bail ''ClientID pow does not verify'') else Inr ())"

lemma ClientId_new_verify: "ClientId_new C vkb pqcb = Inr c \<Longrightarrow> ClientId_verify C c = Inr ()"
  by (auto simp: ClientId_new_def ClientId_verify_def)

lemma ClientId_verify_iff:
  "ClientId_verify C c = Inr () \<longleftrightarrow>
     ClientId_new C (cid_verification_key_bytes c) (cid_pq_commitment_bytes c) = Inr c"
  by (cases c) (auto simp: ClientId_new_def ClientId_verify_def split: if_splits)


section \<open>Server ids\<close>

record keys =
  k_signature_key :: signature_key
  k_verification_key :: verification_key
  k_verification_key_bytes :: verification_key_bytes
  k_pq_commitment_bytes :: pq_commitment_bytes

record server_id =
  sid_keys :: keys
  sid_sponsor_id :: id
  sid_timestamp :: time_millis
  sid_hash :: hash
  sid_salt :: salt
  sid_pow :: pow
  sid_id :: id

definition server_pow_hash_to_id :: "hash \<Rightarrow> id res" where
  "server_pow_hash_to_id h =
     (if length (hash_bytes h) \<noteq> ID_BYTES then Inl (Bail ''Invalid Hash length'')
      else Inr (Id (reverse_bytes (hash_bytes h))))"

text \<open>The search of the trait \<open>PowGenerator\<close>: from a minimum and a data hash, a salt with its
  work and its hash.\<close>

type_synonym pow_search = "pow \<Rightarrow> hash \<Rightarrow> (salt \<times> pow \<times> hash) res"

definition pow_search_ok :: "crypto \<Rightarrow> pow_search \<Rightarrow> bool" where
  "pow_search_ok C gen \<longleftrightarrow> (\<forall>m dh s p h. gen m dh = Inr (s, p, h) \<longrightarrow>
     pow_measure_from_data_hash C dh s = Inr (p, h) \<and> m \<le> p)"

definition server_pow_datas :: "id \<Rightarrow> verification_key_bytes \<Rightarrow> pq_commitment_bytes \<Rightarrow> bytes \<Rightarrow> hash \<Rightarrow> bytes list" where
  "server_pow_datas sponsor vkb pqcb timestamp_be content_hash =
     [id_bytes sponsor, vkb_bytes vkb, pqc_bytes pqcb, timestamp_be, hash_bytes content_hash]"

definition server_pow_generate :: "crypto \<Rightarrow> pow_search \<Rightarrow> time_millis \<Rightarrow> pow \<Rightarrow> id \<Rightarrow> verification_key_bytes
    \<Rightarrow> pq_commitment_bytes \<Rightarrow> hash \<Rightarrow> (time_millis \<times> salt \<times> pow \<times> hash) res" where
  "server_pow_generate C gen now pow_min sponsor vkb pqcb content_hash =
     (let timestamp_be = time_encode_be now;
          data_hash = pow_compute_data_hash C (server_pow_datas sponsor vkb pqcb timestamp_be content_hash)
      in rbind (gen pow_min data_hash) (\<lambda>(s, p, h). Inr (now, s, p, h)))"

definition server_pow_measure :: "crypto \<Rightarrow> id \<Rightarrow> verification_key_bytes \<Rightarrow> pq_commitment_bytes \<Rightarrow> bytes \<Rightarrow> hash
    \<Rightarrow> salt \<Rightarrow> (pow \<times> hash) res" where
  "server_pow_measure C sponsor vkb pqcb timestamp_be content_hash s =
     pow_measure C (server_pow_datas sponsor vkb pqcb timestamp_be content_hash) s"

definition ServerId_new :: "crypto \<Rightarrow> pow_search \<Rightarrow> time_millis \<Rightarrow> pow \<Rightarrow> id \<Rightarrow> keys \<Rightarrow> hash \<Rightarrow> server_id res" where
  "ServerId_new C gen now pow_min sponsor ks h =
     rbind (server_pow_generate C gen now pow_min sponsor (k_verification_key_bytes ks) (k_pq_commitment_bytes ks) h)
       (\<lambda>(timestamp, s, p, pow_hash). rbind (server_pow_hash_to_id pow_hash) (\<lambda>i.
          Inr \<lparr>sid_keys = ks, sid_sponsor_id = sponsor, sid_timestamp = timestamp, sid_hash = h,
               sid_salt = s, sid_pow = p, sid_id = i\<rparr>))"

definition ServerId_verify :: "crypto \<Rightarrow> server_id \<Rightarrow> unit res" where
  "ServerId_verify C s =
     rbind (server_pow_measure C (sid_sponsor_id s) (k_verification_key_bytes (sid_keys s))
              (k_pq_commitment_bytes (sid_keys s)) (time_encode_be (sid_timestamp s)) (sid_hash s) (sid_salt s))
       (\<lambda>(p, pow_hash).
          if p \<noteq> sid_pow s then Inl (Bail ''ServerID pow does not verify'')
          else if p < SERVER_KEY_POW_MIN then Inl (Bail ''ServerID pow is not sufficient'')
          else rbind (server_pow_hash_to_id pow_hash) (\<lambda>i.
            if i \<noteq> sid_id s then Inl (Bail ''ServerID id does not verify'') else Inr ()))"

definition server_id_len :: nat where
  "server_id_len = 32 + VERIFICATION_KEY_BYTES + PQ_COMMITMENT_BYTES + ID_BYTES + 8 + HASH_BYTES + SALT_BYTES + 1 + ID_BYTES"

definition ServerId_encode :: "server_id \<Rightarrow> bytes res" where
  "ServerId_encode s =
     (let bs = signature_key_bytes (k_signature_key (sid_keys s)) @ vk_bytes (k_verification_key (sid_keys s))
            @ pqc_bytes (k_pq_commitment_bytes (sid_keys s)) @ id_bytes (sid_sponsor_id s)
            @ time_encode_be (sid_timestamp s) @ hash_bytes (sid_hash s) @ salt_bytes (sid_salt s)
            @ [sid_pow s] @ id_bytes (sid_id s)
      in if length bs \<noteq> server_id_len then Inl (Bail ''incorrect byte count'') else Inr bs)"

definition slice :: "nat \<Rightarrow> nat \<Rightarrow> 'a list \<Rightarrow> 'a list" where
  "slice pos n xs = take n (drop pos xs)"

definition ServerId_decode :: "crypto \<Rightarrow> bytes \<Rightarrow> server_id res" where
  "ServerId_decode C bs =
     (if length bs \<noteq> server_id_len then Inl (Bail ''incorrect byte count'')
      else
        rbind (Id_from_slice (slice 96 32 bs)) (\<lambda>sponsor.
        rbind (TimeMillisBytes_from_bytes (slice 128 8 bs)) (\<lambda>tb.
        rbind (Hash_from_slice (slice 136 32 bs)) (\<lambda>h.
        rbind (Salt_from_slice (slice 168 8 bs)) (\<lambda>s.
        rbind (VerificationKey_from_bytes C (VerificationKeyBytes (slice 32 32 bs))) (\<lambda>vk.
        rbind (PQCommitmentBytes_from_slice (slice 64 32 bs)) (\<lambda>pqc.
        rbind (Id_from_slice (slice 177 32 bs)) (\<lambda>i.
          Inr \<lparr>sid_keys = \<lparr>k_signature_key = SignatureKey (slice 0 32 bs), k_verification_key = vk,
                   k_verification_key_bytes = VerificationKeyBytes (vk_bytes vk), k_pq_commitment_bytes = pqc\<rparr>,
               sid_sponsor_id = sponsor, sid_timestamp = timestamp_decode_be tb, sid_hash = h, sid_salt = s,
               sid_pow = bs ! 176, sid_id = i\<rparr>))))))))"

definition wf_server_id :: "crypto \<Rightarrow> server_id \<Rightarrow> bool" where
  "wf_server_id C s \<longleftrightarrow> length (signature_key_bytes (k_signature_key (sid_keys s))) = 32
     \<and> length (vk_bytes (k_verification_key (sid_keys s))) = 32 \<and> ed_key_valid C (vk_bytes (k_verification_key (sid_keys s)))
     \<and> k_verification_key_bytes (sid_keys s) = VerificationKeyBytes (vk_bytes (k_verification_key (sid_keys s)))
     \<and> wf_pqc (k_pq_commitment_bytes (sid_keys s)) \<and> wf_id (sid_sponsor_id s) \<and> in_i64 (sid_timestamp s)
     \<and> wf_hash (sid_hash s) \<and> wf_salt (sid_salt s) \<and> wf_id (sid_id s)"

lemma server_id_len_value: "server_id_len = 209"
  by (simp add: server_id_len_def byte_counts)

lemma slice_append_right: "length xs \<le> pos \<Longrightarrow> slice pos n (xs @ ys) = slice (pos - length xs) n ys"
  by (simp add: slice_def)

lemma slice_append_left: "length xs = n \<Longrightarrow> slice 0 n (xs @ ys) = xs"
  by (simp add: slice_def)

lemma slice_Suc: "slice (Suc p) n (x # xs) = slice p n xs"
  by (simp add: slice_def)

lemma slice_all: "length xs = n \<Longrightarrow> slice 0 n xs = xs"
  by (simp add: slice_def)

text \<open>a server identity written to disk is read back unchanged, in 209 bytes.\<close>

theorem server_id_roundtrip:
  assumes "wf_server_id C s"
  shows "\<exists>bs. ServerId_encode s = Inr bs \<and> length bs = 209 \<and> ServerId_decode C bs = Inr s"
proof -
  note w = assms[unfolded wf_server_id_def wf_newtypes byte_counts]
  let ?bs = "signature_key_bytes (k_signature_key (sid_keys s)) @ vk_bytes (k_verification_key (sid_keys s))
            @ pqc_bytes (k_pq_commitment_bytes (sid_keys s)) @ id_bytes (sid_sponsor_id s)
            @ time_encode_be (sid_timestamp s) @ hash_bytes (sid_hash s) @ salt_bytes (sid_salt s)
            @ [sid_pow s] @ id_bytes (sid_id s)"
  have len: "length ?bs = 209" using w by simp
  have slices: "slice 0 32 ?bs = signature_key_bytes (k_signature_key (sid_keys s))"
      "slice 32 32 ?bs = vk_bytes (k_verification_key (sid_keys s))"
      "slice 64 32 ?bs = pqc_bytes (k_pq_commitment_bytes (sid_keys s))"
      "slice 96 32 ?bs = id_bytes (sid_sponsor_id s)"
      "slice 128 8 ?bs = time_encode_be (sid_timestamp s)"
      "slice 136 32 ?bs = hash_bytes (sid_hash s)"
      "slice 168 8 ?bs = salt_bytes (sid_salt s)"
      "slice 177 32 ?bs = id_bytes (sid_id s)" "?bs ! 176 = sid_pow s"
    using w by (simp_all add: slice_append_right slice_append_left slice_all slice_Suc nth_append)
  have wf: "wf_id (sid_sponsor_id s)" "wf_hash (sid_hash s)" "wf_salt (sid_salt s)"
      "wf_pqc (k_pq_commitment_bytes (sid_keys s))" "wf_id (sid_id s)" "in_i64 (sid_timestamp s)"
    using assms by (auto simp: wf_server_id_def)
  have "ServerId_encode s = Inr ?bs"
    using len by (simp add: ServerId_encode_def server_id_len_value Let_def)
  moreover have "ServerId_decode C ?bs = Inr s"
    unfolding ServerId_decode_def slices
    using len w wf by (simp add: server_id_len_value from_slice_wf TimeMillisBytes_from_bytes_def
        VerificationKey_from_bytes_def time_decode_encode)
  ultimately show ?thesis using len by blast
qed


section \<open>Peers\<close>

record peer_pow =
  pp_sponsor_id :: id
  pp_timestamp :: time_millis
  pp_content_hash :: hash
  pp_salt :: salt
  pp_pow :: pow

definition PeerPow_pow :: "crypto \<Rightarrow> id \<Rightarrow> verification_key_bytes \<Rightarrow> pq_commitment_bytes \<Rightarrow> bytes \<Rightarrow> hash
    \<Rightarrow> salt \<Rightarrow> (pow \<times> hash) res" where
  "PeerPow_pow C sponsor vkb pqcb timestamp_be h s = server_pow_measure C sponsor vkb pqcb timestamp_be h s"

definition PeerPow_new :: "crypto \<Rightarrow> id \<Rightarrow> verification_key_bytes \<Rightarrow> pq_commitment_bytes \<Rightarrow> time_millis \<Rightarrow> hash
    \<Rightarrow> salt \<Rightarrow> peer_pow res" where
  "PeerPow_new C sponsor vkb pqcb t ch s =
     rbind (PeerPow_pow C sponsor vkb pqcb (time_encode_be t) ch s) (\<lambda>(p, _).
       Inr \<lparr>pp_sponsor_id = sponsor, pp_timestamp = t, pp_content_hash = ch, pp_salt = s, pp_pow = p\<rparr>)"

definition PeerPow_zero :: peer_pow where
  "PeerPow_zero = \<lparr>pp_sponsor_id = Id_zero, pp_timestamp = 0, pp_content_hash = Hash_zero,
     pp_salt = Salt_zero, pp_pow = 0\<rparr>"

definition own_pow :: "crypto \<Rightarrow> peer_pow \<Rightarrow> verification_key_bytes \<Rightarrow> pq_commitment_bytes \<Rightarrow> (pow \<times> hash) res" where
  "own_pow C pp vkb pqcb =
     PeerPow_pow C (pp_sponsor_id pp) vkb pqcb (time_encode_be (pp_timestamp pp)) (pp_content_hash pp) (pp_salt pp)"

definition PeerPow_verify :: "crypto \<Rightarrow> peer_pow \<Rightarrow> verification_key_bytes \<Rightarrow> pq_commitment_bytes \<Rightarrow> unit res" where
  "PeerPow_verify C pp vkb pqcb =
     rbind (PeerPow_pow C (pp_sponsor_id pp) vkb pqcb (time_encode_be (pp_timestamp pp)) (pp_content_hash pp) (pp_salt pp))
       (\<lambda>(p, _). if p = pp_pow pp then Inr () else Inl (Bail ''pow does not match inputs''))"

text \<open>The decayed work is an \<open>f64\<close>; it is the real number the code approximates.\<close>

definition pow_decayed :: "duration_millis \<Rightarrow> peer_pow \<Rightarrow> time_millis \<Rightarrow> real" where
  "pow_decayed halflife pp now =
     real (unat (pp_pow pp)) / 2 powr (real_of_int (time_sub now (pp_timestamp pp)) / real_of_int halflife)"

definition pow_decayed_day :: "peer_pow \<Rightarrow> time_millis \<Rightarrow> real" where
  "pow_decayed_day = pow_decayed MILLIS_IN_DAY"

definition pow_decayed_month :: "peer_pow \<Rightarrow> time_millis \<Rightarrow> real" where
  "pow_decayed_month = pow_decayed MILLIS_IN_MONTH"

record client_pow =
  cp_peer_verification_key :: verification_key_bytes
  cp_peer_pq_commitment_bytes :: pq_commitment_bytes
  cp_peer_pow :: peer_pow

definition ClientPow_measure :: "crypto \<Rightarrow> verification_key_bytes \<Rightarrow> pq_commitment_bytes \<Rightarrow> id \<Rightarrow> time_millis
    \<Rightarrow> hash \<Rightarrow> salt \<Rightarrow> client_pow res" where
  "ClientPow_measure C vkb pqcb sponsor t ch s =
     rbind (server_pow_measure C sponsor vkb pqcb (time_encode_be t) ch s) (\<lambda>(p, _).
       Inr \<lparr>cp_peer_verification_key = vkb, cp_peer_pq_commitment_bytes = pqcb,
            cp_peer_pow = \<lparr>pp_sponsor_id = sponsor, pp_timestamp = t, pp_content_hash = ch, pp_salt = s, pp_pow = p\<rparr>\<rparr>)"

definition ClientPow_verify :: "crypto \<Rightarrow> client_pow \<Rightarrow> unit res" where
  "ClientPow_verify C cp =
     PeerPow_verify C (cp_peer_pow cp) (cp_peer_verification_key cp) (cp_peer_pq_commitment_bytes cp)"

lemma PeerPow_new_verify: "PeerPow_new C sponsor vkb pqcb t ch s = Inr pp \<Longrightarrow> PeerPow_verify C pp vkb pqcb = Inr ()"
  by (auto simp: PeerPow_new_def PeerPow_verify_def)

lemma ClientPow_measure_verify:
  "ClientPow_measure C vkb pqcb sponsor t ch s = Inr cp \<Longrightarrow> ClientPow_verify C cp = Inr ()"
  by (auto simp: ClientPow_measure_def ClientPow_verify_def PeerPow_verify_def PeerPow_pow_def)

record peer =
  p_id :: id
  p_verification_key_bytes :: verification_key_bytes
  p_pq_commitment_bytes :: pq_commitment_bytes
  p_pow_initial :: peer_pow
  p_pow_current_day :: peer_pow
  p_pow_current_month :: peer_pow
  p_version :: string
  p_address :: string
  p_timestamp :: time_millis
  p_signature :: signature

definition Peer_zero :: "string \<Rightarrow> peer" where
  "Peer_zero pkg_version = \<lparr>p_id = Id_zero, p_verification_key_bytes = VerificationKeyBytes_zero,
     p_pq_commitment_bytes = PQCommitmentBytes_zero, p_pow_initial = PeerPow_zero,
     p_pow_current_day = PeerPow_zero, p_pow_current_month = PeerPow_zero, p_version = pkg_version,
     p_address = '''', p_timestamp = 0, p_signature = Signature_zero\<rparr>"

definition signature_hash_generate :: "crypto \<Rightarrow> peer \<Rightarrow> hash res" where
  "signature_hash_generate C p =
     rbind (own_pow C (p_pow_initial p) (p_verification_key_bytes p) (p_pq_commitment_bytes p)) (\<lambda>(_, hi).
     rbind (own_pow C (p_pow_current_day p) (p_verification_key_bytes p) (p_pq_commitment_bytes p)) (\<lambda>(_, hd).
     rbind (own_pow C (p_pow_current_month p) (p_verification_key_bytes p) (p_pq_commitment_bytes p)) (\<lambda>(_, hm).
       Inr (hash_multiple C [id_bytes (p_id p), vkb_bytes (p_verification_key_bytes p),
         pqc_bytes (p_pq_commitment_bytes p), hash_bytes hi, hash_bytes hd, hash_bytes hm,
         str_bytes (p_address p), time_encode_be (p_timestamp p)]))))"

definition Peer_sign :: "crypto \<Rightarrow> time_millis \<Rightarrow> signature_key \<Rightarrow> peer \<Rightarrow> peer res" where
  "Peer_sign C now sk p =
     (let p' = p\<lparr>p_timestamp := now\<rparr> in
      rbind (signature_hash_generate C p') (\<lambda>h.
        Inr (p'\<lparr>p_signature := signing_sign C sk (hash_bytes h)\<rparr>)))"

definition verify_signature :: "crypto \<Rightarrow> peer \<Rightarrow> unit res" where
  "verify_signature C p =
     rbind (signature_hash_generate C p) (\<lambda>h.
     rbind (VerificationKey_from_bytes C (p_verification_key_bytes p)) (\<lambda>vk.
       signing_verify C vk (p_signature p) (hash_bytes h)))"

definition verify_server_id :: "crypto \<Rightarrow> peer \<Rightarrow> unit res" where
  "verify_server_id C p =
     (let pi = p_pow_initial p in
      rbind (server_pow_measure C (pp_sponsor_id pi) (p_verification_key_bytes p) (p_pq_commitment_bytes p)
               (time_encode_be (pp_timestamp pi)) (pp_content_hash pi) (pp_salt pi)) (\<lambda>(pow, pow_hash).
        rbind (ensure (pow \<ge> SERVER_KEY_POW_MIN) ''insufficient server_id pow'') (\<lambda>_.
        rbind (server_pow_hash_to_id pow_hash) (\<lambda>i.
          ensure (p_id p = i) ''served_id mismatch''))))"

definition verify_pows :: "crypto \<Rightarrow> peer \<Rightarrow> unit res" where
  "verify_pows C p =
     rbind (PeerPow_verify C (p_pow_initial p) (p_verification_key_bytes p) (p_pq_commitment_bytes p)) (\<lambda>_.
     rbind (PeerPow_verify C (p_pow_current_day p) (p_verification_key_bytes p) (p_pq_commitment_bytes p)) (\<lambda>_.
     PeerPow_verify C (p_pow_current_month p) (p_verification_key_bytes p) (p_pq_commitment_bytes p)))"

definition Peer_verify :: "crypto \<Rightarrow> peer \<Rightarrow> unit res" where
  "Peer_verify C p =
     rbind (verify_signature C p) (\<lambda>_. rbind (verify_server_id C p) (\<lambda>_. verify_pows C p))"

definition ServerId_to_peer :: "crypto \<Rightarrow> string \<Rightarrow> time_millis \<Rightarrow> server_id \<Rightarrow> peer res" where
  "ServerId_to_peer C pkg_version now s =
     (let pp = \<lparr>pp_sponsor_id = sid_sponsor_id s, pp_timestamp = sid_timestamp s, pp_content_hash = sid_hash s,
                pp_salt = sid_salt s, pp_pow = sid_pow s\<rparr>
      in Peer_sign C now (k_signature_key (sid_keys s))
        \<lparr>p_id = sid_id s, p_verification_key_bytes = k_verification_key_bytes (sid_keys s),
         p_pq_commitment_bytes = k_pq_commitment_bytes (sid_keys s), p_pow_initial = pp,
         p_pow_current_day = pp, p_pow_current_month = pp, p_version = pkg_version, p_address = '''',
         p_timestamp = 0, p_signature = Signature_zero\<rparr>)"

lemma server_pow_measure_cases:
  assumes "crypto_ok C"
  obtains p h where "server_pow_measure C sp vkb pqcb tb ch s = Inr (p, h)" "wf_hash h"
  using pow_measure_cases[OF assms] by (metis server_pow_measure_def)

lemma signature_hash_total:
  assumes "crypto_ok C"
  shows "\<exists>h. signature_hash_generate C p = Inr h"
proof -
  have "\<exists>q h. own_pow C pp vkb pqcb = Inr (q, h)" for pp vkb pqcb
    by (metis PeerPow_pow_def assms own_pow_def server_pow_measure_cases)
  then show ?thesis
    by (simp add: signature_hash_generate_def split_beta) (metis fst_conv snd_conv)
qed

lemma signature_hash_update [simp]:
  "signature_hash_generate C (p\<lparr>p_signature := sig\<rparr>) = signature_hash_generate C p"
  "signature_hash_generate C (p\<lparr>p_version := v\<rparr>) = signature_hash_generate C p"
  by (simp_all add: signature_hash_generate_def)

lemma Peer_sign_verify_signature:
  assumes "Peer_sign C now sk p = Inr p'" "key_pair_ok C (signature_key_bytes sk) (vkb_bytes (p_verification_key_bytes p))"
  shows "verify_signature C p' = Inr ()"
  using assms verify_signed[OF assms(2)]
  by (auto simp: Peer_sign_def verify_signature_def Let_def)

text \<open>a server identity that the proof-of-work search produced, announced as a peer record at any
  later time, passes the full verification that every other node runs on it.\<close>

theorem new_server_peer_verifies:
  assumes "crypto_ok C" "pow_search_ok C gen"
    and "key_pair_ok C (signature_key_bytes (k_signature_key ks)) (vkb_bytes (k_verification_key_bytes ks))"
    and "ServerId_new C gen t0 SERVER_KEY_POW_MIN sponsor ks h = Inr s"
  shows "ServerId_verify C s = Inr () \<and> (\<exists>p. ServerId_to_peer C ver now s = Inr p \<and> Peer_verify C p = Inr ())"
proof
  let ?dh = "pow_compute_data_hash C (server_pow_datas sponsor (k_verification_key_bytes ks)
      (k_pq_commitment_bytes ks) (time_encode_be t0) h)"
  obtain sl q ph i where g: "gen SERVER_KEY_POW_MIN ?dh = Inr (sl, q, ph)" "server_pow_hash_to_id ph = Inr i"
      and s: "s = \<lparr>sid_keys = ks, sid_sponsor_id = sponsor, sid_timestamp = t0, sid_hash = h,
        sid_salt = sl, sid_pow = q, sid_id = i\<rparr>"
    using assms(4) by (auto simp: ServerId_new_def server_pow_generate_def Let_def)
  have m: "server_pow_measure C sponsor (k_verification_key_bytes ks) (k_pq_commitment_bytes ks)
      (time_encode_be t0) h sl = Inr (q, ph)" and q: "SERVER_KEY_POW_MIN \<le> q"
    using assms(2) g(1) unfolding pow_search_ok_def server_pow_measure_def pow_measure_def by blast+
  show "ServerId_verify C s = Inr ()"
    using m q g(2) by (simp add: ServerId_verify_def s)
  obtain p where p: "ServerId_to_peer C ver now s = Inr p"
    using signature_hash_total[OF assms(1)] by (fastforce simp: ServerId_to_peer_def Peer_sign_def Let_def)
  have "verify_signature C p = Inr ()"
    using p assms(3) by (auto simp: ServerId_to_peer_def s Let_def intro: Peer_sign_verify_signature)
  moreover have "verify_server_id C p = Inr () \<and> verify_pows C p = Inr ()"
    using p m q g(2)
    by (auto simp: ServerId_to_peer_def s Let_def Peer_sign_def verify_server_id_def verify_pows_def
        PeerPow_verify_def PeerPow_pow_def)
  ultimately show "\<exists>p. ServerId_to_peer C ver now s = Inr p \<and> Peer_verify C p = Inr ()"
    using p by (auto simp: Peer_verify_def)
qed

text \<open>what a successful verification guarantees: a valid signature over the record's hash, an id
  that is the reversed hash of at least 32 bits of initial work, and three proofs whose claimed work is
  the measured work.\<close>

theorem peer_verify_sound:
  assumes "Peer_verify C p = Inr ()"
  shows "(\<exists>w h. own_pow C (p_pow_initial p) (p_verification_key_bytes p) (p_pq_commitment_bytes p) = Inr (w, h)
           \<and> SERVER_KEY_POW_MIN \<le> w \<and> p_id p = Id (rev (hash_bytes h)))
    \<and> (\<exists>sh. signature_hash_generate C p = Inr sh
           \<and> ed_verify C (vkb_bytes (p_verification_key_bytes p)) (hash_bytes sh) (signature_bytes (p_signature p)))
    \<and> list_all (\<lambda>pp. \<exists>h. own_pow C pp (p_verification_key_bytes p) (p_pq_commitment_bytes p) = Inr (pp_pow pp, h))
           [p_pow_initial p, p_pow_current_day p, p_pow_current_month p]"
  using assms
  by (auto simp: Peer_verify_def verify_server_id_def verify_pows_def PeerPow_verify_def PeerPow_pow_def Let_def
      verify_signature_def VerificationKey_from_bytes_def signing_verify_def server_pow_hash_to_id_def own_pow_def
      split: if_splits)

text \<open>the signature does not cover the \<open>version\<close> field: any version string on a verified record
  verifies as well.\<close>

theorem peer_version_unsigned: "Peer_verify C (p\<lparr>p_version := v\<rparr>) = Peer_verify C p"
  by (simp add: Peer_verify_def verify_signature_def verify_server_id_def verify_pows_def)

end
