(* ===== verification/Encryption.thy ===== *)
theory Encryption
  imports Identity
begin

text \<open>
  \<open>tools/encryption.rs\<close>: authenticated encryption that any of several passwords opens. A
  random file key encrypts the body and is wrapped once per password under a key derived by
  Argon2; the KDF parameters travel in a 15-byte header and are bounded before the KDF runs.
  Argon2 and ChaCha20-Poly1305 are arguments, and so are the random key and nonces.
\<close>

record argon2_config =
  ac_algorithm :: byte
  ac_version :: byte
  ac_m_cost :: nat
  ac_t_cost :: nat
  ac_p_cost :: nat

text \<open>An encryption yields the ciphertext followed by its 16-byte tag.\<close>

record aead =
  argon2_params_valid :: "nat \<Rightarrow> nat \<Rightarrow> nat \<Rightarrow> bool"
  argon2_hash_password :: "argon2_config \<Rightarrow> bytes \<Rightarrow> bytes option"
  chacha_encrypt :: "bytes \<Rightarrow> bytes \<Rightarrow> bytes \<Rightarrow> bytes option"
  chacha_decrypt :: "bytes \<Rightarrow> bytes \<Rightarrow> bytes \<Rightarrow> bytes option"

definition HEADER_FORMAT_VERSION :: byte where "HEADER_FORMAT_VERSION = 1"
definition HEADER_SIZE :: nat where "HEADER_SIZE = 15"
definition MAX_RECIPIENTS :: nat where "MAX_RECIPIENTS = 32"
definition NONCE_SIZE :: nat where "NONCE_SIZE = 12"
definition FILE_KEY_SIZE :: nat where "FILE_KEY_SIZE = 32"
definition WRAPPED_KEY_SIZE :: nat where "WRAPPED_KEY_SIZE = FILE_KEY_SIZE + 16"
definition RECIPIENT_SLOT_SIZE :: nat where "RECIPIENT_SLOT_SIZE = NONCE_SIZE + WRAPPED_KEY_SIZE"

lemmas encryption_sizes = HEADER_SIZE_def MAX_RECIPIENTS_def NONCE_SIZE_def FILE_KEY_SIZE_def
  WRAPPED_KEY_SIZE_def RECIPIENT_SLOT_SIZE_def

definition Argon2Config_strong :: argon2_config where
  "Argon2Config_strong = \<lparr>ac_algorithm = 2, ac_version = 19, ac_m_cost = 19 * 1024, ac_t_cost = 2, ac_p_cost = 1\<rparr>"

definition Argon2Config_weak :: argon2_config where
  "Argon2Config_weak = \<lparr>ac_algorithm = 2, ac_version = 19, ac_m_cost = 4 * 1024, ac_t_cost = 2, ac_p_cost = 1\<rparr>"

definition to_argon2 :: "aead \<Rightarrow> argon2_config \<Rightarrow> argon2_config res" where
  "to_argon2 A cfg =
     (if ac_algorithm cfg \<notin> {0, 1, 2} then Inl (Bail ''unknown argon2 algorithm byte'')
      else if ac_version cfg \<notin> {16, 19} then Inl (Bail ''unknown argon2 version byte'')
      else if \<not> argon2_params_valid A (ac_m_cost cfg) (ac_t_cost cfg) (ac_p_cost cfg)
           then Inl (Bail ''argon2 params error'')
      else Inr cfg)"

definition write_header :: "argon2_config \<Rightarrow> bytes" where
  "write_header cfg = [HEADER_FORMAT_VERSION, ac_algorithm cfg, ac_version cfg]
     @ be_bytes 4 (ac_m_cost cfg) @ be_bytes 4 (ac_t_cost cfg) @ be_bytes 4 (ac_p_cost cfg)"

definition from_header_bytes :: "bytes \<Rightarrow> argon2_config res" where
  "from_header_bytes bs =
     (if length bs < HEADER_SIZE then Inl (Bail ''ciphertext too short to contain argon2 header'')
      else if bs ! 0 \<noteq> HEADER_FORMAT_VERSION then Inl (Bail ''unknown argon2 header format version'')
      else let m_cost = be_nat (slice 3 4 bs); t_cost = be_nat (slice 7 4 bs); p_cost = be_nat (slice 11 4 bs) in
        if m_cost > 256 * 1024 then Inl (Bail ''argon2 m_cost too large'')
        else if t_cost > 16 then Inl (Bail ''argon2 t_cost too large'')
        else if p_cost > 4 then Inl (Bail ''argon2 p_cost too large'')
        else Inr \<lparr>ac_algorithm = bs ! 1, ac_version = bs ! 2, ac_m_cost = m_cost, ac_t_cost = t_cost,
                  ac_p_cost = p_cost\<rparr>)"

definition derive_wrap_key :: "aead \<Rightarrow> argon2_config \<Rightarrow> bytes \<Rightarrow> bytes res" where
  "derive_wrap_key A argon2 password = of_option ''key derivation error'' (argon2_hash_password A argon2 password)"

definition wrap_slot :: "aead \<Rightarrow> argon2_config \<Rightarrow> bytes \<Rightarrow> bytes \<times> bytes \<Rightarrow> bytes res" where
  "wrap_slot A argon2 file_key = (\<lambda>(password, wrap_nonce).
     rbind (derive_wrap_key A argon2 password) (\<lambda>wrap_key.
     rbind (of_option ''key wrap failed'' (chacha_encrypt A wrap_key wrap_nonce file_key)) (\<lambda>wrapped.
       Inr (wrap_nonce @ wrapped))))"

definition encrypt_with_config :: "aead \<Rightarrow> bytes \<Rightarrow> bytes list \<Rightarrow> bytes \<Rightarrow> argon2_config \<Rightarrow> bytes \<Rightarrow> bytes list \<Rightarrow> bytes res" where
  "encrypt_with_config A file_key wrap_nonces body_nonce cfg plaintext passwords =
     (if passwords = [] then Inl (Bail ''at least one password required'')
      else if length passwords > MAX_RECIPIENTS then Inl (Bail ''too many recipients'')
      else rbind (to_argon2 A cfg) (\<lambda>argon2.
        rbind (rmap (wrap_slot A argon2 file_key) (zip passwords wrap_nonces)) (\<lambda>slots.
        rbind (of_option ''body encryption failed'' (chacha_encrypt A file_key body_nonce plaintext)) (\<lambda>body.
          Inr (write_header cfg @ [word_of_nat (length passwords)] @ concat slots @ body_nonce @ body)))))"

definition encrypt_strong :: "aead \<Rightarrow> bytes \<Rightarrow> bytes list \<Rightarrow> bytes \<Rightarrow> bytes \<Rightarrow> bytes list \<Rightarrow> bytes res" where
  "encrypt_strong A fk ns bn plaintext passwords = encrypt_with_config A fk ns bn Argon2Config_strong plaintext passwords"

definition encrypt_weak :: "aead \<Rightarrow> bytes \<Rightarrow> bytes list \<Rightarrow> bytes \<Rightarrow> bytes \<Rightarrow> bytes list \<Rightarrow> bytes res" where
  "encrypt_weak A fk ns bn plaintext passwords = encrypt_with_config A fk ns bn Argon2Config_weak plaintext passwords"

fun try_slots :: "aead \<Rightarrow> bytes \<Rightarrow> bytes \<Rightarrow> nat \<Rightarrow> nat \<Rightarrow> bytes option res" where
  "try_slots A wrap_key ct pos 0 = Inr None"
| "try_slots A wrap_key ct pos (Suc n) =
     (case chacha_decrypt A wrap_key (slice pos NONCE_SIZE ct) (slice (pos + NONCE_SIZE) WRAPPED_KEY_SIZE ct) of
        Some key_bytes \<Rightarrow>
          if length key_bytes = FILE_KEY_SIZE then Inr (Some key_bytes)
          else Inl (Bail ''unwrapped file key has wrong length'')
      | None \<Rightarrow> try_slots A wrap_key ct (pos + RECIPIENT_SLOT_SIZE) n)"

definition decrypt :: "aead \<Rightarrow> bytes \<Rightarrow> bytes \<Rightarrow> bytes res" where
  "decrypt A ct password =
     rbind (from_header_bytes ct) (\<lambda>cfg. rbind (to_argon2 A cfg) (\<lambda>argon2.
       if length ct \<le> HEADER_SIZE then Inl (Bail ''ciphertext too short: missing recipient count'')
       else let num_recipients = unat (ct ! HEADER_SIZE); pos = HEADER_SIZE + 1 in
         if num_recipients = 0 \<or> num_recipients > MAX_RECIPIENTS then Inl (Bail ''invalid recipient count'')
         else let recipients_end = pos + num_recipients * RECIPIENT_SLOT_SIZE in
           if length ct < recipients_end + NONCE_SIZE + 16
           then Inl (Bail ''ciphertext too short for claimed recipient count'')
           else rbind (derive_wrap_key A argon2 password) (\<lambda>wrap_key.
             rbind (try_slots A wrap_key ct pos num_recipients) (\<lambda>found.
             rbind (of_option ''password did not match any recipient'' found) (\<lambda>file_key.
               of_option ''body decryption failed''
                 (chacha_decrypt A file_key (slice recipients_end NONCE_SIZE ct) (drop (recipients_end + NONCE_SIZE) ct)))))))"

text \<open>What the code relies on: a ciphertext opens under its key and nonce, and a wrapped key does not
  open under the different key of another recipient.\<close>

definition aead_inverts :: "aead \<Rightarrow> bool" where
  "aead_inverts A \<longleftrightarrow> (\<forall>k n x c. chacha_encrypt A k n x = Some c \<longrightarrow>
     chacha_decrypt A k n c = Some x \<and> length c = length x + 16)"

definition slots_authentic :: "aead \<Rightarrow> argon2_config \<Rightarrow> bytes \<Rightarrow> bytes list \<Rightarrow> bytes list \<Rightarrow> bool" where
  "slots_authentic A cfg file_key passwords nonces \<longleftrightarrow>
     (\<forall>p \<in> set passwords. \<forall>q \<in> set passwords. \<forall>n \<in> set nonces. \<forall>kp kq c.
        argon2_hash_password A cfg p = Some kp \<and> argon2_hash_password A cfg q = Some kq \<and> kp \<noteq> kq
        \<and> chacha_encrypt A kq n file_key = Some c \<longrightarrow> chacha_decrypt A kp n c = None)"

lemma length_write_header [simp]: "length (write_header cfg) = 15"
  by (simp add: write_header_def)

definition cfg_in_bounds :: "argon2_config \<Rightarrow> bool" where
  "cfg_in_bounds cfg \<longleftrightarrow> ac_m_cost cfg \<le> 256 * 1024 \<and> ac_t_cost cfg \<le> 16 \<and> ac_p_cost cfg \<le> 4"

lemma from_write_header:
  assumes "cfg_in_bounds cfg"
  shows "from_header_bytes (write_header cfg @ rest) = Inr cfg"
proof -
  let ?bs = "write_header cfg @ rest"
  have "slice 3 4 ?bs = be_bytes 4 (ac_m_cost cfg)" "slice 7 4 ?bs = be_bytes 4 (ac_t_cost cfg)"
      "slice 11 4 ?bs = be_bytes 4 (ac_p_cost cfg)"
    by (simp_all add: write_header_def slice_def)
  moreover have "?bs ! 0 = HEADER_FORMAT_VERSION" "?bs ! 1 = ac_algorithm cfg" "?bs ! 2 = ac_version cfg"
    by (simp_all add: write_header_def)
  ultimately show ?thesis
    using assms by (simp add: from_header_bytes_def cfg_in_bounds_def HEADER_SIZE_def)
qed

lemma wrap_slot_Inr:
  "wrap_slot A cfg fk (p, n) = Inr s \<longleftrightarrow>
     (\<exists>k w. argon2_hash_password A cfg p = Some k \<and> chacha_encrypt A k n fk = Some w \<and> s = n @ w)"
  by (auto simp: wrap_slot_def derive_wrap_key_def)

lemma try_slots_append:
  assumes "\<forall>s \<in> set slots. length s = RECIPIENT_SLOT_SIZE" "length pre = pos"
    and "\<And>s. s \<in> set slots \<Longrightarrow> chacha_decrypt A wk (take NONCE_SIZE s) (drop NONCE_SIZE s) = None
             \<or> chacha_decrypt A wk (take NONCE_SIZE s) (drop NONCE_SIZE s) = Some fk"
    and "\<exists>s \<in> set slots. chacha_decrypt A wk (take NONCE_SIZE s) (drop NONCE_SIZE s) = Some fk"
    and "length fk = FILE_KEY_SIZE"
  shows "try_slots A wk (pre @ concat slots @ rest) pos (length slots) = Inr (Some fk)"
  using assms
proof (induction slots arbitrary: pre pos)
  case (Cons s slots)
  have s: "length s = 60" using Cons.prems(1) by (simp add: encryption_sizes)
  have sl: "slice pos NONCE_SIZE (pre @ concat (s # slots) @ rest) = take NONCE_SIZE s"
      "slice (pos + NONCE_SIZE) WRAPPED_KEY_SIZE (pre @ concat (s # slots) @ rest) = drop NONCE_SIZE s"
    using s Cons.prems(2) by (auto simp: slice_def encryption_sizes)
  show ?case
  proof (cases "chacha_decrypt A wk (take NONCE_SIZE s) (drop NONCE_SIZE s)")
    case None
    then have "\<exists>s \<in> set slots. chacha_decrypt A wk (take NONCE_SIZE s) (drop NONCE_SIZE s) = Some fk"
      using Cons.prems(4) by auto
    then have "try_slots A wk ((pre @ s) @ concat slots @ rest) (pos + RECIPIENT_SLOT_SIZE) (length slots)
        = Inr (Some fk)"
      using Cons.prems s by (intro Cons.IH) (auto simp: encryption_sizes)
    then show ?thesis using None sl by simp
  next
    case (Some k)
    then have "k = fk" using Cons.prems(3)[of s] by simp
    with Some Cons.prems(5) sl show ?thesis by simp
  qed
qed simp

lemma encrypt_then_decrypt:
  assumes "encrypt_with_config A file_key nonces body_nonce cfg plaintext passwords = Inr ct"
    and "cfg \<in> {Argon2Config_strong, Argon2Config_weak}" "password \<in> set passwords"
    and "length file_key = 32" "length nonces = length passwords" "\<forall>n \<in> set nonces. length n = 12"
    and "length body_nonce = 12" "aead_inverts A" "slots_authentic A cfg file_key passwords nonces"
  shows "decrypt A ct password = Inr plaintext"
proof -
  obtain slots body where enc: "passwords \<noteq> []" "length passwords \<le> 32" "to_argon2 A cfg = Inr cfg"
      "rmap (wrap_slot A cfg file_key) (zip passwords nonces) = Inr slots"
      "chacha_encrypt A file_key body_nonce plaintext = Some body"
      and ct: "ct = write_header cfg @ [word_of_nat (length passwords)] @ concat slots @ body_nonce @ body"
    using assms(1) by (auto simp: encrypt_with_config_def to_argon2_def MAX_RECIPIENTS_def split: if_splits)
  have all2: "list_all2 (\<lambda>x y. wrap_slot A cfg file_key x = Inr y) (zip passwords nonces) slots"
    using enc(4) by (simp add: rmap_eq_Inr)
  have len: "length slots = length passwords" using all2 assms(5) by (auto dest: list_all2_lengthD)
  have slot: "\<exists>p n k w. p \<in> set passwords \<and> n \<in> set nonces \<and> argon2_hash_password A cfg p = Some k
      \<and> chacha_encrypt A k n file_key = Some w \<and> s = n @ w" if in_s: "s \<in> set slots" for s
  proof -
    obtain i where i: "i < length slots" "s = slots ! i" using in_s unfolding in_set_conv_nth by blast
    with all2 have "wrap_slot A cfg file_key (passwords ! i, nonces ! i) = Inr s"
      using len assms(5) by (auto simp: list_all2_conv_all_nth)
    moreover have "passwords ! i \<in> set passwords" "nonces ! i \<in> set nonces" using i len assms(5) by simp_all
    ultimately show ?thesis unfolding wrap_slot_Inr by blast
  qed
  have n12: "length n = NONCE_SIZE" if "n \<in> set nonces" for n using assms(6) that by (simp add: NONCE_SIZE_def)
  have inv: "chacha_decrypt A k n c = Some x \<and> length c = length x + 16" if "chacha_encrypt A k n x = Some c" for k n x c
    using assms(8) that by (auto simp: aead_inverts_def)
  obtain i where i: "i < length passwords" "passwords ! i = password" using assms(3) unfolding in_set_conv_nth by blast
  then have "wrap_slot A cfg file_key (password, nonces ! i) = Inr (slots ! i)"
    using all2 len assms(5) by (auto simp: list_all2_conv_all_nth)
  then obtain wk w where wk: "argon2_hash_password A cfg password = Some wk"
      "chacha_encrypt A wk (nonces ! i) file_key = Some w" "slots ! i = nonces ! i @ w"
    unfolding wrap_slot_Inr by blast
  have "chacha_decrypt A wk (take NONCE_SIZE s) (drop NONCE_SIZE s) \<in> {None, Some file_key}" if "s \<in> set slots" for s
  proof -
    from slot[OF that] obtain p n k w where s: "p \<in> set passwords" "n \<in> set nonces"
      "argon2_hash_password A cfg p = Some k" "chacha_encrypt A k n file_key = Some w" "s = n @ w" by blast
    have "wk \<noteq> k \<Longrightarrow> chacha_decrypt A wk n w = None"
      using assms(9) assms(3) s wk(1) unfolding slots_authentic_def by blast
    then show ?thesis
      using inv[OF s(4)] n12[OF s(2)] s(5) by (cases "k = wk") auto
  qed
  moreover have "\<exists>s \<in> set slots. chacha_decrypt A wk (take NONCE_SIZE s) (drop NONCE_SIZE s) = Some file_key"
  proof
    show "slots ! i \<in> set slots" using i len by simp
    show "chacha_decrypt A wk (take NONCE_SIZE (slots ! i)) (drop NONCE_SIZE (slots ! i)) = Some file_key"
      using inv[OF wk(2)] wk(3) n12[of "nonces ! i"] i assms(5) by simp
  qed
  moreover have "\<forall>s \<in> set slots. length s = RECIPIENT_SLOT_SIZE"
    using slot inv n12 assms(4) by (fastforce simp: encryption_sizes)
  ultimately have tried: "try_slots A wk ((write_header cfg @ [word_of_nat (length passwords)]) @ concat slots @ body_nonce @ body)
      16 (length slots) = Inr (Some file_key)"
    using assms(4) by (intro try_slots_append) (auto simp: encryption_sizes)
  have cl: "length (concat slots) = length passwords * 60"
    using \<open>\<forall>s \<in> set slots. length s = RECIPIENT_SLOT_SIZE\<close> len
    by (simp add: length_concat sum_list_triv encryption_sizes cong: map_cong)
  have nr: "unat (word_of_nat (length passwords) :: byte) = length passwords"
    using enc(2) by (simp add: unat_byte_of_nat)
  have "cfg_in_bounds cfg" using assms(2)
    by (auto simp: cfg_in_bounds_def Argon2Config_strong_def Argon2Config_weak_def)
  then have hdr: "from_header_bytes ct = Inr cfg" by (simp add: ct from_write_header)
  have nth: "ct ! 15 = word_of_nat (length passwords)" by (simp add: ct nth_append)
  have body: "slice (16 + length passwords * 60) 12 ct = body_nonce" "drop (28 + length passwords * 60) ct = body"
    using cl assms(7) by (simp_all add: ct slice_def drop_Cons')
  have lct: "16 + length passwords * 60 + 12 + 16 \<le> length ct"
    using cl assms(7) inv[OF enc(5)] by (simp add: ct)
  show ?thesis
    using hdr enc tried lct nr nth body wk(1) inv[OF enc(5)] len
    by (simp add: decrypt_def encryption_sizes derive_wrap_key_def ct)
qed

text \<open>C33: every one of the recipients' passwords opens the ciphertext, strong or weak: the trial loop stops
  at a slot that holds the file key.\<close>

theorem decrypt_encrypt:
  assumes "encrypt_strong A file_key nonces body_nonce plaintext passwords = Inr ct
      \<and> slots_authentic A Argon2Config_strong file_key passwords nonces
    \<or> encrypt_weak A file_key nonces body_nonce plaintext passwords = Inr ct
      \<and> slots_authentic A Argon2Config_weak file_key passwords nonces"
    and "password \<in> set passwords" "aead_inverts A"
    and "length file_key = 32" "length nonces = length passwords" "\<forall>n \<in> set nonces. length n = 12"
    and "length body_nonce = 12"
  shows "decrypt A ct password = Inr plaintext"
  using assms encrypt_then_decrypt[of A file_key nonces body_nonce _ plaintext passwords ct password]
  unfolding encrypt_strong_def encrypt_weak_def by blast

definition toy_aead :: aead where
  "toy_aead = \<lparr>argon2_params_valid = (\<lambda>m t p. True), argon2_hash_password = (\<lambda>cfg p. Some (replicate 32 9)),
     chacha_encrypt = (\<lambda>k n x. Some (x @ replicate 16 5)),
     chacha_decrypt = (\<lambda>k n c. if 16 \<le> length c \<and> drop (length c - 16) c = replicate 16 5
                              then Some (take (length c - 16) c) else None)\<rparr>"

lemma toy_aead_laws: "aead_inverts toy_aead" "slots_authentic toy_aead cfg fk ps ns"
  by (auto simp: aead_inverts_def slots_authentic_def toy_aead_def)

theorem decrypt_encrypt_witness:
  "\<exists>ct. encrypt_weak toy_aead (replicate 32 3) [replicate 12 0, replicate 12 1] (replicate 12 2) [1, 2, 3] [ [4], [5] ] = Inr ct
     \<and> decrypt toy_aead ct [5] = Inr [1, 2, 3]"
proof -
  obtain ct where ct: "encrypt_weak toy_aead (replicate 32 3) [replicate 12 0, replicate 12 1] (replicate 12 2)
      [1, 2, 3] [ [4], [5] ] = Inr ct"
    by (simp add: encrypt_weak_def encrypt_with_config_def to_argon2_def toy_aead_def wrap_slot_def
        derive_wrap_key_def Argon2Config_weak_def MAX_RECIPIENTS_def)
  have "decrypt toy_aead ct [5] = Inr [1, 2, 3]"
    by (rule decrypt_encrypt [of toy_aead "replicate 32 3" "[replicate 12 0, replicate 12 1]" "replicate 12 2"
          "[1, 2, 3]" "[ [4], [5] ]"]) (use ct toy_aead_laws in simp_all)
  with ct show ?thesis by blast
qed

text \<open>cost parameters above the limits are refused before any key derivation: the outcome is an error
  that does not depend on the cryptographic primitives at all.\<close>

theorem decrypt_bounds_kdf_cost:
  assumes "256 * 1024 < be_nat (slice 3 4 ct) \<or> 16 < be_nat (slice 7 4 ct) \<or> 4 < be_nat (slice 11 4 ct)"
  shows "\<exists>m. \<forall>A password. decrypt A ct password = Inl (Bail m)"
  using assms by (auto simp: decrypt_def from_header_bytes_def Let_def)

end
