(* ===== verification/Gatherer.thy ===== *)
theory Gatherer
  imports Types
begin

text \<open>
  \<open>tools/bytes_gatherer.rs\<close>: a scatter/gather buffer that keeps large blobs as separate
  segments and small fields in an accumulator. Its contract is the byte string it stands
  for, \<open>contents\<close>: every operation that writes appends to it and \<open>compact\<close> keeps it.
\<close>

record gatherer =
  segments :: "bytes list"
  current :: bytes

definition g_default :: gatherer where
  "g_default = \<lparr>segments = [], current = []\<rparr>"

definition g_flush :: "gatherer \<Rightarrow> gatherer" where
  "g_flush g = (if current g \<noteq> [] then g\<lparr>segments := segments g @ [current g], current := []\<rparr> else g)"

definition put_u8 :: "byte \<Rightarrow> gatherer \<Rightarrow> gatherer" where
  "put_u8 v g = g\<lparr>current := current g @ [v]\<rparr>"

definition put_u16_le :: "nat \<Rightarrow> gatherer \<Rightarrow> gatherer" where
  "put_u16_le v g = g\<lparr>current := current g @ le_bytes 2 v\<rparr>"

definition put_u16 :: "nat \<Rightarrow> gatherer \<Rightarrow> gatherer" where
  "put_u16 v g = g\<lparr>current := current g @ be_bytes 2 v\<rparr>"

definition put_u32_le :: "nat \<Rightarrow> gatherer \<Rightarrow> gatherer" where
  "put_u32_le v g = g\<lparr>current := current g @ le_bytes 4 v\<rparr>"

definition put_u32 :: "nat \<Rightarrow> gatherer \<Rightarrow> gatherer" where
  "put_u32 v g = g\<lparr>current := current g @ be_bytes 4 v\<rparr>"

definition put_u64 :: "nat \<Rightarrow> gatherer \<Rightarrow> gatherer" where
  "put_u64 v g = g\<lparr>current := current g @ be_bytes 8 v\<rparr>"

definition put_slice :: "bytes \<Rightarrow> gatherer \<Rightarrow> gatherer" where
  "put_slice s g = g\<lparr>current := current g @ s\<rparr>"

definition put_bytes :: "bytes \<Rightarrow> gatherer \<Rightarrow> gatherer" where
  "put_bytes b g = (if b = [] then g
     else let g' = g_flush g in g'\<lparr>segments := segments g' @ [b]\<rparr>)"

definition g_from_bytes :: "bytes \<Rightarrow> gatherer" where
  "g_from_bytes b = put_bytes b g_default"

definition put_bytes_gatherer :: "gatherer \<Rightarrow> gatherer \<Rightarrow> gatherer" where
  "put_bytes_gatherer other g =
     (if segments other = []
      then (if current other \<noteq> [] then g\<lparr>current := current g @ current other\<rparr> else g)
      else let other' = g_flush other; g' = g_flush g
           in g'\<lparr>segments := segments g' @ segments other'\<rparr>)"

definition g_is_empty :: "gatherer \<Rightarrow> bool" where
  "g_is_empty g \<longleftrightarrow> segments g = [] \<and> current g = []"

definition g_len :: "gatherer \<Rightarrow> nat" where
  "g_len g = sum_list (map length (segments g)) + length (current g)"

text \<open>The loop of \<open>compact\<close>: the remaining segments, the output so far and the accumulator.\<close>

fun compact_loop :: "nat \<Rightarrow> bytes list \<Rightarrow> bytes list \<Rightarrow> bytes \<Rightarrow> bytes list" where
  "compact_loop threshold [] out acc = (if acc \<noteq> [] then out @ [acc] else out)"
| "compact_loop threshold (seg # segs) out acc =
     (if length seg < threshold then compact_loop threshold segs out (acc @ seg)
      else compact_loop threshold segs ((if acc \<noteq> [] then out @ [acc] else out) @ [seg]) [])"

definition compact :: "nat \<Rightarrow> gatherer \<Rightarrow> gatherer" where
  "compact threshold g = \<lparr>segments = compact_loop threshold (segments (g_flush g)) [] [], current = []\<rparr>"

definition g_finish :: "gatherer \<Rightarrow> bytes list" where
  "g_finish g = segments (g_flush g)"

definition g_to_bytes :: "gatherer \<Rightarrow> bytes" where
  "g_to_bytes g = (case segments (g_flush g) of [s] \<Rightarrow> s | segs \<Rightarrow> foldl (@) [] segs)"


section \<open>The contract of a byte sink\<close>

locale byte_sink =
  fixes contents :: "'s \<Rightarrow> bytes"
    and empty :: 's
    and put :: "bytes \<Rightarrow> 's \<Rightarrow> 's"
  assumes contents_empty: "contents empty = []"
    and contents_put: "contents (put b s) = contents s @ b"
begin

lemma contents_puts: "contents (fold put bs s) = contents s @ concat bs"
  by (induction bs arbitrary: s) (simp_all add: contents_put)

lemma contents_puts_empty: "contents (fold put bs empty) = concat bs"
  by (simp add: contents_puts contents_empty)

lemma puts_regroup: "concat bs = concat cs \<Longrightarrow> contents (fold put bs s) = contents (fold put cs s)"
  by (simp add: contents_puts)

end

definition contents :: "gatherer \<Rightarrow> bytes" where
  "contents g = concat (segments g) @ current g"

lemma contents_flush [simp]: "contents (g_flush g) = contents g"
  by (simp add: contents_def g_flush_def)

lemma current_flush [simp]: "current (g_flush g) = []"
  by (simp add: g_flush_def)

lemma concat_segments_flush: "concat (segments (g_flush g)) = contents g"
  by (simp add: contents_def g_flush_def)

lemma contents_default [simp]: "contents g_default = []"
  by (simp add: contents_def g_default_def)

lemma contents_puts_fields [simp, wire]:
  "contents (put_u8 v g) = contents g @ [v]"
  "contents (put_u16_le n g) = contents g @ le_bytes 2 n"
  "contents (put_u16 n g) = contents g @ be_bytes 2 n"
  "contents (put_u32_le n g) = contents g @ le_bytes 4 n"
  "contents (put_u32 n g) = contents g @ be_bytes 4 n"
  "contents (put_u64 n g) = contents g @ be_bytes 8 n"
  "contents (put_slice s g) = contents g @ s"
  by (simp_all add: contents_def put_u8_def put_u16_le_def put_u16_def put_u32_le_def put_u32_def
      put_u64_def put_slice_def)

lemma contents_put_bytes [simp, wire]: "contents (put_bytes b g) = contents g @ b"
  using concat_segments_flush[of g] by (auto simp: put_bytes_def contents_def Let_def)

lemma contents_put_gatherer [simp, wire]:
  "contents (put_bytes_gatherer other g) = contents g @ contents other"
  using concat_segments_flush[of g] concat_segments_flush[of other]
  by (auto simp: put_bytes_gatherer_def contents_def Let_def)

lemma contents_from_bytes [simp, wire]: "contents (g_from_bytes b) = b"
  by (simp add: g_from_bytes_def)

lemma g_len_contents [simp]: "g_len g = length (contents g)"
  by (simp add: g_len_def contents_def length_concat)

interpretation slices: byte_sink contents g_default put_slice
  by unfold_locales simp_all

interpretation blobs: byte_sink contents g_default put_bytes
  by unfold_locales simp_all

lemma foldl_append_concat: "foldl (@) acc xs = acc @ concat xs"
  by (induction xs arbitrary: acc) simp_all

lemma g_to_bytes_contents [simp, wire]: "g_to_bytes g = contents g"
  using concat_segments_flush[of g]
  by (auto simp: g_to_bytes_def foldl_append_concat split: list.splits)

lemma compact_loop_concat: "concat (compact_loop t segs out acc) = concat out @ acc @ concat segs"
  by (induction t segs out acc rule: compact_loop.induct) auto

definition no_small_pair :: "nat \<Rightarrow> bytes list \<Rightarrow> bool" where
  "no_small_pair t segs \<longleftrightarrow> (\<forall>i. Suc i < length segs \<longrightarrow> t \<le> length (segs ! i) \<or> t \<le> length (segs ! Suc i))"

text \<open>writing is appending. Whatever mixture of slices and blobs writes the same bytes gives the
  same contiguous output, and merging two gatherers concatenates their bytes.\<close>

theorem gatherer_refines_append:
  "g_to_bytes (fold put_slice bs g_default) = concat bs \<and> g_to_bytes (fold put_bytes bs g_default) = concat bs
    \<and> g_to_bytes (put_bytes_gatherer other g) = g_to_bytes g @ g_to_bytes other"
  by (simp_all add: slices.contents_puts_empty blobs.contents_puts_empty)

text \<open>compacting keeps the bytes and the length, whatever the threshold.\<close>

theorem compact_contents:
  "g_to_bytes (compact t g) = g_to_bytes g"
  "concat (g_finish (compact t g)) = concat (g_finish g)"
  by (simp_all add: compact_def contents_def compact_loop_concat g_finish_def concat_segments_flush
      g_flush_def)

end
