(* ===== verification/Compression.thy ===== *)
theory Compression
  imports Gatherer
begin

text \<open>
  \<open>tools/compression.rs\<close>: payloads tagged with a version byte, lz4 for the wire and brotli
  for storage, with a verbatim fallback and a cap on the decompressed size. The lz4 and
  brotli crates are arguments.
\<close>

record compressor =
  lz4_compress_into :: "bytes \<Rightarrow> bytes option"
  lz4_decompress_size_prepended :: "bytes \<Rightarrow> bytes option"
  brotli_write_all :: "bytes \<Rightarrow> bytes option"
  brotli_read_to_end :: "nat \<Rightarrow> bytes \<Rightarrow> bytes option"

definition COMPRESSION_VERSION_NONE :: byte where "COMPRESSION_VERSION_NONE = 0"
definition COMPRESSION_VERSION_LZ4 :: byte where "COMPRESSION_VERSION_LZ4 = 1"
definition COMPRESSION_VERSION_BROTLI :: byte where "COMPRESSION_VERSION_BROTLI = 2"
definition MIN_BYTES_FOR_LZ4 :: nat where "MIN_BYTES_FOR_LZ4 = 64"
definition MIN_BYTES_FOR_BROTLI :: nat where "MIN_BYTES_FOR_BROTLI = 128"
definition MAX_DECOMPRESSED_SIZE :: nat where "MAX_DECOMPRESSED_SIZE = 32 * 1024 * 1024"

lemmas compression_consts = COMPRESSION_VERSION_NONE_def COMPRESSION_VERSION_LZ4_def
  COMPRESSION_VERSION_BROTLI_def MIN_BYTES_FOR_LZ4_def MIN_BYTES_FOR_BROTLI_def MAX_DECOMPRESSED_SIZE_def

definition compress_passthrough :: "bytes \<Rightarrow> gatherer res" where
  "compress_passthrough input = Inr (put_slice input (put_u8 COMPRESSION_VERSION_NONE g_default))"

definition decompress_passthrough :: "bytes \<Rightarrow> gatherer res" where
  "decompress_passthrough input = Inr (g_from_bytes (drop 1 input))"

definition compress_lz4 :: "compressor \<Rightarrow> bytes \<Rightarrow> gatherer res" where
  "compress_lz4 C input =
     (if length input < MIN_BYTES_FOR_LZ4 then compress_passthrough input
      else rbind (of_option ''lz4 compression failed'' (lz4_compress_into C input)) (\<lambda>compressed.
        Inr (g_from_bytes ([COMPRESSION_VERSION_LZ4] @ le_bytes 4 (length input) @ compressed))))"

definition decompress_lz4 :: "compressor \<Rightarrow> bytes \<Rightarrow> gatherer res" where
  "decompress_lz4 C input =
     (let data = drop 1 input in
      if length data < 4 then Inl (Bail ''lz4 decompression failed: missing size prefix'')
      else let uncompressed_size = le_nat (take 4 data) in
        if uncompressed_size > MAX_DECOMPRESSED_SIZE then Inl (Bail ''lz4 decompressed size exceeds limit'')
        else rbind (of_option ''lz4 decompression failed'' (lz4_decompress_size_prepended C data))
               (\<lambda>v. Inr (g_from_bytes v)))"

definition compress_brotli :: "compressor \<Rightarrow> bytes \<Rightarrow> gatherer res" where
  "compress_brotli C input =
     (if length input < MIN_BYTES_FOR_BROTLI then compress_passthrough input
      else rbind (of_option ''brotli'' (brotli_write_all C input)) (\<lambda>compressed.
        Inr (g_from_bytes (COMPRESSION_VERSION_BROTLI # compressed))))"

definition decompress_brotli :: "compressor \<Rightarrow> bytes \<Rightarrow> gatherer res" where
  "decompress_brotli C input =
     rbind (of_option ''brotli'' (brotli_read_to_end C (MAX_DECOMPRESSED_SIZE + 1) (drop 1 input))) (\<lambda>output.
       if length output > MAX_DECOMPRESSED_SIZE then Inl (Bail ''brotli decompressed size exceeds limit'')
       else Inr (g_from_bytes output))"

definition compress_for_speed :: "compressor \<Rightarrow> bytes \<Rightarrow> gatherer res" where
  "compress_for_speed C input = rbind (compress_lz4 C input) (\<lambda>result.
     if g_len result < length input then Inr result else compress_passthrough input)"

definition compress_for_size :: "compressor \<Rightarrow> bytes \<Rightarrow> gatherer res" where
  "compress_for_size C input = rbind (compress_brotli C input) (\<lambda>result.
     if g_len result < length input then Inr result else compress_passthrough input)"

definition decompress :: "compressor \<Rightarrow> bytes \<Rightarrow> gatherer res" where
  "decompress C input =
     (if input = [] then Inl (Bail ''missing compression version byte'')
      else if hd input = COMPRESSION_VERSION_LZ4 then decompress_lz4 C input
      else if hd input = COMPRESSION_VERSION_BROTLI then decompress_brotli C input
      else if hd input = COMPRESSION_VERSION_NONE then decompress_passthrough input
      else Inl (Bail ''unsupported compression version byte''))"

text \<open>What the code relies on of the two crates, at one input.\<close>

definition lz4_law :: "compressor \<Rightarrow> bytes \<Rightarrow> bool" where
  "lz4_law C x \<longleftrightarrow> (\<exists>c. lz4_compress_into C x = Some c \<and>
     lz4_decompress_size_prepended C (le_bytes 4 (length x) @ c) = Some x)"

definition brotli_law :: "compressor \<Rightarrow> bytes \<Rightarrow> bool" where
  "brotli_law C x \<longleftrightarrow> (\<exists>c. brotli_write_all C x = Some c \<and>
     brotli_read_to_end C (MAX_DECOMPRESSED_SIZE + 1) c = Some (take (MAX_DECOMPRESSED_SIZE + 1) x))"

lemma decompress_passthrough_ok:
  "compress_passthrough x = Inr g \<Longrightarrow> \<exists>g'. decompress C (g_to_bytes g) = Inr g' \<and> g_to_bytes g' = x"
  by (auto simp: compress_passthrough_def decompress_def decompress_passthrough_def compression_consts)

lemma compress_speed_ok:
  assumes "lz4_law C x" "length x \<le> MAX_DECOMPRESSED_SIZE"
  shows "\<exists>g. compress_for_speed C x = Inr g \<and> g_len g \<le> length x + 1 \<and>
           (\<exists>g'. decompress C (g_to_bytes g) = Inr g' \<and> g_to_bytes g' = x)"
proof -
  obtain c where c: "lz4_compress_into C x = Some c"
      "lz4_decompress_size_prepended C (le_bytes 4 (length x) @ c) = Some x"
    using assms(1) by (auto simp: lz4_law_def)
  have pass: "\<exists>g. compress_passthrough x = Inr g \<and> g_len g = length x + 1"
    by (simp add: compress_passthrough_def)
  have m: "length x mod 256 ^ 4 = length x" using assms(2) by (simp add: compression_consts)
  have "decompress_lz4 C (1 # le_bytes 4 (length x) @ c) = Inr (g_from_bytes x)"
    using c m assms(2) by (simp add: decompress_lz4_def)
  then have "decompress C (1 # le_bytes 4 (length x) @ c) = Inr (g_from_bytes x)"
    by (simp add: decompress_def compression_consts)
  then show "\<exists>g. compress_for_speed C x = Inr g \<and> g_len g \<le> length x + 1 \<and>
      (\<exists>g'. decompress C (g_to_bytes g) = Inr g' \<and> g_to_bytes g' = x)"
    using pass decompress_passthrough_ok[of x _ C] c(1)
    by (auto simp: compress_for_speed_def compress_lz4_def COMPRESSION_VERSION_LZ4_def)
qed

lemma compress_size_ok:
  assumes "brotli_law C x" "length x \<le> MAX_DECOMPRESSED_SIZE"
  shows "\<exists>g. compress_for_size C x = Inr g \<and> g_len g \<le> length x + 1 \<and>
           (\<exists>g'. decompress C (g_to_bytes g) = Inr g' \<and> g_to_bytes g' = x)"
proof -
  obtain b where b: "brotli_write_all C x = Some b"
      "brotli_read_to_end C (MAX_DECOMPRESSED_SIZE + 1) b = Some x"
    using assms by (auto simp: brotli_law_def)
  have pass: "\<exists>g. compress_passthrough x = Inr g \<and> g_len g = length x + 1"
    by (simp add: compress_passthrough_def)
  have "decompress C (2 # b) = Inr (g_from_bytes x)"
    using b assms(2) by (simp add: decompress_def decompress_brotli_def COMPRESSION_VERSION_LZ4_def
        COMPRESSION_VERSION_BROTLI_def)
  then show "\<exists>g. compress_for_size C x = Inr g \<and> g_len g \<le> length x + 1 \<and>
      (\<exists>g'. decompress C (g_to_bytes g) = Inr g' \<and> g_to_bytes g' = x)"
    using pass decompress_passthrough_ok[of x _ C] b(1)
    by (auto simp: compress_for_size_def compress_brotli_def COMPRESSION_VERSION_BROTLI_def)
qed

text \<open>whatever is compressed, for the wire or for storage, decompresses to the input, as long as
  the input does not exceed the 32 MiB cap; and the output is never more than one byte longer.\<close>

theorem compress_decompress:
  assumes "lz4_law C x" "brotli_law C x" "length x \<le> MAX_DECOMPRESSED_SIZE" "f \<in> {compress_for_speed C, compress_for_size C}"
  shows "\<exists>g. f x = Inr g \<and> g_len g \<le> length x + 1 \<and>
           (\<exists>g'. decompress C (g_to_bytes g) = Inr g' \<and> g_to_bytes g' = x)"
  using assms compress_speed_ok compress_size_ok by blast

definition toy_compressor :: compressor where
  "toy_compressor = \<lparr>lz4_compress_into = (\<lambda>x. Some x), lz4_decompress_size_prepended = (\<lambda>d. Some (drop 4 d)),
     brotli_write_all = (\<lambda>x. Some x), brotli_read_to_end = (\<lambda>n d. Some (take n d))\<rparr>"

lemma toy_compressor_laws: "lz4_law toy_compressor x" "brotli_law toy_compressor x"
  by (simp_all add: lz4_law_def brotli_law_def toy_compressor_def)

theorem compress_decompress_witness:
  "\<exists>g. compress_for_size toy_compressor [1, 2, 3] = Inr g \<and> g_len g \<le> length [1 :: byte, 2, 3] + 1 \<and>
     (\<exists>g'. decompress toy_compressor (g_to_bytes g) = Inr g' \<and> g_to_bytes g' = [1, 2, 3])"
  by (rule compress_decompress [of toy_compressor]) (simp_all add: toy_compressor_laws MAX_DECOMPRESSED_SIZE_def)

text \<open>no payload decompresses past the cap, unless it was sent verbatim: with an lz4 that
  honours its size prefix and a brotli reader that stops at its limit, the output has at most 32 MiB
  or is the input without its version byte.\<close>

theorem decompress_capped:
  assumes "decompress C input = Inr g"
    and "\<forall>data v. lz4_decompress_size_prepended C data = Some v \<longrightarrow> length v \<le> le_nat (take 4 data)"
  shows "g_len g \<le> MAX_DECOMPRESSED_SIZE \<or> g_to_bytes g = drop 1 input"
  using assms
  by (auto simp: decompress_def decompress_lz4_def decompress_brotli_def decompress_passthrough_def Let_def
      split: if_splits) (meson not_less order_trans)

end
