(* ===== verification/Buckets.thy ===== *)
theory Buckets
  imports Crypto
begin

text \<open>
  \<open>tools/buckets.rs\<close>: the time buckets posts are collected in. A bucket location is the
  hash of a type, a base id, a duration and the bucket's start time; the ladder of durations
  goes from a year to a minute. Rust's \<open>/\<close> truncates towards zero and panics on a zero
  divisor and on \<open>i64::MIN / -1\<close>.
\<close>

datatype bucket_type = User | Hashtag | Mention | ReplyToPost | Sequel

fun bucket_type_u8 :: "bucket_type \<Rightarrow> byte" where
  "bucket_type_u8 User = 0"
| "bucket_type_u8 Hashtag = 1"
| "bucket_type_u8 Mention = 2"
| "bucket_type_u8 ReplyToPost = 3"
| "bucket_type_u8 Sequel = 4"

fun bucket_type_name :: "bucket_type \<Rightarrow> string" where
  "bucket_type_name User = ''User''"
| "bucket_type_name Hashtag = ''Hashtag''"
| "bucket_type_name Mention = ''Mention''"
| "bucket_type_name ReplyToPost = ''ReplyToPost''"
| "bucket_type_name Sequel = ''Sequel''"

record bucket_location =
  bl_bucket_type :: bucket_type
  bl_base_id :: id
  bl_duration :: duration_millis
  bl_bucket_time_millis :: time_millis
  bl_location_id :: id

definition checked_div :: "int \<Rightarrow> int \<Rightarrow> int res" where
  "checked_div a b = (if b = 0 then Inl (Panic ''attempt to divide by zero'')
     else if a = I64_MIN \<and> b = -1 then Inl (Panic ''attempt to divide with overflow'') else Inr (a sdiv b))"

definition round_down_to_bucket_start :: "time_millis \<Rightarrow> duration_millis \<Rightarrow> time_millis res" where
  "round_down_to_bucket_start timestamp duration =
     rbind (checked_div timestamp duration) (\<lambda>q. Inr (q * duration))"

definition bucket_hash :: "crypto \<Rightarrow> bucket_type \<Rightarrow> id \<Rightarrow> duration_millis \<Rightarrow> time_millis \<Rightarrow> hash" where
  "bucket_hash C ty base d t =
     hash_multiple C [ [bucket_type_u8 ty], id_bytes base, duration_encode_be d, time_encode_be t]"

definition BucketLocation_new :: "crypto \<Rightarrow> bucket_type \<Rightarrow> id \<Rightarrow> duration_millis \<Rightarrow> time_millis \<Rightarrow> bucket_location res" where
  "BucketLocation_new C ty base d timestamp =
     rbind (round_down_to_bucket_start timestamp d) (\<lambda>t.
     rbind (Id_from_hash (bucket_hash C ty base d t)) (\<lambda>loc.
       Inr \<lparr>bl_bucket_type = ty, bl_base_id = base, bl_duration = d, bl_bucket_time_millis = t,
            bl_location_id = loc\<rparr>))"

definition get_hash_for_signing :: "crypto \<Rightarrow> bucket_location \<Rightarrow> hash" where
  "get_hash_for_signing C b =
     hash_multiple C [ [bucket_type_u8 (bl_bucket_type b)], id_bytes (bl_base_id b),
       duration_encode_be (bl_duration b), time_encode_be (bl_bucket_time_millis b)]"

definition BucketLocation_validate :: "crypto \<Rightarrow> bucket_location \<Rightarrow> unit res" where
  "BucketLocation_validate C b =
     rbind (BucketLocation_new C (bl_bucket_type b) (bl_base_id b) (bl_duration b) (bl_bucket_time_millis b)) (\<lambda>other.
       if bl_location_id b \<noteq> bl_location_id other then Inl (Bail ''BucketLocation validation failed'') else Inr ())"

definition to_html_attr :: "chrono \<Rightarrow> (bytes \<Rightarrow> string) \<Rightarrow> bucket_location \<Rightarrow> string" where
  "to_html_attr ch hex_encode b =
     ''1~'' @ bucket_type_name (bl_bucket_type b) @ ''~'' @ Id_to_hex_str hex_encode (bl_base_id b) @ ''~''
       @ duration_display (bl_duration b) @ ''~'' @ time_display ch (bl_bucket_time_millis b)"

definition parse_bucket_type :: "string \<Rightarrow> bucket_type res" where
  "parse_bucket_type s =
     (if s = ''User'' then Inr User else if s = ''Hashtag'' then Inr Hashtag
      else if s = ''Mention'' then Inr Mention else if s = ''ReplyToPost'' then Inr ReplyToPost
      else if s = ''Sequel'' then Inr Sequel else Inl (Bail ''Unknown BucketType''))"

definition from_html_attr :: "crypto \<Rightarrow> chrono \<Rightarrow> (string \<Rightarrow> bytes option) \<Rightarrow> string \<Rightarrow> bucket_location res" where
  "from_html_attr C ch hex_decode s =
     (let parts = splitn_on 6 (CHR ''~'') s in
      if length parts < 5 then Inl (Bail ''Invalid BucketLocation attr'')
      else if parts ! 0 \<noteq> ''1'' then Inl (Bail ''Unsupported BucketLocation attr version'')
      else rbind (parse_bucket_type (parts ! 1)) (\<lambda>ty.
           rbind (Id_from_hex_str hex_decode (parts ! 2)) (\<lambda>base.
           rbind (duration_parse (parts ! 3)) (\<lambda>d.
           rbind (time_parse ch (parts ! 4)) (\<lambda>t.
             BucketLocation_new C ty base d t)))))"

definition generate_bucket_location :: "crypto \<Rightarrow> bucket_type \<Rightarrow> id \<Rightarrow> duration_millis \<Rightarrow> time_millis \<Rightarrow> bucket_location res" where
  "generate_bucket_location C ty base d t = BucketLocation_new C ty base d t"

definition BUCKET_DURATIONS :: "duration_millis list" where
  "BUCKET_DURATIONS = [MILLIS_IN_YEAR, MILLIS_IN_MONTH, MILLIS_IN_WEEK, MILLIS_IN_DAY, const_mul MILLIS_IN_HOUR 6,
     MILLIS_IN_HOUR, const_mul MILLIS_IN_MINUTE 15, const_mul MILLIS_IN_MINUTE 5, MILLIS_IN_MINUTE]"

fun bucket_durations_for_type :: "bucket_type \<Rightarrow> duration_millis list" where
  "bucket_durations_for_type Sequel = BUCKET_DURATIONS"
| "bucket_durations_for_type _ = drop 1 BUCKET_DURATIONS"

lemma length_bucket_encodings [simp]: "length (duration_encode_be d) = 8"
  by (simp add: duration_encode_be_def)

lemma round_down_ok:
  "d \<noteq> 0 \<Longrightarrow> d \<noteq> -1 \<Longrightarrow> round_down_to_bucket_start t d = Inr (t sdiv d * d)"
  by (simp add: round_down_to_bucket_start_def checked_div_def)

lemma sdiv_mult_cancel: "(d :: int) \<noteq> 0 \<Longrightarrow> (q * d) sdiv d = q"
proof -
  assume d: "d \<noteq> 0"
  then have "(q * d) sdiv d = sgn q * (sgn d * sgn d) * \<bar>q\<bar>"
    by (simp add: signed_divide_int_def sgn_mult abs_mult ac_simps)
  moreover have "sgn d * sgn d = 1" using d by (simp add: sgn_if)
  ultimately show ?thesis by (simp add: sgn_mult_abs)
qed

lemma round_down_idem:
  assumes "round_down_to_bucket_start t d = Inr b" "in_i64 t"
  shows "round_down_to_bucket_start b d = Inr b"
  using assms sdiv_mult_cancel[of d "t sdiv d"]
  by (auto simp: round_down_to_bucket_start_def checked_div_def in_i64_def I64_MIN_def I64_MAX_def split: if_splits)

text \<open>a bucket is located for every positive duration: its start is a multiple of the duration, the
  time lies in the bucket when it is not before the epoch, and the location validates.\<close>

theorem bucket_new_valid:
  assumes "crypto_ok C" "0 < d" "in_i64 d" "in_i64 t"
  shows "\<exists>b. BucketLocation_new C ty base d t = Inr b \<and> BucketLocation_validate C b = Inr ()
           \<and> d dvd bl_bucket_time_millis b \<and> \<bar>t - bl_bucket_time_millis b\<bar> < d
           \<and> (0 \<le> t \<longrightarrow> bl_bucket_time_millis b \<le> t) \<and> (t \<le> 0 \<longrightarrow> t \<le> bl_bucket_time_millis b)"
proof -
  have r: "round_down_to_bucket_start t d = Inr (t sdiv d * d)" using assms(2) by (simp add: round_down_ok)
  have rr: "round_down_to_bucket_start (t sdiv d * d) d = Inr (t sdiv d * d)"
    by (rule round_down_idem[OF r assms(4)])
  have m: "t - t sdiv d * d = t smod d" by (simp add: minus_sdiv_mult_eq_smod)
  have "\<bar>t smod d\<bar> < d" using smod_int_range[of d t] assms(2) by auto
  moreover have "0 \<le> t \<Longrightarrow> 0 \<le> t smod d" "t \<le> 0 \<Longrightarrow> t smod d \<le> 0"
    using smod_int_compares[of t d] assms(2) by auto
  ultimately show ?thesis
    using assms(1) r rr m by (auto simp: BucketLocation_new_def BucketLocation_validate_def bucket_hash_def)
qed

theorem bucket_new_valid_witness:
  "\<exists>b. BucketLocation_new toy_crypto User Id_zero 86400000 1700000000000 = Inr b
     \<and> BucketLocation_validate toy_crypto b = Inr () \<and> 86400000 dvd bl_bucket_time_millis b
     \<and> \<bar>1700000000000 - bl_bucket_time_millis b\<bar> < 86400000
     \<and> (0 \<le> (1700000000000 :: int) \<longrightarrow> bl_bucket_time_millis b \<le> 1700000000000)
     \<and> ((1700000000000 :: int) \<le> 0 \<longrightarrow> 1700000000000 \<le> bl_bucket_time_millis b)"
  by (rule bucket_new_valid [OF toy_crypto_ok]) (simp_all add: in_i64_numeral)

text \<open>a bucket location with a zero duration, which a remote request can carry, makes validation
  panic instead of failing.\<close>

theorem validate_zero_duration_panics:
  "is_panic (BucketLocation_validate C (b\<lparr>bl_duration := 0\<rparr>))"
  by (simp add: BucketLocation_validate_def BucketLocation_new_def round_down_to_bucket_start_def checked_div_def)

text \<open>before the epoch the bucket start is rounded up: one millisecond before the epoch lies in no
  bucket that starts at or before it.\<close>

theorem round_down_before_epoch_rounds_up:
  assumes "t < 0" "- d < t"
  shows "round_down_to_bucket_start t d = Inr 0"
proof -
  have "t sdiv d = 0" using assms by (simp add: signed_divide_int_def)
  moreover have "\<not> (t = I64_MIN \<and> d = -1)" "d \<noteq> 0" using assms by auto
  ultimately show ?thesis by (simp add: round_down_to_bucket_start_def checked_div_def)
qed

theorem round_down_before_epoch_witness: "round_down_to_bucket_start (-1) 60000 = Inr 0"
  using round_down_before_epoch_rounds_up[of "-1" 60000] by simp

lemma bucket_durations_values:
  "BUCKET_DURATIONS = [29030400000, 2419200000, 604800000, 86400000, 21600000, 3600000, 900000, 300000, 60000]"
  by (simp add: BUCKET_DURATIONS_def const_mul_def millis_values)

lemma sdiv_pos: "0 \<le> a \<Longrightarrow> 0 \<le> b \<Longrightarrow> a sdiv b = a div (b :: int)"
  by (cases "a = 0"; cases "b = 0") (simp_all add: signed_divide_int_def sgn_if)

lemma ladder_steps:
  "list_all (\<lambda>i. list_all (\<lambda>j. i < j \<longrightarrow> BUCKET_DURATIONS ! i mod BUCKET_DURATIONS ! j = 0
     \<and> 60000 \<le> BUCKET_DURATIONS ! j \<and> 60000 \<le> BUCKET_DURATIONS ! i) [0..<9]) [0..<9]"
  by code_simp

text \<open>the ladder is nested: each duration is a multiple of every finer one, so a time's fine bucket
  starts inside its coarse bucket: rounding to the fine one first does not change the coarse one.\<close>

theorem bucket_ladder_nested:
  assumes "i < j" "j < length BUCKET_DURATIONS" "0 \<le> t"
  shows "BUCKET_DURATIONS ! j dvd BUCKET_DURATIONS ! i
    \<and> (\<exists>f. round_down_to_bucket_start t (BUCKET_DURATIONS ! j) = Inr f
         \<and> round_down_to_bucket_start f (BUCKET_DURATIONS ! i) = round_down_to_bucket_start t (BUCKET_DURATIONS ! i))"
proof -
  define c f where "c = BUCKET_DURATIONS ! i" and "f = BUCKET_DURATIONS ! j"
  have all: "\<forall>i < 9. \<forall>j < 9. i < j \<longrightarrow> BUCKET_DURATIONS ! j dvd BUCKET_DURATIONS ! i \<and> 60000 \<le> BUCKET_DURATIONS ! j
      \<and> 60000 \<le> BUCKET_DURATIONS ! i"
    using ladder_steps by (auto simp: list_all_iff dvd_eq_mod_eq_0)
  have len: "length BUCKET_DURATIONS = 9" by (simp add: bucket_durations_values)
  then have ij: "i < 9" "j < 9" using assms by auto
  have dv: "f dvd c" "60000 \<le> f" "60000 \<le> c"
    using all[rule_format, OF ij assms(1)] by (auto simp: c_def f_def)
  have "t sdiv f * f = t - t mod f"
    using assms(3) dv(2) by (simp add: sdiv_pos minus_mod_eq_div_mult)
  moreover have "(t - t mod f) div c = t div c"
  proof -
    obtain k where k: "c = f * k" using dv(1) by blast
    then have kp: "0 < k" using dv by (metis mult_le_0_iff not_le zero_less_mult_pos not_numeral_le_zero order_trans)
    have "(t - t mod f) div c = (t div f * f) div f div k"
      using k dv kp by (simp add: minus_mod_eq_div_mult zdiv_zmult2_eq)
    also have "\<dots> = t div c" using k kp dv by (simp add: zdiv_zmult2_eq)
    finally show ?thesis .
  qed
  moreover have "0 \<le> t - t mod f" using assms(3) dv(2) by (simp add: zmod_le_nonneg_dividend)
  ultimately have "round_down_to_bucket_start (t sdiv f * f) c = round_down_to_bucket_start t c"
    using dv assms(3) by (simp add: round_down_ok sdiv_pos)
  with dv show ?thesis unfolding c_def[symmetric] f_def[symmetric] by (simp add: round_down_ok)
qed

section \<open>The attribute text form\<close>

lemma tilde_free_digits: "list_all is_digit ds \<Longrightarrow> CHR ''~'' \<notin> set ds"
  by (induction ds) (auto simp: is_digit_def)

lemma tilde_free_show_int: "CHR ''~'' \<notin> set (show_int x)"
  using tilde_free_digits[OF show_nat_digits] by (simp add: show_int_def)

lemma tilde_free_padded: "CHR ''~'' \<notin> set (show_padded w x)"
  using tilde_free_digits[OF show_nat_digits] by (auto simp: show_padded_def Let_def)

lemma tilde_free_units: "\<forall>u \<in> set us. known_unit u \<Longrightarrow> CHR ''~'' \<notin> set (do_units us r)"
proof (induction us r rule: do_units.induct)
  case (2 unit descr us r)
  then have "CHR ''~'' \<notin> set descr" by (auto simp: known_unit_def duration_units_def MICRO_S_def)
  with 2 tilde_free_show_int show ?case by auto
qed simp

lemma tilde_free_duration: "CHR ''~'' \<notin> set (duration_display d)"
  using tilde_free_units[OF duration_units_known] by (auto simp: duration_display_def Let_def)

lemma tilde_free_time: "CHR ''~'' \<notin> set (time_display ch t)"
  using tilde_free_show_int tilde_free_padded
  by (auto simp: time_display_def Let_def split: option.splits)

lemma tilde_free_type: "CHR ''~'' \<notin> set (bucket_type_name ty)" "parse_bucket_type (bucket_type_name ty) = Inr ty"
  by (cases ty; simp add: parse_bucket_type_def)+

lemma splitn_five:
  assumes "t \<notin> set a" "t \<notin> set b" "t \<notin> set c" "t \<notin> set d" "t \<notin> set e"
  shows "splitn_on 6 t (a @ t # b @ t # c @ t # d @ t # e) = [a, b, c, d, e]"
  using assms by (simp add: numeral_eq_Suc splitn_on_append del: splitn_on.simps)

text \<open>the HTML attribute of a located bucket parses back to the same location, for hex and calendar
  crates that invert themselves on its id and its start.\<close>

theorem html_attr_roundtrip:
  assumes "BucketLocation_new C ty base d t = Inr b" "in_i64 t" "in_i64 d" "d \<noteq> I64_MIN" "wf_id base"
    and "hex_decode (hex_encode (id_bytes base)) = Some (id_bytes base)"
    and "length (hex_encode (id_bytes base)) = 64" "CHR ''~'' \<notin> set (hex_encode (id_bytes base))"
    and "time_parse ch (time_display ch (bl_bucket_time_millis b)) = Inr (bl_bucket_time_millis b)"
  shows "from_html_attr C ch hex_decode (to_html_attr ch hex_encode b) = Inr b"
proof -
  obtain s where s: "round_down_to_bucket_start t d = Inr s" and b: "bl_bucket_type b = ty" "bl_base_id b = base"
      "bl_duration b = d" "bl_bucket_time_millis b = s"
    using assms(1) by (auto simp: BucketLocation_new_def)
  have new: "BucketLocation_new C ty base d s = Inr b"
    using assms(1) s round_down_idem[OF s assms(2)] by (auto simp: BucketLocation_new_def)
  have "splitn_on 6 (CHR ''~'') (to_html_attr ch hex_encode b)
      = [''1'', bucket_type_name ty, hex_encode (id_bytes base), duration_display d, time_display ch s]"
    using assms(8) tilde_free_type tilde_free_duration tilde_free_time b
      splitn_five[of "CHR ''~''" "''1''"]
    by (simp add: to_html_attr_def Id_to_hex_str_def)
  then show ?thesis
    using new assms(3,4,9) b Id_hex_roundtrip[of base hex_encode hex_decode, OF assms(5,7,6)] tilde_free_type
    by (simp add: from_html_attr_def duration_parse_display Id_to_hex_str_def)
qed

end
