(* ===== verification/EncodedPost.thy ===== *)
theory EncodedPost
  imports Encryption Compression Buckets
begin

text \<open>
  \<open>protocol/posting/encoded_post.rs\<close> and \<open>amplification.rs\<close>: a post as it travels. The
  header (JSON) and the body are compressed for size and encrypted so that the author's id
  and every linked base id opens them; both ciphertexts are hashed, the hashes signed, and
  the post id is the hash of the signature. JSON, the signer and the random values of the
  encryption are arguments.
\<close>

record post_header =
  ph_verification_key_bytes :: verification_key_bytes
  ph_pq_commitment_bytes :: pq_commitment_bytes
  ph_time_millis :: time_millis
  ph_post_length :: nat
  ph_linked_base_ids :: "id list"
  ph_sig_direct :: "unit option"
  ph_sig_ephemeral :: "unit option"
  ph_sig_delegation :: "unit option"

definition post_header_client_id :: "crypto \<Rightarrow> post_header \<Rightarrow> client_id res" where
  "post_header_client_id C h = ClientId_new C (ph_verification_key_bytes h) (ph_pq_commitment_bytes h)"

record encoded_post =
  ep_post_id :: id
  ep_signature :: signature
  ep_header :: post_header
  ep_post :: string

record encoded_post_bytes =
  epb_length_without_body :: nat
  epb_bytes :: bytes

definition post_fixed_prefix :: nat where
  "post_fixed_prefix = ID_BYTES + SIGNATURE_BYTES + 1 + HASH_BYTES * 2"

definition bytes_without_body :: "bytes \<Rightarrow> bytes res" where
  "bytes_without_body bs =
     rbind (ensure (length bs \<ge> post_fixed_prefix + 4 + 4) ''Bytes too short for header'') (\<lambda>_.
       let header_encrypted_length = be_nat (slice post_fixed_prefix 4 bs);
           length_without_body = post_fixed_prefix + 4 + 4 + header_encrypted_length
       in rbind (ensure (length bs \<ge> length_without_body) ''Bytes too short for encrypted header'') (\<lambda>_.
            Inr (take length_without_body bs)))"

definition EncodedPost_new :: "client_id \<Rightarrow> time_millis \<Rightarrow> id list \<Rightarrow> string \<Rightarrow> encoded_post" where
  "EncodedPost_new cid timestamp linked post =
     \<lparr>ep_post_id = Id_zero, ep_signature = Signature_zero,
      ep_header = \<lparr>ph_verification_key_bytes = cid_verification_key_bytes cid,
        ph_pq_commitment_bytes = cid_pq_commitment_bytes cid, ph_time_millis = timestamp,
        ph_post_length = length post, ph_linked_base_ids = linked,
        ph_sig_direct = None, ph_sig_ephemeral = None, ph_sig_delegation = None\<rparr>,
      ep_post = post\<rparr>"

text \<open>The random file key, wrap nonces and body nonce of one encryption.\<close>

type_synonym enc_random = "bytes \<times> bytes list \<times> bytes"

record post_env =
  pe_crypto :: crypto
  pe_aead :: aead
  pe_compressor :: compressor
  pe_header_json :: "post_header codec"

definition post_passwords :: "crypto \<Rightarrow> post_header \<Rightarrow> bytes list res" where
  "post_passwords C h =
     rbind (id_from_parts C (ph_verification_key_bytes h) (ph_pq_commitment_bytes h)) (\<lambda>cid.
       Inr (id_bytes cid # map id_bytes (ph_linked_base_ids h)))"

definition encode_to_bytes_direct :: "post_env \<Rightarrow> (bytes \<Rightarrow> signature res) \<Rightarrow> enc_random \<Rightarrow> enc_random
    \<Rightarrow> encoded_post \<Rightarrow> (encoded_post \<times> encoded_post_bytes) res" where
  "encode_to_bytes_direct E key_locker_sign r1 r2 p0 =
     (let C = pe_crypto E;
          h = (ep_header p0)\<lparr>ph_sig_direct := Some ()\<rparr>;
          p = p0\<lparr>ep_header := h\<rparr> in
      rbind (post_passwords C h) (\<lambda>passwords.
      let header = enc (pe_header_json E) h in
      rbind (compress_for_size (pe_compressor E) header) (\<lambda>hg.
      rbind (case r1 of (fk, ns, bn) \<Rightarrow> encrypt_weak (pe_aead E) fk ns bn (g_to_bytes hg) passwords) (\<lambda>header_encrypted.
      let header_encrypted_hash = hashing_hash C header_encrypted in
      rbind (compress_for_size (pe_compressor E) (str_bytes (ep_post p))) (\<lambda>pg.
      rbind (case r2 of (fk, ns, bn) \<Rightarrow> encrypt_weak (pe_aead E) fk ns bn (g_to_bytes pg) passwords) (\<lambda>post_encrypted.
      let post_encrypted_hash = hashing_hash C post_encrypted;
          sh = hash_multiple C [hash_bytes header_encrypted_hash, hash_bytes post_encrypted_hash] in
      rbind (key_locker_sign (hash_bytes sh)) (\<lambda>sig.
      rbind (Id_from_hash (hashing_hash C (signature_bytes sig))) (\<lambda>post_id.
      let bs = id_bytes post_id @ signature_bytes sig @ [1] @ hash_bytes header_encrypted_hash
            @ hash_bytes post_encrypted_hash @ be_bytes 4 (length header_encrypted)
            @ be_bytes 4 (length post_encrypted) @ header_encrypted @ post_encrypted
      in Inr (p\<lparr>ep_signature := sig, ep_post_id := post_id\<rparr>,
              \<lparr>epb_length_without_body = length bs - length post_encrypted, epb_bytes = bs\<rparr>)))))))))"

definition epb_bytes_without_body :: "encoded_post_bytes \<Rightarrow> bytes" where
  "epb_bytes_without_body b = take (epb_length_without_body b) (epb_bytes b)"

definition decode_signature_from_bytes :: "bytes \<Rightarrow> signature res" where
  "decode_signature_from_bytes bs =
     rbind (ensure (length bs \<ge> SIGNATURE_BYTES) ''decode_signature_from_bytes'') (\<lambda>_.
       Signature_from_slice (take SIGNATURE_BYTES bs))"

text \<open>\<open>std::str::from_utf8\<close>: the well-formed byte sequences of the Unicode standard.\<close>

fun utf8_valid :: "nat list \<Rightarrow> bool" where
  "utf8_valid [] = True"
| "utf8_valid (a # s) =
     (let cont = (\<lambda>x. 128 \<le> x \<and> x < 192) in
      if a < 128 then utf8_valid s
      else if 194 \<le> a \<and> a < 224 then (case s of b # t \<Rightarrow> cont b \<and> utf8_valid t | _ \<Rightarrow> False)
      else if 224 \<le> a \<and> a < 240 then
        (case s of b # c # t \<Rightarrow> cont b \<and> cont c \<and> (a = 224 \<longrightarrow> 160 \<le> b) \<and> (a = 237 \<longrightarrow> b < 160) \<and> utf8_valid t
         | _ \<Rightarrow> False)
      else if 240 \<le> a \<and> a < 245 then
        (case s of b # c # d # t \<Rightarrow> cont b \<and> cont c \<and> cont d \<and> (a = 240 \<longrightarrow> 144 \<le> b) \<and> (a = 244 \<longrightarrow> b < 144)
           \<and> utf8_valid t | _ \<Rightarrow> False)
      else False)"

definition bytes_str :: "bytes \<Rightarrow> string" where
  "bytes_str bs = map (\<lambda>b. char_of (unat b)) bs"

definition from_utf8 :: "bytes \<Rightarrow> string res" where
  "from_utf8 bs = (if utf8_valid (map unat bs) then Inr (bytes_str bs) else Inl (Bail ''Utf8Error''))"

definition verify_post_signature :: "crypto \<Rightarrow> post_header \<Rightarrow> signature \<Rightarrow> hash \<Rightarrow> unit res" where
  "verify_post_signature C header sig h =
     (if ph_sig_direct header \<noteq> None then
        rbind (VerificationKey_from_bytes C (ph_verification_key_bytes header)) (\<lambda>vk.
          signing_verify C vk sig (hash_bytes h))
      else if ph_sig_ephemeral header \<noteq> None then Inl (Bail ''Signature verification ephemeral not implemented'')
      else if ph_sig_delegation header \<noteq> None then Inl (Bail ''Signature verification delegation not implemented'')
      else Inl (Bail ''No signature verification mechanisms''))"

definition decode_post_body :: "post_env \<Rightarrow> bytes \<Rightarrow> post_header \<Rightarrow> bytes \<Rightarrow> string res" where
  "decode_post_body E password header post_encrypted =
     rbind (decrypt (pe_aead E) post_encrypted password) (\<lambda>post_compressed.
     rbind (decompress (pe_compressor E) post_compressed) (\<lambda>pg.
     rbind (from_utf8 (g_to_bytes pg)) (\<lambda>post.
       if length post \<noteq> ph_post_length header then Inl (Bail ''Post length mismatch'') else Inr post)))"

definition decode_from_bytes :: "post_env \<Rightarrow> bytes \<Rightarrow> id \<Rightarrow> bool \<Rightarrow> bool \<Rightarrow> encoded_post res" where
  "decode_from_bytes E bs password_base_id expect_body decode_body =
     (let C = pe_crypto E; password = id_bytes password_base_id in
      rbind (ensure (length bs \<ge> ID_BYTES) ''Missing post_id'') (\<lambda>_.
      rbind (split_to ID_BYTES bs) (\<lambda>(i0, b1). rbind (Id_from_slice i0) (\<lambda>post_id.
      rbind (ensure (length b1 \<ge> SIGNATURE_BYTES) ''Missing signature'') (\<lambda>_.
      rbind (split_to SIGNATURE_BYTES b1) (\<lambda>(s0, b2). rbind (Signature_from_slice s0) (\<lambda>sig.
      rbind (ensure (length b2 \<ge> 1) ''Missing version'') (\<lambda>_.
      rbind (get_u8 b2) (\<lambda>(version, b3).
      if 1 \<noteq> version then Inl (Bail ''Invalid buffer: unknown version'') else
      rbind (ensure (length b3 \<ge> HASH_BYTES) ''Missing encrypted hashes'') (\<lambda>_.
      rbind (split_to HASH_BYTES b3) (\<lambda>(h0, b4). rbind (Hash_from_slice h0) (\<lambda>header_encrypted_hash.
      rbind (ensure (length b4 \<ge> HASH_BYTES) ''Missing encrypted hashes'') (\<lambda>_.
      rbind (split_to HASH_BYTES b4) (\<lambda>(h1, b5). rbind (Hash_from_slice h1) (\<lambda>post_encrypted_hash.
      rbind (ensure (length b5 \<ge> 4) ''Missing encrypted lengths'') (\<lambda>_.
      rbind (get_be 4 b5) (\<lambda>(header_encrypted_length, b6).
      rbind (ensure (length b6 \<ge> 4) ''Missing encrypted lengths'') (\<lambda>_.
      rbind (get_be 4 b6) (\<lambda>(post_encrypted_length, b7).
      rbind (ensure (length b7 \<ge> header_encrypted_length) ''Missing encrypted header'') (\<lambda>_.
      rbind (split_to header_encrypted_length b7) (\<lambda>(header_encrypted, b8).
      rbind (if expect_body
             then rbind (ensure (length b8 \<ge> post_encrypted_length) ''Missing encrypted post'') (\<lambda>_.
                    split_to post_encrypted_length b8)
             else Inr ([], b8)) (\<lambda>(post_encrypted, b9).
      rbind (ensure (b9 = []) ''Unexpected remaining data'') (\<lambda>_.
      rbind (decrypt (pe_aead E) header_encrypted password) (\<lambda>header_compressed.
      rbind (decompress (pe_compressor E) header_compressed) (\<lambda>hg.
      rbind (of_option ''json'' (dec (pe_header_json E) (g_to_bytes hg))) (\<lambda>header.
      rbind (ensure (header_encrypted_hash = hashing_hash C header_encrypted) ''header hash'') (\<lambda>_.
      rbind (if expect_body then ensure (post_encrypted_hash = hashing_hash C post_encrypted) ''post hash''
             else Inr ()) (\<lambda>_.
      rbind (verify_post_signature C header sig
               (hash_multiple C [hash_bytes header_encrypted_hash, hash_bytes post_encrypted_hash])) (\<lambda>_.
      rbind (Id_from_hash (hashing_hash C (signature_bytes sig))) (\<lambda>sig_id.
      rbind (ensure (post_id = sig_id) ''post_id is not the has of signature'') (\<lambda>_.
      rbind (if expect_body \<and> decode_body then decode_post_body E password header post_encrypted else Inr []) (\<lambda>post.
        Inr \<lparr>ep_post_id = post_id, ep_signature = sig, ep_header = header, ep_post = post\<rparr>
      ))))))))))))))))))))))))))))))))"

section \<open>Round trip\<close>

lemma str_bytes_inverse [simp]: "bytes_str (str_bytes s) = s"
proof -
  have "char_of (unat (word_of_nat (of_char c) :: byte)) = c" for c
  proof -
    have "(of_char c :: nat) < 256" by simp
    then show ?thesis by (simp add: unat_byte_of_nat)
  qed
  then show ?thesis by (induction s) (simp_all add: bytes_str_def str_bytes_def)
qed

lemma length_str_bytes [simp]: "length (str_bytes s) = length s"
  by (simp add: str_bytes_def)

definition is_utf8 :: "string \<Rightarrow> bool" where
  "is_utf8 s \<longleftrightarrow> utf8_valid (map unat (str_bytes s))"

lemma from_utf8_str_bytes: "is_utf8 s \<Longrightarrow> from_utf8 (str_bytes s) = Inr s"
  by (simp add: is_utf8_def from_utf8_def)

text \<open>What one encryption of a post relies on.\<close>

definition enc_random_ok :: "aead \<Rightarrow> bytes list \<Rightarrow> enc_random \<Rightarrow> bool" where
  "enc_random_ok A passwords r \<longleftrightarrow> (case r of (fk, ns, bn) \<Rightarrow> length fk = 32 \<and> length ns = length passwords
     \<and> (\<forall>n \<in> set ns. length n = 12) \<and> length bn = 12 \<and> slots_authentic A Argon2Config_weak fk passwords ns)"

lemma enc_random_decrypt:
  assumes "enc_random_ok A passwords r" "aead_inverts A" "pw \<in> set passwords"
    and "(case r of (fk, ns, bn) \<Rightarrow> encrypt_weak A fk ns bn x passwords) = Inr ct"
  shows "decrypt A ct pw = Inr x"
  using assms encrypt_then_decrypt by (auto simp: enc_random_ok_def encrypt_weak_def split: prod.splits)

definition post_laws :: "post_env \<Rightarrow> (bytes \<Rightarrow> signature res) \<Rightarrow> post_header \<Rightarrow> string \<Rightarrow> bool" where
  "post_laws E sign h post \<longleftrightarrow> crypto_ok (pe_crypto E) \<and> aead_inverts (pe_aead E)
     \<and> dec (pe_header_json E) (enc (pe_header_json E) h) = Some h
     \<and> brotli_law (pe_compressor E) (enc (pe_header_json E) h) \<and> brotli_law (pe_compressor E) (str_bytes post)
     \<and> length (enc (pe_header_json E) h) \<le> MAX_DECOMPRESSED_SIZE \<and> length post \<le> MAX_DECOMPRESSED_SIZE
     \<and> ed_key_valid (pe_crypto E) (vkb_bytes (ph_verification_key_bytes h))
     \<and> (\<forall>m s. sign m = Inr s \<longrightarrow> wf_signature s
          \<and> ed_verify (pe_crypto E) (vkb_bytes (ph_verification_key_bytes h)) m (signature_bytes s))"

lemma encode_decode_post:
  assumes enc: "encode_to_bytes_direct E sign r1 r2 p0 = Inr (p, eb)"
    and laws: "post_laws E sign (ep_header p) (ep_post p0)"
    and pw: "post_passwords (pe_crypto E) (ep_header p) = Inr passwords" "id_bytes base \<in> set passwords"
    and rnd: "enc_random_ok (pe_aead E) passwords r1" "enc_random_ok (pe_aead E) passwords r2"
    and body: "ph_post_length (ep_header p0) = length (ep_post p0)" "is_utf8 (ep_post p0)"
    and small: "length (epb_bytes eb) < 2 ^ 32"
  shows "ep_post p = ep_post p0"
    and "decode_from_bytes E (epb_bytes eb) base True True = Inr p"
    and "decode_from_bytes E (epb_bytes_without_body eb) base False False = Inr (p\<lparr>ep_post := []\<rparr>)"
    and "bytes_without_body (epb_bytes eb) = Inr (epb_bytes_without_body eb)"
proof -
  let ?C = "pe_crypto E" and ?h = "(ep_header p0)\<lparr>ph_sig_direct := Some ()\<rparr>"
  have crypto: "crypto_ok ?C" using laws by (simp add: post_laws_def)
  obtain hg he pg pe sg where st:
      "post_passwords ?C ?h = Inr passwords" "ep_header p = ?h"
      "compress_for_size (pe_compressor E) (enc (pe_header_json E) ?h) = Inr hg"
      "(case r1 of (fk, ns, bn) \<Rightarrow> encrypt_weak (pe_aead E) fk ns bn (g_to_bytes hg) passwords) = Inr he"
      "compress_for_size (pe_compressor E) (str_bytes (ep_post p0)) = Inr pg"
      "(case r2 of (fk, ns, bn) \<Rightarrow> encrypt_weak (pe_aead E) fk ns bn (g_to_bytes pg) passwords) = Inr pe"
      "sign (hash_bytes (hash_multiple ?C [hash_bytes (hashing_hash ?C he), hash_bytes (hashing_hash ?C pe)])) = Inr sg"
    and p: "p = \<lparr>ep_post_id = Id (hash_bytes (hashing_hash ?C (signature_bytes sg))), ep_signature = sg,
        ep_header = ?h, ep_post = ep_post p0\<rparr>"
    and eb: "epb_bytes eb = id_bytes (Id (hash_bytes (hashing_hash ?C (signature_bytes sg)))) @ signature_bytes sg @ [1]
        @ hash_bytes (hashing_hash ?C he) @ hash_bytes (hashing_hash ?C pe) @ be_bytes 4 (length he)
        @ be_bytes 4 (length pe) @ he @ pe"
      "epb_length_without_body eb = length (epb_bytes eb) - length pe"
    using enc pw(1) crypto by (auto simp: encode_to_bytes_direct_def Let_def)
  define sid where "sid = Id (hash_bytes (hashing_hash ?C (signature_bytes sg)))"
  have lens: "length (hash_bytes (hashing_hash ?C x)) = 32" for x
    using wf_hashing(1)[OF crypto] by (simp add: wf_hash_def HASH_BYTES_def)
  have sig: "wf_signature sg" using laws st(7) by (auto simp: post_laws_def)
  have wf: "wf_id sid" by (simp add: sid_def wf_id_def ID_BYTES_def lens)
  have he: "decrypt (pe_aead E) he (id_bytes base) = Inr (g_to_bytes hg)"
    and pe: "decrypt (pe_aead E) pe (id_bytes base) = Inr (g_to_bytes pg)"
    using enc_random_decrypt[OF rnd(1) _ pw(2) st(4)] enc_random_decrypt[OF rnd(2) _ pw(2) st(6)] laws
    by (simp_all add: post_laws_def)
  obtain hg' where hg: "decompress (pe_compressor E) (g_to_bytes hg) = Inr hg'" "g_to_bytes hg' = enc (pe_header_json E) ?h"
    using compress_size_ok[of "pe_compressor E" "enc (pe_header_json E) ?h"] laws st(2,3) by (auto simp: post_laws_def)
  obtain pg' where pg: "decompress (pe_compressor E) (g_to_bytes pg) = Inr pg'" "g_to_bytes pg' = str_bytes (ep_post p0)"
    using compress_size_ok[of "pe_compressor E" "str_bytes (ep_post p0)"] laws st(5) by (auto simp: post_laws_def)
  have ver: "verify_post_signature ?C ?h sg
      (hash_multiple ?C [hash_bytes (hashing_hash ?C he), hash_bytes (hashing_hash ?C pe)]) = Inr ()"
    using laws st(2,7) by (auto simp: post_laws_def verify_post_signature_def VerificationKey_from_bytes_def
        signing_verify_def)
  have json: "dec (pe_header_json E) (enc (pe_header_json E) ?h) = Some ?h"
    using laws st(2) by (simp add: post_laws_def)
  have small': "length he mod 4294967296 = length he" "length pe mod 4294967296 = length pe"
    using small by (simp_all add: eb)
  note step = split_to_append wf_lengths lens from_slice_wf get_u8_Cons get_be_append small' wf sig crypto
  have core: "decode_from_bytes E (id_bytes sid @ signature_bytes sg @ [1]
        @ hash_bytes (hashing_hash ?C he) @ hash_bytes (hashing_hash ?C pe) @ be_bytes 4 (length he)
        @ be_bytes 4 (length pe) @ he @ (if b then pe else [])) base b d
      = Inr \<lparr>ep_post_id = sid, ep_signature = sg, ep_header = ?h, ep_post = (if b \<and> d then ep_post p0 else [])\<rparr>" for b d
    using he pe hg pg ver json body
    by (cases b; cases d) (simp_all add: decode_from_bytes_def Let_def step byte_counts decode_post_body_def
        from_utf8_str_bytes split_to_exact Id_from_hash_Inr sid_def[symmetric])
  show "ep_post p = ep_post p0" by (simp add: p)
  show "decode_from_bytes E (epb_bytes eb) base True True = Inr p"
    using core[of True True] by (simp add: eb p sid_def)
  have wob: "epb_bytes_without_body eb = id_bytes sid @ signature_bytes sg @ [1]
        @ hash_bytes (hashing_hash ?C he) @ hash_bytes (hashing_hash ?C pe) @ be_bytes 4 (length he)
        @ be_bytes 4 (length pe) @ he"
    (is "_ = ?W")
  proof -
    have "epb_bytes eb = ?W @ pe" by (simp add: eb(1) sid_def)
    moreover from this have "epb_length_without_body eb = length ?W" by (simp add: eb(2))
    ultimately show ?thesis by (metis append_eq_conv_conj epb_bytes_without_body_def)
  qed
  show "decode_from_bytes E (epb_bytes_without_body eb) base False False = Inr (p\<lparr>ep_post := []\<rparr>)"
    using core[of False False] by (simp add: wob p sid_def)
  have "length (signature_bytes sg) = 64" "length (id_bytes sid) = 32" using sig wf by (simp_all add: wf_lengths)
  then have wl: "length (epb_bytes_without_body eb) = post_fixed_prefix + 4 + 4 + length he"
      "slice post_fixed_prefix 4 (epb_bytes eb) = be_bytes 4 (length he)"
    by (simp_all add: wob eb(1) sid_def[symmetric] post_fixed_prefix_def byte_counts lens slice_append_right
        slice_Suc[of 64, simplified] slice_append_left)
  moreover have ebw: "epb_bytes eb = epb_bytes_without_body eb @ pe" by (simp add: wob eb(1) sid_def)
  moreover have "length (epb_bytes eb) \<ge> post_fixed_prefix + 4 + 4 + length he" using wl(1) ebw by simp
  moreover have "take (post_fixed_prefix + 4 + 4 + length he) (epb_bytes eb) = epb_bytes_without_body eb"
    unfolding ebw wl(1)[symmetric] by simp
  ultimately show "bytes_without_body (epb_bytes eb) = Inr (epb_bytes_without_body eb)"
    using small' by (simp add: bytes_without_body_def)
qed

section \<open>The work a post must carry\<close>

text \<open>
  The amplification is computed in \<open>f64\<close>; it is the real number here. The logarithm of a
  negative number is NaN and of zero is minus infinity, and both become 0 in the saturating
  cast \<open>as u8\<close>.
\<close>

definition amplification_length :: "nat \<Rightarrow> real" where
  "amplification_length post_length =
     (if post_length \<le> 1024 then 1 else 1 + 175 / 100 * log 2 (real post_length / 1024))"

definition amplification_linked :: "nat \<Rightarrow> real" where
  "amplification_linked n = (if n < 2 then 1 else 1 + 2 / 10 * real n ^ 2)"

definition amplification_bucket :: "duration_millis \<Rightarrow> real" where
  "amplification_bucket d = 1 + log 2 (real_of_int MILLIS_IN_MONTH / real_of_int d)"

definition log2_ceil_as_u8 :: "real \<Rightarrow> nat" where
  "log2_ceil_as_u8 x = (if x \<le> 0 then 0 else nat (min 255 \<lceil>log 2 x\<rceil>))"

definition post_additional_bits :: "nat \<Rightarrow> nat \<Rightarrow> duration_millis \<Rightarrow> nat" where
  "post_additional_bits post_length linked_len d =
     log2_ceil_as_u8 (amplification_length post_length * amplification_linked linked_len * amplification_bucket d)"

definition get_minimum_post_pow :: "nat \<Rightarrow> nat \<Rightarrow> duration_millis \<Rightarrow> pow res" where
  "get_minimum_post_pow post_length linked_len d =
     (if \<not> d > MILLIS_IN_MINUTE then Inl (Panic ''assertion failed: duration > MILLIS_IN_MINUTE'')
      else let total = unat POW_MINIMUM_PER_POST + post_additional_bits post_length linked_len d in
        if total > 255 then Inl (Panic ''attempt to add with overflow'') else Inr (word_of_nat total))"

lemma amplification_length_ge: "1 \<le> amplification_length n"
  by (auto simp: amplification_length_def)

lemma amplification_length_mono: "n \<le> m \<Longrightarrow> amplification_length n \<le> amplification_length m"
  by (auto simp: amplification_length_def)

lemma amplification_linked_ge: "1 \<le> amplification_linked n"
  by (auto simp: amplification_linked_def)

lemma amplification_linked_mono: "n \<le> m \<Longrightarrow> amplification_linked n \<le> amplification_linked m"
  by (auto simp: amplification_linked_def intro: power_mono)

lemma log2_ceil_mono: "x \<le> y \<Longrightarrow> log2_ceil_as_u8 x \<le> log2_ceil_as_u8 y"
  by (auto simp: log2_ceil_as_u8_def intro!: nat_mono min.mono ceiling_mono)

lemma amplification_bucket_ge: "0 < d \<Longrightarrow> d \<le> MILLIS_IN_MONTH \<Longrightarrow> 1 \<le> amplification_bucket d"
  by (simp add: amplification_bucket_def millis_values)

lemma amplification_bucket_antimono: "0 < d \<Longrightarrow> d \<le> e \<Longrightarrow> amplification_bucket e \<le> amplification_bucket d"
  by (auto simp: amplification_bucket_def millis_values intro!: divide_left_mono)

lemma minimum_post_pow_unat:
  assumes "get_minimum_post_pow l n d = Inr p"
  shows "unat p = 18 + post_additional_bits l n d"
proof -
  obtain t where "t = 18 + post_additional_bits l n d" "t \<le> 255" "p = word_of_nat t"
    using assms by (auto simp: get_minimum_post_pow_def Let_def pow_minimums split: if_splits)
  then show ?thesis by (simp only: unat_byte_of_nat) simp
qed

text \<open>up to a month, the required work is at least the base work and grows with the post's length, with
  the number of linked ids, and as the bucket gets finer.\<close>

theorem minimum_post_pow_monotone:
  assumes "MILLIS_IN_MINUTE < d'" "d' \<le> d" "d \<le> MILLIS_IN_MONTH" "l \<le> l'" "n \<le> n'"
    and "get_minimum_post_pow l n d = Inr p" "get_minimum_post_pow l' n' d' = Inr p'"
  shows "POW_MINIMUM_PER_POST \<le> p \<and> p \<le> p'"
proof -
  have d: "0 < d'" "0 < d" using assms(1,2) by (simp_all add: millis_values)
  have "amplification_length l * amplification_linked n \<le> amplification_length l' * amplification_linked n'"
    using amplification_length_mono[OF assms(4)] amplification_linked_mono[OF assms(5)]
      amplification_length_ge[of l'] amplification_linked_ge[of n] by (intro mult_mono) auto
  moreover have "0 \<le> amplification_length l' * amplification_linked n'"
    using amplification_length_ge[of l'] amplification_linked_ge[of n'] by (intro mult_nonneg_nonneg) auto
  moreover have "0 \<le> amplification_bucket d" using amplification_bucket_ge[of d] d assms(3) by simp
  ultimately have "amplification_length l * amplification_linked n * amplification_bucket d
      \<le> amplification_length l' * amplification_linked n' * amplification_bucket d'"
    by (rule mult_mono[OF _ amplification_bucket_antimono[OF d(1) assms(2)]])
  then have "post_additional_bits l n d \<le> post_additional_bits l' n' d'"
    unfolding post_additional_bits_def by (rule log2_ceil_mono)
  then show ?thesis
    using minimum_post_pow_unat[OF assms(6)] minimum_post_pow_unat[OF assms(7)]
    by (simp add: word_le_nat_alt pow_minimums)
qed

theorem minimum_post_pow_monotone_witness:
  "\<exists>p p'. get_minimum_post_pow 10 0 MILLIS_IN_MONTH = Inr p \<and> get_minimum_post_pow 20 1 MILLIS_IN_MONTH = Inr p'
     \<and> POW_MINIMUM_PER_POST \<le> p \<and> p \<le> p'"
proof -
  have z: "post_additional_bits a b MILLIS_IN_MONTH = 0" if "a \<le> 1024" "b < 2" for a b
    using that by (simp add: post_additional_bits_def amplification_length_def amplification_linked_def
        amplification_bucket_def millis_values log2_ceil_as_u8_def)
  have g: "get_minimum_post_pow a b MILLIS_IN_MONTH = Inr 18" if "a \<le> 1024" "b < 2" for a b
    using that z by (simp add: get_minimum_post_pow_def pow_minimums millis_values)
  show ?thesis
    using minimum_post_pow_monotone [of MILLIS_IN_MONTH MILLIS_IN_MONTH 10 20 0 1 18 18] g
    by (simp add: millis_values)
qed

text \<open>in year-long buckets the amplification is negative, its logarithm is no number, and the required
  work is the base work whatever the length and the number of linked ids.\<close>

theorem minimum_post_pow_year:
  "get_minimum_post_pow post_length linked_len MILLIS_IN_YEAR = Inr POW_MINIMUM_PER_POST"
proof -
  have "log 2 (1 / 12) \<le> log 2 (1 / 2 :: real)" by simp
  also have "log 2 (1 / 2 :: real) = -1" by (simp add: log_divide)
  finally have "amplification_bucket MILLIS_IN_YEAR \<le> 0" by (simp add: amplification_bucket_def millis_values)
  moreover have "0 \<le> amplification_length post_length * amplification_linked linked_len"
    using amplification_length_ge[of post_length] amplification_linked_ge[of linked_len] by (intro mult_nonneg_nonneg) auto
  ultimately have "amplification_length post_length * amplification_linked linked_len * amplification_bucket MILLIS_IN_YEAR \<le> 0"
    by (rule mult_nonneg_nonpos[rotated])
  then show ?thesis
    by (simp add: get_minimum_post_pow_def post_additional_bits_def log2_ceil_as_u8_def pow_minimums millis_values)
qed

text \<open>the finest bucket of the ladder, one minute, makes the computation panic.\<close>

theorem minimum_post_pow_minute_panics:
  "MILLIS_IN_MINUTE \<in> set (bucket_durations_for_type ty) \<and> is_panic (get_minimum_post_pow post_length linked_len MILLIS_IN_MINUTE)"
  by (cases ty) (simp_all add: get_minimum_post_pow_def BUCKET_DURATIONS_def)

end
