(* ===== verification/Feedback.thy ===== *)
theory Feedback
  imports Identity "HOL-Library.AList"
begin

text \<open>
  \<open>protocol/posting/encoded_post_feedback.rs\<close> and \<open>encoded_post_bundle_feedback.rs\<close>: one
  feedback vote as a fixed 43-byte entry, the server-signed bundle of votes, and the union
  of bundles that keeps the hardest vote per post and type. JSON is a codec argument; the
  iteration order of the \<open>HashMap\<close> is an argument too.
\<close>

section \<open>One vote\<close>

definition OFF_POST_ID :: nat where "OFF_POST_ID = 1"
definition OFF_FEEDBACK_TYPE :: nat where "OFF_FEEDBACK_TYPE = OFF_POST_ID + ID_BYTES"
definition OFF_SALT :: nat where "OFF_SALT = OFF_FEEDBACK_TYPE + 1"
definition OFF_POW :: nat where "OFF_POW = OFF_SALT + SALT_BYTES"
definition ENTRY_SIZE :: nat where "ENTRY_SIZE = OFF_POW + 1"

lemma entry_offsets: "OFF_POST_ID = 1" "OFF_FEEDBACK_TYPE = 33" "OFF_SALT = 34" "OFF_POW = 42" "ENTRY_SIZE = 43"
  by (simp_all add: OFF_POST_ID_def OFF_FEEDBACK_TYPE_def OFF_SALT_def OFF_POW_def ENTRY_SIZE_def byte_counts)

datatype feedback_view = FeedbackView (view_bytes: bytes)

definition view_from_slice :: "bytes \<Rightarrow> feedback_view res" where
  "view_from_slice bs =
     (if length bs \<noteq> ENTRY_SIZE then Inl (Bail ''wrong entry size for EncodedPostFeedbackViewV1'')
      else if bs ! 0 \<noteq> 1 then Inl (Bail ''unsupported version in EncodedPostFeedbackViewV1'')
      else Inr (FeedbackView bs))"

definition view_post_id_bytes :: "feedback_view \<Rightarrow> bytes" where
  "view_post_id_bytes v = slice OFF_POST_ID (OFF_FEEDBACK_TYPE - OFF_POST_ID) (view_bytes v)"

definition view_feedback_type :: "feedback_view \<Rightarrow> byte" where
  "view_feedback_type v = view_bytes v ! OFF_FEEDBACK_TYPE"

definition view_salt_bytes :: "feedback_view \<Rightarrow> bytes" where
  "view_salt_bytes v = slice OFF_SALT (OFF_POW - OFF_SALT) (view_bytes v)"

definition view_pow :: "feedback_view \<Rightarrow> pow" where
  "view_pow v = view_bytes v ! OFF_POW"

text \<open>\<open>chunks_exact\<close>: the leftover shorter than a chunk is dropped.\<close>

function chunks_exact :: "nat \<Rightarrow> bytes \<Rightarrow> bytes list" where
  "chunks_exact n bs = (if n = 0 \<or> length bs < n then [] else take n bs # chunks_exact n (drop n bs))"
  by auto
termination by (relation "measure (length \<circ> snd)") auto

declare chunks_exact.simps [simp del]

definition view_iter :: "bytes \<Rightarrow> feedback_view res list" where
  "view_iter bs = map view_from_slice (chunks_exact ENTRY_SIZE bs)"

text \<open>\<open>flatten\<close> on results: the errors are skipped.\<close>

definition ok_values :: "'a res list \<Rightarrow> 'a list" where
  "ok_values rs = concat (map (\<lambda>r. case r of Inl e \<Rightarrow> [] | Inr x \<Rightarrow> [x]) rs)"

record feedback =
  fb_post_id :: id
  fb_feedback_type :: byte
  fb_salt :: salt
  fb_pow :: pow

definition Feedback_new :: "id \<Rightarrow> byte \<Rightarrow> salt \<Rightarrow> pow \<Rightarrow> feedback" where
  "Feedback_new i ty s p = \<lparr>fb_post_id = i, fb_feedback_type = ty, fb_salt = s, fb_pow = p\<rparr>"

definition feedback_data_hash :: "crypto \<Rightarrow> id \<Rightarrow> byte \<Rightarrow> hash" where
  "feedback_data_hash C i ty = pow_compute_data_hash C [id_bytes i, [ty]]"

definition feedback_pow_generate :: "crypto \<Rightarrow> (nat \<Rightarrow> pow \<Rightarrow> hash \<Rightarrow> (salt \<times> pow \<times> hash) res) \<Rightarrow> id \<Rightarrow> byte
    \<Rightarrow> (salt \<times> pow \<times> hash) res" where
  "feedback_pow_generate C best_effort i ty =
     best_effort CLIENT_FEEDBACK_POW_NUMERAIRE 255 (feedback_data_hash C i ty)"

definition feedback_pow_verify :: "crypto \<Rightarrow> feedback \<Rightarrow> unit res" where
  "feedback_pow_verify C f =
     rbind (pow_measure C [id_bytes (fb_post_id f), [fb_feedback_type f]] (fb_salt f)) (\<lambda>(p, _).
       ensure (p = fb_pow f) ''assertion failed'')"

definition feedback_encode_to_bytes :: "feedback \<Rightarrow> bytes" where
  "feedback_encode_to_bytes f =
     [1] @ id_bytes (fb_post_id f) @ [fb_feedback_type f] @ salt_bytes (fb_salt f) @ [fb_pow f]"

definition append_encode_direct_to_bytes :: "bytes \<Rightarrow> bytes \<Rightarrow> byte \<Rightarrow> bytes \<Rightarrow> pow \<Rightarrow> bytes res" where
  "append_encode_direct_to_bytes out post_id ty s p =
     rbind (ensure (length post_id = ID_BYTES) ''post_id length'') (\<lambda>_.
     rbind (ensure (length s = SALT_BYTES) ''salt length'') (\<lambda>_.
       Inr (out @ [1] @ post_id @ [ty] @ s @ [p])))"

definition append_encode_to_bytes :: "bytes \<Rightarrow> feedback \<Rightarrow> bytes res" where
  "append_encode_to_bytes out f =
     append_encode_direct_to_bytes out (id_bytes (fb_post_id f)) (fb_feedback_type f) (salt_bytes (fb_salt f)) (fb_pow f)"

definition feedback_decode_buf :: "feedback reader" where
  "feedback_decode_buf bs =
     rbind (ensure (length bs \<ge> 1) ''Missing version'') (\<lambda>_.
     rbind (get_u8 bs) (\<lambda>(version, b1).
     rbind (ensure (version = 1) ''version'') (\<lambda>_.
     rbind (Id_from_buf b1) (\<lambda>(post_id, b2).
     rbind (ensure (length b2 \<ge> 1) ''Missing feedback_type'') (\<lambda>_.
     rbind (get_u8 b2) (\<lambda>(ty, b3).
     rbind (Salt_from_buf b3) (\<lambda>(s, b4).
     rbind (ensure (length b4 \<ge> 1) ''Missing pow'') (\<lambda>_.
     rbind (get_u8 b4) (\<lambda>(p, b5).
       Inr (\<lparr>fb_post_id = post_id, fb_feedback_type = ty, fb_salt = s, fb_pow = p\<rparr>, b5))))))))))"

text \<open>Callers that hold the buffer by value see the vote only, those that pass \<open>&mut\<close> also the rest.\<close>

definition feedback_decode_from_bytes :: "bytes \<Rightarrow> feedback res" where
  "feedback_decode_from_bytes bs = rbind (feedback_decode_buf bs) (\<lambda>(f, rest). Inr f)"

definition wf_feedback :: "feedback \<Rightarrow> bool" where
  "wf_feedback f \<longleftrightarrow> wf_id (fb_post_id f) \<and> wf_salt (fb_salt f)"

lemma length_feedback_encode [simp]: "wf_feedback f \<Longrightarrow> length (feedback_encode_to_bytes f) = ENTRY_SIZE"
  by (simp add: wf_feedback_def feedback_encode_to_bytes_def wf_newtypes byte_counts entry_offsets)

lemma append_encode_wf: "wf_feedback f \<Longrightarrow> append_encode_to_bytes out f = Inr (out @ feedback_encode_to_bytes f)"
  by (simp add: append_encode_to_bytes_def append_encode_direct_to_bytes_def feedback_encode_to_bytes_def
      wf_feedback_def wf_newtypes)

lemma feedback_decode_buf_encode [wire]:
  assumes "wf_feedback f"
  shows "feedback_decode_buf (feedback_encode_to_bytes f @ rest) = Inr (f, rest)"
  using assms by (simp add: feedback_decode_buf_def feedback_encode_to_bytes_def wf_feedback_def
      get_u8_Cons newtypes_from_buf)

lemma feedback_decode_encode:
  assumes "wf_feedback f"
  shows "feedback_decode_from_bytes (feedback_encode_to_bytes f @ rest) = Inr f"
  using assms by (simp add: feedback_decode_from_bytes_def feedback_decode_buf_encode)

text \<open>The view of an encoded vote reads its fields.\<close>

lemma view_of_encoded:
  assumes "wf_feedback f"
  shows "view_from_slice (feedback_encode_to_bytes f) = Inr (FeedbackView (feedback_encode_to_bytes f))"
    "view_post_id_bytes (FeedbackView (feedback_encode_to_bytes f)) = id_bytes (fb_post_id f)"
    "view_feedback_type (FeedbackView (feedback_encode_to_bytes f)) = fb_feedback_type f"
    "view_salt_bytes (FeedbackView (feedback_encode_to_bytes f)) = salt_bytes (fb_salt f)"
    "view_pow (FeedbackView (feedback_encode_to_bytes f)) = fb_pow f"
proof -
  have l: "length (id_bytes (fb_post_id f)) = 32" "length (salt_bytes (fb_salt f)) = 8"
    using assms by (simp_all add: wf_feedback_def wf_newtypes byte_counts)
  show "view_from_slice (feedback_encode_to_bytes f) = Inr (FeedbackView (feedback_encode_to_bytes f))"
    using assms by (simp add: view_from_slice_def) (simp add: feedback_encode_to_bytes_def)
  show "view_post_id_bytes (FeedbackView (feedback_encode_to_bytes f)) = id_bytes (fb_post_id f)"
    using l by (simp add: view_post_id_bytes_def feedback_encode_to_bytes_def entry_offsets slice_Suc slice_append_left)
  show "view_feedback_type (FeedbackView (feedback_encode_to_bytes f)) = fb_feedback_type f"
    using l by (simp add: view_feedback_type_def feedback_encode_to_bytes_def entry_offsets nth_append)
  show "view_salt_bytes (FeedbackView (feedback_encode_to_bytes f)) = salt_bytes (fb_salt f)"
    using l by (simp add: view_salt_bytes_def feedback_encode_to_bytes_def entry_offsets slice_def)
  show "view_pow (FeedbackView (feedback_encode_to_bytes f)) = fb_pow f"
    using l by (simp add: view_pow_def feedback_encode_to_bytes_def entry_offsets nth_append)
qed

lemma chunks_exact_append:
  "length x = n \<Longrightarrow> 0 < n \<Longrightarrow> chunks_exact n (x @ xs) = x # chunks_exact n xs"
  by (subst chunks_exact.simps) simp

lemma chunks_exact_Nil [simp]: "chunks_exact n [] = []"
  by (subst chunks_exact.simps) auto

lemma ENTRY_SIZE_pos [simp]: "0 < ENTRY_SIZE"
  by (simp add: entry_offsets)

lemma chunks_exact_encoded:
  "list_all wf_feedback fs \<Longrightarrow>
   chunks_exact ENTRY_SIZE (concat (map feedback_encode_to_bytes fs)) = map feedback_encode_to_bytes fs"
  by (induction fs) (simp_all add: chunks_exact_append)

lemma ok_values_simps [simp]:
  "ok_values [] = []" "ok_values (Inr x # rs) = x # ok_values rs" "ok_values (Inl e # rs) = ok_values rs"
  by (simp_all add: ok_values_def)

lemma view_iter_encoded:
  assumes "list_all wf_feedback fs"
  shows "ok_values (view_iter (concat (map feedback_encode_to_bytes fs)))
    = map (\<lambda>f. FeedbackView (feedback_encode_to_bytes f)) fs"
  using assms by (simp add: view_iter_def chunks_exact_encoded) (induction fs; simp add: view_of_encoded)


section \<open>The signed bundle of votes\<close>

record feedback_header =
  fh_time_millis :: time_millis
  fh_location_id :: id
  fh_feedbacks_bytes_hash :: hash
  fh_peer :: peer
  fh_signature :: signature

record feedback_bundle =
  fbb_header :: feedback_header
  fbb_feedbacks_bytes :: bytes

definition fh_get_hash_for_signing :: "crypto \<Rightarrow> feedback_header \<Rightarrow> hash" where
  "fh_get_hash_for_signing C h =
     hash_multiple C [time_encode_be (fh_time_millis h), id_bytes (fh_location_id h),
       hash_bytes (fh_feedbacks_bytes_hash h), signature_bytes (p_signature (fh_peer h))]"

definition fh_signature_generate :: "crypto \<Rightarrow> signature_key \<Rightarrow> feedback_header \<Rightarrow> feedback_header" where
  "fh_signature_generate C sk h = h\<lparr>fh_signature := signing_sign C sk (hash_bytes (fh_get_hash_for_signing C h))\<rparr>"

definition fh_signature_verify :: "crypto \<Rightarrow> feedback_header \<Rightarrow> unit res" where
  "fh_signature_verify C h =
     rbind (VerificationKey_from_bytes C (p_verification_key_bytes (fh_peer h))) (\<lambda>vk.
       signing_verify C vk (fh_signature h) (hash_bytes (fh_get_hash_for_signing C h)))"

definition fh_verify :: "crypto \<Rightarrow> feedback_header \<Rightarrow> unit res" where
  "fh_verify C h = fh_signature_verify C h"

definition fbb_to_bytes :: "feedback_header codec \<Rightarrow> feedback_bundle \<Rightarrow> bytes" where
  "fbb_to_bytes J b =
     (let header = enc J (fbb_header b) in
      [1] @ be_bytes 8 (length header) @ be_bytes 8 (length (fbb_feedbacks_bytes b)) @ header @ fbb_feedbacks_bytes b)"

definition checked_add_usize :: "nat \<Rightarrow> nat \<Rightarrow> nat option" where
  "checked_add_usize a b = (if a + b \<le> USIZE_MAX then Some (a + b) else None)"

definition fbb_from_bytes :: "feedback_header codec \<Rightarrow> bytes \<Rightarrow> feedback_bundle res" where
  "fbb_from_bytes J bs =
     (if length bs < 1 then Inl (Bail ''Invalid buffer: missing post_bundle version'')
      else rbind (get_u8 bs) (\<lambda>(version, b1).
        if 1 \<noteq> version then Inl (Bail ''Invalid buffer: unknown post_bundle version'')
        else if length b1 < 16 then Inl (Bail ''Invalid buffer: missing post_bundle lengths'')
        else rbind (get_be 8 b1) (\<lambda>(header_len, b2). rbind (get_be 8 b2) (\<lambda>(body_len, b3).
          rbind (of_option ''total_length overflow'' (checked_add_usize header_len body_len)) (\<lambda>total_length.
            if length b3 < total_length then Inl (Bail ''Invalid buffer: post_bundle data truncated'')
            else rbind (split_to header_len b3) (\<lambda>(header_bytes, b4).
              rbind (split_to body_len b4) (\<lambda>(body_bytes, b5).
              rbind (of_option ''json'' (dec J header_bytes)) (\<lambda>header.
                Inr \<lparr>fbb_header = header, fbb_feedbacks_bytes = body_bytes\<rparr>))))))))"

definition fbb_verify :: "crypto \<Rightarrow> feedback_bundle \<Rightarrow> unit res" where
  "fbb_verify C b =
     rbind (fh_verify C (fbb_header b)) (\<lambda>_.
       if length (fbb_feedbacks_bytes b) mod ENTRY_SIZE \<noteq> 0
       then Inl (Bail ''feedbacks_bytes length is not a multiple of ENTRY_SIZE'')
       else rbind (ensure (hashing_hash C (fbb_feedbacks_bytes b) = fh_feedbacks_bytes_hash (fbb_header b))
                     ''feedbacks_bytes_hash mismatch'') (\<lambda>_.
         rbind (rmap (\<lambda>i. rbind (feedback_decode_from_bytes (slice (i * ENTRY_SIZE) ENTRY_SIZE (fbb_feedbacks_bytes b)))
                            (feedback_pow_verify C))
                  [0..<length (fbb_feedbacks_bytes b) div ENTRY_SIZE]) (\<lambda>_. Inr ())))"

definition get_post_pow_for_feedback_type :: "feedback_bundle \<Rightarrow> id \<Rightarrow> byte \<Rightarrow> pow" where
  "get_post_pow_for_feedback_type b post_id ty =
     (case List.find (\<lambda>v. view_feedback_type v = ty \<and> view_post_id_bytes v = id_bytes post_id)
             (ok_values (view_iter (fbb_feedbacks_bytes b))) of
        Some v \<Rightarrow> view_pow v | None \<Rightarrow> 0)"

definition get_post_pows :: "feedback_bundle \<Rightarrow> id \<Rightarrow> pow list" where
  "get_post_pows b post_id =
     fold (\<lambda>v result. if view_post_id_bytes v = id_bytes post_id
                      then result[unat (view_feedback_type v) := view_pow v] else result)
       (ok_values (view_iter (fbb_feedbacks_bytes b))) (replicate 256 0)"

text \<open>\<open>max_by_key\<close> keeps the last of the maximal elements.\<close>

fun max_by_key :: "('a \<Rightarrow> 'b::linorder) \<Rightarrow> 'a list \<Rightarrow> 'a option" where
  "max_by_key key [] = None"
| "max_by_key key (x # xs) = (case max_by_key key xs of None \<Rightarrow> Some x
     | Some y \<Rightarrow> Some (if key x > key y then x else y))"

type_synonym feedback_table = "((id \<times> byte) \<times> feedback) list"

definition salt_or_zero :: "bytes \<Rightarrow> salt" where
  "salt_or_zero bs = (case Salt_from_slice bs of Inl e \<Rightarrow> Salt_zero | Inr s \<Rightarrow> s)"

definition merge_view :: "feedback_view res \<Rightarrow> feedback_table \<Rightarrow> feedback_table" where
  "merge_view rv tab =
     (case rv of Inl e \<Rightarrow> tab
      | Inr v \<Rightarrow> (case Id_from_slice (view_post_id_bytes v) of Inl e \<Rightarrow> tab
        | Inr post_id \<Rightarrow>
            let key = (post_id, view_feedback_type v);
                entry = (case map_of tab key of Some f \<Rightarrow> f
                  | None \<Rightarrow> \<lparr>fb_post_id = post_id, fb_feedback_type = view_feedback_type v,
                             fb_salt = salt_or_zero (view_salt_bytes v), fb_pow = view_pow v\<rparr>)
            in AList.update key (if view_pow v > fb_pow entry
                 then entry\<lparr>fb_salt := salt_or_zero (view_salt_bytes v), fb_pow := view_pow v\<rparr> else entry) tab))"

definition merge_bundle_views :: "feedback_bundle \<Rightarrow> feedback_table \<Rightarrow> feedback_table" where
  "merge_bundle_views b tab = fold merge_view (view_iter (fbb_feedbacks_bytes b)) tab"

definition append_ignoring_errors :: "feedback \<Rightarrow> bytes \<Rightarrow> bytes" where
  "append_ignoring_errors f out = (case append_encode_to_bytes out f of Inl e \<Rightarrow> out | Inr out' \<Rightarrow> out')"

definition feedback_merge :: "(feedback list \<Rightarrow> feedback list) \<Rightarrow> feedback_bundle list \<Rightarrow> feedback_bundle option" where
  "feedback_merge hash_order bundles =
     (case max_by_key (\<lambda>b. fh_time_millis (fbb_header b)) bundles of None \<Rightarrow> None
      | Some newest \<Rightarrow>
          let global_max = fold merge_bundle_views bundles []
          in Some \<lparr>fbb_header = fbb_header newest,
                   fbb_feedbacks_bytes = fold append_ignoring_errors (hash_order (map snd global_max)) []\<rparr>)"


section \<open>Merging keeps the hardest vote\<close>

type_synonym vote = "(id \<times> byte) \<times> salt \<times> pow"

definition vote_of_view :: "feedback_view \<Rightarrow> vote" where
  "vote_of_view v = ((Id (view_post_id_bytes v), view_feedback_type v), Salt (view_salt_bytes v), view_pow v)"

definition vote_of :: "feedback \<Rightarrow> vote" where
  "vote_of f = ((fb_post_id f, fb_feedback_type f), fb_salt f, fb_pow f)"

definition votes :: "feedback_bundle \<Rightarrow> vote list" where
  "votes b = map vote_of_view (ok_values (view_iter (fbb_feedbacks_bytes b)))"

definition merge_vote :: "vote \<Rightarrow> feedback_table \<Rightarrow> feedback_table" where
  "merge_vote v tab = (case v of (k, s, p) \<Rightarrow>
     let entry = (case map_of tab k of Some f \<Rightarrow> f
           | None \<Rightarrow> \<lparr>fb_post_id = fst k, fb_feedback_type = snd k, fb_salt = s, fb_pow = p\<rparr>)
     in AList.update k (if p > fb_pow entry then entry\<lparr>fb_salt := s, fb_pow := p\<rparr> else entry) tab)"

definition table_pow :: "feedback_table \<Rightarrow> id \<times> byte \<Rightarrow> pow" where
  "table_pow tab k = (case map_of tab k of None \<Rightarrow> 0 | Some f \<Rightarrow> fb_pow f)"

definition best_pow :: "vote list \<Rightarrow> id \<times> byte \<Rightarrow> pow" where
  "best_pow vs k = fold (\<lambda>(k', s, p) m. if k' = k then max p m else m) vs 0"

definition table_ok :: "vote set \<Rightarrow> feedback_table \<Rightarrow> bool" where
  "table_ok V tab \<longleftrightarrow> distinct (map fst tab)
     \<and> (\<forall>(k, f) \<in> set tab. k = (fb_post_id f, fb_feedback_type f) \<and> wf_feedback f \<and> vote_of f \<in> V)"

lemma view_from_slice_lengths:
  assumes "view_from_slice bs = Inr v"
  shows "length (view_post_id_bytes v) = 32" "length (view_salt_bytes v) = 8"
  using assms by (auto simp: view_from_slice_def view_post_id_bytes_def view_salt_bytes_def entry_offsets slice_def
      split: if_splits)

lemma merge_view_vote:
  assumes "view_from_slice bs = Inr v"
  shows "merge_view (Inr v) tab = merge_vote (vote_of_view v) tab"
proof -
  note l = view_from_slice_lengths[OF assms]
  have "Id_from_slice (view_post_id_bytes v) = Inr (Id (view_post_id_bytes v))"
      "salt_or_zero (view_salt_bytes v) = Salt (view_salt_bytes v)"
    using l by (simp_all add: Id_from_slice_def array_from_slice_def byte_counts salt_or_zero_def Salt_from_slice_def)
  then show ?thesis
    by (cases "map_of tab (Id (view_post_id_bytes v), view_feedback_type v)")
      (simp_all add: merge_view_def merge_vote_def vote_of_view_def Let_def)
qed

lemma fold_merge_views:
  "fold merge_view (map view_from_slice cs) tab = fold merge_vote (map vote_of_view (ok_values (map view_from_slice cs))) tab"
proof (induction cs arbitrary: tab)
  case (Cons c cs)
  show ?case
  proof (cases "view_from_slice c")
    case (Inl e)
    with Cons show ?thesis by (simp add: merge_view_def)
  next
    case (Inr v)
    with Cons merge_view_vote[OF Inr] show ?thesis by simp
  qed
qed simp

lemma merge_bundles_votes: "fold merge_bundle_views bs tab = fold merge_vote (concat (map votes bs)) tab"
  by (induction bs arbitrary: tab) (simp_all add: merge_bundle_views_def votes_def view_iter_def fold_merge_views)

lemma table_pow_merge_vote:
  "table_pow (merge_vote (k, s, p) tab) k' = (if k' = k then max p (table_pow tab k) else table_pow tab k')"
  by (cases "map_of tab k") (auto simp: merge_vote_def table_pow_def Let_def update_conv' max_def)

lemma table_pow_fold: "table_pow (fold merge_vote vs tab) k
    = fold (\<lambda>(k', s, p) m. if k' = k then max p m else m) vs (table_pow tab k)"
  by (induction vs arbitrary: tab) (auto simp: table_pow_merge_vote split: prod.splits)

lemma table_ok_merge_vote:
  assumes "table_ok V tab" "wf_id (fst (fst v))" "wf_salt (fst (snd v))"
  shows "table_ok (insert v V) (merge_vote v tab)"
proof -
  obtain k s p where v: "v = (k, s, p)" by (metis prod.exhaust)
  have up: "set (AList.update k f tab) \<subseteq> insert (k, f) (set tab)" for f
    by (induction tab) auto
  show ?thesis
  proof (cases "map_of tab k")
    case None
    then have m: "merge_vote v tab = AList.update k \<lparr>fb_post_id = fst k, fb_feedback_type = snd k, fb_salt = s, fb_pow = p\<rparr> tab"
      by (simp add: v merge_vote_def)
    show ?thesis
      using assms up unfolding m by (fastforce simp: table_ok_def distinct_update v wf_feedback_def vote_of_def)
  next
    case (Some f)
    then have "(k, f) \<in> set tab" by (rule map_of_SomeD)
    then have f: "k = (fb_post_id f, fb_feedback_type f)" "wf_feedback f" "vote_of f \<in> V"
      using assms(1) by (auto simp: table_ok_def)
    show ?thesis
      using assms f Some up[of f] up[of "f\<lparr>fb_salt := s, fb_pow := p\<rparr>"]
      by (fastforce simp: merge_vote_def v table_ok_def distinct_update wf_feedback_def vote_of_def)
  qed
qed

lemma table_ok_fold:
  assumes "table_ok V tab" "\<forall>v \<in> set vs. wf_id (fst (fst v)) \<and> wf_salt (fst (snd v))"
  shows "table_ok (V \<union> set vs) (fold merge_vote vs tab)"
  using assms
proof (induction vs arbitrary: V tab)
  case (Cons v vs)
  then have "table_ok (insert v V) (merge_vote v tab)" by (intro table_ok_merge_vote) auto
  with Cons.IH[OF this] Cons.prems show ?case by simp
qed simp

lemma votes_wf: "v \<in> set (votes b) \<Longrightarrow> wf_id (fst (fst v)) \<and> wf_salt (fst (snd v))"
  using view_from_slice_lengths
  by (auto simp: votes_def vote_of_view_def ok_values_def view_iter_def wf_newtypes byte_counts split: sum.splits)

lemma vote_of_view_encoded: "wf_feedback f \<Longrightarrow> vote_of_view (FeedbackView (feedback_encode_to_bytes f)) = vote_of f"
  by (simp add: vote_of_view_def vote_of_def view_of_encoded)

lemma fold_append_encoded:
  "list_all wf_feedback fs \<Longrightarrow> fold append_ignoring_errors fs out = out @ concat (map feedback_encode_to_bytes fs)"
  by (induction fs arbitrary: out) (simp_all add: append_ignoring_errors_def append_encode_wf)

lemma find_map_of:
  "(case List.find (\<lambda>v. view_feedback_type v = ty \<and> view_post_id_bytes v = id_bytes i) vs of
      Some v \<Rightarrow> view_pow v | None \<Rightarrow> 0)
   = (case map_of (map vote_of_view vs) (i, ty) of Some (s, p) \<Rightarrow> p | None \<Rightarrow> 0)"
  by (induction vs) (auto simp: vote_of_view_def)

lemma get_post_pow_votes:
  "get_post_pow_for_feedback_type b i ty
     = (case map_of (votes b) (i, ty) of Some (s, p) \<Rightarrow> p | None \<Rightarrow> 0)"
  by (simp add: get_post_pow_for_feedback_type_def find_map_of votes_def)

lemma merged_votes:
  assumes "feedback_merge ord bs = Some m" "\<And>xs. mset (ord xs) = mset xs"
  defines "tab \<equiv> fold merge_vote (concat (map votes bs)) []"
  shows "table_ok (set (concat (map votes bs))) tab" "mset (votes m) = mset (map (vote_of \<circ> snd) tab)"
proof -
  have "table_ok ({} \<union> set (concat (map votes bs))) tab"
    unfolding tab_def by (rule table_ok_fold) (auto simp: table_ok_def dest: votes_wf)
  then show ok: "table_ok (set (concat (map votes bs))) tab" by simp
  have set_ord: "set (ord xs) = set xs" for xs using assms(2) by (metis set_mset_mset)
  have wf: "list_all wf_feedback (ord (map snd tab))"
    using ok by (auto simp: list_all_iff set_ord table_ok_def)
  have "fbb_feedbacks_bytes m = concat (map feedback_encode_to_bytes (ord (map snd tab)))"
    using assms(1) fold_append_encoded[OF wf, of "[]"]
    by (auto simp: feedback_merge_def Let_def merge_bundles_votes tab_def split: option.splits)
  then have "votes m = map (\<lambda>f. vote_of_view (FeedbackView (feedback_encode_to_bytes f))) (ord (map snd tab))"
    by (simp add: votes_def view_iter_encoded[OF wf] comp_def)
  also have "\<dots> = map vote_of (ord (map snd tab))"
    using wf by (simp add: list_all_iff vote_of_view_encoded)
  finally show "mset (votes m) = mset (map (vote_of \<circ> snd) tab)"
    using assms(2) by (simp add: multiset.map_comp)
qed

lemma merged_votes_max:
  assumes "feedback_merge ord bs = Some m" "\<And>xs. mset (ord xs) = mset xs"
  shows "distinct (map fst (votes m)) \<and> set (votes m) \<subseteq> set (concat (map votes bs))
    \<and> get_post_pow_for_feedback_type m i ty = best_pow (concat (map votes bs)) (i, ty)"
proof -
  define tab where "tab = fold merge_vote (concat (map votes bs)) []"
  note ok = merged_votes(1)[OF assms, folded tab_def] and mv = merged_votes(2)[OF assms, folded tab_def]
  have key: "map (fst \<circ> (vote_of \<circ> snd)) tab = map fst tab"
    using ok by (auto simp: table_ok_def vote_of_def)
  have sv: "set (votes m) = set (map (vote_of \<circ> snd) tab)" using mv by (metis set_mset_mset)
  have "mset (map fst (votes m)) = mset (map fst tab)"
    using mv key by (metis map_map mset_map)
  then have d: "distinct (map fst (votes m))"
    using ok by (metis table_ok_def mset_eq_imp_distinct_iff)
  have "map_of (votes m) = map_of (map (vote_of \<circ> snd) tab)"
  proof -
    have "distinct (map fst (map (vote_of \<circ> snd) tab))"
      using ok key by (simp only: map_map table_ok_def)
    then show ?thesis using map_of_inject_set[OF d] sv by blast
  qed
  moreover have "map_of (map (vote_of \<circ> snd) tab) k = map_option (\<lambda>f. (fb_salt f, fb_pow f)) (map_of tab k)" for k
    using ok by (induction tab) (auto simp: table_ok_def vote_of_def)
  ultimately have "get_post_pow_for_feedback_type m i ty = table_pow tab (i, ty)"
    by (simp add: get_post_pow_votes table_pow_def split: option.splits)
  also have "\<dots> = best_pow (concat (map votes bs)) (i, ty)"
    by (simp add: tab_def table_pow_fold best_pow_def) (simp add: table_pow_def)
  finally show ?thesis using d sv ok by (auto simp: table_ok_def)
qed

text \<open>the union of feedback bundles, whatever the iteration order of the hash map, has one entry per
  post and type; every entry is one of the entries of the inputs; and the work it reports for a post
  and type is the largest work any input has for them.\<close>

theorem feedback_merge_is_max:
  assumes "feedback_merge ord bs = Some m" "\<And>xs. mset (ord xs) = mset xs"
  shows "distinct (map fst (votes m)) \<and> set (votes m) \<subseteq> set (concat (map votes bs))
    \<and> get_post_pow_for_feedback_type m i ty = best_pow (concat (map votes bs)) (i, ty)"
  by (rule merged_votes_max[OF assms])

lemma best_pow_upper:
  "((i, ty), s, p) \<in> set vs \<Longrightarrow> p \<le> best_pow vs (i, ty)"
proof -
  have mono: "m \<le> fold (\<lambda>(k', s, p) m. if k' = k then max p m else m) vs m" for vs k and m :: pow
    by (induction vs arbitrary: m) (auto intro: order_trans[OF max.cobounded2] split: prod.splits)
  have "((i, ty), s, p) \<in> set vs \<Longrightarrow> p \<le> fold (\<lambda>(k', s, p) m. if k' = (i, ty) then max p m else m) vs m" for m
    by (induction vs arbitrary: m) (auto intro: order_trans[OF _ mono])
  then show "((i, ty), s, p) \<in> set vs \<Longrightarrow> p \<le> best_pow vs (i, ty)" by (simp add: best_pow_def)
qed

text \<open>one vote is 43 bytes on the wire and decodes to itself, also in front of other entries.\<close>

theorem feedback_roundtrip:
  assumes "wf_feedback f"
  shows "length (feedback_encode_to_bytes f) = 43 \<and> feedback_decode_from_bytes (feedback_encode_to_bytes f @ rest) = Inr f"
  using assms feedback_decode_encode by (simp add: entry_offsets)

end
