(* ===== verification/PostBundle.thy ===== *)
theory PostBundle
  imports EncodedPost Feedback
begin

text \<open>
  \<open>protocol/posting/encoded_post_bundle.rs\<close>: the server-signed index of the posts of one
  location and time bucket, with the concatenated posts as body. \<open>usize\<close> values that are
  written as \<open>u64\<close> are natural numbers below \<open>2^64\<close>; the \<open>HashSet\<close> of healed ids is a
  finite set, hashed in sorted order.
\<close>

record post_bundle_header =
  pbh_time_millis :: time_millis
  pbh_location_id :: id
  pbh_overflowed :: bool
  pbh_sealed :: bool
  pbh_num_posts :: byte
  pbh_encoded_post_ids :: "id list"
  pbh_encoded_post_lengths :: "nat list"
  pbh_encoded_post_healed :: "id set"
  pbh_peer :: peer
  pbh_signature :: signature

record post_bundle =
  pb_header :: post_bundle_header
  pb_encoded_posts_bytes :: bytes

fun bool_byte :: "bool \<Rightarrow> byte" where
  "bool_byte True = 1"
| "bool_byte False = 0"

definition pbh_get_hash_for_signing :: "crypto \<Rightarrow> post_bundle_header \<Rightarrow> hash res" where
  "pbh_get_hash_for_signing C h =
     rbind (signature_hash_generate C (pbh_peer h)) (\<lambda>peer_hash.
       Inr (hash_multiple C (
         [time_encode_be (pbh_time_millis h), id_bytes (pbh_location_id h), [bool_byte (pbh_overflowed h)],
          [bool_byte (pbh_sealed h)], [pbh_num_posts h]]
         @ map id_bytes (pbh_encoded_post_ids h)
         @ map (be_bytes 8) (pbh_encoded_post_lengths h)
         @ map id_bytes (sorted_list_of_set (pbh_encoded_post_healed h))
         @ [hash_bytes peer_hash])))"

definition pbh_signature_generate :: "crypto \<Rightarrow> signature_key \<Rightarrow> post_bundle_header \<Rightarrow> post_bundle_header res" where
  "pbh_signature_generate C sk h = rbind (pbh_get_hash_for_signing C h) (\<lambda>hh.
     Inr (h\<lparr>pbh_signature := signing_sign C sk (hash_bytes hh)\<rparr>))"

definition pbh_signature_verify :: "crypto \<Rightarrow> post_bundle_header \<Rightarrow> unit res" where
  "pbh_signature_verify C h =
     rbind (pbh_get_hash_for_signing C h) (\<lambda>hh.
     rbind (VerificationKey_from_bytes C (p_verification_key_bytes (pbh_peer h))) (\<lambda>vk.
       signing_verify C vk (pbh_signature h) (hash_bytes hh)))"

text \<open>\<open>len() as u8\<close> keeps the low byte.\<close>

definition pbh_verify :: "crypto \<Rightarrow> post_bundle_header \<Rightarrow> unit res" where
  "pbh_verify C h =
     rbind (ensure (pbh_num_posts h = word_of_nat (length (pbh_encoded_post_lengths h))) ''num_posts'') (\<lambda>_.
     rbind (ensure (pbh_num_posts h = word_of_nat (length (pbh_encoded_post_ids h))) ''num_posts'') (\<lambda>_.
       if \<exists>healed_id \<in> pbh_encoded_post_healed h. healed_id \<notin> set (pbh_encoded_post_ids h)
       then Inl (Bail ''encoded_post_healed contains id not in encoded_post_ids'')
       else pbh_signature_verify C h))"

definition pb_to_bytes :: "post_bundle_header codec \<Rightarrow> post_bundle \<Rightarrow> bytes" where
  "pb_to_bytes J b =
     (let json = enc J (pb_header b) in
      [1] @ be_bytes 8 (length json) @ be_bytes 8 (length (pb_encoded_posts_bytes b)) @ json @ pb_encoded_posts_bytes b)"

definition pb_from_bytes :: "post_bundle_header codec \<Rightarrow> bytes \<Rightarrow> bool \<Rightarrow> post_bundle res" where
  "pb_from_bytes J bs decode_body =
     rbind (ensure (length bs \<ge> 1) ''Missing version'') (\<lambda>_.
     rbind (get_u8 bs) (\<lambda>(version, b1).
     rbind (ensure (1 = version) ''Invalid version'') (\<lambda>_.
     rbind (ensure (length b1 \<ge> 8) ''Missing header length'') (\<lambda>_.
     rbind (get_be 8 b1) (\<lambda>(header_len, b2).
     rbind (ensure (length b2 \<ge> 8) ''Missing body length'') (\<lambda>_.
     rbind (get_be 8 b2) (\<lambda>(body_len, b3).
     rbind (of_option ''header_len + body_len overflow'' (checked_add_usize header_len body_len)) (\<lambda>total_length.
     rbind (ensure (length b3 \<ge> total_length) ''Truncated post bundle data'') (\<lambda>_.
     rbind (split_to header_len b3) (\<lambda>(header_bytes, b4).
     rbind (of_option ''json'' (dec J header_bytes)) (\<lambda>header.
     rbind (if decode_body
            then rbind (split_to body_len b4) (\<lambda>(body_bytes, b5).
                   rbind (ensure (length b5 = 0) ''Excess data'') (\<lambda>_. Inr body_bytes))
            else Inr []) (\<lambda>body.
       Inr \<lparr>pb_header = header, pb_encoded_posts_bytes = body\<rparr>))))))))))))"

text \<open>The per-post loop of \<open>verify\<close>: the lengths zipped with the ids, and the running offset.\<close>

fun verify_posts :: "post_env \<Rightarrow> id \<Rightarrow> bytes \<Rightarrow> (nat \<times> id) list \<Rightarrow> nat \<Rightarrow> unit res" where
  "verify_posts E base body [] offset = Inr ()"
| "verify_posts E base body ((len, expected_post_id) # rest) offset =
     (if length body < offset + len then Inl (Panic ''range end out of bounds'') else
      let post_bytes = slice offset len body in
      if length post_bytes < ID_BYTES then Inl (Bail ''bytes too short to contain post_id'')
      else rbind (Id_from_slice (take ID_BYTES post_bytes)) (\<lambda>actual_post_id.
        if actual_post_id \<noteq> expected_post_id then Inl (Bail ''id mismatch'')
        else case decode_from_bytes E post_bytes base True False of
          Inl (Bail m) \<Rightarrow> Inl (Bail ''failed to verify with base_id'')
        | Inl (Panic m) \<Rightarrow> Inl (Panic m)
        | Inr p \<Rightarrow> verify_posts E base body rest (offset + len)))"

definition pb_verify :: "post_env \<Rightarrow> id \<Rightarrow> post_bundle \<Rightarrow> unit res" where
  "pb_verify E base b =
     rbind (pbh_verify (pe_crypto E) (pb_header b)) (\<lambda>_.
       let total_length = sum_list (pbh_encoded_post_lengths (pb_header b)) in
       if total_length > USIZE_MAX then Inl (Panic ''attempt to add with overflow'')
       else if total_length \<noteq> length (pb_encoded_posts_bytes b)
       then Inl (Bail ''sum of encoded_post_lengths'')
       else verify_posts E base (pb_encoded_posts_bytes b)
              (zip (pbh_encoded_post_lengths (pb_header b)) (pbh_encoded_post_ids (pb_header b))) 0)"

section \<open>Round trips\<close>

lemma pb_bytes_roundtrip:
  assumes "dec J (enc J (pb_header b)) = Some (pb_header b)"
    and "length (enc J (pb_header b)) + length (pb_encoded_posts_bytes b) \<le> USIZE_MAX"
  shows "pb_from_bytes J (pb_to_bytes J b) True = Inr b
    \<and> pb_from_bytes J (pb_to_bytes J b @ rest) False = Inr (b\<lparr>pb_encoded_posts_bytes := []\<rparr>)
    \<and> (rest \<noteq> [] \<longrightarrow> pb_from_bytes J (pb_to_bytes J b @ rest) True = Inl (Bail ''Excess data''))"
proof -
  have len: "length (enc J (pb_header b)) mod 256 ^ 8 = length (enc J (pb_header b))"
      "length (pb_encoded_posts_bytes b) mod 256 ^ 8 = length (pb_encoded_posts_bytes b)"
    using assms(2) by (simp_all add: USIZE_MAX_def)
  have "pb_from_bytes J (pb_to_bytes J b @ r) d =
      (if d then if r = [] then Inr b else Inl (Bail ''Excess data'') else Inr (b\<lparr>pb_encoded_posts_bytes := []\<rparr>))" for r d
    using assms len
    by (simp add: pb_from_bytes_def pb_to_bytes_def Let_def get_u8_Cons get_be_append split_to_append checked_add_usize_def
        rbind_ensure)
  from this[of "[]"] this[of rest] show ?thesis by simp
qed

text \<open>a bundle survives the wire, and a bundle with anything after its declared body is refused; read
  without its body it gives the header.\<close>

theorem post_bundle_roundtrip:
  assumes "dec J (enc J (pb_header b)) = Some (pb_header b)"
    and "length (enc J (pb_header b)) + length (pb_encoded_posts_bytes b) \<le> USIZE_MAX"
  shows "pb_from_bytes J (pb_to_bytes J b) True = Inr b
    \<and> pb_from_bytes J (pb_to_bytes J b @ rest) False = Inr (b\<lparr>pb_encoded_posts_bytes := []\<rparr>)
    \<and> (rest \<noteq> [] \<longrightarrow> pb_from_bytes J (pb_to_bytes J b @ rest) True = Inl (Bail ''Excess data''))"
  by (rule pb_bytes_roundtrip[OF assms])

definition toy_header :: post_bundle_header where
  "toy_header = \<lparr>pbh_time_millis = 5, pbh_location_id = Id_zero, pbh_overflowed = False, pbh_sealed = False,
     pbh_num_posts = 0, pbh_encoded_post_ids = [], pbh_encoded_post_lengths = [], pbh_encoded_post_healed = {},
     pbh_peer = Peer_zero ''1'', pbh_signature = Signature_zero\<rparr>"

theorem post_bundle_roundtrip_witness:
  "let J = \<lparr>enc = (\<lambda>h. [7, 7]), dec = (\<lambda>x. Some toy_header)\<rparr>; b = \<lparr>pb_header = toy_header, pb_encoded_posts_bytes = [1, 2]\<rparr>
   in pb_from_bytes J (pb_to_bytes J b) True = Inr b
    \<and> pb_from_bytes J (pb_to_bytes J b @ [9]) False = Inr (b\<lparr>pb_encoded_posts_bytes := []\<rparr>)
    \<and> ([9] \<noteq> ([] :: bytes) \<longrightarrow> pb_from_bytes J (pb_to_bytes J b @ [9]) True = Inl (Bail ''Excess data''))"
  unfolding Let_def by (rule post_bundle_roundtrip) (simp_all add: USIZE_MAX_def)

lemma feedback_bundle_roundtrip:
  assumes "dec J (enc J (fbb_header b)) = Some (fbb_header b)"
    and "length (enc J (fbb_header b)) + length (fbb_feedbacks_bytes b) \<le> USIZE_MAX"
  shows "fbb_from_bytes J (fbb_to_bytes J b @ rest) = Inr b"
proof -
  have len: "length (enc J (fbb_header b)) mod 256 ^ 8 = length (enc J (fbb_header b))"
      "length (fbb_feedbacks_bytes b) mod 256 ^ 8 = length (fbb_feedbacks_bytes b)"
    using assms(2) by (simp_all add: USIZE_MAX_def)
  show ?thesis
    using assms len
    by (simp add: fbb_from_bytes_def fbb_to_bytes_def Let_def get_u8_Cons get_be_append split_to_append checked_add_usize_def)
qed

lemma signature_hash_generate_total:
  "crypto_ok C \<Longrightarrow> \<exists>h. pbh_get_hash_for_signing C hdr = Inr h"
  using signature_hash_total[of C "pbh_peer hdr"] by (auto simp: pbh_get_hash_for_signing_def)

lemma pbh_hash_signature [simp]:
  "pbh_get_hash_for_signing C (h\<lparr>pbh_signature := s\<rparr>) = pbh_get_hash_for_signing C h"
  by (simp add: pbh_get_hash_for_signing_def)

lemma fh_hash_signature [simp]:
  "fh_get_hash_for_signing C (h\<lparr>fh_signature := s\<rparr>) = fh_get_hash_for_signing C h"
  by (simp add: fh_get_hash_for_signing_def)

lemma pbh_sign_verify:
  assumes "crypto_ok C" "key_pair_ok C (signature_key_bytes sk) (vkb_bytes (p_verification_key_bytes (pbh_peer h)))"
    and "length (pbh_encoded_post_ids h) = n" "length (pbh_encoded_post_lengths h) = n" "pbh_num_posts h = word_of_nat n"
    and "pbh_encoded_post_healed h \<subseteq> set (pbh_encoded_post_ids h)"
  shows "\<exists>h'. pbh_signature_generate C sk h = Inr h' \<and> pbh_verify C h' = Inr ()"
proof -
  obtain hh where hh: "pbh_get_hash_for_signing C h = Inr hh" using signature_hash_generate_total[OF assms(1)] by blast
  then show ?thesis
    using assms verify_signed[OF assms(2), of "hash_bytes hh"]
    by (auto simp: pbh_signature_generate_def pbh_verify_def pbh_signature_verify_def rbind_ensure)
qed

lemma verify_posts_sound:
  "verify_posts E base body items offset = Inr () \<Longrightarrow>
   \<forall>i < length items. \<exists>p. decode_from_bytes E (slice (offset + sum_list (map fst (take i items))) (fst (items ! i)) body)
       base True False = Inr p \<and> take 32 (slice (offset + sum_list (map fst (take i items))) (fst (items ! i)) body)
       = id_bytes (snd (items ! i))"
proof (induction E base body items offset rule: verify_posts.induct)
  case (2 E base body len expected rest offset)
  from "2.prems" obtain p where
      ids: "Id_from_slice (take ID_BYTES (slice offset len body)) = Inr expected"
      and dp: "decode_from_bytes E (slice offset len body) base True False = Inr p"
      and rest: "verify_posts E base body rest (offset + len) = Inr ()"
    by (auto simp: Let_def split: if_splits sum.splits err.splits)
  have IH: "\<forall>i < length rest. \<exists>p. decode_from_bytes E (slice (offset + len + sum_list (map fst (take i rest))) (fst (rest ! i)) body)
       base True False = Inr p \<and> take 32 (slice (offset + len + sum_list (map fst (take i rest))) (fst (rest ! i)) body)
       = id_bytes (snd (rest ! i))"
    using "2.prems" rest ids dp
    by (intro "2.IH"[of _ expected p]) (auto simp: Let_def split: if_splits)
  show ?case
  proof (intro allI impI)
    fix i assume "i < length ((len, expected) # rest)"
    with IH ids dp show "\<exists>p. decode_from_bytes E (slice (offset + sum_list (map fst (take i ((len, expected) # rest))))
        (fst (((len, expected) # rest) ! i)) body) base True False = Inr p
      \<and> take 32 (slice (offset + sum_list (map fst (take i ((len, expected) # rest)))) (fst (((len, expected) # rest) ! i)) body)
        = id_bytes (snd (((len, expected) # rest) ! i))"
      by (cases i) (auto simp: from_slice_Inr ID_BYTES_def add.assoc)
  qed
qed simp

text \<open>what a verified bundle guarantees: the signature of its peer over the header, lengths that span
  the body exactly, and for every listed post a slice of the body that starts with the listed id and
  decodes, with its own signature and hashes, under the base id.\<close>

theorem post_bundle_verify_sound:
  assumes "pb_verify E base b = Inr ()"
  shows "pbh_signature_verify (pe_crypto E) (pb_header b) = Inr ()
    \<and> sum_list (pbh_encoded_post_lengths (pb_header b)) = length (pb_encoded_posts_bytes b)
    \<and> pbh_encoded_post_healed (pb_header b) \<subseteq> set (pbh_encoded_post_ids (pb_header b))
    \<and> (let lens = pbh_encoded_post_lengths (pb_header b); ids = pbh_encoded_post_ids (pb_header b) in
       list_all (\<lambda>i. (\<exists>p. decode_from_bytes E (slice (sum_list (take i lens)) (lens ! i) (pb_encoded_posts_bytes b)) base True False = Inr p)
         \<and> take 32 (slice (sum_list (take i lens)) (lens ! i) (pb_encoded_posts_bytes b)) = id_bytes (ids ! i))
       [0..<min (length lens) (length ids)])"
proof -
  let ?lens = "pbh_encoded_post_lengths (pb_header b)" and ?ids = "pbh_encoded_post_ids (pb_header b)"
  have v: "verify_posts E base (pb_encoded_posts_bytes b) (zip ?lens ?ids) 0 = Inr ()"
      "sum_list ?lens = length (pb_encoded_posts_bytes b)" "pbh_verify (pe_crypto E) (pb_header b) = Inr ()"
    using assms by (auto simp: pb_verify_def Let_def split: if_splits)
  have tk: "map fst (take i (zip ?lens ?ids)) = take i ?lens" if "i < min (length ?lens) (length ?ids)" for i
    using that by (simp add: take_zip)
  show ?thesis
    using v verify_posts_sound[OF v(1)] tk
    by (auto simp: pbh_verify_def list_all_iff Let_def split: if_splits)
qed

end
