(* ===== verification/Payload.thy ===== *)
theory Payload
  imports PostBundle
begin

text \<open>
  \<open>protocol/payload/payload.rs\<close>: the requests and responses of the protocol. The code builds each
  body in a \<open>BytesGatherer\<close>; what it sends is the gatherer's contents, which is the byte list the encoders below return. Bodies are mixtures of length-prefixed JSON,
  big-endian counts and raw bytes; \<open>as u16\<close> and \<open>as u32\<close> keep the low bytes (\<open>be_bytes\<close>).
\<close>

section \<open>The discriminators\<close>

datatype request_kind = ErrorV1 | PingV1 | BootstrapV1 | AnnounceV1 | GetPostBundleV1 | GetPostBundleFeedbackV1
  | SubmitPostClaimV1 | SubmitPostCommitV1 | SubmitPostFeedbackV1 | HealPostBundleClaimV1 | HealPostBundleCommitV1
  | HealPostBundleFeedbackV1 | CachePostBundleV1 | CachePostBundleFeedbackV1 | FetchUrlPreviewV1
  | TrendingHashtagsFetchV1 | PeerStatsRequestV1 | AnnounceV2

definition request_kinds :: "request_kind list" where
  "request_kinds = [ErrorV1, PingV1, BootstrapV1, AnnounceV1, GetPostBundleV1, GetPostBundleFeedbackV1,
     SubmitPostClaimV1, SubmitPostCommitV1, SubmitPostFeedbackV1, HealPostBundleClaimV1, HealPostBundleCommitV1,
     HealPostBundleFeedbackV1, CachePostBundleV1, CachePostBundleFeedbackV1, FetchUrlPreviewV1,
     TrendingHashtagsFetchV1, PeerStatsRequestV1, AnnounceV2]"

definition PAYLOAD_REQUEST_KIND_COUNT :: nat where "PAYLOAD_REQUEST_KIND_COUNT = 18"

fun request_kind_u16 :: "request_kind \<Rightarrow> nat" where
  "request_kind_u16 ErrorV1 = 0"
| "request_kind_u16 PingV1 = 1"
| "request_kind_u16 BootstrapV1 = 2"
| "request_kind_u16 AnnounceV1 = 3"
| "request_kind_u16 GetPostBundleV1 = 4"
| "request_kind_u16 GetPostBundleFeedbackV1 = 5"
| "request_kind_u16 SubmitPostClaimV1 = 6"
| "request_kind_u16 SubmitPostCommitV1 = 7"
| "request_kind_u16 SubmitPostFeedbackV1 = 8"
| "request_kind_u16 HealPostBundleClaimV1 = 9"
| "request_kind_u16 HealPostBundleCommitV1 = 10"
| "request_kind_u16 HealPostBundleFeedbackV1 = 11"
| "request_kind_u16 CachePostBundleV1 = 12"
| "request_kind_u16 CachePostBundleFeedbackV1 = 13"
| "request_kind_u16 FetchUrlPreviewV1 = 14"
| "request_kind_u16 TrendingHashtagsFetchV1 = 15"
| "request_kind_u16 PeerStatsRequestV1 = 16"
| "request_kind_u16 AnnounceV2 = 17"

text \<open>\<open>from_repr\<close> is derived from the declaration order.\<close>

definition PayloadRequestKind_from_u16 :: "nat \<Rightarrow> request_kind res" where
  "PayloadRequestKind_from_u16 v =
     (if v < length request_kinds then Inr (request_kinds ! v) else Inl (Bail ''unknown PayloadRequestKind''))"

datatype response_kind = ErrorResponseV1 | PingResponseV1 | BootstrapResponseV1 | AnnounceResponseV1
  | GetPostBundleResponseV1 | GetPostBundleFeedbackResponseV1 | SubmitPostClaimResponseV1
  | SubmitPostCommitResponseV1 | SubmitPostFeedbackResponseV1 | HealPostBundleClaimResponseV1
  | HealPostBundleCommitResponseV1 | HealPostBundleFeedbackResponseV1 | CachePostBundleResponseV1
  | CachePostBundleFeedbackResponseV1 | FetchUrlPreviewResponseV1 | TrendingHashtagsFetchResponseV1
  | PeerStatsResponseV1 | AnnounceResponseV2

definition response_kinds :: "response_kind list" where
  "response_kinds = [ErrorResponseV1, PingResponseV1, BootstrapResponseV1, AnnounceResponseV1,
     GetPostBundleResponseV1, GetPostBundleFeedbackResponseV1, SubmitPostClaimResponseV1,
     SubmitPostCommitResponseV1, SubmitPostFeedbackResponseV1, HealPostBundleClaimResponseV1,
     HealPostBundleCommitResponseV1, HealPostBundleFeedbackResponseV1, CachePostBundleResponseV1,
     CachePostBundleFeedbackResponseV1, FetchUrlPreviewResponseV1, TrendingHashtagsFetchResponseV1,
     PeerStatsResponseV1, AnnounceResponseV2]"

fun response_kind_u16 :: "response_kind \<Rightarrow> nat" where
  "response_kind_u16 ErrorResponseV1 = 0"
| "response_kind_u16 PingResponseV1 = 1"
| "response_kind_u16 BootstrapResponseV1 = 2"
| "response_kind_u16 AnnounceResponseV1 = 3"
| "response_kind_u16 GetPostBundleResponseV1 = 4"
| "response_kind_u16 GetPostBundleFeedbackResponseV1 = 5"
| "response_kind_u16 SubmitPostClaimResponseV1 = 6"
| "response_kind_u16 SubmitPostCommitResponseV1 = 7"
| "response_kind_u16 SubmitPostFeedbackResponseV1 = 8"
| "response_kind_u16 HealPostBundleClaimResponseV1 = 9"
| "response_kind_u16 HealPostBundleCommitResponseV1 = 10"
| "response_kind_u16 HealPostBundleFeedbackResponseV1 = 11"
| "response_kind_u16 CachePostBundleResponseV1 = 12"
| "response_kind_u16 CachePostBundleFeedbackResponseV1 = 13"
| "response_kind_u16 FetchUrlPreviewResponseV1 = 14"
| "response_kind_u16 TrendingHashtagsFetchResponseV1 = 15"
| "response_kind_u16 PeerStatsResponseV1 = 16"
| "response_kind_u16 AnnounceResponseV2 = 17"

definition PayloadResponseKind_from_u16 :: "nat \<Rightarrow> response_kind res" where
  "PayloadResponseKind_from_u16 v =
     (if v < length response_kinds then Inr (response_kinds ! v) else Inl (Bail ''unknown PayloadResponseKind''))"

lemma request_kind_u16_less: "request_kind_u16 k < PAYLOAD_REQUEST_KIND_COUNT"
  by (cases k) (simp_all add: PAYLOAD_REQUEST_KIND_COUNT_def)

lemma response_kind_u16_less: "response_kind_u16 k < 18"
  by (cases k) simp_all

lemma request_kind_roundtrip [wire]: "PayloadRequestKind_from_u16 (request_kind_u16 k) = Inr k"
  by (cases k) (simp_all add: PayloadRequestKind_from_u16_def request_kinds_def)

lemma response_kind_roundtrip [wire]: "PayloadResponseKind_from_u16 (response_kind_u16 k) = Inr k"
  by (cases k) (simp_all add: PayloadResponseKind_from_u16_def response_kinds_def)

lemma request_kind_from_u16_Inr: "PayloadRequestKind_from_u16 v = Inr k \<longleftrightarrow> v = request_kind_u16 k"
proof
  assume "PayloadRequestKind_from_u16 v = Inr k"
  then have v: "v < 18" "k = request_kinds ! v"
    by (auto simp: PayloadRequestKind_from_u16_def request_kinds_def split: if_splits)
  have "list_all (\<lambda>i. i = request_kind_u16 (request_kinds ! i)) [0..<18]" by code_simp
  with v show "v = request_kind_u16 k" by (simp add: list_all_iff)
qed (simp add: request_kind_roundtrip)

lemma response_kind_from_u16_Inr: "PayloadResponseKind_from_u16 v = Inr k \<longleftrightarrow> v = response_kind_u16 k"
proof
  assume "PayloadResponseKind_from_u16 v = Inr k"
  then have v: "v < 18" "k = response_kinds ! v"
    by (auto simp: PayloadResponseKind_from_u16_def response_kinds_def split: if_splits)
  have "list_all (\<lambda>i. i = response_kind_u16 (response_kinds ! i)) [0..<18]" by code_simp
  with v show "v = response_kind_u16 k" by (simp add: list_all_iff)
qed (simp add: response_kind_roundtrip)


section \<open>Bodies that are plain JSON\<close>

record error_response =
  er_code :: nat
  er_message :: string

record ping_response =
  pr_peer :: peer

record bootstrap_response =
  br_peers_random :: "peer list"

record announce_v1 =
  a1_peer_self :: peer

record announce_response =
  ar_peer_self :: peer
  ar_peers_nearest :: "peer list"

record announce_v2 =
  a2_peer_self :: peer
  a2_proof_payload :: bytes

record get_post_bundle =
  gpb_bucket_location :: bucket_location
  gpb_peers_visited :: "peer list"
  gpb_already_retrieved_peer_ids :: "id list"

record submit_post_feedback_response =
  spfr_peers_nearer :: "peer list"
  spfr_accepted :: bool

record trending_hashtag =
  th_hashtag :: string
  th_count :: nat


section \<open>Tokens\<close>

record submit_post_claim_token =
  spc_peer :: peer
  spc_bucket_location :: bucket_location
  spc_post_id :: id
  spc_token_signature :: signature

record submit_post_commit_token =
  spm_peer :: peer
  spm_bucket_location :: bucket_location
  spm_post_id :: id
  spm_token_signature :: signature

record heal_claim_token =
  hct_peer :: peer
  hct_bucket_location :: bucket_location
  hct_donor_header_signature :: signature
  hct_needed_post_ids :: "id list"
  hct_token_signature :: signature

record cache_request_token =
  crt_peer :: peer
  crt_bucket_location :: bucket_location
  crt_expires_at :: time_millis
  crt_already_cached_peer_ids :: "id list"
  crt_token_signature :: signature

text \<open>The byte strings that each kind of token hashes and signs.\<close>

definition claim_token_inputs :: "crypto \<Rightarrow> peer \<Rightarrow> bucket_location \<Rightarrow> id \<Rightarrow> bytes list" where
  "claim_token_inputs C p b post_id =
     [id_bytes (p_id p), hash_bytes (get_hash_for_signing C b), id_bytes post_id, str_bytes ''SubmitPostClaimTokenV1'']"

definition claim_token_new :: "crypto \<Rightarrow> peer \<Rightarrow> bucket_location \<Rightarrow> id \<Rightarrow> signature_key \<Rightarrow> submit_post_claim_token" where
  "claim_token_new C p b post_id sk =
     \<lparr>spc_peer = p, spc_bucket_location = b, spc_post_id = post_id,
      spc_token_signature = signing_sign C sk (hash_bytes (hash_multiple C (claim_token_inputs C p b post_id)))\<rparr>"

definition claim_token_verify :: "crypto \<Rightarrow> submit_post_claim_token \<Rightarrow> unit res" where
  "claim_token_verify C t =
     rbind (Peer_verify C (spc_peer t)) (\<lambda>_.
     rbind (VerificationKey_from_bytes C (p_verification_key_bytes (spc_peer t))) (\<lambda>vk.
       signing_verify C vk (spc_token_signature t)
         (hash_bytes (hash_multiple C (claim_token_inputs C (spc_peer t) (spc_bucket_location t) (spc_post_id t))))))"

definition commit_token_inputs :: "crypto \<Rightarrow> peer \<Rightarrow> bucket_location \<Rightarrow> id \<Rightarrow> bytes list" where
  "commit_token_inputs C p b post_id =
     [id_bytes (p_id p), hash_bytes (get_hash_for_signing C b), id_bytes post_id, str_bytes ''SubmitPostCommitTokenV1'']"

definition commit_token_new :: "crypto \<Rightarrow> peer \<Rightarrow> bucket_location \<Rightarrow> id \<Rightarrow> signature_key \<Rightarrow> submit_post_commit_token" where
  "commit_token_new C p b post_id sk =
     \<lparr>spm_peer = p, spm_bucket_location = b, spm_post_id = post_id,
      spm_token_signature = signing_sign C sk (hash_bytes (hash_multiple C (commit_token_inputs C p b post_id)))\<rparr>"

definition commit_token_verify :: "crypto \<Rightarrow> submit_post_commit_token \<Rightarrow> unit res" where
  "commit_token_verify C t =
     rbind (Peer_verify C (spm_peer t)) (\<lambda>_.
     rbind (VerificationKey_from_bytes C (p_verification_key_bytes (spm_peer t))) (\<lambda>vk.
       signing_verify C vk (spm_token_signature t)
         (hash_bytes (hash_multiple C (commit_token_inputs C (spm_peer t) (spm_bucket_location t) (spm_post_id t))))))"

definition heal_token_inputs :: "crypto \<Rightarrow> id \<Rightarrow> bucket_location \<Rightarrow> signature \<Rightarrow> id list \<Rightarrow> bytes list" where
  "heal_token_inputs C peer_id b donor_sig needed =
     [id_bytes peer_id, hash_bytes (get_hash_for_signing C b), signature_bytes donor_sig,
      str_bytes ''HealPostBundleClaimTokenV1''] @ map id_bytes needed"

definition heal_token_new :: "crypto \<Rightarrow> peer \<Rightarrow> bucket_location \<Rightarrow> id list \<Rightarrow> signature \<Rightarrow> signature_key \<Rightarrow> heal_claim_token" where
  "heal_token_new C p b needed donor_sig sk =
     \<lparr>hct_peer = p, hct_bucket_location = b, hct_donor_header_signature = donor_sig, hct_needed_post_ids = needed,
      hct_token_signature = signing_sign C sk (hash_bytes (hash_multiple C (heal_token_inputs C (p_id p) b donor_sig needed)))\<rparr>"

definition heal_token_verify :: "crypto \<Rightarrow> heal_claim_token \<Rightarrow> unit res" where
  "heal_token_verify C t =
     rbind (Peer_verify C (hct_peer t)) (\<lambda>_.
     rbind (BucketLocation_validate C (hct_bucket_location t)) (\<lambda>_.
     rbind (VerificationKey_from_bytes C (p_verification_key_bytes (hct_peer t))) (\<lambda>vk.
       signing_verify C vk (hct_token_signature t)
         (hash_bytes (hash_multiple C (heal_token_inputs C (p_id (hct_peer t)) (hct_bucket_location t)
           (hct_donor_header_signature t) (hct_needed_post_ids t)))))))"

definition cache_token_inputs :: "crypto \<Rightarrow> id \<Rightarrow> bucket_location \<Rightarrow> time_millis \<Rightarrow> id list \<Rightarrow> bytes list" where
  "cache_token_inputs C peer_id b expires_at cached =
     [id_bytes peer_id, hash_bytes (get_hash_for_signing C b), time_encode_be expires_at,
      str_bytes ''CacheRequestToken''] @ map id_bytes cached"

definition cache_token_new :: "crypto \<Rightarrow> peer \<Rightarrow> bucket_location \<Rightarrow> time_millis \<Rightarrow> id list \<Rightarrow> signature_key \<Rightarrow> cache_request_token" where
  "cache_token_new C p b expires_at cached sk =
     \<lparr>crt_peer = p, crt_bucket_location = b, crt_expires_at = expires_at, crt_already_cached_peer_ids = cached,
      crt_token_signature = signing_sign C sk (hash_bytes (hash_multiple C (cache_token_inputs C (p_id p) b expires_at cached)))\<rparr>"

definition cache_token_verify :: "crypto \<Rightarrow> cache_request_token \<Rightarrow> unit res" where
  "cache_token_verify C t =
     rbind (Peer_verify C (crt_peer t)) (\<lambda>_.
     rbind (BucketLocation_validate C (crt_bucket_location t)) (\<lambda>_.
     rbind (VerificationKey_from_bytes C (p_verification_key_bytes (crt_peer t))) (\<lambda>vk.
       signing_verify C vk (crt_token_signature t)
         (hash_bytes (hash_multiple C (cache_token_inputs C (p_id (crt_peer t)) (crt_bucket_location t)
           (crt_expires_at t) (crt_already_cached_peer_ids t)))))))"

definition cache_token_is_expired :: "cache_request_token \<Rightarrow> time_millis \<Rightarrow> bool" where
  "cache_token_is_expired t current_time \<longleftrightarrow> current_time > crt_expires_at t"

text \<open>What the four kinds share: a token names a peer, is verified by that peer's key over a
  hash of its own inputs, after a check of its own.\<close>

locale signed_token =
  fixes tok_peer :: "'t \<Rightarrow> peer"
    and tok_signature :: "'t \<Rightarrow> signature"
    and tok_inputs :: "crypto \<Rightarrow> 't \<Rightarrow> bytes list"
    and tok_extra :: "crypto \<Rightarrow> 't \<Rightarrow> unit res"
    and tok_verify :: "crypto \<Rightarrow> 't \<Rightarrow> unit res"
  assumes verify_steps: "tok_verify C t =
     rbind (Peer_verify C (tok_peer t)) (\<lambda>_.
     rbind (tok_extra C t) (\<lambda>_.
     rbind (VerificationKey_from_bytes C (p_verification_key_bytes (tok_peer t))) (\<lambda>vk.
       signing_verify C vk (tok_signature t) (hash_bytes (hash_multiple C (tok_inputs C t))))))"
begin

lemma signed_verifies:
  assumes "key_pair_ok C (signature_key_bytes sk) (vkb_bytes (p_verification_key_bytes (tok_peer t)))"
    and "Peer_verify C (tok_peer t) = Inr ()" "tok_extra C t = Inr ()"
    and "tok_signature t = signing_sign C sk (hash_bytes (hash_multiple C (tok_inputs C t)))"
  shows "tok_verify C t = Inr ()"
  using assms verify_signed[OF assms(1), of "hash_bytes (hash_multiple C (tok_inputs C t))"]
  by (auto simp: verify_steps)

lemma verify_sound:
  assumes "tok_verify C t = Inr ()"
  shows "Peer_verify C (tok_peer t) = Inr ()" "tok_extra C t = Inr ()"
    "ed_verify C (vkb_bytes (p_verification_key_bytes (tok_peer t)))
       (hash_bytes (hash_multiple C (tok_inputs C t))) (signature_bytes (tok_signature t))"
  using assms
  by (auto simp: verify_steps VerificationKey_from_bytes_def signing_verify_def split: if_splits)

end

interpretation claim_token: signed_token spc_peer spc_token_signature
  "\<lambda>C t. claim_token_inputs C (spc_peer t) (spc_bucket_location t) (spc_post_id t)" "\<lambda>C t. Inr ()" claim_token_verify
  by unfold_locales (simp add: claim_token_verify_def)

interpretation commit_token: signed_token spm_peer spm_token_signature
  "\<lambda>C t. commit_token_inputs C (spm_peer t) (spm_bucket_location t) (spm_post_id t)" "\<lambda>C t. Inr ()" commit_token_verify
  by unfold_locales (simp add: commit_token_verify_def)

interpretation heal_token: signed_token hct_peer hct_token_signature
  "\<lambda>C t. heal_token_inputs C (p_id (hct_peer t)) (hct_bucket_location t) (hct_donor_header_signature t) (hct_needed_post_ids t)"
  "\<lambda>C t. BucketLocation_validate C (hct_bucket_location t)" heal_token_verify
  by unfold_locales (simp add: heal_token_verify_def)

interpretation cache_token: signed_token crt_peer crt_token_signature
  "\<lambda>C t. cache_token_inputs C (p_id (crt_peer t)) (crt_bucket_location t) (crt_expires_at t) (crt_already_cached_peer_ids t)"
  "\<lambda>C t. BucketLocation_validate C (crt_bucket_location t)" cache_token_verify
  by unfold_locales (simp add: cache_token_verify_def)

text \<open>a server's tokens are accepted: what it signs with its own key for a valid bucket passes
  the verification of each of the four kinds.\<close>

theorem issued_tokens_verify:
  assumes "key_pair_ok C (signature_key_bytes sk) (vkb_bytes (p_verification_key_bytes p))"
    and "Peer_verify C p = Inr ()" "BucketLocation_validate C b = Inr ()"
  shows "claim_token_verify C (claim_token_new C p b post_id sk) = Inr ()
    \<and> commit_token_verify C (commit_token_new C p b post_id sk) = Inr ()
    \<and> heal_token_verify C (heal_token_new C p b needed donor_sig sk) = Inr ()
    \<and> cache_token_verify C (cache_token_new C p b expires_at cached sk) = Inr ()"
  using assms
  by (auto intro!: claim_token.signed_verifies commit_token.signed_verifies heal_token.signed_verifies
      cache_token.signed_verifies simp: claim_token_new_def commit_token_new_def heal_token_new_def cache_token_new_def)


lemma length_concat_ids: "list_all wf_id ids \<Longrightarrow> length (concat (map id_bytes ids)) = 32 * length ids"
  by (induction ids) (simp_all add: wf_newtypes byte_counts)

lemma concat_ids_inject:
  "list_all wf_id xs \<Longrightarrow> list_all wf_id ys \<Longrightarrow> concat (map id_bytes xs) = concat (map id_bytes ys) \<Longrightarrow> xs = ys"
proof (induction xs arbitrary: ys)
  case Nil then show ?case by (cases ys) (auto simp: wf_newtypes byte_counts)
next
  case (Cons x xs)
  obtain y ys' where ys: "ys = y # ys'"
    using Cons.prems by (cases ys) (auto simp: wf_newtypes byte_counts)
  have "length (id_bytes x) = length (id_bytes y)" using Cons.prems ys by (simp add: wf_newtypes)
  then have eq: "id_bytes x = id_bytes y" "concat (map id_bytes xs) = concat (map id_bytes ys')"
    using Cons.prems(3) by (simp_all add: ys)
  have "xs = ys'" using Cons.prems eq(2) by (intro Cons.IH) (simp_all add: ys)
  moreover have "x = y" using eq(1) by (cases x, cases y) simp
  ultimately show ?case by (simp add: ys)
qed

lemma signing_hash_length: "crypto_ok C \<Longrightarrow> length (hash_bytes (get_hash_for_signing C b)) = 32"
  by (simp add: get_hash_for_signing_def hash_multiple_def crypto_ok_def)

definition wf_token_fields :: "crypto \<Rightarrow> id \<Rightarrow> id \<Rightarrow> signature \<Rightarrow> id list \<Rightarrow> bool" where
  "wf_token_fields C peer_id post_id sig ids \<longleftrightarrow>
     crypto_ok C \<and> wf_id peer_id \<and> wf_id post_id \<and> wf_signature sig \<and> list_all wf_id ids"

lemma token_label_lengths:
  "length (str_bytes ''SubmitPostClaimTokenV1'') = 22" "length (str_bytes ''SubmitPostCommitTokenV1'') = 23"
  "length (str_bytes ''HealPostBundleClaimTokenV1'') = 26" "length (str_bytes ''CacheRequestToken'') = 17"
  by (simp_all only: length_str_bytes) code_simp+

lemma token_inputs_lengths:
  assumes "wf_token_fields C (p_id p) post_id sig ids"
  shows "length (concat (claim_token_inputs C p b post_id)) = 118"
    "length (concat (commit_token_inputs C p b post_id)) = 119"
    "length (concat (heal_token_inputs C (p_id p) b sig ids)) = 154 + 32 * length ids"
    "length (concat (cache_token_inputs C (p_id p) b e ids)) = 89 + 32 * length ids"
proof -
  have w: "length (id_bytes (p_id p)) = 32" "length (hash_bytes (get_hash_for_signing C b)) = 32"
      "length (id_bytes post_id) = 32" "length (signature_bytes sig) = 64"
      "length (concat (map id_bytes ids)) = 32 * length ids"
    using assms by (simp_all add: wf_token_fields_def signing_hash_length length_concat_ids wf_newtypes byte_counts)
  show "length (concat (claim_token_inputs C p b post_id)) = 118"
      "length (concat (commit_token_inputs C p b post_id)) = 119"
      "length (concat (heal_token_inputs C (p_id p) b sig ids)) = 154 + 32 * length ids"
      "length (concat (cache_token_inputs C (p_id p) b e ids)) = 89 + 32 * length ids"
    by (simp_all only: claim_token_inputs_def commit_token_inputs_def heal_token_inputs_def cache_token_inputs_def
        concat.simps concat_append length_append w token_label_lengths length_time_encode_be list.size)
qed

text \<open>the inputs are hashed without framing, but no token can pass for another kind and no list of ids for another:
  the four kinds never hash the same bytes, and one kind hashes the same bytes for the same
  bucket hash only when the ids and the list coincide.\<close>

theorem token_inputs_disjoint:
  assumes "wf_token_fields C (p_id p) post_id sig ids" "wf_token_fields C (p_id p') post_id' sig' ids'"
  shows "distinct [concat (claim_token_inputs C p b post_id), concat (commit_token_inputs C p' b' post_id'),
      concat (heal_token_inputs C (p_id p') b' sig' ids'), concat (cache_token_inputs C (p_id p') b' e' ids')]
    \<and> distinct [concat (commit_token_inputs C p b post_id), concat (heal_token_inputs C (p_id p') b' sig' ids'),
      concat (cache_token_inputs C (p_id p') b' e' ids')]
    \<and> concat (heal_token_inputs C (p_id p) b sig ids) \<noteq> concat (cache_token_inputs C (p_id p') b' e' ids')
    \<and> (concat (heal_token_inputs C (p_id p) b sig ids) = concat (heal_token_inputs C (p_id p') b' sig' ids')
       \<longrightarrow> p_id p = p_id p' \<and> get_hash_for_signing C b = get_hash_for_signing C b' \<and> sig = sig' \<and> ids = ids')"
proof -
  note l = token_inputs_lengths[OF assms(1)] token_inputs_lengths[OF assms(2)]
  have mods: "118 \<noteq> 154 + 32 * n" "118 \<noteq> 89 + 32 * n" "119 \<noteq> 154 + 32 * n" "119 \<noteq> 89 + 32 * n"
      "154 + 32 * m \<noteq> 89 + 32 * n" for m n :: nat
    by presburger+
  have ne: "xs \<noteq> ys" if "length xs \<noteq> length ys" for xs ys :: bytes using that by auto
  have inj: "p_id p = p_id p' \<and> get_hash_for_signing C b = get_hash_for_signing C b' \<and> sig = sig' \<and> ids = ids'"
    if eq: "concat (heal_token_inputs C (p_id p) b sig ids) = concat (heal_token_inputs C (p_id p') b' sig' ids')"
  proof -
    have "id_bytes (p_id p) = id_bytes (p_id p') \<and> hash_bytes (get_hash_for_signing C b) = hash_bytes (get_hash_for_signing C b')
        \<and> signature_bytes sig = signature_bytes sig' \<and> concat (map id_bytes ids) = concat (map id_bytes ids')"
      using eq assms by (simp add: heal_token_inputs_def wf_token_fields_def wf_newtypes signing_hash_length)
    then show ?thesis using assms concat_ids_inject[of ids ids']
      by (cases "p_id p"; cases "p_id p'"; cases "get_hash_for_signing C b"; cases "get_hash_for_signing C b'"; cases sig; cases sig')
        (auto simp: wf_token_fields_def)
  qed
  have "distinct [concat (claim_token_inputs C p b post_id), concat (commit_token_inputs C p' b' post_id'),
      concat (heal_token_inputs C (p_id p') b' sig' ids'), concat (cache_token_inputs C (p_id p') b' e' ids')]"
    using mods by (auto intro!: ne simp: l)
  moreover have "distinct [concat (commit_token_inputs C p b post_id), concat (heal_token_inputs C (p_id p') b' sig' ids'),
      concat (cache_token_inputs C (p_id p') b' e' ids')]"
    using mods by (auto intro!: ne simp: l)
  moreover have "concat (heal_token_inputs C (p_id p) b sig ids) \<noteq> concat (cache_token_inputs C (p_id p') b' e' ids')"
    using mods by (auto intro!: ne simp: l)
  ultimately show ?thesis using inj by blast
qed


section \<open>Bodies with counts and raw bytes\<close>

text \<open>The \<open>serde_json\<close> codecs of the bodies.\<close>

record payload_json =
  pj_peers :: "peer list codec"
  pj_bucket :: "bucket_location codec"
  pj_hashtags :: "string list codec"
  pj_claim_token :: "submit_post_claim_token codec"
  pj_heal_token :: "heal_claim_token codec"
  pj_cache_token :: "cache_request_token codec"
  pj_bundle_header :: "post_bundle_header codec"
  pj_url :: "string codec"
  pj_limit :: "nat codec"

fun write_entries :: "bytes list \<Rightarrow> bytes" where
  "write_entries [] = []"
| "write_entries (x # xs) = be_bytes 4 (length x) @ x @ write_entries xs"

fun read_entries :: "nat \<Rightarrow> bytes list reader" where
  "read_entries 0 buf = Inr ([], buf)"
| "read_entries (Suc n) buf =
     rbind (ensure (length buf \<ge> 4) ''Missing entry length'') (\<lambda>_.
     rbind (get_be 4 buf) (\<lambda>(len, buf1).
     rbind (ensure (length buf1 \<ge> len) ''Truncated entry'') (\<lambda>_.
     rbind (split_to len buf1) (\<lambda>(x, buf2).
     rbind (read_entries n buf2) (\<lambda>(xs, rest). Inr (x # xs, rest))))))"

definition write_opt_token :: "cache_request_token codec \<Rightarrow> cache_request_token option \<Rightarrow> bytes" where
  "write_opt_token c t = (case t of Some token \<Rightarrow> write_length_prefixed_json c [1] token | None \<Rightarrow> [0])"

definition read_opt_token :: "cache_request_token codec \<Rightarrow> cache_request_token option reader" where
  "read_opt_token c buf =
     (if length buf < 1 then Inl (Bail ''Invalid buffer: missing cache_request_token presence flag'')
      else rbind (get_u8 buf) (\<lambda>(flag, buf1).
        if flag = 0 then Inr (None, buf1)
        else if flag = 1 then rbind (read_length_prefixed_json c buf1) (\<lambda>(t, buf2). Inr (Some t, buf2))
        else Inl (Bail ''Invalid buffer: unknown cache_request_token presence flag'')))"

definition write_opt_rest :: "bytes option \<Rightarrow> bytes" where
  "write_opt_rest b = (case b of Some x \<Rightarrow> [1] @ x | None \<Rightarrow> [0])"

definition read_opt_rest :: "bytes \<Rightarrow> bytes option res" where
  "read_opt_rest buf =
     (if length buf < 1 then Inl (Bail ''Invalid buffer: missing presence flag'')
      else rbind (get_u8 buf) (\<lambda>(flag, rest).
        if flag = 0 then Inr None
        else if flag = 1 then Inr (Some rest)
        else Inl (Bail ''Invalid buffer: unknown presence flag'')))"

record get_post_bundle_response =
  gr_peers_nearer :: "peer list"
  gr_cache_request_token :: "cache_request_token option"
  gr_post_bundles_cached :: "bytes list"
  gr_post_bundle :: "bytes option"

definition get_post_bundle_response_to_bytes :: "payload_json \<Rightarrow> get_post_bundle_response \<Rightarrow> bytes" where
  "get_post_bundle_response_to_bytes J r =
     write_length_prefixed_json (pj_peers J) [] (gr_peers_nearer r)
     @ write_opt_token (pj_cache_token J) (gr_cache_request_token r)
     @ be_bytes 2 (length (gr_post_bundles_cached r)) @ write_entries (gr_post_bundles_cached r)
     @ write_opt_rest (gr_post_bundle r)"

definition get_post_bundle_response_from_bytes :: "payload_json \<Rightarrow> bytes \<Rightarrow> get_post_bundle_response res" where
  "get_post_bundle_response_from_bytes J bs =
     rbind (read_length_prefixed_json (pj_peers J) bs) (\<lambda>(peers_nearer, b1).
     rbind (read_opt_token (pj_cache_token J) b1) (\<lambda>(token, b2).
     rbind (ensure (length b2 \<ge> 2) ''Missing post_bundles_cached count'') (\<lambda>_.
     rbind (get_be 2 b2) (\<lambda>(cached_count, b3).
     rbind (read_entries cached_count b3) (\<lambda>(cached, b4).
     rbind (read_opt_rest b4) (\<lambda>post_bundle.
       Inr \<lparr>gr_peers_nearer = peers_nearer, gr_cache_request_token = token, gr_post_bundles_cached = cached,
            gr_post_bundle = post_bundle\<rparr>))))))"

record get_post_bundle_feedback_response =
  gf_peers_nearer :: "peer list"
  gf_cache_request_token :: "cache_request_token option"
  gf_post_bundle_feedbacks_cached :: "bytes list"
  gf_encoded_post_bundle_feedback :: "bytes option"

definition get_feedback_response_to_bytes :: "payload_json \<Rightarrow> get_post_bundle_feedback_response \<Rightarrow> bytes" where
  "get_feedback_response_to_bytes J r =
     write_length_prefixed_json (pj_peers J) [] (gf_peers_nearer r)
     @ write_opt_token (pj_cache_token J) (gf_cache_request_token r)
     @ be_bytes 2 (length (gf_post_bundle_feedbacks_cached r)) @ write_entries (gf_post_bundle_feedbacks_cached r)
     @ write_opt_rest (gf_encoded_post_bundle_feedback r)"

definition get_feedback_response_from_bytes :: "payload_json \<Rightarrow> bytes \<Rightarrow> get_post_bundle_feedback_response res" where
  "get_feedback_response_from_bytes J bs =
     rbind (read_length_prefixed_json (pj_peers J) bs) (\<lambda>(peers_nearer, b1).
     rbind (read_opt_token (pj_cache_token J) b1) (\<lambda>(token, b2).
     rbind (ensure (length b2 \<ge> 2) ''Missing post_bundle_feedbacks_cached count'') (\<lambda>_.
     rbind (get_be 2 b2) (\<lambda>(cached_count, b3).
     rbind (read_entries cached_count b3) (\<lambda>(cached, b4).
     rbind (read_opt_rest b4) (\<lambda>fb.
       Inr \<lparr>gf_peers_nearer = peers_nearer, gf_cache_request_token = token, gf_post_bundle_feedbacks_cached = cached,
            gf_encoded_post_bundle_feedback = fb\<rparr>))))))"

record submit_post_claim =
  sc_bucket_location :: bucket_location
  sc_referenced_post_header_bytes :: "bytes option"
  sc_referenced_hashtags :: "string list"
  sc_encoded_post_bytes :: bytes

definition submit_post_claim_new_to_bytes :: "payload_json \<Rightarrow> bucket_location \<Rightarrow> bytes option \<Rightarrow> string list \<Rightarrow> bytes \<Rightarrow> bytes" where
  "submit_post_claim_new_to_bytes J b referenced hashtags post_without_body =
     write_length_prefixed_json (pj_bucket J) [] b
     @ (case referenced of Some h \<Rightarrow> be_bytes 4 (length h) @ h | None \<Rightarrow> be_bytes 4 0)
     @ write_length_prefixed_json (pj_hashtags J) [] hashtags @ post_without_body"

definition submit_post_claim_from_bytes :: "payload_json \<Rightarrow> bytes \<Rightarrow> submit_post_claim res" where
  "submit_post_claim_from_bytes J bs =
     rbind (read_length_prefixed_json (pj_bucket J) bs) (\<lambda>(b, b1).
     rbind (ensure (length b1 \<ge> 4) ''SubmitPostClaimV1: missing referenced_post_header_bytes length'') (\<lambda>_.
     rbind (get_be 4 b1) (\<lambda>(len, b2).
     rbind (if len > 0
            then rbind (ensure (length b2 \<ge> len) ''SubmitPostClaimV1: referenced_post_header_bytes length'') (\<lambda>_.
                 rbind (split_to len b2) (\<lambda>(h, b3). Inr (Some h, b3)))
            else Inr (None, b2)) (\<lambda>(referenced, b3).
     rbind (read_length_prefixed_json (pj_hashtags J) b3) (\<lambda>(hashtags, b4).
     rbind (ensure (b4 \<noteq> []) ''SubmitPostClaimV1: missing encoded_post_bytes'') (\<lambda>_.
       Inr \<lparr>sc_bucket_location = b, sc_referenced_post_header_bytes = referenced, sc_referenced_hashtags = hashtags,
            sc_encoded_post_bytes = b4\<rparr>))))))"

record submit_post_claim_response =
  scr_peers_nearer :: "peer list"
  scr_submit_post_claim_token :: "submit_post_claim_token option"

record submit_post_commit =
  sm_bucket_location :: bucket_location
  sm_submit_post_claim_token :: submit_post_claim_token
  sm_encoded_post_bytes :: bytes

definition submit_post_commit_new_to_bytes :: "payload_json \<Rightarrow> bucket_location \<Rightarrow> submit_post_claim_token \<Rightarrow> bytes \<Rightarrow> bytes" where
  "submit_post_commit_new_to_bytes J b token post_bytes =
     write_length_prefixed_json (pj_bucket J) [] b @ write_length_prefixed_json (pj_claim_token J) [] token @ post_bytes"

definition submit_post_commit_from_bytes :: "payload_json \<Rightarrow> bytes \<Rightarrow> submit_post_commit res" where
  "submit_post_commit_from_bytes J bs =
     rbind (read_length_prefixed_json (pj_bucket J) bs) (\<lambda>(b, b1).
     rbind (read_length_prefixed_json (pj_claim_token J) b1) (\<lambda>(token, b2).
       Inr \<lparr>sm_bucket_location = b, sm_submit_post_claim_token = token, sm_encoded_post_bytes = b2\<rparr>))"

record submit_post_feedback =
  sf_bucket_location :: bucket_location
  sf_encoded_post_feedback :: feedback

definition submit_post_feedback_new_to_bytes :: "payload_json \<Rightarrow> bucket_location \<Rightarrow> feedback \<Rightarrow> bytes res" where
  "submit_post_feedback_new_to_bytes J b f =
     rbind (append_encode_to_bytes [] f) (\<lambda>fb. Inr (write_length_prefixed_json (pj_bucket J) [] b @ fb))"

definition submit_post_feedback_from_bytes :: "payload_json \<Rightarrow> bytes \<Rightarrow> submit_post_feedback res" where
  "submit_post_feedback_from_bytes J bs =
     rbind (read_length_prefixed_json (pj_bucket J) bs) (\<lambda>(b, b1).
     rbind (feedback_decode_from_bytes b1) (\<lambda>f.
       Inr \<lparr>sf_bucket_location = b, sf_encoded_post_feedback = f\<rparr>))"

record heal_claim =
  hc_bucket_location :: bucket_location
  hc_donor_header :: post_bundle_header

definition heal_claim_new_to_bytes :: "payload_json \<Rightarrow> post_bundle_header \<Rightarrow> bucket_location \<Rightarrow> bytes" where
  "heal_claim_new_to_bytes J donor b =
     write_length_prefixed_json (pj_bundle_header J) (write_length_prefixed_json (pj_bucket J) [] b) donor"

definition heal_claim_from_bytes :: "payload_json \<Rightarrow> bytes \<Rightarrow> heal_claim res" where
  "heal_claim_from_bytes J bs =
     rbind (read_length_prefixed_json (pj_bucket J) bs) (\<lambda>(b, b1).
     rbind (read_length_prefixed_json (pj_bundle_header J) b1) (\<lambda>(donor, b2).
       Inr \<lparr>hc_bucket_location = b, hc_donor_header = donor\<rparr>))"

record heal_claim_response =
  hcr_needed_post_ids :: "id list"
  hcr_token :: "heal_claim_token option"

record heal_commit =
  hm_token :: heal_claim_token
  hm_donor_header :: post_bundle_header
  hm_encoded_posts_bytes :: bytes

definition heal_commit_new_to_bytes :: "payload_json \<Rightarrow> heal_claim_token \<Rightarrow> post_bundle_header \<Rightarrow> bytes \<Rightarrow> bytes" where
  "heal_commit_new_to_bytes J token donor posts =
     write_length_prefixed_json (pj_heal_token J) [] token @ write_length_prefixed_json (pj_bundle_header J) [] donor @ posts"

definition heal_commit_from_bytes :: "payload_json \<Rightarrow> bytes \<Rightarrow> heal_commit res" where
  "heal_commit_from_bytes J bs =
     rbind (read_length_prefixed_json (pj_heal_token J) bs) (\<lambda>(token, b1).
     rbind (read_length_prefixed_json (pj_bundle_header J) b1) (\<lambda>(donor, b2).
       Inr \<lparr>hm_token = token, hm_donor_header = donor, hm_encoded_posts_bytes = b2\<rparr>))"

record heal_feedback =
  hf_location_id :: id
  hf_encoded_post_feedbacks :: "feedback list"

fun append_feedbacks :: "feedback list \<Rightarrow> bytes \<Rightarrow> bytes res" where
  "append_feedbacks [] out = Inr out"
| "append_feedbacks (f # fs) out = rbind (append_encode_to_bytes out f) (append_feedbacks fs)"

definition heal_feedback_new_to_bytes :: "id \<Rightarrow> feedback list \<Rightarrow> bytes res" where
  "heal_feedback_new_to_bytes location_id feedbacks = append_feedbacks feedbacks (id_bytes location_id)"

lemma feedback_decode_buf_shorter:
  "feedback_decode_buf bs = Inr (f, rest) \<Longrightarrow> length rest < length bs"
  by (auto simp: feedback_decode_buf_def get_u8_Inr Id_from_buf_def Salt_from_buf_def from_buf_Inr)

text \<open>\<open>while bytes.has_remaining()\<close>: every vote read shortens the buffer.\<close>

function read_feedbacks :: "bytes \<Rightarrow> feedback list res" where
  "read_feedbacks bs =
     (if bs = [] then Inr []
      else case feedback_decode_buf bs of
        Inl e \<Rightarrow> Inl e
      | Inr (f, rest) \<Rightarrow> rbind (read_feedbacks rest) (\<lambda>fs. Inr (f # fs)))"
  by pat_completeness auto
termination
  by (relation "measure length") (auto dest: feedback_decode_buf_shorter)

declare read_feedbacks.simps [simp del]

definition heal_feedback_from_bytes :: "bytes \<Rightarrow> heal_feedback res" where
  "heal_feedback_from_bytes bs =
     rbind (ensure (length bs \<ge> ID_BYTES) ''Missing location_id in HealPostBundleFeedbackV1'') (\<lambda>_.
     rbind (split_to ID_BYTES bs) (\<lambda>(location_bytes, rest).
     rbind (Id_from_slice location_bytes) (\<lambda>location_id.
     rbind (read_feedbacks rest) (\<lambda>fs.
       Inr \<lparr>hf_location_id = location_id, hf_encoded_post_feedbacks = fs\<rparr>))))"

record cache_post_bundle =
  cb_token :: cache_request_token
  cb_encoded_post_bundles :: "bytes list"

definition cache_post_bundle_new_to_bytes :: "payload_json \<Rightarrow> cache_request_token \<Rightarrow> bytes list \<Rightarrow> bytes" where
  "cache_post_bundle_new_to_bytes J token bundles =
     write_length_prefixed_json (pj_cache_token J) [] token @ be_bytes 2 (length bundles) @ write_entries bundles"

definition cache_post_bundle_from_bytes :: "payload_json \<Rightarrow> bytes \<Rightarrow> cache_post_bundle res" where
  "cache_post_bundle_from_bytes J bs =
     rbind (read_length_prefixed_json (pj_cache_token J) bs) (\<lambda>(token, b1).
     rbind (ensure (length b1 \<ge> 2) ''Missing encoded_post_bundles count'') (\<lambda>_.
     rbind (get_be 2 b1) (\<lambda>(n, b2).
     rbind (read_entries n b2) (\<lambda>(bundles, rest).
       Inr \<lparr>cb_token = token, cb_encoded_post_bundles = bundles\<rparr>))))"

record cache_feedback =
  cf_token :: cache_request_token
  cf_encoded_post_bundle_feedback_bytes :: bytes

definition cache_feedback_new_to_bytes :: "payload_json \<Rightarrow> cache_request_token \<Rightarrow> bytes \<Rightarrow> bytes" where
  "cache_feedback_new_to_bytes J token fb = write_length_prefixed_json (pj_cache_token J) [] token @ fb"

definition cache_feedback_from_bytes :: "payload_json \<Rightarrow> bytes \<Rightarrow> cache_feedback res" where
  "cache_feedback_from_bytes J bs =
     rbind (read_length_prefixed_json (pj_cache_token J) bs) (\<lambda>(token, b1).
       Inr \<lparr>cf_token = token, cf_encoded_post_bundle_feedback_bytes = b1\<rparr>)"

definition fetch_url_preview_new_to_bytes :: "payload_json \<Rightarrow> string \<Rightarrow> bytes" where
  "fetch_url_preview_new_to_bytes J url = write_length_prefixed_json (pj_url J) [] url"

definition fetch_url_preview_from_bytes :: "payload_json \<Rightarrow> bytes \<Rightarrow> string res" where
  "fetch_url_preview_from_bytes J bs = rbind (read_length_prefixed_json (pj_url J) bs) (\<lambda>(u, rest). Inr u)"

definition trending_fetch_new_to_bytes :: "payload_json \<Rightarrow> nat \<Rightarrow> bytes" where
  "trending_fetch_new_to_bytes J limit = write_length_prefixed_json (pj_limit J) [] limit"

definition trending_fetch_from_bytes :: "payload_json \<Rightarrow> bytes \<Rightarrow> nat res" where
  "trending_fetch_from_bytes J bs = rbind (read_length_prefixed_json (pj_limit J) bs) (\<lambda>(l, rest). Inr l)"

definition peer_stats_signing_input :: "time_millis \<Rightarrow> bytes \<Rightarrow> bytes" where
  "peer_stats_signing_input timestamp json_compressed = time_encode_be timestamp @ json_compressed"



section \<open>Round trips\<close>

definition json_ok :: "'a codec \<Rightarrow> 'a \<Rightarrow> bool" where
  "json_ok c v \<longleftrightarrow> dec c (enc c v) = Some v \<and> length (enc c v) < 2 ^ 64"

lemma read_json_ok [wire]:
  "json_ok c v \<Longrightarrow> read_length_prefixed_json c (write_length_prefixed_json c [] v @ rest) = Inr (v, rest)"
  unfolding json_ok_def by (rule read_write_length_prefixed_json) auto

lemma read_json_ok_end [wire]:
  "json_ok c v \<Longrightarrow> read_length_prefixed_json c (write_length_prefixed_json c [] v) = Inr (v, [])"
  using read_json_ok[of c v "[]"] by simp

lemma write_json_append:
  "write_length_prefixed_json c out v = out @ write_length_prefixed_json c [] v"
  by (simp add: write_length_prefixed_json_def)

lemma read_entries_write [wire]:
  "\<forall>x \<in> set xs. length x < 4294967296 \<Longrightarrow> read_entries (length xs) (write_entries xs @ rest) = Inr (xs, rest)"
  by (induction xs) (simp_all add: get_be_append split_to_append rbind_ensure)

lemma read_opt_token_write [wire]:
  "case_option True (json_ok c) t \<Longrightarrow> read_opt_token c (write_opt_token c t @ rest) = Inr (t, rest)"
  by (cases t) (simp_all add: read_opt_token_def write_opt_token_def get_u8_Cons write_json_append[of c "[1]"] read_json_ok)

lemma read_opt_rest_write [wire]: "read_opt_rest (write_opt_rest b) = Inr b"
  by (cases b) (simp_all add: read_opt_rest_def write_opt_rest_def get_u8_Cons)

definition entries_fit :: "bytes list \<Rightarrow> bool" where
  "entries_fit xs \<longleftrightarrow> length xs < 2 ^ 16 \<and> (\<forall>x \<in> set xs. length x < 2 ^ 32)"

lemma read_counted_entries [wire]:
  assumes "entries_fit xs"
  shows "rbind (ensure (length (be_bytes 2 (length xs) @ write_entries xs @ rest) \<ge> 2) msg) (\<lambda>_.
     rbind (get_be 2 (be_bytes 2 (length xs) @ write_entries xs @ rest)) (\<lambda>(n, b). rbind (read_entries n b) f))
     = f (xs, rest)"
  using assms by (simp add: entries_fit_def get_be_append read_entries_write)

lemma get_response_roundtrip:
  assumes "json_ok (pj_peers J) (gr_peers_nearer r)"
    and "case_option True (json_ok (pj_cache_token J)) (gr_cache_request_token r)"
    and "entries_fit (gr_post_bundles_cached r)"
  shows "get_post_bundle_response_from_bytes J (get_post_bundle_response_to_bytes J r) = Inr r"
  using assms unfolding get_post_bundle_response_from_bytes_def get_post_bundle_response_to_bytes_def
  by (simp add: read_json_ok read_opt_token_write entries_fit_def get_be_append read_entries_write read_opt_rest_write)

lemma get_feedback_response_roundtrip:
  assumes "json_ok (pj_peers J) (gf_peers_nearer r)"
    and "case_option True (json_ok (pj_cache_token J)) (gf_cache_request_token r)"
    and "entries_fit (gf_post_bundle_feedbacks_cached r)"
  shows "get_feedback_response_from_bytes J (get_feedback_response_to_bytes J r) = Inr r"
  using assms unfolding get_feedback_response_from_bytes_def get_feedback_response_to_bytes_def
  by (simp add: read_json_ok read_opt_token_write entries_fit_def get_be_append read_entries_write read_opt_rest_write)

text \<open>a post claim survives the wire up to one identification: a referenced header that is
  present but empty is read back as absent, and a claim without a post is refused.\<close>

theorem submit_post_claim_roundtrip:
  assumes "json_ok (pj_bucket J) b" "json_ok (pj_hashtags J) hashtags"
    and "case referenced of None \<Rightarrow> True | Some h \<Rightarrow> length h < 2 ^ 32"
  shows "submit_post_claim_from_bytes J (submit_post_claim_new_to_bytes J b referenced hashtags post) =
     (if post = [] then Inl (Bail ''SubmitPostClaimV1: missing encoded_post_bytes'')
      else Inr \<lparr>sc_bucket_location = b,
                sc_referenced_post_header_bytes = (if referenced = Some [] then None else referenced),
                sc_referenced_hashtags = hashtags, sc_encoded_post_bytes = post\<rparr>)"
  using assms
  by (cases referenced)
    (auto simp: submit_post_claim_from_bytes_def submit_post_claim_new_to_bytes_def read_json_ok read_json_ok_end get_be_append
      split_to_append rbind_ensure)

text \<open>the bodies of the two-phase protocols and of the cache uploads survive the wire.\<close>

theorem two_phase_bodies_roundtrip:
  assumes "json_ok (pj_bucket J) b" "json_ok (pj_claim_token J) ct" "json_ok (pj_heal_token J) ht"
    and "json_ok (pj_bundle_header J) donor" "json_ok (pj_cache_token J) kt" "entries_fit bundles"
  shows "submit_post_commit_from_bytes J (submit_post_commit_new_to_bytes J b ct x) =
      Inr \<lparr>sm_bucket_location = b, sm_submit_post_claim_token = ct, sm_encoded_post_bytes = x\<rparr>
    \<and> heal_claim_from_bytes J (heal_claim_new_to_bytes J donor b) = Inr \<lparr>hc_bucket_location = b, hc_donor_header = donor\<rparr>
    \<and> heal_commit_from_bytes J (heal_commit_new_to_bytes J ht donor x) =
      Inr \<lparr>hm_token = ht, hm_donor_header = donor, hm_encoded_posts_bytes = x\<rparr>
    \<and> cache_post_bundle_from_bytes J (cache_post_bundle_new_to_bytes J kt bundles) =
      Inr \<lparr>cb_token = kt, cb_encoded_post_bundles = bundles\<rparr>
    \<and> cache_feedback_from_bytes J (cache_feedback_new_to_bytes J kt x) =
      Inr \<lparr>cf_token = kt, cf_encoded_post_bundle_feedback_bytes = x\<rparr>"
proof -
  have "read_entries (length bundles) (write_entries bundles) = Inr (bundles, [])"
    using read_entries_write[of bundles "[]"] assms(6) by (simp add: entries_fit_def)
  then show ?thesis
    using assms(6)
    by (simp add: submit_post_commit_from_bytes_def submit_post_commit_new_to_bytes_def heal_claim_from_bytes_def
        heal_claim_new_to_bytes_def write_json_append[of _ "write_length_prefixed_json _ _ _"]
        heal_commit_from_bytes_def heal_commit_new_to_bytes_def cache_post_bundle_from_bytes_def
        cache_post_bundle_new_to_bytes_def cache_feedback_from_bytes_def cache_feedback_new_to_bytes_def
        read_json_ok[OF assms(1)] read_json_ok[OF assms(2)] read_json_ok[OF assms(3)] read_json_ok[OF assms(4)]
        read_json_ok[OF assms(5)] read_json_ok_end[OF assms(4)] get_be_append entries_fit_def)
qed

lemma append_feedbacks_wf:
  "list_all wf_feedback fs \<Longrightarrow> append_feedbacks fs out = Inr (out @ concat (map feedback_encode_to_bytes fs))"
  by (induction fs arbitrary: out) (simp_all add: append_encode_wf)

lemma read_feedbacks_encoded:
  "list_all wf_feedback fs \<Longrightarrow> read_feedbacks (concat (map feedback_encode_to_bytes fs)) = Inr fs"
proof (induction fs)
  case Nil then show ?case by (simp add: read_feedbacks.simps)
next
  case (Cons f fs)
  have "feedback_encode_to_bytes f \<noteq> []" by (simp add: feedback_encode_to_bytes_def)
  with Cons show ?case by (subst read_feedbacks.simps) (simp add: feedback_decode_buf_encode)
qed

text \<open>healing feedback survives the wire: the votes are read until the buffer is empty, and a
  truncated last vote is an error instead of being dropped.\<close>

theorem heal_feedback_roundtrip:
  assumes "wf_id location_id" "list_all wf_feedback fs"
  shows "rbind (heal_feedback_new_to_bytes location_id fs) heal_feedback_from_bytes =
      Inr \<lparr>hf_location_id = location_id, hf_encoded_post_feedbacks = fs\<rparr>
    \<and> length (id_bytes location_id @ concat (map feedback_encode_to_bytes fs)) = 32 + 43 * length fs"
proof -
  have "Id_from_slice (id_bytes location_id) = Inr location_id"
    using assms(1) by (cases location_id) (simp add: from_slice_Inr wf_newtypes)
  moreover have "length (concat (map feedback_encode_to_bytes fs)) = 43 * length fs"
    using assms(2) by (induction fs) (simp_all add: entry_offsets)
  ultimately show ?thesis
    using assms
    by (simp add: heal_feedback_new_to_bytes_def append_feedbacks_wf heal_feedback_from_bytes_def wf_newtypes byte_counts
        split_to_append read_feedbacks_encoded)
qed

lemma write_entries_replicate_Nil: "write_entries (replicate n []) = replicate (4 * n) 0"
proof (induction n)
  case (Suc n)
  have "be_bytes 4 0 = replicate 4 0" by code_simp
  with Suc show ?case by (simp only: write_entries.simps replicate_Suc mult_Suc_right replicate_add list.size append_Nil)
qed simp

text \<open>responses survive the wire while they list fewer than 65536 bundles below 4 GiB. The count is cast
  to \<open>u16\<close>: a response with 65536 (empty) bundles and a primary one is read back without any of them.\<close>

theorem get_response_count_wraps:
  assumes "json_ok (pj_peers J) (gr_peers_nearer r)"
    and "case_option True (json_ok (pj_cache_token J)) (gr_cache_request_token r)"
  shows "(entries_fit (gr_post_bundles_cached r) \<longrightarrow>
       get_post_bundle_response_from_bytes J (get_post_bundle_response_to_bytes J r) = Inr r)
    \<and> (gr_post_bundles_cached r = replicate 65536 [] \<longrightarrow>
       get_post_bundle_response_from_bytes J (get_post_bundle_response_to_bytes J r) =
         Inr (r\<lparr>gr_post_bundles_cached := [], gr_post_bundle := None\<rparr>))"
proof (intro conjI impI)
  assume "gr_post_bundles_cached r = replicate 65536 []"
  moreover obtain zs :: bytes where "replicate (4 * 65536) (0 :: byte) = 0 # zs"
    using replicate_Suc[of "4 * 65536 - 1" "0 :: byte"] by (metis Suc_diff_1 zero_less_numeral mult_pos_pos)
  ultimately show "get_post_bundle_response_from_bytes J (get_post_bundle_response_to_bytes J r) =
         Inr (r\<lparr>gr_post_bundles_cached := [], gr_post_bundle := None\<rparr>)"
    using assms write_entries_replicate_Nil[of 65536]
    unfolding get_post_bundle_response_from_bytes_def get_post_bundle_response_to_bytes_def
    by (simp add: read_json_ok read_opt_token_write get_be_append read_opt_rest_def get_u8_Cons
        del: replicate.simps)
qed (use assms in \<open>simp add: get_response_roundtrip\<close>)

end
