(* ===== verification/Rpc.thy ===== *)
theory Rpc
  imports Payload
begin

unbundle bit_operations_syntax

text \<open>
  \<open>protocol/rpc/rpc_request.rs\<close>, \<open>rpc_response.rs\<close> and \<open>rpc.rs\<close>: the envelope of every call. The
  request carries a proof of work over the destination's keys, the response the server's identity
  and a signature of the request's content hash. \<open>bitflags\<close> values are bytes.
\<close>

definition REQ_COMPRESSED :: byte where "REQ_COMPRESSED = 1"
definition REQ_SERVER_KNOWN :: byte where "REQ_SERVER_KNOWN = 2"
definition RESP_COMPRESSED :: byte where "RESP_COMPRESSED = 1"

definition flags_contain :: "byte \<Rightarrow> byte \<Rightarrow> bool" where
  "flags_contain flags f \<longleftrightarrow> flags AND f = f"

definition request_flags_from_bits :: "byte \<Rightarrow> byte option" where
  "request_flags_from_bits b = (if b AND NOT (REQ_COMPRESSED OR REQ_SERVER_KNOWN) = 0 then Some b else None)"

definition response_flags_from_bits :: "byte \<Rightarrow> byte option" where
  "response_flags_from_bits b = (if b AND NOT RESP_COMPRESSED = 0 then Some b else None)"

section \<open>Requests\<close>

record rpc_request_tx =
  rq_pow_content_hash :: hash
  rq_bytes :: bytes

definition rpc_request_header :: "byte \<Rightarrow> request_kind \<Rightarrow> id \<Rightarrow> time_millis \<Rightarrow> hash \<Rightarrow> salt \<Rightarrow> bytes" where
  "rpc_request_header flags kind sponsor timestamp content_hash s =
     [1, flags] @ le_bytes 2 (request_kind_u16 kind) @ id_bytes sponsor @ time_encode_be timestamp
     @ hash_bytes content_hash @ salt_bytes s"

definition rpc_request_encode :: "crypto \<Rightarrow> compressor \<Rightarrow> pow_search \<Rightarrow> time_millis \<Rightarrow> pow \<Rightarrow> byte \<Rightarrow> request_kind
    \<Rightarrow> id \<Rightarrow> verification_key_bytes \<Rightarrow> pq_commitment_bytes \<Rightarrow> bytes \<Rightarrow> rpc_request_tx res" where
  "rpc_request_encode C Z gen now pow_min flags kind sponsor vkb pqcb payload_uncompressed =
     rbind (if flags_contain flags REQ_COMPRESSED
            then rbind (compress_for_speed Z payload_uncompressed) (\<lambda>g. Inr (g_to_bytes g))
            else Inr payload_uncompressed) (\<lambda>payload_compressed.
       if length payload_compressed > PROTOCOL_MAX_BLOB_SIZE_REQUEST
       then Inl (Bail ''request payload size exceeds maximum allowed size'')
       else let pow_content_hash = hashing_hash C payload_compressed in
         rbind (server_pow_generate C gen now pow_min sponsor vkb pqcb pow_content_hash) (\<lambda>(pow_timestamp, pow_salt, p, h).
           Inr \<lparr>rq_pow_content_hash = pow_content_hash,
                rq_bytes = rpc_request_header flags kind sponsor pow_timestamp pow_content_hash pow_salt
                  @ le_bytes 4 (length payload_compressed) @ payload_compressed\<rparr>))"

record rpc_request_rx =
  rx_payload_request_kind :: request_kind
  rx_pow_sponsor_id :: id
  rx_pow_server_known :: bool
  rx_pow :: pow
  rx_pow_timestamp :: time_millis
  rx_pow_content_hash :: hash
  rx_pow_salt :: salt
  rx_bytes :: bytes

definition rpc_request_header_len :: nat where
  "rpc_request_header_len = 1 + 1 + 2 + ID_BYTES + 8 + HASH_BYTES + SALT_BYTES + 4"

definition take_fixed :: "nat \<Rightarrow> (bytes \<Rightarrow> 'a res) \<Rightarrow> 'a reader" where
  "take_fixed n conv buf = rbind (split_to n buf) (\<lambda>(x, rest). rbind (conv x) (\<lambda>v. Inr (v, rest)))"

text \<open>The work measured for the server itself, or for the zero keys of a server not yet known.\<close>

definition measure_request_pow :: "crypto \<Rightarrow> byte \<Rightarrow> verification_key_bytes \<Rightarrow> pq_commitment_bytes \<Rightarrow> id \<Rightarrow> bytes
    \<Rightarrow> hash \<Rightarrow> salt \<Rightarrow> (pow \<times> bool) res" where
  "measure_request_pow C flags vkb pqcb sponsor timestamp_bytes content_hash s =
     (if flags_contain flags REQ_SERVER_KNOWN
      then rbind (server_pow_measure C sponsor vkb pqcb timestamp_bytes content_hash s) (\<lambda>(p, h).
             if p < POW_MINIMUM_PER_RPC_SERVER_KNOWN then Inl (Bail ''Client has not done enough known pow'')
             else Inr (p, True))
      else rbind (server_pow_measure C sponsor VerificationKeyBytes_zero PQCommitmentBytes_zero timestamp_bytes content_hash s)
             (\<lambda>(p, h).
             if p < POW_MINIMUM_PER_RPC_SERVER_UNKNOWN then Inl (Bail ''Client has not done enough unknown pow'')
             else Inr (p, False)))"

definition read_payload :: "nat \<Rightarrow> bytes \<Rightarrow> bytes res" where
  "read_payload max_size buf =
     rbind (get_le 4 buf) (\<lambda>(payload_len, b).
       if payload_len > max_size then Inl (Bail ''payload too large'')
       else if length b < payload_len then Inl (Bail ''too short for payload'')
       else rbind (split_to payload_len b) (\<lambda>(payload, rest).
         if rest \<noteq> [] then Inl (Bail ''too long'') else Inr payload))"

definition rpc_request_decode :: "crypto \<Rightarrow> compressor \<Rightarrow> time_millis \<Rightarrow> verification_key_bytes \<Rightarrow> pq_commitment_bytes
    \<Rightarrow> bytes \<Rightarrow> rpc_request_rx res" where
  "rpc_request_decode C Z current_time vkb pqcb bs =
     (if length bs < rpc_request_header_len then Inl (Bail ''RpcRequestPacket is too short for header'') else
      rbind (get_u8 bs) (\<lambda>(version, b0).
      rbind (ensure (1 = version) ''Unsupported RpcRequestPacket version'') (\<lambda>_.
      rbind (get_u8 b0) (\<lambda>(flag_bits, b1).
      rbind (of_option ''Invalid RpcRequestPacket flags'' (request_flags_from_bits flag_bits)) (\<lambda>flags.
      rbind (get_le 2 b1) (\<lambda>(kind_u16, b2).
      rbind (PayloadRequestKind_from_u16 kind_u16) (\<lambda>kind.
      rbind (take_fixed ID_BYTES Id_from_slice b2) (\<lambda>(sponsor, b3).
      rbind (take_fixed 8 TimeMillisBytes_from_bytes b3) (\<lambda>(timestamp_bytes, b4).
      rbind (take_fixed HASH_BYTES Hash_from_slice b4) (\<lambda>(content_hash, b5).
      rbind (take_fixed SALT_BYTES Salt_from_slice b5) (\<lambda>(s, b6).
      let pow_timestamp = timestamp_decode_be timestamp_bytes in
      rbind (duration_abs (time_sub current_time pow_timestamp)) (\<lambda>delta.
      rbind (ensure (delta \<le> POW_MAX_CLOCK_DRIFT_MILLIS) ''Client pow clock drift too large'') (\<lambda>_.
      rbind (measure_request_pow C flags vkb pqcb sponsor timestamp_bytes content_hash s) (\<lambda>(p, known).
      rbind (read_payload PROTOCOL_MAX_BLOB_SIZE_REQUEST b6) (\<lambda>payload.
      rbind (if flags_contain flags REQ_COMPRESSED
             then rbind (decompress Z payload) (\<lambda>g. Inr (g_to_bytes g)) else Inr payload) (\<lambda>decompressed.
        Inr \<lparr>rx_payload_request_kind = kind, rx_pow_sponsor_id = sponsor, rx_pow_server_known = known, rx_pow = p,
             rx_pow_timestamp = pow_timestamp, rx_pow_content_hash = content_hash, rx_pow_salt = s,
             rx_bytes = decompressed\<rparr>))))))))))))))))"


section \<open>Responses\<close>

definition rpc_response_encode :: "crypto \<Rightarrow> compressor \<Rightarrow> signature_key \<Rightarrow> verification_key_bytes \<Rightarrow> pq_commitment_bytes
    \<Rightarrow> id \<Rightarrow> time_millis \<Rightarrow> hash \<Rightarrow> salt \<Rightarrow> hash \<Rightarrow> byte \<Rightarrow> response_kind \<Rightarrow> gatherer \<Rightarrow> gatherer res" where
  "rpc_response_encode C Z sk vkb pqcb sponsor timestamp h s pow_content_hash flags kind payload_uncompressed =
     rbind (if flags_contain flags RESP_COMPRESSED
            then compress_for_speed Z (g_to_bytes payload_uncompressed)
            else Inr payload_uncompressed) (\<lambda>payload_compressed.
       let payload_compressed_len = g_len payload_compressed in
       if payload_compressed_len > PROTOCOL_MAX_BLOB_SIZE_RESPONSE
       then Inl (Bail ''response payload size exceeds maximum allowed size'')
       else let pow_content_hash_signature = signing_sign C sk (hash_bytes pow_content_hash) in
         Inr (put_bytes_gatherer payload_compressed
             (put_u32_le payload_compressed_len
             (put_slice (signature_bytes pow_content_hash_signature)
             (put_slice (salt_bytes s)
             (put_slice (hash_bytes h)
             (put_slice (time_encode_be timestamp)
             (put_slice (id_bytes sponsor)
             (put_slice (pqc_bytes pqcb)
             (put_slice (vkb_bytes vkb)
             (put_u16_le (response_kind_u16 kind)
             (put_u8 flags
             (put_u8 1 g_default)))))))))))))"

record rpc_response_rx =
  rr_response_request_kind :: response_kind
  rr_bytes :: bytes

definition rpc_response_header_len :: nat where
  "rpc_response_header_len = 1 + 1 + 2 + VERIFICATION_KEY_BYTES + PQ_COMMITMENT_BYTES + ID_BYTES + 8 + HASH_BYTES
     + SALT_BYTES + SIGNATURE_BYTES + 4"

text \<open>\<open>try_into\<close> of a slice into an array of its own length cannot fail.\<close>

definition rpc_response_decode :: "crypto \<Rightarrow> compressor \<Rightarrow> id \<Rightarrow> hash \<Rightarrow> pow \<Rightarrow> bytes \<Rightarrow> rpc_response_rx res" where
  "rpc_response_decode C Z destination_id pow_content_hash pow_min bs =
     (if length bs < rpc_response_header_len then Inl (Bail ''RpcResponsePacket is too short for header'') else
      rbind (get_u8 bs) (\<lambda>(version, b0).
      rbind (ensure (1 = version) ''Unsupported RpcRequestPacket version'') (\<lambda>_.
      rbind (get_u8 b0) (\<lambda>(flag_bits, b1).
      rbind (of_option ''Invalid RpcResponsePacket flags'' (response_flags_from_bits flag_bits)) (\<lambda>flags.
      rbind (get_le 2 b1) (\<lambda>(kind_u16, b2).
      rbind (PayloadResponseKind_from_u16 kind_u16) (\<lambda>kind.
      rbind (split_to VERIFICATION_KEY_BYTES b2) (\<lambda>(vkb, b3).
      rbind (split_to PQ_COMMITMENT_BYTES b3) (\<lambda>(pqcb, b4).
      rbind (split_to ID_BYTES b4) (\<lambda>(sponsor, b5).
      rbind (split_to 8 b5) (\<lambda>(timestamp_bytes, b6).
      rbind (split_to HASH_BYTES b6) (\<lambda>(h, b7).
      rbind (split_to SALT_BYTES b7) (\<lambda>(s, b8).
      rbind (split_to SIGNATURE_BYTES b8) (\<lambda>(sig, b9).
      rbind (read_payload PROTOCOL_MAX_BLOB_SIZE_RESPONSE b9) (\<lambda>payload.
      rbind (server_pow_measure C (Id sponsor) (VerificationKeyBytes vkb) (PQCommitmentBytes pqcb) timestamp_bytes
               (Hash h) (Salt s)) (\<lambda>(p, pow_hash).
      rbind (ensure (\<not> p < pow_min) ''Server ID pow is not sufficient'') (\<lambda>_.
      rbind (server_pow_hash_to_id pow_hash) (\<lambda>i.
      rbind (ensure (i = destination_id \<or> Id_is_zero destination_id) ''Server ID verification failed'') (\<lambda>_.
      rbind (VerificationKey_from_bytes C (VerificationKeyBytes vkb)) (\<lambda>vk.
      rbind (signing_verify C vk (Signature sig) (hash_bytes pow_content_hash)) (\<lambda>_.
      rbind (if flags_contain flags RESP_COMPRESSED
             then rbind (decompress Z payload) (\<lambda>g. Inr (g_to_bytes g)) else Inr payload) (\<lambda>decompressed.
        Inr \<lparr>rr_response_request_kind = kind, rr_bytes = decompressed\<rparr>))))))))))))))))))))))"

section \<open>Calls\<close>

text \<open>\<open>rpc_server_xxx\<close>: the transport is a function from address and request to the response bytes.\<close>

record runtime_services =
  rs_crypto :: crypto
  rs_compressor :: compressor
  rs_now :: time_millis
  rs_pow_search :: pow_search
  rs_transport :: "string \<Rightarrow> bytes \<Rightarrow> bytes res"
  rs_error_json :: "error_response codec"

definition rpc_server_xxx :: "runtime_services \<Rightarrow> pow \<Rightarrow> byte \<Rightarrow> id \<Rightarrow> string \<Rightarrow> id \<Rightarrow> verification_key_bytes
    \<Rightarrow> pq_commitment_bytes \<Rightarrow> request_kind \<Rightarrow> bytes \<Rightarrow> rpc_response_rx res" where
  "rpc_server_xxx R pow_min flags sponsor address dest_id vkb pqcb kind payload =
     rbind (rpc_request_encode (rs_crypto R) (rs_compressor R) (rs_pow_search R) (rs_now R) pow_min flags kind sponsor
              vkb pqcb payload) (\<lambda>request.
     rbind (rs_transport R address (rq_bytes request)) (\<lambda>response_bytes.
     rbind (rpc_response_decode (rs_crypto R) (rs_compressor R) dest_id (rq_pow_content_hash request) SERVER_KEY_POW_MIN
              response_bytes) (\<lambda>response.
       if rr_response_request_kind response = ErrorResponseV1
       then rbind (of_option ''json'' (dec (rs_error_json R) (rr_bytes response))) (\<lambda>e. Inl (Bail ''server error''))
       else Inr response)))"

definition rpc_server_unknown :: "runtime_services \<Rightarrow> id \<Rightarrow> string \<Rightarrow> request_kind \<Rightarrow> bytes \<Rightarrow> rpc_response_rx res" where
  "rpc_server_unknown R sponsor address kind payload =
     rpc_server_xxx R POW_MINIMUM_PER_RPC_SERVER_UNKNOWN REQ_COMPRESSED sponsor address Id_zero
       VerificationKeyBytes_zero PQCommitmentBytes_zero kind payload"

definition rpc_to_peer :: "runtime_services \<Rightarrow> pow \<Rightarrow> byte \<Rightarrow> id \<Rightarrow> peer \<Rightarrow> request_kind \<Rightarrow> bytes \<Rightarrow> rpc_response_rx res" where
  "rpc_to_peer R pow_min flags sponsor peer kind payload =
     rpc_server_xxx R pow_min flags sponsor (p_address peer) (p_id peer) (p_verification_key_bytes peer)
       (p_pq_commitment_bytes peer) kind payload"

definition rpc_server_known :: "runtime_services \<Rightarrow> id \<Rightarrow> peer \<Rightarrow> request_kind \<Rightarrow> bytes \<Rightarrow> rpc_response_rx res" where
  "rpc_server_known R sponsor peer kind payload =
     rpc_to_peer R POW_MINIMUM_PER_RPC_SERVER_KNOWN (REQ_COMPRESSED OR REQ_SERVER_KNOWN) sponsor peer kind payload"

definition rpc_server_known_with_no_compression :: "runtime_services \<Rightarrow> id \<Rightarrow> peer \<Rightarrow> request_kind \<Rightarrow> bytes \<Rightarrow> rpc_response_rx res" where
  "rpc_server_known_with_no_compression R sponsor peer kind payload =
     rpc_to_peer R POW_MINIMUM_PER_RPC_SERVER_KNOWN REQ_SERVER_KNOWN sponsor peer kind payload"

definition rpc_server_known_with_requisite_pow :: "runtime_services \<Rightarrow> id \<Rightarrow> peer \<Rightarrow> request_kind \<Rightarrow> bytes \<Rightarrow> pow
    \<Rightarrow> rpc_response_rx res" where
  "rpc_server_known_with_requisite_pow R sponsor peer kind payload requisite_pow =
     rpc_to_peer R requisite_pow (REQ_COMPRESSED OR REQ_SERVER_KNOWN) sponsor peer kind payload"

definition rpc_server_known_with_requisite_pow_and_no_compression :: "runtime_services \<Rightarrow> id \<Rightarrow> peer \<Rightarrow> request_kind
    \<Rightarrow> bytes \<Rightarrow> pow \<Rightarrow> rpc_response_rx res" where
  "rpc_server_known_with_requisite_pow_and_no_compression R sponsor peer kind payload requisite_pow =
     rpc_to_peer R requisite_pow REQ_SERVER_KNOWN sponsor peer kind payload"


section \<open>The request envelope\<close>

lemma request_flags_values:
  "request_flags_from_bits b = Some f \<longleftrightarrow> f = b \<and> b \<in> {0, 1, 2, 3}"
proof -
  have "list_all (\<lambda>n. let b = word_of_nat n :: byte in
      (b AND NOT (REQ_COMPRESSED OR REQ_SERVER_KNOWN) = 0) = (b = 0 \<or> b = 1 \<or> b = 2 \<or> b = 3)) [0..<256]"
    by code_simp
  then have "b AND NOT (REQ_COMPRESSED OR REQ_SERVER_KNOWN) = 0 \<longleftrightarrow> b = 0 \<or> b = 1 \<or> b = 2 \<or> b = 3"
    using byte_less[of b] by (auto simp: list_all_iff Let_def dest!: bspec[of _ _ "unat b"])
  then show ?thesis by (auto simp: request_flags_from_bits_def)
qed

lemma request_kind_le2 [simp]: "le_nat (le_bytes 2 (request_kind_u16 k)) = request_kind_u16 k"
  using request_kind_u16_less[of k] by (simp add: PAYLOAD_REQUEST_KIND_COUNT_def)

lemma response_kind_le2 [simp]: "le_nat (le_bytes 2 (response_kind_u16 k)) = response_kind_u16 k"
  using response_kind_u16_less[of k] by simp

lemma take_fixed_wf [wire]:
  assumes "length x = n" "conv x = Inr v"
  shows "take_fixed n conv (x @ rest) = Inr (v, rest)"
  using assms by (simp add: take_fixed_def split_to_append)

lemma take_fixed_Inr: "take_fixed n conv buf = Inr (v, rest) \<longleftrightarrow> (\<exists>x. length x = n \<and> buf = x @ rest \<and> conv x = Inr v)"
  by (auto simp: take_fixed_def split_to_Inr)

lemma TimeMillisBytes_8 [simp]: "length x = 8 \<Longrightarrow> TimeMillisBytes_from_bytes x = Inr x"
  by (simp add: TimeMillisBytes_from_bytes_def)

definition wf_request_header :: "byte \<Rightarrow> id \<Rightarrow> time_millis \<Rightarrow> hash \<Rightarrow> salt \<Rightarrow> bool" where
  "wf_request_header flags sponsor timestamp h s \<longleftrightarrow>
     flags \<in> {0, 1, 2, 3} \<and> wf_id sponsor \<and> in_i64 timestamp \<and> wf_hash h \<and> wf_salt s"

text \<open>The checks that decoding makes once the header is parsed.\<close>

definition request_checks :: "crypto \<Rightarrow> compressor \<Rightarrow> time_millis \<Rightarrow> verification_key_bytes \<Rightarrow> pq_commitment_bytes
    \<Rightarrow> byte \<Rightarrow> request_kind \<Rightarrow> id \<Rightarrow> time_millis \<Rightarrow> hash \<Rightarrow> salt \<Rightarrow> bytes \<Rightarrow> rpc_request_rx res" where
  "request_checks C Z now vkb pqcb flags kind sponsor timestamp h s tail_bytes =
      rbind (duration_abs (time_sub now timestamp)) (\<lambda>delta.
      rbind (ensure (delta \<le> POW_MAX_CLOCK_DRIFT_MILLIS) ''Client pow clock drift too large'') (\<lambda>_.
      rbind (measure_request_pow C flags vkb pqcb sponsor (time_encode_be timestamp) h s) (\<lambda>(p, known).
      rbind (read_payload PROTOCOL_MAX_BLOB_SIZE_REQUEST tail_bytes) (\<lambda>payload.
      rbind (if flags_contain flags REQ_COMPRESSED
             then rbind (decompress Z payload) (\<lambda>g. Inr (g_to_bytes g)) else Inr payload) (\<lambda>decompressed.
        Inr \<lparr>rx_payload_request_kind = kind, rx_pow_sponsor_id = sponsor, rx_pow_server_known = known, rx_pow = p,
             rx_pow_timestamp = timestamp, rx_pow_content_hash = h, rx_pow_salt = s,
             rx_bytes = decompressed\<rparr>)))))"

lemma rpc_request_decode_header:
  assumes "wf_request_header flags sponsor timestamp h s" "4 \<le> length tail_bytes"
  shows "rpc_request_decode C Z now vkb pqcb (rpc_request_header flags kind sponsor timestamp h s @ tail_bytes)
    = request_checks C Z now vkb pqcb flags kind sponsor timestamp h s tail_bytes"
proof -
  have w: "length (id_bytes sponsor) = ID_BYTES" "length (hash_bytes h) = HASH_BYTES" "length (salt_bytes s) = SALT_BYTES"
      "request_flags_from_bits flags = Some flags"
    using assms(1) request_flags_values[of flags flags] by (auto simp: wf_request_header_def wf_newtypes)
  have kind: "get_le 2 (le_bytes 2 (request_kind_u16 kind) @ r) = Inr (request_kind_u16 kind, r)" for r
    using request_kind_u16_less[of kind] by (simp add: get_le_append PAYLOAD_REQUEST_KIND_COUNT_def)
  have "rpc_request_header_len \<le> length (rpc_request_header flags kind sponsor timestamp h s @ tail_bytes)"
    using w assms(2) by (simp add: rpc_request_header_len_def rpc_request_header_def)
  then show ?thesis
    using assms w
    by (simp add: rpc_request_decode_def rpc_request_header_def get_u8_Cons kind request_kind_roundtrip
        take_fixed_wf from_slice_wf time_decode_encode wf_request_header_def request_checks_def Let_def)
qed

text \<open>What an accepted packet guarantees.\<close>

lemma rpc_request_decode_sound:
  assumes "rpc_request_decode C Z now vkb pqcb bs = Inr r"
  shows "\<exists>flags timestamp_bytes delta. timestamp_decode_be timestamp_bytes = rx_pow_timestamp r
    \<and> duration_abs (time_sub now (rx_pow_timestamp r)) = Inr delta \<and> delta \<le> POW_MAX_CLOCK_DRIFT_MILLIS
    \<and> measure_request_pow C flags vkb pqcb (rx_pow_sponsor_id r) timestamp_bytes (rx_pow_content_hash r) (rx_pow_salt r)
       = Inr (rx_pow r, rx_pow_server_known r)"
  using assms
  apply (clarsimp simp: rpc_request_decode_def Let_def split: if_splits)
  subgoal for b0 fb b1 flags ku b2 kind sponsor b3 tsb b4 h b5 s b6 delta
    by (cases "flags_contain flags REQ_COMPRESSED"; rule exI[of _ flags]; rule exI[of _ tsb]) auto
  done

lemma measure_request_pow_Inr:
  "measure_request_pow C flags vkb pqcb sponsor tsb h s = Inr (p, known) \<longleftrightarrow>
     (\<exists>hh. server_pow_measure C sponsor (if known then vkb else VerificationKeyBytes_zero)
        (if known then pqcb else PQCommitmentBytes_zero) tsb h s = Inr (p, hh))
     \<and> known = flags_contain flags REQ_SERVER_KNOWN
     \<and> (if known then POW_MINIMUM_PER_RPC_SERVER_KNOWN else POW_MINIMUM_PER_RPC_SERVER_UNKNOWN) \<le> p"
  by (cases known) (auto simp: measure_request_pow_def linorder_not_less split: if_splits dest!: leD intro!: exI[of _ p])

lemma time_sub_bounded:
  assumes "duration_abs (time_sub now t) = Inr delta" "delta \<le> POW_MAX_CLOCK_DRIFT_MILLIS"
  shows "\<bar>now - t\<bar> \<le> 300000"
  using assms
  by (auto simp: duration_abs_def time_sub_def sat_i64_def bundle_limits I64_MIN_def I64_MAX_def split: if_splits)

text \<open>what an accepted request guarantees: its timestamp is within five minutes of the server's clock, and its
  work, measured over the sponsor, this server's keys (or the zero keys), the timestamp, the content hash and the
  salt, reaches the minimum, which is higher when the server was not known to the caller.\<close>

theorem rpc_request_accepted:
  assumes "rpc_request_decode C Z now vkb pqcb bs = Inr r"
  shows "\<bar>now - rx_pow_timestamp r\<bar> \<le> 300000
    \<and> (if rx_pow_server_known r then 16 \<le> rx_pow r else 18 \<le> rx_pow r)
    \<and> (\<exists>timestamp_bytes h. timestamp_decode_be timestamp_bytes = rx_pow_timestamp r \<and>
         server_pow_measure C (rx_pow_sponsor_id r) (if rx_pow_server_known r then vkb else VerificationKeyBytes_zero)
           (if rx_pow_server_known r then pqcb else PQCommitmentBytes_zero) timestamp_bytes
           (rx_pow_content_hash r) (rx_pow_salt r) = Inr (rx_pow r, h))"
  using rpc_request_decode_sound[OF assms] time_sub_bounded
  by (auto simp: measure_request_pow_Inr pow_minimums)

lemma read_payload_write [wire]:
  "length x \<le> m \<Longrightarrow> length x < 4294967296 \<Longrightarrow> read_payload m (le_bytes 4 (length x) @ x) = Inr x"
  by (simp add: read_payload_def get_le_append split_to_exact)

lemma duration_abs_small:
  assumes "\<bar>now - t\<bar> \<le> 300000"
  shows "duration_abs (time_sub now t) = Inr \<bar>now - t\<bar>"
  using assms by (auto simp: duration_abs_def time_sub_def sat_i64_def I64_MIN_def I64_MAX_def)

text \<open>the content hash that the proof of work covers is not compared with the payload. From any header
  whose checks pass, a packet with a payload of any bytes and length below the limit is accepted
  with the same work, the same hash and the same salt.\<close>

theorem content_hash_not_bound:
  assumes "wf_request_header flags sponsor timestamp h s" "\<not> flags_contain flags REQ_COMPRESSED"
    and "rpc_request_decode C Z now vkb pqcb
       (rpc_request_header flags kind sponsor timestamp h s @ le_bytes 4 (length x) @ x) = Inr r"
    and "length y \<le> PROTOCOL_MAX_BLOB_SIZE_REQUEST"
  shows "rpc_request_decode C Z now vkb pqcb
       (rpc_request_header flags kind sponsor timestamp h s @ le_bytes 4 (length y) @ y) = Inr (r\<lparr>rx_bytes := y\<rparr>)"
  using assms
  by (auto simp: rpc_request_decode_header request_checks_def read_payload_write PROTOCOL_MAX_BLOB_SIZE_REQUEST_def
      split: prod.splits)

lemma blake3_wf: "crypto_ok C \<Longrightarrow> wf_hash (hashing_hash C x)"
  by (simp add: hashing_hash_def crypto_ok_def wf_newtypes byte_counts)

text \<open>C32: an encoded request is understood by the server it was worked for, if it arrives within five minutes and the
  caller chose at least the minimum work of its mode: kind, sponsor, work, content hash and the uncompressed payload
  arrive as sent.\<close>

theorem rpc_request_roundtrip:
  assumes "crypto_ok C" "pow_search_ok C gen" "\<forall>m dh s p h. gen m dh = Inr (s, p, h) \<longrightarrow> wf_salt s"
    and "flags \<in> {0, 1, 2, 3}" "wf_id sponsor" "in_i64 now" "\<bar>now' - now\<bar> \<le> 300000"
    and "lz4_law Z payload" "length payload < PROTOCOL_MAX_BLOB_SIZE_REQUEST"
    and "if flags_contain flags REQ_SERVER_KNOWN then POW_MINIMUM_PER_RPC_SERVER_KNOWN \<le> pow_min
         else POW_MINIMUM_PER_RPC_SERVER_UNKNOWN \<le> pow_min \<and> vkb = VerificationKeyBytes_zero \<and> pqcb = PQCommitmentBytes_zero"
    and "if flags_contain flags REQ_SERVER_KNOWN then vkb' = vkb \<and> pqcb' = pqcb else True"
    and "rpc_request_encode C Z gen now pow_min flags kind sponsor vkb pqcb payload = Inr tx"
  shows "\<exists>r. rpc_request_decode C Z now' vkb' pqcb' (rq_bytes tx) = Inr r \<and> rx_payload_request_kind r = kind
    \<and> rx_pow_sponsor_id r = sponsor \<and> pow_min \<le> rx_pow r \<and> rx_pow_timestamp r = now
    \<and> rx_pow_content_hash r = rq_pow_content_hash tx \<and> rx_bytes r = payload"
proof -
  have cap: "length payload \<le> MAX_DECOMPRESSED_SIZE"
    using assms(9) by (simp add: PROTOCOL_MAX_BLOB_SIZE_REQUEST_def MAX_DECOMPRESSED_SIZE_def)
  obtain g g' where g: "compress_for_speed Z payload = Inr g" "g_len g \<le> length payload + 1"
      "decompress Z (g_to_bytes g) = Inr g'" "g_to_bytes g' = payload"
    using compress_speed_ok[OF assms(8) cap] by blast
  define pc where "pc = (if flags_contain flags REQ_COMPRESSED then g_to_bytes g else payload)"
  have pc: "length pc \<le> PROTOCOL_MAX_BLOB_SIZE_REQUEST" "length pc < 4294967296"
    using g(2) assms(9) by (auto simp: pc_def PROTOCOL_MAX_BLOB_SIZE_REQUEST_def g_len_contents)
  let ?h = "hashing_hash C pc"
  obtain s p hh where s: "gen pow_min (pow_compute_data_hash C (server_pow_datas sponsor vkb pqcb (time_encode_be now) ?h)) = Inr (s, p, hh)"
      and tx: "tx = \<lparr>rq_pow_content_hash = ?h, rq_bytes = rpc_request_header flags kind sponsor now ?h s @ le_bytes 4 (length pc) @ pc\<rparr>"
    using assms(12) pc g(1)
    by (auto simp: rpc_request_encode_def pc_def server_pow_generate_def Let_def split: if_splits)
  have m: "server_pow_measure C sponsor vkb pqcb (time_encode_be now) ?h s = Inr (p, hh)" "pow_min \<le> p" "wf_salt s"
    using s assms(2) assms(3)[rule_format, OF s] by (auto simp: pow_search_ok_def server_pow_measure_def pow_measure_def)
  have "measure_request_pow C flags vkb' pqcb' sponsor (time_encode_be now) ?h s
      = Inr (p, flags_contain flags REQ_SERVER_KNOWN)"
    using m assms(10,11) by (auto simp: measure_request_pow_Inr split: if_splits)
  moreover have "wf_request_header flags sponsor now ?h s"
    using assms m blake3_wf by (simp add: wf_request_header_def)
  moreover have "(if flags_contain flags REQ_COMPRESSED then rbind (decompress Z pc) (\<lambda>g. Inr (g_to_bytes g)) else Inr pc) = Inr payload"
    using g by (simp add: pc_def)
  ultimately show ?thesis
    using m(2) pc assms(7)
    by (simp add: tx rpc_request_decode_header request_checks_def duration_abs_small read_payload_write bundle_limits)
qed


section \<open>The response envelope\<close>

lemma response_flags_values: "f \<in> {0, 1} \<Longrightarrow> response_flags_from_bits f = Some f"
  by (auto simp: response_flags_from_bits_def RESP_COMPRESSED_def)

text \<open>what an accepted response guarantees, whoever answered: the responder's identity carries at least the
  required work over its keys, its id is the one that was called unless the caller asked for the zero id, and the
  verification key in it signed the caller's content hash.\<close>

theorem rpc_response_accepted:
  assumes "rpc_response_decode C Z destination_id content_hash pow_min bs = Inr r"
  shows "\<exists>vkb pqcb sponsor tsb h s sig p pow_hash i.
      server_pow_measure C sponsor vkb pqcb tsb h s = Inr (p, pow_hash) \<and> pow_min \<le> p
    \<and> server_pow_hash_to_id pow_hash = Inr i \<and> (i = destination_id \<or> Id_is_zero destination_id)
    \<and> ed_verify C (vkb_bytes vkb) (hash_bytes content_hash) (signature_bytes sig)"
  using assms
  apply (clarsimp simp: rpc_response_decode_def Let_def split: if_splits)
  subgoal for b0 fb b1 flags ku b2 kind vkb b3 pqcb b4 sponsor b5 tsb b6 h b7 s b8 sig
    by (cases "flags_contain flags RESP_COMPRESSED"; rule exI[of _ "VerificationKeyBytes vkb"],
        rule exI[of _ "PQCommitmentBytes pqcb"], rule exI[of _ "Id sponsor"],
        rule exI[of _ tsb], rule exI[of _ "Hash h"], rule exI[of _ "Salt s"], rule exI[of _ "Signature sig"])
      (auto simp: VerificationKey_from_bytes_def signing_verify_def linorder_not_less split: if_splits)
  done

definition wf_responder :: "crypto \<Rightarrow> signature_key \<Rightarrow> verification_key_bytes \<Rightarrow> pq_commitment_bytes \<Rightarrow> id \<Rightarrow> time_millis
    \<Rightarrow> hash \<Rightarrow> salt \<Rightarrow> bool" where
  "wf_responder C sk vkb pqcb sponsor timestamp h s \<longleftrightarrow>
     key_pair_ok C (signature_key_bytes sk) (vkb_bytes vkb) \<and> wf_vkb vkb \<and> wf_pqc pqcb \<and> wf_id sponsor
     \<and> in_i64 timestamp \<and> wf_hash h \<and> wf_salt s"

lemma response_decodes:
  assumes "wf_responder C sk vkb pqcb sponsor timestamp h s" "flags \<in> {0, 1}"
    and "server_pow_measure C sponsor vkb pqcb (time_encode_be timestamp) h s = Inr (p, pow_hash)" "pow_min \<le> p"
    and "server_pow_hash_to_id pow_hash = Inr destination_id"
    and "lz4_law Z (contents payload)" "g_len payload < PROTOCOL_MAX_BLOB_SIZE_RESPONSE"
    and "rpc_response_encode C Z sk vkb pqcb sponsor timestamp h s content_hash flags kind payload = Inr g"
  shows "rpc_response_decode C Z destination_id content_hash pow_min (g_to_bytes g) =
     Inr \<lparr>rr_response_request_kind = kind, rr_bytes = contents payload\<rparr>"
proof -
  have cap: "length (contents payload) \<le> MAX_DECOMPRESSED_SIZE"
    using assms(7) by (simp add: PROTOCOL_MAX_BLOB_SIZE_RESPONSE_def MAX_DECOMPRESSED_SIZE_def)
  obtain z z' where z: "compress_for_speed Z (contents payload) = Inr z" "g_len z \<le> length (contents payload) + 1"
      "decompress Z (g_to_bytes z) = Inr z'" "g_to_bytes z' = contents payload"
    using compress_speed_ok[OF assms(6) cap] by blast
  define pc where "pc = (if flags_contain flags RESP_COMPRESSED then contents z else contents payload)"
  have pc: "length pc \<le> PROTOCOL_MAX_BLOB_SIZE_RESPONSE" "length pc < 4294967296"
    using z(2) assms(7) by (auto simp: pc_def PROTOCOL_MAX_BLOB_SIZE_RESPONSE_def)
  let ?sig = "signing_sign C sk (hash_bytes content_hash)"
  have bytes: "g_to_bytes g = [1, flags] @ le_bytes 2 (response_kind_u16 kind) @ vkb_bytes vkb @ pqc_bytes pqcb @ id_bytes sponsor
      @ time_encode_be timestamp @ hash_bytes h @ salt_bytes s @ signature_bytes ?sig @ le_bytes 4 (length pc) @ pc"
    using assms(8) pc z(1)
    by (auto simp: rpc_response_encode_def pc_def Let_def split: if_splits)
  have w: "length (vkb_bytes vkb) = VERIFICATION_KEY_BYTES" "length (pqc_bytes pqcb) = PQ_COMMITMENT_BYTES"
      "length (id_bytes sponsor) = ID_BYTES" "length (hash_bytes h) = HASH_BYTES" "length (salt_bytes s) = SALT_BYTES"
      "length (signature_bytes ?sig) = SIGNATURE_BYTES"
    using assms(1) wf_signed[of C sk "vkb_bytes vkb"] by (auto simp: wf_responder_def wf_newtypes)
  have kind: "get_le 2 (le_bytes 2 (response_kind_u16 kind) @ r) = Inr (response_kind_u16 kind, r)" for r
    using response_kind_u16_less[of kind] by (simp add: get_le_append)
  have sig: "rbind (VerificationKey_from_bytes C vkb) (\<lambda>vk. signing_verify C vk ?sig (hash_bytes content_hash)) = Inr ()"
    using assms(1) by (intro verify_signed) (simp add: wf_responder_def)
  obtain vk where vk: "VerificationKey_from_bytes C vkb = Inr vk" "signing_verify C vk ?sig (hash_bytes content_hash) = Inr ()"
    using sig by auto
  have len: "rpc_response_header_len \<le> length (g_to_bytes g)"
    unfolding bytes using w by (simp add: rpc_response_header_len_def)
  have dec: "(if flags_contain flags RESP_COMPRESSED then rbind (decompress Z pc) (\<lambda>g. Inr (g_to_bytes g)) else Inr pc)
      = Inr (contents payload)"
    using z by (simp add: pc_def)
  note steps = get_u8_Cons kind response_kind_roundtrip split_to_append[OF w(1)] split_to_append[OF w(2)]
      split_to_append[OF w(3)] split_to_append[OF w(4)] split_to_append[OF w(5)] split_to_append[OF w(6)]
      split_to_append[OF length_time_encode_be] read_payload_write[OF pc]
  show ?thesis
    unfolding rpc_response_decode_def
    using len assms(3,4,5) vk dec response_flags_values[OF assms(2)]
    by (simp add: bytes[unfolded g_to_bytes_contents] steps rbind_ensure linorder_not_less)
qed

text \<open>a server that answers with its own identity is accepted by the caller who asked for it: kind and payload
  arrive as sent, compressed or not.\<close>

theorem rpc_response_roundtrip:
  assumes "wf_responder C sk vkb pqcb sponsor timestamp h s" "flags \<in> {0, 1}"
    and "server_pow_measure C sponsor vkb pqcb (time_encode_be timestamp) h s = Inr (p, pow_hash)" "pow_min \<le> p"
    and "server_pow_hash_to_id pow_hash = Inr destination_id"
    and "lz4_law Z (contents payload)" "g_len payload < PROTOCOL_MAX_BLOB_SIZE_RESPONSE"
    and "rpc_response_encode C Z sk vkb pqcb sponsor timestamp h s content_hash flags kind payload = Inr g"
  shows "rpc_response_decode C Z destination_id content_hash pow_min (g_to_bytes g) =
     Inr \<lparr>rr_response_request_kind = kind, rr_bytes = contents payload\<rparr>"
  using assms by (rule response_decodes)

end
