(* ===== verification/Kademlia.thy ===== *)
theory Kademlia
  imports Types Time "HOL-Library.Multiset"
begin

text \<open>
  \<open>server/kademlia/kademlia.rs\<close>: the routing table. The trait \<open>Peer<ID>\<close> is two function arguments, the id
  \<open>pid\<close> and the \<open>score\<close> at a time; \<open>ID\<close> is the 32-byte \<^typ>\<open>id\<close> that the server instantiates it with.
  Scores are real numbers, so \<open>total_cmp\<close> is their order. \<open>sort_unstable_by_key\<close> leaves the order of
  ties open: it is an argument, any function that sorts in descending order.
\<close>

record 'p kademlia =
  k_id :: id
  k_max_peers_per_bucket :: nat
  k_peer_buckets :: "'p list list"
  k_peers_last_changed :: time_millis

definition MAX_BUCKETS :: nat where "MAX_BUCKETS = ID_BYTES * 8"

definition kad_new :: "id \<Rightarrow> nat \<Rightarrow> 'p kademlia" where
  "kad_new i max_per_bucket = \<lparr>k_id = i, k_max_peers_per_bucket = max_per_bucket,
     k_peer_buckets = replicate MAX_BUCKETS [], k_peers_last_changed = 0\<rparr>"

definition kad_len :: "'p kademlia \<Rightarrow> nat" where
  "kad_len k = foldl (\<lambda>len b. len + length b) 0 (k_peer_buckets k)"

definition kad_is_empty :: "'p kademlia \<Rightarrow> bool" where
  "kad_is_empty k \<longleftrightarrow> list_all (\<lambda>b. b = []) (k_peer_buckets k)"

definition bucket_id :: "'p kademlia \<Rightarrow> id \<Rightarrow> nat" where
  "bucket_id k i = min (leading_agreement_bits_xor (id_bytes (k_id k)) (id_bytes i)) (MAX_BUCKETS - 1)"

definition get_bucket_for_id :: "'p kademlia \<Rightarrow> id \<Rightarrow> 'p list" where
  "get_bucket_for_id k i = k_peer_buckets k ! bucket_id k i"

fun position :: "('a \<Rightarrow> bool) \<Rightarrow> 'a list \<Rightarrow> nat option" where
  "position P [] = None"
| "position P (x # xs) = (if P x then Some 0 else map_option Suc (position P xs))"

text \<open>\<open>min_by\<close> keeps the first of several minima.\<close>

fun min_index_by :: "('a \<Rightarrow> real) \<Rightarrow> 'a list \<Rightarrow> nat option" where
  "min_index_by f [] = None"
| "min_index_by f (x # xs) =
     (case min_index_by f xs of None \<Rightarrow> Some 0
      | Some j \<Rightarrow> if f (xs ! j) < f x then Some (Suc j) else Some 0)"

definition add_to_bucket :: "('p \<Rightarrow> id) \<Rightarrow> ('p \<Rightarrow> time_millis \<Rightarrow> real) \<Rightarrow> nat \<Rightarrow> time_millis \<Rightarrow> 'p \<Rightarrow> 'p list \<Rightarrow> 'p list" where
  "add_to_bucket pid score max_per_bucket t peer b =
     (case position (\<lambda>p. pid p = pid peer) b of
        Some i \<Rightarrow> if score (b ! i) t < score peer t then b[i := peer] else b
      | None \<Rightarrow>
          if length b < max_per_bucket then b @ [peer]
          else (case min_index_by (\<lambda>p. score p t) b of
              None \<Rightarrow> b
            | Some i \<Rightarrow> if score (b ! i) t < score peer t then b[i := peer] else b))"

definition add_peer :: "('p \<Rightarrow> id) \<Rightarrow> ('p \<Rightarrow> time_millis \<Rightarrow> real) \<Rightarrow> 'p \<Rightarrow> time_millis \<Rightarrow> 'p kademlia \<Rightarrow> 'p kademlia" where
  "add_peer pid score peer t k =
     (let i = bucket_id k (pid peer) in
      k\<lparr>k_peers_last_changed := t,
        k_peer_buckets := (k_peer_buckets k)[i := add_to_bucket pid score (k_max_peers_per_bucket k) t peer (k_peer_buckets k ! i)]\<rparr>)"

definition swap_remove :: "nat \<Rightarrow> 'a list \<Rightarrow> 'a list" where
  "swap_remove i xs = butlast (xs[i := last xs])"

definition remove_peer :: "('p \<Rightarrow> id) \<Rightarrow> id \<Rightarrow> time_millis \<Rightarrow> 'p kademlia \<Rightarrow> 'p option \<times> 'p kademlia" where
  "remove_peer pid i t k =
     (let n = bucket_id k i; b = k_peer_buckets k ! n; k' = k\<lparr>k_peers_last_changed := t\<rparr> in
      case position (\<lambda>p. pid p = i) b of
        Some j \<Rightarrow> (Some (b ! j), k'\<lparr>k_peer_buckets := (k_peer_buckets k)[n := swap_remove j b]\<rparr>)
      | None \<Rightarrow> (None, k'))"

definition get_all_peers :: "'p kademlia \<Rightarrow> 'p list" where
  "get_all_peers k = concat (k_peer_buckets k)"

definition F64_MAX :: real where "F64_MAX = (2 ^ 53 - 1) * 2 ^ 971"

fun lowest_score :: "('p \<Rightarrow> real) \<Rightarrow> 'p list \<Rightarrow> real \<times> 'p option \<Rightarrow> real \<times> 'p option" where
  "lowest_score f [] acc = acc"
| "lowest_score f (p # ps) (s, best) = lowest_score f ps (if f p < s then (f p, Some p) else (s, best))"

definition get_peer_with_lowest_score :: "('p \<Rightarrow> time_millis \<Rightarrow> real) \<Rightarrow> 'p kademlia \<Rightarrow> 'p option" where
  "get_peer_with_lowest_score score k =
     snd (lowest_score (\<lambda>p. score p (k_peers_last_changed k)) (concat (k_peer_buckets k)) (F64_MAX, None))"

definition get_peers_for_key :: "('p \<Rightarrow> id) \<Rightarrow> ((nat \<times> 'p) list \<Rightarrow> (nat \<times> 'p) list) \<Rightarrow> 'p kademlia \<Rightarrow> id \<Rightarrow> nat
    \<Rightarrow> ('p list \<times> bool) res" where
  "get_peers_for_key pid sort_desc k i max_peers =
     (let b = get_bucket_for_id k i;
          agreement = (\<lambda>p. (leading_agreement_bits_xor (id_bytes i) (id_bytes (pid p)), p));
          agreement_peers = sort_desc (map agreement (if length b \<ge> max_peers then b else concat (k_peer_buckets k)))
      in rbind (if length agreement_peers \<le> max_peers then Inr 0
                else if max_peers = 0 then Inl (Panic ''attempt to subtract with overflow'')
                else Inr (fst (agreement_peers ! (max_peers - 1)))) (\<lambda>min_agreement.
           let peers = map snd (takeWhile (\<lambda>(a, p). a \<ge> min_agreement) agreement_peers)
           in Inr (peers, list_ex (\<lambda>p. pid p = k_id k) peers)))"

text \<open>\<open>random_element\<close> indexes a slice by a bounded random number. The rejection loop of
  \<open>get_peers_random\<close> ends with the words of the generator: running out is \<open>None\<close>.\<close>

definition random_element :: "'a list \<Rightarrow> 'a random" where
  "random_element xs rs = map_option (\<lambda>(r, rs'). (case r of Inl e \<Rightarrow> Inl e | Inr j \<Rightarrow> Inr (xs ! j), rs'))
     (random_usize_bounded (length xs) rs)"

lemma random_draw_shorter: "random_draw z u rs = Some (v, rs') \<Longrightarrow> length rs' < length rs"
  by (induction rs) (auto split: if_splits)

lemma random_element_Inr:
  "random_element xs rs = Some (Inr x, rs') \<Longrightarrow> x \<in> set xs \<and> length rs' < length rs"
proof -
  assume "random_element xs rs = Some (Inr x, rs')"
  then obtain r where r: "random_usize_bounded (length xs) rs = Some (r, rs')"
      "(case r of Inl e \<Rightarrow> Inl e | Inr j \<Rightarrow> Inr (xs ! j)) = Inr x"
    by (auto simp: random_element_def)
  then obtain j where j: "r = Inr j" "xs ! j = x" by (cases r) auto
  with r(1) have "random_draw (random_zone (length xs)) (length xs) rs = Some (j, rs')"
    by (auto simp: random_usize_bounded_def split: if_splits)
  then have "length rs' < length rs" by (rule random_draw_shorter)
  moreover have "j < length xs" using r(1) j(1) by (auto dest: random_usize_bounded_less)
  ultimately show ?thesis using j(2) by auto
qed

function random_peers_loop :: "'p list list \<Rightarrow> nat \<Rightarrow> 'p list \<Rightarrow> nat list \<Rightarrow> ('p list \<times> nat list) option" where
  "random_peers_loop buckets max_peers peers rs =
     (case random_element buckets rs of
        Some (Inr b, rs1) \<Rightarrow>
          if b = [] then random_peers_loop buckets max_peers peers rs1
          else (case random_element b rs1 of
              Some (Inr p, rs2) \<Rightarrow>
                let peers' = peers @ [p] in
                if length peers' \<ge> max_peers then Some (peers', rs2)
                else random_peers_loop buckets max_peers peers' rs2
            | _ \<Rightarrow> None)
      | _ \<Rightarrow> None)"
  by pat_completeness auto
termination
  by (relation "measure (\<lambda>(bs, m, ps, rs). length rs)") (auto dest!: random_element_Inr)

declare random_peers_loop.simps [simp del]

definition get_peers_random :: "'p kademlia \<Rightarrow> nat \<Rightarrow> nat list \<Rightarrow> ('p list \<times> nat list) option" where
  "get_peers_random k max_peers rs =
     (if kad_len k \<le> max_peers then Some (concat (k_peer_buckets k), rs)
      else random_peers_loop (k_peer_buckets k) max_peers [] rs)"


section \<open>The invariant of the table\<close>

definition bucket_ok :: "('p \<Rightarrow> id) \<Rightarrow> 'p kademlia \<Rightarrow> nat \<Rightarrow> bool" where
  "bucket_ok pid k n \<longleftrightarrow> length (k_peer_buckets k ! n) \<le> k_max_peers_per_bucket k
     \<and> distinct (map pid (k_peer_buckets k ! n))
     \<and> list_all (\<lambda>p. wf_id (pid p) \<and> bucket_id k (pid p) = n) (k_peer_buckets k ! n)"

definition kad_ok :: "('p \<Rightarrow> id) \<Rightarrow> 'p kademlia \<Rightarrow> bool" where
  "kad_ok pid k \<longleftrightarrow> wf_id (k_id k) \<and> length (k_peer_buckets k) = MAX_BUCKETS \<and> list_all (bucket_ok pid k) [0..<MAX_BUCKETS]"

lemma MAX_BUCKETS_value [simp]: "MAX_BUCKETS = 256"
  by (simp add: MAX_BUCKETS_def ID_BYTES_def)

lemma bucket_id_less [simp]: "bucket_id k i < 256" "bucket_id k i < MAX_BUCKETS"
  by (simp_all add: bucket_id_def)

lemma kad_len_sum: "kad_len k = length (concat (k_peer_buckets k))"
proof -
  have "foldl (\<lambda>len b. len + length b) n bs = n + length (concat bs)" for n and bs :: "'a list list"
    by (induction bs arbitrary: n) auto
  then show ?thesis by (simp add: kad_len_def)
qed

lemma position_Some: "position P xs = Some i \<Longrightarrow> i < length xs \<and> P (xs ! i)"
  by (induction xs arbitrary: i) (auto split: if_splits)

lemma position_None: "position P xs = None \<longleftrightarrow> (\<forall>x \<in> set xs. \<not> P x)"
  by (induction xs) auto

lemma min_index_by_None: "min_index_by f xs = None \<longleftrightarrow> xs = []"
  by (cases xs) (auto split: option.splits)

lemma min_index_by_Some:
  "min_index_by f xs = Some i \<Longrightarrow> i < length xs \<and> (\<forall>x \<in> set xs. f (xs ! i) \<le> f x)"
proof (induction xs arbitrary: i)
  case (Cons x xs)
  show ?case
  proof (cases "min_index_by f xs")
    case None
    then show ?thesis using Cons.prems by (auto simp: min_index_by_None)
  next
    case (Some j)
    with Cons show ?thesis by (fastforce split: if_splits)
  qed
qed simp

text \<open>What adding does to a bucket: it holds the peer unless something at least as good keeps the place.\<close>

lemma add_to_bucket_cases:
  obtains (unchanged) "add_to_bucket pid score m t peer b = b"
      "(\<exists>p \<in> set b. pid p = pid peer \<and> score peer t \<le> score p t)
        \<or> m \<le> length b \<and> (\<forall>p \<in> set b. pid p \<noteq> pid peer \<and> score peer t \<le> score p t)"
    | (appended) "add_to_bucket pid score m t peer b = b @ [peer]" "length b < m" "\<forall>p \<in> set b. pid p \<noteq> pid peer"
    | (replaced) i where "add_to_bucket pid score m t peer b = b[i := peer]" "i < length b"
      "score (b ! i) t < score peer t" "pid (b ! i) = pid peer"
    | (evicted) i where "add_to_bucket pid score m t peer b = b[i := peer]" "i < length b"
      "score (b ! i) t < score peer t" "m \<le> length b" "\<forall>p \<in> set b. pid p \<noteq> pid peer \<and> score (b ! i) t \<le> score p t"
proof (cases "position (\<lambda>p. pid p = pid peer) b")
  case (Some i)
  then have i: "i < length b" "pid (b ! i) = pid peer" by (auto dest: position_Some)
  then show ?thesis
    using Some replaced[of i] unchanged[OF _ disjI1, OF _ bexI[of _ "b ! i"]]
    by (cases "score (b ! i) t < score peer t") (simp_all add: add_to_bucket_def linorder_not_less)
next
  case None
  then have new: "\<forall>p \<in> set b. pid p \<noteq> pid peer" by (simp add: position_None)
  show ?thesis
  proof (cases "length b < m")
    case True
    then show ?thesis using None new appended by (simp add: add_to_bucket_def)
  next
    case full: False
    show ?thesis
    proof (cases "min_index_by (\<lambda>p. score p t) b")
      case None
      then have "b = []" by (simp add: min_index_by_None)
      then show ?thesis using full unchanged by (simp add: add_to_bucket_def)
    next
      case (Some i)
      note mi = min_index_by_Some[OF Some]
      show ?thesis
      proof (cases "score (b ! i) t < score peer t")
        case True
        then show ?thesis using evicted[of i] Some full new mi \<open>position _ b = None\<close> by (auto simp: add_to_bucket_def)
      next
        case False
        then show ?thesis using unchanged Some full new mi \<open>position _ b = None\<close>
          by (force simp: add_to_bucket_def)
      qed
    qed
  qed
qed


lemma add_to_bucket_set: "set (add_to_bucket pid score m t peer b) \<subseteq> insert peer (set b)"
  using add_to_bucket_cases[of pid score m t peer b]
  by (cases rule: add_to_bucket_cases[of pid score m t peer b]) (auto dest: subsetD[OF set_update_subset_insert])

lemma add_to_bucket_length: "length b \<le> m \<Longrightarrow> length (add_to_bucket pid score m t peer b) \<le> m"
  by (cases rule: add_to_bucket_cases[of pid score m t peer b]) auto

lemma add_to_bucket_distinct:
  assumes "distinct (map pid b)"
  shows "distinct (map pid (add_to_bucket pid score m t peer b))"
proof (cases rule: add_to_bucket_cases[of pid score m t peer b])
  case (evicted i)
  then have "map pid (b[i := peer]) = (map pid b)[i := pid peer]" "pid peer \<notin> set (map pid b)"
    by (auto simp: map_update)
  then show ?thesis using assms evicted(1) by (simp add: distinct_list_update)
qed (use assms distinct_map_update[of pid b _ peer] in auto)

lemma bucket_id_update [simp]:
  "bucket_id (k\<lparr>k_peer_buckets := bs\<rparr>) i = bucket_id k i"
  "bucket_id (k\<lparr>k_peers_last_changed := t\<rparr>) i = bucket_id k i"
  by (simp_all add: bucket_id_def)

text \<open>Changing one bucket within its own conditions keeps the table well formed.\<close>

lemma kad_ok_update:
  assumes "kad_ok pid k" "n < 256" "length b \<le> k_max_peers_per_bucket k" "distinct (map pid b)"
    and "\<forall>p \<in> set b. wf_id (pid p) \<and> bucket_id k (pid p) = n"
  shows "kad_ok pid (k\<lparr>k_peers_last_changed := t, k_peer_buckets := (k_peer_buckets k)[n := b]\<rparr>)"
  using assms
  by (auto simp: kad_ok_def list_all_iff bucket_ok_def nth_list_update bucket_id_def)

lemma kad_ok_bucket:
  assumes "kad_ok pid k" "n < 256"
  shows "length (k_peer_buckets k ! n) \<le> k_max_peers_per_bucket k" "distinct (map pid (k_peer_buckets k ! n))"
    "p \<in> set (k_peer_buckets k ! n) \<Longrightarrow> wf_id (pid p) \<and> bucket_id k (pid p) = n"
  using assms by (auto simp: kad_ok_def list_all_iff bucket_ok_def)

lemma kad_ok_add:
  assumes "kad_ok pid k" "wf_id (pid peer)"
  shows "kad_ok pid (add_peer pid score peer t k)"
  unfolding add_peer_def Let_def
proof (rule kad_ok_update[OF assms(1)])
  let ?n = "bucket_id k (pid peer)"
  show "\<forall>p \<in> set (add_to_bucket pid score (k_max_peers_per_bucket k) t peer (k_peer_buckets k ! ?n)).
      wf_id (pid p) \<and> bucket_id k (pid p) = ?n"
  proof
    fix p assume "p \<in> set (add_to_bucket pid score (k_max_peers_per_bucket k) t peer (k_peer_buckets k ! ?n))"
    then have "p = peer \<or> p \<in> set (k_peer_buckets k ! ?n)"
      using add_to_bucket_set[of pid score "k_max_peers_per_bucket k" t peer "k_peer_buckets k ! ?n"] by blast
    then show "wf_id (pid p) \<and> bucket_id k (pid p) = ?n"
      using assms(2) kad_ok_bucket(3)[OF assms(1) bucket_id_less(1)] by blast
  qed
  show "length (add_to_bucket pid score (k_max_peers_per_bucket k) t peer (k_peer_buckets k ! ?n)) \<le> k_max_peers_per_bucket k"
    by (rule add_to_bucket_length) (rule kad_ok_bucket(1)[OF assms(1) bucket_id_less(1)])
  show "distinct (map pid (add_to_bucket pid score (k_max_peers_per_bucket k) t peer (k_peer_buckets k ! ?n)))"
    by (rule add_to_bucket_distinct) (rule kad_ok_bucket(2)[OF assms(1) bucket_id_less(1)])
qed (rule bucket_id_less)

lemma swap_remove_mset: "i < length xs \<Longrightarrow> mset (swap_remove i xs) = mset xs - {#xs ! i#}"
proof -
  assume i: "i < length xs"
  let ?ys = "xs[i := last xs]"
  have ne: "?ys \<noteq> []" "xs \<noteq> []" using i by auto
  have l: "last ?ys = last xs"
    unfolding last_conv_nth[OF ne(1)] using i by (simp add: nth_list_update last_conv_nth[OF ne(2)])
  have "mset ?ys = mset (butlast ?ys) + {#last xs#}"
    using ne l append_butlast_last_id[of ?ys] by (metis mset_append mset_single_iff mset.simps)
  moreover have "mset ?ys = mset xs - {#xs ! i#} + {#last xs#}" using i by (simp add: mset_update)
  ultimately show ?thesis by (simp add: swap_remove_def)
qed

lemma swap_remove_distinct:
  assumes "distinct (map f xs)" "i < length xs"
  shows "distinct (map f (swap_remove i xs))" "set (swap_remove i xs) = set xs - {xs ! i}"
proof -
  have d: "distinct xs" using assms(1) by (simp add: distinct_map)
  have "mset (swap_remove i xs) = mset (remove1 (xs ! i) xs)" using assms by (simp add: swap_remove_mset)
  then have "mset (map f (swap_remove i xs)) = mset (map f (remove1 (xs ! i) xs))"
    and s: "set (swap_remove i xs) = set (remove1 (xs ! i) xs)"
    by (metis mset_map, metis set_mset_mset)
  moreover have "distinct (map f (remove1 (xs ! i) xs))" using assms(1) by (simp add: distinct_map inj_on_def)

  ultimately show "distinct (map f (swap_remove i xs))" by (metis mset_eq_imp_distinct_iff)
  show "set (swap_remove i xs) = set xs - {xs ! i}" using s d by simp
qed

lemma kad_ok_remove: "kad_ok pid k \<Longrightarrow> kad_ok pid (snd (remove_peer pid i t k))"
proof -
  assume ok: "kad_ok pid k"
  let ?n = "bucket_id k i"
  let ?b = "k_peer_buckets k ! ?n"
  show ?thesis
  proof (cases "position (\<lambda>p. pid p = i) ?b")
    case None
    have "kad_ok pid (k\<lparr>k_peers_last_changed := t, k_peer_buckets := (k_peer_buckets k)[?n := ?b]\<rparr>)"
      using ok by (intro kad_ok_update) (auto intro: kad_ok_bucket dest: kad_ok_bucket(3)[of pid k ?n])
    then show ?thesis using None by (simp add: remove_peer_def Let_def)
  next
    case (Some j)
    then have j: "j < length ?b" by (auto dest: position_Some)
    note d = kad_ok_bucket(2)[OF ok, of ?n, simplified]
    have "kad_ok pid (k\<lparr>k_peers_last_changed := t, k_peer_buckets := (k_peer_buckets k)[?n := swap_remove j ?b]\<rparr>)"
      using ok swap_remove_distinct[OF d j] kad_ok_bucket(1)[OF ok, of ?n]
      by (intro kad_ok_update) (auto simp: swap_remove_def dest: kad_ok_bucket(3)[of pid k ?n])
    then show ?thesis using Some by (simp add: remove_peer_def Let_def)
  qed
qed

lemma kad_ok_new: "wf_id i \<Longrightarrow> kad_ok pid (kad_new i m)"
  by (simp add: kad_ok_def kad_new_def list_all_iff bucket_ok_def)


section \<open>The table as a history of operations\<close>

inductive kad_step :: "('p \<Rightarrow> id) \<Rightarrow> ('p \<Rightarrow> time_millis \<Rightarrow> real) \<Rightarrow> 'p kademlia \<Rightarrow> 'p kademlia \<Rightarrow> bool"
  for pid score where
  add: "wf_id (pid p) \<Longrightarrow> kad_step pid score k (add_peer pid score p t k)"
| remove: "kad_step pid score k (snd (remove_peer pid i t k))"

inductive kad_reachable :: "('p \<Rightarrow> id) \<Rightarrow> ('p \<Rightarrow> time_millis \<Rightarrow> real) \<Rightarrow> id \<Rightarrow> nat \<Rightarrow> 'p kademlia \<Rightarrow> bool"
  for pid score i m where
  start: "kad_reachable pid score i m (kad_new i m)"
| step: "kad_reachable pid score i m k \<Longrightarrow> kad_step pid score k k' \<Longrightarrow> kad_reachable pid score i m k'"

lemma table_own_fields [simp]:
  "k_id (add_peer pid score p t k) = k_id k"
  "k_max_peers_per_bucket (add_peer pid score p t k) = k_max_peers_per_bucket k"
  "k_id (snd (remove_peer pid j t k)) = k_id k"
  "k_max_peers_per_bucket (snd (remove_peer pid j t k)) = k_max_peers_per_bucket k"
  by (simp_all add: add_peer_def remove_peer_def Let_def split: option.splits)

lemma kad_reachable_ok:
  assumes "kad_reachable pid score i m k" "wf_id i"
  shows "kad_ok pid k \<and> k_id k = i \<and> k_max_peers_per_bucket k = m"
  using assms
proof (induction rule: kad_reachable.induct)
  case (step k k')
  from step.hyps(2) show ?case
    by (cases rule: kad_step.cases) (use step in \<open>auto intro: kad_ok_add kad_ok_remove\<close>)
qed (simp add: kad_ok_new, simp add: kad_new_def)

lemma set_take_nth: "n \<le> length xs \<Longrightarrow> set (take n xs) = (!) xs ` {..<n}"
  by (auto simp: nth_image[symmetric] lessThan_atLeast0)

lemma kad_ok_distinct:
  assumes "kad_ok pid k"
  shows "distinct (map pid (get_all_peers k))"
proof -
  have len: "length (k_peer_buckets k) = 256" using assms by (simp add: kad_ok_def)
  have "distinct (map pid (concat (take n (k_peer_buckets k))))" if "n \<le> 256" for n
    using that
  proof (induction n)
    case (Suc n)
    have "pid p \<noteq> pid q" if p: "p \<in> set (concat (take n (k_peer_buckets k)))" and q: "q \<in> set (k_peer_buckets k ! n)" for p q
    proof -
      obtain j where "j < n" "p \<in> set (k_peer_buckets k ! j)"
        using p Suc.prems len set_take_nth[of n "k_peer_buckets k"] by auto
      then show ?thesis using kad_ok_bucket(3)[OF assms, of j p] kad_ok_bucket(3)[OF assms, of n q] Suc.prems q by auto
    qed
    moreover have "distinct (map pid (k_peer_buckets k ! n))" using kad_ok_bucket(2)[OF assms, of n] Suc.prems by simp
    ultimately show ?case
      using Suc len by (auto simp: take_Suc_conv_app_nth)
  qed simp
  from this[of 256] len show ?thesis by (simp add: get_all_peers_def)
qed

text \<open>C25: whatever peers are added and removed, in any order and at any clock, a table has 256 buckets within their
  capacity, every peer sits in the bucket of its agreement with the table's own id, and no id occurs twice.\<close>

theorem kademlia_reachable_invariant:
  assumes "kad_reachable pid score i m k" "wf_id i"
  shows "length (k_peer_buckets k) = 256 \<and> distinct (map pid (get_all_peers k)) \<and> kad_len k \<le> 256 * m
    \<and> list_all (\<lambda>n. length (k_peer_buckets k ! n) \<le> m
        \<and> list_all (\<lambda>p. min (leading_agreement_bits_xor (id_bytes i) (id_bytes (pid p))) 255 = n) (k_peer_buckets k ! n))
      [0..<256]"
proof -
  have ok: "kad_ok pid k" "k_id k = i" "k_max_peers_per_bucket k = m" using kad_reachable_ok[OF assms] by auto
  have len: "length (k_peer_buckets k) = 256" using ok(1) by (simp add: kad_ok_def)
  have "length (concat (take n (k_peer_buckets k))) \<le> n * m" if "n \<le> 256" for n
    using that
  proof (induction n)
    case (Suc n)
    then show ?case using len kad_ok_bucket(1)[OF ok(1), of n] ok(3) by (simp add: take_Suc_conv_app_nth)
  qed simp
  from this[of 256] have "kad_len k \<le> 256 * m" using len by (simp add: kad_len_sum)
  with len show ?thesis
    using kad_ok_distinct[OF ok(1)] kad_ok_bucket[OF ok(1)] ok(2,3)
    by (auto simp: list_all_iff bucket_id_def)
qed


lemma all_peers_update:
  assumes "n < length (k_peer_buckets k)"
  shows "set (get_all_peers (k\<lparr>k_peers_last_changed := t, k_peer_buckets := (k_peer_buckets k)[n := b]\<rparr>))
    = set b \<union> (\<Union>j \<in> {..<length (k_peer_buckets k)} - {n}. set (k_peer_buckets k ! j))"
proof -
  have "set xs = (!) xs ` {..<length xs}" for xs :: "'x list" by (auto simp: set_conv_nth)
  then have "set ((k_peer_buckets k)[n := b]) = (!) ((k_peer_buckets k)[n := b]) ` {..<length (k_peer_buckets k)}"
    by (metis length_list_update)
  with assms show ?thesis by (auto simp: get_all_peers_def nth_list_update split: if_splits)
qed

lemma all_peers_bucket:
  assumes "n < length (k_peer_buckets k)"
  shows "set (get_all_peers k) = set (k_peer_buckets k ! n)
    \<union> (\<Union>j \<in> {..<length (k_peer_buckets k)} - {n}. set (k_peer_buckets k ! j))"
  using all_peers_update[OF assms, where b = "k_peer_buckets k ! n" and t = "k_peers_last_changed k"] by simp

definition dropped :: "'p kademlia \<Rightarrow> 'p kademlia \<Rightarrow> 'p set" where
  "dropped k k' = set (get_all_peers k) - set (get_all_peers k')"

lemma set_update_distinct_map:
  assumes "distinct (map f xs)" "i < length xs"
  shows "set (xs[i := y]) = insert y (set xs - {xs ! i})"
proof -
  have d: "distinct xs" using assms(1) by (simp add: distinct_map)
  then show ?thesis using assms(2) by (simp add: set_update_distinct)
qed

text \<open>adding a peer costs the table at most one other peer, with a strictly lower score: the older record of the
  same id, or the lowest of a full bucket. A peer that is not admitted leaves all peers as they were, and was no better
  than the record of its id or than every peer of its full bucket.\<close>

theorem kademlia_add_effect:
  assumes "kad_ok pid k" "wf_id (pid p)" "k' = add_peer pid score p t k" "b = get_bucket_for_id k (pid p)"
  shows "set (get_all_peers k') \<subseteq> insert p (set (get_all_peers k))
    \<and> (p \<notin> set (get_all_peers k') \<longrightarrow> set (get_all_peers k') = set (get_all_peers k)
        \<and> ((\<exists>q \<in> set b. pid q = pid p \<and> score p t \<le> score q t)
          \<or> k_max_peers_per_bucket k \<le> length b \<and> (\<forall>q \<in> set b. score p t \<le> score q t)))
    \<and> (dropped k k' = {} \<or> (\<exists>q. dropped k k' = {q} \<and> score q t < score p t
        \<and> (pid q = pid p \<or> k_max_peers_per_bucket k \<le> length b \<and> (\<forall>r \<in> set b. score q t \<le> score r t))))"
proof -
  let ?n = "bucket_id k (pid p)" and ?m = "k_max_peers_per_bucket k"
  define others where "others = (\<Union>j \<in> {..<length (k_peer_buckets k)} - {?n}. set (k_peer_buckets k ! j))"
  have len: "?n < length (k_peer_buckets k)" using assms(1) by (simp add: kad_ok_def)
  have old: "set (get_all_peers k) = set b \<union> others"
    using all_peers_bucket[OF len] assms(4) by (simp add: others_def get_bucket_for_id_def)
  have new: "set (get_all_peers k') = set (add_to_bucket pid score ?m t p b) \<union> others"
    using all_peers_update[OF len] assms(3,4) by (simp add: others_def get_bucket_for_id_def add_peer_def Let_def)
  have d: "distinct (map pid b)" using kad_ok_bucket(2)[OF assms(1) bucket_id_less(1)] assms(4) by (simp add: get_bucket_for_id_def)
  have replace: "dropped k k' \<subseteq> {b ! i}" if "set (add_to_bucket pid score ?m t p b) = insert p (set b - {b ! i})" for i
    using that old new by (auto simp: dropped_def)
  show ?thesis
  proof (cases rule: add_to_bucket_cases[of pid score ?m t p b])
    case unchanged
    then show ?thesis using old new by (auto simp: dropped_def)
  next
    case appended
    then show ?thesis using old new by (auto simp: dropped_def)
  next
    case (replaced i)
    then have s: "set (add_to_bucket pid score ?m t p b) = insert p (set b - {b ! i})"
      using set_update_distinct_map[OF d] by simp
    then show ?thesis using old new replace[OF s] replaced by (auto simp: dropped_def)
  next
    case (evicted i)
    then have s: "set (add_to_bucket pid score ?m t p b) = insert p (set b - {b ! i})"
      using set_update_distinct_map[OF d] by simp
    then show ?thesis using old new replace[OF s] evicted by (auto simp: dropped_def)
  qed
qed


section \<open>Nearest peers\<close>

lemma agreement_max: "leading_agreement_bits_xor xs ys \<le> 8 * length xs"
  using leading_agreement_bits_ge[of "leading_agreement_bits_xor xs ys" xs ys] by simp

lemma agreement_next_bit:
  assumes "n < 8 * length xs" "n < 8 * length ys"
  shows "leading_agreement_bits_xor xs ys = n \<longleftrightarrow> take n (bits_of xs) = take n (bits_of ys) \<and> bits_of xs ! n \<noteq> bits_of ys ! n"
  using assms leading_agreement_bits_ge[of n xs ys] leading_agreement_bits_ge[of "Suc n" xs ys]
  by (auto simp: take_Suc_conv_app_nth le_antisym not_less_eq_eq)

text \<open>Two keys that leave a third at the same bit agree with each other on that bit too; keys that
  leave it at different bits agree up to the earlier one.\<close>

lemma agreement_same_branch:
  assumes "length a = 32" "length x = 32" "length y = 32"
    and "leading_agreement_bits_xor a x = n" "leading_agreement_bits_xor a y = n" "n < 256"
  shows "n < leading_agreement_bits_xor x y"
proof -
  have "take n (bits_of x) = take n (bits_of y)" "bits_of x ! n = bits_of y ! n"
    using assms agreement_next_bit[of n a x] agreement_next_bit[of n a y] by auto
  then show ?thesis
    using assms leading_agreement_bits_ge[of "Suc n" x y] by (simp add: take_Suc_conv_app_nth Suc_le_eq)
qed

lemma agreement_other_branch:
  assumes "length a = 32" "length x = 32" "length y = 32"
    and "leading_agreement_bits_xor a x = n" "leading_agreement_bits_xor a y = m" "n \<noteq> m"
  shows "leading_agreement_bits_xor x y = min n m"
proof -
  have *: "leading_agreement_bits_xor u v = i"
    if "length u = 32" "length v = 32" "leading_agreement_bits_xor a u = i" "leading_agreement_bits_xor a v = j" "i < j" for u v i j
  proof -
    have "i < 256" using that agreement_max[of a v] assms(1) by simp
    moreover have "take j (bits_of a) = take j (bits_of v)"
      using that leading_agreement_bits_ge[of j a v] by simp
    then have "take i (bits_of a) = take i (bits_of v)" "bits_of a ! i = bits_of v ! i"
      using \<open>i < j\<close> by (metis min.absorb1 less_imp_le take_take, metis nth_take)
    ultimately show ?thesis
      using that assms(1) agreement_next_bit[of i a u] agreement_next_bit[of i u v] by auto
  qed
  show ?thesis
    using *[of x y n m] *[of y x m n] assms leading_agreement_sym[of x y] by (cases n m rule: linorder_cases) auto
qed


lemma other_bucket_farther:
  assumes "kad_ok pid k" "wf_id i" "n = bucket_id k i" "j < 256" "j \<noteq> n"
    and "p \<in> set (k_peer_buckets k ! n)" "q \<in> set (k_peer_buckets k ! j)"
  shows "leading_agreement_bits_xor (id_bytes i) (id_bytes (pid q)) < leading_agreement_bits_xor (id_bytes i) (id_bytes (pid p))"
proof -
  let ?s = "id_bytes (k_id k)" and ?i = "id_bytes i" and ?p = "id_bytes (pid p)" and ?q = "id_bytes (pid q)"
  have n: "n < 256" using assms(3) by simp
  have w: "length ?s = 32" "length ?i = 32" "length ?p = 32" "length ?q = 32"
    using assms(1,2) kad_ok_bucket(3)[OF assms(1) n assms(6)] kad_ok_bucket(3)[OF assms(1,4,7)]
    by (auto simp: kad_ok_def wf_newtypes byte_counts)
  have b: "min (leading_agreement_bits_xor ?s ?i) 255 = n" "min (leading_agreement_bits_xor ?s ?p) 255 = n"
      "min (leading_agreement_bits_xor ?s ?q) 255 = j"
    using assms(3) kad_ok_bucket(3)[OF assms(1) n assms(6)] kad_ok_bucket(3)[OF assms(1,4,7)]
    by (auto simp: bucket_id_def)
  have q: "leading_agreement_bits_xor ?i ?q = min (leading_agreement_bits_xor ?s ?i) (leading_agreement_bits_xor ?s ?q)"
    using b assms(5) by (intro agreement_other_branch[OF w(1,2,4) refl refl]) auto
  show ?thesis
  proof (cases "n < 255")
    case True
    then have "n < leading_agreement_bits_xor ?i ?p"
      using b by (intro agreement_same_branch[OF w(1,2,3)]) (auto simp: min_def split: if_splits)
    with q b(1) True show ?thesis by (auto simp: min_def split: if_splits)
  next
    case False
    then have "255 \<le> leading_agreement_bits_xor ?i ?p"
      using b n leading_agreement_min[of ?i ?s ?p] leading_agreement_sym[of ?i ?s] by (auto simp: min_def split: if_splits)
    with q b assms(4,5) False n show ?thesis by (auto simp: min_def split: if_splits)
  qed
qed

definition sorts_desc :: "((nat \<times> 'p) list \<Rightarrow> (nat \<times> 'p) list) \<Rightarrow> bool" where
  "sorts_desc f \<longleftrightarrow> (\<forall>xs. mset (f xs) = mset xs \<and> sorted_wrt (\<lambda>a b. fst b \<le> fst a) (f xs))"

definition rank_in :: "(nat \<times> 'p) list \<Rightarrow> nat \<Rightarrow> nat" where
  "rank_in xs a = length (List.filter (\<lambda>y. a < fst y) xs)"

lemma takeWhile_sorted_desc:
  "sorted_wrt (\<lambda>a b. fst b \<le> fst a) xs \<Longrightarrow> takeWhile (\<lambda>(a, p). (t :: nat) \<le> a) xs = List.filter (\<lambda>(a, p). t \<le> a) xs"
proof (induction xs)
  case (Cons x xs)
  show ?case
  proof (cases "t \<le> fst x")
    case False
    with Cons.prems have "List.filter (\<lambda>(a, p). t \<le> a) xs = []" by (fastforce simp: filter_empty_conv)
    with False show ?thesis by (cases x) simp
  qed (use Cons in \<open>simp add: case_prod_beta\<close>)
qed simp

lemma rank_in_append: "rank_in (xs @ ys) a = rank_in xs a + rank_in ys a"
  by (simp add: rank_in_def)

lemma rank_threshold:
  assumes "sorted_wrt (\<lambda>a b. fst b \<le> fst a) (xs :: (nat \<times> 'p) list)" "0 < m" "m \<le> length xs"
  shows "fst (xs ! (m - 1)) \<le> a \<longleftrightarrow> rank_in xs a < m"
proof
  assume t: "fst (xs ! (m - 1)) \<le> a"
  have "\<not> a < fst y" if y: "y \<in> set (drop (m - 1) xs)" for y
  proof -
    obtain j where "j < length xs - (m - 1)" "y = xs ! (m - 1 + j)"
      using y assms(3) by (auto simp: in_set_conv_nth)
    then have "fst y \<le> fst (xs ! (m - 1))"
      using sorted_wrt_nth_less[OF assms(1), of "m - 1" "m - 1 + j"] by (cases j) auto
    with t show ?thesis by simp
  qed
  then have "List.filter (\<lambda>y. a < fst y) (drop (m - 1) xs) = []" by (simp add: filter_empty_conv)
  then have "rank_in xs a = length (List.filter (\<lambda>y. a < fst y) (take (m - 1) xs))"
    using rank_in_append[of "take (m - 1) xs" "drop (m - 1) xs" a] by (simp add: rank_in_def)
  also have "\<dots> \<le> length (take (m - 1) xs)" by (rule length_filter_le)
  also have "\<dots> \<le> m - 1" by simp
  finally show "rank_in xs a < m" using assms(2) by simp
next
  assume r: "rank_in xs a < m"
  show "fst (xs ! (m - 1)) \<le> a"
  proof (rule ccontr)
    assume n: "\<not> fst (xs ! (m - 1)) \<le> a"
    have "a < fst y" if y: "y \<in> set (take m xs)" for y
    proof -
      obtain j where "j < m" "y = xs ! j" using y assms(3) by (auto simp: in_set_conv_nth)
      then have "fst (xs ! (m - 1)) \<le> fst y"
        using sorted_wrt_nth_less[OF assms(1), of j "m - 1"] assms(2,3) by (cases "j = m - 1") auto
      with n show ?thesis by simp
    qed
    then have "List.filter (\<lambda>y. a < fst y) (take m xs) = take m xs" by (simp add: filter_id_conv)
    then have "m \<le> rank_in xs a"
      using rank_in_append[of "take m xs" "drop m xs" a] assms(3) by (simp add: rank_in_def)
    with r show False by simp
  qed
qed

lemma rank_in_mset: "mset xs = mset ys \<Longrightarrow> rank_in xs a = rank_in ys a"
  unfolding rank_in_def by (metis mset_filter size_mset)

lemma rank_less_length: "(a, p) \<in> set xs \<Longrightarrow> rank_in xs a < length xs"
  unfolding rank_in_def by (rule length_filter_less[where x = "(a, p)"]) auto

lemma distinct_sub_mset:
  assumes "mset xs \<subseteq># mset ys" "distinct ys"
  shows "distinct xs"
proof -
  obtain zs where "mset ys = mset xs + mset zs"
    using assms(1) by (metis ex_mset mset_subset_eq_exists_conv)
  then have "mset ys = mset (xs @ zs)" by simp
  then show ?thesis using assms(2) mset_eq_imp_distinct_iff by fastforce
qed

definition nearness :: "('p \<Rightarrow> id) \<Rightarrow> id \<Rightarrow> 'p \<Rightarrow> nat" where
  "nearness pid i p = leading_agreement_bits_xor (id_bytes i) (id_bytes (pid p))"

text \<open>The reference: a peer is among the nearest when fewer than \<open>max_peers\<close> peers of the whole table are strictly nearer.\<close>

definition nearest_set :: "('p \<Rightarrow> id) \<Rightarrow> 'p kademlia \<Rightarrow> id \<Rightarrow> nat \<Rightarrow> 'p set" where
  "nearest_set pid k i max_peers = {p \<in> set (get_all_peers k).
     length (List.filter (\<lambda>q. nearness pid i p < nearness pid i q) (get_all_peers k)) < max_peers}"

lemma rank_in_nearness:
  "rank_in (map (\<lambda>p. (nearness pid i p, p)) ps) a = length (List.filter (\<lambda>q. a < nearness pid i q) ps)"
  by (simp add: rank_in_def filter_map comp_def)

lemma selected_by_rank:
  fixes ps :: "'p list"
  assumes "sorts_desc srt" "0 < max_peers" "L = srt (map (\<lambda>p. (nearness pid i p, p)) ps)"
    and "thr = (if length L \<le> max_peers then 0 else fst (L ! (max_peers - 1)))"
  shows "set (map snd (takeWhile (\<lambda>(a, p). thr \<le> a) L))
      = {p \<in> set ps. length (List.filter (\<lambda>q. nearness pid i p < nearness pid i q) ps) < max_peers}"
    "mset (map snd (takeWhile (\<lambda>(a, p). thr \<le> a) L)) \<subseteq># mset ps"
    "sorted_wrt (\<lambda>p q. nearness pid i q \<le> nearness pid i p) (map snd (takeWhile (\<lambda>(a, p). thr \<le> a) L))"
proof -
  have L: "mset L = mset (map (\<lambda>p. (nearness pid i p, p)) ps)" "sorted_wrt (\<lambda>a b. fst b \<le> fst a) L"
    using assms(1,3) by (auto simp: sorts_desc_def)
  then have sL: "set L = (\<lambda>p. (nearness pid i p, p)) ` set ps" by (metis list.set_map set_mset_mset)
  have tw: "takeWhile (\<lambda>(a, p). thr \<le> a) L = List.filter (\<lambda>(a, p). thr \<le> a) L"
    by (rule takeWhile_sorted_desc[OF L(2)])
  have thr: "thr \<le> nearness pid i p \<longleftrightarrow> length (List.filter (\<lambda>q. nearness pid i p < nearness pid i q) ps) < max_peers"
    if p: "p \<in> set ps" for p
  proof (cases "length L \<le> max_peers")
    case True
    have "(nearness pid i p, p) \<in> set L" using p sL by auto
    then have "rank_in L (nearness pid i p) < length L" by (rule rank_less_length)
    then show ?thesis using True assms(4) rank_in_mset[OF L(1)] by (simp add: rank_in_nearness)
  next
    case False
    then show ?thesis using assms(2,4) rank_threshold[OF L(2), of max_peers "nearness pid i p"] rank_in_mset[OF L(1)]
      by (simp add: rank_in_nearness)
  qed
  show "set (map snd (takeWhile (\<lambda>(a, p). thr \<le> a) L))
      = {p \<in> set ps. length (List.filter (\<lambda>q. nearness pid i p < nearness pid i q) ps) < max_peers}"
  proof -
    have "set (map snd (takeWhile (\<lambda>(a, p). thr \<le> a) L)) = snd ` {x \<in> (\<lambda>p. (nearness pid i p, p)) ` set ps. thr \<le> fst x}"
      using sL by (simp add: tw case_prod_beta)
    also have "\<dots> = {p \<in> set ps. thr \<le> nearness pid i p}" by (auto simp: image_iff)
    also have "\<dots> = {p \<in> set ps. length (List.filter (\<lambda>q. nearness pid i p < nearness pid i q) ps) < max_peers}"
      using thr by blast
    finally show ?thesis .
  qed
  have "mset (map snd L) = mset ps" by (simp add: L(1) multiset.map_comp comp_def)
  moreover have "mset (map snd (takeWhile (\<lambda>(a, p). thr \<le> a) L)) \<subseteq># mset (map snd L)"
    by (metis map_append mset_append mset_subset_eq_add_left takeWhile_dropWhile_id)
  ultimately show "mset (map snd (takeWhile (\<lambda>(a, p). thr \<le> a) L)) \<subseteq># mset ps" by simp
  have "sorted_wrt (\<lambda>a b. fst b \<le> fst a) (takeWhile (\<lambda>(a, p). thr \<le> a) L)"
    unfolding tw by (rule sorted_wrt_filter[OF L(2)])
  moreover have "fst x = nearness pid i (snd x)" if "x \<in> set (takeWhile (\<lambda>(a, p). thr \<le> a) L)" for x
    using that sL by (auto dest!: set_takeWhileD)
  ultimately show "sorted_wrt (\<lambda>p q. nearness pid i q \<le> nearness pid i p) (map snd (takeWhile (\<lambda>(a, p). thr \<le> a) L))"
    by (simp add: sorted_wrt_map) (erule sorted_wrt_mono_rel[rotated], simp)
qed


text \<open>C26: for every key, the table answers with exactly the peers that have fewer than the requested number of strictly
  nearer peers in the whole table (so all ties of the last one are included), nearest first and without duplicates,
  whether or not the fast path through the key's own bucket was taken, and however the sort orders ties.\<close>

theorem kademlia_nearest_peers:
  assumes "kad_ok pid k" "wf_id i" "sorts_desc srt" "0 < max_peers"
  shows "\<exists>ps. get_peers_for_key pid srt k i max_peers = Inr (ps, list_ex (\<lambda>p. pid p = k_id k) ps)
    \<and> set ps = nearest_set pid k i max_peers \<and> distinct (map pid ps)
    \<and> sorted_wrt (\<lambda>p q. nearness pid i q \<le> nearness pid i p) ps"
proof -
  let ?n = "bucket_id k i"
  let ?b = "k_peer_buckets k ! ?n"
  have len: "length (k_peer_buckets k) = 256" using assms(1) by (simp add: kad_ok_def)
  define others where "others = concat (take ?n (k_peer_buckets k)) @ concat (drop (Suc ?n) (k_peer_buckets k))"
  have split: "mset (get_all_peers k) = mset ?b + mset others"
    using id_take_nth_drop[of ?n "k_peer_buckets k"] len
    by (simp add: get_all_peers_def others_def) (metis concat.simps(2) concat_append mset_append union_assoc union_commute)
  have far: "nearness pid i q < nearness pid i p" if p: "p \<in> set ?b" and q: "q \<in> set others" for p q
  proof -
    obtain B where B: "B \<in> set (take ?n (k_peer_buckets k)) \<or> B \<in> set (drop (Suc ?n) (k_peer_buckets k))" "q \<in> set B"
      using q by (auto simp: others_def)
    have "\<exists>j < 256. j \<noteq> ?n \<and> B = k_peer_buckets k ! j"
    proof (cases "B \<in> set (take ?n (k_peer_buckets k))")
      case True
      have le: "?n \<le> length (k_peer_buckets k)" using len by (simp add: less_imp_le)
      obtain j where "j < ?n" "B = k_peer_buckets k ! j" using True unfolding set_take_nth[OF le] by auto
      then show ?thesis using less_trans[OF _ bucket_id_less(1)] by (intro exI[of _ j]) auto
    next
      case False
      then obtain j where "j < 255 - ?n" "B = k_peer_buckets k ! (Suc ?n + j)"
        using B(1) len by (auto simp: in_set_conv_nth[of _ "drop _ _"])
      then show ?thesis by (intro exI[of _ "Suc ?n + j"]) simp
    qed
    with B(2) obtain j where "j < 256" "j \<noteq> ?n" "q \<in> set (k_peer_buckets k ! j)" by blast
    then show ?thesis unfolding nearness_def by (intro other_bucket_farther[OF assms(1,2) refl _ _ p])
  qed
  define src where "src = (if length ?b \<ge> max_peers then ?b else get_all_peers k)"
  define L where "L = srt (map (\<lambda>p. (nearness pid i p, p)) src)"
  define thr where "thr = (if length L \<le> max_peers then 0 else fst (L ! (max_peers - 1)))"
  define ps where "ps = map snd (takeWhile (\<lambda>(a, p). thr \<le> a) L)"
  note sel = selected_by_rank[OF assms(3,4) L_def thr_def, folded ps_def]
  have res: "get_peers_for_key pid srt k i max_peers = Inr (ps, list_ex (\<lambda>p. pid p = k_id k) ps)"
    using assms(4)
    by (simp add: get_peers_for_key_def get_bucket_for_id_def Let_def nearness_def[symmetric] src_def L_def thr_def ps_def get_all_peers_def)
  have rank: "length (List.filter (\<lambda>q. a < nearness pid i q) (get_all_peers k))
      = length (List.filter (\<lambda>q. a < nearness pid i q) ?b) + length (List.filter (\<lambda>q. a < nearness pid i q) others)" for a
    using split by (metis mset_filter size_mset size_union filter_union_mset)
  have "set ps = nearest_set pid k i max_peers"
  proof (cases "length ?b \<ge> max_peers")
    case False
    then show ?thesis using sel(1) by (simp add: src_def nearest_set_def)
  next
    case True
    have near: "List.filter (\<lambda>q. nearness pid i p < nearness pid i q) others = []" if "p \<in> set ?b" for p
      using far[OF that] by (auto simp: filter_empty_conv dest: less_asym)
    have "List.filter (\<lambda>q. nearness pid i p < nearness pid i q) ?b = ?b" if "p \<in> set others" for p
      using far[OF _ that] by (auto simp: filter_id_conv)
    then have not_near: "\<not> length (List.filter (\<lambda>q. nearness pid i p < nearness pid i q) (get_all_peers k)) < max_peers"
      if "p \<in> set others" for p
      using rank[of "nearness pid i p"] True that by simp
    have "set (get_all_peers k) = set ?b \<union> set others" using split by (metis set_mset_mset set_mset_union)
    then show ?thesis using sel(1) True near not_near rank by (auto simp: src_def nearest_set_def)
  qed
  moreover have "distinct (map pid ps)"
  proof -
    have "distinct (map pid src)"
      using kad_ok_distinct[OF assms(1)] kad_ok_bucket(2)[OF assms(1) bucket_id_less(1), of k i] by (simp add: src_def)
    moreover have "mset (map pid ps) \<subseteq># mset (map pid src)" using image_mset_subseteq_mono[OF sel(2)] by simp
    ultimately show ?thesis using distinct_sub_mset by blast
  qed
  ultimately show ?thesis using res sel(3) by blast
qed

definition toy_table :: "id kademlia" where
  "toy_table = add_peer (\<lambda>i. i) (\<lambda>p t. 1) (Id (128 # replicate 31 0)) 5 (kad_new Id_zero 2)"

lemma toy_table_ok: "kad_ok (\<lambda>i. i) toy_table"
  unfolding toy_table_def
  by (intro kad_ok_add kad_ok_new) (simp_all add: wf_newtypes byte_counts Id_zero_def)

lemma rev_sort_key_desc: "sorts_desc (\<lambda>xs. rev (sort_key fst xs))"
  unfolding sorts_desc_def
proof (intro allI conjI)
  show "sorted_wrt (\<lambda>a b. fst b \<le> fst a) (rev (sort_key fst xs))" for xs :: "(nat \<times> 'p) list"
    using sorted_sort_key[of fst xs] by (simp add: sorted_wrt_rev sorted_map)
qed simp

theorem kademlia_nearest_peers_witness:
  "\<exists>ps. get_peers_for_key (\<lambda>i. i) (\<lambda>xs. rev (sort_key fst xs)) toy_table Id_zero 3
      = Inr (ps, list_ex (\<lambda>p. p = k_id toy_table) ps)
    \<and> set ps = nearest_set (\<lambda>i. i) toy_table Id_zero 3 \<and> distinct (map (\<lambda>i. i) ps)
    \<and> sorted_wrt (\<lambda>p q. nearness (\<lambda>i. i) Id_zero q \<le> nearness (\<lambda>i. i) Id_zero p) ps"
  using kademlia_nearest_peers[OF toy_table_ok wf_zero(1) rev_sort_key_desc, of 3] by simp

theorem kademlia_reachable_invariant_witness:
  "length (k_peer_buckets toy_table) = 256 \<and> distinct (map (\<lambda>i. i) (get_all_peers toy_table)) \<and> kad_len toy_table \<le> 256 * 2
    \<and> list_all (\<lambda>n. length (k_peer_buckets toy_table ! n) \<le> 2
        \<and> list_all (\<lambda>p. min (leading_agreement_bits_xor (id_bytes Id_zero) (id_bytes p)) 255 = n) (k_peer_buckets toy_table ! n))
      [0..<256]"
proof -
  have "kad_reachable (\<lambda>i. i) (\<lambda>p t. 1) Id_zero 2 toy_table"
    unfolding toy_table_def
    by (intro kad_reachable.step[OF kad_reachable.start] kad_step.add) (simp add: wf_newtypes byte_counts)
  from kademlia_reachable_invariant[OF this] show ?thesis by simp
qed

theorem kademlia_add_effect_witness:
  "let k' = add_peer (\<lambda>i. i) (\<lambda>p t. 1) Id_zero 7 toy_table; b = get_bucket_for_id toy_table Id_zero in
   set (get_all_peers k') \<subseteq> insert Id_zero (set (get_all_peers toy_table))
    \<and> (Id_zero \<notin> set (get_all_peers k') \<longrightarrow> set (get_all_peers k') = set (get_all_peers toy_table)
        \<and> ((\<exists>q \<in> set b. q = Id_zero \<and> (1 :: real) \<le> 1)
          \<or> k_max_peers_per_bucket toy_table \<le> length b \<and> (\<forall>q \<in> set b. (1 :: real) \<le> 1)))
    \<and> (dropped toy_table k' = {} \<or> (\<exists>q. dropped toy_table k' = {q} \<and> (1 :: real) < 1
        \<and> (q = Id_zero \<or> k_max_peers_per_bucket toy_table \<le> length b \<and> (\<forall>r \<in> set b. (1 :: real) \<le> 1))))"
  unfolding Let_def by (rule kademlia_add_effect[OF toy_table_ok wf_zero(1) refl refl])

text \<open>The random sample has the requested size (one peer at least) and draws from the table, with
  repetitions; a small table is returned whole.\<close>

lemma random_peers_loop_sound:
  "random_peers_loop bs m ps rs = Some (qs, rs') \<Longrightarrow> length ps < max 1 m \<Longrightarrow> set ps \<subseteq> set (concat bs) \<Longrightarrow>
   length qs = max 1 m \<and> set qs \<subseteq> set (concat bs)"
proof (induction bs m ps rs rule: random_peers_loop.induct)
  case (1 bs m ps rs)
  from "1.prems"(1) obtain b rs1 where b: "random_element bs rs = Some (Inr b, rs1)"
    by (subst (asm) random_peers_loop.simps) (auto split: option.splits sum.splits)
  show ?case
  proof (cases "b = []")
    case True
    then show ?thesis using 1 b by (subst (asm) random_peers_loop.simps) simp
  next
    case False
    then obtain p rs2 where p: "random_element b rs1 = Some (Inr p, rs2)"
      using "1.prems"(1) b by (subst (asm) random_peers_loop.simps) (auto split: option.splits sum.splits)
    then have in_bs: "set (ps @ [p]) \<subseteq> set (concat bs)"
      using random_element_Inr[OF b] random_element_Inr[OF p] "1.prems"(3) by auto
    show ?thesis
    proof (cases "length (ps @ [p]) \<ge> m")
      case True
      then have "qs = ps @ [p]"
        using "1.prems"(1) b p False by (subst (asm) random_peers_loop.simps) (simp add: Let_def)
      then show ?thesis using True in_bs "1.prems"(2) by auto
    next
      case more: False
      then have "random_peers_loop bs m (ps @ [p]) rs2 = Some (qs, rs')"
        using "1.prems"(1) b p False by (subst (asm) random_peers_loop.simps) (simp add: Let_def)
      then show ?thesis using "1.IH"(2)[OF b refl refl False p refl refl refl more] in_bs more by simp
    qed
  qed
qed

text \<open>the random sample of a table never invents peers: it is the whole table when that is small enough, and otherwise
  exactly as many peers as asked (at least one), all from the table, possibly with repetitions.\<close>

theorem kademlia_random_peers:
  assumes "get_peers_random k max_peers rs = Some (ps, rs')"
  shows "set ps \<subseteq> set (get_all_peers k)
    \<and> length ps = (if kad_len k \<le> max_peers then kad_len k else max 1 max_peers)"
  using assms random_peers_loop_sound[of "k_peer_buckets k" max_peers "[]" rs ps rs']
  by (auto simp: get_peers_random_def get_all_peers_def kad_len_sum split: if_splits)

end
