(* ===== verification/Tracker.thy ===== *)
theory Tracker
  imports Rpc Kademlia "HOL-Library.AList"
begin

text \<open>
  The client's view of the network: \<open>client/peer_tracker/peer_tracker.rs\<close>, the sorted vector of known peers,
  \<open>client/peer_tracker/peer_iterator.rs\<close>, the walk from near to far, and \<open>client/caching/cache_radius_tracker.rs\<close>, which moves the
  start of that walk outwards. The vector is a list, the binary search is the one of the standard library, and the loop of
  \<open>next_peer\<close>, which need not end, is a partial function.
\<close>

section \<open>The sorted vector\<close>

text \<open>\<open>slice::binary_search_by_key\<close> of the standard library: halve the size, keep the base at or below the key, and compare once
  at the end. \<open>Inr i\<close> is a hit, \<open>Inl i\<close> the place to insert.\<close>

function search_base :: "('p \<Rightarrow> 'k::linorder) \<Rightarrow> 'k \<Rightarrow> 'p list \<Rightarrow> nat \<Rightarrow> nat \<Rightarrow> nat" where
  "search_base key k xs base sz =
     (if sz \<le> 1 then base
      else let half = sz div 2; mid = base + half
           in search_base key k xs (if key (xs ! mid) > k then base else mid) (sz - half))"
  by pat_completeness auto
termination
  by (relation "measure (\<lambda>(key, k, xs, base, sz). sz)") auto

declare search_base.simps [simp del]

definition binary_search_by_key :: "('p \<Rightarrow> 'k::linorder) \<Rightarrow> 'k \<Rightarrow> 'p list \<Rightarrow> nat + nat" where
  "binary_search_by_key key k xs =
     (if xs = [] then Inl 0
      else let base = search_base key k xs 0 (length xs)
           in if key (xs ! base) = k then Inr base
              else Inl (base + (if key (xs ! base) < k then 1 else 0)))"

definition vec_insert :: "nat \<Rightarrow> 'p \<Rightarrow> 'p list \<Rightarrow> 'p list" where
  "vec_insert i x xs = take i xs @ x # drop i xs"

definition vec_remove :: "nat \<Rightarrow> 'p list \<Rightarrow> 'p list" where
  "vec_remove i xs = take i xs @ drop (i + 1) xs"

lemma search_base_spec:
  assumes "sorted (map key xs)" "base + sz \<le> length xs" "1 \<le> sz"
    and "\<forall>j < base. key (xs ! j) \<le> k" "\<forall>j. base + sz \<le> j \<and> j < length xs \<longrightarrow> k < key (xs ! j)"
    and "base = 0 \<or> key (xs ! base) \<le> k"
  shows "let b = search_base key k xs base sz in b < length xs \<and> (b = 0 \<or> key (xs ! b) \<le> k)
    \<and> (\<forall>j < b. key (xs ! j) \<le> k) \<and> (\<forall>j. b < j \<and> j < length xs \<longrightarrow> k < key (xs ! j))"
  using assms
proof (induction key k xs base sz rule: search_base.induct)
  case (1 key k xs base sz)
  show ?case
  proof (cases "sz \<le> 1")
    case True
    with 1(4) have "sz = 1" by simp
    with 1 show ?thesis by (subst search_base.simps) (auto simp: Let_def Suc_le_eq)
  next
    case False
    let ?half = "sz div 2" and ?mid = "base + sz div 2"
    have mono: "\<And>i j. i \<le> j \<Longrightarrow> j < length xs \<Longrightarrow> key (xs ! i) \<le> key (xs ! j)"
      using 1(2) by (simp add: sorted_iff_nth_mono)
    have m: "?mid < length xs" "1 \<le> sz - ?half" using 1(3) False by auto
    let ?base' = "if key (xs ! ?mid) > k then base else ?mid"
    have "let b = search_base key k xs ?base' (sz - ?half) in b < length xs \<and> (b = 0 \<or> key (xs ! b) \<le> k)
      \<and> (\<forall>j < b. key (xs ! j) \<le> k) \<and> (\<forall>j. b < j \<and> j < length xs \<longrightarrow> k < key (xs ! j))"
    proof (rule 1(1)[OF False refl refl])
      show "?base' + (sz - ?half) \<le> length xs" using 1(3) m by auto
      show "\<forall>j < ?base'. key (xs ! j) \<le> k"
        using 1(5) mono m by (auto simp: not_less) (meson less_imp_le order_trans)
      show "\<forall>j. ?base' + (sz - ?half) \<le> j \<and> j < length xs \<longrightarrow> k < key (xs ! j)"
      proof (cases "key (xs ! ?mid) > k")
        case True
        then show ?thesis using mono[of ?mid] by (auto intro: less_le_trans)
      next
        case lo: False
        then show ?thesis using 1(6) by auto
      qed
      show "?base' = 0 \<or> key (xs ! ?base') \<le> k" using 1(7) by (auto simp: not_less)
      show "sorted (map key xs)" by (rule 1(2))
      show "1 \<le> sz - ?half" by (rule m(2))
    qed
    moreover have "search_base key k xs base sz = search_base key k xs ?base' (sz - ?half)"
      by (subst search_base.simps) (simp only: False if_False Let_def)
    ultimately show ?thesis by (simp only:)
  qed
qed

lemma binary_search_spec:
  assumes "sorted_wrt (<) (map key xs)"
  shows "case binary_search_by_key key k xs of
      Inr i \<Rightarrow> i < length xs \<and> key (xs ! i) = k
    | Inl i \<Rightarrow> i \<le> length xs \<and> (\<forall>j < i. key (xs ! j) < k) \<and> (\<forall>j. i \<le> j \<and> j < length xs \<longrightarrow> k < key (xs ! j))"
proof (cases "xs = []")
  case False
  let ?b = "search_base key k xs 0 (length xs)"
  have s: "sorted (map key xs)" using assms strict_sorted_iff by blast
  have h: "\<forall>j. 0 + length xs \<le> j \<and> j < length xs \<longrightarrow> k < key (xs ! j)" by auto
  have sp: "?b < length xs" "?b = 0 \<or> key (xs ! ?b) \<le> k" "\<forall>j < ?b. key (xs ! j) \<le> k"
      "\<forall>j. ?b < j \<and> j < length xs \<longrightarrow> k < key (xs ! j)"
    using search_base_spec[OF s _ _ _ h] False by (simp_all add: Let_def Suc_le_eq)
  have strict: "i < j \<Longrightarrow> j < length xs \<Longrightarrow> key (xs ! i) < key (xs ! j)" for i j
    using assms by (simp add: sorted_wrt_iff_nth_less)
  consider "key (xs ! ?b) = k" | "key (xs ! ?b) < k" | "k < key (xs ! ?b)" by (rule linorder_cases)
  then show ?thesis
  proof cases
    case 1
    then show ?thesis using sp False by (simp add: binary_search_by_key_def)
  next
    case 2
    have "key (xs ! j) < k" if "j \<le> ?b" for j
      using that strict[of j ?b] sp(1) 2 by (cases "j = ?b") auto
    then show ?thesis using sp False 2 by (auto simp: binary_search_by_key_def Let_def less_Suc_eq_le)
  next
    case 3
    then have "?b = 0" using sp(2) by auto
    with 3 sp False have "k < key (xs ! j)" if "j < length xs" for j
      using that by (cases "j = 0") auto
    moreover have "\<not> key (xs ! ?b) < k" "key (xs ! ?b) \<noteq> k" using 3 by auto
    ultimately show ?thesis using False \<open>?b = 0\<close> by (simp add: binary_search_by_key_def)
  qed
qed (simp add: binary_search_by_key_def)


section \<open>The tracker\<close>

text \<open>The fields of \<open>PeerTracker\<close>. What is persisted is the list handed to \<open>put_struct\<close>; the storage may fail.\<close>

record peer_tracker =
  pt_peers_need_flush :: bool
  pt_peers :: "peer list"

text \<open>A failure to load is logged and starts with no peers. What is loaded is neither sorted nor verified.\<close>

definition PeerTracker_new :: "peer list option res \<Rightarrow> peer_tracker" where
  "PeerTracker_new stored = \<lparr>pt_peers_need_flush = False,
     pt_peers = (case stored of Inr (Some ps) \<Rightarrow> ps | Inr None \<Rightarrow> [] | Inl e \<Rightarrow> [])\<rparr>"

text \<open>The tracker and what is written, if anything: the flag is cleared before the write.\<close>

definition flush :: "(peer list \<Rightarrow> unit res) \<Rightarrow> peer_tracker \<Rightarrow> peer_tracker \<times> peer list option \<times> unit res" where
  "flush put_struct t =
     (if \<not> pt_peers_need_flush t then (t, None, Inr ())
      else (t\<lparr>pt_peers_need_flush := False\<rparr>, Some (pt_peers t), put_struct (pt_peers t)))"

definition tracker_add_peer :: "crypto \<Rightarrow> peer \<Rightarrow> peer_tracker \<Rightarrow> peer_tracker \<times> unit res" where
  "tracker_add_peer C p t =
     (case Peer_verify C p of
        Inl (Panic m) \<Rightarrow> (t, Inl (Panic m))
      | Inl (Bail m) \<Rightarrow> (t, Inl (Bail ''peer verification error''))
      | Inr _ \<Rightarrow>
          if pp_pow (p_pow_initial p) < SERVER_KEY_POW_MIN then (t, Inl (Bail ''peer.pow_initial.pow''))
          else (case binary_search_by_key p_id (p_id p) (pt_peers t) of
              Inr i \<Rightarrow> (t\<lparr>pt_peers := (if p_timestamp p > p_timestamp (pt_peers t ! i) then (pt_peers t)[i := p] else pt_peers t),
                        pt_peers_need_flush := True\<rparr>, Inr ())
            | Inl i \<Rightarrow> (t\<lparr>pt_peers := vec_insert i p (pt_peers t), pt_peers_need_flush := True\<rparr>, Inr ())))"

definition tracker_remove_peer :: "peer \<Rightarrow> peer_tracker \<Rightarrow> peer_tracker" where
  "tracker_remove_peer p t =
     (case binary_search_by_key p_id (p_id p) (pt_peers t) of
        Inr i \<Rightarrow> t\<lparr>pt_peers := vec_remove i (pt_peers t), pt_peers_need_flush := True\<rparr>
      | Inl i \<Rightarrow> t)"

definition tracker_is_empty :: "peer_tracker \<Rightarrow> bool" where
  "tracker_is_empty t \<longleftrightarrow> pt_peers t = []"

definition tracker_len :: "peer_tracker \<Rightarrow> nat" where
  "tracker_len t = length (pt_peers t)"

text \<open>Adding peers whose refusal is only logged.\<close>

fun tracker_add_peers :: "crypto \<Rightarrow> peer list \<Rightarrow> peer_tracker \<Rightarrow> peer_tracker res" where
  "tracker_add_peers C [] t = Inr t"
| "tracker_add_peers C (p # ps) t = (case tracker_add_peer C p t of
     (t', Inl (Panic m)) \<Rightarrow> Inl (Panic m)
   | (t', _) \<Rightarrow> tracker_add_peers C ps t')"

text \<open>The services of each bootstrap address, as shuffled, and the codecs of the bodies.\<close>

record bootstrap_world =
  bw_addresses :: "string list"
  bw_services :: "string \<Rightarrow> runtime_services"
  bw_request_json :: "unit codec"
  bw_response_json :: "bootstrap_response codec"

definition bootstrap_address :: "bootstrap_world \<Rightarrow> string \<Rightarrow> bootstrap_response res" where
  "bootstrap_address B address =
     rbind (rpc_server_unknown (bw_services B address) Id_zero address BootstrapV1 (enc (bw_request_json B) ())) (\<lambda>rx.
     rbind (ensure (rr_response_request_kind rx = BootstrapResponseV1) ''response kind'') (\<lambda>_.
       of_option ''json'' (dec (bw_response_json B) (rr_bytes rx))))"

fun tracker_bootstrap_loop :: "crypto \<Rightarrow> bootstrap_world \<Rightarrow> string list \<Rightarrow> peer_tracker \<Rightarrow> peer_tracker res" where
  "tracker_bootstrap_loop C B [] t = Inr t"
| "tracker_bootstrap_loop C B (a # as) t =
     rbind (case bootstrap_address B a of
         Inr response \<Rightarrow> tracker_add_peers C (br_peers_random response) t
       | Inl (Bail m) \<Rightarrow> Inr t
       | Inl (Panic m) \<Rightarrow> Inl (Panic m)) (\<lambda>t'.
       if tracker_is_empty t' then tracker_bootstrap_loop C B as t' else Inr t')"

definition tracker_bootstrap :: "crypto \<Rightarrow> bootstrap_world \<Rightarrow> peer_tracker \<Rightarrow> peer_tracker res" where
  "tracker_bootstrap C B t =
     (if \<not> tracker_is_empty t then Inr t else tracker_bootstrap_loop C B (bw_addresses B) t)"


section \<open>The walk\<close>

record peer_iterator =
  pi_bucket_location_id :: id
  pi_max_iterations_since_high_watermark :: nat
  pi_peers_already_queried :: "id set"
  pi_high_watermark :: nat
  pi_iterations_since_high_watermark :: nat
  pi_cache_radius :: "nat option"

definition PeerIterator_new :: "id \<Rightarrow> nat \<Rightarrow> nat option \<Rightarrow> peer_iterator" where
  "PeerIterator_new loc max_iterations radius =
     \<lparr>pi_bucket_location_id = loc, pi_max_iterations_since_high_watermark = max_iterations, pi_peers_already_queried = {},
      pi_high_watermark = 0, pi_iterations_since_high_watermark = 0, pi_cache_radius = radius\<rparr>"

definition iterate_to_location :: "crypto \<Rightarrow> bootstrap_world \<Rightarrow> id \<Rightarrow> nat \<Rightarrow> nat option \<Rightarrow> peer_tracker
    \<Rightarrow> (peer_tracker \<times> peer_iterator) res" where
  "iterate_to_location C B loc max_iterations radius t =
     rbind (tracker_bootstrap C B t) (\<lambda>t'. Inr (t', PeerIterator_new loc max_iterations radius))"

definition peer_agreement :: "id \<Rightarrow> peer \<Rightarrow> nat" where
  "peer_agreement loc p = leading_agreement_bits_xor (id_bytes loc) (id_bytes (p_id p))"

definition unvisited :: "peer_iterator \<Rightarrow> peer list \<Rightarrow> peer list" where
  "unvisited it ps = List.filter (\<lambda>p. p_id p \<notin> pi_peers_already_queried it) ps"

definition within_radius :: "peer_iterator \<Rightarrow> peer \<Rightarrow> bool" where
  "within_radius it p \<longleftrightarrow> (case pi_cache_radius it of None \<Rightarrow> True | Some r \<Rightarrow> peer_agreement (pi_bucket_location_id it) p < r)"

definition nearest_peer :: "peer_iterator \<Rightarrow> peer list \<Rightarrow> peer option" where
  "nearest_peer it ps = max_by_key (peer_agreement (pi_bucket_location_id it)) (List.filter (within_radius it) (unvisited it ps))"

definition widen :: "nat \<Rightarrow> nat" where
  "widen r = min (r + 1) 256"

text \<open>The branch of a found peer: it is marked, then either moves the watermark, or counts against the limit.\<close>

definition visit_peer :: "peer \<Rightarrow> peer_iterator \<Rightarrow> peer_iterator \<times> (peer \<times> nat) option" where
  "visit_peer p it =
     (let lab = peer_agreement (pi_bucket_location_id it) p;
          it1 = it\<lparr>pi_peers_already_queried := insert (p_id p) (pi_peers_already_queried it)\<rparr>;
          it2 = (if lab > pi_high_watermark it then it1\<lparr>pi_high_watermark := lab, pi_iterations_since_high_watermark := 0\<rparr>
                 else it1\<lparr>pi_iterations_since_high_watermark := pi_iterations_since_high_watermark it + 1\<rparr>)
      in if \<not> lab > pi_high_watermark it \<and> pi_iterations_since_high_watermark it2 > pi_max_iterations_since_high_watermark it
         then (it2, None)
         else (it2\<lparr>pi_cache_radius := map_option widen (pi_cache_radius it)\<rparr>, Some (p, lab)))"

text \<open>The loop: \<open>None\<close> of the outer option is a call that does not return.\<close>

partial_function (option) next_peer :: "peer list \<Rightarrow> peer_iterator \<Rightarrow> (peer_iterator \<times> (peer \<times> nat) option) option" where
  "next_peer ps it =
     (case nearest_peer it ps of
        Some p \<Rightarrow> Some (visit_peer p it)
      | None \<Rightarrow>
          if unvisited it ps = [] then Some (it, None)
          else (case pi_cache_radius it of
              None \<Rightarrow> Some (it, None)
            | Some r \<Rightarrow> next_peer ps (it\<lparr>pi_cache_radius := Some (widen r)\<rparr>)))"

declare next_peer.simps [code]


section \<open>Cache radii\<close>

record cache_radius_tracker =
  cr_radii :: "(id \<times> nat \<times> time_millis) list"
  cr_ttl :: duration_millis

definition CacheRadiusTracker_new :: "duration_millis \<Rightarrow> cache_radius_tracker" where
  "CacheRadiusTracker_new ttl = \<lparr>cr_radii = [], cr_ttl = ttl\<rparr>"

definition cache_radius_get :: "id \<Rightarrow> time_millis \<Rightarrow> cache_radius_tracker \<Rightarrow> nat option" where
  "cache_radius_get loc now c = (case map_of (cr_radii c) loc of
     Some (radius, stored_at) \<Rightarrow> if time_sub now stored_at < cr_ttl c then Some radius else None
   | None \<Rightarrow> None)"

definition cache_radius_update :: "id \<Rightarrow> nat \<Rightarrow> time_millis \<Rightarrow> cache_radius_tracker \<Rightarrow> cache_radius_tracker" where
  "cache_radius_update loc radius now c = c\<lparr>cr_radii := AList.update loc (radius, now) (cr_radii c)\<rparr>"


section \<open>The tracker is a map to the newest records\<close>

definition acceptable :: "crypto \<Rightarrow> peer \<Rightarrow> bool" where
  "acceptable C p \<longleftrightarrow> Peer_verify C p = Inr () \<and> SERVER_KEY_POW_MIN \<le> pp_pow (p_pow_initial p)"

definition tracker_ok :: "crypto \<Rightarrow> peer_tracker \<Rightarrow> bool" where
  "tracker_ok C t \<longleftrightarrow> sorted_wrt (<) (map p_id (pt_peers t)) \<and> list_all (acceptable C) (pt_peers t)"

definition tracked :: "peer_tracker \<Rightarrow> id \<rightharpoonup> peer" where
  "tracked t = map_of (map (\<lambda>p. (p_id p, p)) (pt_peers t))"

text \<open>The abstract operation: keep the record with the larger timestamp.\<close>

definition newer_of :: "peer \<Rightarrow> (id \<rightharpoonup> peer) \<Rightarrow> id \<rightharpoonup> peer" where
  "newer_of p m = (case m (p_id p) of None \<Rightarrow> m(p_id p \<mapsto> p)
     | Some q \<Rightarrow> if p_timestamp p > p_timestamp q then m(p_id p \<mapsto> p) else m)"

lemma keyed_lookup:
  assumes "sorted_wrt (<) (map p_id ps)" "i < length ps"
  shows "map_of (map (\<lambda>p. (p_id p, p)) ps) (p_id (ps ! i)) = Some (ps ! i)"
proof -
  have "distinct (map fst (map (\<lambda>p. (p_id p, p)) ps))"
    using assms(1) by (simp add: comp_def strict_sorted_iff)
  from map_of_eq_Some_iff[OF this, of "p_id (ps ! i)" "ps ! i"] show ?thesis using assms(2) by auto
qed

lemma keyed_absent:
  assumes "\<forall>j < length ps. p_id (ps ! j) \<noteq> k"
  shows "map_of (map (\<lambda>p. (p_id p, p)) ps) k = None"
  using assms by (auto simp: map_of_eq_None_iff in_set_conv_nth)

lemma keyed_insert:
  assumes "p_id p \<notin> p_id ` set xs"
  shows "map_of (map (\<lambda>p. (p_id p, p)) (xs @ p # ys)) = (map_of (map (\<lambda>p. (p_id p, p)) (xs @ ys)))(p_id p \<mapsto> p)"
proof -
  have "map_of (map (\<lambda>p. (p_id p, p)) xs) (p_id p) = None" using assms by (auto simp: map_of_eq_None_iff)
  then show ?thesis by (auto simp: map_add_def fun_eq_iff split: option.splits)
qed

lemma keyed_update:
  assumes "sorted_wrt (<) (map p_id ps)" "i < length ps" "p_id p = p_id (ps ! i)"
  shows "map_of (map (\<lambda>p. (p_id p, p)) (ps[i := p])) = (map_of (map (\<lambda>p. (p_id p, p)) ps))(p_id p \<mapsto> p)"
proof -
  have sp: "ps = take i ps @ ps ! i # drop (Suc i) ps" using assms(2) by (rule id_take_nth_drop)
  have "sorted_wrt (<) (map p_id (take i ps @ ps ! i # drop (Suc i) ps))" using assms(1) sp by metis
  then have "\<forall>x \<in> set (take i ps). p_id x < p_id (ps ! i)" by (simp add: sorted_wrt_append)
  then have n: "p_id p \<notin> p_id ` set (take i ps)" "p_id (ps ! i) \<notin> p_id ` set (take i ps)" using assms(3) by auto
  have "map_of (map (\<lambda>p. (p_id p, p)) ps) = (map_of (map (\<lambda>p. (p_id p, p)) (take i ps @ drop (Suc i) ps)))(p_id p \<mapsto> ps ! i)"
    using keyed_insert[OF n(2), of "drop (Suc i) ps"] sp assms(3) by metis
  moreover have "map_of (map (\<lambda>p. (p_id p, p)) (ps[i := p]))
      = (map_of (map (\<lambda>p. (p_id p, p)) (take i ps @ drop (Suc i) ps)))(p_id p \<mapsto> p)"
    using keyed_insert[OF n(1), of "drop (Suc i) ps"] upd_conv_take_nth_drop[OF assms(2), of p] by metis
  ultimately show ?thesis by simp
qed

lemma vec_insert_sorted:
  assumes "sorted_wrt (<) (map p_id ps)" "i \<le> length ps" "\<forall>j < i. p_id (ps ! j) < p_id p"
    "\<forall>j. i \<le> j \<and> j < length ps \<longrightarrow> p_id p < p_id (ps ! j)"
  shows "sorted_wrt (<) (map p_id (vec_insert i p ps))" "set (vec_insert i p ps) = insert p (set ps)"
    "map_of (map (\<lambda>p. (p_id p, p)) (vec_insert i p ps)) = (map_of (map (\<lambda>p. (p_id p, p)) ps))(p_id p \<mapsto> p)"
proof -
  have t: "\<forall>x \<in> set (take i ps). p_id x < p_id p" using assms(3) by (auto simp: in_set_conv_nth)
  have d: "\<forall>x \<in> set (drop i ps). p_id p < p_id x" using assms(2,4) by (auto simp: in_set_conv_nth)
  have s: "sorted_wrt (<) (map p_id (take i ps))" "sorted_wrt (<) (map p_id (drop i ps))"
    using assms(1) by (auto simp: take_map[symmetric] drop_map[symmetric] sorted_wrt_take sorted_wrt_drop)
  have td: "\<forall>x \<in> set (take i ps). \<forall>y \<in> set (drop i ps). p_id x < p_id y" using t d by (meson order.strict_trans)
  show "sorted_wrt (<) (map p_id (vec_insert i p ps))"
    using s t d td by (simp add: vec_insert_def sorted_wrt_append)
  show "set (vec_insert i p ps) = insert p (set ps)"
    by (simp add: vec_insert_def) (metis append_take_drop_id set_append)
  have "p_id p \<notin> p_id ` set (take i ps)" using t by auto
  from keyed_insert[OF this, of "drop i ps"]
  show "map_of (map (\<lambda>p. (p_id p, p)) (vec_insert i p ps)) = (map_of (map (\<lambda>p. (p_id p, p)) ps))(p_id p \<mapsto> p)"
    by (simp add: vec_insert_def)
qed

text \<open>A record is added, when it is added, by the abstract operation; the invariant is kept whether it is or not.\<close>

lemma acceptable_accepted:
  assumes "acceptable C p"
  shows "\<exists>t'. tracker_add_peer C p t = (t', Inr ())"
  using assms by (auto simp: acceptable_def tracker_add_peer_def split: sum.splits)

lemma unacceptable_refused:
  assumes "\<not> acceptable C p"
  shows "\<exists>e. tracker_add_peer C p t = (t, Inl e)"
  using assms by (auto simp: acceptable_def tracker_add_peer_def split: sum.splits err.splits)

lemma tracker_add_peer_refines:
  assumes ok: "tracker_ok C t" and add: "tracker_add_peer C p t = (t', Inr ())"
  shows "tracker_ok C t'" "tracked t' = newer_of p (tracked t)"
proof -
  let ?r = "binary_search_by_key p_id (p_id p) (pt_peers t)"
  have s: "sorted_wrt (<) (map p_id (pt_peers t))" and a: "list_all (acceptable C) (pt_peers t)"
    using ok by (simp_all add: tracker_ok_def)
  have p: "acceptable C p" using add unacceptable_refused[of C p t] by fastforce
  then have v: "Peer_verify C p = Inr ()" "\<not> pp_pow (p_pow_initial p) < SERVER_KEY_POW_MIN" by (auto simp: acceptable_def)
  note sp = binary_search_spec[OF s, of "p_id p"]
  have "tracker_ok C t' \<and> tracked t' = newer_of p (tracked t)"
  proof (cases ?r)
    case (Inl i)
    have t': "pt_peers t' = vec_insert i p (pt_peers t)" using add v Inl by (auto simp: tracker_add_peer_def)
    have ia: "i \<le> length (pt_peers t)" "\<forall>j < i. p_id (pt_peers t ! j) < p_id p"
        "\<forall>j. i \<le> j \<and> j < length (pt_peers t) \<longrightarrow> p_id p < p_id (pt_peers t ! j)"
      using sp Inl by simp_all
    note vi = vec_insert_sorted[OF s ia]
    have "\<forall>j < length (pt_peers t). p_id (pt_peers t ! j) \<noteq> p_id p"
      using ia by (metis less_irrefl not_less)
    then have "tracked t (p_id p) = None" unfolding tracked_def by (rule keyed_absent)
    then have "tracked t' = newer_of p (tracked t)" unfolding newer_of_def using vi(3) t' by (simp add: tracked_def)
    moreover have "tracker_ok C t'" using vi(1,2) t' a p by (simp add: tracker_ok_def list_all_iff)
    ultimately show ?thesis by simp
  next
    case (Inr i)
    have i: "i < length (pt_peers t)" "p_id p = p_id (pt_peers t ! i)" using sp Inr by simp_all
    have t': "pt_peers t' = (if p_timestamp p > p_timestamp (pt_peers t ! i) then (pt_peers t)[i := p] else pt_peers t)"
      using add v Inr by (auto simp: tracker_add_peer_def)
    have l: "tracked t (p_id p) = Some (pt_peers t ! i)" unfolding tracked_def using keyed_lookup[OF s i(1)] i(2) by simp
    have "tracked t' = newer_of p (tracked t)" unfolding newer_of_def
      using l t' keyed_update[OF s i] by (simp add: tracked_def)
    moreover have "map p_id (pt_peers t') = map p_id (pt_peers t)"
      using t' i list_update_id[of "map p_id (pt_peers t)" i] by (simp add: map_update)
    moreover have "list_all (acceptable C) (pt_peers t')"
      using a p t' set_update_subset_insert[of "pt_peers t" i p] by (auto simp: list_all_iff)
    ultimately show ?thesis using s by (simp add: tracker_ok_def)
  qed
  then show "tracker_ok C t'" "tracked t' = newer_of p (tracked t)" by simp_all
qed

lemma tracker_add_peers_refines:
  assumes "tracker_ok C t" "tracker_add_peers C ps t = Inr t'"
  shows "tracker_ok C t' \<and> tracked t' = fold newer_of (List.filter (acceptable C) ps) (tracked t)"
  using assms
proof (induction ps arbitrary: t)
  case (Cons p ps)
  show ?case
  proof (cases "acceptable C p")
    case True
    then obtain u where u: "tracker_add_peer C p t = (u, Inr ())" using acceptable_accepted by blast
    then have "tracker_add_peers C ps u = Inr t'" using Cons.prems(2) by simp
    from Cons.IH[OF tracker_add_peer_refines(1)[OF Cons.prems(1) u] this] tracker_add_peer_refines(2)[OF Cons.prems(1) u]
    show ?thesis using True by simp
  next
    case False
    then obtain e where e: "tracker_add_peer C p t = (t, Inl e)" using unacceptable_refused by blast
    then have "tracker_add_peers C ps t = Inr t'" using Cons.prems(2) by (cases e) auto
    then show ?thesis using Cons.IH[OF Cons.prems(1)] False by simp
  qed
qed simp

lemma tracker_remove_peer_refines:
  assumes "tracker_ok C t"
  shows "tracker_ok C (tracker_remove_peer p t)" "tracked (tracker_remove_peer p t) = (tracked t)(p_id p := None)"
proof -
  let ?ps = "pt_peers t"
  have s: "sorted_wrt (<) (map p_id ?ps)" and a: "list_all (acceptable C) ?ps" using assms by (simp_all add: tracker_ok_def)
  note sp = binary_search_spec[OF s, of "p_id p"]
  have "tracker_ok C (tracker_remove_peer p t) \<and> tracked (tracker_remove_peer p t) = (tracked t)(p_id p := None)"
  proof (cases "binary_search_by_key p_id (p_id p) ?ps")
    case (Inl i)
    then have ia: "\<forall>j < i. p_id (?ps ! j) < p_id p" "\<forall>j. i \<le> j \<and> j < length ?ps \<longrightarrow> p_id p < p_id (?ps ! j)"
      using sp by simp_all
    have "\<forall>j < length ?ps. p_id (?ps ! j) \<noteq> p_id p"
      using ia by (metis less_irrefl not_less)
    then have "tracked t (p_id p) = None" unfolding tracked_def by (rule keyed_absent)
    then show ?thesis using Inl assms by (simp add: tracker_remove_peer_def fun_upd_idem)
  next
    case (Inr i)
    have i: "i < length ?ps" "p_id (?ps ! i) = p_id p" using sp Inr by simp_all
    let ?x = "take i ?ps" and ?y = "drop (Suc i) ?ps"
    have sp': "?ps = ?x @ ?ps ! i # ?y" using i(1) by (rule id_take_nth_drop)
    have so: "sorted_wrt (<) (map p_id (?x @ ?ps ! i # ?y))" using s sp' by metis
    then have n: "p_id (?ps ! i) \<notin> p_id ` set ?x" "p_id (?ps ! i) \<notin> p_id ` set ?y" by (auto simp: sorted_wrt_append)
    have t': "pt_peers (tracker_remove_peer p t) = ?x @ ?y" using Inr by (simp add: tracker_remove_peer_def vec_remove_def)
    have "map_of (map (\<lambda>p. (p_id p, p)) ?ps) = (map_of (map (\<lambda>p. (p_id p, p)) (?x @ ?y)))(p_id (?ps ! i) \<mapsto> ?ps ! i)"
      using keyed_insert[OF n(1), of ?y] sp' by metis
    moreover have "map_of (map (\<lambda>p. (p_id p, p)) (?x @ ?y)) (p_id (?ps ! i)) = None"
      using n by (auto simp: map_of_eq_None_iff)
    ultimately have "tracked (tracker_remove_peer p t) = (tracked t)(p_id p := None)"
      using t' i(2) by (auto simp: tracked_def fun_upd_idem_iff)
    moreover have "sorted_wrt (<) (map p_id (?x @ ?y))" using so by (auto simp: sorted_wrt_append)
    moreover have "list_all (acceptable C) (?x @ ?y)" using a by (auto simp: list_all_iff dest: in_set_takeD in_set_dropD)
    ultimately show ?thesis using t' by (simp add: tracker_ok_def)
  qed
  then show "tracker_ok C (tracker_remove_peer p t)" "tracked (tracker_remove_peer p t) = (tracked t)(p_id p := None)" by simp_all
qed

section \<open>The walk\<close>

lemma max_by_key_None [simp]: "max_by_key f xs = None \<longleftrightarrow> xs = []"
  by (cases xs) (auto split: option.splits)

lemma max_by_key_member: "max_by_key f xs = Some x \<Longrightarrow> x \<in> set xs"
  by (induction xs arbitrary: x) (auto split: option.splits if_splits)

lemma max_by_key_max: "max_by_key f xs = Some x \<Longrightarrow> y \<in> set xs \<Longrightarrow> f y \<le> f x"
proof (induction xs arbitrary: x y)
  case (Cons z xs)
  show ?case
  proof (cases "max_by_key f xs")
    case None
    then show ?thesis using Cons.prems by auto
  next
    case (Some w)
    then have "x = (if f z > f w then z else w)" using Cons.prems(1) by simp
    moreover have "y = z \<or> f y \<le> f w" using Cons.IH[OF Some] Cons.prems(2) by auto
    ultimately show ?thesis by (auto split: if_splits)
  qed
qed simp

lemma nearest_peer_None:
  "nearest_peer it ps = None \<longleftrightarrow> (\<forall>p \<in> set (unvisited it ps). \<not> within_radius it p)"
  by (auto simp: nearest_peer_def filter_empty_conv)

lemma nearest_peer_Some:
  assumes "nearest_peer it ps = Some p"
  shows "p \<in> set (unvisited it ps)" "within_radius it p"
    "q \<in> set (unvisited it ps) \<Longrightarrow> within_radius it q
      \<Longrightarrow> peer_agreement (pi_bucket_location_id it) q \<le> peer_agreement (pi_bucket_location_id it) p"
  using max_by_key_member[OF assms[unfolded nearest_peer_def]] max_by_key_max[OF assms[unfolded nearest_peer_def], of q] by auto

lemma unvisited_radius [simp]: "unvisited (it\<lparr>pi_cache_radius := r\<rparr>) ps = unvisited it ps"
  by (simp add: unvisited_def)

text \<open>With no radius the call returns; with one it returns as soon as some unvisited peer can be within a radius at all.\<close>

lemma next_peer_no_radius:
  "pi_cache_radius it = None \<Longrightarrow> next_peer ps it = Some (case nearest_peer it ps of Some p \<Rightarrow> visit_peer p it | None \<Rightarrow> (it, None))"
  by (subst next_peer.simps) (auto split: option.splits)

lemma next_peer_widens:
  assumes "pi_cache_radius it = Some r" "p \<in> set (unvisited it ps)" "peer_agreement (pi_bucket_location_id it) p < 256"
  shows "\<exists>r' q. nearest_peer (it\<lparr>pi_cache_radius := Some r'\<rparr>) ps = Some q
    \<and> next_peer ps it = Some (visit_peer q (it\<lparr>pi_cache_radius := Some r'\<rparr>))"
  using assms
proof (induction "256 - r" arbitrary: it r rule: less_induct)
  case less
  have ne: "unvisited it ps \<noteq> []" using less.prems(2) by auto
  show ?case
  proof (cases "nearest_peer it ps")
    case (Some q)
    have "it\<lparr>pi_cache_radius := Some r\<rparr> = it" using less.prems(1) by simp
    moreover have "next_peer ps it = Some (visit_peer q it)" by (subst next_peer.simps) (simp add: Some)
    ultimately show ?thesis using Some by metis
  next
    case None
    then have "\<not> within_radius it p" using less.prems(2) nearest_peer_None by blast
    then have r: "r < 256" using less.prems(1,3) by (simp add: within_radius_def)
    let ?it = "it\<lparr>pi_cache_radius := Some (widen r)\<rparr>"
    have "next_peer ps it = next_peer ps ?it" by (subst next_peer.simps) (simp add: None ne less.prems(1))
    moreover have "\<exists>r' q. nearest_peer (?it\<lparr>pi_cache_radius := Some r'\<rparr>) ps = Some q
        \<and> next_peer ps ?it = Some (visit_peer q (?it\<lparr>pi_cache_radius := Some r'\<rparr>))"
      by (rule less.hyps[of "widen r"]) (use less.prems r in \<open>auto simp: widen_def\<close>)
    ultimately show ?thesis by simp
  qed
qed

text \<open>And it does not return at all when every unvisited peer has the very identity of the location: the radius stops at 256, and
  the test is strict.\<close>

lemma next_peer_stuck:
  assumes "\<And>p. p \<in> set (unvisited it ps) \<Longrightarrow> peer_agreement (pi_bucket_location_id it) p = 256"
    and "unvisited it ps \<noteq> []" "pi_cache_radius it = Some r" "r \<le> 256"
  shows "next_peer ps it = None"
proof (rule ccontr)
  assume "next_peer ps it \<noteq> None"
  then obtain y where y: "next_peer ps it = Some y" by blast
  have "(\<forall>p \<in> set (unvisited it ps). peer_agreement (pi_bucket_location_id it) p = 256) \<and> unvisited it ps \<noteq> []
      \<longrightarrow> (\<forall>r. pi_cache_radius it = Some r \<longrightarrow> r > 256)"
  proof (rule next_peer.raw_induct[OF _ y], rule impI)
    fix f :: "peer list \<Rightarrow> peer_iterator \<Rightarrow> (peer_iterator \<times> (peer \<times> nat) option) option"
      and ps :: "peer list" and it :: peer_iterator and y :: "peer_iterator \<times> (peer \<times> nat) option"
    assume IH: "\<And>ps it y. f ps it = Some y \<Longrightarrow>
        (\<forall>p \<in> set (unvisited it ps). peer_agreement (pi_bucket_location_id it) p = 256) \<and> unvisited it ps \<noteq> []
        \<longrightarrow> (\<forall>r. pi_cache_radius it = Some r \<longrightarrow> r > 256)"
    assume run: "(case nearest_peer it ps of None \<Rightarrow> if unvisited it ps = [] then Some (it, None)
          else case pi_cache_radius it of None \<Rightarrow> Some (it, None) | Some r \<Rightarrow> f ps (it\<lparr>pi_cache_radius := Some (widen r)\<rparr>)
        | Some p \<Rightarrow> Some (visit_peer p it)) = Some y"
    assume all: "(\<forall>p \<in> set (unvisited it ps). peer_agreement (pi_bucket_location_id it) p = 256) \<and> unvisited it ps \<noteq> []"
    show "\<forall>r. pi_cache_radius it = Some r \<longrightarrow> r > 256"
    proof (intro allI impI, rule ccontr)
      fix r
      assume r: "pi_cache_radius it = Some r" "\<not> r > 256"
      then have "nearest_peer it ps = None" using all by (auto simp: nearest_peer_None within_radius_def)
      with run all r have "f ps (it\<lparr>pi_cache_radius := Some (widen r)\<rparr>) = Some y" by simp
      from IH[OF this] all show False by (simp add: widen_def)
    qed
  qed
  then show False using assms by auto
qed

text \<open>The peers returned by the first calls on a tracker that does not change.\<close>

fun walk :: "nat \<Rightarrow> peer list \<Rightarrow> peer_iterator \<Rightarrow> peer list" where
  "walk 0 ps it = []"
| "walk (Suc n) ps it = (case next_peer ps it of Some (it', Some (p, lab)) \<Rightarrow> p # walk n ps it' | _ \<Rightarrow> [])"

abbreviation closeness :: "peer_iterator \<Rightarrow> peer \<Rightarrow> nat" where
  "closeness it p \<equiv> peer_agreement (pi_bucket_location_id it) p"

lemma visit_peer_fields:
  assumes "visit_peer p it = (it', r)"
  shows "pi_bucket_location_id it' = pi_bucket_location_id it"
    "pi_max_iterations_since_high_watermark it' = pi_max_iterations_since_high_watermark it"
    "pi_peers_already_queried it' = insert (p_id p) (pi_peers_already_queried it)"
    "pi_cache_radius it = None \<Longrightarrow> pi_cache_radius it' = None"
    "pi_high_watermark it' = max (pi_high_watermark it) (closeness it p)"
    "pi_iterations_since_high_watermark it' =
      (if closeness it p > pi_high_watermark it then 0 else pi_iterations_since_high_watermark it + 1)"
    "r = (if pi_iterations_since_high_watermark it' > pi_max_iterations_since_high_watermark it
            \<and> \<not> closeness it p > pi_high_watermark it then None else Some (p, closeness it p))"
  using assms by (auto simp: visit_peer_def Let_def split: if_splits)

lemma unvisited_after:
  assumes "pi_peers_already_queried it' = insert (p_id p) (pi_peers_already_queried it)"
    and "distinct (map p_id ps)" "p \<in> set (unvisited it ps)"
  shows "set (unvisited it' ps) = set (unvisited it ps) - {p}" "length (unvisited it ps) = Suc (length (unvisited it' ps))"
proof -
  have d: "distinct (map p_id (unvisited it ps))" unfolding unvisited_def using assms(2) by (rule distinct_map_filter)
  have u: "unvisited it' ps = List.filter (\<lambda>q. p_id q \<noteq> p_id p) (unvisited it ps)"
    unfolding unvisited_def assms(1) by (simp only: filter_filter) (rule arg_cong[of _ _ "\<lambda>f. List.filter f ps"], auto)
  show s: "set (unvisited it' ps) = set (unvisited it ps) - {p}"
    using u d assms(3) by (auto simp: distinct_map inj_on_def)
  have "distinct (unvisited it ps)" "distinct (unvisited it' ps)"
    using d distinct_map_filter[of p_id ps] assms(2) by (auto simp: distinct_map unvisited_def)
  then show "length (unvisited it ps) = Suc (length (unvisited it' ps))"
    using s assms(3) by (metis card_Suc_Diff1 distinct_card finite_set)
qed

lemma walk_below_watermark:
  assumes "pi_cache_radius it = None" "distinct (map p_id ps)"
    and "\<forall>p \<in> set (unvisited it ps). closeness it p \<le> pi_high_watermark it"
  shows "let w = walk n ps it in distinct w \<and> set w \<subseteq> set (unvisited it ps) \<and> sorted_wrt (\<lambda>p q. closeness it q \<le> closeness it p) w
    \<and> (\<forall>p \<in> set w. \<forall>q \<in> set (unvisited it ps) - set w. closeness it q \<le> closeness it p)
    \<and> length w = min n (min (length (unvisited it ps))
        (pi_max_iterations_since_high_watermark it - pi_iterations_since_high_watermark it))"
  using assms
proof (induction n arbitrary: it)
  case (Suc n)
  show ?case
  proof (cases "nearest_peer it ps")
    case None
    then have "unvisited it ps = []" using Suc.prems(1) by (auto simp: nearest_peer_None within_radius_def)
    then show ?thesis using None Suc.prems(1) by (simp add: next_peer_no_radius Let_def)
  next
    case (Some p)
    note n = nearest_peer_Some[OF Some]
    have near: "q \<in> set (unvisited it ps) \<Longrightarrow> closeness it q \<le> closeness it p" for q
      using n(3) Suc.prems(1) by (simp add: within_radius_def)
    obtain it' r where v: "visit_peer p it = (it', r)" by fastforce
    have step: "next_peer ps it = Some (it', r)" using Suc.prems(1) Some v by (simp add: next_peer_no_radius)
    note f = visit_peer_fields[OF v] and u = unvisited_after[OF visit_peer_fields(3)[OF v] Suc.prems(2) n(1)]
    have le: "closeness it p \<le> pi_high_watermark it" using Suc.prems(3) n(1) by blast
    show ?thesis
    proof (cases "pi_iterations_since_high_watermark it < pi_max_iterations_since_high_watermark it")
      case False
      then have "r = None" using f(6,7) le by simp
      then show ?thesis using False step by (simp add: Let_def)
    next
      case True
      then have r: "r = Some (p, closeness it p)" using f(6,7) le by simp
      have "\<forall>q \<in> set (unvisited it' ps). closeness it' q \<le> pi_high_watermark it'"
        using u(1) f(1,5) Suc.prems(3) by auto
      note IH = Suc.IH[OF f(4)[OF Suc.prems(1)] Suc.prems(2) this, unfolded Let_def f(1,2) u(1)]
      have w: "walk (Suc n) ps it = p # walk n ps it'" using step r by simp
      have "length (walk (Suc n) ps it) = min (Suc n) (min (length (unvisited it ps))
          (pi_max_iterations_since_high_watermark it - pi_iterations_since_high_watermark it))"
        using IH u(2) f(6) le True w by simp
      then show ?thesis unfolding w Let_def using IH near n(1) by auto
    qed
  qed
qed simp

lemma unvisited_new [simp]: "unvisited (PeerIterator_new loc m r) ps = ps"
  by (simp add: unvisited_def PeerIterator_new_def)

lemma new_iterator_fields [simp]:
  "pi_bucket_location_id (PeerIterator_new loc m r) = loc" "pi_high_watermark (PeerIterator_new loc m r) = 0"
  "pi_max_iterations_since_high_watermark (PeerIterator_new loc m r) = m" "pi_cache_radius (PeerIterator_new loc m r) = r"
  "pi_iterations_since_high_watermark (PeerIterator_new loc m r) = 0"
  by (simp_all add: PeerIterator_new_def)

lemma walk_from_new:
  assumes "distinct (map p_id ps)"
  shows "let w = walk n ps (PeerIterator_new loc m None) in distinct w \<and> set w \<subseteq> set ps
    \<and> sorted_wrt (\<lambda>p q. peer_agreement loc q \<le> peer_agreement loc p) w
    \<and> (\<forall>p \<in> set w. \<forall>q \<in> set ps - set w. peer_agreement loc q \<le> peer_agreement loc p)
    \<and> length w = min n (min (length ps) (m + (if \<exists>p \<in> set ps. peer_agreement loc p > 0 then 1 else 0)))"
proof (cases "\<exists>p \<in> set ps. peer_agreement loc p > 0")
  case False
  then have "\<forall>p \<in> set (unvisited (PeerIterator_new loc m None) ps). closeness (PeerIterator_new loc m None) p
      \<le> pi_high_watermark (PeerIterator_new loc m None)" by auto
  from walk_below_watermark[OF _ assms this, of n] False show ?thesis by (simp add: Let_def)
next
  case True
  let ?it = "PeerIterator_new loc m None"
  show ?thesis
  proof (cases n)
    case (Suc k)
    have nr: "pi_cache_radius ?it = None" "pi_bucket_location_id ?it = loc" "pi_high_watermark ?it = 0"
        "pi_max_iterations_since_high_watermark ?it = m"
      by simp_all
    from True obtain q where q: "q \<in> set ps" "peer_agreement loc q > 0" by blast
    then obtain p where p: "nearest_peer ?it ps = Some p"
      using nearest_peer_None[of ?it ps] nr by (cases "nearest_peer ?it ps") (auto simp: within_radius_def)
    note np = nearest_peer_Some[OF p, unfolded unvisited_new nr]
    have near: "x \<in> set ps \<Longrightarrow> peer_agreement loc x \<le> peer_agreement loc p" for x
      using np(3) nr(1) by (simp add: within_radius_def)
    have pos: "peer_agreement loc p > 0" using near[OF q(1)] q(2) by linarith
    obtain it' r where v: "visit_peer p ?it = (it', r)" by fastforce
    note f = visit_peer_fields[OF v, unfolded nr]
    have r: "r = Some (p, peer_agreement loc p)" and i: "pi_iterations_since_high_watermark it' = 0" using f(6,7) pos by simp_all
    have w: "walk n ps ?it = p # walk k ps it'"
      using Suc nr(1) p v r by (simp add: next_peer_no_radius)
    have "p \<in> set (unvisited ?it ps)" using np(1) by simp
    note u = unvisited_after[OF f(3) assms this, unfolded unvisited_new]
    have "\<forall>x \<in> set (unvisited it' ps). closeness it' x \<le> pi_high_watermark it'" using u(1) f(1,5) near by auto
    note IH = walk_below_watermark[OF f(4)[OF refl] assms this, of k, unfolded Let_def f(1,2) u(1) i]
    have "length (walk n ps ?it) = min n (min (length ps) (m + 1))" using IH u(2) w Suc by simp
    then show ?thesis using IH near np(1) True w by (auto simp: Let_def)
  qed (use True in simp)
qed

section \<open>What the tracker and the walk promise\<close>

lemma PeerTracker_new_ok: "tracker_ok C (PeerTracker_new (Inr None))" "tracked (PeerTracker_new (Inr None)) = Map.empty"
  by (simp_all add: PeerTracker_new_def tracker_ok_def tracked_def)

text \<open>C24: The peers a client has been told of, in any order and with any duplicates, end up as the map from each identity to the
  newest of its records that verified with enough initial work (the first of two with one timestamp), kept in a vector strictly
  sorted by identity; removing one removes its identity and nothing else.\<close>

theorem tracker_keeps_newest:
  assumes "tracker_add_peers C ps (PeerTracker_new (Inr None)) = Inr t"
  shows "tracker_ok C t \<and> tracked t = fold newer_of (List.filter (acceptable C) ps) Map.empty
    \<and> tracker_ok C (tracker_remove_peer p t) \<and> tracked (tracker_remove_peer p t) = (tracked t)(p_id p := None)"
  using tracker_add_peers_refines[OF PeerTracker_new_ok(1) assms] tracker_remove_peer_refines[of C t p] PeerTracker_new_ok(2)
  by auto

text \<open>A new walk without a radius over known peers visits each at most once, in descending agreement with the location, and
  leaves out only peers that are no nearer; called often enough it visits one peer more than the allowed number of calls without
  progress, or as many as that when no peer shares a bit with the location, or all of them if they are fewer.\<close>

theorem walk_visits_nearest:
  assumes "distinct (map p_id ps)"
  shows "let w = walk n ps (PeerIterator_new loc m None) in distinct w \<and> set w \<subseteq> set ps
    \<and> sorted_wrt (\<lambda>p q. peer_agreement loc q \<le> peer_agreement loc p) w
    \<and> (\<forall>p \<in> set w. \<forall>q \<in> set ps - set w. peer_agreement loc q \<le> peer_agreement loc p)
    \<and> length w = min n (min (length ps) (m + (if \<exists>p \<in> set ps. peer_agreement loc p > 0 then 1 else 0)))"
  by (rule walk_from_new[OF assms])

lemma peer_agreement_max: "wf_id loc \<Longrightarrow> peer_agreement loc p \<le> 256"
  using agreement_max[of "id_bytes loc" "id_bytes (p_id p)"] by (simp add: peer_agreement_def wf_newtypes ID_BYTES_def)

text \<open>C39: With a radius, a call of \<open>next_peer\<close> returns unless there are unvisited peers and each of them has the very identity of
  the location, so that all 256 bits agree: the radius is widened to 256 at most and the test on it is strict, so the loop then
  never ends.\<close>

theorem next_peer_returns_iff:
  assumes "wf_id (pi_bucket_location_id it)" "pi_cache_radius it = Some r" "r \<le> 256"
  shows "(\<exists>y. next_peer ps it = Some y) \<longleftrightarrow> unvisited it ps = [] \<or> (\<exists>p \<in> set (unvisited it ps). closeness it p < 256)"
proof (cases "unvisited it ps = []")
  case True
  then have "nearest_peer it ps = None" by (simp add: nearest_peer_None)
  then show ?thesis using True by (subst next_peer.simps) simp
next
  case False
  show ?thesis
  proof (cases "\<exists>p \<in> set (unvisited it ps). closeness it p < 256")
    case True
    then show ?thesis using next_peer_widens[OF assms(2)] by blast
  next
    case no: False
    then have "closeness it p = 256" if "p \<in> set (unvisited it ps)" for p
      using that peer_agreement_max[OF assms(1), of p] by (metis le_neq_implies_less)
    from next_peer_stuck[OF this False assms(2,3)] False no show ?thesis by simp
  qed
qed

lemma cache_radius_roundtrip:
  "cache_radius_get loc now (cache_radius_update l r stored c) =
     (if loc = l then (if time_sub now stored < cr_ttl c then Some r else None) else cache_radius_get loc now c)"
  by (simp add: cache_radius_get_def cache_radius_update_def update_conv split: option.splits)

end
