(* ===== verification/Visitor.thy ===== *)
theory Visitor
  imports Buckets
begin

text \<open>
  \<open>client/timeline/recursive_bucket_visitor.rs\<close>: the depth-first walk over the ladder of buckets. The code keeps a stack of open and
  close frames and calls two callbacks; the callbacks are functions on a state of their own, and the loop over the stack is a
  partial function. A recursive description of the same walk is the reference it is compared with.
\<close>

section \<open>The stack machine\<close>

datatype open_result = ContinueWithChildren | ContinueWithoutChildren | OpenStop

datatype close_result = CloseContinue | CloseStop

record 's bucket_callbacks =
  on_bucket_open :: "time_millis \<Rightarrow> duration_millis \<Rightarrow> 's \<Rightarrow> 's \<times> open_result res"
  on_bucket_close :: "time_millis \<Rightarrow> duration_millis \<Rightarrow> 's \<Rightarrow> 's \<times> close_result res"

text \<open>\<open>FrameOpen\<close> holds the bucket time, the index of its duration and the oldest bucket time allowed at that level.\<close>

datatype frame = FrameOpen time_millis nat time_millis | FrameClose time_millis nat

text \<open>One turn of the loop: the stack to go on with, or the value returned.\<close>

fun visit_step :: "time_millis \<Rightarrow> duration_millis list \<Rightarrow> 's bucket_callbacks \<Rightarrow> frame \<Rightarrow> frame list \<Rightarrow> 's
    \<Rightarrow> 's \<times> (frame list + bool res)" where
  "visit_step tmax ds cb (FrameClose t i) fs s = (case on_bucket_close cb t (ds ! i) s of
     (s', Inl e) \<Rightarrow> (s', Inr (Inl e))
   | (s', Inr CloseStop) \<Rightarrow> (s', Inr (Inr False))
   | (s', Inr CloseContinue) \<Rightarrow> (s', Inl fs))"
| "visit_step tmax ds cb (FrameOpen t i oldest) fs s =
     (let d = ds ! i;
          next_time = time_sub_dur t d;
          fs' = (if next_time \<ge> oldest then FrameOpen next_time i oldest # fs else fs)
      in if t \<ge> tmax then (s, Inl fs')
         else (case on_bucket_open cb t d s of
             (s', Inl e) \<Rightarrow> (s', Inr (Inl e))
           | (s', Inr OpenStop) \<Rightarrow> (s', Inr (Inr False))
           | (s', Inr ContinueWithoutChildren) \<Rightarrow> (s', Inl (FrameClose t i # fs'))
           | (s', Inr ContinueWithChildren) \<Rightarrow>
               if i + 1 < length ds then
                 (case round_down_to_bucket_start tmax (ds ! (i + 1)) of
                    Inl e \<Rightarrow> (s', Inr (Inl e))
                  | Inr m \<Rightarrow> (s', Inl (FrameOpen (min m (time_sub_dur (time_add_dur t d) (ds ! (i + 1)))) (i + 1) t
                      # FrameClose t i # fs')))
               else (s', Inl (FrameClose t i # fs'))))"

partial_function (option) visit_pump :: "time_millis \<Rightarrow> duration_millis list \<Rightarrow> 's bucket_callbacks \<Rightarrow> frame list \<Rightarrow> 's
    \<Rightarrow> ('s \<times> bool res) option" where
  "visit_pump tmax ds cb frames s = (case frames of
     [] \<Rightarrow> Some (s, Inr True)
   | f # fs \<Rightarrow> (case visit_step tmax ds cb f fs s of
       (s', Inl fs') \<Rightarrow> visit_pump tmax ds cb fs' s'
     | (s', Inr r) \<Rightarrow> Some (s', r)))"

declare visit_pump.simps [code]

definition bucket_visit :: "time_millis \<Rightarrow> time_millis \<Rightarrow> duration_millis list \<Rightarrow> 's bucket_callbacks \<Rightarrow> 's
    \<Rightarrow> ('s \<times> bool res) option" where
  "bucket_visit tmax tmin ds cb s =
     (if ds = [] then Some (s, Inl (Bail ''bucket_durations must have at least one element''))
      else (case round_down_to_bucket_start tmax (ds ! 0) of Inl e \<Rightarrow> Some (s, Inl e) | Inr latest \<Rightarrow>
           (case round_down_to_bucket_start tmin (ds ! 0) of Inl e \<Rightarrow> Some (s, Inl e) | Inr oldest \<Rightarrow>
              visit_pump tmax ds cb [FrameOpen latest 0 oldest] s)))"


section \<open>The recursive description\<close>

text \<open>The bucket times of one level, newest first; the first is always among them.\<close>

function siblings :: "duration_millis \<Rightarrow> time_millis \<Rightarrow> time_millis \<Rightarrow> time_millis list" where
  "siblings d oldest t = t # (if 0 < d \<and> I64_MIN < oldest \<and> oldest \<le> time_sub_dur t d
     then siblings d oldest (time_sub_dur t d) else [])"
  by pat_completeness auto
termination
  by (relation "measure (\<lambda>(d, oldest, t). nat (t - oldest))")
    (auto simp: time_sub_dur_def sat_i64_def split: if_splits)

declare siblings.simps [simp del]

definition bucket_start :: "time_millis \<Rightarrow> duration_millis \<Rightarrow> time_millis" where
  "bucket_start t d = t sdiv d * d"

fun child_times :: "time_millis \<Rightarrow> time_millis \<Rightarrow> duration_millis \<Rightarrow> duration_millis list \<Rightarrow> time_millis list" where
  "child_times tmax t d [] = []"
| "child_times tmax t d (d' # ds) = siblings d' t (min (bucket_start tmax d') (time_sub_dur (time_add_dur t d) d'))"

text \<open>Open the bucket, walk its children if asked to, close it, go on with its siblings.\<close>

fun visit_level :: "time_millis \<Rightarrow> 's bucket_callbacks \<Rightarrow> duration_millis list \<Rightarrow> time_millis list \<Rightarrow> 's \<Rightarrow> 's \<times> bool res" where
  "visit_level tmax cb [] ts s = (s, Inr True)"
| "visit_level tmax cb (d # ds) [] s = (s, Inr True)"
| "visit_level tmax cb (d # ds) (t # ts) s =
     (if t \<ge> tmax then visit_level tmax cb (d # ds) ts s
      else (case on_bucket_open cb t d s of
          (s1, Inl e) \<Rightarrow> (s1, Inl e)
        | (s1, Inr OpenStop) \<Rightarrow> (s1, Inr False)
        | (s1, Inr r) \<Rightarrow>
            (case (if r = ContinueWithChildren then visit_level tmax cb ds (child_times tmax t d ds) s1 else (s1, Inr True)) of
               (s2, Inr True) \<Rightarrow>
                 (case on_bucket_close cb t d s2 of
                    (s3, Inl e) \<Rightarrow> (s3, Inl e)
                  | (s3, Inr CloseStop) \<Rightarrow> (s3, Inr False)
                  | (s3, Inr CloseContinue) \<Rightarrow> visit_level tmax cb (d # ds) ts s3)
             | (s2, r2) \<Rightarrow> (s2, r2))))"

text \<open>What the code needs of its durations: positive machine integers in descending order.\<close>

definition durations_ok :: "duration_millis list \<Rightarrow> bool" where
  "durations_ok ds \<longleftrightarrow> ds \<noteq> [] \<and> sorted_wrt (>) ds \<and> (\<forall>d \<in> set ds. 0 < d \<and> in_i64 d)"

lemma bucket_start_near:
  assumes "0 < d"
  shows "0 \<le> t \<Longrightarrow> 0 \<le> bucket_start t d \<and> bucket_start t d \<le> t \<and> t < bucket_start t d + d"
    "t \<le> 0 \<Longrightarrow> t \<le> bucket_start t d \<and> bucket_start t d \<le> 0"
proof -
  have m: "t - t sdiv d * d = t smod d" by (simp add: minus_sdiv_mult_eq_smod)
  note c = smod_int_compares[of t d] smod_int_range[of d t]
  show "t \<le> bucket_start t d \<and> bucket_start t d \<le> 0" if "t \<le> 0"
  proof -
    have "0 \<le> (- t) div d" using assms that by (simp add: pos_imp_zdiv_nonneg_iff)
    then have "t sdiv d \<le> 0" using assms that by (auto simp: signed_divide_int_def sgn_if)
    then show ?thesis using m c assms that by (auto simp: bucket_start_def mult_le_0_iff)
  qed
  assume t: "0 \<le> t"
  then have "bucket_start t d = t - t mod d" using assms by (simp add: bucket_start_def sdiv_pos minus_mod_eq_div_mult)
  then show "0 \<le> bucket_start t d \<and> bucket_start t d \<le> t \<and> t < bucket_start t d + d"
    using t assms pos_mod_bound[of d t] pos_mod_sign[of d t] zmod_le_nonneg_dividend[of t d] by linarith
qed

lemma bucket_start_bounds:
  assumes "0 < d" "I64_MIN < t"
  shows "I64_MIN < bucket_start t d"
  using bucket_start_near[OF assms(1), of t] assms(2) by (cases "0 \<le> t") (auto simp: I64_MIN_def)

lemma round_down_bucket_start: "0 < d \<Longrightarrow> round_down_to_bucket_start t d = Inr (bucket_start t d)"
  by (simp add: round_down_ok bucket_start_def)

lemma siblings_not_Nil [simp]: "siblings d oldest t \<noteq> []"
  by (subst siblings.simps) simp

lemma first_child_in_range:
  assumes "durations_ok ds" "I64_MIN < tmax" "Suc i < length ds" "I64_MIN < t"
  shows "I64_MIN < min (bucket_start tmax (ds ! Suc i)) (time_sub_dur (time_add_dur t (ds ! i)) (ds ! Suc i))"
proof -
  have d: "0 < ds ! Suc i" "ds ! Suc i < ds ! i" "in_i64 (ds ! Suc i)" "in_i64 (ds ! i)"
    using assms(1,3) by (auto simp: durations_ok_def sorted_wrt_iff_nth_less)
  have "I64_MIN < time_sub_dur (time_add_dur t (ds ! i)) (ds ! Suc i)"
    using d assms(4) by (auto simp: time_sub_dur_def time_add_dur_def sat_i64_def in_i64_def I64_MIN_def I64_MAX_def)
  then show ?thesis using bucket_start_bounds[OF d(1) assms(2)] by simp
qed

lemma pump_close:
  "visit_pump tmax ds cb (FrameClose t i # fs) s = (case on_bucket_close cb t (ds ! i) s of
     (s', Inl e) \<Rightarrow> Some (s', Inl e) | (s', Inr CloseStop) \<Rightarrow> Some (s', Inr False)
   | (s', Inr CloseContinue) \<Rightarrow> visit_pump tmax ds cb fs s')"
  by (subst visit_pump.simps) (auto split: prod.splits sum.splits close_result.splits)

definition then_pump :: "('s \<Rightarrow> ('s \<times> bool res) option) \<Rightarrow> 's \<times> bool res \<Rightarrow> ('s \<times> bool res) option" where
  "then_pump k out = (case out of (s', Inr True) \<Rightarrow> k s' | (s', r) \<Rightarrow> Some (s', r))"

lemma bool_res_cases: "(\<And>e. r = Inl e \<Longrightarrow> P) \<Longrightarrow> (r = Inr True \<Longrightarrow> P) \<Longrightarrow> (r = Inr False \<Longrightarrow> P) \<Longrightarrow> P"
  by (cases r) auto

lemma then_pump_simps [simp]:
  "then_pump k (s, Inr True) = k s" "then_pump k (s, Inr False) = Some (s, Inr False)" "then_pump k (s, Inl e) = Some (s, Inl e)"
  by (simp_all add: then_pump_def)

lemma pump_open:
  assumes "i < length ds" "0 < ds ! i" "Suc i < length ds \<longrightarrow> 0 < ds ! Suc i"
  shows "visit_pump tmax ds cb (FrameOpen t i oldest # fs) s =
    (let d = ds ! i; fs' = (if oldest \<le> time_sub_dur t d then FrameOpen (time_sub_dur t d) i oldest # fs else fs) in
     if t \<ge> tmax then visit_pump tmax ds cb fs' s
     else (case on_bucket_open cb t d s of
         (s', Inl e) \<Rightarrow> Some (s', Inl e)
       | (s', Inr OpenStop) \<Rightarrow> Some (s', Inr False)
       | (s', Inr ContinueWithoutChildren) \<Rightarrow> visit_pump tmax ds cb (FrameClose t i # fs') s'
       | (s', Inr ContinueWithChildren) \<Rightarrow> visit_pump tmax ds cb
           ((if Suc i < length ds then [FrameOpen (min (bucket_start tmax (ds ! Suc i))
               (time_sub_dur (time_add_dur t d) (ds ! Suc i))) (Suc i) t] else []) @ FrameClose t i # fs') s'))"
  using assms
  by (subst visit_pump.simps)
    (auto simp: Let_def round_down_bucket_start split: prod.splits sum.splits open_result.splits)

text \<open>The stack of one level runs like the list of its siblings, whatever lies below it.\<close>

lemma pump_level:
  assumes "durations_ok ds" "I64_MIN < tmax" "i < length ds" "I64_MIN < oldest" "I64_MIN < t"
  shows "visit_pump tmax ds cb (FrameOpen t i oldest # fs) s =
    then_pump (visit_pump tmax ds cb fs) (visit_level tmax cb (drop i ds) (siblings (ds ! i) oldest t) s)"
  using assms(3-5)
proof (induction "(i, t, oldest)" arbitrary: i t oldest fs s
    rule: wf_induct_rule[OF wf_measures[of "[\<lambda>(i, t, u). length ds - i, \<lambda>(i, t, u). nat (t - u)]"]])
  case step: 1
  let ?d = "ds ! i" and ?n = "time_sub_dur t (ds ! i)"
  let ?fs = "if oldest \<le> ?n then FrameOpen ?n i oldest # fs else fs"
  let ?rest = "if oldest \<le> ?n then siblings ?d oldest ?n else []"
  have d: "0 < ?d" and d': "Suc i < length ds \<longrightarrow> 0 < ds ! Suc i"
    using assms(1) step.prems(1) by (auto simp: durations_ok_def)
  have drop: "drop i ds = ?d # drop (Suc i) ds" using step.prems(1) by (simp add: Cons_nth_drop_Suc)
  have sib: "siblings ?d oldest t = t # ?rest" by (subst siblings.simps) (simp add: d step.prems(2))
  have tail: "visit_pump tmax ds cb ?fs s' = then_pump (visit_pump tmax ds cb fs) (visit_level tmax cb (drop i ds) ?rest s')" for s'
  proof (cases "oldest \<le> ?n")
    case True
    have "nat (?n - oldest) < nat (t - oldest)"
      using True d step.prems(2) by (auto simp: time_sub_dur_def sat_i64_def split: if_splits)
    then have "visit_pump tmax ds cb (FrameOpen ?n i oldest # fs) s' =
        then_pump (visit_pump tmax ds cb fs) (visit_level tmax cb (drop i ds) (siblings ?d oldest ?n) s')"
      by (intro step.hyps[OF _ step.prems(1,2)]) (use True step.prems(2) in auto)
    then show ?thesis using True by simp
  qed (simp add: drop)
  have close: "visit_pump tmax ds cb (FrameClose t i # ?fs) s' = then_pump (visit_pump tmax ds cb fs)
      (case on_bucket_close cb t ?d s' of (s3, Inl e) \<Rightarrow> (s3, Inl e) | (s3, Inr CloseStop) \<Rightarrow> (s3, Inr False)
        | (s3, Inr CloseContinue) \<Rightarrow> visit_level tmax cb (drop i ds) ?rest s3)" for s'
    unfolding pump_close tail by (simp split: prod.splits sum.splits close_result.splits)
  have children: "visit_pump tmax ds cb ((if Suc i < length ds then [FrameOpen (min (bucket_start tmax (ds ! Suc i))
        (time_sub_dur (time_add_dur t ?d) (ds ! Suc i))) (Suc i) t] else []) @ FrameClose t i # ?fs) s'
      = then_pump (visit_pump tmax ds cb (FrameClose t i # ?fs))
          (visit_level tmax cb (drop (Suc i) ds) (child_times tmax t ?d (drop (Suc i) ds)) s')" for s'
  proof (cases "Suc i < length ds")
    case True
    let ?c = "min (bucket_start tmax (ds ! Suc i)) (time_sub_dur (time_add_dur t ?d) (ds ! Suc i))"
    have "visit_pump tmax ds cb (FrameOpen ?c (Suc i) t # FrameClose t i # ?fs) s' =
        then_pump (visit_pump tmax ds cb (FrameClose t i # ?fs)) (visit_level tmax cb (drop (Suc i) ds) (siblings (ds ! Suc i) t ?c) s')"
      by (intro step.hyps[OF _ True step.prems(3) first_child_in_range[OF assms(1,2) True step.prems(3)]])
        (use step.prems(1) in auto)
    moreover have "child_times tmax t ?d (drop (Suc i) ds) = siblings (ds ! Suc i) t ?c"
      using Cons_nth_drop_Suc[OF True, symmetric] by simp
    ultimately show ?thesis using True by simp
  qed simp
  note run = pump_open[OF step.prems(1) d d', of tmax cb t oldest fs s, unfolded Let_def, unfolded tail children]
  have level: "visit_level tmax cb (drop i ds) (siblings ?d oldest t) s = visit_level tmax cb (?d # drop (Suc i) ds) (t # ?rest) s"
    by (simp only: drop sib)
  obtain s1 r where o: "on_bucket_open cb t ?d s = (s1, r)" by fastforce
  obtain s2 r2 where c: "visit_level tmax cb (drop (Suc i) ds) (child_times tmax t ?d (drop (Suc i) ds)) s1 = (s2, r2)"
    by fastforce
  have closed: "visit_pump tmax ds cb (FrameClose t i # ?fs) = (\<lambda>s'. then_pump (visit_pump tmax ds cb fs)
      (case on_bucket_close cb t ?d s' of (s3, Inl e) \<Rightarrow> (s3, Inl e) | (s3, Inr CloseStop) \<Rightarrow> (s3, Inr False)
        | (s3, Inr CloseContinue) \<Rightarrow> visit_level tmax cb (drop i ds) ?rest s3))"
    using close by blast
  show ?case
  proof (cases r)
    case (Inl e)
    then show ?thesis unfolding run level unfolding visit_level.simps unfolding drop[symmetric] by (simp add: o)
  next
    case (Inr x)
    show ?thesis unfolding run level unfolding visit_level.simps unfolding drop[symmetric] closed
      by (cases x; rule bool_res_cases[of r2]) (simp_all add: o c Inr)
  qed
qed

lemma visit_runs_reference:
  assumes "durations_ok ds" "I64_MIN < tmax" "I64_MIN < tmin"
  shows "bucket_visit tmax tmin ds cb s =
    Some (visit_level tmax cb ds (siblings (hd ds) (bucket_start tmin (hd ds)) (bucket_start tmax (hd ds))) s)"
proof -
  have d: "ds \<noteq> []" "0 < ds ! 0" "hd ds = ds ! 0" using assms(1) by (auto simp: durations_ok_def hd_conv_nth)
  have "bucket_visit tmax tmin ds cb s = visit_pump tmax ds cb [FrameOpen (bucket_start tmax (ds ! 0)) 0 (bucket_start tmin (ds ! 0))] s"
    using d by (simp add: bucket_visit_def round_down_bucket_start)
  also have "\<dots> = then_pump (visit_pump tmax ds cb [])
      (visit_level tmax cb ds (siblings (ds ! 0) (bucket_start tmin (ds ! 0)) (bucket_start tmax (ds ! 0))) s)"
    using pump_level[OF assms(1,2), of 0 "bucket_start tmin (ds ! 0)" "bucket_start tmax (ds ! 0)"]
      bucket_start_bounds[OF d(2)] assms d(1) by simp
  also have "visit_pump tmax ds cb [] = (\<lambda>s. Some (s, Inr True))" by (rule ext, subst visit_pump.simps) simp
  finally show ?thesis using d(3) by (simp add: then_pump_def split: prod.splits sum.splits bool.splits)
qed

text \<open>C12: The walk always ends, for times and positive durations in descending order whatever the callbacks do, and does what
  the recursive description does: open a bucket, walk its children if asked to, close it, go on to the next older sibling, and
  stop at the first error or stop.\<close>

theorem visit_equals_reference:
  assumes "durations_ok ds" "I64_MIN < tmax" "I64_MIN < tmin"
  shows "bucket_visit tmax tmin ds cb s =
    Some (visit_level tmax cb ds (siblings (hd ds) (bucket_start tmin (hd ds)) (bucket_start tmax (hd ds))) s)"
  by (rule visit_runs_reference[OF assms])


section \<open>Which buckets are opened\<close>

text \<open>The callbacks with a log of their calls.\<close>

datatype walk_event = Opened (event_bucket: "time_millis \<times> duration_millis") | Closed (event_bucket: "time_millis \<times> duration_millis")

definition logged :: "'s bucket_callbacks \<Rightarrow> ('s \<times> walk_event list) bucket_callbacks" where
  "logged cb = \<lparr>on_bucket_open = (\<lambda>t d (s, l). case on_bucket_open cb t d s of (s', r) \<Rightarrow> ((s', l @ [Opened (t, d)]), r)),
     on_bucket_close = (\<lambda>t d (s, l). case on_bucket_close cb t d s of (s', r) \<Rightarrow> ((s', l @ [Closed (t, d)]), r))\<rparr>"

lemma logged_callbacks [simp]:
  "on_bucket_open (logged cb) t d (s, l) = (case on_bucket_open cb t d s of (s', r) \<Rightarrow> ((s', l @ [Opened (t, d)]), r))"
  "on_bucket_close (logged cb) t d (s, l) = (case on_bucket_close cb t d s of (s', r) \<Rightarrow> ((s', l @ [Closed (t, d)]), r))"
  by (simp_all add: logged_def)

definition nested :: "duration_millis list \<Rightarrow> bool" where
  "nested ds \<longleftrightarrow> durations_ok ds \<and> sorted_wrt (\<lambda>c f. f dvd c) ds"

text \<open>The buckets below a level: aligned, before the end of the walk, and inside one of the level's buckets.\<close>

definition below :: "time_millis \<Rightarrow> duration_millis list \<Rightarrow> time_millis list \<Rightarrow> (time_millis \<times> duration_millis) set" where
  "below tmax ds ts = {(u, f). f \<in> set ds \<and> f dvd u \<and> u < tmax \<and> (\<exists>t \<in> set ts. t \<le> u \<and> u + f \<le> t + hd ds)}"

definition level_ok :: "time_millis \<Rightarrow> duration_millis list \<Rightarrow> time_millis list \<Rightarrow> bool" where
  "level_ok tmax ds ts \<longleftrightarrow> (ds \<noteq> [] \<longrightarrow> nested ds \<and> tmax + hd ds \<le> I64_MAX) \<and> sorted_wrt (>) ts
     \<and> (\<forall>t \<in> set ts. 0 \<le> t \<and> (\<forall>d \<in> set ds. d dvd t))"

lemma sub_exact: "0 \<le> u \<Longrightarrow> u \<le> time_sub_dur t d \<Longrightarrow> t - d \<le> I64_MAX \<Longrightarrow> time_sub_dur t d = t - d"
  by (auto simp: time_sub_dur_def sat_i64_def I64_MIN_def split: if_splits)

lemma sub_reaches: "0 \<le> u \<Longrightarrow> u \<le> t - d \<Longrightarrow> t - d \<le> I64_MAX \<Longrightarrow> u \<le> time_sub_dur t d"
  by (auto simp: time_sub_dur_def sat_i64_def I64_MIN_def split: if_splits)

lemma siblings_spec:
  assumes "0 < d" "0 \<le> oldest" "oldest \<le> t" "d dvd oldest" "d dvd t" "t \<le> I64_MAX"
  shows "sorted_wrt (>) (siblings d oldest t) \<and> set (siblings d oldest t) = {u. d dvd u \<and> oldest \<le> u \<and> u \<le> t}"
  using assms
proof (induction d oldest t rule: siblings.induct)
  case (1 d oldest t)
  have m: "I64_MIN < oldest" using 1(3) by (simp add: I64_MIN_def)
  show ?case
  proof (cases "oldest \<le> time_sub_dur t d")
    case True
    note e = sub_exact[OF 1(3) True] 
    have e': "time_sub_dur t d = t - d" using e 1(2,7) by simp
    have "sorted_wrt (>) (siblings d oldest (t - d)) \<and> set (siblings d oldest (t - d)) = {u. d dvd u \<and> oldest \<le> u \<and> u \<le> t - d}"
      using 1(1)[unfolded e'] True 1(2-7) m e' by simp
    moreover have "siblings d oldest t = t # siblings d oldest (t - d)"
      by (subst siblings.simps) (use 1(2) m True e' in simp)
    moreover have "u \<le> t - d" if "d dvd u" "u < t" for u
      using that 1(2,6) zdvd_imp_le[of d "t - u"] by (simp add: dvd_diff)
    ultimately show ?thesis using 1(2,4,6) by fastforce
  next
    case False
    then have lt: "t - d < oldest" using sub_reaches[OF 1(3), of t d] 1(2,7) by linarith
    have "u = t" if "d dvd u" "oldest \<le> u" "u \<le> t" for u
      using that 1(2,6) zdvd_imp_le[of d "t - u"] lt by (cases "u = t") (auto simp: dvd_diff)
    moreover have "siblings d oldest t = [t]" by (subst siblings.simps) (use False in simp)
    ultimately show ?thesis using 1(4,6) by auto
  qed
qed

lemma bucket_start_dvd: "d dvd bucket_start t d"
  by (simp add: bucket_start_def)

lemma bucket_start_below: "0 < d \<Longrightarrow> d dvd u \<Longrightarrow> 0 \<le> u \<Longrightarrow> u \<le> t \<longleftrightarrow> u \<le> bucket_start t d" if "0 \<le> t"
  using bucket_start_near(1)[of d t] that zdvd_imp_le[of d "u - bucket_start t d"] bucket_start_dvd[of d t]
  by (smt (verit) dvd_diff)

text \<open>The children of an opened bucket are the aligned buckets of the next duration inside it, as far as the end of the walk.\<close>

lemma child_times_spec:
  assumes "level_ok tmax (d # d' # ds) (t # ts)" "t < tmax"
  shows "sorted_wrt (>) (child_times tmax t d (d' # ds))
    \<and> set (child_times tmax t d (d' # ds)) = {u. d' dvd u \<and> t \<le> u \<and> u + d' \<le> t + d \<and> u \<le> tmax}"
proof -
  have n: "nested (d # d' # ds)" "tmax + d \<le> I64_MAX" "0 \<le> t" "d dvd t" "d' dvd t"
    using assms(1) by (auto simp: level_ok_def)
  then have d: "0 < d'" "d' < d" "d' dvd d" "0 < d" by (auto simp: nested_def durations_ok_def)
  have add: "time_add_dur t d = t + d" using n(2,3) assms(2) d(4) by (auto simp: time_add_dur_def sat_i64_def I64_MIN_def)
  have e: "time_sub_dur (time_add_dur t d) d' = t + d - d'"
    using n(2,3) assms(2) d add by (auto simp: time_sub_dur_def sat_i64_def I64_MIN_def)
  let ?c = "min (bucket_start tmax d') (t + d - d')"
  have "t \<le> bucket_start tmax d'" using bucket_start_below[of tmax d' t] n(3,5) assms(2) d(1) by simp
  moreover have "d' \<le> d" using d by simp
  ultimately have c: "t \<le> ?c" "d' dvd ?c" "?c \<le> I64_MAX"
    using d n assms(2) bucket_start_dvd[of d' tmax] by (auto simp: min_def dvd_diff dvd_add)
  have s: "child_times tmax t d (d' # ds) = siblings d' t ?c" using e by simp
  have "u \<le> ?c \<longleftrightarrow> u + d' \<le> t + d \<and> u \<le> tmax" if "d' dvd u" "t \<le> u" for u
    using bucket_start_below[of tmax d' u] that n(3) assms(2) d(1) by auto
  then show ?thesis using siblings_spec[OF d(1) n(3) c(1) n(5) c(2,3)] unfolding s by auto
qed

lemma child_level_ok:
  assumes "level_ok tmax (d # ds) (t # ts)" "t < tmax"
  shows "level_ok tmax ds (child_times tmax t d ds)" "below tmax ds (child_times tmax t d ds)
    \<subseteq> {(u, f). f \<in> set ds \<and> f dvd u \<and> t \<le> u \<and> u + f \<le> t + d \<and> u < tmax}"
proof -
  have n: "nested (d # ds)" "tmax + d \<le> I64_MAX" "0 \<le> t" using assms(1) by (auto simp: level_ok_def)
  have "level_ok tmax ds (child_times tmax t d ds) \<and> below tmax ds (child_times tmax t d ds)
    \<subseteq> {(u, f). f \<in> set ds \<and> f dvd u \<and> t \<le> u \<and> u + f \<le> t + d \<and> u < tmax}"
  proof (cases ds)
    case Nil
    then show ?thesis by (simp add: level_ok_def below_def)
  next
    case (Cons d' ds')
    have s: "sorted_wrt (>) (child_times tmax t d ds)"
        "set (child_times tmax t d ds) = {u. d' dvd u \<and> t \<le> u \<and> u + d' \<le> t + d \<and> u \<le> tmax}"
      using child_times_spec[of tmax d d' ds' t ts] assms Cons by auto
    have "nested ds" "\<And>f. f \<in> set ds \<Longrightarrow> f dvd d'" "tmax + d' \<le> I64_MAX"
      using n(1,2) Cons by (auto simp: nested_def durations_ok_def)
    then have "level_ok tmax ds (child_times tmax t d ds)"
      using s n(3) Cons by (auto simp: level_ok_def intro: dvd_trans[of _ d'])
    moreover have "below tmax ds (child_times tmax t d ds) \<subseteq> {(u, f). f \<in> set ds \<and> f dvd u \<and> t \<le> u \<and> u + f \<le> t + d \<and> u < tmax}"
      unfolding below_def using s(2) Cons by fastforce
    ultimately show ?thesis by simp
  qed
  then show "level_ok tmax ds (child_times tmax t d ds)" "below tmax ds (child_times tmax t d ds)
    \<subseteq> {(u, f). f \<in> set ds \<and> f dvd u \<and> t \<le> u \<and> u + f \<le> t + d \<and> u < tmax}" by auto
qed

lemma below_mono: "below tmax (d # ds) ts \<subseteq> below tmax (d # ds) (t # ts)"
  by (auto simp: below_def)

lemma below_later:
  assumes "level_ok tmax (d # ds) (t # ts)" "(u, f) \<in> below tmax (d # ds) ts"
  shows "u < t"
proof -
  from assms(2) obtain v where v: "v \<in> set ts" "u + f \<le> v + d" "f \<in> set (d # ds)" by (auto simp: below_def)
  have "v < t" "d dvd v" "d dvd t" "0 < f" using assms(1) v by (auto simp: level_ok_def nested_def durations_ok_def)
  then have "v \<le> t - d" using zdvd_imp_le[of d "t - v"] by (simp add: dvd_diff)
  with v \<open>0 < f\<close> show ?thesis by simp
qed

definition events_ok :: "(time_millis \<times> duration_millis) set \<Rightarrow> bool \<Rightarrow> walk_event list \<Rightarrow> bool" where
  "events_ok B full evs \<longleftrightarrow> distinct evs \<and> event_bucket ` set evs \<subseteq> B
     \<and> (full \<longrightarrow> (\<forall>b. Opened b \<in> set evs \<longleftrightarrow> Closed b \<in> set evs))"

lemma events_ok_disjoint:
  assumes "events_ok A True xs" "events_ok B c ys" "A \<inter> B = {}"
  shows "events_ok (A \<union> B) c (xs @ ys)"
  using assms by (fastforce simp: events_ok_def)

lemma events_ok_subset: "events_ok A c xs \<Longrightarrow> A \<subseteq> B \<Longrightarrow> (c' \<Longrightarrow> c) \<Longrightarrow> events_ok B c' xs"
  by (auto simp: events_ok_def)

lemma events_ok_bracket:
  assumes "events_ok A True xs" "b \<notin> A"
  shows "events_ok (insert b A) c (Opened b # xs @ Closed b # []) "
  using assms by (force simp: events_ok_def)

lemma level_events:
  assumes "level_ok tmax ds ts" "visit_level tmax (logged cb) ds ts (s, l) = ((s', l'), r)"
  shows "\<exists>evs. l' = l @ evs \<and> events_ok (below tmax ds ts) (r = Inr True) evs"
  using assms
proof (induction ds arbitrary: ts s l s' l' r)
  case Nil
  then show ?case by (simp add: events_ok_def)
next
  case (Cons d ds)
  note outer_IH = Cons.IH
  from Cons.prems show ?case
  proof (induction ts arbitrary: s l)
    case Nil
    then show ?case by (simp add: events_ok_def)
  next
    case (Cons t ts)
    have rest_ok: "level_ok tmax (d # ds) ts" using Cons.prems(1) by (simp add: level_ok_def)
    show ?case
    proof (cases "tmax \<le> t")
      case True
      then have "visit_level tmax (logged cb) (d # ds) ts (s, l) = ((s', l'), r)" using Cons.prems(2) by simp
      from Cons.IH[OF rest_ok this] show ?thesis using events_ok_subset[OF _ below_mono] by blast
    next
      case False
      then have lt: "t < tmax" by simp
      let ?b = "(t, d)"
      note c = child_level_ok[OF Cons.prems(1) lt]
      have dpos: "0 < d" "d \<notin> set ds" "d dvd t" using Cons.prems(1) by (auto simp: level_ok_def nested_def durations_ok_def)
      have b: "?b \<in> below tmax (d # ds) (t # ts)" using dpos lt by (auto simp: below_def)
      have inb: "below tmax ds (child_times tmax t d ds) \<subseteq> below tmax (d # ds) (t # ts)"
        using c(2) by (fastforce simp: below_def)
      have nb: "?b \<notin> below tmax ds (child_times tmax t d ds)" using c(2) dpos(2) by auto
      obtain s1 ro where o: "on_bucket_open cb t d s = (s1, ro)" by fastforce
      let ?l1 = "l @ [Opened ?b]"
      have unfinished: "events_ok (below tmax (d # ds) (t # ts)) False (Opened ?b # evs)"
        if "events_ok (below tmax ds (child_times tmax t d ds)) c evs" for c evs
        using that b inb nb by (auto simp: events_ok_def)
      have bracket: "events_ok (insert ?b (below tmax ds (child_times tmax t d ds))) c (Opened ?b # evs @ [Closed ?b])"
        if "events_ok (below tmax ds (child_times tmax t d ds)) True evs" for c evs
        using events_ok_bracket[OF that nb] by simp
      show ?thesis
      proof (cases "ro = Inr ContinueWithChildren \<or> ro = Inr ContinueWithoutChildren")
        case False
        then have "l' = ?l1" "r \<noteq> Inr True"
          using Cons.prems(2) lt o by (auto split: sum.splits open_result.splits)
        then show ?thesis using unfinished[of True "[]"] by (auto simp: events_ok_def)
      next
        case True
        define below_run where "below_run =
          (if ro = Inr ContinueWithChildren then visit_level tmax (logged cb) ds (child_times tmax t d ds) (s1, ?l1) else ((s1, ?l1), Inr True))"
        obtain s2 l2 r2 where c2: "below_run = ((s2, l2), r2)" by (metis prod.collapse)
        then have "\<exists>evs. l2 = ?l1 @ evs \<and> events_ok (below tmax ds (child_times tmax t d ds)) (r2 = Inr True) evs"
        proof (cases "ro = Inr ContinueWithChildren")
          case True
          then show ?thesis using outer_IH[OF c(1), of s1 ?l1 s2 l2 r2] c2 by (simp add: below_run_def)
        next
          case False
          then show ?thesis using c2 by (simp add: below_run_def events_ok_def)
        qed
        then obtain ec where ec: "l2 = ?l1 @ ec" "events_ok (below tmax ds (child_times tmax t d ds)) (r2 = Inr True) ec" by blast
        have run: "((s', l'), r) = (case r2 of Inr True \<Rightarrow>
            (case on_bucket_close (logged cb) t d (s2, l2) of
               (s3, Inl e) \<Rightarrow> (s3, Inl e) | (s3, Inr CloseStop) \<Rightarrow> (s3, Inr False)
             | (s3, Inr CloseContinue) \<Rightarrow> visit_level tmax (logged cb) (d # ds) ts s3) | _ \<Rightarrow> ((s2, l2), r2))"
          using Cons.prems(2) lt o True c2 by (rule_tac bool_res_cases[of r2]) (auto simp: below_run_def)
        show ?thesis
        proof (rule bool_res_cases[of r2])
          assume r2: "r2 = Inr True"
          note ec' = ec(2)[simplified r2, simplified]
          obtain s3 rc where cl: "on_bucket_close cb t d s2 = (s3, rc)" by fastforce
          show ?thesis
          proof (cases "rc = Inr CloseContinue")
            case False
            then have "l' = l2 @ [Closed ?b]" "r \<noteq> Inr True"
              using run r2 cl by (auto split: sum.splits close_result.splits)
            then show ?thesis using events_ok_subset[OF bracket[OF ec'], of _ False] b inb ec(1) by auto
          next
            case True
            then have "visit_level tmax (logged cb) (d # ds) ts (s3, l2 @ [Closed ?b]) = ((s', l'), r)" using run r2 cl by simp
            from Cons.IH[OF rest_ok this] obtain er where er: "l' = (l2 @ [Closed ?b]) @ er"
              "events_ok (below tmax (d # ds) ts) (r = Inr True) er" by blast
            have "insert ?b (below tmax ds (child_times tmax t d ds)) \<inter> below tmax (d # ds) ts = {}"
              using below_later[OF Cons.prems(1)] c(2) by fastforce
            from events_ok_disjoint[OF bracket[OF ec'] er(2) this]
            have "events_ok (below tmax (d # ds) (t # ts)) (r = Inr True) ((Opened ?b # ec @ [Closed ?b]) @ er)"
              by (rule events_ok_subset) (use b inb below_mono in blast)+
            then show ?thesis using ec(1) er(1) by auto
          qed
        qed (use run ec unfinished[OF ec(2)] in auto)
      qed
    qed
  qed
qed

lemma walk_siblings:
  assumes "nested ds" "0 \<le> tmin" "tmin \<le> tmax" "tmax + hd ds \<le> I64_MAX"
  shows "level_ok tmax ds (siblings (hd ds) (bucket_start tmin (hd ds)) (bucket_start tmax (hd ds)))"
    "set (siblings (hd ds) (bucket_start tmin (hd ds)) (bucket_start tmax (hd ds)))
      = {u. hd ds dvd u \<and> bucket_start tmin (hd ds) \<le> u \<and> u \<le> tmax}"
proof -
  let ?d = "hd ds" and ?o = "bucket_start tmin (hd ds)"
  have ne: "ds \<noteq> []" and d: "0 < ?d" using assms(1) by (auto simp: nested_def durations_ok_def)
  have o: "0 \<le> ?o" "?o \<le> bucket_start tmax ?d"
    using bucket_start_near(1)[OF d assms(2)] bucket_start_below[of tmax ?d ?o] d assms(2,3) bucket_start_dvd by auto
  have m: "bucket_start tmax ?d \<le> I64_MAX" using bucket_start_near(1)[OF d, of tmax] d assms(2-4) by linarith
  note sp = siblings_spec[OF d o bucket_start_dvd bucket_start_dvd m]
  have "u \<le> bucket_start tmax ?d \<longleftrightarrow> u \<le> tmax" if "?d dvd u" "?o \<le> u" for u
    using bucket_start_below[of tmax ?d u] that d o(1) assms(2,3) by simp
  then show set: "set (siblings ?d ?o (bucket_start tmax ?d)) = {u. ?d dvd u \<and> ?o \<le> u \<and> u \<le> tmax}" using sp by auto
  have "f dvd hd ds" if "f \<in> set ds" for f using assms(1) that ne by (cases ds) (auto simp: nested_def)
  then show "level_ok tmax ds (siblings ?d ?o (bucket_start tmax ?d))"
    using sp set o(1) assms(1,4) by (auto simp: level_ok_def intro: dvd_trans)
qed

text \<open>Whatever the callbacks answer, the buckets opened and closed are buckets of the given durations, aligned to them, that
  start before the end of the walk and not before the coarse bucket of its beginning; none is opened or closed twice, and a walk
  that was not stopped has closed exactly what it opened.\<close>

theorem visit_opens_each_bucket_once:
  assumes "nested ds" "0 \<le> tmin" "tmin \<le> tmax" "tmax + hd ds \<le> I64_MAX"
    and "bucket_visit tmax tmin ds (logged cb) (s, []) = Some ((s', evs), r)"
  shows "distinct evs
    \<and> (\<forall>e \<in> set evs. case event_bucket e of (t, d) \<Rightarrow> d \<in> set ds \<and> d dvd t \<and> bucket_start tmin (hd ds) \<le> t \<and> t < tmax)
    \<and> (r = Inr True \<longrightarrow> (\<forall>b. Opened b \<in> set evs \<longleftrightarrow> Closed b \<in> set evs))"
proof -
  let ?ts = "siblings (hd ds) (bucket_start tmin (hd ds)) (bucket_start tmax (hd ds))"
  have "durations_ok ds" "I64_MIN < tmax" "I64_MIN < tmin" using assms(1-3) by (auto simp: nested_def I64_MIN_def)
  then have run: "visit_level tmax (logged cb) ds ?ts (s, []) = ((s', evs), r)" 
    using assms(5) visit_runs_reference[of ds tmax tmin "logged cb" "(s, [])"] by simp
  note w = walk_siblings[OF assms(1-4)]
  from level_events[OF w(1) run] have e: "events_ok (below tmax ds ?ts) (r = Inr True) evs" by auto
  have in_walk: "d \<in> set ds \<and> d dvd t \<and> bucket_start tmin (hd ds) \<le> t \<and> t < tmax" if "(t, d) \<in> below tmax ds ?ts" for t d
    using that unfolding below_def w(2) by auto
  have "event_bucket x \<in> below tmax ds ?ts" if "x \<in> set evs" for x using e that by (auto simp: events_ok_def)
  then have "\<forall>x \<in> set evs. case event_bucket x of (t, d) \<Rightarrow> d \<in> set ds \<and> d dvd t \<and> bucket_start tmin (hd ds) \<le> t \<and> t < tmax"
    using in_walk by (metis (no_types, lifting) case_prodI2)
  then show ?thesis using e by (simp add: events_ok_def)
qed

text \<open>A walk that is never stopped and always asks for the children.\<close>

definition collect_all :: "(time_millis \<times> duration_millis) list bucket_callbacks" where
  "collect_all = \<lparr>on_bucket_open = (\<lambda>t d l. (l @ [(t, d)], Inr ContinueWithChildren)),
     on_bucket_close = (\<lambda>t d l. (l, Inr CloseContinue))\<rparr>"

definition finest :: "duration_millis \<Rightarrow> (time_millis \<times> duration_millis) list \<Rightarrow> time_millis list" where
  "finest f bs = map fst (List.filter (\<lambda>b. snd b = f) bs)"

lemma finest_simps [simp]:
  "finest f [] = []" "finest f (bs @ bs') = finest f bs @ finest f bs'" "finest f ((t, d) # bs) = (if d = f then t # finest f bs else finest f bs)"
  by (simp_all add: finest_def)

lemma finer_inside:
  assumes "0 < f" "0 < (d :: int)" "f dvd d" "f dvd u" "0 \<le> u"
  shows "bucket_start u d \<le> u \<and> u + f \<le> bucket_start u d + d"
proof -
  have n: "bucket_start u d \<le> u" "u < bucket_start u d + d" using bucket_start_near(1)[OF assms(2,5)] by simp_all
  have "f dvd bucket_start u d + d - u" using assms(3,4) bucket_start_dvd[of d u] by (meson dvd_add dvd_diff dvd_trans)
  then show ?thesis using n zdvd_imp_le[of f "bucket_start u d + d - u"] by simp
qed

lemma level_collects:
  assumes "level_ok tmax ds ts" "ds \<noteq> []"
  shows "\<exists>new. visit_level tmax collect_all ds ts l = (l @ new, Inr True) \<and> sorted_wrt (>) (finest (last ds) new)
    \<and> set (finest (last ds) new) = {u. (u, last ds) \<in> below tmax ds ts}"
  using assms
proof (induction ds arbitrary: ts l)
  case (Cons d ds)
  note outer_IH = Cons.IH
  let ?f = "last (d # ds)"
  have [simp]: "on_bucket_open collect_all t d l = (l @ [(t, d)], Inr ContinueWithChildren)"
    "on_bucket_close collect_all t d l = (l, Inr CloseContinue)" for t d l by (simp_all add: collect_all_def)
  have "level_ok tmax (d # ds) ts \<Longrightarrow> \<exists>new. visit_level tmax collect_all (d # ds) ts l = (l @ new, Inr True) \<and> sorted_wrt (>) (finest ?f new)
    \<and> set (finest ?f new) = {u. (u, ?f) \<in> below tmax (d # ds) ts}"
  proof (induction ts arbitrary: l)
    case Nil
    then show ?case by (simp add: below_def)
  next
    case (Cons t ts)
    have rest_ok: "level_ok tmax (d # ds) ts" using Cons.prems by (simp add: level_ok_def)
    have n: "0 < d" "d \<notin> set ds" "d dvd t" "0 \<le> t" "\<And>f. f \<in> set ds \<Longrightarrow> 0 < f \<and> f dvd d \<and> f < d"
      using Cons.prems by (auto simp: level_ok_def nested_def durations_ok_def)
    show ?case
    proof (cases "tmax \<le> t")
      case True
      then have "below tmax (d # ds) (t # ts) = below tmax (d # ds) ts" by (auto simp: below_def)
      then show ?thesis using Cons.IH[OF rest_ok, of l] True by simp
    next
      case False
      then have lt: "t < tmax" by simp
      have here: "\<exists>new. visit_level tmax collect_all ds (child_times tmax t d ds) (l @ [(t, d)]) = ((l @ [(t, d)]) @ new, Inr True)
        \<and> sorted_wrt (>) (finest ?f ((t, d) # new))
        \<and> set (finest ?f ((t, d) # new)) = {u. ?f dvd u \<and> t \<le> u \<and> u + ?f \<le> t + d \<and> u < tmax}"
      proof (cases ds)
        case Nil
        have "{u. d dvd u \<and> t \<le> u \<and> u + d \<le> t + d \<and> u < tmax} = {t}" using n(3) lt by auto
        then show ?thesis using Nil by simp
      next
        case ds: (Cons d' ds')
        let ?g = "last ds"
        have g: "?f = ?g" "?g \<in> set ds" "?g \<noteq> d" "d' \<in> set ds" using ds n(2) by auto
        note c = child_level_ok[OF Cons.prems lt]
        have gd: "0 < ?g" "0 < d'" "?g dvd d'" "d' dvd d" "d' dvd t"
          using n(5)[OF g(2)] n(5)[OF g(4)] Cons.prems ds n(3) by (auto simp: level_ok_def nested_def)
        have cs: "set (child_times tmax t d ds) = {u. d' dvd u \<and> t \<le> u \<and> u + d' \<le> t + d \<and> u \<le> tmax}"
          using child_times_spec[of tmax d d' ds' t ts] Cons.prems lt ds by simp
        have "(u, ?g) \<in> below tmax ds (child_times tmax t d ds)" if u: "?g dvd u" "t \<le> u" "u + ?g \<le> t + d" "u < tmax" for u
        proof -
          have u0: "0 \<le> u" using u(2) n(4) by simp
          note i = finer_inside[OF gd(1,2,3) u(1) u0]
          have "t \<le> bucket_start u d'" using bucket_start_below[OF u0 gd(2) gd(5) n(4)] u(2) by simp
          moreover have "bucket_start u d' + d' \<le> t + d"
          proof -
            have "bucket_start u d' < t + d" using i u gd(1) by linarith
            moreover have "d' dvd t + d - bucket_start u d'" using gd(4,5) bucket_start_dvd by (simp add: dvd_add dvd_diff)
            ultimately show ?thesis using zdvd_imp_le[of d' "t + d - bucket_start u d'"] by simp
          qed
          ultimately have "bucket_start u d' \<in> set (child_times tmax t d ds)"
            unfolding cs using i u(4) bucket_start_dvd by auto
          then show ?thesis using i u g(2) ds by (auto simp: below_def)
        qed
        then have "{u. (u, ?g) \<in> below tmax ds (child_times tmax t d ds)} = {u. ?g dvd u \<and> t \<le> u \<and> u + ?g \<le> t + d \<and> u < tmax}"
          using c(2) by blast
        then show ?thesis using outer_IH[OF c(1), of "l @ [(t, d)]"] ds g by auto
      qed
      then obtain nc where nc: "visit_level tmax collect_all ds (child_times tmax t d ds) (l @ [(t, d)]) = ((l @ [(t, d)]) @ nc, Inr True)"
        "sorted_wrt (>) (finest ?f ((t, d) # nc))"
        "set (finest ?f ((t, d) # nc)) = {u. ?f dvd u \<and> t \<le> u \<and> u + ?f \<le> t + d \<and> u < tmax}" by blast
      from Cons.IH[OF rest_ok, of "(l @ [(t, d)]) @ nc"] obtain nr where nr:
        "visit_level tmax collect_all (d # ds) ts ((l @ [(t, d)]) @ nc) = (((l @ [(t, d)]) @ nc) @ nr, Inr True)"
        "sorted_wrt (>) (finest ?f nr)" "set (finest ?f nr) = {u. (u, ?f) \<in> below tmax (d # ds) ts}" by blast
      let ?new = "((t, d) # nc) @ nr"
      have "visit_level tmax collect_all (d # ds) (t # ts) l = (l @ ?new, Inr True)" using lt nc(1) nr(1) by simp
      moreover have "sorted_wrt (>) (finest ?f ?new)"
        unfolding finest_simps(2) sorted_wrt_append using nc(2,3) nr(2,3) below_later[OF Cons.prems] by fastforce
      moreover have "set (finest ?f ?new) = {u. (u, ?f) \<in> below tmax (d # ds) (t # ts)}"
        unfolding finest_simps(2) set_append nc(3) nr(3) using last_in_set[of "d # ds"] by (auto simp: below_def)
      ultimately show ?thesis by blast
    qed
  qed
  then show ?case using Cons.prems(1) by blast
qed simp

text \<open>C13: A walk that is never stopped opens, at the finest duration, every bucket from the start of the coarse bucket of the
  beginning up to the end, each once and newest first: no part of the time asked for is missed and none is walked twice.\<close>

theorem full_walk_covers_time:
  assumes "nested ds" "0 \<le> tmin" "tmin \<le> tmax" "tmax + hd ds \<le> I64_MAX"
  shows "\<exists>opened. bucket_visit tmax tmin ds collect_all [] = Some (opened, Inr True)
    \<and> sorted_wrt (>) (finest (last ds) opened)
    \<and> set (finest (last ds) opened) = {t. last ds dvd t \<and> bucket_start tmin (hd ds) \<le> t \<and> t < tmax}"
proof -
  let ?c = "hd ds" and ?f = "last ds"
  let ?ts = "siblings ?c (bucket_start tmin ?c) (bucket_start tmax ?c)"
  have ok: "durations_ok ds" "I64_MIN < tmax" "I64_MIN < tmin" "ds \<noteq> []"
    using assms(1-3) by (auto simp: nested_def durations_ok_def I64_MIN_def)
  note w = walk_siblings[OF assms(1-4)]
  have fc: "0 < ?c" "0 < ?f" "?f dvd ?c" "?f \<in> set ds"
    using assms(1) ok(4) by (cases ds; auto simp: nested_def durations_ok_def)+
  have o: "0 \<le> bucket_start tmin ?c" using bucket_start_near(1)[OF fc(1) assms(2)] by simp
  have "(u, ?f) \<in> below tmax ds ?ts" if u: "?f dvd u" "bucket_start tmin ?c \<le> u" "u < tmax" for u
  proof -
    have u0: "0 \<le> u" using u(2) o by simp
    note i = finer_inside[OF fc(2,1,3) u(1) u0]
    have "bucket_start tmin ?c \<le> bucket_start u ?c" using bucket_start_below[OF u0 fc(1) bucket_start_dvd o] u(2) by simp
    then have "bucket_start u ?c \<in> set ?ts" unfolding w(2) using i u(3) bucket_start_dvd by auto
    then show ?thesis using i u fc(4) by (auto simp: below_def)
  qed
  moreover have "?f dvd u \<and> bucket_start tmin ?c \<le> u \<and> u < tmax" if "(u, ?f) \<in> below tmax ds ?ts" for u
    using that unfolding below_def w(2) by auto
  ultimately have "{u. (u, ?f) \<in> below tmax ds ?ts} = {t. ?f dvd t \<and> bucket_start tmin ?c \<le> t \<and> t < tmax}" by blast
  with level_collects[OF w(1) ok(4), of "[]"] show ?thesis
    using visit_runs_reference[OF ok(1-3), of collect_all "[]"] by auto
qed

lemma ladder_nested: "nested BUCKET_DURATIONS" "nested (bucket_durations_for_type ty)"
  by (cases ty; simp add: nested_def durations_ok_def bucket_durations_values in_i64_def I64_MIN_def I64_MAX_def)+

section \<open>Relations the callbacks keep\<close>

text \<open>What every successful call does to the state, a walk that does not fail does to it as well.\<close>

lemma visit_level_relates:
  assumes refl: "\<And>s. R s s" and trans: "\<And>a b c. R a b \<Longrightarrow> R b c \<Longrightarrow> R a c"
    and opens: "\<And>t d s s' x. on_bucket_open cb t d s = (s', Inr x) \<Longrightarrow> R s s'"
    and closes: "\<And>t d s s' x. on_bucket_close cb t d s = (s', Inr x) \<Longrightarrow> R s s'"
    and "visit_level tmax cb ds ts s = (s', Inr b)"
  shows "R s s'"
  using assms(5)
proof (induction ds arbitrary: ts s s' b)
  case Nil
  then show ?case using refl by simp
next
  case (Cons d ds)
  note outer_IH = Cons.IH
  from Cons.prems show ?case
  proof (induction ts arbitrary: s)
    case Nil
    then show ?case using refl by simp
  next
    case (Cons t ts)
    show ?case
    proof (cases "tmax \<le> t")
      case True
      then show ?thesis using Cons by simp
    next
      case False
      obtain s1 ro where o: "on_bucket_open cb t d s = (s1, ro)" by fastforce
      then obtain x where x: "ro = Inr x" using Cons.prems False by (cases ro) auto
      have s1: "R s s1" using opens o x by blast
      obtain s2 r2 where c: "(if x = ContinueWithChildren then visit_level tmax cb ds (child_times tmax t d ds) s1 else (s1, Inr True)) = (s2, r2)"
        by fastforce
      show ?thesis
      proof (cases "x = OpenStop")
        case True
        then show ?thesis using Cons.prems False o x s1 by simp
      next
        case go: False
        have run: "(case r2 of Inr True \<Rightarrow> (case on_bucket_close cb t d s2 of (s3, Inl e) \<Rightarrow> (s3, Inl e)
              | (s3, Inr CloseStop) \<Rightarrow> (s3, Inr False) | (s3, Inr CloseContinue) \<Rightarrow> visit_level tmax cb (d # ds) ts s3)
            | _ \<Rightarrow> (s2, r2)) = (s', Inr b)"
          using Cons.prems False o x c go by (cases x; rule_tac bool_res_cases[of r2]) auto
        have s2: "R s s2" if "r2 = Inr b2" for b2
        proof (cases "x = ContinueWithChildren")
          case True
          then show ?thesis using outer_IH[of _ s1 s2 b2] c that s1 trans by auto
        qed (use c s1 in auto)
        show ?thesis
        proof (rule bool_res_cases[of r2])
          assume r2: "r2 = Inr True"
          obtain s3 rc where cl: "on_bucket_close cb t d s2 = (s3, rc)" by fastforce
          then obtain y where y: "rc = Inr y" using run r2 by (cases rc) auto
          have s3: "R s s3" using s2[OF r2] closes cl y trans by blast
          show ?thesis using run r2 cl y s3 Cons.IH[of s3] trans by (cases y) auto
        qed (use run s2 in auto)
      qed
    qed
  qed
qed

lemma bucket_visit_relates:
  assumes "durations_ok ds" "I64_MIN < tmax" "I64_MIN < tmin"
    and "\<And>s. R s s" "\<And>a b c. R a b \<Longrightarrow> R b c \<Longrightarrow> R a c"
    and "\<And>t d s s' x. on_bucket_open cb t d s = (s', Inr x) \<Longrightarrow> R s s'"
    and "\<And>t d s s' x. on_bucket_close cb t d s = (s', Inr x) \<Longrightarrow> R s s'"
    and "bucket_visit tmax tmin ds cb s = Some (s', Inr b)"
  shows "R s s'"
  using visit_level_relates[of R cb] assms visit_runs_reference[OF assms(1-3), of cb s] by auto

definition outcome_ok :: "('s \<Rightarrow> bool) \<Rightarrow> (err \<Rightarrow> bool) \<Rightarrow> 's \<times> 'a res \<Rightarrow> bool" where
  "outcome_ok J Q out \<longleftrightarrow> J (fst out) \<and> (\<forall>e. snd out = Inl e \<longrightarrow> Q e)"

definition callbacks_ok :: "duration_millis list \<Rightarrow> ('s \<Rightarrow> bool) \<Rightarrow> (err \<Rightarrow> bool) \<Rightarrow> 's bucket_callbacks \<Rightarrow> bool" where
  "callbacks_ok ds J Q cb \<longleftrightarrow> (\<forall>d \<in> set ds. \<forall>t s. J s \<longrightarrow>
     outcome_ok J Q (on_bucket_open cb t d s) \<and> outcome_ok J Q (on_bucket_close cb t d s))"

lemma visit_level_outcome:
  assumes "callbacks_ok ds J Q cb" "J s" "visit_level tmax cb ds ts s = (s', r)"
  shows "J s' \<and> (\<forall>e. r = Inl e \<longrightarrow> Q e)"
  using assms
proof (induction ds arbitrary: ts s s' r)
  case Nil
  then show ?case by auto
next
  case (Cons d ds)
  have inner: "J a \<Longrightarrow> visit_level tmax cb ds ts a = (b, c) \<Longrightarrow> J b \<and> (\<forall>e. c = Inl e \<longrightarrow> Q e)" for ts a b c
    using Cons.IH[of a ts b c] Cons.prems(1) by (simp add: callbacks_ok_def)
  have here: "\<forall>t a. J a \<longrightarrow> outcome_ok J Q (on_bucket_open cb t d a) \<and> outcome_ok J Q (on_bucket_close cb t d a)"
    using Cons.prems(1) by (simp add: callbacks_ok_def)
  have cbs1: "J b \<and> (\<forall>e. x = Inl e \<longrightarrow> Q e)" if "J a" "on_bucket_open cb t d a = (b, x)" for t a b x
    using spec[OF spec[OF here, of t], of a] that by (simp add: outcome_ok_def)
  have cbs2: "J b \<and> (\<forall>e. x = Inl e \<longrightarrow> Q e)" if "J a" "on_bucket_close cb t d a = (b, x)" for t a b x
    using spec[OF spec[OF here, of t], of a] that by (simp add: outcome_ok_def)
  from Cons.prems(2,3) show ?case
  proof (induction ts arbitrary: s)
    case Nil
    then show ?case by auto
  next
    case (Cons t ts)
    show ?case
    proof (cases "tmax \<le> t")
      case True
      then show ?thesis using Cons by simp
    next
      case False
      obtain s1 ro where o: "on_bucket_open cb t d s = (s1, ro)" by fastforce
      have s1: "J s1 \<and> (\<forall>e. ro = Inl e \<longrightarrow> Q e)" using cbs1[OF Cons.prems(1) o] by simp
      show ?thesis
      proof (cases "ro = Inr ContinueWithChildren \<or> ro = Inr ContinueWithoutChildren")
        case False
        then show ?thesis using Cons.prems(2) \<open>\<not> tmax \<le> t\<close> o s1 by (auto split: sum.splits open_result.splits)
      next
        case go: True
        obtain s2 r2 where c: "(if ro = Inr ContinueWithChildren then visit_level tmax cb ds (child_times tmax t d ds) s1 else (s1, Inr True)) = (s2, r2)"
          by fastforce
        have s2: "J s2 \<and> (\<forall>e. r2 = Inl e \<longrightarrow> Q e)" using inner[of s1 _ s2 r2] c s1 by (auto split: if_splits)
        have run: "(case r2 of Inr True \<Rightarrow> (case on_bucket_close cb t d s2 of (s3, Inl e) \<Rightarrow> (s3, Inl e)
              | (s3, Inr CloseStop) \<Rightarrow> (s3, Inr False) | (s3, Inr CloseContinue) \<Rightarrow> visit_level tmax cb (d # ds) ts s3)
            | _ \<Rightarrow> (s2, r2)) = (s', r)"
          using Cons.prems(2) False o c go by (rule_tac bool_res_cases[of r2]) auto
        show ?thesis
        proof (rule bool_res_cases[of r2])
          assume r2: "r2 = Inr True"
          obtain s3 rc where cl: "on_bucket_close cb t d s2 = (s3, rc)" by fastforce
          have s3: "J s3 \<and> (\<forall>e. rc = Inl e \<longrightarrow> Q e)" using cbs2[OF conjunct1[OF s2] cl] by simp
          show ?thesis
          proof (cases "rc = Inr CloseContinue")
            case True
            then show ?thesis using run r2 cl s3 Cons.IH[of s3] by simp
          next
            case False
            then show ?thesis using run r2 cl s3 by (auto split: sum.splits close_result.splits)
          qed
        qed (use run s2 in auto)
      qed
    qed
  qed
qed

lemma bucket_visit_outcome:
  assumes "durations_ok ds" "I64_MIN < tmax" "I64_MIN < tmin"
    and "callbacks_ok ds J Q cb"
    and "J s" "bucket_visit tmax tmin ds cb s = Some (s', r)"
  shows "J s' \<and> (\<forall>e. r = Inl e \<longrightarrow> Q e)"
proof -
  let ?ts = "siblings (hd ds) (bucket_start tmin (hd ds)) (bucket_start tmax (hd ds))"
  have "visit_level tmax cb ds ?ts s = (s', r)" using assms(6) visit_runs_reference[OF assms(1-3), of cb s] by simp
  from visit_level_outcome[OF assms(4,5) this] show ?thesis by blast
qed

end
