(* ===== verification/Timeline.thy ===== *)
theory Timeline
  imports Visitor PostBundle
begin

text \<open>
  The timelines of a client: \<open>client/timeline/recent_posts_pen.rs\<close>, \<open>single_timeline.rs\<close> and \<open>multiple_timeline.rs\<close>. The trait
  \<open>PostBundleManager\<close> is a function on a state of the manager's own, and what its clients rely on is a locale; the manager and the
  pen, which the code shares behind locks, are passed along. \<open>usize\<close> sums that overflow panic, as in a checked build.
\<close>

section \<open>The pen of recent posts\<close>

definition RECENT_POSTS_PEN_TTL :: duration_millis where
  "RECENT_POSTS_PEN_TTL = const_mul MILLIS_IN_MINUTE 10"

record pen_entry =
  pen_bucket_location :: bucket_location
  pen_post_id :: id
  pen_encoded_post_bytes :: bytes
  pen_time_millis :: time_millis

type_synonym recent_posts_pen = "pen_entry list"

definition pen_add_all :: "(bucket_location \<times> id) list \<Rightarrow> bytes \<Rightarrow> time_millis \<Rightarrow> recent_posts_pen \<Rightarrow> recent_posts_pen" where
  "pen_add_all locations_and_ids bs t pen = pen @ map (\<lambda>(loc, i).
     \<lparr>pen_bucket_location = loc, pen_post_id = i, pen_encoded_post_bytes = bs, pen_time_millis = t\<rparr>) locations_and_ids"

definition pen_get_matching_posts :: "bucket_type \<Rightarrow> id \<Rightarrow> id set \<Rightarrow> time_millis \<Rightarrow> recent_posts_pen
    \<Rightarrow> recent_posts_pen \<times> (bucket_location \<times> bytes \<times> id) list" where
  "pen_get_matching_posts ty base already_seen now pen =
     (let cutoff = time_sub_dur now RECENT_POSTS_PEN_TTL;
          kept = List.filter (\<lambda>e. pen_time_millis e \<ge> cutoff) pen
      in (kept, map (\<lambda>e. (pen_bucket_location e, pen_encoded_post_bytes e, pen_post_id e))
            (List.filter (\<lambda>e. bl_bucket_type (pen_bucket_location e) = ty \<and> bl_base_id (pen_bucket_location e) = base
               \<and> pen_post_id e \<notin> already_seen) kept)))"


section \<open>One timeline\<close>

record single_timeline =
  tl_bucket_type :: bucket_type
  tl_base_id :: id
  tl_oldest_allowed :: time_millis
  tl_oldest_processed :: time_millis
  tl_seen :: "id set"

definition SingleTimeline_new :: "bucket_type \<Rightarrow> id \<Rightarrow> single_timeline" where
  "SingleTimeline_new ty base = \<lparr>tl_bucket_type = ty, tl_base_id = base, tl_oldest_allowed = I64_MAX,
     tl_oldest_processed = I64_MAX, tl_seen = {}\<rparr>"

definition tl_post_count :: "single_timeline \<Rightarrow> nat" where
  "tl_post_count st = card (tl_seen st)"

type_synonym timeline_post = "bucket_location \<times> bytes \<times> bool"

type_synonym 'm bundle_getter = "bucket_location \<Rightarrow> time_millis \<Rightarrow> 'm \<Rightarrow> 'm \<times> post_bundle res"

text \<open>What the two callbacks share: the timeline, the posts collected and the manager.\<close>

type_synonym 'm timeline_run = "single_timeline \<times> timeline_post list \<times> 'm"

definition tl_bundle :: "crypto \<Rightarrow> 'm bundle_getter \<Rightarrow> single_timeline \<Rightarrow> time_millis \<Rightarrow> time_millis \<Rightarrow> duration_millis \<Rightarrow> 'm
    \<Rightarrow> 'm \<times> (bucket_location \<times> post_bundle) res" where
  "tl_bundle C G st now t d m =
     (case BucketLocation_new C (tl_bucket_type st) (tl_base_id st) d t of
        Inl e \<Rightarrow> (m, Inl e)
      | Inr loc \<Rightarrow> (case G loc now m of (m', Inl e) \<Rightarrow> (m', Inl e) | (m', Inr b) \<Rightarrow> (m', Inr (loc, b))))"

definition tl_on_open :: "crypto \<Rightarrow> 'm bundle_getter \<Rightarrow> time_millis \<Rightarrow> time_millis \<Rightarrow> duration_millis \<Rightarrow> 'm timeline_run
    \<Rightarrow> 'm timeline_run \<times> open_result res" where
  "tl_on_open C G now t d s = (case s of (st, posts, m) \<Rightarrow>
     let st' = st\<lparr>tl_oldest_allowed := min (tl_oldest_allowed st) t\<rparr> in
     case tl_bundle C G st' now t d m of
       (m', Inl e) \<Rightarrow> ((st', posts, m'), Inl e)
     | (m', Inr (loc, b)) \<Rightarrow> ((st', posts, m'),
         Inr (if pbh_overflowed (pb_header b) then ContinueWithChildren else ContinueWithoutChildren)))"

text \<open>The loop over the posts of a bundle, from index \<open>i\<close> and offset \<open>start\<close>: indexing and slicing out of range panic.\<close>

fun extract_posts :: "bucket_location \<Rightarrow> post_bundle \<Rightarrow> nat list \<Rightarrow> nat \<Rightarrow> id set \<Rightarrow> timeline_post list
    \<Rightarrow> (id set \<times> timeline_post list) \<times> unit res" where
  "extract_posts loc b [] start seen posts = ((seen, posts), Inr ())"
| "extract_posts loc b (i # is) start seen posts =
     (let h = pb_header b in
      if length (pbh_encoded_post_lengths h) \<le> i then ((seen, posts), Inl (Panic ''index out of bounds''))
      else if USIZE_MAX < start + pbh_encoded_post_lengths h ! i then ((seen, posts), Inl (Panic ''attempt to add with overflow''))
      else if length (pbh_encoded_post_ids h) \<le> i then ((seen, posts), Inl (Panic ''index out of bounds''))
      else let end_i = start + pbh_encoded_post_lengths h ! i; post_id = pbh_encoded_post_ids h ! i in
        if post_id \<in> seen then extract_posts loc b is end_i seen posts
        else if length (pb_encoded_posts_bytes b) < end_i then ((insert post_id seen, posts), Inl (Panic ''range end out of bounds''))
        else extract_posts loc b is end_i (insert post_id seen)
               (posts @ [(loc, slice start (end_i - start) (pb_encoded_posts_bytes b), post_id \<in> pbh_encoded_post_healed h)]))"

definition tl_on_close :: "crypto \<Rightarrow> 'm bundle_getter \<Rightarrow> time_millis \<Rightarrow> nat \<Rightarrow> time_millis \<Rightarrow> duration_millis \<Rightarrow> 'm timeline_run
    \<Rightarrow> 'm timeline_run \<times> close_result res" where
  "tl_on_close C G now max_posts t d s = (case s of (st, posts, m) \<Rightarrow>
     let st' = st\<lparr>tl_oldest_processed := min (tl_oldest_processed st) t\<rparr> in
     case tl_bundle C G st' now t d m of
       (m', Inl e) \<Rightarrow> ((st', posts, m'), Inl e)
     | (m', Inr (loc, b)) \<Rightarrow>
         (case extract_posts loc b [0..<unat (pbh_num_posts (pb_header b))] 0 (tl_seen st') posts of
            ((seen, posts'), Inl e) \<Rightarrow> ((st'\<lparr>tl_seen := seen\<rparr>, posts', m'), Inl e)
          | ((seen, posts'), Inr _) \<Rightarrow> ((st'\<lparr>tl_seen := seen\<rparr>, posts', m'),
              Inr (if length posts' < max_posts then CloseContinue else CloseStop))))"

definition tl_callbacks :: "crypto \<Rightarrow> 'm bundle_getter \<Rightarrow> time_millis \<Rightarrow> nat \<Rightarrow> 'm timeline_run bucket_callbacks" where
  "tl_callbacks C G now max_posts = \<lparr>on_bucket_open = tl_on_open C G now, on_bucket_close = tl_on_close C G now max_posts\<rparr>"

text \<open>The posts of the pen that the walk did not bring.\<close>

fun add_pen_posts :: "(bucket_location \<times> bytes \<times> id) list \<Rightarrow> id set \<Rightarrow> timeline_post list \<Rightarrow> id set \<times> timeline_post list" where
  "add_pen_posts [] seen posts = (seen, posts)"
| "add_pen_posts ((loc, bs, post_id) # pps) seen posts =
     (if post_id \<in> seen then add_pen_posts pps seen posts
      else add_pen_posts pps (insert post_id seen) (posts @ [(loc, bs, False)]))"

definition tl_start :: "time_millis \<Rightarrow> single_timeline \<Rightarrow> single_timeline" where
  "tl_start now st =
     (let st1 = (if I64_MAX = tl_oldest_allowed st then st\<lparr>tl_oldest_allowed := now\<rparr> else st)
      in if I64_MAX = tl_oldest_processed st1 then st1\<lparr>tl_oldest_processed := now\<rparr> else st1)"

text \<open>\<open>None\<close> of the outer option would be a walk that does not end.\<close>

definition tl_get_more_posts :: "crypto \<Rightarrow> 'm bundle_getter \<Rightarrow> time_millis \<Rightarrow> nat \<Rightarrow> duration_millis list
    \<Rightarrow> single_timeline \<times> 'm \<times> recent_posts_pen \<Rightarrow> ((single_timeline \<times> 'm \<times> recent_posts_pen) \<times> timeline_post list res) option" where
  "tl_get_more_posts C G now max_posts ds s = (case s of (st, m, pen) \<Rightarrow>
     let st0 = tl_start now st;
         time_millis_min = time_sub_dur (tl_oldest_allowed st0) MILLIS_IN_MONTH
     in case bucket_visit now time_millis_min ds (tl_callbacks C G now max_posts) (st0, [], m) of
          None \<Rightarrow> None
        | Some ((st1, posts, m1), Inl e) \<Rightarrow> Some ((st1, m1, pen), Inl e)
        | Some ((st1, posts, m1), Inr _) \<Rightarrow>
            (case pen_get_matching_posts (tl_bucket_type st1) (tl_base_id st1) (tl_seen st1) now pen of (pen', pen_posts) \<Rightarrow>
             case add_pen_posts pen_posts (tl_seen st1) posts of (seen, posts') \<Rightarrow>
               Some ((st1\<lparr>tl_seen := seen\<rparr>, m1, pen'), Inr posts')))"


section \<open>Several timelines\<close>

record multiple_timeline =
  mt_bucket_type :: bucket_type
  mt_base_ids :: "id list"
  mt_single_timelines :: "single_timeline list"

definition MultipleTimeline_new :: "bucket_type \<Rightarrow> id list \<Rightarrow> multiple_timeline" where
  "MultipleTimeline_new ty base_ids = \<lparr>mt_bucket_type = ty, mt_base_ids = base_ids,
     mt_single_timelines = map (SingleTimeline_new ty) base_ids\<rparr>"

text \<open>The sum of two durations is not a saturating one; the keys are only computed when there is something to sort.\<close>

definition poll_penalty :: "time_millis \<Rightarrow> single_timeline \<Rightarrow> duration_millis" where
  "poll_penalty now st = time_sub now (tl_oldest_processed st) + const_mul MILLIS_IN_HOUR (int (tl_post_count st))"

definition sort_timelines :: "time_millis \<Rightarrow> single_timeline list \<Rightarrow> single_timeline list res" where
  "sort_timelines now sts =
     (if 2 \<le> length sts \<and> (\<exists>st \<in> set sts. \<not> in_i64 (const_mul MILLIS_IN_HOUR (int (tl_post_count st))) \<or> \<not> in_i64 (poll_penalty now st))
      then Inl (Panic ''attempt to add with overflow'')
      else Inr (sort_key (poll_penalty now) sts))"

fun poll_timelines :: "crypto \<Rightarrow> 'm bundle_getter \<Rightarrow> time_millis \<Rightarrow> nat \<Rightarrow> nat \<Rightarrow> duration_millis list \<Rightarrow> single_timeline list
    \<Rightarrow> timeline_post list \<Rightarrow> 'm \<times> recent_posts_pen
    \<Rightarrow> ((single_timeline list \<times> 'm \<times> recent_posts_pen) \<times> timeline_post list res) option" where
  "poll_timelines C G now max_posts max_single ds [] posts (m, pen) = Some (([], m, pen), Inr posts)"
| "poll_timelines C G now max_posts max_single ds (st # sts) posts (m, pen) =
     (case tl_get_more_posts C G now max_single ds (st, m, pen) of
        None \<Rightarrow> None
      | Some ((st', m', pen'), Inl e) \<Rightarrow> Some ((st' # sts, m', pen'), Inl e)
      | Some ((st', m', pen'), Inr new_posts) \<Rightarrow>
          if max_posts \<le> length (posts @ new_posts) then Some ((st' # sts, m', pen'), Inr (posts @ new_posts))
          else map_option (\<lambda>((sts', m2, pen2), r). ((st' # sts', m2, pen2), r))
                 (poll_timelines C G now max_posts max_single ds sts (posts @ new_posts) (m', pen')))"

definition mt_get_more_posts :: "crypto \<Rightarrow> 'm bundle_getter \<Rightarrow> time_millis \<Rightarrow> nat \<Rightarrow> nat \<Rightarrow> duration_millis list
    \<Rightarrow> multiple_timeline \<times> 'm \<times> recent_posts_pen
    \<Rightarrow> ((multiple_timeline \<times> 'm \<times> recent_posts_pen) \<times> timeline_post list res) option" where
  "mt_get_more_posts C G now max_posts max_single ds s = (case s of (mt, m, pen) \<Rightarrow>
     case sort_timelines now (mt_single_timelines mt) of
       Inl e \<Rightarrow> Some ((mt, m, pen), Inl e)
     | Inr sts \<Rightarrow> map_option (\<lambda>((sts', m', pen'), r). ((mt\<lparr>mt_single_timelines := sts'\<rparr>, m', pen'), r))
         (poll_timelines C G now max_posts max_single ds sts [] (m, pen)))"

definition mt_oldest_processed :: "multiple_timeline \<Rightarrow> time_millis" where
  "mt_oldest_processed mt = fold min (map tl_oldest_processed (mt_single_timelines mt)) I64_MAX"

section \<open>Pages do not repeat posts\<close>

text \<open>Where a post of a page comes from: a bundle lists its id and the bytes are the slice that the listed lengths give it, or the pen
  holds it, not yet outdated.\<close>

definition listed_at :: "post_bundle \<Rightarrow> nat \<Rightarrow> id \<Rightarrow> bytes \<Rightarrow> bool \<Rightarrow> bool" where
  "listed_at b k i bs healed \<longleftrightarrow> (let h = pb_header b; ls = pbh_encoded_post_lengths h in
     k < unat (pbh_num_posts h) \<and> k < length (pbh_encoded_post_ids h) \<and> k < length ls \<and> pbh_encoded_post_ids h ! k = i
     \<and> sum_list (take (Suc k) ls) \<le> length (pb_encoded_posts_bytes b) \<and> bs = slice (sum_list (take k ls)) (ls ! k) (pb_encoded_posts_bytes b)
     \<and> healed = (i \<in> pbh_encoded_post_healed h))"

definition manager_call :: "'m bundle_getter \<Rightarrow> time_millis \<Rightarrow> 'm \<Rightarrow> 'm \<Rightarrow> bool" where
  "manager_call G now m m' \<longleftrightarrow> (\<exists>loc. fst (G loc now m) = m')"

definition from_bundle :: "'m bundle_getter \<Rightarrow> time_millis \<Rightarrow> 'm \<Rightarrow> timeline_post \<Rightarrow> id \<Rightarrow> bool" where
  "from_bundle G now m p i \<longleftrightarrow> (case p of (loc, bs, healed) \<Rightarrow>
     \<exists>m1 m2 b k. (manager_call G now)\<^sup>*\<^sup>* m m1 \<and> G loc now m1 = (m2, Inr b) \<and> listed_at b k i bs healed)"

definition from_pen :: "recent_posts_pen \<Rightarrow> time_millis \<Rightarrow> timeline_post \<Rightarrow> id \<Rightarrow> bool" where
  "from_pen pen now p i \<longleftrightarrow> (case p of (loc, bs, healed) \<Rightarrow> \<not> healed \<and> (\<exists>e \<in> set pen. pen_bucket_location e = loc
     \<and> pen_encoded_post_bytes e = bs \<and> pen_post_id e = i \<and> time_sub_dur now RECENT_POSTS_PEN_TTL \<le> pen_time_millis e))"

text \<open>What one step may do to the state: posts are appended, of this timeline, each under an id of its own that was not seen before.\<close>

definition new_page :: "(timeline_post \<Rightarrow> id \<Rightarrow> bool) \<Rightarrow> id set \<Rightarrow> id set \<Rightarrow> timeline_post list \<Rightarrow> bool" where
  "new_page Q seen seen' page \<longleftrightarrow> (\<exists>ids. list_all2 Q page ids \<and> distinct ids \<and> set ids \<inter> seen = {} \<and> seen' = seen \<union> set ids)"

definition page_grows :: "(timeline_post \<Rightarrow> id \<Rightarrow> bool) \<Rightarrow> single_timeline \<times> timeline_post list \<Rightarrow> single_timeline \<times> timeline_post list \<Rightarrow> bool" where
  "page_grows Q a b \<longleftrightarrow> (case (a, b) of ((st, posts), (st', posts')) \<Rightarrow>
     tl_bucket_type st' = tl_bucket_type st \<and> tl_base_id st' = tl_base_id st
     \<and> tl_oldest_allowed st' \<le> tl_oldest_allowed st \<and> tl_oldest_processed st' \<le> tl_oldest_processed st
     \<and> (\<exists>page. posts' = posts @ page \<and> new_page Q (tl_seen st) (tl_seen st') page \<and> (\<forall>(loc, bs, healed) \<in> set page.
           bl_bucket_type loc = tl_bucket_type st \<and> bl_base_id loc = tl_base_id st)))"

lemma new_page_Nil [simp]: "new_page Q seen seen' [] \<longleftrightarrow> seen' = seen"
  by (auto simp: new_page_def)

lemma new_page_append:
  "new_page Q s1 s2 xs \<Longrightarrow> new_page Q' s2 s3 ys \<Longrightarrow> (\<And>p i. Q' p i \<Longrightarrow> Q p i) \<Longrightarrow> new_page Q s1 s3 (xs @ ys)"
  unfolding new_page_def by (elim exE conjE) (rule exI[of _ "_ @ _"], auto intro!: list_all2_appendI elim: list_all2_mono)

lemma new_page_Cons: "Q p i \<Longrightarrow> i \<notin> seen \<Longrightarrow> new_page Q (insert i seen) seen' page \<Longrightarrow> new_page Q seen seen' (p # page)"
  unfolding new_page_def by (elim exE conjE) (rule exI[of _ "_ # _"], auto)

lemma new_page_mono: "new_page Q seen seen' page \<Longrightarrow> (\<And>p i. p \<in> set page \<Longrightarrow> Q p i \<Longrightarrow> Q' p i) \<Longrightarrow> new_page Q' seen seen' page"
  unfolding new_page_def by (elim exE conjE) (rule exI, auto intro: list.rel_mono_strong)

lemma new_page_count:
  assumes "new_page Q seen seen' page" "finite seen"
  shows "seen \<subseteq> seen' \<and> finite seen' \<and> card seen' = card seen + length page"
proof -
  obtain ids where i: "list_all2 Q page ids" "distinct ids" "set ids \<inter> seen = {}" "seen' = seen \<union> set ids"
    using assms(1) by (auto simp: new_page_def)
  have "card (seen \<union> set ids) = card seen + card (set ids)" using i(3) assms(2) by (intro card_Un_disjoint) auto
  then show ?thesis using i assms(2) by (simp add: distinct_card list_all2_lengthD)
qed

lemma page_grows_refl: "page_grows Q a a"
  by (cases a) (simp add: page_grows_def)

lemma page_grows_trans:
  assumes "page_grows Q a b" "page_grows Q' b c" "\<And>p i. Q' p i \<Longrightarrow> Q p i"
  shows "page_grows Q a c"
proof -
  obtain s1 p1 s2 p2 s3 p3 where [simp]: "a = (s1, p1)" "b = (s2, p2)" "c = (s3, p3)" by (metis prod.collapse)
  obtain x where x: "p2 = p1 @ x" "new_page Q (tl_seen s1) (tl_seen s2) x"
    "\<forall>(loc, bs, healed) \<in> set x. bl_bucket_type loc = tl_bucket_type s1 \<and> bl_base_id loc = tl_base_id s1"
    using assms(1) by (auto simp: page_grows_def)
  obtain y where y: "p3 = p2 @ y" "new_page Q' (tl_seen s2) (tl_seen s3) y"
    "\<forall>(loc, bs, healed) \<in> set y. bl_bucket_type loc = tl_bucket_type s2 \<and> bl_base_id loc = tl_base_id s2"
    using assms(2) by (auto simp: page_grows_def)
  have t: "tl_bucket_type s2 = tl_bucket_type s1" "tl_base_id s2 = tl_base_id s1" using assms(1) by (simp_all add: page_grows_def)
  have "p3 = p1 @ (x @ y)" "new_page Q (tl_seen s1) (tl_seen s3) (x @ y)"
    "\<forall>(loc, bs, healed) \<in> set (x @ y). bl_bucket_type loc = tl_bucket_type s1 \<and> bl_base_id loc = tl_base_id s1"
    using x y t new_page_append[OF x(2) y(2) assms(3)] by auto
  then show ?thesis using assms(1,2) by (auto simp: page_grows_def intro!: exI[of _ "x @ y"])
qed

lemma extract_posts_grows:
  assumes "extract_posts loc b [k..<unat (pbh_num_posts (pb_header b))] (sum_list (take k (pbh_encoded_post_lengths (pb_header b)))) seen posts
      = ((seen', posts'), Inr u)"
  shows "\<exists>page. posts' = posts @ page \<and> new_page (\<lambda>(l, bs, healed) i. l = loc \<and> (\<exists>j. listed_at b j i bs healed)) seen seen' page"
  using assms
proof (induction "unat (pbh_num_posts (pb_header b)) - k" arbitrary: k seen posts)
  case (Suc d)
  let ?ls = "pbh_encoded_post_lengths (pb_header b)" and ?ids = "pbh_encoded_post_ids (pb_header b)" and ?n = "unat (pbh_num_posts (pb_header b))"
  let ?Q = "\<lambda>(l, bs, healed) i. l = loc \<and> (\<exists>j. listed_at b j i bs healed)"
  have k: "k < ?n" "[k..<?n] = k # [Suc k..<?n]" "d = ?n - Suc k" using Suc.hyps(2) by (simp_all add: upt_conv_Cons)
  let ?e = "sum_list (take k ?ls) + ?ls ! k"
  have ok: "k < length ?ls" "k < length ?ids" "\<not> USIZE_MAX < ?e" using Suc.prems by (auto simp: k(2) Let_def split: if_splits)
  then have e: "?e = sum_list (take (Suc k) ?ls)" by (simp add: take_Suc_conv_app_nth)
  note IH = Suc.hyps(1)[OF k(3), folded e]
  show ?case
  proof (cases "?ids ! k \<in> seen")
    case True
    then have "extract_posts loc b [Suc k..<?n] ?e seen posts = ((seen', posts'), Inr u)" using Suc.prems ok by (simp add: k(2) Let_def)
    then show ?thesis by (rule IH)
  next
    case False
    then have fits: "?e \<le> length (pb_encoded_posts_bytes b)" using Suc.prems ok by (auto simp: k(2) Let_def split: if_splits)
    let ?p = "(loc, slice (sum_list (take k ?ls)) (?ls ! k) (pb_encoded_posts_bytes b), ?ids ! k \<in> pbh_encoded_post_healed (pb_header b))"
    have "extract_posts loc b [Suc k..<?n] ?e (insert (?ids ! k) seen) (posts @ [?p]) = ((seen', posts'), Inr u)"
      using Suc.prems ok False fits by (simp add: k(2) Let_def)
    from IH[OF this] obtain page where page: "posts' = (posts @ [?p]) @ page" "new_page ?Q (insert (?ids ! k) seen) seen' page" by blast
    have "listed_at b k (?ids ! k) (slice (sum_list (take k ?ls)) (?ls ! k) (pb_encoded_posts_bytes b)) (?ids ! k \<in> pbh_encoded_post_healed (pb_header b))"
      using k(1) ok fits unfolding e by (simp add: listed_at_def Let_def)
    then have "new_page ?Q seen seen' (?p # page)" using False page(2) by (intro new_page_Cons) auto
    then show ?thesis using page(1) by (intro exI[of _ "?p # page"]) simp
  qed
qed auto

lemma tl_bundle_location:
  assumes "tl_bundle C G st now t d m = (m', Inr (loc, b))"
  shows "bl_bucket_type loc = tl_bucket_type st \<and> bl_base_id loc = tl_base_id st \<and> G loc now m = (m', Inr b)"
  using assms by (auto simp: tl_bundle_def BucketLocation_new_def split: sum.splits prod.splits)

definition run_grows :: "'m bundle_getter \<Rightarrow> time_millis \<Rightarrow> 'm timeline_run \<Rightarrow> 'm timeline_run \<Rightarrow> bool" where
  "run_grows G now s s' \<longleftrightarrow> (case (s, s') of ((st, posts, m), (st', posts', m')) \<Rightarrow>
     (manager_call G now)\<^sup>*\<^sup>* m m' \<and> page_grows (from_bundle G now m) (st, posts) (st', posts'))"

lemma from_bundle_earlier: "(manager_call G now)\<^sup>*\<^sup>* m m' \<Longrightarrow> from_bundle G now m' p i \<Longrightarrow> from_bundle G now m p i"
  unfolding from_bundle_def by (cases p) (auto intro: rtranclp_trans)

lemma run_grows_refl: "run_grows G now s s"
  by (cases s) (simp add: run_grows_def page_grows_refl)

lemma run_grows_trans: "run_grows G now s s' \<Longrightarrow> run_grows G now s' s'' \<Longrightarrow> run_grows G now s s''"
  unfolding run_grows_def by (auto intro: rtranclp_trans page_grows_trans from_bundle_earlier split: prod.splits)

lemma tl_bundle_called:
  assumes "tl_bundle C G st now t d m = (m', r)"
  shows "(manager_call G now)\<^sup>*\<^sup>* m m'"
proof (cases "BucketLocation_new C (tl_bucket_type st) (tl_base_id st) d t")
  case (Inr loc)
  then have "fst (G loc now m) = m'" using assms by (auto simp: tl_bundle_def split: prod.splits sum.splits)
  then have "manager_call G now m m'" by (auto simp: manager_call_def)
  then show ?thesis by blast
qed (use assms in \<open>simp add: tl_bundle_def\<close>)

lemma tl_on_open_grows:
  assumes "tl_on_open C G now t d s = (s', Inr x)"
  shows "run_grows G now s s'"
  using assms tl_bundle_called
  by (auto simp: tl_on_open_def run_grows_def Let_def page_grows_def split: prod.splits sum.splits)

lemma tl_on_close_grows:
  assumes "tl_on_close C G now mx t d s = (s', Inr x)"
  shows "run_grows G now s s'"
proof -
  obtain st posts m where s: "s = (st, posts, m)" by (cases s) auto
  let ?st = "st\<lparr>tl_oldest_processed := min (tl_oldest_processed st) t\<rparr>"
  obtain m' r where g: "tl_bundle C G ?st now t d m = (m', r)" by fastforce
  then obtain loc b where r: "r = Inr (loc, b)" using assms s by (cases r) (auto simp: tl_on_close_def Let_def)
  obtain seen posts' e where ex: "extract_posts loc b [0..<unat (pbh_num_posts (pb_header b))] 0 (tl_seen st) posts = ((seen, posts'), e)"
    by (metis prod.collapse)
  have e: "e = Inr ()" and s': "s' = (?st\<lparr>tl_seen := seen\<rparr>, posts', m')"
    using assms s g r ex by (auto simp: tl_on_close_def Let_def split: sum.splits)
  note loc = tl_bundle_location[OF g[unfolded r]]
  obtain page where page: "posts' = posts @ page"
    "new_page (\<lambda>(l, bs, healed) i. l = loc \<and> (\<exists>j. listed_at b j i bs healed)) (tl_seen st) seen page"
    using extract_posts_grows[of loc b 0 "tl_seen st" posts seen posts' "()"] ex[unfolded e] by auto
  have "new_page (from_bundle G now m) (tl_seen st) seen page"
    using page(2) by (rule new_page_mono) (use loc in \<open>fastforce simp: from_bundle_def\<close>)
  moreover have "\<forall>(l, bs, healed) \<in> set page. l = loc"
  proof -
    obtain ids where "list_all2 (\<lambda>(l, bs, healed) i. l = loc \<and> (\<exists>j. listed_at b j i bs healed)) page ids"
      using page(2) by (auto simp: new_page_def)
    then show ?thesis by (induction rule: list_all2_induct) auto
  qed
  ultimately show ?thesis using page(1) loc tl_bundle_called[OF g] unfolding s s' by (auto simp: run_grows_def page_grows_def)
qed

lemma add_pen_posts_grows:
  assumes "add_pen_posts pps seen posts = (seen', posts')"
  shows "\<exists>page. posts' = posts @ page \<and> new_page (\<lambda>(l, bs, healed) i. \<not> healed \<and> (l, bs, i) \<in> set pps) seen seen' page"
  using assms
proof (induction pps seen posts rule: add_pen_posts.induct)
  case (2 loc bs i pps seen posts)
  let ?Q = "\<lambda>pps (l, bs, healed) i. \<not> healed \<and> (l, bs, i) \<in> set pps"
  show ?case
  proof (cases "i \<in> seen")
    case True
    then have "add_pen_posts pps seen posts = (seen', posts')" using "2.prems" by simp
    from 2(1)[OF True this] obtain page where "posts' = posts @ page" "new_page (?Q pps) seen seen' page" by blast
    then show ?thesis by (intro exI[of _ page]) (auto elim: new_page_mono)
  next
    case False
    then have "add_pen_posts pps (insert i seen) (posts @ [(loc, bs, False)]) = (seen', posts')" using "2.prems" by simp
    from 2(2)[OF False this] obtain page where page: "posts' = (posts @ [(loc, bs, False)]) @ page" "new_page (?Q pps) (insert i seen) seen' page" by blast
    have "new_page (?Q ((loc, bs, i) # pps)) (insert i seen) seen' page" using page(2) by (rule new_page_mono) auto
    then have "new_page (?Q ((loc, bs, i) # pps)) seen seen' ((loc, bs, False) # page)" using False by (intro new_page_Cons) auto
    then show ?thesis using page(1) by (intro exI[of _ "(loc, bs, False) # page"]) simp
  qed
qed simp

lemma tl_start_same [simp]:
  "tl_bucket_type (tl_start now st) = tl_bucket_type st" "tl_base_id (tl_start now st) = tl_base_id st" "tl_seen (tl_start now st) = tl_seen st"
  by (simp_all add: tl_start_def Let_def)

lemma pen_matches:
  "pen_get_matching_posts ty base seen now pen = (pen', pps) \<Longrightarrow> (l, bs, i) \<in> set pps
    \<Longrightarrow> bl_bucket_type l = ty \<and> bl_base_id l = base \<and> from_pen pen now (l, bs, False) i"
  by (auto simp: pen_get_matching_posts_def Let_def from_pen_def)

lemma tl_page_grows:
  assumes "durations_ok ds" "I64_MIN < now" "I64_MIN < time_sub_dur (tl_oldest_allowed (tl_start now st)) MILLIS_IN_MONTH"
    and "tl_get_more_posts C G now mx ds (st, m, pen) = Some ((st', m', pen'), Inr posts)"
  shows "page_grows (\<lambda>p i. from_bundle G now m p i \<or> from_pen pen now p i) (tl_start now st, []) (st', posts)"
proof -
  let ?min = "time_sub_dur (tl_oldest_allowed (tl_start now st)) MILLIS_IN_MONTH"
  let ?visit = "bucket_visit now ?min ds (tl_callbacks C G now mx) (tl_start now st, [], m)"
  obtain st1 posts1 m1 b where v: "?visit = Some ((st1, posts1, m1), Inr b)"
    using assms(4) by (auto simp: tl_get_more_posts_def Let_def split: option.splits sum.splits)
  have "run_grows G now (tl_start now st, [], m) (st1, posts1, m1)"
    by (rule bucket_visit_relates[OF assms(1-3) _ _ _ _ v])
      (auto simp: tl_callbacks_def intro: run_grows_refl run_grows_trans tl_on_open_grows tl_on_close_grows)
  then have walk: "page_grows (from_bundle G now m) (tl_start now st, []) (st1, posts1)" by (simp add: run_grows_def)
  obtain pen1 pps where p: "pen_get_matching_posts (tl_bucket_type st1) (tl_base_id st1) (tl_seen st1) now pen = (pen1, pps)" by fastforce
  obtain seen posts2 where a: "add_pen_posts pps (tl_seen st1) posts1 = (seen, posts2)" by fastforce
  have r: "st' = st1\<lparr>tl_seen := seen\<rparr>" "posts = posts2"
    using assms(4) v p a by (auto simp: tl_get_more_posts_def Let_def)
  from add_pen_posts_grows[OF a] obtain page where
    pg: "posts2 = posts1 @ page" "new_page (\<lambda>(l, bs, healed) i. \<not> healed \<and> (l, bs, i) \<in> set pps) (tl_seen st1) seen page" by blast
  have "new_page (from_pen pen now) (tl_seen st1) seen page"
    using pg(2) by (rule new_page_mono) (use pen_matches[OF p] in auto)
  moreover have "\<forall>(l, bs, healed) \<in> set page. bl_bucket_type l = tl_bucket_type st1 \<and> bl_base_id l = tl_base_id st1"
  proof -
    obtain ids where "list_all2 (\<lambda>(l, bs, healed) i. \<not> healed \<and> (l, bs, i) \<in> set pps) page ids" using pg(2) by (auto simp: new_page_def)
    then show ?thesis using pen_matches[OF p] by (induction rule: list_all2_induct) auto
  qed
  ultimately have tail: "page_grows (from_pen pen now) (st1, posts1) (st', posts)" using pg(1) unfolding r by (auto simp: page_grows_def)
  have "page_grows (\<lambda>p i. from_bundle G now m p i \<or> from_pen pen now p i) (tl_start now st, []) (st1, posts1)"
    using walk by (auto simp: page_grows_def elim!: new_page_mono)
  from page_grows_trans[OF this tail] show ?thesis by simp
qed

lemma tl_page_returns:
  assumes "durations_ok ds" "I64_MIN < now" "I64_MIN < time_sub_dur (tl_oldest_allowed (tl_start now st)) MILLIS_IN_MONTH"
  shows "\<exists>out. tl_get_more_posts C G now mx ds (st, m, pen) = Some out"
proof -
  let ?min = "time_sub_dur (tl_oldest_allowed (tl_start now st)) MILLIS_IN_MONTH"
  obtain s1 r where "bucket_visit now ?min ds (tl_callbacks C G now mx) (tl_start now st, [], m) = Some (s1, r)"
    using visit_runs_reference[OF assms] by (metis prod.collapse)
  moreover obtain st1 posts1 m1 where "s1 = (st1, posts1, m1)" by (metis prod.collapse)
  ultimately show ?thesis by (cases r) (auto simp: tl_get_more_posts_def Let_def split: prod.splits)
qed

text \<open>C19: Asking a timeline for more always ends, whatever the bundle manager answers. A page that is returned has one id for each
  of its posts: the ids are distinct, none was seen before, and exactly they are seen afterwards. Each post is the slice that a bundle, which
  the manager returns for its bucket after some calls, lists under its id, or the entry of the pen with its id and at most ten minutes old.
  Every post comes from a bucket of the timeline's type and base id, and the times reached only move back. (A bundle may list the same bytes
  under two ids; then they are two posts.)\<close>

theorem timeline_pages_do_not_repeat:
  assumes "durations_ok ds" "I64_MIN < now" "I64_MIN < time_sub_dur (tl_oldest_allowed (tl_start now st)) MILLIS_IN_MONTH"
  shows "\<exists>st' m' pen' r. tl_get_more_posts C G now mx ds (st, m, pen) = Some ((st', m', pen'), r)
    \<and> (\<forall>posts. r = Inr posts \<longrightarrow>
         (\<exists>ids. distinct ids \<and> set ids \<inter> tl_seen st = {} \<and> tl_seen st' = tl_seen st \<union> set ids
            \<and> list_all2 (\<lambda>post i. from_bundle G now m post i \<or> from_pen pen now post i) posts ids)
         \<and> list_all (\<lambda>(loc, bs, healed). bl_bucket_type loc = tl_bucket_type st \<and> bl_base_id loc = tl_base_id st) posts
         \<and> tl_oldest_processed st' \<le> tl_oldest_processed (tl_start now st) \<and> tl_oldest_allowed st' \<le> tl_oldest_allowed (tl_start now st))"
proof -
  obtain out where "tl_get_more_posts C G now mx ds (st, m, pen) = Some out"
    using tl_page_returns[OF assms(1-3), of C G mx m pen] by blast
  moreover obtain st' m' pen' r where "out = ((st', m', pen'), r)" by (metis prod.collapse)
  ultimately have run: "tl_get_more_posts C G now mx ds (st, m, pen) = Some ((st', m', pen'), r)" by simp
  show ?thesis
  proof (intro exI[of _ st'] exI[of _ m'] exI[of _ pen'] exI[of _ r] conjI allI impI)
    show "tl_get_more_posts C G now mx ds (st, m, pen) = Some ((st', m', pen'), r)" by (rule run)
    fix posts assume "r = Inr posts"
    note grows = tl_page_grows[OF assms(1-3) run[unfolded this]]
    show "\<exists>ids. distinct ids \<and> set ids \<inter> tl_seen st = {} \<and> tl_seen st' = tl_seen st \<union> set ids
        \<and> list_all2 (\<lambda>post i. from_bundle G now m post i \<or> from_pen pen now post i) posts ids"
      using grows by (auto simp: page_grows_def new_page_def)
    show "list_all (\<lambda>(loc, bs, healed). bl_bucket_type loc = tl_bucket_type st \<and> bl_base_id loc = tl_base_id st) posts"
      "tl_oldest_processed st' \<le> tl_oldest_processed (tl_start now st)" "tl_oldest_allowed st' \<le> tl_oldest_allowed (tl_start now st)"
      using grows by (auto simp: page_grows_def list_all_iff)
  qed
qed

section \<open>The contract of a bundle manager\<close>

text \<open>A header that counts its posts, and a body long enough for the lengths in it.\<close>

definition counts_posts :: "post_bundle \<Rightarrow> bool" where
  "counts_posts b \<longleftrightarrow> unat (pbh_num_posts (pb_header b)) \<le> length (pbh_encoded_post_ids (pb_header b))
     \<and> unat (pbh_num_posts (pb_header b)) \<le> length (pbh_encoded_post_lengths (pb_header b))"

definition holds_posts :: "post_bundle \<Rightarrow> bool" where
  "holds_posts b \<longleftrightarrow> counts_posts b
     \<and> sum_list (pbh_encoded_post_lengths (pb_header b)) \<le> length (pb_encoded_posts_bytes b)
     \<and> length (pb_encoded_posts_bytes b) \<le> USIZE_MAX"

text \<open>A manager keeps an invariant of its own, returns bundles that count their posts, and fails only with errors the client
  knows of.\<close>

locale post_bundle_manager =
  fixes get :: "'m bundle_getter" and inv :: "'m \<Rightarrow> bool" and fails :: "err \<Rightarrow> bool"
  assumes get_keeps: "inv m \<Longrightarrow> inv (fst (get loc now m))"
    and get_counts: "inv m \<Longrightarrow> snd (get loc now m) = Inr b \<Longrightarrow> counts_posts b"
    and get_fails: "inv m \<Longrightarrow> snd (get loc now m) = Inl e \<Longrightarrow> fails e"

text \<open>A manager whose bundles hold all they announce.\<close>

locale whole_bundle_manager = post_bundle_manager +
  assumes get_whole: "inv m \<Longrightarrow> snd (get loc now m) = Inr b \<Longrightarrow> holds_posts b"

lemma extract_posts_error:
  assumes "extract_posts loc b is start seen posts = (x, Inl e)" "counts_posts b" "\<forall>i \<in> set is. i < unat (pbh_num_posts (pb_header b))"
  shows "e \<in> {Panic ''attempt to add with overflow'', Panic ''range end out of bounds''}"
  using assms
proof (induction loc b "is" start seen posts rule: extract_posts.induct)
  case (2 loc b i "is" start seen posts)
  then show ?case by (auto simp: Let_def counts_posts_def split: if_splits)
qed simp

lemma extract_posts_whole:
  assumes "holds_posts b" "i + n = unat (pbh_num_posts (pb_header b))" "start = sum_list (take i (pbh_encoded_post_lengths (pb_header b)))"
  shows "\<exists>x. extract_posts loc b [i..<i + n] start seen posts = (x, Inr ())"
  using assms(2,3)
proof (induction n arbitrary: i start seen posts)
  case (Suc n)
  let ?ls = "pbh_encoded_post_lengths (pb_header b)"
  have l: "i < length ?ls" "i < length (pbh_encoded_post_ids (pb_header b))"
    using assms(1) Suc.prems(1) by (auto simp: holds_posts_def counts_posts_def)
  have next': "start + ?ls ! i = sum_list (take (Suc i) ?ls)" using l(1) Suc.prems(2) by (simp add: take_Suc_conv_app_nth)
  have "sum_list (take (Suc i) ?ls) \<le> sum_list ?ls"
    by (metis append_take_drop_id le_add1 sum_list_append)
  then have b: "start + ?ls ! i \<le> length (pb_encoded_posts_bytes b)" "start + ?ls ! i \<le> USIZE_MAX"
    using assms(1) next' by (auto simp: holds_posts_def)
  have u: "[i..<i + Suc n] = i # [Suc i..<Suc i + n]" by (simp add: upt_rec)
  have IH: "\<exists>x. extract_posts loc b [Suc i..<Suc i + n] (start + ?ls ! i) seen' posts' = (x, Inr ())" for seen' posts'
    by (rule Suc.IH) (use Suc.prems(1) next' in simp_all)
  have step: "extract_posts loc b (i # [Suc i..<Suc i + n]) start seen posts =
      (let end_i = start + ?ls ! i; post_id = pbh_encoded_post_ids (pb_header b) ! i in
        if post_id \<in> seen then extract_posts loc b [Suc i..<Suc i + n] end_i seen posts
        else extract_posts loc b [Suc i..<Suc i + n] end_i (insert post_id seen)
          (posts @ [(loc, slice start (end_i - start) (pb_encoded_posts_bytes b), post_id \<in> pbh_encoded_post_healed (pb_header b))]))"
    using l b by (subst extract_posts.simps(2)) (simp add: Let_def not_le not_less del: upt_Suc)
  show ?case unfolding u step Let_def using IH by (cases "pbh_encoded_post_ids (pb_header b) ! i \<in> seen") (simp_all only: if_True if_False)
qed simp

lemma BucketLocation_new_total: "crypto_ok C \<Longrightarrow> 0 < d \<Longrightarrow> \<exists>b. BucketLocation_new C ty base d t = Inr b"
  by (auto simp: BucketLocation_new_def round_down_bucket_start bucket_hash_def)

definition page_fails :: "(err \<Rightarrow> bool) \<Rightarrow> err set \<Rightarrow> err \<Rightarrow> bool" where
  "page_fails fails panics e \<longleftrightarrow> fails e \<or> e \<in> panics"

abbreviation slice_panics :: "err set" where
  "slice_panics \<equiv> {Panic ''attempt to add with overflow'', Panic ''range end out of bounds''}"

context post_bundle_manager
begin

lemma bundle_outcome:
  assumes "crypto_ok C" "0 < d" "inv m"
  shows "\<exists>m' r. tl_bundle C get st now t d m = (m', r) \<and> inv m' \<and> (\<forall>e. r = Inl e \<longrightarrow> fails e)
    \<and> (\<forall>loc b. r = Inr (loc, b) \<longrightarrow> counts_posts b \<and> snd (get loc now m) = Inr b)"
proof -
  obtain loc where l: "BucketLocation_new C (tl_bucket_type st) (tl_base_id st) d t = Inr loc"
    using BucketLocation_new_total[OF assms(1,2)] by blast
  obtain m' r where g: "get loc now m = (m', r)" by fastforce
  have "inv m'" "\<And>e. r = Inl e \<Longrightarrow> fails e" "\<And>b. r = Inr b \<Longrightarrow> counts_posts b"
    using get_keeps[OF assms(3), of loc now] get_fails[OF assms(3), of loc now] get_counts[OF assms(3), of loc now] g by auto
  then show ?thesis using l g by (cases r) (auto simp: tl_bundle_def)
qed

lemma walk_outcome:
  assumes "crypto_ok C" "\<forall>d \<in> set ds. 0 < d"
    and "\<And>m loc now b seen posts st x e. inv m \<Longrightarrow> snd (get loc now m) = Inr b \<Longrightarrow>
      extract_posts loc b [0..<unat (pbh_num_posts (pb_header b))] 0 seen posts = (x, Inl e) \<Longrightarrow> e \<in> panics"
  shows "callbacks_ok ds (\<lambda>(st, posts, m). inv m) (page_fails fails panics) (tl_callbacks C get now mx)"
  unfolding callbacks_ok_def
proof (intro ballI allI impI)
  fix d t and s :: "'m timeline_run"
  assume d: "d \<in> set ds" and J: "case s of (st, posts, m) \<Rightarrow> inv m"
  obtain st posts m where s: "s = (st, posts, m)" by (metis prod.collapse)
  have d: "0 < d" and m: "inv m" using d J s assms(2) by auto
  have op: "outcome_ok (\<lambda>(st, posts, m). inv m) (page_fails fails panics) (tl_on_open C get now t d s)"
    using bundle_outcome[OF assms(1) d m, of "st\<lparr>tl_oldest_allowed := min (tl_oldest_allowed st) t\<rparr>" now t]
    by (auto simp: s tl_on_open_def Let_def outcome_ok_def page_fails_def split: sum.splits)
  have cl: "outcome_ok (\<lambda>(st, posts, m). inv m) (page_fails fails panics) (tl_on_close C get now mx t d s)"
  proof -
    let ?st = "st\<lparr>tl_oldest_processed := min (tl_oldest_processed st) t\<rparr>"
    obtain m' r where g: "tl_bundle C get ?st now t d m = (m', r)" "inv m'" "\<And>e. r = Inl e \<Longrightarrow> fails e"
      "\<And>loc b. r = Inr (loc, b) \<Longrightarrow> snd (get loc now m) = Inr b"
      using bundle_outcome[OF assms(1) d m, of ?st now t] by blast
    show ?thesis
    proof (cases r)
      case (Inl e)
      then show ?thesis using g s by (simp add: tl_on_close_def outcome_ok_def page_fails_def)
    next
      case (Inr lb)
      obtain loc b where r: "r = Inr (loc, b)" using Inr by (metis prod.collapse)
      obtain x y where e: "extract_posts loc b [0..<unat (pbh_num_posts (pb_header b))] 0 (tl_seen st) posts = (x, y)" by fastforce
      have "y = Inl e \<Longrightarrow> e \<in> panics" for e using assms(3)[OF m g(4)[OF r], of _ _ x] e by blast
      then show ?thesis using g(1,2) s r e
        by (cases x; cases y) (auto simp: tl_on_close_def outcome_ok_def page_fails_def Let_def)
    qed
  qed
  show "outcome_ok (\<lambda>(st, posts, m). inv m) (page_fails fails panics) (on_bucket_open (tl_callbacks C get now mx) t d s)
    \<and> outcome_ok (\<lambda>(st, posts, m). inv m) (page_fails fails panics) (on_bucket_close (tl_callbacks C get now mx) t d s)"
    using op cl by (simp add: tl_callbacks_def)
qed

lemma page_outcome:
  assumes "callbacks_ok ds (\<lambda>(st, posts, m). inv m) Q (tl_callbacks C get now mx)" "inv m"
    and "durations_ok ds" "I64_MIN < now" "I64_MIN < time_sub_dur (tl_oldest_allowed (tl_start now st)) MILLIS_IN_MONTH"
    and "tl_get_more_posts C get now mx ds (st, m, pen) = Some ((st', m', pen'), r)"
  shows "inv m' \<and> (\<forall>e. r = Inl e \<longrightarrow> Q e)"
proof -
  let ?min = "time_sub_dur (tl_oldest_allowed (tl_start now st)) MILLIS_IN_MONTH"
  obtain st1 posts1 m1 r1 where v: "bucket_visit now ?min ds (tl_callbacks C get now mx) (tl_start now st, [], m) = Some ((st1, posts1, m1), r1)"
    using visit_runs_reference[OF assms(3-5)] by (metis prod.collapse)
  have "inv m1 \<and> (\<forall>e. r1 = Inl e \<longrightarrow> Q e)"
    using bucket_visit_outcome[OF assms(3-5,1) _ v] assms(2) by simp
  then show ?thesis using assms(6) v
    by (cases r1) (auto simp: tl_get_more_posts_def Let_def split: prod.splits)
qed

text \<open>A page never indexes out of bounds.\<close>

lemma page_errors:
  assumes "crypto_ok C" "inv m" "durations_ok ds" "I64_MIN < now"
    and "I64_MIN < time_sub_dur (tl_oldest_allowed (tl_start now st)) MILLIS_IN_MONTH"
    and "tl_get_more_posts C get now mx ds (st, m, pen) = Some ((st', m', pen'), Inl e)"
  shows "fails e \<or> e \<in> slice_panics"
proof -
  have "callbacks_ok ds (\<lambda>(st, posts, m). inv m) (page_fails fails slice_panics) (tl_callbacks C get now mx)"
    by (rule walk_outcome[OF assms(1)])
      (use assms(3) extract_posts_error get_counts in \<open>auto simp: durations_ok_def\<close>)
  from page_outcome[OF this assms(2-6)] show ?thesis by (simp add: page_fails_def)
qed

end

context whole_bundle_manager
begin

lemma page_never_panics:
  assumes "crypto_ok C" "inv m" "durations_ok ds" "I64_MIN < now"
    and "I64_MIN < time_sub_dur (tl_oldest_allowed (tl_start now st)) MILLIS_IN_MONTH"
    and "tl_get_more_posts C get now mx ds (st, m, pen) = Some ((st', m', pen'), Inl e)"
  shows "fails e"
proof -
  have "callbacks_ok ds (\<lambda>(st, posts, m). inv m) (page_fails fails {}) (tl_callbacks C get now mx)"
  proof (rule walk_outcome[OF assms(1)])
    fix m loc now' b seen posts x e
    assume "inv m" "snd (get loc now' m) = Inr b"
      and run: "extract_posts loc b [0..<unat (pbh_num_posts (pb_header b))] 0 seen posts = (x, Inl e)"
    then have "holds_posts b" using get_whole by blast
    from extract_posts_whole[OF this, of 0 "unat (pbh_num_posts (pb_header b))" 0 loc seen posts] run show "e \<in> {}" by auto
  qed (use assms(3) in \<open>simp add: durations_ok_def\<close>)
  from page_outcome[OF this assms(2-6)] show ?thesis by (simp add: page_fails_def)
qed

end

section \<open>The in-memory bundle manager\<close>

text \<open>\<open>client/post_bundle/stub_post_bundle_manager.rs\<close>: configured bundles by location, and an empty one elsewhere. The random ids
  are arguments.\<close>

type_synonym stub_manager = "id \<rightharpoonup> post_bundle"

definition post_bundle_stub :: "peer \<Rightarrow> post_bundle" where
  "post_bundle_stub peer_zero = \<lparr>pb_header = \<lparr>pbh_time_millis = 0, pbh_location_id = Id_zero, pbh_overflowed = False, pbh_sealed = False,
     pbh_num_posts = 0, pbh_encoded_post_ids = [], pbh_encoded_post_lengths = [], pbh_encoded_post_healed = {},
     pbh_peer = peer_zero, pbh_signature = Signature_zero\<rparr>, pb_encoded_posts_bytes = []\<rparr>"

definition stub_location :: "crypto \<Rightarrow> id \<Rightarrow> duration_millis \<Rightarrow> string \<Rightarrow> bucket_location res" where
  "stub_location C i granularity epoch_offset_str =
     rbind (from_epoch_offset_str epoch_offset_str) (\<lambda>t. BucketLocation_new C User i granularity t)"

definition add_random_stub_post_bundle :: "crypto \<Rightarrow> peer \<Rightarrow> id \<Rightarrow> duration_millis \<Rightarrow> string \<Rightarrow> byte \<Rightarrow> id list \<Rightarrow> stub_manager
    \<Rightarrow> (stub_manager \<times> post_bundle) res" where
  "add_random_stub_post_bundle C peer_zero i granularity epoch_offset_str num_posts random_ids m =
     rbind (stub_location C i granularity epoch_offset_str) (\<lambda>loc.
       let stub = post_bundle_stub peer_zero;
           b = stub\<lparr>pb_header := (pb_header stub)\<lparr>pbh_location_id := bl_location_id loc, pbh_num_posts := num_posts,
                 pbh_encoded_post_ids := take (unat num_posts) random_ids,
                 pbh_encoded_post_lengths := replicate (unat num_posts) 0\<rparr>\<rparr>
       in Inr (m(bl_location_id loc \<mapsto> b), b))"

definition add_stub_post_bundle :: "crypto \<Rightarrow> id \<Rightarrow> duration_millis \<Rightarrow> string \<Rightarrow> post_bundle \<Rightarrow> stub_manager \<Rightarrow> stub_manager res" where
  "add_stub_post_bundle C i granularity epoch_offset_str b m =
     rbind (stub_location C i granularity epoch_offset_str) (\<lambda>loc. Inr (m(bl_location_id loc \<mapsto> b)))"

definition stub_sealed_time :: "bucket_location \<Rightarrow> time_millis" where
  "stub_sealed_time loc = time_add_dur (time_add_dur (bl_bucket_time_millis loc) (bl_duration loc)) ENCODED_POST_BUNDLE_V1_ELAPSED_THRESHOLD_MILLIS"

definition stub_get_post_bundle :: "peer \<Rightarrow> stub_manager bundle_getter" where
  "stub_get_post_bundle peer_zero loc now m = (m, Inr (case m (bl_location_id loc) of
     Some b \<Rightarrow> let overflowed = pbh_num_posts (pb_header b) > ENCODED_POST_BUNDLE_V1_OVERFLOWED_NUM_POSTS in
       b\<lparr>pb_header := (pb_header b)\<lparr>pbh_time_millis := now, pbh_overflowed := overflowed,
         pbh_sealed := overflowed \<or> now > stub_sealed_time loc\<rparr>\<rparr>
   | None \<Rightarrow> let stub = post_bundle_stub peer_zero in
       stub\<lparr>pb_header := (pb_header stub)\<lparr>pbh_time_millis := now, pbh_location_id := bl_location_id loc,
         pbh_sealed := now > stub_sealed_time loc\<rparr>\<rparr>))"

definition stub_ok :: "stub_manager \<Rightarrow> bool" where
  "stub_ok m \<longleftrightarrow> (\<forall>b \<in> ran m. holds_posts b)"

lemma add_random_keeps_stub_ok:
  assumes "stub_ok m" "unat num_posts \<le> length random_ids"
    and "add_random_stub_post_bundle C peer_zero i g s num_posts random_ids m = Inr (m', b)"
  shows "stub_ok m'"
proof -
  obtain loc where l: "stub_location C i g s = Inr loc" using assms(3) by (auto simp: add_random_stub_post_bundle_def)
  then have "m' = m(bl_location_id loc \<mapsto> b)" and "holds_posts b"
    using assms(2,3)
    by (auto simp: add_random_stub_post_bundle_def Let_def holds_posts_def counts_posts_def post_bundle_stub_def)
  then show ?thesis using assms(1) by (auto simp: stub_ok_def ran_def)
qed

lemma stub_get_holds:
  assumes "stub_ok m" "snd (stub_get_post_bundle peer_zero loc now m) = Inr b"
  shows "holds_posts b"
proof (cases "m (bl_location_id loc)")
  case None
  then show ?thesis using assms(2)
    by (auto simp: stub_get_post_bundle_def Let_def holds_posts_def counts_posts_def post_bundle_stub_def)
next
  case (Some b')
  then have "holds_posts b'" using assms(1) by (auto simp: stub_ok_def intro: ranI)
  then show ?thesis using assms(2) Some by (auto simp: stub_get_post_bundle_def Let_def holds_posts_def counts_posts_def)
qed

interpretation stub: whole_bundle_manager "stub_get_post_bundle peer_zero" stub_ok "\<lambda>e. False" for peer_zero
proof
  fix m :: stub_manager and loc now b e
  assume m: "stub_ok m"
  show "stub_ok (fst (stub_get_post_bundle peer_zero loc now m))" using m by (simp add: stub_get_post_bundle_def)
  show "snd (stub_get_post_bundle peer_zero loc now m) = Inr b \<Longrightarrow> counts_posts b"
    using stub_get_holds[OF m] by (auto simp: holds_posts_def)
  show "snd (stub_get_post_bundle peer_zero loc now m) = Inr b \<Longrightarrow> holds_posts b" by (rule stub_get_holds[OF m])
  show "snd (stub_get_post_bundle peer_zero loc now m) = Inl e \<Longrightarrow> False" by (simp add: stub_get_post_bundle_def)
qed

lemma stub_page_succeeds:
  assumes "crypto_ok C" "stub_ok m" "durations_ok ds" "I64_MIN < now"
    and "I64_MIN < time_sub_dur (tl_oldest_allowed (tl_start now st)) MILLIS_IN_MONTH"
  shows "\<exists>s' posts. tl_get_more_posts C (stub_get_post_bundle peer_zero) now mx ds (st, m, pen) = Some (s', Inr posts)"
proof -
  obtain st' m' pen' r where run: "tl_get_more_posts C (stub_get_post_bundle peer_zero) now mx ds (st, m, pen) = Some ((st', m', pen'), r)"
    using tl_page_returns[OF assms(3-5), of C "stub_get_post_bundle peer_zero" mx m pen] by (metis prod.collapse)
  then show ?thesis using stub.page_never_panics[OF assms] by (cases r) auto
qed


section \<open>Merged timelines\<close>

definition walkable :: "time_millis \<Rightarrow> single_timeline \<Rightarrow> bool" where
  "walkable now st \<longleftrightarrow> I64_MIN < time_sub_dur (tl_oldest_allowed (tl_start now st)) MILLIS_IN_MONTH \<and> finite (tl_seen st)"

definition feed_of :: "single_timeline \<Rightarrow> bucket_type \<times> id" where
  "feed_of st = (tl_bucket_type st, tl_base_id st)"

definition total_seen :: "single_timeline list \<Rightarrow> nat" where
  "total_seen sts = sum_list (map tl_post_count sts)"

definition of_feeds :: "(bucket_type \<times> id) set \<Rightarrow> timeline_post list \<Rightarrow> bool" where
  "of_feeds F posts \<longleftrightarrow> list_all (\<lambda>p. (bl_bucket_type (fst p), bl_base_id (fst p)) \<in> F) posts"

definition asked :: "crypto \<Rightarrow> 'm bundle_getter \<Rightarrow> time_millis \<Rightarrow> nat \<Rightarrow> duration_millis list \<Rightarrow> single_timeline \<Rightarrow> single_timeline \<Rightarrow> bool" where
  "asked C G now mx ds st st' \<longleftrightarrow>
     (\<exists>m pen m' pen' page. tl_get_more_posts C G now mx ds (st, m, pen) = Some ((st', m', pen'), Inr page))"

lemma poll_timelines_spec:
  assumes "durations_ok ds" "I64_MIN < now" "\<forall>st \<in> set sts. walkable now st" "length posts < mx \<or> sts = []"
  shows "\<exists>sts' m' pen' r. poll_timelines C G now mx ms ds sts posts (m, pen) = Some ((sts', m', pen'), r)
    \<and> (\<forall>out. r = Inr out \<longrightarrow> (\<exists>new. out = posts @ new \<and> map feed_of sts' = map feed_of sts
         \<and> total_seen sts' = total_seen sts + length new
         \<and> of_feeds (feed_of ` set sts) new
         \<and> (length out < mx \<longrightarrow> list_all2 (asked C G now ms ds) sts sts')))"
  using assms(3,4)
proof (induction sts arbitrary: posts m pen)
  case (Cons st sts)
  have w: "I64_MIN < time_sub_dur (tl_oldest_allowed (tl_start now st)) MILLIS_IN_MONTH" "finite (tl_seen st)"
    using Cons.prems(1) by (auto simp: walkable_def)
  obtain st' m' pen' r where run: "tl_get_more_posts C G now ms ds (st, m, pen) = Some ((st', m', pen'), r)"
    using tl_page_returns[OF assms(1,2) w(1), of C G ms m pen] by (metis prod.collapse)
  show ?case
  proof (cases r)
    case (Inl e)
    then show ?thesis using run by simp
  next
    case (Inr page)
    have asked_here: "asked C G now ms ds st st'" using run Inr unfolding asked_def by blast
    have g: "feed_of st' = feed_of st" "tl_post_count st' = tl_post_count st + length page"
        "of_feeds {feed_of st} page"
      using tl_page_grows[OF assms(1,2) w(1) run[unfolded Inr]] new_page_count[OF _ w(2)]
      by (auto simp: page_grows_def tl_post_count_def of_feeds_def list_all_iff feed_of_def case_prod_beta)
    show ?thesis
    proof (cases "mx \<le> length (posts @ page)")
      case True
      have "of_feeds (feed_of ` set (st # sts)) page"
        using g(3) by (auto simp: of_feeds_def list_all_iff)
      then show ?thesis using run Inr True g by (simp add: total_seen_def)
    next
      case False
      then have short: "length (posts @ page) < mx \<or> sts = []" by simp
      have wk: "\<forall>st \<in> set sts. walkable now st" using Cons.prems(1) by simp
      from Cons.IH[OF wk short, of m' pen'] obtain sts' m2 pen2 r2 where
        IH: "poll_timelines C G now mx ms ds sts (posts @ page) (m', pen') = Some ((sts', m2, pen2), r2)"
        "\<forall>out. r2 = Inr out \<longrightarrow> (\<exists>new. out = (posts @ page) @ new \<and> map feed_of sts' = map feed_of sts
         \<and> total_seen sts' = total_seen sts + length new
         \<and> of_feeds (feed_of ` set sts) new
         \<and> (length out < mx \<longrightarrow> list_all2 (asked C G now ms ds) sts sts'))" by blast
      have poll: "poll_timelines C G now mx ms ds (st # sts) posts (m, pen) = Some ((st' # sts', m2, pen2), r2)"
        using run Inr False IH(1) by simp
      have "\<exists>new. out = posts @ new \<and> map feed_of (st' # sts') = map feed_of (st # sts)
          \<and> total_seen (st' # sts') = total_seen (st # sts) + length new \<and> of_feeds (feed_of ` set (st # sts)) new
          \<and> (length out < mx \<longrightarrow> list_all2 (asked C G now ms ds) (st # sts) (st' # sts'))" if "r2 = Inr out" for out
      proof -
        from IH(2) that obtain new where n: "out = (posts @ page) @ new" "map feed_of sts' = map feed_of sts"
          "total_seen sts' = total_seen sts + length new"
          "of_feeds (feed_of ` set sts) new"
          "length out < mx \<longrightarrow> list_all2 (asked C G now ms ds) sts sts'" by blast
        show ?thesis
        proof (intro exI conjI impI)
        show "out = posts @ (page @ new)" using n(1) by simp
        show "map feed_of (st' # sts') = map feed_of (st # sts)" using g(1) n(2) by simp
        show "total_seen (st' # sts') = total_seen (st # sts) + length (page @ new)" using g(2) n(3) by (simp add: total_seen_def)
        show "of_feeds (feed_of ` set (st # sts)) (page @ new)"
          using g(3) n(4) by (auto simp: of_feeds_def list_all_iff)
        show "length out < mx \<Longrightarrow> list_all2 (asked C G now ms ds) (st # sts) (st' # sts')"
          using n(5) run Inr asked_here by simp
        qed
      qed
      then show ?thesis using poll by blast
    qed
  qed
qed (simp add: total_seen_def of_feeds_def)

text \<open>C20: A merged feed takes its timelines in the order of their penalty, keeps all of them, returns posts of its own feeds only,
  counts each returned post as seen by exactly one timeline, and if it returns fewer posts than asked for, it has asked every one of
  its timelines.\<close>

theorem merged_feed_polls_all:
  assumes "durations_ok ds" "I64_MIN < now" "\<forall>st \<in> set (mt_single_timelines mt). walkable now st" "0 < mx"
    and "mt_get_more_posts C G now mx ms ds (mt, m, pen) = Some ((mt', m', pen'), Inr out)"
  shows "map feed_of (mt_single_timelines mt') = map feed_of (sort_key (poll_penalty now) (mt_single_timelines mt))
    \<and> total_seen (mt_single_timelines mt') = total_seen (mt_single_timelines mt) + length out
    \<and> of_feeds (feed_of ` set (mt_single_timelines mt)) out
    \<and> (length out < mx \<longrightarrow> list_all2 (asked C G now ms ds) (sort_key (poll_penalty now) (mt_single_timelines mt)) (mt_single_timelines mt'))"
proof -
  let ?sts = "sort_key (poll_penalty now) (mt_single_timelines mt)"
  have s: "sort_timelines now (mt_single_timelines mt) = Inr ?sts"
    using assms(5) by (auto simp: mt_get_more_posts_def sort_timelines_def split: if_splits)
  have "\<forall>st \<in> set ?sts. walkable now st" "length [] < mx \<or> ?sts = []" using assms(3,4) by simp_all
  from poll_timelines_spec[OF assms(1,2) this, of C G ms m pen] obtain sts' m2 pen2 r where
    p: "poll_timelines C G now mx ms ds ?sts [] (m, pen) = Some ((sts', m2, pen2), r)"
    "\<forall>out. r = Inr out \<longrightarrow> (\<exists>new. out = [] @ new \<and> map feed_of sts' = map feed_of ?sts
         \<and> total_seen sts' = total_seen ?sts + length new
         \<and> of_feeds (feed_of ` set ?sts) new
         \<and> (length out < mx \<longrightarrow> list_all2 (asked C G now ms ds) ?sts sts'))" by blast
  have r: "r = Inr out" "mt_single_timelines mt' = sts'" using assms(5) s p(1) by (auto simp: mt_get_more_posts_def)
  have "mset (map tl_post_count ?sts) = mset (map tl_post_count (mt_single_timelines mt))" by simp
  then have "total_seen ?sts = total_seen (mt_single_timelines mt)" unfolding total_seen_def by (metis sum_mset_sum_list)
  then show ?thesis using p(2) r by simp
qed

end
