(* ===== verification/ClientStorage.thy ===== *)
theory ClientStorage
  imports EncodedPost "HOL-Library.AList"
begin

text \<open>
  The persistence of a client: the trait of \<open>client/client_storage/client_storage.rs\<close> as a record of functions on a state, its
  typed helpers, and the in-memory implementation \<open>mem_client_storage.rs\<close>. A hash map is an association list without duplicate
  keys; its order stands for the iteration order. What clients rely on is a locale, discharged by the in-memory storage.
\<close>

definition BUCKET_CONFIG :: string where "BUCKET_CONFIG = ''config''"
definition BUCKET_CONFIG_KEY_META_POST_V1_PUBLIC :: string where "BUCKET_CONFIG_KEY_META_POST_V1_PUBLIC = ''meta_post_v1_public''"
definition BUCKET_CONFIG_KEY_META_POST_V1_PRIVATE :: string where "BUCKET_CONFIG_KEY_META_POST_V1_PRIVATE = ''meta_post_v1_private''"
definition BUCKET_PEER :: string where "BUCKET_PEER = ''peer''"
definition BUCKET_META_POST_PUBLIC :: string where "BUCKET_META_POST_PUBLIC = ''meta_post_public''"
definition BUCKET_POST_BUNDLE :: string where "BUCKET_POST_BUNDLE = ''post_bundle''"
definition BUCKET_POST_BUNDLE_FEEDBACK :: string where "BUCKET_POST_BUNDLE_FEEDBACK = ''post_bundle_feedback''"

definition BUCKETS :: "string list" where
  "BUCKETS = [BUCKET_CONFIG, BUCKET_PEER, BUCKET_POST_BUNDLE, BUCKET_POST_BUNDLE_FEEDBACK, BUCKET_META_POST_PUBLIC]"

definition BUCKET_TRIMS :: "nat list" where "BUCKET_TRIMS = [0, 1024, 512, 512, 2048]"

lemmas storage_buckets = BUCKETS_def BUCKET_CONFIG_def BUCKET_PEER_def BUCKET_POST_BUNDLE_def BUCKET_POST_BUNDLE_FEEDBACK_def
  BUCKET_META_POST_PUBLIC_def

definition config_key_for_user :: "(bytes \<Rightarrow> string) \<Rightarrow> id \<Rightarrow> string \<Rightarrow> string" where
  "config_key_for_user hex_encode i key = Id_to_hex_str hex_encode i @ ''.'' @ key"

record 's client_storage =
  cs_count :: "string \<Rightarrow> 's \<Rightarrow> nat res"
  cs_keys :: "string \<Rightarrow> 's \<Rightarrow> string list res"
  cs_get :: "string \<Rightarrow> string \<Rightarrow> time_millis \<Rightarrow> 's \<Rightarrow> 's \<times> bytes option res"
  cs_put :: "string \<Rightarrow> string \<Rightarrow> bytes \<Rightarrow> time_millis \<Rightarrow> 's \<Rightarrow> 's \<times> unit res"
  cs_remove :: "string \<Rightarrow> string \<Rightarrow> 's \<Rightarrow> 's \<times> unit res"
  cs_trim :: "string \<Rightarrow> nat \<Rightarrow> 's \<Rightarrow> 's \<times> unit res"
  cs_reset :: "'s \<Rightarrow> 's \<times> unit res"

definition put_str :: "'s client_storage \<Rightarrow> string \<Rightarrow> string \<Rightarrow> string \<Rightarrow> time_millis \<Rightarrow> 's \<Rightarrow> 's \<times> unit res" where
  "put_str S b k v t s = cs_put S b k (str_bytes v) t s"

definition get_str :: "'s client_storage \<Rightarrow> string \<Rightarrow> string \<Rightarrow> time_millis \<Rightarrow> 's \<Rightarrow> 's \<times> string option res" where
  "get_str S b k t s = (case cs_get S b k t s of
     (s', Inl e) \<Rightarrow> (s', Inl e)
   | (s', Inr None) \<Rightarrow> (s', Inr None)
   | (s', Inr (Some bs)) \<Rightarrow> (s', rbind (from_utf8 bs) (\<lambda>v. Inr (Some v))))"

definition put_struct :: "'s client_storage \<Rightarrow> compressor \<Rightarrow> 'a codec \<Rightarrow> string \<Rightarrow> string \<Rightarrow> 'a \<Rightarrow> time_millis \<Rightarrow> 's \<Rightarrow> 's \<times> unit res" where
  "put_struct S Z J b k v t s = (case compress_for_size Z (enc J v) of
     Inl e \<Rightarrow> (s, Inl e)
   | Inr g \<Rightarrow> cs_put S b k (g_to_bytes g) t s)"

definition get_struct :: "'s client_storage \<Rightarrow> compressor \<Rightarrow> 'a codec \<Rightarrow> string \<Rightarrow> string \<Rightarrow> time_millis \<Rightarrow> 's \<Rightarrow> 's \<times> 'a option res" where
  "get_struct S Z J b k t s = (case cs_get S b k t s of
     (s', Inl e) \<Rightarrow> (s', Inl e)
   | (s', Inr None) \<Rightarrow> (s', Inr None)
   | (s', Inr (Some bs)) \<Rightarrow> (s', rbind (decompress Z bs) (\<lambda>g.
       rbind (of_option ''json'' (dec J (g_to_bytes g))) (\<lambda>v. Inr (Some v)))))"


section \<open>The in-memory storage\<close>

record storage_entry =
  se_value :: bytes
  se_last_accessed :: time_millis

type_synonym mem_client_storage = "(string \<times> (string \<times> storage_entry) list) list"

definition mem_client_new :: mem_client_storage where
  "mem_client_new = map (\<lambda>b. (b, [])) BUCKETS"

definition with_bucket :: "string \<Rightarrow> mem_client_storage \<Rightarrow> ((string \<times> storage_entry) list \<Rightarrow> 'a res) \<Rightarrow> 'a res" where
  "with_bucket b s f = (case map_of s b of None \<Rightarrow> Inl (Bail ''Bucket not found'') | Some es \<Rightarrow> f es)"

definition mem_client_count :: "string \<Rightarrow> mem_client_storage \<Rightarrow> nat res" where
  "mem_client_count b s = with_bucket b s (\<lambda>es. Inr (length es))"

definition mem_client_keys :: "string \<Rightarrow> mem_client_storage \<Rightarrow> string list res" where
  "mem_client_keys b s = with_bucket b s (\<lambda>es. Inr (map fst es))"

definition update_bucket :: "string \<Rightarrow> ((string \<times> storage_entry) list \<Rightarrow> (string \<times> storage_entry) list \<times> 'a) \<Rightarrow> mem_client_storage
    \<Rightarrow> mem_client_storage \<times> 'a res" where
  "update_bucket b f s = (case map_of s b of None \<Rightarrow> (s, Inl (Bail ''Bucket not found''))
     | Some es \<Rightarrow> (case f es of (es', r) \<Rightarrow> (AList.update b es' s, Inr r)))"

definition mem_client_get :: "string \<Rightarrow> string \<Rightarrow> time_millis \<Rightarrow> mem_client_storage \<Rightarrow> mem_client_storage \<times> bytes option res" where
  "mem_client_get b k t = update_bucket b (\<lambda>es. case map_of es k of
     None \<Rightarrow> (es, None)
   | Some e \<Rightarrow> (if t > 0 then AList.update k (e\<lparr>se_last_accessed := t\<rparr>) es else es, Some (se_value e)))"

definition mem_client_put :: "string \<Rightarrow> string \<Rightarrow> bytes \<Rightarrow> time_millis \<Rightarrow> mem_client_storage \<Rightarrow> mem_client_storage \<times> unit res" where
  "mem_client_put b k v t = update_bucket b (\<lambda>es. (AList.update k \<lparr>se_value = v, se_last_accessed = t\<rparr> es, ()))"

definition mem_client_remove :: "string \<Rightarrow> string \<Rightarrow> mem_client_storage \<Rightarrow> mem_client_storage \<times> unit res" where
  "mem_client_remove b k = update_bucket b (\<lambda>es. (AList.delete k es, ()))"

text \<open>The oldest entries go first; entries of one time go in hash order.\<close>

definition mem_client_trim :: "string \<Rightarrow> nat \<Rightarrow> mem_client_storage \<Rightarrow> mem_client_storage \<times> unit res" where
  "mem_client_trim b max_count = update_bucket b (\<lambda>es.
     (if length es > max_count
      then let keys_to_delete = map fst (take (length es - max_count) (sort_key (\<lambda>(k, e). se_last_accessed e) es))
           in fold AList.delete keys_to_delete es
      else es, ()))"

fun mem_client_clear :: "string list \<Rightarrow> mem_client_storage \<Rightarrow> mem_client_storage \<times> unit res" where
  "mem_client_clear [] s = (s, Inr ())"
| "mem_client_clear (b # bs) s = (case map_of s b of None \<Rightarrow> (s, Inl (Bail ''Bucket not found''))
     | Some es \<Rightarrow> mem_client_clear bs (AList.update b [] s))"

definition mem_client_storage :: "mem_client_storage client_storage" where
  "mem_client_storage = \<lparr>cs_count = mem_client_count, cs_keys = mem_client_keys, cs_get = mem_client_get, cs_put = mem_client_put,
     cs_remove = mem_client_remove, cs_trim = mem_client_trim, cs_reset = mem_client_clear BUCKETS\<rparr>"


section \<open>The contract\<close>

text \<open>What is stored under a key, as an abstract view; reading may freshen an entry but changes no value.\<close>

locale client_storage_laws =
  fixes S :: "'s client_storage" and peek :: "'s \<Rightarrow> string \<Rightarrow> string \<Rightarrow> bytes option" and ready :: "'s \<Rightarrow> bool"
  assumes get_peeks: "ready s \<Longrightarrow> b \<in> set BUCKETS \<Longrightarrow>
      \<exists>s'. cs_get S b k t s = (s', Inr (peek s b k)) \<and> ready s' \<and> peek s' = peek s"
    and put_stores: "ready s \<Longrightarrow> b \<in> set BUCKETS \<Longrightarrow>
      \<exists>s'. cs_put S b k v t s = (s', Inr ()) \<and> ready s' \<and> peek s' = (peek s)(b := (peek s b)(k \<mapsto> v))"
    and remove_forgets: "ready s \<Longrightarrow> b \<in> set BUCKETS \<Longrightarrow>
      \<exists>s'. cs_remove S b k s = (s', Inr ()) \<and> ready s' \<and> peek s' = (peek s)(b := (peek s b)(k := None))"

context client_storage_laws
begin

text \<open>A value put is the value read, whatever is put or removed under other keys in between.\<close>

lemma put_get:
  assumes "ready s" "b \<in> set BUCKETS"
  shows "\<exists>s' s''. cs_put S b k v t s = (s', Inr ()) \<and> cs_get S b k t' s' = (s'', Inr (Some v)) \<and> ready s''
    \<and> peek s'' = (peek s)(b := (peek s b)(k \<mapsto> v))"
proof -
  obtain s' where s': "cs_put S b k v t s = (s', Inr ())" "ready s'" "peek s' = (peek s)(b := (peek s b)(k \<mapsto> v))"
    using put_stores[OF assms] by blast
  from get_peeks[OF s'(2) assms(2), of k t'] show ?thesis using s' by auto
qed

lemma struct_roundtrip:
  assumes "ready s" "b \<in> set BUCKETS" "dec J (enc J v) = Some v" "brotli_law Z (enc J v)" "length (enc J v) \<le> MAX_DECOMPRESSED_SIZE"
  shows "\<exists>s' s''. put_struct S Z J b k v t s = (s', Inr ()) \<and> get_struct S Z J b k t' s' = (s'', Inr (Some v))
    \<and> ready s'' \<and> peek s'' = peek s'"
proof -
  from compress_size_ok[OF assms(4,5)] obtain g g' where
    g: "compress_for_size Z (enc J v) = Inr g" "decompress Z (g_to_bytes g) = Inr g'" "g_to_bytes g' = enc J v" by blast
  obtain s' where s': "cs_put S b k (g_to_bytes g) t s = (s', Inr ())" "ready s'"
      "peek s' = (peek s)(b := (peek s b)(k \<mapsto> g_to_bytes g))"
    using put_stores[OF assms(1,2)] by blast
  moreover obtain s'' where "cs_get S b k t' s' = (s'', Inr (peek s' b k))" "ready s''" "peek s'' = peek s'"
    using get_peeks[OF s'(2) assms(2)] by blast
  ultimately show ?thesis using g assms(3)
    by (auto simp: put_struct_def get_struct_def simp del: g_to_bytes_contents)
qed

end

definition mem_client_peek :: "mem_client_storage \<Rightarrow> string \<Rightarrow> string \<Rightarrow> bytes option" where
  "mem_client_peek s b k = (case map_of s b of None \<Rightarrow> None | Some es \<Rightarrow> map_option se_value (map_of es k))"

definition mem_client_ready :: "mem_client_storage \<Rightarrow> bool" where
  "mem_client_ready s \<longleftrightarrow> set BUCKETS \<subseteq> dom (map_of s) \<and> distinct (map fst s) \<and> (\<forall>(b, es) \<in> set s. distinct (map fst es))"

lemma mem_client_new_ready: "mem_client_ready mem_client_new" "mem_client_peek mem_client_new = (\<lambda>b k. None)"
  by (auto simp: mem_client_ready_def mem_client_new_def storage_buckets mem_client_peek_def fun_eq_iff)

lemma ready_bucket:
  assumes "mem_client_ready s" "b \<in> set BUCKETS"
  shows "\<exists>es. map_of s b = Some es \<and> distinct (map fst es)"
  using assms map_of_SomeD[of s b] by (fastforce simp: mem_client_ready_def)

lemma ready_update:
  assumes "mem_client_ready s" "distinct (map fst es)"
  shows "mem_client_ready (AList.update b es s)"
proof -
  have d: "distinct (map fst (AList.update b es s))" using assms(1) by (simp add: mem_client_ready_def distinct_update)
  moreover have "distinct (map fst fs)" if "(c, fs) \<in> set (AList.update b es s)" for c fs
  proof -
    have "map_of (AList.update b es s) c = Some fs" using d that by simp
    then show ?thesis using assms map_of_SomeD[of s c fs] unfolding mem_client_ready_def update_conv'
      by (auto split: if_splits)
  qed
  moreover have "set BUCKETS \<subseteq> dom (map_of (AList.update b es s))"
    using assms(1) by (auto simp: mem_client_ready_def update_conv')
  ultimately show ?thesis using d by (auto simp: mem_client_ready_def)
qed

interpretation mem_client: client_storage_laws mem_client_storage mem_client_peek mem_client_ready
proof
  fix s b k v t
  assume r: "mem_client_ready s" and b: "b \<in> set BUCKETS"
  then obtain es where es: "map_of s b = Some es" "distinct (map fst es)" using ready_bucket by blast
  show "\<exists>s'. cs_get mem_client_storage b k t s = (s', Inr (mem_client_peek s b k)) \<and> mem_client_ready s' \<and> mem_client_peek s' = mem_client_peek s"
  proof (cases "map_of es k")
    case None
    then show ?thesis using es r ready_update[OF r es(2), of b]
      by (auto simp: mem_client_storage_def mem_client_get_def update_bucket_def mem_client_peek_def fun_eq_iff update_conv' split: option.splits)
  next
    case (Some e)
    let ?es = "if t > 0 then AList.update k (e\<lparr>se_last_accessed := t\<rparr>) es else es"
    have "distinct (map fst ?es)" using es(2) by (simp add: distinct_update)
    note u = ready_update[OF r this, of b]
    have "cs_get mem_client_storage b k t s = (AList.update b ?es s, Inr (mem_client_peek s b k))"
      using es Some by (simp add: mem_client_storage_def mem_client_get_def update_bucket_def mem_client_peek_def)
    moreover have "mem_client_peek (AList.update b ?es s) = mem_client_peek s"
      using es Some by (auto simp: mem_client_peek_def fun_eq_iff update_conv')
    ultimately show ?thesis using u by blast
  qed
  let ?put = "AList.update k \<lparr>se_value = v, se_last_accessed = t\<rparr> es"
  have "distinct (map fst ?put)" using es(2) by (simp add: distinct_update)
  note u = ready_update[OF r this, of b]
  have "mem_client_peek (AList.update b ?put s) = (mem_client_peek s)(b := (mem_client_peek s b)(k \<mapsto> v))"
    using es by (auto simp: mem_client_peek_def fun_eq_iff update_conv')
  then show "\<exists>s'. cs_put mem_client_storage b k v t s = (s', Inr ()) \<and> mem_client_ready s'
      \<and> mem_client_peek s' = (mem_client_peek s)(b := (mem_client_peek s b)(k \<mapsto> v))"
    using es u by (auto simp: mem_client_storage_def mem_client_put_def update_bucket_def)
  have "distinct (map fst (AList.delete k es))" using es(2) by (simp add: distinct_delete)
  note d = ready_update[OF r this, of b]
  have "mem_client_peek (AList.update b (AList.delete k es) s) = (mem_client_peek s)(b := (mem_client_peek s b)(k := None))"
    using es by (auto simp: mem_client_peek_def fun_eq_iff update_conv' delete_conv')
  then show "\<exists>s'. cs_remove mem_client_storage b k s = (s', Inr ()) \<and> mem_client_ready s'
      \<and> mem_client_peek s' = (mem_client_peek s)(b := (mem_client_peek s b)(k := None))"
    using es d by (auto simp: mem_client_storage_def mem_client_remove_def update_bucket_def)
qed

section \<open>Eviction\<close>

lemma fold_delete: "fold AList.delete ks es = List.filter (\<lambda>e. fst e \<notin> set ks) es"
  by (induction ks arbitrary: es) (auto simp: AList.delete_eq filter_filter case_prod_beta intro!: filter_cong)

lemma trim_entries:
  assumes "distinct (map fst es)" "n < length es"
  defines "gone \<equiv> take (length es - n) (sort_key (\<lambda>(k, e). se_last_accessed e) es)"
  defines "kept \<equiv> List.filter (\<lambda>e. fst e \<notin> fst ` set gone) es"
  shows "length kept = n" "set kept = set es - set gone"
    "x \<in> set kept \<Longrightarrow> y \<in> set gone \<Longrightarrow> se_last_accessed (snd y) \<le> se_last_accessed (snd x)"
proof -
  let ?key = "\<lambda>(k, e). se_last_accessed e" and ?m = "length es - n"
  let ?so = "sort_key ?key es"
  have inj: "inj_on fst (set es)" and de: "distinct es" using assms(1) by (auto simp: distinct_map)
  have sub: "set gone \<subseteq> set es" unfolding gone_def by (metis set_sort set_take_subset)
  show kept: "set kept = set es - set gone"
    unfolding kept_def using inj sub by (auto simp: inj_on_def subset_iff image_iff)
  have "distinct gone" unfolding gone_def using de by simp
  moreover have "length gone = ?m" by (simp add: gone_def)
  ultimately have "card (set gone) = ?m" by (metis distinct_card)
  moreover have "card (set es) = length es" using de by (simp add: distinct_card)
  ultimately have "card (set kept) = n" using kept sub assms(2) by (simp add: card_Diff_subset)
  moreover have "distinct kept" unfolding kept_def using de by simp
  ultimately show "length kept = n" by (metis distinct_card)
  assume "x \<in> set kept" "y \<in> set gone"
  then have x: "x \<in> set ?so" "x \<notin> set (take ?m ?so)" and y: "y \<in> set (take ?m ?so)" using kept by (auto simp: gone_def)
  then have "x \<in> set (drop ?m ?so)" by (metis Un_iff append_take_drop_id set_append)
  moreover have "sorted (map ?key (take ?m ?so @ drop ?m ?so))" by (simp only: append_take_drop_id sorted_sort_key)
  ultimately have "?key y \<le> ?key x" using y unfolding map_append sorted_append by auto
  then show "se_last_accessed (snd y) \<le> se_last_accessed (snd x)" by (simp add: case_prod_beta)
qed

text \<open>Trimming a bucket of the client's storage leaves the allowed number of entries, or all if there are fewer; none that was
  evicted was read or written more recently than any that stayed, and the other buckets are untouched.\<close>

theorem client_trim_evicts_oldest:
  assumes "mem_client_ready s" "map_of s b = Some es"
  shows "\<exists>s' es'. mem_client_trim b n s = (s', Inr ()) \<and> map_of s' b = Some es' \<and> length es' = min n (length es) \<and> set es' \<subseteq> set es
    \<and> (\<forall>x \<in> set es'. \<forall>y \<in> set es - set es'. se_last_accessed (snd y) \<le> se_last_accessed (snd x))
    \<and> (\<forall>c. c \<noteq> b \<longrightarrow> map_of s' c = map_of s c)"
proof (cases "n < length es")
  case False
  then show ?thesis using assms(2) by (auto simp: mem_client_trim_def update_bucket_def update_conv')
next
  case True
  have "(b, es) \<in> set s" using assms(2) by (rule map_of_SomeD)
  then have "distinct (map fst es)" using assms(1) by (auto simp: mem_client_ready_def)
  note t = trim_entries[OF this True]
  let ?gone = "take (length es - n) (sort_key (\<lambda>(k, e). se_last_accessed e) es)"
  let ?kept = "List.filter (\<lambda>e. fst e \<notin> fst ` set ?gone) es"
  have run: "mem_client_trim b n s = (AList.update b ?kept s, Inr ())"
    using assms(2) True by (simp add: mem_client_trim_def update_bucket_def Let_def fold_delete)
  have old: "\<forall>x \<in> set ?kept. \<forall>y \<in> set es - set ?kept. se_last_accessed (snd y) \<le> se_last_accessed (snd x)"
    using t(2,3) by blast
  have here: "map_of (AList.update b ?kept s) b = Some ?kept" "\<forall>c. c \<noteq> b \<longrightarrow> map_of (AList.update b ?kept s) c = map_of s c"
    by (simp_all add: update_conv')
  have "length ?kept = min n (length es)" "set ?kept \<subseteq> set es" using t(1) True by simp_all
  then show ?thesis using run old here by blast
qed

end
