(* ===== verification/Environment.thy ===== *)
theory Environment
  imports Feedback Compression Time "HOL-Library.AList" "HOL-Library.Multiset"
begin

text \<open>
  \<open>environment/environment_store.rs\<close>, \<open>mem_environment_store.rs\<close> and \<open>environment.rs\<close>: the storage of a server.
  The trait \<open>EnvironmentStore\<close> is a record of functions over a store state \<open>'s\<close>; its in-memory implementation
  is an instance; \<open>Environment\<close> is generic over it. A method that takes \<open>&self\<close> and mutates behind a lock
  returns the new state next to its result, so that effects before an error are kept. \<open>f64\<close> quotas are
  real numbers. The size counter is an \<open>AtomicUsize\<close>, whose \<open>fetch_add\<close> and \<open>fetch_sub\<close> wrap; by how much it differs from
  the stored sizes after any calls is the subject of the second half.
\<close>

record post_bundle_metadata =
  pm_size :: nat
  pm_num_posts :: nat
  pm_num_posts_granted :: nat
  pm_overflowed :: bool
  pm_sealed :: bool

definition PostBundleMetadata_zero :: post_bundle_metadata where
  "PostBundleMetadata_zero = \<lparr>pm_size = 0, pm_num_posts = 0, pm_num_posts_granted = 0, pm_overflowed = False, pm_sealed = False\<rparr>"

record 's store_ops =
  so_count :: "'s \<Rightarrow> nat res"
  so_feedback_count :: "'s \<Rightarrow> nat res"
  so_metadata_get :: "'s \<Rightarrow> id \<Rightarrow> post_bundle_metadata option res"
  so_metadata_put :: "id \<Rightarrow> post_bundle_metadata \<Rightarrow> 's \<Rightarrow> 's res"
  so_bytes_get :: "'s \<Rightarrow> id \<Rightarrow> bytes option res"
  so_bytes_put :: "id \<Rightarrow> bytes \<Rightarrow> 's \<Rightarrow> 's res"
  so_last_accessed_flush :: "(id \<times> time_millis) list \<Rightarrow> 's \<Rightarrow> 's res"
  so_delete :: "id list \<Rightarrow> 's \<Rightarrow> 's res"
  so_last_accessed_iter :: "'s \<Rightarrow> id \<Rightarrow> (id \<times> bytes) res list"
  so_config_get :: "'s \<Rightarrow> string \<Rightarrow> bytes option res"
  so_config_put :: "string \<Rightarrow> bytes \<Rightarrow> 's \<Rightarrow> 's res"
  so_feedbacks_bytes_get :: "'s \<Rightarrow> id \<Rightarrow> bytes res"
  so_feedback_put_if_more_powerful :: "id \<Rightarrow> feedback \<Rightarrow> 's \<Rightarrow> 's res"

definition config_get_usize :: "'s store_ops \<Rightarrow> 's \<Rightarrow> string \<Rightarrow> nat option res" where
  "config_get_usize S s key = rbind (so_config_get S s key) (\<lambda>v.
     case v of None \<Rightarrow> Inr None
     | Some bs \<Rightarrow> if length bs = 8 then Inr (Some (be_nat bs)) else Inl (Bail ''stored data has wrong byte length''))"

definition config_put_usize :: "'s store_ops \<Rightarrow> string \<Rightarrow> nat \<Rightarrow> 's \<Rightarrow> 's res" where
  "config_put_usize S key v s = so_config_put S key (be_bytes 8 v) s"


section \<open>The in-memory store\<close>

text \<open>A \<open>BTreeMap\<close> is its association list in key order.\<close>

fun bt_insert :: "('k :: linorder) \<Rightarrow> 'v \<Rightarrow> ('k \<times> 'v) list \<Rightarrow> ('k \<times> 'v) list" where
  "bt_insert k v [] = [(k, v)]"
| "bt_insert k v ((k', v') # xs) =
     (if k < k' then (k, v) # (k', v') # xs else if k = k' then (k, v) # xs else (k', v') # bt_insert k v xs)"

record mem_store =
  ms_config :: "(string \<times> bytes) list"
  ms_metadata :: "(id \<times> bytes) list"
  ms_last_accessed :: "(id \<times> bytes) list"
  ms_bytes :: "(id \<times> bytes) list"
  ms_feedbacks :: "(id \<times> feedback list) list"

definition mem_store_new :: mem_store where
  "mem_store_new = \<lparr>ms_config = [], ms_metadata = [], ms_last_accessed = [], ms_bytes = [], ms_feedbacks = []\<rparr>"

definition mem_count :: "mem_store \<Rightarrow> nat res" where
  "mem_count s = Inr (length (ms_last_accessed s))"

definition mem_feedback_count :: "mem_store \<Rightarrow> nat res" where
  "mem_feedback_count s = Inr (sum_list (map (\<lambda>(i, es). length es) (ms_feedbacks s)))"

definition mem_metadata_get :: "post_bundle_metadata codec \<Rightarrow> mem_store \<Rightarrow> id \<Rightarrow> post_bundle_metadata option res" where
  "mem_metadata_get P s i = (case map_of (ms_metadata s) i of
     Some bs \<Rightarrow> rbind (of_option ''postcard'' (dec P bs)) (\<lambda>m. Inr (Some m)) | None \<Rightarrow> Inr None)"

definition mem_metadata_put :: "post_bundle_metadata codec \<Rightarrow> id \<Rightarrow> post_bundle_metadata \<Rightarrow> mem_store \<Rightarrow> mem_store res" where
  "mem_metadata_put P i m s = Inr (s\<lparr>ms_metadata := AList.update i (enc P m) (ms_metadata s)\<rparr>)"

definition mem_bytes_get :: "mem_store \<Rightarrow> id \<Rightarrow> bytes option res" where
  "mem_bytes_get s i = Inr (map_of (ms_bytes s) i)"

definition mem_bytes_put :: "id \<Rightarrow> bytes \<Rightarrow> mem_store \<Rightarrow> mem_store res" where
  "mem_bytes_put i bs s = Inr (s\<lparr>ms_bytes := AList.update i bs (ms_bytes s)\<rparr>)"

definition mem_last_accessed_flush :: "(id \<times> time_millis) list \<Rightarrow> mem_store \<Rightarrow> mem_store res" where
  "mem_last_accessed_flush touched s =
     Inr (s\<lparr>ms_last_accessed := fold (\<lambda>(i, t). bt_insert i (time_encode_be t)) touched (ms_last_accessed s)\<rparr>)"

definition mem_delete_one :: "id \<Rightarrow> mem_store \<Rightarrow> mem_store" where
  "mem_delete_one i s = s\<lparr>ms_metadata := AList.delete i (ms_metadata s), ms_last_accessed := AList.delete i (ms_last_accessed s),
     ms_bytes := AList.delete i (ms_bytes s), ms_feedbacks := AList.delete i (ms_feedbacks s)\<rparr>"

definition mem_delete :: "id list \<Rightarrow> mem_store \<Rightarrow> mem_store res" where
  "mem_delete ids s = Inr (fold mem_delete_one ids s)"

text \<open>\<open>range(id..)\<close> chained with \<open>range(..id)\<close>: a walk once around the map.\<close>

definition mem_last_accessed_iter :: "mem_store \<Rightarrow> id \<Rightarrow> (id \<times> bytes) res list" where
  "mem_last_accessed_iter s i =
     map Inr (List.filter (\<lambda>(k, v). i \<le> k) (ms_last_accessed s) @ List.filter (\<lambda>(k, v). k < i) (ms_last_accessed s))"

definition mem_config_get :: "mem_store \<Rightarrow> string \<Rightarrow> bytes option res" where
  "mem_config_get s key = Inr (map_of (ms_config s) key)"

definition mem_config_put :: "string \<Rightarrow> bytes \<Rightarrow> mem_store \<Rightarrow> mem_store res" where
  "mem_config_put key v s = Inr (s\<lparr>ms_config := AList.update key v (ms_config s)\<rparr>)"

fun append_entries :: "feedback list \<Rightarrow> bytes \<Rightarrow> bytes res" where
  "append_entries [] out = Inr out"
| "append_entries (f # fs) out =
     rbind (append_encode_direct_to_bytes out (id_bytes (fb_post_id f)) (fb_feedback_type f) (salt_bytes (fb_salt f)) (fb_pow f))
       (append_entries fs)"

definition mem_feedbacks_bytes_get :: "mem_store \<Rightarrow> id \<Rightarrow> bytes res" where
  "mem_feedbacks_bytes_get s i = (case map_of (ms_feedbacks s) i of
     Some entries \<Rightarrow> append_entries entries [] | None \<Rightarrow> Inr [])"

definition same_vote :: "feedback \<Rightarrow> feedback \<Rightarrow> bool" where
  "same_vote f g \<longleftrightarrow> fb_post_id f = fb_post_id g \<and> fb_feedback_type f = fb_feedback_type g"

fun put_vote :: "feedback \<Rightarrow> feedback list \<Rightarrow> feedback list" where
  "put_vote new [] = [new]"
| "put_vote new (f # fs) =
     (if same_vote f new then (if fb_pow f \<ge> fb_pow new then f else new) # fs else f # put_vote new fs)"

definition mem_feedback_put :: "id \<Rightarrow> feedback \<Rightarrow> mem_store \<Rightarrow> mem_store res" where
  "mem_feedback_put i new s =
     (let entries = (case map_of (ms_feedbacks s) i of None \<Rightarrow> [] | Some es \<Rightarrow> es) in
      Inr (s\<lparr>ms_feedbacks := AList.update i (put_vote new entries) (ms_feedbacks s)\<rparr>))"

definition mem_store_ops :: "post_bundle_metadata codec \<Rightarrow> mem_store store_ops" where
  "mem_store_ops P = \<lparr>so_count = mem_count, so_feedback_count = mem_feedback_count, so_metadata_get = mem_metadata_get P,
     so_metadata_put = mem_metadata_put P, so_bytes_get = mem_bytes_get, so_bytes_put = mem_bytes_put,
     so_last_accessed_flush = mem_last_accessed_flush, so_delete = mem_delete, so_last_accessed_iter = mem_last_accessed_iter,
     so_config_get = mem_config_get, so_config_put = mem_config_put, so_feedbacks_bytes_get = mem_feedbacks_bytes_get,
     so_feedback_put_if_more_powerful = mem_feedback_put\<rparr>"


section \<open>The environment\<close>

definition CONFIG_SERVER_ID :: string where "CONFIG_SERVER_ID = ''server_id''"
definition CONFIG_KADEMLIA_PEER_BUCKETS :: string where "CONFIG_KADEMLIA_PEER_BUCKETS = ''kademlia_peer_buckets''"
definition CONFIG_POST_BUNDLE_CURRENT_SIZE_BYTES :: string where
  "CONFIG_POST_BUNDLE_CURRENT_SIZE_BYTES = ''post_bundle_current_size_bytes''"

record environment_dimensions =
  ed_max_size_bytes :: nat
  ed_max_quota_used :: real

definition EnvironmentDimensions_default :: environment_dimensions where
  "EnvironmentDimensions_default = \<lparr>ed_max_size_bytes = 20 * 1024 * 1024 * 1024, ed_max_quota_used = 9 / 10\<rparr>"

definition with_max_size_bytes :: "nat \<Rightarrow> environment_dimensions \<Rightarrow> environment_dimensions" where
  "with_max_size_bytes n d = d\<lparr>ed_max_size_bytes := n\<rparr>"

record 's environment =
  e_dimensions :: environment_dimensions
  e_store :: 's
  e_touched :: "(id \<times> time_millis) list"
  e_size :: nat

definition Environment_new :: "'s store_ops \<Rightarrow> 's \<Rightarrow> environment_dimensions \<Rightarrow> 's environment res" where
  "Environment_new S s dims =
     rbind (config_get_usize S s CONFIG_POST_BUNDLE_CURRENT_SIZE_BYTES) (\<lambda>v.
       Inr \<lparr>e_dimensions = dims, e_store = s, e_touched = [], e_size = (case v of None \<Rightarrow> 0 | Some n \<Rightarrow> n)\<rparr>)"

text \<open>The stripe of the lock that a location takes: one of 256.\<close>

definition lock_stripe :: "id \<Rightarrow> nat" where
  "lock_stripe i = unat (id_bytes i ! 0)"

text \<open>A method of \<open>Environment\<close>: the new state, and the result or error.\<close>

type_synonym ('s, 'a) env_run = "'s environment \<Rightarrow> 's environment \<times> 'a res"

definition touch :: "time_millis \<Rightarrow> id \<Rightarrow> 's environment \<Rightarrow> 's environment" where
  "touch t i e = e\<lparr>e_touched := AList.update i t (e_touched e)\<rparr>"

definition on_store :: "('s \<Rightarrow> 's res) \<Rightarrow> ('s, unit) env_run" where
  "on_store f e = (case f (e_store e) of Inl err \<Rightarrow> (e, Inl err) | Inr s \<Rightarrow> (e\<lparr>e_store := s\<rparr>, Inr ()))"

definition env_config_put_bytes :: "'s store_ops \<Rightarrow> string \<Rightarrow> bytes \<Rightarrow> ('s, unit) env_run" where
  "env_config_put_bytes S key v = on_store (so_config_put S key v)"

definition env_config_put_struct :: "'s store_ops \<Rightarrow> compressor \<Rightarrow> 'a codec \<Rightarrow> string \<Rightarrow> 'a \<Rightarrow> ('s, unit) env_run" where
  "env_config_put_struct S Z J key v e = (case compress_for_speed Z (enc J v) of
     Inl err \<Rightarrow> (e, Inl err) | Inr g \<Rightarrow> env_config_put_bytes S key (g_to_bytes g) e)"

definition env_config_get_struct :: "'s store_ops \<Rightarrow> compressor \<Rightarrow> 'a codec \<Rightarrow> string \<Rightarrow> 's environment \<Rightarrow> 'a option res" where
  "env_config_get_struct S Z J key e = rbind (so_config_get S (e_store e) key) (\<lambda>v.
     case v of
       Some bytes_compressed \<Rightarrow> rbind (decompress Z bytes_compressed) (\<lambda>g.
          rbind (of_option ''json'' (dec J (g_to_bytes g))) (\<lambda>x. Inr (Some x)))
     | None \<Rightarrow> Inr None)"

definition get_post_bundle_metadata :: "'s store_ops \<Rightarrow> time_millis \<Rightarrow> id \<Rightarrow> ('s, post_bundle_metadata option) env_run" where
  "get_post_bundle_metadata S t i e = (touch t i e, so_metadata_get S (e_store e) i)"

definition get_post_bundle_bytes :: "'s store_ops \<Rightarrow> time_millis \<Rightarrow> id \<Rightarrow> ('s, bytes option) env_run" where
  "get_post_bundle_bytes S t i e = (touch t i e, so_bytes_get S (e_store e) i)"

definition get_post_bundle_encoded_post_feedbacks_bytes :: "'s store_ops \<Rightarrow> time_millis \<Rightarrow> id \<Rightarrow> ('s, bytes) env_run" where
  "get_post_bundle_encoded_post_feedbacks_bytes S t i e = (touch t i e, so_feedbacks_bytes_get S (e_store e) i)"

definition put_post_feedback_if_more_powerful :: "'s store_ops \<Rightarrow> time_millis \<Rightarrow> id \<Rightarrow> feedback \<Rightarrow> ('s, unit) env_run" where
  "put_post_feedback_if_more_powerful S t i f e = on_store (so_feedback_put_if_more_powerful S i f) (touch t i e)"

definition put_post_bundle_bytes :: "'s store_ops \<Rightarrow> time_millis \<Rightarrow> id \<Rightarrow> bytes \<Rightarrow> ('s, unit) env_run" where
  "put_post_bundle_bytes S t i bs e = on_store (so_bytes_put S i bs) (touch t i e)"

definition fetch_add :: "nat \<Rightarrow> nat \<Rightarrow> nat" where
  "fetch_add n c = (c + n) mod 2 ^ 64"

definition fetch_sub :: "nat \<Rightarrow> nat \<Rightarrow> nat" where
  "fetch_sub n c = (c + (2 ^ 64 - n mod 2 ^ 64)) mod 2 ^ 64"

definition put_post_bundle_metadata :: "'s store_ops \<Rightarrow> time_millis \<Rightarrow> id \<Rightarrow> post_bundle_metadata \<Rightarrow> nat \<Rightarrow> ('s, unit) env_run" where
  "put_post_bundle_metadata S t i m additional_bytes e =
     (case on_store (so_metadata_put S i m) (touch t i e) of
        (e', Inl err) \<Rightarrow> (e', Inl err)
      | (e', Inr _) \<Rightarrow> (e'\<lparr>e_size := fetch_add additional_bytes (e_size e')\<rparr>, Inr ()))"


section \<open>Decimation\<close>

text \<open>The bounded max-heap of the oldest sampled locations: \<open>BinaryHeap\<close> pops a maximal element, ties
  of the time broken by the location. \<open>remove1\<close> of the maximum is \<open>pop\<close>.\<close>

type_synonym victim_heap = "(bytes \<times> id) list"

definition newer :: "bytes \<times> id \<Rightarrow> bytes \<times> id \<Rightarrow> bool" where
  "newer x y \<longleftrightarrow> fst y < fst x \<or> (fst y = fst x \<and> snd y \<le> snd x)"

fun heap_peek :: "victim_heap \<Rightarrow> (bytes \<times> id) option" where
  "heap_peek [] = None"
| "heap_peek (x # xs) = (case heap_peek xs of None \<Rightarrow> Some x | Some y \<Rightarrow> Some (if newer x y then x else y))"

definition offer_victim :: "nat \<Rightarrow> (id \<times> bytes) res \<Rightarrow> victim_heap res \<Rightarrow> victim_heap res" where
  "offer_victim rows_per_batch pair heap = rbind heap (\<lambda>h.
     case pair of Inl err \<Rightarrow> Inr h
     | Inr (location_id, t) \<Rightarrow>
         if length h \<ge> rows_per_batch then
           (case heap_peek h of None \<Rightarrow> Inl (Panic ''should always work as we have checked the length'')
            | Some m \<Rightarrow> if fst m > t then Inr ((t, location_id) # remove1 m h) else Inr h)
         else Inr ((t, location_id) # h))"

definition choose_victims :: "nat \<Rightarrow> (id \<times> bytes) res list \<Rightarrow> victim_heap res" where
  "choose_victims rows_per_batch items = fold (offer_victim rows_per_batch) (take (5 * rows_per_batch) items) (Inr [])"

definition kill_victim :: "'s store_ops \<Rightarrow> id \<Rightarrow> 's environment \<Rightarrow> 's environment" where
  "kill_victim S i e = e\<lparr>e_touched := AList.delete i (e_touched e),
     e_size := (case so_metadata_get S (e_store e) i of Inr (Some m) \<Rightarrow> fetch_sub (pm_size m) (e_size e) | _ \<Rightarrow> e_size e)\<rparr>"

definition decimate_batch :: "'s store_ops \<Rightarrow> nat \<Rightarrow> id \<Rightarrow> ('s, unit) env_run" where
  "decimate_batch S rows_per_batch random_prefix e =
     (case choose_victims rows_per_batch (so_last_accessed_iter S (e_store e) random_prefix) of
        Inl err \<Rightarrow> (e, Inl err)
      | Inr heap \<Rightarrow> let location_ids = map snd heap in
          on_store (so_delete S location_ids) (fold (kill_victim S) location_ids e))"

text \<open>One random prefix per batch, and whether the task was cancelled before it.\<close>

fun decimate_batches :: "'s store_ops \<Rightarrow> nat \<Rightarrow> (bool \<times> id) list \<Rightarrow> ('s, unit) env_run" where
  "decimate_batches S rows_per_batch [] e = (e, Inr ())"
| "decimate_batches S rows_per_batch ((cancelled, pfx) # bs) e =
     (if cancelled then (e, Inr ())
      else case decimate_batch S rows_per_batch pfx e of
        (e', Inl err) \<Rightarrow> (e', Inl err)
      | (e', Inr _) \<Rightarrow> decimate_batches S rows_per_batch bs e')"

definition decimation_count :: "nat \<Rightarrow> real \<Rightarrow> real \<Rightarrow> real" where
  "decimation_count total_rows quota_used max_quota_used = real total_rows * (1 - 98 / 100 * max_quota_used / quota_used)"

definition num_batches :: "real \<Rightarrow> nat" where
  "num_batches c = nat \<lceil>c / min 100 c\<rceil>"

definition rows_per_batch :: "real \<Rightarrow> nat" where
  "rows_per_batch c = nat \<lfloor>c\<rfloor> div num_batches c"

definition flush_size :: "'s store_ops \<Rightarrow> 's environment \<Rightarrow> 's environment" where
  "flush_size S e = fst (on_store (config_put_usize S CONFIG_POST_BUNDLE_CURRENT_SIZE_BYTES (e_size e)) e)"

text \<open>\<open>try_read\<close> of the decimation lock always succeeds, because nothing takes it for writing. The
  deferred flush of the size runs on every exit.\<close>

definition do_decimation :: "'s store_ops \<Rightarrow> (nat \<Rightarrow> bool \<times> id) \<Rightarrow> real \<Rightarrow> real \<Rightarrow> ('s, unit) env_run" where
  "do_decimation S draws quota_used max_quota_used e =
     (case (case so_count S (e_store e) of
              Inl err \<Rightarrow> (e, Inl err)
            | Inr total_rows \<Rightarrow>
                let c = decimation_count total_rows quota_used max_quota_used in
                if 0 \<ge> c then (e, Inr ())
                else decimate_batches S (rows_per_batch c) (map draws [0..<num_batches c]) e) of
        (e', r) \<Rightarrow> (flush_size S e', r))"

text \<open>The first half of maintenance writes the size and the access times to the store.\<close>

definition flush_state :: "'s store_ops \<Rightarrow> ('s, unit) env_run" where
  "flush_state S e =
     (case on_store (config_put_usize S CONFIG_POST_BUNDLE_CURRENT_SIZE_BYTES (e_size e)) e of
        (e1, Inl err) \<Rightarrow> (e1, Inl err)
      | (e1, Inr _) \<Rightarrow>
          if e_touched e1 = [] then (e1, Inr ())
          else case on_store (so_last_accessed_flush S (e_touched e1)) e1 of
                 (e2, Inl err) \<Rightarrow> (e2, Inl err) | (e2, Inr _) \<Rightarrow> (e2\<lparr>e_touched := []\<rparr>, Inr ()))"

definition do_maintenance :: "'s store_ops \<Rightarrow> (nat \<Rightarrow> bool \<times> id) \<Rightarrow> ('s, unit) env_run" where
  "do_maintenance S draws e =
     (case flush_state S e of
        (e1, Inl err) \<Rightarrow> (e1, Inl err)
      | (e1, Inr _) \<Rightarrow>
          let quota_used = real (e_size e) / real (ed_max_size_bytes (e_dimensions e1)) in
          if quota_used > ed_max_quota_used (e_dimensions e1)
          then do_decimation S draws quota_used (ed_max_quota_used (e_dimensions e1)) e1
          else (e1, Inr ()))"


section \<open>What the environment needs of a store\<close>

definition stored_ids :: "'s store_ops \<Rightarrow> 's \<Rightarrow> id set" where
  "stored_ids S s = {i. \<exists>m. so_metadata_get S s i = Inr (Some m)}"

definition stored_size_of :: "'s store_ops \<Rightarrow> 's \<Rightarrow> id \<Rightarrow> nat" where
  "stored_size_of S s i = (case so_metadata_get S s i of Inr (Some m) \<Rightarrow> pm_size m | _ \<Rightarrow> 0)"

definition stored_size :: "'s store_ops \<Rightarrow> 's \<Rightarrow> nat" where
  "stored_size S s = sum (stored_size_of S s) (stored_ids S s)"

text \<open>The counter falls short of the size of what is stored by \<open>d\<close>, up to the wrap-around of the atomic.\<close>

definition short_by :: "'s store_ops \<Rightarrow> int \<Rightarrow> 's environment \<Rightarrow> bool" where
  "short_by S d e \<longleftrightarrow> e_size e < 2 ^ 64 \<and> (int (e_size e) + d) mod 2 ^ 64 = int (stored_size S (e_store e)) mod 2 ^ 64"

text \<open>What a decimation leaves in the store although the counter has already been reduced by it: a batch takes the sizes of its victims
  off the counter first, and when the store then fails to delete them, they stay.\<close>

definition batch_victims :: "'s store_ops \<Rightarrow> nat \<Rightarrow> id \<Rightarrow> 's environment \<Rightarrow> id list" where
  "batch_victims S r pfx e = (case choose_victims r (so_last_accessed_iter S (e_store e) pfx) of Inl err \<Rightarrow> [] | Inr heap \<Rightarrow> map snd heap)"

fun batches_undeleted :: "'s store_ops \<Rightarrow> nat \<Rightarrow> (bool \<times> id) list \<Rightarrow> 's environment \<Rightarrow> nat" where
  "batches_undeleted S r [] e = 0"
| "batches_undeleted S r ((cancelled, pfx) # bs) e =
     (if cancelled then 0
      else case decimate_batch S r pfx e of
        (e', Inl err) \<Rightarrow> sum_list (map (stored_size_of S (e_store e)) (batch_victims S r pfx e))
      | (e', Inr _) \<Rightarrow> batches_undeleted S r bs e')"

definition decimation_undeleted :: "'s store_ops \<Rightarrow> (nat \<Rightarrow> bool \<times> id) \<Rightarrow> real \<Rightarrow> real \<Rightarrow> 's environment \<Rightarrow> nat" where
  "decimation_undeleted S draws quota_used max_quota_used e =
     (case so_count S (e_store e) of
        Inl err \<Rightarrow> 0
      | Inr total_rows \<Rightarrow> let c = decimation_count total_rows quota_used max_quota_used in
          if 0 \<ge> c then 0 else batches_undeleted S (rows_per_batch c) (map draws [0..<num_batches c]) e)"

definition undeleted :: "'s store_ops \<Rightarrow> (nat \<Rightarrow> bool \<times> id) \<Rightarrow> 's environment \<Rightarrow> nat" where
  "undeleted S draws e =
     (case flush_state S e of
        (e1, Inl err) \<Rightarrow> 0
      | (e1, Inr _) \<Rightarrow>
          let quota_used = real (e_size e) / real (ed_max_size_bytes (e_dimensions e1)) in
          if quota_used > ed_max_quota_used (e_dimensions e1)
          then decimation_undeleted S draws quota_used (ed_max_quota_used (e_dimensions e1)) e1 else 0)"

lemma batches_Inr_undeleted: "decimate_batches S r bs e = (e', Inr ()) \<Longrightarrow> batches_undeleted S r bs e = 0"
  by (induction S r bs e rule: batches_undeleted.induct) (auto split: if_splits prod.splits sum.splits)

lemma maintenance_Inr_undeleted:
  assumes "do_maintenance S draws e = (e', Inr ())"
  shows "undeleted S draws e = 0"
  using assms batches_Inr_undeleted
  by (fastforce simp: do_maintenance_def undeleted_def do_decimation_def decimation_undeleted_def Let_def
      split: prod.splits sum.splits if_splits)

definition same_metadata :: "'s store_ops \<Rightarrow> 's \<Rightarrow> 's \<Rightarrow> bool" where
  "same_metadata S s s' \<longleftrightarrow> (\<forall>i. so_metadata_get S s' i = so_metadata_get S s i)"

locale environment_store =
  fixes S :: "'s store_ops" and ok :: "'s \<Rightarrow> bool"
  assumes metadata_put: "ok s \<Longrightarrow> so_metadata_put S i m s = Inr s' \<Longrightarrow> ok s' \<and>
      so_metadata_get S s' j = (if j = i then Inr (Some m) else so_metadata_get S s j)"
    and delete: "ok s \<Longrightarrow> so_delete S ids s = Inr s' \<Longrightarrow> ok s' \<and>
      so_metadata_get S s' j = (if j \<in> set ids then Inr None else so_metadata_get S s j)"
    and others: "ok s \<Longrightarrow> so_bytes_put S i bs s = Inr s' \<or> so_last_accessed_flush S touched s = Inr s'
        \<or> so_config_put S key v s = Inr s' \<or> so_feedback_put_if_more_powerful S i f s = Inr s'
      \<Longrightarrow> ok s' \<and> same_metadata S s s'"
    and finitely_many: "ok s \<Longrightarrow> finite (stored_ids S s)"
    and distinct_iter: "ok s \<Longrightarrow> distinct (map fst (ok_values (so_last_accessed_iter S s i)))"
    and config: "ok s \<Longrightarrow> so_config_put S key v s = Inr s' \<Longrightarrow> so_config_get S s' key' =
        (if key' = key then Inr (Some v) else so_config_get S s key')"
    and config_flush: "ok s \<Longrightarrow> so_last_accessed_flush S touched s = Inr s' \<Longrightarrow> so_config_get S s' key = so_config_get S s key"
begin

lemma stored_size_put:
  assumes "ok s" "so_metadata_put S i m s = Inr s'"
  shows "stored_size S s' + stored_size_of S s i = stored_size S s + pm_size m"
proof -
  have get: "so_metadata_get S s' j = (if j = i then Inr (Some m) else so_metadata_get S s j)" for j
    using metadata_put[OF assms] by blast
  have ids: "stored_ids S s' = insert i (stored_ids S s)" by (auto simp: stored_ids_def get)
  have fin: "finite (stored_ids S s - {i})" using finitely_many[OF assms(1)] by simp
  have "stored_size S s' = pm_size m + sum (stored_size_of S s) (stored_ids S s - {i})"
    unfolding stored_size_def ids using fin
    by (subst insert_Diff_single[symmetric], subst sum.insert) (auto simp: stored_size_of_def get intro!: sum.cong)
  moreover have "stored_size S s = stored_size_of S s i + sum (stored_size_of S s) (stored_ids S s - {i})"
  proof (cases "i \<in> stored_ids S s")
    case True
    then show ?thesis unfolding stored_size_def using finitely_many[OF assms(1)] by (simp add: sum.remove)
  next
    case False
    then have "stored_size_of S s i = 0"
      by (auto simp: stored_ids_def stored_size_of_def split: sum.splits option.splits)
    with False show ?thesis by (simp add: stored_size_def)
  qed
  ultimately show ?thesis by simp
qed

lemma stored_size_delete:
  assumes "ok s" "distinct ids" "so_delete S ids s = Inr s'"
  shows "stored_size S s = stored_size S s' + sum_list (map (stored_size_of S s) ids)"
proof -
  have get: "so_metadata_get S s' j = (if j \<in> set ids then Inr None else so_metadata_get S s j)" for j
    using delete[OF assms(1,3)] by blast
  have ids: "stored_ids S s' = stored_ids S s - set ids" by (auto simp: stored_ids_def get)
  have "sum (stored_size_of S s') (stored_ids S s') = sum (stored_size_of S s) (stored_ids S s - set ids)"
    unfolding ids by (intro sum.cong) (auto simp: stored_size_of_def get)
  moreover have "sum_list (map (stored_size_of S s) ids) = sum (stored_size_of S s) (set ids)"
    using assms(2) by (simp add: sum_list_distinct_conv_sum_set)
  moreover have "sum (stored_size_of S s) (set ids) = sum (stored_size_of S s) (stored_ids S s \<inter> set ids)"
    by (intro sum.mono_neutral_right) (auto simp: stored_size_of_def stored_ids_def split: sum.splits option.splits)
  moreover have "sum (stored_size_of S s) (stored_ids S s)
      = sum (stored_size_of S s) (stored_ids S s - set ids) + sum (stored_size_of S s) (stored_ids S s \<inter> set ids)"
    using finitely_many[OF assms(1)] by (subst add.commute) (rule sum.Int_Diff)
  ultimately show ?thesis by (simp add: stored_size_def)
qed

lemma same_metadata_size: "same_metadata S s s' \<Longrightarrow> stored_size S s' = stored_size S s"
  by (simp add: stored_size_def stored_ids_def stored_size_of_def same_metadata_def)

lemma fold_kill_victim:
  "e_store (fold (kill_victim S) ids e) = e_store e
   \<and> (e_size e < 2 ^ 64 \<longrightarrow> e_size (fold (kill_victim S) ids e) < 2 ^ 64 \<and>
     (e_size (fold (kill_victim S) ids e) + sum_list (map (stored_size_of S (e_store e)) ids)) mod 2 ^ 64 = e_size e mod 2 ^ 64)"
proof (induction ids arbitrary: e)
  case (Cons i ids)
  define e' where "e' = kill_victim S i e"
  have st: "e_store e' = e_store e" by (simp add: e'_def kill_victim_def)
  have sub: "(fetch_sub n c + n) mod 2 ^ 64 = c mod 2 ^ 64" for n c :: nat
  proof -
    have "(fetch_sub n c + n) mod 2 ^ 64 = (c + (2 ^ 64 - n mod 2 ^ 64) + n mod 2 ^ 64) mod 2 ^ 64"
      unfolding fetch_sub_def by (metis (no_types, lifting) mod_add_eq mod_add_left_eq mod_add_right_eq)
    also have "c + (2 ^ 64 - n mod 2 ^ 64) + n mod 2 ^ 64 = c + 2 ^ 64"
      by (simp add: less_imp_le)
    finally show ?thesis by simp
  qed
  have sz: "(e_size e' + stored_size_of S (e_store e) i) mod 2 ^ 64 = e_size e mod 2 ^ 64 \<and> (e_size e < 2 ^ 64 \<longrightarrow> e_size e' < 2 ^ 64)"
    using sub by (auto simp: e'_def kill_victim_def stored_size_of_def fetch_sub_def split: sum.splits option.splits)
  have shift: "(p + a) mod 2 ^ 64 = (q + a) mod 2 ^ 64" if "p mod 2 ^ 64 = q mod 2 ^ 64" for p q a :: nat
    using that by (metis mod_add_left_eq)
  let ?x = "e_size (fold (kill_victim S) ids e')" and ?y = "sum_list (map (stored_size_of S (e_store e)) ids)"
  have IH: "e_store (fold (kill_victim S) ids e') = e_store e"
      "e_size e < 2 ^ 64 \<longrightarrow> ?x < 2 ^ 64 \<and> (?x + ?y) mod 2 ^ 64 = e_size e' mod 2 ^ 64"
    using Cons.IH[of e'] st sz by auto
  have "e_size e < 2 ^ 64 \<longrightarrow> (?x + (stored_size_of S (e_store e) i + ?y)) mod 2 ^ 64 = e_size e mod 2 ^ 64"
  proof
    assume "e_size e < 2 ^ 64"
    then have "(?x + ?y + stored_size_of S (e_store e) i) mod 2 ^ 64 = (e_size e' + stored_size_of S (e_store e) i) mod 2 ^ 64"
      using IH(2) by (intro shift) simp
    also have "\<dots> = e_size e mod 2 ^ 64" using sz by blast
    finally show "(?x + (stored_size_of S (e_store e) i + ?y)) mod 2 ^ 64 = e_size e mod 2 ^ 64"
      by (simp only: ac_simps)
  qed
  moreover have "fold (kill_victim S) (i # ids) e = fold (kill_victim S) ids e'" by (simp add: e'_def)
  ultimately show ?case using IH by (simp only: list.map sum_list.Cons) blast
qed simp

end


section \<open>The victims of a decimation\<close>

lemma heap_peek_None: "heap_peek h = None \<longleftrightarrow> h = []"
  by (cases h) (auto split: option.splits)

lemma heap_peek_Some: "heap_peek h = Some m \<Longrightarrow> m \<in> set h \<and> (\<forall>x \<in> set h. fst x \<le> fst m)"
proof (induction h arbitrary: m)
  case (Cons x xs)
  then show ?case
    by (cases "heap_peek xs") (fastforce simp: heap_peek_None newer_def split: if_splits)+
qed simp

definition flip :: "'a \<times> 'b \<Rightarrow> 'b \<times> 'a" where "flip p = (snd p, fst p)"

text \<open>The heap holds as many of the sampled locations as it may, and the ones left out are not older.\<close>

definition victims_ok :: "nat \<Rightarrow> (id \<times> bytes) list \<Rightarrow> victim_heap \<Rightarrow> bool" where
  "victims_ok r xs h \<longleftrightarrow> length h = min r (length xs)
     \<and> (\<exists>spared. mset (map flip xs) = mset h + spared \<and> (\<forall>x \<in> set h. \<forall>y \<in># spared. fst x \<le> fst y))"

lemma offer_victim_ok:
  assumes "victims_ok r xs h" "0 < r"
  shows "\<exists>h'. offer_victim r (Inr p) (Inr h) = Inr h' \<and> victims_ok r (xs @ [p]) h'"
proof -
  let ?y = "(snd p, fst p)"
  obtain spared where len: "length h = min r (length xs)" and sp: "mset (map flip xs) = mset h + spared"
    and old: "\<forall>x \<in> set h. \<forall>y \<in># spared. fst x \<le> fst y"
    using assms(1) by (auto simp: victims_ok_def)
  have all: "mset (map flip (xs @ [p])) = add_mset ?y (mset (map flip xs))" by (simp add: flip_def)
  show ?thesis
  proof (cases "length h \<ge> r")
    case False
    have "length xs = length h + size spared" using arg_cong[OF sp, of size] by simp
    then have "spared = {#}" using False len by simp
    then have "victims_ok r (xs @ [p]) (?y # h)"
      using False len sp all by (auto simp: victims_ok_def intro!: exI[of _ "{#}"])
    then show ?thesis using False by (cases p) (simp add: offer_victim_def)
  next
    case True
    with assms(2) have "h \<noteq> []" by auto
    then obtain m where m: "heap_peek h = Some m" by (meson heap_peek_None not_None_eq)
    note mm = heap_peek_Some[OF m]
    show ?thesis
    proof (cases "snd p < fst m")
      case lt: True
      let ?h = "?y # remove1 m h"
      have hm: "mset h = add_mset m (mset (remove1 m h))" using mm by simp
      have "offer_victim r (Inr p) (Inr h) = Inr ?h" using True m lt by (cases p) (simp add: offer_victim_def)
      moreover have "length ?h = min r (length (xs @ [p]))"
      proof -
        have "length (remove1 m h) = length h - 1" using mm by (simp add: length_remove1)
        then have "length ?h = length h" using \<open>h \<noteq> []\<close> by (cases h) simp_all
        then show ?thesis using len True by simp
      qed
      moreover have "mset (map flip (xs @ [p])) = mset ?h + add_mset m spared"
        unfolding all sp by (subst hm) (simp only: mset.simps union_mset_add_mset_left union_mset_add_mset_right add_mset_commute)
      moreover have "fst x \<le> fst y" if "x \<in> set ?h" "y \<in># add_mset m spared" for x y
      proof -
        have "fst m \<le> fst y" using that(2) mm old by auto
        moreover have "fst x \<le> fst m" using that(1) set_remove1_subset[of m h] mm lt by auto
        ultimately show ?thesis by (rule order_trans[rotated])
      qed
      ultimately show ?thesis unfolding victims_ok_def by blast
    next
      case ge: False
      have "offer_victim r (Inr p) (Inr h) = Inr h" using True m ge by (cases p) (simp add: offer_victim_def)
      moreover have "mset (map flip (xs @ [p])) = mset h + add_mset ?y spared" using all sp by simp
      moreover have "fst x \<le> fst y" if "x \<in> set h" "y \<in># add_mset ?y spared" for x y
        using that old mm ge by (auto intro: order_trans)
      moreover have "length h = min r (length (xs @ [p]))" using len True by simp
      ultimately show ?thesis unfolding victims_ok_def by blast
    qed
  qed
qed

lemma offer_victim_Inl [simp]: "offer_victim r (Inl e) (Inr h) = Inr h"
  by (simp add: offer_victim_def)

lemma fold_offer_victim:
  "0 < r \<Longrightarrow> victims_ok r xs h \<Longrightarrow>
   \<exists>h'. fold (offer_victim r) items (Inr h) = Inr h' \<and> victims_ok r (xs @ ok_values items) h'"
proof (induction items arbitrary: xs h)
  case (Cons item items)
  show ?case
  proof (cases item)
    case (Inl e)
    then show ?thesis using Cons by simp
  next
    case (Inr p)
    obtain h1 where "offer_victim r item (Inr h) = Inr h1" "victims_ok r (xs @ [p]) h1"
      using offer_victim_ok[OF Cons.prems(2,1), of p] Inr by blast
    with Cons.IH[OF Cons.prems(1), of "xs @ [p]" h1] Inr show ?thesis by simp
  qed
qed simp

lemma choose_victims_ok:
  "\<exists>h. choose_victims r items = Inr h \<and> victims_ok r (ok_values (take (5 * r) items)) h"
proof (cases "r = 0")
  case True
  then show ?thesis by (simp add: choose_victims_def victims_ok_def)
next
  case False
  moreover have "victims_ok r [] []" by (simp add: victims_ok_def)
  ultimately show ?thesis using fold_offer_victim[of r "[]" "[]" "take (5 * r) items"] by (simp add: choose_victims_def)
qed

lemma set_ok_values_take: "distinct (map fst (ok_values items)) \<Longrightarrow> distinct (map fst (ok_values (take n items)))"
proof (induction items arbitrary: n)
  case (Cons x items)
  have sub: "set (ok_values (take k items)) \<subseteq> set (ok_values items)" for k
    unfolding ok_values_def by (metis set_concat set_map image_mono set_take_subset Union_mono set_map)
  show ?case
    using Cons sub by (cases n; cases x) auto
qed simp

lemma victims_distinct:
  assumes "choose_victims r items = Inr h" "distinct (map fst (ok_values items))"
  shows "distinct (map snd h)"
proof -
  obtain spared where "mset (map flip (ok_values (take (5 * r) items))) = mset h + spared"
    using choose_victims_ok[of r items] assms(1) by (auto simp: victims_ok_def)
  then have "mset (map snd (map flip (ok_values (take (5 * r) items)))) = mset (map snd h) + image_mset snd spared"
    by (metis image_mset_union mset_map)
  moreover have "map snd (map flip xs) = map fst xs" for xs :: "(id \<times> bytes) list" by (simp add: flip_def)
  moreover obtain ss where "spared = mset ss" by (metis ex_mset)
  ultimately have "mset (map fst (ok_values (take (5 * r) items))) = mset (map snd h) + mset (map snd ss)" by (metis mset_map)
  then have "mset (map fst (ok_values (take (5 * r) items))) = mset (map snd h @ map snd ss)" by (simp only: mset_append)
  then have "distinct (map snd h @ map snd ss)"
    using set_ok_values_take[OF assms(2)] mset_eq_imp_distinct_iff by blast
  then show ?thesis by simp
qed

text \<open>a decimation batch never panics on its heap and takes the oldest of its sample: as many locations as a batch may
  hold or the sample has, each at least as old as every sampled location that is spared.\<close>

theorem decimation_takes_oldest:
  "\<exists>victims spared. choose_victims r items = Inr victims
    \<and> length victims = min r (length (ok_values (take (5 * r) items)))
    \<and> mset (map flip (ok_values (take (5 * r) items))) = mset victims + spared
    \<and> (\<forall>x \<in> set victims. \<forall>y \<in># spared. fst x \<le> fst y)"
  using choose_victims_ok[of r items] by (auto simp: victims_ok_def)


section \<open>Accounting and persistence\<close>

lemma nat_mod_cancel:
  assumes "(x + y) mod M = (s + y) mod (M :: nat)"
  shows "x mod M = s mod M"
proof -
  have "(int x + int y) mod int M = (int s + int y) mod int M" using assms by (metis of_nat_add zmod_int)
  then have "int x mod int M = int s mod int M" by (simp add: mod_eq_dvd_iff)
  then show ?thesis by (metis of_nat_eq_iff zmod_int)
qed

lemma on_store_Inr: "on_store f e = (e', Inr ()) \<longleftrightarrow> (\<exists>s. f (e_store e) = Inr s \<and> e' = e\<lparr>e_store := s\<rparr>)"
  by (auto simp: on_store_def split: sum.splits)

definition env_short :: "'s store_ops \<Rightarrow> ('s \<Rightarrow> bool) \<Rightarrow> int \<Rightarrow> 's environment \<Rightarrow> bool" where
  "env_short S ok d e \<longleftrightarrow> ok (e_store e) \<and> short_by S d e"

lemma short_touched [simp]: "env_short S ok d (e\<lparr>e_touched := x\<rparr>) = env_short S ok d e"
  by (simp add: env_short_def short_by_def)

lemma short_touch [simp]: "env_short S ok d (touch t i e) = env_short S ok d e"
  by (simp add: touch_def)

lemma short_size: "env_short S ok d e \<Longrightarrow> e_size e < 2 ^ 64"
  by (simp add: env_short_def short_by_def)

context environment_store
begin

lemma put_metadata_short:
  assumes "env_short S ok d e" "put_post_bundle_metadata S t i m additional e = (e', Inr ())"
  shows "env_short S ok (d + int (pm_size m) - int (stored_size_of S (e_store e) i) - int additional) e'"
proof -
  obtain s where s: "so_metadata_put S i m (e_store e) = Inr s"
      "e' = (touch t i e)\<lparr>e_store := s, e_size := fetch_add additional (e_size e)\<rparr>"
    using assms(2)
    by (auto simp: put_post_bundle_metadata_def on_store_def touch_def split: sum.splits prod.splits)
  have ok: "ok (e_store e)" using assms(1) by (simp add: env_short_def)
  have "int (stored_size S s) + int (stored_size_of S (e_store e) i) = int (stored_size S (e_store e)) + int (pm_size m)"
    using stored_size_put[OF ok s(1)] by (metis of_nat_add)
  moreover have "(int (fetch_add additional (e_size e)) - (int (e_size e) + int additional)) mod 2 ^ 64 = 0"
    by (simp add: fetch_add_def zmod_int mod_eq_0_iff_dvd flip: mod_eq_dvd_iff)
  moreover have "(2 ^ 64 :: int) dvd int (e_size e) + d - int (stored_size S (e_store e))"
    using assms(1) by (simp add: env_short_def short_by_def mod_eq_dvd_iff)
  ultimately have "(2 ^ 64 :: int) dvd int (fetch_add additional (e_size e))
      + (d + int (pm_size m) - int (stored_size_of S (e_store e) i) - int additional) - int (stored_size S s)"
    by (smt (verit) dvd_add mod_0_imp_dvd)
  then show ?thesis
    using metadata_put[OF ok s(1)] s(2) by (simp add: env_short_def short_by_def mod_eq_dvd_iff) (simp add: fetch_add_def)
qed

lemma neutral_short:
  assumes "env_short S ok d e" "\<And>s. f (e_store e) = Inr s \<Longrightarrow> ok s \<and> same_metadata S (e_store e) s" "on_store f e = (e', r)"
  shows "env_short S ok d e'"
  using assms same_metadata_size by (auto simp: on_store_def env_short_def short_by_def split: sum.splits)

lemma store_short:
  assumes "env_short S ok d e"
  shows "on_store (so_bytes_put S i bs) e = (e', r) \<Longrightarrow> env_short S ok d e'"
    "on_store (so_last_accessed_flush S touched) e = (e', r) \<Longrightarrow> env_short S ok d e'"
    "on_store (so_config_put S key v) e = (e', r) \<Longrightarrow> env_short S ok d e'"
    "on_store (so_feedback_put_if_more_powerful S i f) e = (e', r) \<Longrightarrow> env_short S ok d e'"
proof -
  have ok: "ok (e_store e)" using assms by (simp add: env_short_def)
  show "on_store (so_bytes_put S i bs) e = (e', r) \<Longrightarrow> env_short S ok d e'"
    using neutral_short[OF assms, of "so_bytes_put S i bs"] others[OF ok] by blast
  show "on_store (so_last_accessed_flush S touched) e = (e', r) \<Longrightarrow> env_short S ok d e'"
    using neutral_short[OF assms, of "so_last_accessed_flush S touched"] others[OF ok] by blast
  show "on_store (so_config_put S key v) e = (e', r) \<Longrightarrow> env_short S ok d e'"
    using neutral_short[OF assms, of "so_config_put S key v"] others[OF ok] by blast
  show "on_store (so_feedback_put_if_more_powerful S i f) e = (e', r) \<Longrightarrow> env_short S ok d e'"
    using neutral_short[OF assms, of "so_feedback_put_if_more_powerful S i f"] others[OF ok] by blast
qed

lemma kill_short:
  assumes "env_short S ok d e" "sum_list (map (stored_size_of S (e_store e)) ids) = n"
  shows "env_short S ok (d + int n) (fold (kill_victim S) ids e)"
proof -
  let ?x = "e_size (fold (kill_victim S) ids e)"
  have k: "e_store (fold (kill_victim S) ids e) = e_store e" "?x < 2 ^ 64" "(?x + n) mod 2 ^ 64 = e_size e mod 2 ^ 64"
    using fold_kill_victim[of ids e] short_size[OF assms(1)] assms(2) by blast+
  have "(int ?x + int n) mod 2 ^ 64 = int (e_size e) mod 2 ^ 64"
    using arg_cong[OF k(3), of int] by (simp add: zmod_int)
  then have "(2 ^ 64 :: int) dvd int ?x + int n - int (e_size e)" by (simp add: mod_eq_dvd_iff)
  moreover have "(2 ^ 64 :: int) dvd int (e_size e) + d - int (stored_size S (e_store e))"
    using assms(1) by (simp add: env_short_def short_by_def mod_eq_dvd_iff)
  ultimately have "(2 ^ 64 :: int) dvd int ?x + (d + int n) - int (stored_size S (e_store e))"
    by (smt (verit) dvd_add)
  then show ?thesis using assms(1) k(1,2) by (simp add: env_short_def short_by_def mod_eq_dvd_iff)
qed

lemma decimate_batch_short:
  assumes "env_short S ok d e" "decimate_batch S r pfx e = (e', res)"
  shows "env_short S ok (d + (case res of Inl err \<Rightarrow> int (sum_list (map (stored_size_of S (e_store e)) (batch_victims S r pfx e))) | Inr _ \<Rightarrow> 0)) e'"
proof -
  obtain h where h: "choose_victims r (so_last_accessed_iter S (e_store e) pfx) = Inr h" using choose_victims_ok by blast
  let ?ids = "map snd h" and ?e1 = "fold (kill_victim S) (map snd h) e"
  let ?n = "sum_list (map (stored_size_of S (e_store e)) ?ids)"
  have ok: "ok (e_store e)" using assms(1) by (simp add: env_short_def)
  have v: "batch_victims S r pfx e = ?ids" by (simp add: batch_victims_def h)
  have k: "env_short S ok (d + int ?n) ?e1" by (rule kill_short[OF assms(1) refl])
  have st: "e_store ?e1 = e_store e" using fold_kill_victim[of ?ids e] by blast
  have run: "on_store (so_delete S ?ids) ?e1 = (e', res)" using assms(2) h by (simp add: decimate_batch_def Let_def)
  show ?thesis
  proof (cases "so_delete S ?ids (e_store e)")
    case (Inl err)
    then show ?thesis using run k st v by (auto simp: on_store_def)
  next
    case (Inr s)
    have "distinct ?ids" by (rule victims_distinct[OF h distinct_iter[OF ok]])
    from stored_size_delete[OF ok this Inr] have "int (stored_size S (e_store e)) = int (stored_size S s) + int ?n"
      by (metis of_nat_add)
    moreover have "e' = ?e1\<lparr>e_store := s\<rparr>" "res = Inr ()" using run Inr st by (auto simp: on_store_def)
    ultimately show ?thesis using k delete[OF ok Inr] st
      by (simp add: env_short_def short_by_def mod_eq_dvd_iff algebra_simps)
  qed
qed

lemma decimate_batches_short:
  "env_short S ok d e \<Longrightarrow> decimate_batches S r bs e = (e', res) \<Longrightarrow> env_short S ok (d + int (batches_undeleted S r bs e)) e'"
proof (induction bs arbitrary: e)
  case (Cons b bs)
  obtain cancelled pfx where b: "b = (cancelled, pfx)" by (cases b)
  obtain e1 res1 where e1: "decimate_batch S r pfx e = (e1, res1)" by fastforce
  note one = decimate_batch_short[OF Cons.prems(1) e1]
  show ?case
    using Cons.IH[of e1] Cons.prems one e1 by (cases res1) (auto simp: b split: if_splits)
qed simp

lemma flush_size_short: "env_short S ok d e \<Longrightarrow> env_short S ok d (flush_size S e)"
  using store_short(3)[of d e CONFIG_POST_BUNDLE_CURRENT_SIZE_BYTES "be_bytes 8 (e_size e)"]
  by (simp add: flush_size_def config_put_usize_def[abs_def] prod.split_sel) (metis prod.collapse)

lemma do_decimation_short:
  assumes "env_short S ok d e" "do_decimation S draws q mq e = (e', res)"
  shows "env_short S ok (d + int (decimation_undeleted S draws q mq e)) e'"
  using assms(2) flush_size_short decimate_batches_short[OF assms(1)] assms(1)
  by (auto simp: do_decimation_def decimation_undeleted_def Let_def split: sum.splits if_splits prod.splits)

lemma flush_state_short:
  assumes "env_short S ok d e" "flush_state S e = (e', res)"
  shows "env_short S ok d e'"
proof -
  obtain e1 r1 where e1: "on_store (so_config_put S CONFIG_POST_BUNDLE_CURRENT_SIZE_BYTES (be_bytes 8 (e_size e))) e = (e1, r1)" by fastforce
  note s1 = store_short(3)[OF assms(1) e1]
  obtain e2 r2 where e2: "on_store (so_last_accessed_flush S (e_touched e1)) e1 = (e2, r2)" by fastforce
  note s2 = store_short(2)[OF s1 e2]
  show ?thesis using assms(2) e1 e2 s1 s2
    by (cases r1; cases r2) (auto simp: flush_state_def config_put_usize_def[abs_def] split: if_splits)
qed

lemma do_maintenance_short:
  assumes "env_short S ok d e" "do_maintenance S draws e = (e', res)"
  shows "env_short S ok (d + int (undeleted S draws e)) e'"
proof -
  obtain e1 r1 where e1: "flush_state S e = (e1, r1)" by fastforce
  note s1 = flush_state_short[OF assms(1) e1]
  show ?thesis using assms(2) e1 s1 do_decimation_short[OF s1]
    by (cases r1) (auto simp: do_maintenance_def undeleted_def Let_def split: if_splits)
qed

text \<open>A decimation holds no lock of the location: a write between taking a victim off the counter and deleting it leaves
  the bytes that the write declared on the counter for good.\<close>

lemma decimation_races_write:
  assumes "env_short S ok d e" "put_post_bundle_metadata S t i m additional (kill_victim S i e) = (e1, Inr ())"
    and "pm_size m = stored_size_of S (e_store e) i + additional" "on_store (so_delete S [i]) e1 = (e2, Inr ())"
  shows "env_short S ok (d - int additional) e2"
proof -
  have k: "env_short S ok (d + int (stored_size_of S (e_store e) i)) (kill_victim S i e)"
    using kill_short[OF assms(1), of "[i]"] by simp
  have st: "e_store (kill_victim S i e) = e_store e" by (simp add: kill_victim_def)
  note w = put_metadata_short[OF k assms(2), unfolded st]
  have ok: "ok (e_store e1)" "ok (e_store e)" using w assms(1) by (simp_all add: env_short_def)
  obtain s where s: "so_delete S [i] (e_store e1) = Inr s" "e2 = e1\<lparr>e_store := s\<rparr>" using assms(4) by (auto simp: on_store_Inr)
  obtain s1 where s1: "so_metadata_put S i m (e_store e) = Inr s1" "e_store e1 = s1"
    using assms(2) st by (auto simp: put_post_bundle_metadata_def on_store_def touch_def split: sum.splits prod.splits)
  have "stored_size_of S (e_store e1) i = pm_size m" using metadata_put[OF ok(2) s1(1), of i] s1(2) by (simp add: stored_size_of_def)
  then have "int (stored_size S (e_store e1)) = int (stored_size S s) + int (pm_size m)"
    using stored_size_delete[OF ok(1) _ s(1)] by simp
  then show ?thesis using w delete[OF ok(1) s(1)] s(2) assms(3)
    by (simp add: env_short_def short_by_def mod_eq_dvd_iff algebra_simps)
qed

end


section \<open>The life of an environment\<close>

text \<open>The calls of the environment, each as a whole and with any result, over any store. \<open>leaves\<close> is what a call of the store that reports
  an error may have changed without reporting it. The number is what the counter has come to fall short by: what the writes of
  metadata added to the stored sizes without declaring it, and what failed decimations took off the counter without deleting it.\<close>

inductive counted_run :: "'s store_ops \<Rightarrow> ('s \<Rightarrow> 's \<Rightarrow> bool) \<Rightarrow> 's environment \<Rightarrow> int \<Rightarrow> 's environment \<Rightarrow> bool" for S leaves e0 where
  start: "counted_run S leaves e0 0 e0"
| store_metadata: "counted_run S leaves e0 d e \<Longrightarrow> put_post_bundle_metadata S t i m additional e = (e', Inr ())
    \<Longrightarrow> counted_run S leaves e0 (d + int (pm_size m) - int (stored_size_of S (e_store e) i) - int additional) e'"
| metadata_refused: "counted_run S leaves e0 d e \<Longrightarrow> put_post_bundle_metadata S t i m additional e = (e', Inl err) \<Longrightarrow> counted_run S leaves e0 d e'"
| put_bytes: "counted_run S leaves e0 d e \<Longrightarrow> put_post_bundle_bytes S t i bs e = (e', r) \<Longrightarrow> counted_run S leaves e0 d e'"
| put_feedback: "counted_run S leaves e0 d e \<Longrightarrow> put_post_feedback_if_more_powerful S t i f e = (e', r) \<Longrightarrow> counted_run S leaves e0 d e'"
| put_config: "counted_run S leaves e0 d e \<Longrightarrow> env_config_put_bytes S key v e = (e', r) \<Longrightarrow> counted_run S leaves e0 d e'"
| read_metadata: "counted_run S leaves e0 d e \<Longrightarrow> get_post_bundle_metadata S t i e = (e', rm) \<Longrightarrow> counted_run S leaves e0 d e'"
| read_bytes: "counted_run S leaves e0 d e \<Longrightarrow> get_post_bundle_bytes S t i e = (e', rb) \<Longrightarrow> counted_run S leaves e0 d e'"
| read_feedback: "counted_run S leaves e0 d e \<Longrightarrow> get_post_bundle_encoded_post_feedbacks_bytes S t i e = (e', rf) \<Longrightarrow> counted_run S leaves e0 d e'"
| maintenance: "counted_run S leaves e0 d e \<Longrightarrow> do_maintenance S draws e = (e', r)
    \<Longrightarrow> counted_run S leaves e0 (d + int (undeleted S draws e)) e'"
| left_behind: "counted_run S leaves e0 d e \<Longrightarrow> leaves (e_store e) s \<Longrightarrow> counted_run S leaves e0 d (e\<lparr>e_store := s\<rparr>)"

context environment_store
begin

lemma write_failed_short:
  assumes "env_short S ok d e" "put_post_bundle_metadata S t i m additional e = (e', Inl err)"
  shows "env_short S ok d e'"
proof -
  have "e' = touch t i e" using assms(2)
    by (auto simp: put_post_bundle_metadata_def on_store_def split: sum.splits prod.splits)
  then show ?thesis using assms(1) by simp
qed

lemma counted_run_short:
  assumes "counted_run S leaves e0 d e" "env_short S ok k e0" "\<And>s s'. ok s \<Longrightarrow> leaves s s' \<Longrightarrow> ok s' \<and> same_metadata S s s'"
  shows "env_short S ok (d + k) e"
  using assms(1)
proof (induction rule: counted_run.induct)
  case (store_metadata d e t i m additional e')
  from put_metadata_short[OF store_metadata.IH store_metadata.hyps(2)] show ?case by (simp add: algebra_simps)
next
  case (metadata_refused d e t i m additional e' err)
  then show ?case using write_failed_short by blast
next
  case (put_bytes d e t i bs e' r)
  then show ?case using store_short(1)[of "d + k" "touch t i e"] by (simp add: put_post_bundle_bytes_def)
next
  case (put_feedback d e t i f e' r)
  then show ?case using store_short(4)[of "d + k" "touch t i e"] by (simp add: put_post_feedback_if_more_powerful_def)
next
  case (put_config d e key v e' r)
  then show ?case using store_short(3) by (simp add: env_config_put_bytes_def)
next
  case (maintenance d e draws e' r)
  from do_maintenance_short[OF maintenance.IH maintenance.hyps(2)] show ?case by (simp add: algebra_simps)
next
  case (left_behind d e s)
  then have "ok s \<and> same_metadata S (e_store e) s" using assms(3)[of "e_store e" s] by (simp add: env_short_def)
  then have "ok s" "stored_size S s = stored_size S (e_store e)" using same_metadata_size[of "e_store e" s] by simp_all
  then show ?case using left_behind.IH by (simp add: env_short_def short_by_def)
qed (use assms(2) in \<open>auto simp: get_post_bundle_metadata_def get_post_bundle_bytes_def get_post_bundle_encoded_post_feedbacks_bytes_def\<close>)

end

lemma short_counter: "env_short S ok d e \<Longrightarrow> int (e_size e) = (int (stored_size S (e_store e)) - d) mod 2 ^ 64"
proof -
  assume a: "env_short S ok d e"
  have "(int (e_size e) + d) mod 2 ^ 64 = int (stored_size S (e_store e)) mod 2 ^ 64" "int (e_size e) < 2 ^ 64"
    using a by (simp_all add: env_short_def short_by_def)
  then have "(int (e_size e) + d - d) mod 2 ^ 64 = (int (stored_size S (e_store e)) - d) mod 2 ^ 64"
    by (metis mod_diff_left_eq)
  then show ?thesis using \<open>int (e_size e) < 2 ^ 64\<close> by simp
qed


section \<open>The in-memory store keeps the contract\<close>

definition mem_ok :: "post_bundle_metadata codec \<Rightarrow> mem_store \<Rightarrow> bool" where
  "mem_ok P s \<longleftrightarrow> (\<forall>m. dec P (enc P m) = Some m) \<and> sorted_wrt (<) (map fst (ms_last_accessed s))"

lemma set_bt_insert: "fst ` set (bt_insert k v xs) = insert k (fst ` set xs)"
  by (induction k v xs rule: bt_insert.induct) auto

lemma bt_insert_sorted: "sorted_wrt (<) (map fst xs) \<Longrightarrow> sorted_wrt (<) (map fst (bt_insert k v xs))"
proof (induction xs)
  case (Cons x xs)
  obtain k' v' where x: "x = (k', v')" by (cases x)
  show ?case
    using Cons set_bt_insert[of k v xs] unfolding x
    by (cases k k' rule: linorder_cases) (auto intro: less_trans)
qed simp

lemma fold_bt_insert_sorted:
  "sorted_wrt (<) (map fst xs) \<Longrightarrow> sorted_wrt (<) (map fst (fold (\<lambda>(i, t). bt_insert i (f t)) kvs xs))"
  by (induction kvs arbitrary: xs) (auto intro: bt_insert_sorted)

lemma delete_sorted: "sorted_wrt (<) (map fst xs) \<Longrightarrow> sorted_wrt (<) (map fst (AList.delete k xs))"
  by (induction xs) (auto simp: AList.delete_eq)

lemma mem_delete_fold:
  "ms_metadata (fold mem_delete_one ids s) = fold AList.delete ids (ms_metadata s)"
  "ms_last_accessed (fold mem_delete_one ids s) = fold AList.delete ids (ms_last_accessed s)"
  "ms_config (fold mem_delete_one ids s) = ms_config s"
  by (induction ids arbitrary: s) (simp_all add: mem_delete_one_def)

lemma map_of_fold_delete: "map_of (fold AList.delete ids al) j = (if j \<in> set ids then None else map_of al j)"
  by (induction ids arbitrary: al) (auto simp: delete_conv')

lemma fold_delete_sorted: "sorted_wrt (<) (map fst xs) \<Longrightarrow> sorted_wrt (<) (map fst (fold AList.delete ids xs))"
  by (induction ids arbitrary: xs) (auto intro: delete_sorted)

lemma ok_values_append [simp]: "ok_values (xs @ ys) = ok_values xs @ ok_values ys"
  by (simp add: ok_values_def)

lemma ok_values_map_Inr [simp]: "ok_values (map Inr xs) = xs"
  by (induction xs) simp_all

lemmas mem_ops = mem_store_ops_def mem_metadata_get_def mem_metadata_put_def mem_bytes_put_def mem_last_accessed_flush_def
  mem_delete_def mem_last_accessed_iter_def mem_config_get_def mem_config_put_def mem_feedback_put_def Let_def

interpretation mem: environment_store "mem_store_ops P" "mem_ok P"
proof (unfold_locales, goal_cases)
  case (1 s i m s' j)
  then show ?case by (auto simp: mem_ops mem_ok_def update_conv')
next
  case (2 s ids s' j)
  then show ?case by (auto simp: mem_ops mem_ok_def mem_delete_fold map_of_fold_delete fold_delete_sorted)
next
  case (3 s i bs s' touched key v f)
  then show ?case
    using fold_bt_insert_sorted[of "ms_last_accessed s" time_encode_be touched]
    by (auto simp: mem_ops mem_ok_def same_metadata_def)
next
  case (4 s)
  have "stored_ids (mem_store_ops P) s \<subseteq> fst ` set (ms_metadata s)"
    by (auto simp: stored_ids_def mem_ops split: option.splits dest: map_of_SomeD intro: rev_image_eqI)
  then show ?case by (rule finite_subset) simp
next
  case (5 s i)
  then have d: "distinct (map fst (ms_last_accessed s))" by (simp add: mem_ok_def strict_sorted_iff)
  have "fst ` set (List.filter (\<lambda>(k, v). i \<le> k) xs) \<inter> fst ` set (List.filter (\<lambda>(k, v). k < i) xs) = {}" for xs :: "(id \<times> bytes) list"
    by force
  then show ?case
    using d filter_distinct_map[OF d, of "\<lambda>(k, v). i \<le> k"] filter_distinct_map[OF d, of "\<lambda>(k, v). k < i"]
    by (simp add: mem_ops)
next
  case (6 s key v s' key')
  then show ?case by (auto simp: mem_ops update_conv')
next
  case (7 s touched s' key)
  then show ?case by (auto simp: mem_ops)
qed

text \<open>The operations of the in-memory store never fail, so nothing is left undeleted.\<close>

lemma mem_delete_batch: "\<exists>e'. decimate_batch (mem_store_ops P) r pfx e = (e', Inr ())"
proof -
  obtain h where "choose_victims r (so_last_accessed_iter (mem_store_ops P) (e_store e) pfx) = Inr h" using choose_victims_ok by blast
  then show ?thesis by (simp add: decimate_batch_def on_store_def mem_ops)
qed

lemma mem_batches_undeleted: "batches_undeleted (mem_store_ops P) r bs e = 0"
proof (induction bs arbitrary: e)
  case (Cons b bs)
  obtain e' where "decimate_batch (mem_store_ops P) r (snd b) e = (e', Inr ())" using mem_delete_batch by blast
  then show ?case using Cons.IH by (cases b) simp
qed simp

lemma mem_undeleted: "undeleted (mem_store_ops P) draws e = 0"
  by (simp add: undeleted_def decimation_undeleted_def mem_batches_undeleted Let_def split: prod.splits sum.splits)

lemma mem_store_new_short:
  assumes "Environment_new (mem_store_ops P) mem_store_new dims = Inr e" "\<forall>m. dec P (enc P m) = Some m"
  shows "env_short (mem_store_ops P) (mem_ok P) 0 e"
  using assms
  by (auto simp: Environment_new_def config_get_usize_def mem_ops mem_store_new_def env_short_def short_by_def mem_ok_def
      stored_size_def stored_ids_def)

lemma mem_run_short:
  assumes "Environment_new (mem_store_ops P) mem_store_new dims = Inr e0" "counted_run (mem_store_ops P) (=) e0 d e" "\<forall>m. dec P (enc P m) = Some m"
  shows "env_short (mem_store_ops P) (mem_ok P) d e"
  using mem.counted_run_short[OF assms(2) mem_store_new_short[OF assms(1,3)]] by (simp add: same_metadata_def)

text \<open>C8: After any calls from an empty in-memory store, whatever their results, the byte counter that triggers decimation is the total
  of the stored metadata sizes less \<open>d\<close>, modulo \<open>2^64\<close>, where \<open>d\<close> adds up, over the writes of metadata, by how much each enlarged the
  stored size beyond the bytes it declared. Maintenance and decimation add nothing to it. So the counter is exact as long as every
  write declares its growth, as claims and commits do; a heal commit declares nothing.\<close>

theorem environment_accounting:
  assumes "Environment_new (mem_store_ops P) mem_store_new dims = Inr e0" "counted_run (mem_store_ops P) (=) e0 d e"
    and "\<forall>m. dec P (enc P m) = Some m"
  shows "int (e_size e) = (int (stored_size (mem_store_ops P) (e_store e)) - d) mod 2 ^ 64 \<and> undeleted (mem_store_ops P) draws e = 0"
  using short_counter[OF mem_run_short[OF assms]] mem_undeleted by blast

fun read_unary :: "bytes \<Rightarrow> nat \<times> bytes" where
  "read_unary [] = (0, [])"
| "read_unary (b # bs) = (if b = 0 then let (n, rest) = read_unary bs in (Suc n, rest) else (0, bs))"

definition toy_metadata_codec :: "post_bundle_metadata codec" where
  "toy_metadata_codec = \<lparr>enc = (\<lambda>m. replicate (pm_size m) 0 @ [1] @ replicate (pm_num_posts m) 0 @ [1]
       @ replicate (pm_num_posts_granted m) 0 @ [1, if pm_overflowed m then 1 else 0, if pm_sealed m then 1 else 0]),
     dec = (\<lambda>bs. case read_unary bs of (a, r1) \<Rightarrow> case read_unary r1 of (b, r2) \<Rightarrow> case read_unary r2 of (c, r3) \<Rightarrow>
        Some \<lparr>pm_size = a, pm_num_posts = b, pm_num_posts_granted = c,
              pm_overflowed = (r3 ! 0 = 1), pm_sealed = (r3 ! 1 = 1)\<rparr>)\<rparr>"

lemma read_unary_replicate [simp]: "read_unary (replicate n 0 @ 1 # xs) = (n, xs)"
  by (induction n) auto

lemma toy_metadata_codec_law: "dec toy_metadata_codec (enc toy_metadata_codec m) = Some m"
  by (cases m) (simp add: toy_metadata_codec_def)

text \<open>Two writes, of which the second declares less than it adds.\<close>

theorem environment_accounting_witness:
  "let P = toy_metadata_codec; m = (\<lambda>n. PostBundleMetadata_zero\<lparr>pm_size := n\<rparr>);
     e0 = \<lparr>e_dimensions = EnvironmentDimensions_default, e_store = mem_store_new, e_touched = [], e_size = 0\<rparr>;
     e1 = fst (put_post_bundle_metadata (mem_store_ops P) 5 Id_zero (m 7) 7 e0);
     e2 = fst (put_post_bundle_metadata (mem_store_ops P) 6 Id_zero (m 12) 0 e1)
   in counted_run (mem_store_ops P) (=) e0 5 e2 \<and> e_size e2 = 7
      \<and> int (e_size e2) = (int (stored_size (mem_store_ops P) (e_store e2)) - 5) mod 2 ^ 64"
proof -
  let ?P = toy_metadata_codec and ?S = "mem_store_ops toy_metadata_codec" and ?m = "\<lambda>n. PostBundleMetadata_zero\<lparr>pm_size := n\<rparr>"
  let ?e0 = "\<lparr>e_dimensions = EnvironmentDimensions_default, e_store = mem_store_new, e_touched = [], e_size = 0\<rparr>"
  obtain e1 where e1: "put_post_bundle_metadata ?S 5 Id_zero (?m 7) 7 ?e0 = (e1, Inr ())" "e_size e1 = 7"
      "so_metadata_get ?S (e_store e1) Id_zero = Inr (Some (?m 7))"
    by (simp add: put_post_bundle_metadata_def on_store_def mem_ops touch_def fetch_add_def update_conv' toy_metadata_codec_law)
  obtain e2 where e2: "put_post_bundle_metadata ?S 6 Id_zero (?m 12) 0 e1 = (e2, Inr ())" "e_size e2 = 7"
    using e1(2) by (simp add: put_post_bundle_metadata_def on_store_def mem_ops touch_def fetch_add_def)
  have new: "Environment_new ?S mem_store_new EnvironmentDimensions_default = Inr ?e0"
    by (simp add: Environment_new_def config_get_usize_def mem_ops mem_store_new_def)
  have none: "stored_size_of ?S (e_store ?e0) Id_zero = 0" by (simp add: stored_size_of_def mem_ops mem_store_new_def)
  have old: "stored_size_of ?S (e_store e1) Id_zero = 7" using e1(3) by (simp add: stored_size_of_def)
  have r1: "counted_run ?S (=) ?e0 0 e1" using counted_run.store_metadata[OF counted_run.start e1(1), of "(=)"] none by simp
  have run: "counted_run ?S (=) ?e0 5 e2" using counted_run.store_metadata[OF r1 e2(1)] old by simp
  from environment_accounting[OF new run] toy_metadata_codec_law
  have "int (e_size e2) = (int (stored_size ?S (e_store e2)) - 5) mod 2 ^ 64" by blast
  with run e1 e2 show ?thesis by (simp add: Let_def)
qed


lemma mem_config_roundtrip:
  "v < 2 ^ 64 \<Longrightarrow> on_store (config_put_usize (mem_store_ops P) key v) e = (e', Inr ()) \<Longrightarrow>
   config_get_usize (mem_store_ops P) (e_store e') key = Inr (Some v)"
  by (auto simp: on_store_Inr config_put_usize_def config_get_usize_def mem_ops update_conv')

lemma flush_size_mem:
  assumes "e_size e < 2 ^ 64"
  shows "e_size (flush_size (mem_store_ops P) e) = e_size e"
    "e_touched (flush_size (mem_store_ops P) e) = e_touched e"
    "config_get_usize (mem_store_ops P) (e_store (flush_size (mem_store_ops P) e)) CONFIG_POST_BUNDLE_CURRENT_SIZE_BYTES = Inr (Some (e_size e))"
  using assms
  by (auto simp: flush_size_def on_store_def config_put_usize_def config_get_usize_def mem_ops update_conv')

lemma fold_kill_touched: "e_touched e = [] \<Longrightarrow> e_touched (fold (kill_victim S) ids e) = []"
  by (induction ids arbitrary: e) (simp_all add: kill_victim_def)

lemma decimate_batches_touched:
  "e_touched e = [] \<Longrightarrow> decimate_batches S r bs e = (e', Inr ()) \<Longrightarrow> e_touched e' = []"
proof (induction bs arbitrary: e)
  case (Cons b bs)
  show ?case
  proof (cases "fst b")
    case False
    then obtain e1 where e1: "decimate_batch S r (snd b) e = (e1, Inr ())" "decimate_batches S r bs e1 = (e', Inr ())"
      using Cons.prems(2) by (cases b) (auto split: prod.splits sum.splits)
    have "e_touched e1 = []"
      using e1(1) Cons.prems(1) fold_kill_touched[of e S]
      by (auto simp: decimate_batch_def Let_def on_store_Inr split: sum.splits)
    then show ?thesis using Cons.IH e1(2) by blast
  qed (use Cons.prems in \<open>cases b, simp\<close>)
qed simp

lemma do_decimation_persists:
  assumes "env_short (mem_store_ops P) (mem_ok P) d e" "e_touched e = []"
    and "do_decimation (mem_store_ops P) draws q mq e = (e', Inr ())"
  shows "e_touched e' = [] \<and> config_get_usize (mem_store_ops P) (e_store e') CONFIG_POST_BUNDLE_CURRENT_SIZE_BYTES = Inr (Some (e_size e'))"
proof -
  define c where "c = decimation_count (length (ms_last_accessed (e_store e))) q mq"
  define run where "run = (if 0 \<ge> c then (e, Inr ())
    else decimate_batches (mem_store_ops P) (rows_per_batch c) (map draws [0..<num_batches c]) e)"
  have "do_decimation (mem_store_ops P) draws q mq e = (flush_size (mem_store_ops P) (fst run), snd run)"
    by (simp add: do_decimation_def run_def c_def mem_store_ops_def mem_count_def Let_def case_prod_beta)
  then have e': "e' = flush_size (mem_store_ops P) (fst run)" "snd run = Inr ()" using assms(3) by simp_all
  then have "run = (fst run, Inr ())" by (metis prod.collapse)
  then have "e_size (fst run) < 2 ^ 64" "e_touched (fst run) = []"
    using decimate_batches_touched[OF assms(2)] short_size[OF mem.decimate_batches_short[OF assms(1)]] short_size[OF assms(1)] assms(2)
    unfolding run_def by (auto split: if_splits)
  then show ?thesis unfolding e'(1) using flush_size_mem by metis
qed

text \<open>maintenance makes the counter survive a restart: an environment that is reopened on the store that a successful
  maintenance run left behind, with or without decimation, starts with the counter that the run ended with; and no
  access time is left unflushed.\<close>

theorem maintenance_persists_counter:
  assumes "Environment_new (mem_store_ops P) mem_store_new dims = Inr e0" "counted_run (mem_store_ops P) (=) e0 d e" "\<forall>m. dec P (enc P m) = Some m"
    and "do_maintenance (mem_store_ops P) draws e = (e', Inr ())"
  shows "e_touched e' = [] \<and> rbind (Environment_new (mem_store_ops P) (e_store e') dims') (\<lambda>r. Inr (e_size r)) = Inr (e_size e')"
proof -
  let ?S = "mem_store_ops P"
  have s0: "env_short ?S (mem_ok P) d e" by (rule mem_run_short[OF assms(1-3)])
  obtain e3 where f: "flush_state ?S e = (e3, Inr ())" "e_touched e3 = []" "e_size e3 = e_size e"
      "config_get_usize ?S (e_store e3) CONFIG_POST_BUNDLE_CURRENT_SIZE_BYTES = Inr (Some (e_size e))"
    using short_size[OF s0]
    by (cases "e_touched e = []") (auto simp: flush_state_def on_store_def config_put_usize_def config_get_usize_def mem_ops update_conv')
  note s3 = mem.flush_state_short[OF s0 f(1)]
  have "e' = e3 \<or> (\<exists>q mq. do_decimation ?S draws q mq e3 = (e', Inr ()))"
    using assms(4) f(1) by (auto simp: do_maintenance_def Let_def split: if_splits)
  then have "e_touched e' = [] \<and> config_get_usize ?S (e_store e') CONFIG_POST_BUNDLE_CURRENT_SIZE_BYTES = Inr (Some (e_size e'))"
    using f do_decimation_persists[OF s3 f(2)] by auto
  then show ?thesis by (simp add: Environment_new_def)
qed

theorem maintenance_persists_counter_witness:
  "let S = mem_store_ops toy_metadata_codec;
     e = \<lparr>e_dimensions = EnvironmentDimensions_default, e_store = mem_store_new, e_touched = [], e_size = 0\<rparr>;
     e' = fst (do_maintenance S (\<lambda>n. (False, Id_zero)) e)
   in e_touched e' = [] \<and> rbind (Environment_new S (e_store e') EnvironmentDimensions_default) (\<lambda>r. Inr (e_size r)) = Inr (e_size e')"
proof -
  let ?S = "mem_store_ops toy_metadata_codec"
  let ?e = "\<lparr>e_dimensions = EnvironmentDimensions_default, e_store = mem_store_new, e_touched = [], e_size = 0\<rparr>"
  have new: "Environment_new ?S mem_store_new EnvironmentDimensions_default = Inr ?e"
    by (simp add: Environment_new_def config_get_usize_def mem_ops mem_store_new_def)
  obtain e' where e': "do_maintenance ?S (\<lambda>n. (False, Id_zero)) ?e = (e', Inr ())"
    by (simp add: do_maintenance_def flush_state_def on_store_def mem_ops config_put_usize_def EnvironmentDimensions_default_def)
  from maintenance_persists_counter[OF new counted_run.start _ e'] e' show ?thesis
    using toy_metadata_codec_law by (simp add: Let_def)
qed


section \<open>Votes are kept by strength\<close>

definition stored_vote_pow :: "feedback list \<Rightarrow> id \<Rightarrow> byte \<Rightarrow> pow option" where
  "stored_vote_pow fs i ty = map_option fb_pow (List.find (\<lambda>f. fb_post_id f = i \<and> fb_feedback_type f = ty) fs)"

definition stronger :: "pow option \<Rightarrow> pow \<Rightarrow> pow option" where
  "stronger old new = Some (case old of None \<Rightarrow> new | Some p \<Rightarrow> max p new)"

lemma stored_vote_pow_simps [simp]:
  "stored_vote_pow [] i ty = None"
  "stored_vote_pow (f # fs) i ty =
     (if fb_post_id f = i \<and> fb_feedback_type f = ty then Some (fb_pow f) else stored_vote_pow fs i ty)"
  by (simp_all add: stored_vote_pow_def)

lemma stored_vote_pow_put:
  "stored_vote_pow (put_vote f fs) i ty =
     (if fb_post_id f = i \<and> fb_feedback_type f = ty then stronger (stored_vote_pow fs i ty) (fb_pow f) else stored_vote_pow fs i ty)"
  by (induction fs) (auto simp: stronger_def same_vote_def max_def split: option.splits)

lemma stored_votes_fold:
  "stored_vote_pow (fold put_vote gs fs) i ty =
     fold (\<lambda>g p. if fb_post_id g = i \<and> fb_feedback_type g = ty then stronger p (fb_pow g) else p) gs (stored_vote_pow fs i ty)"
  by (induction gs arbitrary: fs) (simp_all add: stored_vote_pow_put)

text \<open>C34: the votes of a location converge: whatever the order in which the same votes arrive, and whatever was stored
  before, the strength kept for each post and feedback type is the same, and it is never lowered.\<close>

theorem stored_votes_converge:
  assumes "mset gs = mset hs"
  shows "stored_vote_pow (fold put_vote gs fs) = stored_vote_pow (fold put_vote hs fs)
    \<and> (case stored_vote_pow fs i ty of None \<Rightarrow> True | Some p \<Rightarrow>
         (case stored_vote_pow (fold put_vote gs fs) i ty of None \<Rightarrow> False | Some q \<Rightarrow> p \<le> q))"
proof
  let ?up = "\<lambda>i ty g p. if fb_post_id g = i \<and> fb_feedback_type g = ty then stronger p (fb_pow g) else p"
  have "fold (?up i ty) gs p = fold (?up i ty) hs p" for i ty p
  proof (rule fun_cong[OF fold_multiset_equiv[OF _ assms]])
    show "?up i ty x \<circ> ?up i ty y = ?up i ty y \<circ> ?up i ty x" for x y
      by (rule ext) (auto simp: stronger_def max.commute max.left_commute split: option.splits)
  qed
  then show "stored_vote_pow (fold put_vote gs fs) = stored_vote_pow (fold put_vote hs fs)"
    by (intro ext) (simp add: stored_votes_fold)
  have "case p of None \<Rightarrow> True | Some x \<Rightarrow> (case fold (?up i ty) gs p of None \<Rightarrow> False | Some q \<Rightarrow> x \<le> q)" for p
  proof (induction gs arbitrary: p)
    case (Cons g gs)
    show ?case using Cons.IH[of "?up i ty g p"]
      by (cases p) (auto simp: stronger_def split: option.splits if_splits)
  qed (simp split: option.splits)
  then show "case stored_vote_pow fs i ty of None \<Rightarrow> True | Some p \<Rightarrow>
         (case stored_vote_pow (fold put_vote gs fs) i ty of None \<Rightarrow> False | Some q \<Rightarrow> p \<le> q)"
    unfolding stored_votes_fold .
qed


text \<open>What happens to the counter when a bundle grew by bytes that were not declared.\<close>

lemma kill_victim_underflow:
  assumes "so_metadata_get S (e_store e) i = Inr (Some m)" "e_size e < pm_size m" "pm_size m < 2 ^ 64"
  shows "e_size (kill_victim S i e) = 2 ^ 64 - (pm_size m - e_size e)"
  using assms by (simp add: kill_victim_def fetch_sub_def)

end
