(* ===== verification/Caching.thy ===== *)
theory Caching
  imports Payload "HOL-Library.AList"
begin

text \<open>
  \<open>server/post_bundle_caching.rs\<close>, \<open>post_bundle_feedback_caching.rs\<close> and \<open>post_bundle_caching_shared.rs\<close>: the caches that
  an intermediate server keeps of bundles it does not own. A \<open>moka\<close> cache may drop an entry at any time (idle time,
  capacity): every operation takes the set of ids that the library has dropped before it. The \<open>inflight\<close> cache
  has no capacity and a documented time to live, so it is the list of insertion times. A \<open>HashMap\<close> is its list of
  entries in iteration order. A hit count is a \<open>u32\<close> whose overflow panics. A read decides under the lock of its entry whether a token
  is due, and issues it after that lock is released: the two are definitions of their own, composed in \<open>pbc_on_get\<close> and
  \<open>pfc_on_get\<close>, and interleaved with those of other reads in \<open>cache_life\<close>.
\<close>

definition CACHE_HIT_THRESHOLD :: nat where "CACHE_HIT_THRESHOLD = 10"
definition CACHE_REQUEST_TOKEN_TTL_DURATION_MILLIS :: duration_millis where
  "CACHE_REQUEST_TOKEN_TTL_DURATION_MILLIS = const_mul MILLIS_IN_SECOND 30"
definition POST_BUNDLE_PLACEHOLDER_WEIGHT :: nat where "POST_BUNDLE_PLACEHOLDER_WEIGHT = 4 * 1024 * 1024"
definition POST_BUNDLE_FEEDBACK_PLACEHOLDER_WEIGHT :: nat where "POST_BUNDLE_FEEDBACK_PLACEHOLDER_WEIGHT = 8 * 1024"

record cached_bundle =
  ca_bytes :: bytes
  ca_expires_at :: "time_millis option"

definition is_stale :: "cached_bundle \<Rightarrow> time_millis \<Rightarrow> bool" where
  "is_stale b now = (case ca_expires_at b of None \<Rightarrow> False | Some t \<Rightarrow> now \<ge> t)"

record get_cache_result =
  gc_cached_items :: "bytes list"
  gc_cache_request_token :: "cache_request_token option"

text \<open>The set of ids with a token on its way, with the time of issue.\<close>

type_synonym inflight = "(id \<times> time_millis) list"

definition inflight_contains :: "inflight \<Rightarrow> id \<Rightarrow> time_millis \<Rightarrow> bool" where
  "inflight_contains fl i now = (case map_of fl i of None \<Rightarrow> False
     | Some t \<Rightarrow> now < t + CACHE_REQUEST_TOKEN_TTL_DURATION_MILLIS)"

definition cached_expiry :: "bool \<Rightarrow> time_millis \<Rightarrow> time_millis option" where
  "cached_expiry is_sealed server_time =
     (if is_sealed then None else Some (time_add_dur server_time (const_mul MILLIS_IN_MINUTE 5)))"

definition alive :: "(id \<Rightarrow> bool) \<Rightarrow> (id \<times> 'v) list \<Rightarrow> (id \<times> 'v) list" where
  "alive evicted xs = List.filter (\<lambda>(i, v). \<not> evicted i) xs"

section \<open>Post bundles: several originators per location\<close>

record bundle_location_entry =
  le_bundles :: "(id \<times> cached_bundle) list"
  le_hit_count :: nat

definition bundle_entry_placeholder :: bundle_location_entry where
  "bundle_entry_placeholder = \<lparr>le_bundles = [], le_hit_count = 0\<rparr>"

definition bundle_entry_weight :: "bundle_location_entry \<Rightarrow> nat" where
  "bundle_entry_weight e = (let w = sum_list (map (\<lambda>(i, b). length (ca_bytes b)) (le_bundles e)) in
     if w = 0 then POST_BUNDLE_PLACEHOLDER_WEIGHT else w)"

record post_bundle_cache =
  pbc_max_originators_per_location :: nat
  pbc_bundles :: "(id \<times> bundle_location_entry) list"
  pbc_inflight :: inflight

text \<open>A read has two parts. The first runs under the lock of the location's entry: it counts the hit, collects what can be served and
  decides whether a token is due. The second, after the lock is released, enters the location into the set of tokens on their way, at
  the time of the cache's clock, and makes the token. \<open>now\<close> is the time the caller passes.\<close>

definition issue_token :: "crypto \<Rightarrow> bool \<Rightarrow> bucket_location \<Rightarrow> id list \<Rightarrow> peer \<Rightarrow> signature_key \<Rightarrow> time_millis \<Rightarrow> time_millis \<Rightarrow> inflight
    \<Rightarrow> cache_request_token option \<times> inflight" where
  "issue_token C should_issue b cached_ids peer_self sk now clock fl =
     (if should_issue
      then (Some (cache_token_new C peer_self b (time_add_dur now CACHE_REQUEST_TOKEN_TTL_DURATION_MILLIS) cached_ids sk),
            AList.update (bl_location_id b) clock fl)
      else (None, fl))"

record cache_look =
  cl_cached_items :: "bytes list"
  cl_cached_ids :: "id list"
  cl_should_issue :: bool

definition pbc_look :: "(id \<Rightarrow> bool) \<Rightarrow> bucket_location \<Rightarrow> id list \<Rightarrow> time_millis \<Rightarrow> time_millis
    \<Rightarrow> post_bundle_cache \<Rightarrow> (cache_look \<times> post_bundle_cache) res" where
  "pbc_look evicted b already_retrieved now clock c =
     (let loc = bl_location_id b;
          bundles = alive evicted (pbc_bundles c);
          entry = (case map_of bundles loc of None \<Rightarrow> bundle_entry_placeholder | Some e \<Rightarrow> e)
      in if le_hit_count entry + 1 \<ge> 2 ^ 32 then Inl (Panic ''attempt to add with overflow'') else
      let entry' = entry\<lparr>le_hit_count := le_hit_count entry + 1\<rparr>;
          cached_items = map (\<lambda>(i, cb). ca_bytes cb)
            (List.filter (\<lambda>(i, cb). i \<notin> set already_retrieved \<and> \<not> is_stale cb now) (le_bundles entry'));
          cached_ids = map fst (le_bundles entry');
          should_issue = (le_hit_count entry' \<ge> CACHE_HIT_THRESHOLD \<and> \<not> inflight_contains (pbc_inflight c) loc clock)
      in Inr (\<lparr>cl_cached_items = cached_items, cl_cached_ids = cached_ids, cl_should_issue = should_issue\<rparr>,
              c\<lparr>pbc_bundles := AList.update loc entry' bundles\<rparr>))"

text \<open>A read that no other call interrupts.\<close>

definition pbc_on_get :: "crypto \<Rightarrow> (id \<Rightarrow> bool) \<Rightarrow> bucket_location \<Rightarrow> id list \<Rightarrow> peer \<Rightarrow> signature_key \<Rightarrow> time_millis
    \<Rightarrow> post_bundle_cache \<Rightarrow> (get_cache_result \<times> post_bundle_cache) res" where
  "pbc_on_get C evicted b already_retrieved peer_self sk now c =
     rbind (pbc_look evicted b already_retrieved now now c) (\<lambda>(l, c1).
       case issue_token C (cl_should_issue l) b (cl_cached_ids l) peer_self sk now now (pbc_inflight c1) of (token, fl) \<Rightarrow>
         Inr (\<lparr>gc_cached_items = cl_cached_items l, gc_cache_request_token = token\<rparr>, c1\<lparr>pbc_inflight := fl\<rparr>))"

text \<open>The entry to evict is the least by agreement with the location, then by expiry.\<close>

definition evict_rank :: "id \<Rightarrow> id \<times> cached_bundle \<Rightarrow> nat \<times> int" where
  "evict_rank loc e = (leading_agreement_bits_xor (id_bytes (fst e)) (id_bytes loc),
     case ca_expires_at (snd e) of None \<Rightarrow> I64_MAX | Some t \<Rightarrow> t)"

definition rank_le :: "nat \<times> int \<Rightarrow> nat \<times> int \<Rightarrow> bool" where
  "rank_le a b \<longleftrightarrow> fst a < fst b \<or> (fst a = fst b \<and> snd a \<le> snd b)"

fun min_by_rank :: "id \<Rightarrow> (id \<times> cached_bundle) list \<Rightarrow> id option" where
  "min_by_rank loc [] = None"
| "min_by_rank loc [e] = Some (fst e)"
| "min_by_rank loc (e1 # e2 # es) =
     (if rank_le (evict_rank loc e1) (evict_rank loc e2) then min_by_rank loc (e1 # es) else min_by_rank loc (e2 # es))"

function evict_worst :: "nat \<Rightarrow> id \<Rightarrow> (id \<times> cached_bundle) list \<Rightarrow> (id \<times> cached_bundle) list" where
  "evict_worst max_originators loc es =
     (if length es > max_originators then
        (case min_by_rank loc es of
           Some k \<Rightarrow> if k \<in> fst ` set es then evict_worst max_originators loc (AList.delete k es) else es
         | None \<Rightarrow> es)
      else es)"
  by pat_completeness auto
termination
proof (relation "measure (\<lambda>(m, loc, es). length es)", goal_cases)
  case (2 m loc es k)
  then obtain e where "e \<in> set es" "fst e = k" by auto
  then have "length (AList.delete k es) < length es"
    by (auto simp: AList.delete_eq intro!: length_filter_less)
  then show ?case by simp
qed simp

declare evict_worst.simps [simp del]

definition pbc_on_upload :: "(id \<Rightarrow> bool) \<Rightarrow> id \<Rightarrow> id \<Rightarrow> bytes \<Rightarrow> time_millis \<Rightarrow> bool \<Rightarrow> post_bundle_cache \<Rightarrow> bool \<times> post_bundle_cache" where
  "pbc_on_upload evicted loc originator bundle_bytes server_time is_sealed c =
     (let bundles = alive evicted (pbc_bundles c) in
      case map_of bundles loc of
        None \<Rightarrow> (False, c\<lparr>pbc_bundles := bundles\<rparr>)
      | Some entry \<Rightarrow>
          let b = \<lparr>ca_bytes = bundle_bytes, ca_expires_at = cached_expiry is_sealed server_time\<rparr>;
              es = evict_worst (pbc_max_originators_per_location c) loc (AList.update originator b (le_bundles entry))
          in (originator \<in> fst ` set es,
              c\<lparr>pbc_bundles := AList.update loc (entry\<lparr>le_bundles := es\<rparr>) bundles\<rparr>))"


section \<open>Feedback: one merged bundle per location\<close>

record feedback_location_entry =
  lf_bundle :: "(id \<times> cached_bundle) option"
  lf_hit_count :: nat

definition feedback_entry_placeholder :: feedback_location_entry where
  "feedback_entry_placeholder = \<lparr>lf_bundle = None, lf_hit_count = 0\<rparr>"

definition feedback_entry_weight :: "feedback_location_entry \<Rightarrow> nat" where
  "feedback_entry_weight e = (case lf_bundle e of Some (i, b) \<Rightarrow> length (ca_bytes b) | None \<Rightarrow> POST_BUNDLE_FEEDBACK_PLACEHOLDER_WEIGHT)"

record post_bundle_feedback_cache =
  pfc_bundles :: "(id \<times> feedback_location_entry) list"
  pfc_inflight :: inflight

definition option_list :: "'a option \<Rightarrow> 'a list" where
  "option_list x = (case x of None \<Rightarrow> [] | Some y \<Rightarrow> [y])"

definition pfc_look :: "(id \<Rightarrow> bool) \<Rightarrow> bucket_location \<Rightarrow> id list \<Rightarrow> time_millis \<Rightarrow> time_millis
    \<Rightarrow> post_bundle_feedback_cache \<Rightarrow> (cache_look \<times> post_bundle_feedback_cache) res" where
  "pfc_look evicted b already_retrieved now clock c =
     (let loc = bl_location_id b;
          bundles = alive evicted (pfc_bundles c);
          entry = (case map_of bundles loc of None \<Rightarrow> feedback_entry_placeholder | Some e \<Rightarrow> e)
      in if lf_hit_count entry + 1 \<ge> 2 ^ 32 then Inl (Panic ''attempt to add with overflow'') else
      let entry' = entry\<lparr>lf_hit_count := lf_hit_count entry + 1\<rparr>;
          cached_items = map (\<lambda>(i, cb). ca_bytes cb)
            (List.filter (\<lambda>(i, cb). i \<notin> set already_retrieved \<and> \<not> is_stale cb now) (option_list (lf_bundle entry')));
          cached_ids = map fst (option_list (lf_bundle entry'));
          should_issue = (lf_hit_count entry' \<ge> CACHE_HIT_THRESHOLD \<and> \<not> inflight_contains (pfc_inflight c) loc clock)
      in Inr (\<lparr>cl_cached_items = cached_items, cl_cached_ids = cached_ids, cl_should_issue = should_issue\<rparr>,
              c\<lparr>pfc_bundles := AList.update loc entry' bundles\<rparr>))"

definition pfc_on_get :: "crypto \<Rightarrow> (id \<Rightarrow> bool) \<Rightarrow> bucket_location \<Rightarrow> id list \<Rightarrow> peer \<Rightarrow> signature_key \<Rightarrow> time_millis
    \<Rightarrow> post_bundle_feedback_cache \<Rightarrow> (get_cache_result \<times> post_bundle_feedback_cache) res" where
  "pfc_on_get C evicted b already_retrieved peer_self sk now c =
     rbind (pfc_look evicted b already_retrieved now now c) (\<lambda>(l, c1).
       case issue_token C (cl_should_issue l) b (cl_cached_ids l) peer_self sk now now (pfc_inflight c1) of (token, fl) \<Rightarrow>
         Inr (\<lparr>gc_cached_items = cl_cached_items l, gc_cache_request_token = token\<rparr>, c1\<lparr>pfc_inflight := fl\<rparr>))"

definition pfc_on_upload :: "(id \<Rightarrow> bool) \<Rightarrow> id \<Rightarrow> id \<Rightarrow> bytes \<Rightarrow> time_millis \<Rightarrow> bool \<Rightarrow> post_bundle_feedback_cache
    \<Rightarrow> bool \<times> post_bundle_feedback_cache" where
  "pfc_on_upload evicted loc originator feedback_bytes server_time is_sealed c =
     (let bundles = alive evicted (pfc_bundles c) in
      case map_of bundles loc of
        None \<Rightarrow> (False, c\<lparr>pfc_bundles := bundles\<rparr>)
      | Some entry \<Rightarrow>
          (True, c\<lparr>pfc_bundles := AList.update loc (entry\<lparr>lf_bundle := Some (originator,
             \<lparr>ca_bytes = feedback_bytes, ca_expires_at = cached_expiry is_sealed server_time\<rparr>)\<rparr>) bundles\<rparr>))"


section \<open>Token issue\<close>

text \<open>What a read of either cache that is not interrupted promises to the handlers: the items of a hit are the fresh ones the client
  lacks, and a token is a fresh signed token for the location, given when this cache has none on its way.\<close>

locale bundle_cache =
  fixes on_get :: "crypto \<Rightarrow> (id \<Rightarrow> bool) \<Rightarrow> bucket_location \<Rightarrow> id list \<Rightarrow> peer \<Rightarrow> signature_key \<Rightarrow> time_millis
      \<Rightarrow> 'c \<Rightarrow> (get_cache_result \<times> 'c) res"
    and entries :: "(id \<Rightarrow> bool) \<Rightarrow> 'c \<Rightarrow> id \<Rightarrow> (id \<times> cached_bundle) list"
    and hits :: "(id \<Rightarrow> bool) \<Rightarrow> 'c \<Rightarrow> id \<Rightarrow> nat"
    and flying :: "'c \<Rightarrow> inflight"
  assumes items: "on_get C ev b already p sk now c = Inr (r, c') \<Longrightarrow> gc_cached_items r =
      map (\<lambda>(i, cb). ca_bytes cb) (List.filter (\<lambda>(i, cb). i \<notin> set already \<and> \<not> is_stale cb now) (entries ev c (bl_location_id b)))"
    and token: "on_get C ev b already p sk now c = Inr (r, c') \<Longrightarrow>
      (gc_cache_request_token r, flying c') =
        issue_token C (hits ev c (bl_location_id b) + 1 \<ge> CACHE_HIT_THRESHOLD \<and> \<not> inflight_contains (flying c) (bl_location_id b) now)
          b (map fst (entries ev c (bl_location_id b))) p sk now now (flying c)"
begin

lemma token_shape:
  assumes "on_get C ev b already p sk now c = Inr (r, c')" "gc_cache_request_token r = Some t"
  shows "t = cache_token_new C p b (time_add_dur now CACHE_REQUEST_TOKEN_TTL_DURATION_MILLIS) (map fst (entries ev c (bl_location_id b))) sk"
    "CACHE_HIT_THRESHOLD \<le> hits ev c (bl_location_id b) + 1"
    "inflight_contains (flying c') (bl_location_id b) now' \<longleftrightarrow> now' < now + CACHE_REQUEST_TOKEN_TTL_DURATION_MILLIS"
  using token[OF assms(1)] assms(2)
  by (auto simp: issue_token_def inflight_contains_def update_conv' split: if_splits)

lemma no_token_while_flying:
  assumes "on_get C ev b already p sk now c = Inr (r, c')" "inflight_contains (flying c) (bl_location_id b) now"
  shows "gc_cache_request_token r = None \<and> flying c' = flying c"
  using token[OF assms(1)] assms(2) by (simp add: issue_token_def)

lemma issued_token_accepted:
  assumes "on_get C ev b already p sk now c = Inr (r, c')" "gc_cache_request_token r = Some t"
    and "key_pair_ok C (signature_key_bytes sk) (vkb_bytes (p_verification_key_bytes p))"
    and "Peer_verify C p = Inr ()" "BucketLocation_validate C b = Inr ()"
  shows "cache_token_verify C t = Inr ()"
  unfolding token_shape(1)[OF assms(1,2)]
  using assms(3-5) by (intro cache_token.signed_verifies) (simp_all add: cache_token_new_def)

end

definition pbc_entries :: "(id \<Rightarrow> bool) \<Rightarrow> post_bundle_cache \<Rightarrow> id \<Rightarrow> (id \<times> cached_bundle) list" where
  "pbc_entries ev c i = (case map_of (alive ev (pbc_bundles c)) i of None \<Rightarrow> [] | Some e \<Rightarrow> le_bundles e)"

definition pbc_hits :: "(id \<Rightarrow> bool) \<Rightarrow> post_bundle_cache \<Rightarrow> id \<Rightarrow> nat" where
  "pbc_hits ev c i = (case map_of (alive ev (pbc_bundles c)) i of None \<Rightarrow> 0 | Some e \<Rightarrow> le_hit_count e)"

definition pfc_entries :: "(id \<Rightarrow> bool) \<Rightarrow> post_bundle_feedback_cache \<Rightarrow> id \<Rightarrow> (id \<times> cached_bundle) list" where
  "pfc_entries ev c i = (case map_of (alive ev (pfc_bundles c)) i of None \<Rightarrow> [] | Some e \<Rightarrow> option_list (lf_bundle e))"

definition pfc_hits :: "(id \<Rightarrow> bool) \<Rightarrow> post_bundle_feedback_cache \<Rightarrow> id \<Rightarrow> nat" where
  "pfc_hits ev c i = (case map_of (alive ev (pfc_bundles c)) i of None \<Rightarrow> 0 | Some e \<Rightarrow> lf_hit_count e)"

interpretation pbc: bundle_cache pbc_on_get pbc_entries pbc_hits pbc_inflight
  by unfold_locales
    (auto simp: pbc_on_get_def pbc_look_def pbc_entries_def pbc_hits_def Let_def bundle_entry_placeholder_def
      split: if_splits option.splits prod.splits)

interpretation pfc: bundle_cache pfc_on_get pfc_entries pfc_hits pfc_inflight
  by unfold_locales
    (auto simp: pfc_on_get_def pfc_look_def pfc_entries_def pfc_hits_def Let_def feedback_entry_placeholder_def option_list_def
      split: if_splits option.splits prod.splits)



section \<open>Reads that overlap\<close>

text \<open>Everything that can happen to the cache of post bundles as its clock advances: reads begin, any of the begun ones ends, bundles
  are uploaded. The ghost fields tell how many tokens the cache had issued when a read decided.\<close>

record pending_read =
  pr_bucket_location :: bucket_location
  pr_look :: cache_look
  pr_now :: time_millis
  pr_decided :: time_millis
  pr_issued_before :: nat

record issued_token =
  it_token :: cache_request_token
  it_location :: id
  it_decided :: time_millis
  it_issued_before :: nat
  it_issued :: time_millis

definition issued_by :: "pending_read \<Rightarrow> time_millis \<Rightarrow> cache_request_token option \<Rightarrow> issued_token list" where
  "issued_by r clock token = (case token of None \<Rightarrow> []
     | Some t \<Rightarrow> [\<lparr>it_token = t, it_location = bl_location_id (pr_bucket_location r), it_decided = pr_decided r,
                   it_issued_before = pr_issued_before r, it_issued = clock\<rparr>])"

inductive cache_life :: "crypto \<Rightarrow> post_bundle_cache \<Rightarrow> time_millis \<Rightarrow> post_bundle_cache \<Rightarrow> pending_read list \<Rightarrow> issued_token list \<Rightarrow> bool"
  for C c0 where
  life_start: "cache_life C c0 t c0 [] []"
| life_look: "cache_life C c0 t c rs xs \<Longrightarrow> t \<le> t' \<Longrightarrow> pbc_look ev b already now t' c = Inr (l, c')
    \<Longrightarrow> cache_life C c0 t' c' (\<lparr>pr_bucket_location = b, pr_look = l, pr_now = now, pr_decided = t', pr_issued_before = length xs\<rparr> # rs) xs"
| life_issue: "cache_life C c0 t c rs xs \<Longrightarrow> t \<le> t' \<Longrightarrow> r \<in> set rs
    \<Longrightarrow> issue_token C (cl_should_issue (pr_look r)) (pr_bucket_location r) (cl_cached_ids (pr_look r)) p sk (pr_now r) t' (pbc_inflight c) = (token, fl)
    \<Longrightarrow> cache_life C c0 t' (c\<lparr>pbc_inflight := fl\<rparr>) (remove1 r rs) (xs @ issued_by r t' token)"
| life_upload: "cache_life C c0 t c rs xs \<Longrightarrow> t \<le> t' \<Longrightarrow> pbc_on_upload ev loc originator bs st sealed c = (res, c')
    \<Longrightarrow> cache_life C c0 t' c' rs xs"

lemma life_get:
  assumes "cache_life C c0 t c [] xs" "t \<le> now" "pbc_on_get C ev b already p sk now c = Inr (r, c')"
  shows "\<exists>xs'. cache_life C c0 now c' [] xs'"
proof -
  obtain l c1 token fl where l: "pbc_look ev b already now now c = Inr (l, c1)"
    "issue_token C (cl_should_issue l) b (cl_cached_ids l) p sk now now (pbc_inflight c1) = (token, fl)" "c' = c1\<lparr>pbc_inflight := fl\<rparr>"
    using assms(3) by (cases "pbc_look ev b already now now c") (auto simp: pbc_on_get_def split: prod.splits)
  from life_issue[OF life_look[OF assms(1,2) l(1)] order_refl list.set_intros(1), of p sk token fl] l(2)
  show ?thesis unfolding l(3) by auto
qed

text \<open>What a read found when it decided: a token that this cache had issued for the location kept it from another for thirty seconds.\<close>

definition apart :: "issued_token list \<Rightarrow> nat \<Rightarrow> id \<Rightarrow> time_millis \<Rightarrow> bool" where
  "apart xs n loc decided = list_all (\<lambda>x. it_location x = loc \<longrightarrow> it_issued x + CACHE_REQUEST_TOKEN_TTL_DURATION_MILLIS \<le> decided) (take n xs)"

definition life_ok :: "post_bundle_cache \<Rightarrow> pending_read list \<Rightarrow> issued_token list \<Rightarrow> time_millis \<Rightarrow> bool" where
  "life_ok c rs xs t \<longleftrightarrow>
     list_all (\<lambda>x. it_issued x \<le> t \<and> (\<exists>s. map_of (pbc_inflight c) (it_location x) = Some s \<and> it_issued x \<le> s)) xs
     \<and> list_all (\<lambda>r. pr_issued_before r \<le> length xs \<and> (cl_should_issue (pr_look r)
         \<longrightarrow> apart xs (pr_issued_before r) (bl_location_id (pr_bucket_location r)) (pr_decided r))) rs
     \<and> (\<forall>k < length xs. it_issued_before (xs ! k) \<le> k \<and> apart xs (it_issued_before (xs ! k)) (it_location (xs ! k)) (it_decided (xs ! k)))"

lemma apart_append: "n \<le> length xs \<Longrightarrow> apart (xs @ ys) n loc d = apart xs n loc d"
  by (simp add: apart_def)

lemma on_upload_inflight: "pbc_on_upload ev loc originator bs st sealed c = (res, c') \<Longrightarrow> pbc_inflight c' = pbc_inflight c"
  by (auto simp: pbc_on_upload_def Let_def split: option.splits)

lemma look_decides:
  assumes "pbc_look ev b already now t c = Inr (l, c')"
  shows "pbc_inflight c' = pbc_inflight c"
    "cl_should_issue l \<Longrightarrow> \<not> inflight_contains (pbc_inflight c) (bl_location_id b) t"
  using assms by (auto simp: pbc_look_def Let_def split: if_splits)

lemma life_ok_look:
  assumes "life_ok c rs xs t" "t \<le> t'" "pbc_look ev b already now t' c = Inr (l, c')"
  shows "life_ok c' (\<lparr>pr_bucket_location = b, pr_look = l, pr_now = now, pr_decided = t', pr_issued_before = length xs\<rparr> # rs) xs t'"
proof -
  note l = look_decides[OF assms(3)]
  have "apart xs (length xs) (bl_location_id b) t'" if "cl_should_issue l"
    unfolding apart_def list_all_iff
  proof (intro ballI impI)
    fix x assume "x \<in> set (take (length xs) xs)" "it_location x = bl_location_id b"
    then obtain s where "map_of (pbc_inflight c) (bl_location_id b) = Some s" "it_issued x \<le> s"
      using assms(1) by (auto simp: life_ok_def list_all_iff)
    then show "it_issued x + CACHE_REQUEST_TOKEN_TTL_DURATION_MILLIS \<le> t'" using l(2)[OF that] by (simp add: inflight_contains_def)
  qed
  then show ?thesis using assms(1,2) l(1) by (auto simp: life_ok_def list_all_iff)
qed

lemma life_ok_issue:
  assumes "life_ok c rs xs t" "t \<le> t'" "r \<in> set rs"
    and "issue_token C (cl_should_issue (pr_look r)) (pr_bucket_location r) (cl_cached_ids (pr_look r)) p sk (pr_now r) t' (pbc_inflight c) = (token, fl)"
  shows "life_ok (c\<lparr>pbc_inflight := fl\<rparr>) (remove1 r rs) (xs @ issued_by r t' token) t'"
proof (cases "cl_should_issue (pr_look r)")
  case False
  then have "token = None" "fl = pbc_inflight c" using assms(4) by (simp_all add: issue_token_def)
  then show ?thesis using assms(1,2) set_remove1_subset[of r rs] by (fastforce simp: life_ok_def list_all_iff issued_by_def)
next
  case True
  let ?loc = "bl_location_id (pr_bucket_location r)"
  obtain tk where tk: "token = Some tk" "fl = AList.update ?loc t' (pbc_inflight c)"
    using assms(4) True by (auto simp: issue_token_def)
  define x where "x = \<lparr>it_token = tk, it_location = ?loc, it_decided = pr_decided r, it_issued_before = pr_issued_before r, it_issued = t'\<rparr>"
  have new: "xs @ issued_by r t' token = xs @ [x]" by (simp add: issued_by_def tk(1) x_def)
  have r: "pr_issued_before r \<le> length xs" "apart xs (pr_issued_before r) ?loc (pr_decided r)"
    using assms(1,3) True by (auto simp: life_ok_def list_all_iff)
  have fly: "list_all (\<lambda>y. it_issued y \<le> t' \<and> (\<exists>s. map_of fl (it_location y) = Some s \<and> it_issued y \<le> s)) (xs @ [x])"
    using assms(1,2) by (auto simp: life_ok_def list_all_iff tk(2) update_conv' x_def)
  have pend: "list_all (\<lambda>q. pr_issued_before q \<le> length (xs @ [x]) \<and> (cl_should_issue (pr_look q)
      \<longrightarrow> apart (xs @ [x]) (pr_issued_before q) (bl_location_id (pr_bucket_location q)) (pr_decided q))) (remove1 r rs)"
    using assms(1) set_remove1_subset[of r rs] by (fastforce simp: life_ok_def list_all_iff apart_append)
  have "it_issued_before ((xs @ [x]) ! k) \<le> k
      \<and> apart (xs @ [x]) (it_issued_before ((xs @ [x]) ! k)) (it_location ((xs @ [x]) ! k)) (it_decided ((xs @ [x]) ! k))"
    if "k < length (xs @ [x])" for k
  proof (cases "k < length xs")
    case True
    then have "it_issued_before (xs ! k) \<le> k" "apart xs (it_issued_before (xs ! k)) (it_location (xs ! k)) (it_decided (xs ! k))"
      using assms(1) by (simp_all add: life_ok_def)
    then show ?thesis using True by (simp add: nth_append apart_append)
  next
    case False
    then have "k = length xs" using that by simp
    then show ?thesis using r by (simp add: apart_append x_def)
  qed
  then show ?thesis using fly pend unfolding new life_ok_def by simp
qed

lemma cache_life_ok: "cache_life C c0 t c rs xs \<Longrightarrow> life_ok c rs xs t"
proof (induction rule: cache_life.induct)
  case (life_upload t c rs xs t' ev loc originator bs st sealed res c')
  then show ?case using on_upload_inflight[OF life_upload.hyps(3)] by (fastforce simp: life_ok_def list_all_iff)
qed (simp add: life_ok_def, blast intro: life_ok_look, blast intro: life_ok_issue)

text \<open>C28: However reads and uploads of the cache of post bundles interleave, a read that takes its decision after this cache has put a
  token for the location on its way, and gets one too, decided at least thirty seconds later. Reads that decide before the token of another
  is entered are not held back.\<close>

theorem cache_tokens_thirty_seconds_apart:
  assumes "cache_life C c0 t c rs xs" "j < it_issued_before (xs ! k)" "k < length xs" "it_location (xs ! j) = it_location (xs ! k)"
  shows "j < k \<and> it_issued (xs ! j) + CACHE_REQUEST_TOKEN_TTL_DURATION_MILLIS \<le> it_decided (xs ! k)"
proof -
  have k: "it_issued_before (xs ! k) \<le> k" "apart xs (it_issued_before (xs ! k)) (it_location (xs ! k)) (it_decided (xs ! k))"
    using cache_life_ok[OF assms(1)] assms(3) by (simp_all add: life_ok_def)
  have "xs ! j \<in> set (take (it_issued_before (xs ! k)) xs)"
    using assms(2,3) k(1) by (auto simp: in_set_conv_nth intro!: exI[of _ j])
  then show ?thesis using k assms(2,4) by (auto simp: apart_def list_all_iff)
qed

section \<open>What an upload keeps\<close>

lemma min_by_rank_Some: "es \<noteq> [] \<Longrightarrow> \<exists>e \<in> set es. min_by_rank loc es = Some (fst e) \<and> (\<forall>x \<in> set es. rank_le (evict_rank loc e) (evict_rank loc x))"
proof (induction loc es rule: min_by_rank.induct)
  case (3 loc e1 e2 es)
  show ?case
  proof (cases "rank_le (evict_rank loc e1) (evict_rank loc e2)")
    case True
    with 3(1) obtain e where "e \<in> set (e1 # es)" "min_by_rank loc (e1 # es) = Some (fst e)"
      "\<forall>x \<in> set (e1 # es). rank_le (evict_rank loc e) (evict_rank loc x)" by blast
    with True show ?thesis by (intro bexI[of _ e]) (auto simp: rank_le_def)
  next
    case False
    with 3(2) obtain e where "e \<in> set (e2 # es)" "min_by_rank loc (e2 # es) = Some (fst e)"
      "\<forall>x \<in> set (e2 # es). rank_le (evict_rank loc e) (evict_rank loc x)" by blast
    with False show ?thesis by (intro bexI[of _ e]) (auto simp: rank_le_def)
  qed
qed (auto simp: rank_le_def)

lemma rank_le_trans: "rank_le a b \<Longrightarrow> rank_le b c \<Longrightarrow> rank_le a c"
  by (auto simp: rank_le_def)

lemma delete_distinct:
  assumes "distinct (map fst es)" "e \<in> set es"
  shows "set (AList.delete (fst e) es) = set es - {e}" "length (AList.delete (fst e) es) = length es - 1"
proof -
  have one: "x = e" if "x \<in> set es" "fst x = fst e" for x
    using eq_key_imp_eq_value[OF assms(1), of "fst e" "snd x" "snd e"] that assms(2) by (metis prod.collapse)
  have "set (AList.delete (fst e) es) = {x \<in> set es. fst x \<noteq> fst e}" by (auto simp: AList.delete_eq)
  also have "\<dots> = set es - {e}" using one by blast
  finally show s: "set (AList.delete (fst e) es) = set es - {e}" .
  have "distinct es" using assms(1) by (simp add: distinct_map)
  moreover have "distinct (AList.delete (fst e) es)" using distinct_delete[OF assms(1), of "fst e"] by (simp only: distinct_map)
  ultimately
  show "length (AList.delete (fst e) es) = length es - 1"
    using s assms(2) by (metis card_Diff_singleton distinct_card)
qed

lemma evict_worst_spec:
  assumes "distinct (map fst es)"
  shows "distinct (map fst (evict_worst m loc es)) \<and> set (evict_worst m loc es) \<subseteq> set es
    \<and> length (evict_worst m loc es) = min m (length es)
    \<and> (\<forall>x \<in> set es - set (evict_worst m loc es). \<forall>y \<in> set (evict_worst m loc es). rank_le (evict_rank loc x) (evict_rank loc y))"
  using assms
proof (induction "length es" arbitrary: es rule: less_induct)
  case less
  show ?case
  proof (cases "m < length es")
    case True
    then obtain e where e: "e \<in> set es" "min_by_rank loc es = Some (fst e)"
      "\<forall>x \<in> set es. rank_le (evict_rank loc e) (evict_rank loc x)"
      using min_by_rank_Some[of es loc] by force
    let ?d = "AList.delete (fst e) es"
    have d: "set ?d = set es - {e}" "length ?d = length es - 1" using delete_distinct[OF less.prems e(1)] by auto
    have step: "evict_worst m loc es = evict_worst m loc ?d" using True e by (subst evict_worst.simps) auto
    have "length ?d < length es" using d(2) True by simp
    note IH = less.hyps[OF this distinct_delete[OF less.prems], unfolded d]
    have "rank_le (evict_rank loc x) (evict_rank loc y)"
      if "x \<in> set es - set (evict_worst m loc ?d)" "y \<in> set (evict_worst m loc ?d)" for x y
      using IH e(3) that by (cases "x = e") blast+
    with IH show ?thesis unfolding step using True by auto
  next
    case False
    then show ?thesis using less.prems by (subst (1 2 3 4 5) evict_worst.simps) auto
  qed
qed

lemma distinct_map_of_alive: "distinct (map fst xs) \<Longrightarrow> distinct (map fst (alive ev xs))"
  by (auto simp: alive_def distinct_map inj_on_def)

text \<open>Every entry that the cache holds maps at most the configured number of originators, each once.\<close>

definition cache_ok :: "post_bundle_cache \<Rightarrow> bool" where
  "cache_ok c = ((\<forall>e \<in> set (pbc_bundles c). distinct (map fst (le_bundles (snd e)))
     \<and> length (le_bundles (snd e)) \<le> pbc_max_originators_per_location c))"

lemma set_update_distinct:
  "distinct (map fst xs) \<Longrightarrow> set (AList.update k v xs) = {e \<in> set xs. fst e \<noteq> k} \<union> {(k, v)}"
  by (induction xs) (auto simp: image_iff)

lemma set_update_subset: "set (AList.update k v xs) \<subseteq> insert (k, v) (set xs)"
  by (induction xs) auto

lemma set_alive_subset: "set (alive ev xs) \<subseteq> set xs"
  by (auto simp: alive_def)

lemma map_of_alive_in: "map_of (alive ev xs) k = Some v \<Longrightarrow> (k, v) \<in> set xs"
  using map_of_SomeD set_alive_subset by fastforce

lemma look_ok:
  assumes "pbc_look ev b already now clock c = Inr (l, c')" "cache_ok c"
  shows "cache_ok c'"
proof -
  obtain e where e: "pbc_bundles c' = AList.update (bl_location_id b) e (alive ev (pbc_bundles c))"
    "pbc_max_originators_per_location c' = pbc_max_originators_per_location c"
    "le_bundles e = pbc_entries ev c (bl_location_id b)"
    using assms(1) by (auto simp: pbc_look_def Let_def pbc_entries_def bundle_entry_placeholder_def
        split: if_splits option.splits prod.splits)
  have "distinct (map fst (le_bundles e)) \<and> length (le_bundles e) \<le> pbc_max_originators_per_location c"
    using assms(2) unfolding e(3) by (auto simp: pbc_entries_def cache_ok_def split: option.splits dest!: map_of_alive_in)
  then show ?thesis using assms(2) set_update_subset[of "bl_location_id b" e "alive ev (pbc_bundles c)"] set_alive_subset
    unfolding cache_ok_def e(1,2) by fastforce
qed

lemma on_upload_ok:
  assumes "pbc_on_upload ev loc originator bs st sealed c = (res, c')" "cache_ok c"
  shows "cache_ok c'"
proof (cases "map_of (alive ev (pbc_bundles c)) loc")
  case None
  then have "c' = c\<lparr>pbc_bundles := alive ev (pbc_bundles c)\<rparr>" using assms(1) by (auto simp: pbc_on_upload_def)
  then show ?thesis using assms(2) set_alive_subset[of ev "pbc_bundles c"] unfolding cache_ok_def by fastforce
next
  case (Some e)
  define b where "b = \<lparr>ca_bytes = bs, ca_expires_at = cached_expiry sealed st\<rparr>"
  define es where "es = evict_worst (pbc_max_originators_per_location c) loc (AList.update originator b (le_bundles e))"
  have c': "c' = c\<lparr>pbc_bundles := AList.update loc (e\<lparr>le_bundles := es\<rparr>) (alive ev (pbc_bundles c))\<rparr>"
    using assms(1) Some by (simp add: pbc_on_upload_def es_def b_def Let_def)
  have "distinct (map fst (le_bundles e))" using assms(2) map_of_alive_in[OF Some] by (auto simp: cache_ok_def)
  from evict_worst_spec[OF distinct_update[OF this]]
  have "distinct (map fst es) \<and> length es \<le> pbc_max_originators_per_location c" unfolding es_def by (metis min.cobounded1)
  then show ?thesis using assms(2) set_update_subset[of loc "e\<lparr>le_bundles := es\<rparr>" "alive ev (pbc_bundles c)"] set_alive_subset
    unfolding cache_ok_def c' by fastforce
qed

lemma cache_life_bounded: "cache_life C c0 t c rs xs \<Longrightarrow> cache_ok c0 \<Longrightarrow> cache_ok c"
proof (induction rule: cache_life.induct)
  case (life_issue t c rs xs t' r p sk token fl)
  then show ?case by (simp add: cache_ok_def)
qed (auto intro: look_ok on_upload_ok)

lemma cache_life_max: "cache_life C c0 t c rs xs \<Longrightarrow> pbc_max_originators_per_location c = pbc_max_originators_per_location c0"
  by (induction rule: cache_life.induct) (auto simp: pbc_look_def pbc_on_upload_def Let_def split: if_splits option.splits prod.splits)

definition bundles_at :: "post_bundle_cache \<Rightarrow> id \<Rightarrow> (id \<times> cached_bundle) list" where
  "bundles_at c loc = (case map_of (pbc_bundles c) loc of None \<Rightarrow> [] | Some e \<Rightarrow> le_bundles e)"

text \<open>After any run from an empty cache, an upload for a location that is still held reports whether the uploaded bundle
  was kept, leaves at most the configured number of bundles there, each from its own originator, and whatever it
  dropped of the old bundles and the new one is no closer to the location than anything it kept.\<close>

theorem cache_upload_keeps_closest:
  assumes "cache_life C \<lparr>pbc_max_originators_per_location = m, pbc_bundles = [], pbc_inflight = []\<rparr> t c rs xs"
    and "pbc_on_upload ev loc originator bs st sealed c = (kept, c')"
    and "map_of (alive ev (pbc_bundles c)) loc = Some entry"
  shows "let b = (originator, \<lparr>ca_bytes = bs, ca_expires_at = cached_expiry sealed st\<rparr>);
             offered = {e \<in> set (le_bundles entry). fst e \<noteq> originator} \<union> {b};
             es = bundles_at c' loc
         in length es \<le> m \<and> distinct (map fst es) \<and> set es \<subseteq> offered \<and> (kept \<longleftrightarrow> b \<in> set es)
            \<and> (\<forall>x \<in> offered - set es. \<forall>y \<in> set es. rank_le (evict_rank loc x) (evict_rank loc y))"
proof -
  have max: "pbc_max_originators_per_location c = m"
    using cache_life_max[OF assms(1)] by simp
  have ok: "cache_ok c" using cache_life_bounded[OF assms(1)] by (simp add: cache_ok_def)
  define b where "b = \<lparr>ca_bytes = bs, ca_expires_at = cached_expiry sealed st\<rparr>"
  define us where "us = AList.update originator b (le_bundles entry)"
  define es where "es = evict_worst m loc us"
  have d: "distinct (map fst (le_bundles entry))" using ok map_of_alive_in[OF assms(3)] by (auto simp: cache_ok_def)
  have us: "distinct (map fst us)" unfolding us_def by (rule distinct_update[OF d])
  have offered: "set us = {e \<in> set (le_bundles entry). fst e \<noteq> originator} \<union> {(originator, b)}"
    unfolding us_def using d by (rule set_update_distinct)
  note ev = evict_worst_spec[OF us, of m loc, folded es_def]
  have at: "bundles_at c' loc = es" "kept \<longleftrightarrow> originator \<in> fst ` set es"
    using assms(2,3) by (auto simp: pbc_on_upload_def Let_def bundles_at_def es_def us_def b_def max update_conv')
  have sub: "set es \<subseteq> set us" using ev by blast
  have "x = (originator, b)" if "x \<in> set es" "fst x = originator" for x
    using subsetD[OF sub that(1)] that(2) unfolding offered by simp
  then have "kept \<longleftrightarrow> (originator, b) \<in> set es" unfolding at(2) by force
  then show ?thesis using ev unfolding at(1) b_def[symmetric] Let_def offered[symmetric] by (intro conjI) simp_all
qed


section \<open>Concrete runs\<close>

definition toy_bucket_location :: bucket_location where
  "toy_bucket_location = \<lparr>bl_bucket_type = User, bl_base_id = Id_zero, bl_duration = 60000, bl_bucket_time_millis = 0,
     bl_location_id = Id_zero\<rparr>"

definition toy_hot_cache :: post_bundle_cache where
  "toy_hot_cache = \<lparr>pbc_max_originators_per_location = 1,
     pbc_bundles = [(Id_zero, bundle_entry_placeholder\<lparr>le_hit_count := 9\<rparr>)], pbc_inflight = []\<rparr>"

lemma toy_hot_look:
  assumes "map_of (pbc_bundles c) Id_zero = Some e" "9 \<le> le_hit_count e" "le_hit_count e < 100"
    "\<not> inflight_contains (pbc_inflight c) Id_zero now"
  shows "\<exists>l c'. pbc_look (\<lambda>_. False) toy_bucket_location [] now now c = Inr (l, c') \<and> cl_should_issue l
    \<and> map_of (pbc_bundles c') Id_zero = Some (e\<lparr>le_hit_count := le_hit_count e + 1\<rparr>) \<and> pbc_inflight c' = pbc_inflight c"
  using assms
  by (auto simp: pbc_look_def Let_def alive_def toy_bucket_location_def CACHE_HIT_THRESHOLD_def update_conv')

text \<open>A read that decided for a token and then issues it.\<close>

lemma toy_issue:
  assumes "cache_life toy_crypto toy_hot_cache t c rs xs" "r \<in> set rs" "cl_should_issue (pr_look r)" "pr_bucket_location r = toy_bucket_location"
  shows "\<exists>tk. cache_life toy_crypto toy_hot_cache t (c\<lparr>pbc_inflight := AList.update Id_zero t (pbc_inflight c)\<rparr>) (remove1 r rs)
    (xs @ [\<lparr>it_token = tk, it_location = Id_zero, it_decided = pr_decided r, it_issued_before = pr_issued_before r, it_issued = t\<rparr>])"
proof -
  obtain tk where "issue_token toy_crypto (cl_should_issue (pr_look r)) (pr_bucket_location r) (cl_cached_ids (pr_look r)) (Peer_zero ''1'')
      (SignatureKey []) (pr_now r) t (pbc_inflight c) = (Some tk, AList.update Id_zero t (pbc_inflight c))"
    using assms(3,4) by (simp add: issue_token_def toy_bucket_location_def)
  from life_issue[OF assms(1) order_refl assms(2) this] show ?thesis
    using assms(4) by (auto simp: issued_by_def toy_bucket_location_def)
qed

theorem cache_tokens_thirty_seconds_apart_witness:
  "\<exists>c xs. cache_life toy_crypto toy_hot_cache 30000 c [] xs \<and> map it_location xs = [Id_zero, Id_zero] \<and> it_issued_before (xs ! 1) = 1
     \<and> it_issued (xs ! 0) + CACHE_REQUEST_TOKEN_TTL_DURATION_MILLIS \<le> it_decided (xs ! 1)"
proof -
  let ?e = "bundle_entry_placeholder\<lparr>le_hit_count := 9\<rparr>"
  obtain l c1 where 1: "pbc_look (\<lambda>_. False) toy_bucket_location [] 0 0 toy_hot_cache = Inr (l, c1)" "cl_should_issue l"
      "map_of (pbc_bundles c1) Id_zero = Some (?e\<lparr>le_hit_count := le_hit_count ?e + 1\<rparr>)" "pbc_inflight c1 = pbc_inflight toy_hot_cache"
    using toy_hot_look[of toy_hot_cache ?e 0] by (auto simp: toy_hot_cache_def inflight_contains_def)
  from toy_issue[OF life_look[OF life_start order_refl 1(1)] list.set_intros(1)] 1(2) obtain tk where
    2: "cache_life toy_crypto toy_hot_cache 0 (c1\<lparr>pbc_inflight := AList.update Id_zero 0 (pbc_inflight c1)\<rparr>) []
      [\<lparr>it_token = tk, it_location = Id_zero, it_decided = 0, it_issued_before = 0, it_issued = 0\<rparr>]" by fastforce
  let ?c2 = "c1\<lparr>pbc_inflight := AList.update Id_zero 0 (pbc_inflight c1)\<rparr>"
  have nf: "\<not> inflight_contains (pbc_inflight ?c2) Id_zero 30000"
    by (simp add: inflight_contains_def update_conv' CACHE_REQUEST_TOKEN_TTL_DURATION_MILLIS_def const_mul_def millis_values)
  obtain l' c3 where 3: "pbc_look (\<lambda>_. False) toy_bucket_location [] 30000 30000 ?c2 = Inr (l', c3)" "cl_should_issue l'"
    using toy_hot_look[of ?c2 "?e\<lparr>le_hit_count := le_hit_count ?e + 1\<rparr>", OF _ _ _ nf] 1(3) by auto
  have t: "(0 :: time_millis) \<le> 30000" by simp
  from toy_issue[OF life_look[OF 2 t 3(1)] list.set_intros(1)] 3(2) obtain tk' c4 where
    4: "cache_life toy_crypto toy_hot_cache 30000 c4 []
      [\<lparr>it_token = tk, it_location = Id_zero, it_decided = 0, it_issued_before = 0, it_issued = 0\<rparr>,
       \<lparr>it_token = tk', it_location = Id_zero, it_decided = 30000, it_issued_before = 1, it_issued = 30000\<rparr>]" by fastforce
  show ?thesis using 4 cache_tokens_thirty_seconds_apart[OF 4, of 0 1] by fastforce
qed

text \<open>Reads that overlap are not held back: both decide before either has entered its token.\<close>

lemma overlapping_reads_both_issued:
  "\<exists>c xs. cache_life toy_crypto toy_hot_cache 0 c [] xs \<and> map it_location xs = [Id_zero, Id_zero] \<and> map it_issued xs = [0, 0]"
proof -
  let ?e = "bundle_entry_placeholder\<lparr>le_hit_count := 9\<rparr>"
  obtain l c1 where 1: "pbc_look (\<lambda>_. False) toy_bucket_location [] 0 0 toy_hot_cache = Inr (l, c1)" "cl_should_issue l"
      "map_of (pbc_bundles c1) Id_zero = Some (?e\<lparr>le_hit_count := le_hit_count ?e + 1\<rparr>)" "pbc_inflight c1 = pbc_inflight toy_hot_cache"
    using toy_hot_look[of toy_hot_cache ?e 0] by (auto simp: toy_hot_cache_def inflight_contains_def)
  obtain l' c2 where 2: "pbc_look (\<lambda>_. False) toy_bucket_location [] 0 0 c1 = Inr (l', c2)" "cl_should_issue l'"
    using toy_hot_look[OF 1(3), of 0] 1(4) by (auto simp: toy_hot_cache_def inflight_contains_def)
  let ?r = "\<lambda>l. \<lparr>pr_bucket_location = toy_bucket_location, pr_look = l, pr_now = 0, pr_decided = 0, pr_issued_before = 0\<rparr>"
  have both: "cache_life toy_crypto toy_hot_cache 0 c2 [?r l', ?r l] []"
    using life_look[OF life_look[OF life_start order_refl 1(1)] order_refl 2(1)] by simp
  from toy_issue[OF both list.set_intros(1)] 2(2) obtain tk c3 where
    3: "cache_life toy_crypto toy_hot_cache 0 c3 [?r l] [\<lparr>it_token = tk, it_location = Id_zero, it_decided = 0, it_issued_before = 0, it_issued = 0\<rparr>]"
    by fastforce
  from toy_issue[OF 3 list.set_intros(1)] 1(2) obtain tk' c4 where
    "cache_life toy_crypto toy_hot_cache 0 c4 [] [\<lparr>it_token = tk, it_location = Id_zero, it_decided = 0, it_issued_before = 0, it_issued = 0\<rparr>,
       \<lparr>it_token = tk', it_location = Id_zero, it_decided = 0, it_issued_before = 0, it_issued = 0\<rparr>]"
    by fastforce
  then show ?thesis by fastforce
qed

theorem cache_upload_keeps_closest_witness:
  "\<exists>c xs kept c'. cache_life toy_crypto \<lparr>pbc_max_originators_per_location = 1, pbc_bundles = [], pbc_inflight = []\<rparr> 0 c [] xs
     \<and> pbc_on_upload (\<lambda>_. False) Id_zero Id_zero [7] 0 True c = (kept, c')
     \<and> length (bundles_at c' Id_zero) \<le> 1
     \<and> (kept \<longleftrightarrow> (Id_zero, \<lparr>ca_bytes = [7], ca_expires_at = cached_expiry True 0\<rparr>) \<in> set (bundles_at c' Id_zero))"
proof -
  let ?c0 = "\<lparr>pbc_max_originators_per_location = 1, pbc_bundles = [], pbc_inflight = []\<rparr>"
    and ?p = "Peer_zero ''1''" and ?k = "SignatureKey []"
  obtain r c where g: "pbc_on_get toy_crypto (\<lambda>_. False) toy_bucket_location [] ?p ?k 0 ?c0 = Inr (r, c)"
      "map_of (pbc_bundles c) Id_zero = Some (bundle_entry_placeholder\<lparr>le_hit_count := 1\<rparr>)"
    by (auto simp: pbc_on_get_def pbc_look_def Let_def alive_def toy_bucket_location_def issue_token_def bundle_entry_placeholder_def
        CACHE_HIT_THRESHOLD_def)
  obtain xs where run: "cache_life toy_crypto ?c0 0 c [] xs" using life_get[OF life_start order_refl g(1)] by blast
  obtain kept c' where u: "pbc_on_upload (\<lambda>_. False) Id_zero Id_zero [7] 0 True c = (kept, c')" by fastforce
  have "map_of (alive (\<lambda>_. False) (pbc_bundles c)) Id_zero = Some (bundle_entry_placeholder\<lparr>le_hit_count := 1\<rparr>)"
    using g(2) by (simp add: alive_def)
  from cache_upload_keeps_closest[OF run u this] run u show ?thesis unfolding Let_def by blast
qed

end
