(* ===== verification/Estimators.thy ===== *)
theory Estimators
  imports Crypto Payload
begin

text \<open>
  The estimators that the server keeps: \<open>tools/hyper_log_log.rs\<close> (unique authors of a hashtag),
  \<open>tools/decaying_counter.rs\<close> and \<open>server/stats/request_counts.rs\<close> (request rates), \<open>tools/pow_required_estimator.rs\<close>
  (progress of a proof-of-work search). An \<open>f64\<close> is a real number; an \<open>as u64\<close> cast of a non-negative real is its floor.
\<close>

section \<open>HyperLogLog\<close>

definition NUM_REGISTERS :: nat where "NUM_REGISTERS = 2 ^ 6"
definition ALPHA :: real where "ALPHA = 709 / 1000"

datatype hyper_log_log = HyperLogLog (registers: "byte list")

definition hll_new :: hyper_log_log where
  "hll_new = HyperLogLog (replicate NUM_REGISTERS 0)"

definition leading_zeros_u64 :: "bytes \<Rightarrow> nat" where
  "leading_zeros_u64 bs = length (takeWhile Not (bits_of bs))"

definition hll_insert :: "crypto \<Rightarrow> bytes \<Rightarrow> hyper_log_log \<Rightarrow> hyper_log_log" where
  "hll_insert C data h =
     (let hb = hash_bytes (hashing_hash C data);
          register_index = nat (uint (hb ! 0 AND word_of_nat (NUM_REGISTERS - 1)));
          rho = word_of_nat (leading_zeros_u64 (slice 1 8 hb) + 1)
      in if rho > registers h ! register_index
         then HyperLogLog ((registers h)[register_index := rho]) else h)"

definition hll_count :: "hyper_log_log \<Rightarrow> nat" where
  "hll_count h =
     (let m = real NUM_REGISTERS;
          harmonic_sum = sum_list (map (\<lambda>r. 1 / 2 ^ unat r) (registers h));
          raw_estimate = ALPHA * m * m / harmonic_sum;
          num_zero_registers = length (List.filter (\<lambda>r. r = 0) (registers h))
      in if raw_estimate \<le> 5 / 2 * m \<and> num_zero_registers > 0
         then nat \<lfloor>m * ln (m / real num_zero_registers)\<rfloor> else nat \<lfloor>raw_estimate\<rfloor>)"

definition hll_merge :: "hyper_log_log \<Rightarrow> hyper_log_log \<Rightarrow> hyper_log_log" where
  "hll_merge h g = HyperLogLog (map (\<lambda>i. if registers g ! i > registers h ! i then registers g ! i else registers h ! i) [0..<NUM_REGISTERS])"

text \<open>The sketch as a lattice: inserting is taking the maximum with the contribution of the item.\<close>

definition hll_contribution :: "crypto \<Rightarrow> bytes \<Rightarrow> nat \<Rightarrow> byte" where
  "hll_contribution C data i =
     (let hb = hash_bytes (hashing_hash C data)
      in if i = nat (uint (hb ! 0 AND word_of_nat (NUM_REGISTERS - 1))) then word_of_nat (leading_zeros_u64 (slice 1 8 hb) + 1) else 0)"

definition hll_of :: "crypto \<Rightarrow> bytes list \<Rightarrow> hyper_log_log" where
  "hll_of C xs = fold (hll_insert C) xs hll_new"

lemma register_index_bound: "nat (uint ((b :: byte) AND word_of_nat (NUM_REGISTERS - 1))) < 64"
proof -
  have "b AND 63 = take_bit 6 b" by (simp add: take_bit_eq_mask mask_eq_exp_minus_1)
  then have "uint (b AND 63) < 64" using take_bit_int_less_exp[of 6 "uint b"] by (simp add: unsigned_take_bit_eq)
  then have "nat (uint (b AND 63)) < 64" by (simp only: nat_less_iff uint_ge_0)
  then show ?thesis by (simp add: NUM_REGISTERS_def)
qed

lemma length_hll_insert [simp]: "length (registers (hll_insert C x h)) = length (registers h)"
  by (simp add: hll_insert_def Let_def)

lemma hll_insert_nth:
  assumes "length (registers h) = 64" "i < 64"
  shows "registers (hll_insert C x h) ! i = max (registers h ! i) (hll_contribution C x i)"
  using assms register_index_bound[of "hash_bytes (hashing_hash C x) ! 0"]
  by (auto simp: hll_insert_def hll_contribution_def Let_def max_def nth_list_update NUM_REGISTERS_def)

lemma length_hll_of [simp]: "length (registers (fold (hll_insert C) xs h)) = length (registers h)"
  by (induction xs arbitrary: h) simp_all

lemma hll_fold_nth:
  assumes "length (registers h) = 64" "i < 64"
  shows "registers (fold (hll_insert C) xs h) ! i = Max (insert (registers h ! i) ((\<lambda>x. hll_contribution C x i) ` set xs))"
  using assms(1)
proof (induction xs arbitrary: h)
  case (Cons x xs)
  have "registers (fold (hll_insert C) (x # xs) h) ! i
      = Max (insert (max (registers h ! i) (hll_contribution C x i)) ((\<lambda>x. hll_contribution C x i) ` set xs))"
    using Cons assms(2) by (simp add: hll_insert_nth)
  also have "\<dots> = Max (insert (registers h ! i) (insert (hll_contribution C x i) ((\<lambda>x. hll_contribution C x i) ` set xs)))"
    by (cases "set xs = {}") (simp_all add: max.assoc)
  finally show ?case by simp
qed simp

lemma hll_eqI:
  assumes "length (registers h) = 64" "length (registers g) = 64" "\<And>i. i < 64 \<Longrightarrow> registers h ! i = registers g ! i"
  shows "h = g"
  using assms by (auto intro!: hyper_log_log.expand nth_equalityI)

lemma length_hll_new [simp]: "length (registers hll_new) = 64"
  by (simp add: hll_new_def NUM_REGISTERS_def)

lemma hll_of_nth: "i < 64 \<Longrightarrow> registers (hll_of C xs) ! i = Max (insert 0 ((\<lambda>x. hll_contribution C x i) ` set xs))"
  by (simp add: hll_of_def hll_fold_nth) (simp add: hll_new_def NUM_REGISTERS_def)

lemma hll_of_cong: "set xs = set ys \<Longrightarrow> hll_of C xs = hll_of C ys"
  by (intro hll_eqI) (simp_all add: hll_of_nth, simp_all add: hll_of_def)

text \<open>The sketch of a hashtag depends only on the set of its authors, not on how often or in which order they post, and
  merging two sketches gives the sketch of all their authors.\<close>

theorem hll_counts_sets:
  "hll_of C (xs @ ys @ xs) = hll_of C (ys @ xs) \<and> hll_of C xs = hll_of C (remdups xs) \<and> hll_of C xs = hll_of C (rev xs)
   \<and> hll_merge (hll_of C xs) (hll_of C ys) = hll_of C (xs @ ys)"
proof (intro conjI)
  show "hll_of C (xs @ ys @ xs) = hll_of C (ys @ xs)" "hll_of C xs = hll_of C (remdups xs)" "hll_of C xs = hll_of C (rev xs)"
    by (intro hll_of_cong; auto)+
  have u: "(if a < b then b else a) = max a b" for a b :: byte using less_imp_le[of a b] by (simp add: max_def)
  show "hll_merge (hll_of C xs) (hll_of C ys) = hll_of C (xs @ ys)"
    by (intro hll_eqI)
      (simp_all add: hll_merge_def NUM_REGISTERS_def u hll_of_nth image_Un Max_Un[symmetric] del: Max_insert, simp_all add: hll_of_def Un_commute)
qed


text \<open>A tag that one author uses, however often, counts one.\<close>

lemma hll_of_same: "set xs = {a} \<Longrightarrow> hll_of C xs = hll_insert C a hll_new"
  using hll_of_cong[of xs "[a]"] by (simp add: hll_of_def)

lemma ln_64_63: "1 \<le> 64 * ln (64 / 63 :: real)" "64 * ln (64 / 63 :: real) < 2"
proof -
  have "1 + - (1 / 64) \<le> exp (- (1 / 64) :: real)" by (rule exp_ge_add_one_self)
  then have "(63 / 64 :: real) \<le> exp (- (1 / 64))" by simp
  then have "exp (1 / 64) \<le> (64 / 63 :: real)" by (simp add: exp_minus field_simps)
  then show "1 \<le> 64 * ln (64 / 63 :: real)" by (subst (asm) ln_ge_iff[symmetric]) simp_all
  have "ln (64 / 63 :: real) \<le> 64 / 63 - 1" by (rule ln_le_minus_one) simp
  then show "64 * ln (64 / 63 :: real) < 2" by simp
qed

lemma hll_insert_new:
  "\<exists>i rho. i < 64 \<and> registers (hll_insert C a hll_new) = (replicate 64 0)[i := rho] \<and> rho \<noteq> 0"
proof -
  define i rho where "i = nat (uint (hash_bytes (hashing_hash C a) ! 0 AND word_of_nat (NUM_REGISTERS - 1)))"
    and "rho = (word_of_nat (leading_zeros_u64 (slice 1 8 (hash_bytes (hashing_hash C a))) + 1) :: byte)"
  have i: "i < 64" using register_index_bound by (simp add: i_def)
  have "leading_zeros_u64 (slice 1 8 x) \<le> 64" for x
    using length_takeWhile_le[of Not "bits_of (slice 1 8 x)"] by (simp add: leading_zeros_u64_def slice_def)
  then have "unat rho = leading_zeros_u64 (slice 1 8 (hash_bytes (hashing_hash C a))) + 1"
    unfolding rho_def unat_of_nat by (intro mod_less) (simp add: le_less_trans[of _ 64])
  then have "rho \<noteq> 0" by auto
  moreover have "hll_insert C a hll_new = (if rho > registers hll_new ! i then HyperLogLog ((registers hll_new)[i := rho]) else hll_new)"
    unfolding hll_insert_def Let_def i_def rho_def ..
  moreover have "registers hll_new = replicate 64 0" by (simp add: hll_new_def NUM_REGISTERS_def)
  ultimately show ?thesis using i by (intro exI[of _ i] exI[of _ rho]) (simp add: word_neq_0_conv)
qed

lemma sum_list_update_replicate:
  "i < n \<Longrightarrow> sum_list (map f ((replicate n x)[i := y])) = real (n - 1) * f x + f y"
  by (induction n arbitrary: i)
    (auto simp: nth_Cons' sum_list_replicate algebra_simps of_nat_diff Suc_le_eq split: nat.splits)

lemma filter_zero_update: "i < n \<Longrightarrow> y \<noteq> 0 \<Longrightarrow> length (List.filter (\<lambda>r. r = 0) ((replicate n (0 :: byte))[i := y])) = n - 1"
  by (induction n arbitrary: i) (auto simp: nth_Cons' split: nat.splits)

theorem hll_one_author_counts_one:
  assumes "posts \<noteq> 0"
  shows "hll_count (hll_of C (replicate posts author)) = 1 \<and> hll_count (hll_of C []) = 0"
proof
  have h: "hll_of C (replicate posts author) = hll_insert C author hll_new"
    using assms by (intro hll_of_same) simp
  obtain i rho where r: "i < 64" "registers (hll_insert C author hll_new) = (replicate 64 0)[i := rho]" "rho \<noteq> 0"
    using hll_insert_new by blast
  have s: "sum_list (map (\<lambda>r. 1 / 2 ^ unat r) ((replicate 64 (0 :: byte))[i := rho])) = (63 + 1 / 2 ^ unat rho :: real)"
    using r(1) by (simp add: sum_list_update_replicate)
  have "709 / 1000 * 64 * 64 / (63 + 1 / 2 ^ unat rho :: real) \<le> 709 / 1000 * 64 * 64 / 63"
    by (intro divide_left_mono) (auto intro: add_pos_nonneg)
  then have "709 / 1000 * 64 * 64 / (63 + 1 / 2 ^ unat rho :: real) \<le> 5 / 2 * 64" by simp
  moreover have "\<lfloor>64 * ln (64 / 63 :: real)\<rfloor> = 1" using ln_64_63 by (intro floor_unique) simp_all
  ultimately show "hll_count (hll_of C (replicate posts author)) = 1"
    unfolding h hll_count_def Let_def r(2) s filter_zero_update[OF r(1,3)] by (simp add: ALPHA_def NUM_REGISTERS_def)
  show "hll_count (hll_of C []) = 0"
    by (simp add: hll_of_def hll_count_def hll_new_def NUM_REGISTERS_def ALPHA_def Let_def sum_list_replicate)
qed

theorem hll_one_author_counts_one_witness:
  "hll_count (hll_of toy_crypto (replicate 3 [7])) = 1 \<and> hll_count (hll_of toy_crypto []) = 0"
  by (rule hll_one_author_counts_one) simp

section \<open>Decaying counters\<close>

record decaying_counter =
  dc_value :: real
  dc_last_update_millis :: time_millis
  dc_time_constant_millis :: real

definition dc_new :: "duration_millis \<Rightarrow> decaying_counter" where
  "dc_new time_constant = \<lparr>dc_value = 0, dc_last_update_millis = 0, dc_time_constant_millis = real_of_int time_constant\<rparr>"

definition dc_estimate :: "time_millis \<Rightarrow> decaying_counter \<Rightarrow> real" where
  "dc_estimate now c = (let elapsed = real_of_int (max (now - dc_last_update_millis c) 0)
     in dc_value c * exp (- elapsed / dc_time_constant_millis c))"

definition dc_record :: "time_millis \<Rightarrow> nat \<Rightarrow> decaying_counter \<Rightarrow> decaying_counter" where
  "dc_record now n c = c\<lparr>dc_value := dc_estimate now c + real n, dc_last_update_millis := now\<rparr>"

definition dc_after :: "duration_millis \<Rightarrow> (time_millis \<times> nat) list \<Rightarrow> decaying_counter" where
  "dc_after tau events = fold (\<lambda>(t, n). dc_record t n) events (dc_new tau)"

lemma dc_estimate_bounds:
  assumes "0 < dc_time_constant_millis c" "0 \<le> dc_value c"
  shows "0 \<le> dc_estimate now c" "dc_estimate now c \<le> dc_value c"
    "t \<le> t' \<Longrightarrow> dc_estimate t' c \<le> dc_estimate t c"
  using assms by (auto simp: dc_estimate_def Let_def intro!: mult_left_le mult_left_mono divide_right_mono)

lemma dc_after_snoc: "dc_after tau (es @ [(t, n)]) = dc_record t n (dc_after tau es)"
  by (simp add: dc_after_def)

lemma dc_after_bounds:
  assumes "0 < tau"
  shows "dc_time_constant_millis (dc_after tau es) = real_of_int tau
    \<and> 0 \<le> dc_value (dc_after tau es) \<and> dc_value (dc_after tau es) \<le> real (sum_list (map snd es))"
proof (induction es rule: rev_induct)
  case (snoc e es)
  obtain t n where e: "e = (t, n)" by (cases e)
  have "0 \<le> dc_estimate t (dc_after tau es)" "dc_estimate t (dc_after tau es) \<le> dc_value (dc_after tau es)"
    using dc_estimate_bounds[of "dc_after tau es" t] snoc assms by auto
  with snoc show ?case unfolding e dc_after_snoc by (simp add: dc_record_def)
qed (simp add: dc_after_def dc_new_def)

text \<open>Whatever order the clock readings come in (it may step backwards), the estimate never exceeds the number of recorded
  events, is never negative and only falls as time passes.\<close>

theorem decaying_counter_bounds:
  assumes "0 < tau" "t \<le> t'"
  shows "0 \<le> dc_estimate t' (dc_after tau es) \<and> dc_estimate t' (dc_after tau es) \<le> dc_estimate t (dc_after tau es)
    \<and> dc_estimate t (dc_after tau es) \<le> real (sum_list (map snd es))"
  using dc_estimate_bounds[of "dc_after tau es"] dc_after_bounds[OF assms(1), of es] assms order_trans by (auto; blast)

theorem decaying_counter_bounds_witness:
  "dc_estimate 20 (dc_after 1000 [(5, 2), (3, 1)]) \<le> dc_estimate 10 (dc_after 1000 [(5, 2), (3, 1)])
   \<and> dc_estimate 10 (dc_after 1000 [(5, 2), (3, 1)]) \<le> 3"
  using decaying_counter_bounds [of 1000 10 20 "[(5, 2), (3, 1)]"] by simp

record request_rate_windows =
  rw_per_hour :: decaying_counter
  rw_per_day :: decaying_counter
  rw_per_month :: decaying_counter

definition rate_windows_new :: request_rate_windows where
  "rate_windows_new = \<lparr>rw_per_hour = dc_new MILLIS_IN_HOUR, rw_per_day = dc_new MILLIS_IN_DAY, rw_per_month = dc_new MILLIS_IN_MONTH\<rparr>"

definition rate_windows_record :: "time_millis \<Rightarrow> request_rate_windows \<Rightarrow> request_rate_windows" where
  "rate_windows_record now w = \<lparr>rw_per_hour = dc_record now 1 (rw_per_hour w), rw_per_day = dc_record now 1 (rw_per_day w),
     rw_per_month = dc_record now 1 (rw_per_month w)\<rparr>"

text \<open>One entry per request kind: its total and its three rounded rates.\<close>

definition round_as_u64 :: "real \<Rightarrow> nat" where
  "round_as_u64 x = nat (round x)"

definition request_counts_subtree :: "nat list \<Rightarrow> request_rate_windows list \<Rightarrow> time_millis
    \<Rightarrow> (request_kind \<times> nat \<times> nat \<times> nat \<times> nat) list" where
  "request_counts_subtree totals windows now = concat (map (\<lambda>index.
     case PayloadRequestKind_from_u16 (index mod 2 ^ 16) of
       Inl e \<Rightarrow> []
     | Inr kind \<Rightarrow> [(kind, totals ! index, round_as_u64 (dc_estimate now (rw_per_hour (windows ! index))),
         round_as_u64 (dc_estimate now (rw_per_day (windows ! index))), round_as_u64 (dc_estimate now (rw_per_month (windows ! index))))])
     [0..<PAYLOAD_REQUEST_KIND_COUNT])"

lemma fst_entries:
  "map g is = map Inr ks \<Longrightarrow>
   map fst (concat (map (\<lambda>i. case g i of Inl e \<Rightarrow> [] | Inr k \<Rightarrow> [(k, f i)]) is)) = ks"
  by (induction "is" arbitrary: ks) auto

lemma request_kinds_numbered:
  "map (\<lambda>i. PayloadRequestKind_from_u16 (i mod 2 ^ 16)) [0..<PAYLOAD_REQUEST_KIND_COUNT] = map Inr request_kinds"
proof -
  have "[0..<PAYLOAD_REQUEST_KIND_COUNT] = map request_kind_u16 request_kinds"
    by (simp add: PAYLOAD_REQUEST_KIND_COUNT_def request_kinds_def upt_conv_Cons)
  moreover have "PayloadRequestKind_from_u16 (request_kind_u16 k mod 2 ^ 16) = Inr k" for k
    using request_kind_roundtrip[of k] by (cases k) simp_all
  ultimately show ?thesis by simp
qed

text \<open>Every kind of request has its entry: the kinds are numbered without gaps.\<close>

theorem request_counts_complete:
  "map fst (request_counts_subtree totals windows now) = request_kinds"
  unfolding request_counts_subtree_def by (rule fst_entries[OF request_kinds_numbered])


section \<open>Progress of a proof-of-work search\<close>

record pow_required_estimator =
  pe_description :: string
  pe_pow_required :: pow
  pe_total_iterations :: nat
  pe_best_pow_so_far :: pow
  pe_started_at_millis :: time_millis
  pe_next_report_millis :: time_millis

definition REPORTING_PERIOD_MILLIS :: duration_millis where
  "REPORTING_PERIOD_MILLIS = const_mul MILLIS_IN_SECOND 1"

definition pe_new :: "time_millis \<Rightarrow> string \<Rightarrow> pow \<Rightarrow> pow_required_estimator" where
  "pe_new started_at description pow_required = \<lparr>pe_description = description, pe_pow_required = pow_required,
     pe_total_iterations = 0, pe_best_pow_so_far = 0, pe_started_at_millis = started_at,
     pe_next_report_millis = time_add_dur started_at REPORTING_PERIOD_MILLIS\<rparr>"

text \<open>The values that the log line formats; the text around them is left to the formatting library.\<close>

datatype progress =
    TooEarly string pow pow duration_millis nat
  | Progress string pow pow duration_millis nat nat real duration_millis

definition pe_record_batch :: "time_millis \<Rightarrow> nat \<Rightarrow> pow \<Rightarrow> pow_required_estimator \<Rightarrow> progress option \<times> pow_required_estimator" where
  "pe_record_batch now iterations_in_batch best_pow_in_batch e0 =
     (let e = e0\<lparr>pe_total_iterations := pe_total_iterations e0 + iterations_in_batch,
                 pe_best_pow_so_far := (if best_pow_in_batch > pe_best_pow_so_far e0 then best_pow_in_batch else pe_best_pow_so_far e0)\<rparr>
      in if now < pe_next_report_millis e then (None, e) else
      let e' = e\<lparr>pe_next_report_millis := time_add_dur now REPORTING_PERIOD_MILLIS\<rparr>;
          elapsed = time_sub now (pe_started_at_millis e')
      in if elapsed < MILLIS_IN_MILLISECOND \<or> pe_total_iterations e' = 0
         then (Some (TooEarly (pe_description e') (pe_best_pow_so_far e') (pe_pow_required e') elapsed (pe_total_iterations e')), e')
         else let iterations_per_second = 1000 * real (pe_total_iterations e') / real_of_int elapsed;
                  expected_total_iterations = (2 :: real) ^ unat (pe_pow_required e');
                  expected_remaining = sat_i64 \<lfloor>1000 * expected_total_iterations / iterations_per_second\<rfloor>
              in (Some (Progress (pe_description e') (pe_best_pow_so_far e') (pe_pow_required e') elapsed (pe_total_iterations e')
                    (nat \<lfloor>iterations_per_second\<rfloor>) (real (pe_total_iterations e') / expected_total_iterations * 100)
                    expected_remaining), e'))"

end
