(* ===== verification/Server.thy ===== *)
theory Server
  imports Rpc Kademlia Environment Caching Estimators
begin

text \<open>
  \<open>server/hashiverse_server.rs\<close>: the state of the server, the admission of peers to its table, the maintenance loop's
  effects on it, and \<open>tools/tools.rs\<close>'s address filter. A handler is a function from the state to the new state and the result or error, so that
  the effects made before an error stay. The locks order the handlers: a handler runs alone on the state. What one
  request sees of the outside is the record \<open>server_world\<close>: its clock readings, random words, the entries that the
  \<open>moka\<close> caches have dropped, codecs, cryptography, the unstable sort, and the name lookup and fetch of a URL.
\<close>

unbundle bit_operations_syntax

section \<open>Addresses that must not be fetched\<close>

datatype ip_addr = V4 "byte list" | V6 "16 word list"

definition v4_protected :: "byte list \<Rightarrow> bool" where
  "v4_protected o4 \<longleftrightarrow>
     o4 ! 0 = 127
     \<or> (o4 ! 0 = 10 \<or> (o4 ! 0 = 172 \<and> 16 \<le> o4 ! 1 \<and> o4 ! 1 \<le> 31) \<or> (o4 ! 0 = 192 \<and> o4 ! 1 = 168))
     \<or> (o4 ! 0 = 169 \<and> o4 ! 1 = 254)
     \<or> (224 \<le> o4 ! 0 \<and> o4 ! 0 \<le> 239)
     \<or> o4 = [0, 0, 0, 0]
     \<or> o4 = [255, 255, 255, 255]
     \<or> (o4 ! 0 = 100 \<and> (o4 ! 1 AND 0xC0) = 64)"

definition to_ipv4_mapped :: "16 word list \<Rightarrow> byte list option" where
  "to_ipv4_mapped s = (if take 6 s = [0, 0, 0, 0, 0, 0xFFFF]
     then Some [ucast (drop_bit 8 (s ! 6)), ucast (s ! 6), ucast (drop_bit 8 (s ! 7)), ucast (s ! 7)] else None)"

definition is_ssrf_protected_ip :: "ip_addr \<Rightarrow> bool" where
  "is_ssrf_protected_ip ip = (case ip of
     V4 o4 \<Rightarrow> v4_protected o4
   | V6 s \<Rightarrow>
       s = [0, 0, 0, 0, 0, 0, 0, 1]
       \<or> (s ! 0 AND 0xFF00) = 0xFF00
       \<or> s = [0, 0, 0, 0, 0, 0, 0, 0]
       \<or> (s ! 0 AND 0xFFC0) = 0xFE80
       \<or> (s ! 0 AND 0xFE00) = 0xFC00
       \<or> (case to_ipv4_mapped s of Some v4 \<Rightarrow> v4_protected v4 | None \<Rightarrow> False))"

section \<open>State and world\<close>

record peer_stats_response =
  ps_peer :: peer
  ps_timestamp :: time_millis
  ps_json_compressed :: bytes
  ps_signature :: signature

record 's server =
  sv_environment :: "'s environment"
  sv_server_id :: server_id
  sv_kademlia :: "peer kademlia"
  sv_peer_self :: peer
  sv_heal_in_progress :: "(id \<times> time_millis) list"
  sv_seen_salts :: "(salt \<times> time_millis) list"
  sv_post_bundle_cache :: post_bundle_cache
  sv_post_bundle_feedback_cache :: post_bundle_feedback_cache
  sv_trending_hashtags :: "(string \<times> hyper_log_log) list"
  sv_trending_hashtags_response_cache :: "(time_millis \<times> trending_hashtag list) option"
  sv_request_counters :: "nat list"
  sv_request_rate_windows :: "request_rate_windows list"
  sv_peer_stats_response_cache :: "(time_millis \<times> peer_stats_response) option"

record url_preview_data =
  up_url :: string
  up_title :: string
  up_description :: string
  up_image_url :: string

record 's server_world =
  sw_post_env :: post_env
  sw_store :: "'s store_ops"
  sw_json :: payload_json
  sw_feedback_header_json :: "feedback_header codec"
  sw_announce_v1_json :: "announce_v1 codec"
  sw_announce_v2_json :: "announce_v2 codec"
  sw_get_post_bundle_json :: "get_post_bundle codec"
  sw_peer_buckets_json :: "peer list list codec"
  sw_peer_stats_request_json :: "unit codec"
  sw_sort_desc :: "(nat \<times> peer) list \<Rightarrow> (nat \<times> peer) list"

  sw_lowercase :: "string \<Rightarrow> string"
  sw_random :: "nat list"
  sw_ownership_prove :: "peer \<Rightarrow> bytes \<Rightarrow> time_millis \<Rightarrow> bool"
  sw_salt_dropped :: "salt \<Rightarrow> bool"
  sw_bundle_dropped :: "id \<Rightarrow> bool"
  sw_hashtag_dropped :: "string \<Rightarrow> bool"
  sw_stats_document :: "(request_kind \<times> nat \<times> nat \<times> nat \<times> nat) list \<Rightarrow> peer kademlia \<Rightarrow> 's environment \<Rightarrow> bytes"
  sw_is_ip_literal :: "string \<Rightarrow> bool"
  sw_lookup_host :: "string \<Rightarrow> ip_addr list res"
  sw_http_get :: "string \<Rightarrow> string \<Rightarrow> ip_addr list \<Rightarrow> (nat option \<times> bytes res list) res"
  sw_extract_url_preview :: "bytes \<Rightarrow> url_preview_data"
  sw_now_decode :: time_millis
  sw_now_sign :: time_millis
  sw_now :: time_millis

definition sw_crypto :: "'s server_world \<Rightarrow> crypto" where
  "sw_crypto W = pe_crypto (sw_post_env W)"

definition sw_compressor :: "'s server_world \<Rightarrow> compressor" where
  "sw_compressor W = pe_compressor (sw_post_env W)"

type_synonym ('s, 'a) server_run = "'s server \<Rightarrow> 's server \<times> 'a res"

definition sbind :: "('s, 'a) server_run \<Rightarrow> ('a \<Rightarrow> ('s, 'b) server_run) \<Rightarrow> ('s, 'b) server_run" where
  "sbind m f s = (case m s of (s', Inl e) \<Rightarrow> (s', Inl e) | (s', Inr x) \<Rightarrow> f x s')"

definition sret :: "'a \<Rightarrow> ('s, 'a) server_run" where "sret x s = (s, Inr x)"
definition slift :: "'a res \<Rightarrow> ('s, 'a) server_run" where "slift r s = (s, r)"
definition sget :: "('s server \<Rightarrow> 'a) \<Rightarrow> ('s, 'a) server_run" where "sget f s = (s, Inr (f s))"
definition supd :: "('s server \<Rightarrow> 's server) \<Rightarrow> ('s, unit) server_run" where "supd f s = (f s, Inr ())"
definition sfail :: "string \<Rightarrow> ('s, 'a) server_run" where "sfail msg = slift (Inl (Bail msg))"
definition sguard :: "bool \<Rightarrow> string \<Rightarrow> ('s, unit) server_run" where "sguard b msg = slift (ensure b msg)"

text \<open>A method of the environment, run on the server's.\<close>

definition on_env :: "('s, 'a) env_run \<Rightarrow> ('s, 'a) server_run" where
  "on_env m s = (case m (sv_environment s) of (e, r) \<Rightarrow> (s\<lparr>sv_environment := e\<rparr>, r))"

fun sfor :: "'a list \<Rightarrow> ('a \<Rightarrow> ('s, unit) server_run) \<Rightarrow> ('s, unit) server_run" where
  "sfor [] f = sret ()"
| "sfor (x # xs) f = sbind (f x) (\<lambda>_. sfor xs f)"

lemmas server_monad = sbind_def sret_def slift_def sget_def supd_def sfail_def sguard_def on_env_def

lemma sbind_Inr: "sbind m f s = (s', Inr y) \<longleftrightarrow> (\<exists>s1 x. m s = (s1, Inr x) \<and> f x s1 = (s', Inr y))"
  by (auto simp: sbind_def split: prod.splits sum.splits)

lemma sbind_simps [simp]:
  "sbind (sret x) f s = f x s"
  "sbind (slift (Inr y)) f1 s = f1 y s"
  "sbind (slift (Inl e)) f2 s = (s, Inl e)"
  "sbind (sget g) f3 s = f3 (g s) s"
  "sbind (supd h) f4 s = f4 () (h s)"
  by (simp_all add: server_monad)

section \<open>The peers\<close>

definition server_peer_score :: "peer \<Rightarrow> time_millis \<Rightarrow> real" where
  "server_peer_score p t = pow_decayed_day (p_pow_current_day p) t + pow_decayed_month (p_pow_current_month p) t"

definition add_potential_peer_to_kademlia :: "'s server_world \<Rightarrow> peer \<Rightarrow> time_millis \<Rightarrow> ('s, unit) server_run" where
  "add_potential_peer_to_kademlia W p t s =
     (case Peer_verify (sw_crypto W) p of
        Inl (Bail m) \<Rightarrow> (s, Inr ())
      | Inl (Panic m) \<Rightarrow> (s, Inl (Panic m))
      | Inr _ \<Rightarrow>
          if pp_pow (p_pow_initial p) < SERVER_KEY_POW_MIN then (s, Inr ())
          else (s\<lparr>sv_kademlia := add_peer p_id server_peer_score p t (sv_kademlia s)\<rparr>, Inr ()))"

definition peers_for_key :: "'s server_world \<Rightarrow> id \<Rightarrow> nat \<Rightarrow> ('s, peer list \<times> bool) server_run" where
  "peers_for_key W i n s = (s, get_peers_for_key p_id (sw_sort_desc W) (sv_kademlia s) i n)"

definition admissible :: "crypto \<Rightarrow> peer \<Rightarrow> bool" where
  "admissible C p \<longleftrightarrow> Peer_verify C p = Inr () \<and> SERVER_KEY_POW_MIN \<le> pp_pow (p_pow_initial p)"

text \<open>Loading the peers that were persisted: \<open>new\<close>. Reading them may fail, which is logged.\<close>


definition boot_kademlia :: "'s server_world \<Rightarrow> id \<Rightarrow> peer \<Rightarrow> time_millis \<Rightarrow> 's environment \<Rightarrow> peer kademlia" where
  "boot_kademlia W server_id peer_self now e =
     (let k = add_peer p_id server_peer_score peer_self now (kad_new server_id SERVER_KADEMLIA_MAX_PEERS_PER_BUCKET) in
      case env_config_get_struct (sw_store W) (sw_compressor W) (sw_peer_buckets_json W) CONFIG_KADEMLIA_PEER_BUCKETS e of
        Inr (Some peer_buckets) \<Rightarrow> fold (\<lambda>p k. add_peer p_id server_peer_score p now k) (concat peer_buckets) k
      | _ \<Rightarrow> k)"


section \<open>Maintenance of the table\<close>

definition MINIMUM_PEERS_TO_STOP_BOOTSTRAPPING :: nat where "MINIMUM_PEERS_TO_STOP_BOOTSTRAPPING = 8"
definition MILLIS_TO_WAIT_BETWEEN_BOOTSTRAPS :: duration_millis where
  "MILLIS_TO_WAIT_BETWEEN_BOOTSTRAPS = const_mul MILLIS_IN_MINUTE 2"
definition MILLIS_TO_WAIT_BETWEEN_ANNOUNCES :: duration_millis where
  "MILLIS_TO_WAIT_BETWEEN_ANNOUNCES = const_mul MILLIS_IN_MINUTE 1"
definition MILLIS_TO_WAIT_BETWEEN_PEER_DUMPS :: duration_millis where
  "MILLIS_TO_WAIT_BETWEEN_PEER_DUMPS = const_mul MILLIS_IN_MINUTE 15"

text \<open>What one turn of the loop sees: the services of each call by address (the first attempt and the fallback of an
  announcement apart), the bootstrap addresses as shuffled, the proof of ownership, whether the token is cancelled
  at each check, and the peer that \<open>random_element\<close> picks.\<close>

record maintenance_world =
  mw_bootstrap_addresses :: "string list"
  mw_services :: "string \<Rightarrow> runtime_services"
  mw_services_v1 :: "string \<Rightarrow> runtime_services"
  mw_ownership_payload :: "bytes option"
  mw_pick :: "peer list \<Rightarrow> peer"
  mw_cancelled :: "string \<Rightarrow> bool"
  mw_bootstrap_json :: "unit codec"
  mw_bootstrap_response_json :: "bootstrap_response codec"
  mw_announce_response_json :: "announce_response codec"

record maintenance_times =
  mt_last_bootstrap :: time_millis
  mt_last_announce :: time_millis
  mt_last_peers_dump :: time_millis

definition add_peers :: "'s server_world \<Rightarrow> peer list \<Rightarrow> time_millis \<Rightarrow> ('s, unit) server_run" where
  "add_peers W ps t = sfor ps (\<lambda>p. add_potential_peer_to_kademlia W p t)"

text \<open>A \<open>try\<close> block whose error is logged; a panic goes on.\<close>

definition stry :: "('s, unit) server_run \<Rightarrow> ('s server \<Rightarrow> 's server) \<Rightarrow> ('s, unit) server_run" where
  "stry m on_error s = (case m s of
     (s', Inl (Bail msg)) \<Rightarrow> (on_error s', Inr ())
   | (s', Inl (Panic msg)) \<Rightarrow> (s', Inl (Panic msg))
   | (s', Inr _) \<Rightarrow> (s', Inr ()))"

definition bootstrap_from :: "'s server_world \<Rightarrow> maintenance_world \<Rightarrow> time_millis \<Rightarrow> string \<Rightarrow> ('s, unit) server_run" where
  "bootstrap_from W M now address =
     sbind (sget sv_server_id) (\<lambda>sid.
     sbind (slift (rpc_server_unknown (mw_services M address) (sid_id sid) address BootstrapV1 (enc (mw_bootstrap_json M) ()))) (\<lambda>rx.
     sbind (sguard (rr_response_request_kind rx = BootstrapResponseV1) ''response kind'') (\<lambda>_.
     sbind (slift (of_option ''json'' (dec (mw_bootstrap_response_json M) (rr_bytes rx)))) (\<lambda>response.
       add_peers W (br_peers_random response) now))))"

definition needs_bootstrapping :: "'s server \<Rightarrow> bool" where
  "needs_bootstrapping s \<longleftrightarrow> kad_len (sv_kademlia s) < MINIMUM_PEERS_TO_STOP_BOOTSTRAPPING"

fun bootstrap_loop :: "'s server_world \<Rightarrow> maintenance_world \<Rightarrow> time_millis \<Rightarrow> string list \<Rightarrow> ('s, unit) server_run" where
  "bootstrap_loop W M now [] = sret ()"
| "bootstrap_loop W M now (address # rest) =
     (if mw_cancelled M address then sret () else
      sbind (stry (bootstrap_from W M now address) id) (\<lambda>_.
      sbind (sget needs_bootstrapping) (\<lambda>more. if more then bootstrap_loop W M now rest else sret ())))"

definition announce_accept :: "'s server_world \<Rightarrow> maintenance_world \<Rightarrow> time_millis \<Rightarrow> response_kind \<Rightarrow> rpc_response_rx
    \<Rightarrow> ('s, unit) server_run" where
  "announce_accept W M now kind rx =
     sbind (sguard (rr_response_request_kind rx = kind) ''response kind'') (\<lambda>_.
     sbind (slift (of_option ''json'' (dec (mw_announce_response_json M) (rr_bytes rx)))) (\<lambda>response.
       add_peers W (ar_peer_self response # ar_peers_nearest response) now))"

definition announce_call :: "'s server_world \<Rightarrow> maintenance_world \<Rightarrow> time_millis \<Rightarrow> peer \<Rightarrow> bytes \<Rightarrow> peer \<Rightarrow> ('s, unit) server_run" where
  "announce_call W M now peer_self proof_payload announce_peer =
     sbind (sget sv_server_id) (\<lambda>sid.
       case rpc_server_known (mw_services M (p_address announce_peer)) (sid_id sid) announce_peer AnnounceV2
              (enc (sw_announce_v2_json W) \<lparr>a2_peer_self = peer_self, a2_proof_payload = proof_payload\<rparr>) of
         Inr rx \<Rightarrow> announce_accept W M now AnnounceResponseV2 rx
       | Inl (Panic m) \<Rightarrow> slift (Inl (Panic m))
       | Inl (Bail m) \<Rightarrow>
           sbind (slift (rpc_server_known (mw_services_v1 M (p_address announce_peer)) (sid_id sid) announce_peer AnnounceV1
                           (enc (sw_announce_v1_json W) \<lparr>a1_peer_self = peer_self\<rparr>))) (\<lambda>rx.
             announce_accept W M now AnnounceResponseV1 rx))"

text \<open>A peer that answers neither version of the announcement is removed; no proof of ownership to send skips it.\<close>

definition announce_to :: "'s server_world \<Rightarrow> maintenance_world \<Rightarrow> time_millis \<Rightarrow> peer \<Rightarrow> peer \<Rightarrow> ('s, unit) server_run" where
  "announce_to W M now peer_self announce_peer =
     (if announce_peer = peer_self then add_potential_peer_to_kademlia W peer_self now
      else case mw_ownership_payload M of
        None \<Rightarrow> sret ()
      | Some proof_payload \<Rightarrow>
          stry (announce_call W M now peer_self proof_payload announce_peer)
            (\<lambda>s. s\<lparr>sv_kademlia := snd (remove_peer p_id (p_id announce_peer) now (sv_kademlia s))\<rparr>))"

fun announce_loop :: "'s server_world \<Rightarrow> maintenance_world \<Rightarrow> time_millis \<Rightarrow> peer \<Rightarrow> peer list \<Rightarrow> ('s, unit) server_run" where
  "announce_loop W M now peer_self [] = sret ()"
| "announce_loop W M now peer_self (p # ps) =
     (if mw_cancelled M (p_address p) then sret ()
      else sbind (announce_to W M now peer_self p) (\<lambda>_. announce_loop W M now peer_self ps))"

definition announce_candidates :: "'s server_world \<Rightarrow> maintenance_world \<Rightarrow> peer \<Rightarrow> ('s, peer list) server_run" where
  "announce_candidates W M peer_self =
     sbind (sget sv_kademlia) (\<lambda>k.
     sbind (peers_for_key W (p_id peer_self) 8) (\<lambda>(peers_nearest, _).
       sret ((case get_peer_with_lowest_score server_peer_score k of Some p \<Rightarrow> [p] | None \<Rightarrow> [])
         @ (if peers_nearest \<noteq> [] then [mw_pick M peers_nearest] else []))))"

definition maintain_kademlia_turn :: "'s server_world \<Rightarrow> maintenance_world \<Rightarrow> maintenance_times \<Rightarrow> ('s, maintenance_times) server_run" where
  "maintain_kademlia_turn W M mt =
     (let now = sw_now W in
      sbind (if time_sub now (mt_last_bootstrap mt) > MILLIS_TO_WAIT_BETWEEN_BOOTSTRAPS
             then sbind (sget needs_bootstrapping) (\<lambda>needed.
                    sbind (if needed then bootstrap_loop W M now (mw_bootstrap_addresses M) else sret ()) (\<lambda>_.
                      sret (mt\<lparr>mt_last_bootstrap := now\<rparr>)))
             else sret mt) (\<lambda>mt1.
      sbind (if time_sub now (mt_last_announce mt1) > MILLIS_TO_WAIT_BETWEEN_ANNOUNCES
             then sbind (sget sv_peer_self) (\<lambda>peer_self.
                    sbind (announce_candidates W M peer_self) (\<lambda>ps.
                    sbind (announce_loop W M now peer_self ps) (\<lambda>_.
                      sret (mt1\<lparr>mt_last_announce := now\<rparr>))))
             else sret mt1) (\<lambda>mt2.
      sbind (sget sv_kademlia) (\<lambda>k.
        if mt_last_peers_dump mt2 < k_peers_last_changed k
           \<and> time_sub now (mt_last_peers_dump mt2) > MILLIS_TO_WAIT_BETWEEN_PEER_DUMPS
        then sbind (stry (on_env (env_config_put_struct (sw_store W) (sw_compressor W) (sw_peer_buckets_json W)
                      CONFIG_KADEMLIA_PEER_BUCKETS (k_peer_buckets k))) id) (\<lambda>_.
               sret (mt2\<lparr>mt_last_peers_dump := k_peers_last_changed k\<rparr>))
        else sret mt2))))"


section \<open>What no operation of the server does to the table\<close>

text \<open>A relation on states that holds across a computation and composes.\<close>

definition keeps :: "('s server \<Rightarrow> 's server \<Rightarrow> bool) \<Rightarrow> ('s, 'a) server_run \<Rightarrow> bool" where
  "keeps R m \<longleftrightarrow> (\<forall>s. R s (fst (m s)))"

named_theorems keeps_intros "rules that take a server computation apart"

locale state_preorder =
  fixes R :: "'s server \<Rightarrow> 's server \<Rightarrow> bool"
  assumes refl: "R s s"
    and trans: "R s s' \<Longrightarrow> R s' s'' \<Longrightarrow> R s s''"
begin

lemma keeps_pure: "keeps R (sret x)" "keeps R (slift r)" "keeps R (sget g)" "keeps R (sfail msg)" "keeps R (sguard b msg)"
  by (simp_all add: keeps_def server_monad refl)

lemma keeps_bind: "keeps R m \<Longrightarrow> (\<And>x. keeps R (f x)) \<Longrightarrow> keeps R (sbind m f)"
  unfolding keeps_def sbind_def
  by (auto split: prod.splits sum.splits) (metis fst_conv trans)+

lemma keeps_for: "(\<And>x. keeps R (f x)) \<Longrightarrow> keeps R (sfor xs f)"
  by (induction xs) (auto intro: keeps_pure keeps_bind)

lemma keeps_try: "keeps R m \<Longrightarrow> (\<And>s. R s (g s)) \<Longrightarrow> keeps R (stry m g)"
  unfolding keeps_def stry_def by (auto split: prod.splits sum.splits err.splits) (metis fst_conv trans)+

lemmas keeps_rules = keeps_pure keeps_bind keeps_for keeps_try

end

lemma keepsI: "(\<And>s. R s (fst (m s))) \<Longrightarrow> keeps R m"
  by (simp add: keeps_def)

lemma keeps_cases [keeps_intros]:
  "(b \<Longrightarrow> keeps R x) \<Longrightarrow> (\<not> b \<Longrightarrow> keeps R y) \<Longrightarrow> keeps R (if b then x else y)"
  "(o1 = None \<Longrightarrow> keeps R x) \<Longrightarrow> (\<And>v. o1 = Some v \<Longrightarrow> keeps R (f v)) \<Longrightarrow> keeps R (case o1 of None \<Rightarrow> x | Some v \<Rightarrow> f v)"
  "(\<And>u v. p = (u, v) \<Longrightarrow> keeps R (g u v)) \<Longrightarrow> keeps R (case p of (u, v) \<Rightarrow> g u v)"
  "keeps R (h t) \<Longrightarrow> keeps R (Let t h)"
  by (auto split: option.splits prod.splits)

text \<open>What the maintenance of the table may write: the table, by admission and removal, and the store.\<close>

locale maintenance_frame = state_preorder R for R :: "'s server \<Rightarrow> 's server \<Rightarrow> bool" +
  fixes W :: "'s server_world"
  assumes potential: "keeps R (add_potential_peer_to_kademlia W p t)"
    and env_writable: "R s (s\<lparr>sv_environment := e\<rparr>)"
    and expels: "R s (s\<lparr>sv_kademlia := snd (remove_peer p_id i t (sv_kademlia s))\<rparr>)"
begin

lemma table_reads: "keeps R (on_env m)" "keeps R (peers_for_key W i n)"
  by (auto intro!: keepsI env_writable refl simp: on_env_def peers_for_key_def split: prod.splits)

lemma tries: "keeps R m \<Longrightarrow> keeps R (stry m id)"
  by (rule keeps_try) (simp_all add: refl)

lemmas maintenance_rules = tries keeps_rules potential table_reads keeps_intros

lemma add_peers_keep: "keeps R (add_peers W ps t)"
  unfolding add_peers_def by (intro maintenance_rules)

lemma bootstrap_from_keeps: "keeps R (bootstrap_from W M now a)"
  unfolding bootstrap_from_def by (intro maintenance_rules add_peers_keep)

lemma bootstrap_loop_keeps: "keeps R (bootstrap_loop W M now as)"
proof (induction "as")
  case (Cons a "as")
  then show ?case by (simp only: bootstrap_loop.simps) (intro maintenance_rules bootstrap_from_keeps)
qed (simp add: keeps_pure)

lemma announce_to_keeps: "keeps R (announce_to W M now ps p)"
proof -
  have "keeps R (announce_accept W M now kind rx)" for kind rx
    unfolding announce_accept_def by (intro maintenance_rules add_peers_keep)
  then have "keeps R (announce_call W M now ps pp p)" for pp
    unfolding announce_call_def
    by (intro keeps_bind keeps_pure) (auto intro!: keeps_bind keeps_pure split: sum.splits err.splits)
  then show ?thesis unfolding announce_to_def by (intro maintenance_rules expels)
qed

lemma announce_loop_keeps: "keeps R (announce_loop W M now ps ps')"
proof (induction ps')
  case (Cons p ps')
  then show ?case by (simp only: announce_loop.simps) (intro maintenance_rules announce_to_keeps)
qed (simp add: keeps_pure)

lemma maintain_kademlia_keeps: "keeps R (maintain_kademlia_turn W M mt)"
  unfolding maintain_kademlia_turn_def announce_candidates_def
  by (intro maintenance_rules bootstrap_loop_keeps announce_loop_keeps)

end

inductive admission_step :: "crypto \<Rightarrow> peer kademlia \<Rightarrow> peer kademlia \<Rightarrow> bool" for C where
  admit: "admissible C p \<Longrightarrow> admission_step C k (add_peer p_id server_peer_score p t k)"
| expel: "admission_step C k (snd (remove_peer p_id i t k))"

definition table_admits :: "crypto \<Rightarrow> 's server \<Rightarrow> 's server \<Rightarrow> bool" where
  "table_admits C s s' \<longleftrightarrow> (admission_step C)\<^sup>*\<^sup>* (sv_kademlia s) (sv_kademlia s')"

interpretation table: state_preorder "table_admits C"
  by unfold_locales (auto simp: table_admits_def)

lemma table_admits_same: "sv_kademlia s' = sv_kademlia s \<Longrightarrow> table_admits C s s'"
  by (simp add: table_admits_def)

lemma add_potential_keeps: "keeps (table_admits (sw_crypto W)) (add_potential_peer_to_kademlia W p t)"
  by (auto simp: keeps_def add_potential_peer_to_kademlia_def table_admits_def admissible_def
      intro!: r_into_rtranclp admit split: sum.splits err.splits)

interpretation table_maintenance: maintenance_frame "table_admits (sw_crypto W)" W for W
  by unfold_locales (auto intro!: add_potential_keeps expel r_into_rtranclp simp: table_admits_def)

lemma set_concat_update: "i < length bs \<Longrightarrow> set b \<subseteq> X \<union> set (bs ! i) \<Longrightarrow> set (concat (bs[i := b])) \<subseteq> X \<union> set (concat bs)"
  by (auto dest!: subsetD[OF set_update_subset_insert])

lemma set_concat_update': "(i < length bs \<Longrightarrow> set b \<subseteq> X \<union> set (bs ! i)) \<Longrightarrow> set (concat (bs[i := b])) \<subseteq> X \<union> set (concat bs)"
  using set_concat_update[of i bs b X] by (cases "i < length bs") (auto simp: list_update_beyond)

lemma all_peers_add: "set (get_all_peers (add_peer pid score p t k)) \<subseteq> insert p (set (get_all_peers k))"
proof -
  let ?i = "bucket_id k (pid p)"
  have "set (add_to_bucket pid score m t p b) \<subseteq> insert p (set b)" for m b
    using set_update_subset_insert by (fastforce simp: add_to_bucket_def split: option.splits if_splits)
  then have "set (concat (bs[?i := add_to_bucket pid score m t p (bs ! ?i)])) \<subseteq> {p} \<union> set (concat bs)" for m bs
    by (intro set_concat_update') simp
  then show ?thesis by (simp add: get_all_peers_def add_peer_def Let_def)
qed

lemma all_peers_remove: "set (get_all_peers (snd (remove_peer pid i t k))) \<subseteq> set (get_all_peers k)"
proof -
  let ?n = "bucket_id k i"
  have "set (swap_remove j b) \<subseteq> set b" if "j < length b" for j and b :: "'a list"
  proof -
    have "last b \<in> set b" using that by (cases b) auto
    then have "set (b[j := last b]) \<subseteq> set b" using set_update_subset_insert[of b j "last b"] by auto
    then show ?thesis by (auto simp: swap_remove_def dest!: in_set_butlastD)
  qed
  then have "set (concat (bs[?n := swap_remove j (bs ! ?n)])) \<subseteq> {} \<union> set (concat bs)" if "j < length (bs ! ?n)" for j and bs :: "'a list list"
    using that by (intro set_concat_update') simp
  then show ?thesis by (auto simp: get_all_peers_def remove_peer_def Let_def dest!: position_Some split: option.splits) blast
qed

lemma Peer_verify_wf:
  assumes "crypto_ok C" "Peer_verify C p = Inr ()"
  shows "wf_id (p_id p)"
  using assms(2)
  by (auto simp: Peer_verify_def verify_server_id_def Let_def ensure_def server_pow_hash_to_id_def wf_newtypes split: if_splits)

text \<open>The table after any admissions: it keeps its invariant, and a peer that was not in it before did its proof of work and
  is signed.\<close>

lemma admission_steps:
  assumes "(admission_step C)\<^sup>*\<^sup>* k k'" "crypto_ok C"
  shows "set (get_all_peers k') \<subseteq> set (get_all_peers k) \<union> {p. admissible C p}"
    "kad_ok p_id k \<Longrightarrow> kad_ok p_id k' \<and> k_id k' = k_id k \<and> k_max_peers_per_bucket k' = k_max_peers_per_bucket k"
proof -
  show "set (get_all_peers k') \<subseteq> set (get_all_peers k) \<union> {p. admissible C p}"
    using assms(1)
  proof (induction rule: rtranclp_induct)
    case (step k1 k2)
    from step.hyps(2) show ?case
      by cases (use step.IH all_peers_add all_peers_remove in \<open>fastforce+\<close>)
  qed simp
  show "kad_ok p_id k' \<and> k_id k' = k_id k \<and> k_max_peers_per_bucket k' = k_max_peers_per_bucket k" if "kad_ok p_id k"
    using assms(1)
  proof (induction rule: rtranclp_induct)
    case (step k1 k2)
    from step.hyps(2) show ?case
      by cases (use step.IH Peer_verify_wf[OF assms(2)] in \<open>auto intro!: kad_ok_add kad_ok_remove simp: admissible_def\<close>)
  qed (use that in simp)
qed

end
