(* ===== verification/Handlers.thy ===== *)
theory Handlers
  imports Server
begin

text \<open>
  \<open>server/handlers/dispatch.rs\<close>: one definition per handler, with its guards in the order of the code, and the
  routing of a request to its handler. \<open>json\<close> bodies of responses are kept as values (\<open>response\<close>); their encoding to bytes is the
  parameter \<open>encode_response\<close> of the envelope.
\<close>

datatype response =
    ErrorBody error_response
  | PingBody ping_response
  | BootstrapBody bootstrap_response
  | AnnounceBody response_kind announce_response
  | GetPostBundleBody get_post_bundle_response
  | GetFeedbackBody get_post_bundle_feedback_response
  | ClaimBody submit_post_claim_response
  | CommitBody submit_post_commit_token
  | FeedbackBody submit_post_feedback_response
  | HealClaimBody heal_claim_response
  | HealCommitBody bool
  | HealFeedbackBody nat
  | CacheBundleBody bool
  | CacheFeedbackBody bool
  | UrlPreviewBody url_preview_data
  | TrendingBody "trending_hashtag list"
  | PeerStatsBody peer_stats_response

fun response_kind_of :: "response \<Rightarrow> response_kind" where
  "response_kind_of (ErrorBody _) = ErrorResponseV1"
| "response_kind_of (PingBody _) = PingResponseV1"
| "response_kind_of (BootstrapBody _) = BootstrapResponseV1"
| "response_kind_of (AnnounceBody k _) = k"
| "response_kind_of (GetPostBundleBody _) = GetPostBundleResponseV1"
| "response_kind_of (GetFeedbackBody _) = GetPostBundleFeedbackResponseV1"
| "response_kind_of (ClaimBody _) = SubmitPostClaimResponseV1"
| "response_kind_of (CommitBody _) = SubmitPostCommitResponseV1"
| "response_kind_of (FeedbackBody _) = SubmitPostFeedbackResponseV1"
| "response_kind_of (HealClaimBody _) = HealPostBundleClaimResponseV1"
| "response_kind_of (HealCommitBody _) = HealPostBundleCommitResponseV1"
| "response_kind_of (HealFeedbackBody _) = HealPostBundleFeedbackResponseV1"
| "response_kind_of (CacheBundleBody _) = CachePostBundleResponseV1"
| "response_kind_of (CacheFeedbackBody _) = CachePostBundleFeedbackResponseV1"
| "response_kind_of (UrlPreviewBody _) = FetchUrlPreviewResponseV1"
| "response_kind_of (TrendingBody _) = TrendingHashtagsFetchResponseV1"
| "response_kind_of (PeerStatsBody _) = PeerStatsResponseV1"

section \<open>Ping, bootstrap and announce\<close>

definition x_Ping :: "('s, response) server_run" where
  "x_Ping = sbind (sget sv_peer_self) (\<lambda>p. sret (PingBody \<lparr>pr_peer = p\<rparr>))"

text \<open>The words of the random generator may run out in the model; the loop of the code goes on drawing.\<close>

definition x_Bootstrap :: "'s server_world \<Rightarrow> ('s, response) server_run" where
  "x_Bootstrap W = sbind (sget sv_kademlia) (\<lambda>k.
     slift (case get_peers_random k BOOTSTRAP_V1_NUM_PEERS (sw_random W) of
       None \<Rightarrow> Inl (Panic ''out of random words'')
     | Some (ps, rs) \<Rightarrow> Inr (BootstrapBody \<lparr>br_peers_random = ps\<rparr>)))"

definition announce_reply :: "'s server_world \<Rightarrow> response_kind \<Rightarrow> peer \<Rightarrow> ('s, response) server_run" where
  "announce_reply W kind p =
     sbind (add_potential_peer_to_kademlia W p (sw_now W)) (\<lambda>_.
     sbind (peers_for_key W (p_id p) ANNOUNCE_V1_NUM_PEERS) (\<lambda>(peers_nearest, _).
     sbind (sget sv_peer_self) (\<lambda>me.
       sret (AnnounceBody kind \<lparr>ar_peer_self = me, ar_peers_nearest = peers_nearest\<rparr>))))"

definition x_AnnounceV1 :: "'s server_world \<Rightarrow> bytes \<Rightarrow> ('s, response) server_run" where
  "x_AnnounceV1 W bs =
     sbind (slift (of_option ''json'' (dec (sw_announce_v1_json W) bs))) (\<lambda>request.
       announce_reply W AnnounceResponseV1 (a1_peer_self request))"

definition x_AnnounceV2 :: "'s server_world \<Rightarrow> bytes \<Rightarrow> ('s, response) server_run" where
  "x_AnnounceV2 W bs =
     sbind (slift (of_option ''json'' (dec (sw_announce_v2_json W) bs))) (\<lambda>request.
       if \<not> sw_ownership_prove W (a2_peer_self request) (a2_proof_payload request) (sw_now W)
       then sfail ''AnnounceV2 failed ownership proof''
       else announce_reply W AnnounceResponseV2 (a2_peer_self request))"


section \<open>Reading bundles\<close>

definition bucket_elapsed :: "bucket_location \<Rightarrow> time_millis \<Rightarrow> bool" where
  "bucket_elapsed b now \<longleftrightarrow>
     now > time_add_dur (time_add_dur (bl_bucket_time_millis b) (bl_duration b)) ENCODED_POST_BUNDLE_V1_ELAPSED_THRESHOLD_MILLIS"

definition fresh_header :: "time_millis \<Rightarrow> id \<Rightarrow> bool \<Rightarrow> bool \<Rightarrow> peer \<Rightarrow> post_bundle_header" where
  "fresh_header t loc overflowed sealed p =
     \<lparr>pbh_time_millis = t, pbh_location_id = loc, pbh_overflowed = overflowed, pbh_sealed = sealed, pbh_num_posts = 0,
      pbh_encoded_post_ids = [], pbh_encoded_post_lengths = [], pbh_encoded_post_healed = {}, pbh_peer = p,
      pbh_signature = Signature_zero\<rparr>"

definition server_key :: "'s server \<Rightarrow> signature_key" where
  "server_key s = k_signature_key (sid_keys (sv_server_id s))"

text \<open>Rewriting the header of stored bundle bytes and signing it again.\<close>

definition resign_bundle :: "'s server_world \<Rightarrow> (post_bundle_header \<Rightarrow> post_bundle_header) \<Rightarrow> bytes \<Rightarrow> ('s, bytes) server_run" where
  "resign_bundle W change bs =
     sbind (sget server_key) (\<lambda>sk.
     sbind (slift (pb_from_bytes (pj_bundle_header (sw_json W)) bs True)) (\<lambda>b.
     sbind (slift (pbh_signature_generate (sw_crypto W) sk (change (pb_header b)))) (\<lambda>h.
       sret (pb_to_bytes (pj_bundle_header (sw_json W)) (b\<lparr>pb_header := h\<rparr>)))))"

definition stored_bundle_refreshed :: "'s server_world \<Rightarrow> bucket_location \<Rightarrow> post_bundle_metadata \<Rightarrow> bytes option
    \<Rightarrow> ('s, bytes option) server_run" where
  "stored_bundle_refreshed W b m stored =
     (let now = sw_now W; loc = bl_location_id b in
      if pm_sealed m then sret stored
      else if bucket_elapsed b now then
        sbind (case stored of
            Some old \<Rightarrow>
              sbind (resign_bundle W (\<lambda>h. h\<lparr>pbh_time_millis := now, pbh_sealed := True\<rparr>) old) (\<lambda>new.
              sbind (on_env (put_post_bundle_bytes (sw_store W) now loc new)) (\<lambda>_. sret (Some new)))
          | None \<Rightarrow> sret None) (\<lambda>result.
        sbind (on_env (put_post_bundle_metadata (sw_store W) now loc (m\<lparr>pm_sealed := True\<rparr>) 0)) (\<lambda>_. sret result))
      else (case stored of
          Some old \<Rightarrow> sbind (resign_bundle W (\<lambda>h. h\<lparr>pbh_time_millis := now\<rparr>) old) (\<lambda>new. sret (Some new))
        | None \<Rightarrow> sret None))"

definition own_post_bundle :: "'s server_world \<Rightarrow> bucket_location \<Rightarrow> peer \<Rightarrow> ('s, bytes) server_run" where
  "own_post_bundle W b peer_self =
     (let now = sw_now W; loc = bl_location_id b in
      sbind (on_env (get_post_bundle_metadata (sw_store W) now loc)) (\<lambda>metadata.
      sbind (case metadata of
          None \<Rightarrow> sret None
        | Some m \<Rightarrow> sbind (on_env (get_post_bundle_bytes (sw_store W) now loc)) (stored_bundle_refreshed W b m)) (\<lambda>found.
        case found of
          Some bs \<Rightarrow> sret bs
        | None \<Rightarrow>
            sbind (sget server_key) (\<lambda>sk.
            sbind (slift (pbh_signature_generate (sw_crypto W) sk
                     (fresh_header now loc False (bucket_elapsed b now) peer_self))) (\<lambda>h.
              sret (pb_to_bytes (pj_bundle_header (sw_json W)) \<lparr>pb_header = h, pb_encoded_posts_bytes = []\<rparr>))))))"

definition bundle_cache_get :: "'s server_world \<Rightarrow> bucket_location \<Rightarrow> id list \<Rightarrow> peer \<Rightarrow> ('s, get_cache_result) server_run" where
  "bundle_cache_get W b already peer_self s =
     (case pbc_on_get (sw_crypto W) (sw_bundle_dropped W) b already peer_self (server_key s) (sw_now W) (sv_post_bundle_cache s) of
        Inl e \<Rightarrow> (s, Inl e)
      | Inr (r, c) \<Rightarrow> (s\<lparr>sv_post_bundle_cache := c\<rparr>, Inr r))"

definition feedback_cache_get :: "'s server_world \<Rightarrow> bucket_location \<Rightarrow> id list \<Rightarrow> peer \<Rightarrow> ('s, get_cache_result) server_run" where
  "feedback_cache_get W b already peer_self s =
     (case pfc_on_get (sw_crypto W) (sw_bundle_dropped W) b already peer_self (server_key s) (sw_now W) (sv_post_bundle_feedback_cache s) of
        Inl e \<Rightarrow> (s, Inl e)
      | Inr (r, c) \<Rightarrow> (s\<lparr>sv_post_bundle_feedback_cache := c\<rparr>, Inr r))"

definition x_GetPostBundle :: "'s server_world \<Rightarrow> bytes \<Rightarrow> ('s, response) server_run" where
  "x_GetPostBundle W bs =
     sbind (slift (of_option ''json'' (dec (sw_get_post_bundle_json W) bs))) (\<lambda>request.
     let b = gpb_bucket_location request in
     sbind (slift (BucketLocation_validate (sw_crypto W) b)) (\<lambda>_.
     sbind (add_peers W (gpb_peers_visited request) (sw_now W)) (\<lambda>_.
     sbind (sget sv_peer_self) (\<lambda>peer_self.
     sbind (peers_for_key W (bl_location_id b) REDUNDANT_SERVERS_PER_POST) (\<lambda>(peers_nearer, among).
     sbind (if among then sbind (own_post_bundle W b peer_self) (\<lambda>x. sret (Some x)) else sret None) (\<lambda>post_bundle.
     sbind (bundle_cache_get W b (gpb_already_retrieved_peer_ids request) peer_self) (\<lambda>cached.
       sret (GetPostBundleBody \<lparr>gr_peers_nearer = peers_nearer, gr_cache_request_token = gc_cache_request_token cached,
         gr_post_bundles_cached = gc_cached_items cached, gr_post_bundle = post_bundle\<rparr>))))))))"

text \<open>The feedback handler takes the same body and does not validate the location.\<close>

definition x_GetPostBundleFeedback :: "'s server_world \<Rightarrow> bytes \<Rightarrow> ('s, response) server_run" where
  "x_GetPostBundleFeedback W bs =
     sbind (slift (of_option ''json'' (dec (sw_get_post_bundle_json W) bs))) (\<lambda>request.
     let b = gpb_bucket_location request; now = sw_now W; loc = bl_location_id b in
     sbind (add_peers W (gpb_peers_visited request) now) (\<lambda>_.
     sbind (peers_for_key W loc REDUNDANT_SERVERS_PER_POST) (\<lambda>(peers_nearer, among).
     sbind (if among then
              sbind (on_env (get_post_bundle_metadata (sw_store W) now loc)) (\<lambda>metadata.
                if metadata \<noteq> None
                then sbind (on_env (get_post_bundle_encoded_post_feedbacks_bytes (sw_store W) now loc)) (\<lambda>x. sret (Some x))
                else sret None)
            else sret None) (\<lambda>feedbacks.
     sbind (sget sv_peer_self) (\<lambda>peer_self.
     sbind (sget server_key) (\<lambda>sk.
     let bundle = map_option (\<lambda>x.
           let h = fh_signature_generate (sw_crypto W) sk \<lparr>fh_time_millis = now, fh_location_id = loc,
                     fh_feedbacks_bytes_hash = hashing_hash (sw_crypto W) x, fh_peer = peer_self, fh_signature = Signature_zero\<rparr>
           in fbb_to_bytes (sw_feedback_header_json W) \<lparr>fbb_header = h, fbb_feedbacks_bytes = x\<rparr>) feedbacks in
     sbind (feedback_cache_get W b (gpb_already_retrieved_peer_ids request) peer_self) (\<lambda>cached.
       sret (GetFeedbackBody \<lparr>gf_peers_nearer = peers_nearer, gf_cache_request_token = gc_cache_request_token cached,
         gf_post_bundle_feedbacks_cached = gc_cached_items cached, gf_encoded_post_bundle_feedback = bundle\<rparr>))))))))"


section \<open>Submitting a post\<close>

definition bucket_duration_known :: "bucket_location \<Rightarrow> bool" where
  "bucket_duration_known b \<longleftrightarrow> bl_duration b \<in> set BUCKET_DURATIONS"

text \<open>The checks of a claim, which touch no state: the decoded post and its author.\<close>

definition check_referenced_post :: "'s server_world \<Rightarrow> submit_post_claim \<Rightarrow> client_id \<Rightarrow> unit res" where
  "check_referenced_post W request author =
     (let b = sc_bucket_location request in
      if bl_bucket_type b = ReplyToPost \<or> bl_bucket_type b = Sequel then
        rbind (of_option ''posts require the original post's header bytes'' (sc_referenced_post_header_bytes request)) (\<lambda>original_bytes.
        rbind (decode_from_bytes (sw_post_env W) original_bytes (cid_id author) False False) (\<lambda>original.
        rbind (ensure (ep_post_id original = bl_base_id b) ''Referenced post header's post_id does not match'') (\<lambda>_.
          if bl_bucket_type b = Sequel
          then rbind (post_header_client_id (sw_crypto W) (ep_header original)) (\<lambda>original_author.
                 ensure (original_author = author) ''Sequel post author does not match original post author'')
          else Inr ())))
      else Inr ())"

definition check_claim :: "'s server_world \<Rightarrow> peer_pow option \<Rightarrow> submit_post_claim \<Rightarrow> encoded_post res" where
  "check_claim W pow request =
     (let b = sc_bucket_location request in
      rbind (of_option ''We need pow for a submit post claim'' pow) (\<lambda>pow.
      rbind (BucketLocation_validate (sw_crypto W) b) (\<lambda>_.
      rbind (ensure (bucket_duration_known b) ''Unrecognised bucket duration provided'') (\<lambda>_.
      rbind (decode_from_bytes (sw_post_env W) (sc_encoded_post_bytes request) (bl_base_id b) False False) (\<lambda>post.
      rbind (get_minimum_post_pow (ph_post_length (ep_header post)) (length (ph_linked_base_ids (ep_header post))) (bl_duration b)) (\<lambda>pow_minimum.
      rbind (ensure (pow_minimum \<le> pp_pow pow) ''Insufficient proof of work for this post'') (\<lambda>_.
      rbind (round_down_to_bucket_start (ph_time_millis (ep_header post)) (bl_duration b)) (\<lambda>timestamp.
      rbind (ensure (timestamp = bl_bucket_time_millis b) ''The post timestamp does not match the bucket'') (\<lambda>_.
      rbind (post_header_client_id (sw_crypto W) (ep_header post)) (\<lambda>author.
      rbind (ensure (bl_base_id b \<in> set (ph_linked_base_ids (ep_header post))) ''The base_id is not related to the post'') (\<lambda>_.
      rbind (ensure (\<not> (bl_bucket_type b = User \<and> bl_base_id b \<noteq> cid_id author))
              ''Only the posting user is allowed to post to a bucket of type USER'') (\<lambda>_.
      rbind (check_referenced_post W request author) (\<lambda>_.
      rbind (duration_abs (time_sub (sw_now W) (ph_time_millis (ep_header post)))) (\<lambda>delta.
      rbind (ensure (delta \<le> CLIENT_POST_TIMESTAMP_DELTA_THRESHOLD) ''The post timestamp delta is too large'') (\<lambda>_.
        Inr post)))))))))))))))"

definition grant_update :: "bucket_location \<Rightarrow> time_millis \<Rightarrow> post_bundle_metadata \<Rightarrow> post_bundle_metadata" where
  "grant_update b now m =
     (let granted = pm_num_posts_granted m + 1;
          overflowed = (pm_num_posts m > unat ENCODED_POST_BUNDLE_V1_OVERFLOWED_NUM_POSTS
            \<or> granted > unat ENCODED_POST_BUNDLE_V1_OVERFLOWED_NUM_POSTS_GRANTED)
      in m\<lparr>pm_num_posts_granted := granted, pm_overflowed := overflowed, pm_sealed := overflowed \<or> bucket_elapsed b now\<rparr>)"

definition grant_claim :: "'s server_world \<Rightarrow> bucket_location \<Rightarrow> id \<Rightarrow> ('s, submit_post_claim_token option) server_run" where
  "grant_claim W b post_id =
     (let now = sw_now W; loc = bl_location_id b in
      sbind (on_env (get_post_bundle_metadata (sw_store W) now loc)) (\<lambda>metadata.
      let m = (case metadata of None \<Rightarrow> PostBundleMetadata_zero | Some m \<Rightarrow> m) in
      sbind (if pm_sealed m then sret m
             else if pm_num_posts_granted m + 1 > 255 then slift (Inl (Panic ''attempt to add with overflow''))
             else let m' = grant_update b now m in
               sbind (on_env (put_post_bundle_metadata (sw_store W) now loc m' 0)) (\<lambda>_. sret m')) (\<lambda>m'.
      if pm_sealed m' then sret None
      else sbind (sget (\<lambda>s. (sv_peer_self s, server_key s))) (\<lambda>(me, sk).
        sret (Some (claim_token_new (sw_crypto W) me b post_id sk))))))"

text \<open>The trending sketches count the author once for every tag that the post backs with a base id.\<close>

definition track_hashtag :: "'s server_world \<Rightarrow> encoded_post \<Rightarrow> string \<Rightarrow> (string \<times> hyper_log_log) list \<Rightarrow> (string \<times> hyper_log_log) list" where
  "track_hashtag W post tag table =
     (case Id_from_hashtag_str (sw_crypto W) (sw_lowercase W) tag of
        Inl e \<Rightarrow> table
      | Inr tag_id \<Rightarrow>
          if tag_id \<notin> set (ph_linked_base_ids (ep_header post)) then table
          else let sketch = (case map_of table tag of None \<Rightarrow> hll_new | Some h \<Rightarrow> h)
               in AList.update tag (hll_insert (sw_crypto W) (vkb_bytes (ph_verification_key_bytes (ep_header post))) sketch) table)"

definition track_hashtags :: "'s server_world \<Rightarrow> submit_post_claim \<Rightarrow> encoded_post \<Rightarrow> ('s, unit) server_run" where
  "track_hashtags W request post =
     (if bl_bucket_type (sc_bucket_location request) = User \<and> sc_referenced_hashtags request \<noteq> []
      then supd (\<lambda>s. s\<lparr>sv_trending_hashtags := fold (track_hashtag W post) (sc_referenced_hashtags request)
             (List.filter (\<lambda>(tag, h). \<not> sw_hashtag_dropped W tag) (sv_trending_hashtags s))\<rparr>)
      else sret ())"

definition x_SubmitPostClaim :: "'s server_world \<Rightarrow> peer_pow option \<Rightarrow> bytes \<Rightarrow> ('s, response) server_run" where
  "x_SubmitPostClaim W pow bs =
     sbind (sguard (pow \<noteq> None) ''We need pow for a submit post claim'') (\<lambda>_.
     sbind (slift (submit_post_claim_from_bytes (sw_json W) bs)) (\<lambda>request.
     let b = sc_bucket_location request in
     sbind (slift (check_claim W pow request)) (\<lambda>post.
     sbind (peers_for_key W (bl_location_id b) REDUNDANT_SERVERS_PER_POST) (\<lambda>(peers_nearer, among).
     sbind (if among then grant_claim W b (ep_post_id post) else sret None) (\<lambda>token.
     sbind (if token \<noteq> None then track_hashtags W request post else sret ()) (\<lambda>_.
       sret (ClaimBody \<lparr>scr_peers_nearer = peers_nearer, scr_submit_post_claim_token = token\<rparr>)))))))"

text \<open>The commit does not verify the token's signature, and does not look at whether the bundle is sealed.\<close>

definition load_bundle :: "'s server_world \<Rightarrow> post_bundle_header \<Rightarrow> bytes option \<Rightarrow> post_bundle res" where
  "load_bundle W empty_header stored = (case stored of
     Some bs \<Rightarrow> pb_from_bytes (pj_bundle_header (sw_json W)) bs True
   | None \<Rightarrow> Inr \<lparr>pb_header = empty_header, pb_encoded_posts_bytes = []\<rparr>)"

definition append_post :: "bucket_location \<Rightarrow> time_millis \<Rightarrow> post_bundle_metadata \<Rightarrow> id \<Rightarrow> nat \<Rightarrow> post_bundle_header \<Rightarrow> post_bundle_header res" where
  "append_post b now m post_id len h =
     (if unat (pbh_num_posts h) + 1 > 255 then Inl (Panic ''attempt to add with overflow'') else
      let n = pbh_num_posts h + 1;
          overflowed = (n > ENCODED_POST_BUNDLE_V1_OVERFLOWED_NUM_POSTS
            \<or> pm_num_posts_granted m > unat ENCODED_POST_BUNDLE_V1_OVERFLOWED_NUM_POSTS_GRANTED)
      in Inr (h\<lparr>pbh_time_millis := now, pbh_num_posts := n, pbh_overflowed := overflowed,
                pbh_sealed := overflowed \<or> bucket_elapsed b now,
                pbh_encoded_post_ids := pbh_encoded_post_ids h @ [post_id],
                pbh_encoded_post_lengths := pbh_encoded_post_lengths h @ [len]\<rparr>))"

definition checked_sum :: "nat list \<Rightarrow> nat res" where
  "checked_sum ns = (if sum_list ns > USIZE_MAX then Inl (Panic ''attempt to add with overflow'') else Inr (sum_list ns))"

definition store_committed :: "'s server_world \<Rightarrow> bucket_location \<Rightarrow> bytes \<Rightarrow> id \<Rightarrow> ('s, unit) server_run" where
  "store_committed W b post_bytes post_id =
     (let now = sw_now W; loc = bl_location_id b in
      sbind (on_env (get_post_bundle_metadata (sw_store W) now loc)) (\<lambda>metadata.
      sbind (on_env (get_post_bundle_bytes (sw_store W) now loc)) (\<lambda>stored.
      let m = (case metadata of None \<Rightarrow> PostBundleMetadata_zero | Some m \<Rightarrow> m) in
      sbind (sget (\<lambda>s. (sv_peer_self s, server_key s))) (\<lambda>(me, sk).
      sbind (slift (load_bundle W (fresh_header 0 loc False False me) stored)) (\<lambda>bundle.
      sbind (sguard (post_id \<notin> set (pbh_encoded_post_ids (pb_header bundle))) ''Post is already in the bundle'') (\<lambda>_.
      sbind (slift (append_post b now m post_id (length post_bytes) (pb_header bundle))) (\<lambda>h0.
      sbind (slift (pbh_signature_generate (sw_crypto W) sk h0)) (\<lambda>h.
      let bundle' = \<lparr>pb_header = h, pb_encoded_posts_bytes = pb_encoded_posts_bytes bundle @ post_bytes\<rparr> in
      sbind (slift (checked_sum (pbh_encoded_post_lengths h))) (\<lambda>size.
      let m' = m\<lparr>pm_num_posts := unat (pbh_num_posts h), pm_overflowed := pbh_overflowed h, pm_sealed := pbh_sealed h, pm_size := size\<rparr> in
      sbind (on_env (put_post_bundle_bytes (sw_store W) now loc (pb_to_bytes (pj_bundle_header (sw_json W)) bundle'))) (\<lambda>_.
        on_env (put_post_bundle_metadata (sw_store W) now loc m' (length post_bytes))))))))))))"

definition x_SubmitPostCommit :: "'s server_world \<Rightarrow> bytes \<Rightarrow> ('s, response) server_run" where
  "x_SubmitPostCommit W bs =
     sbind (slift (submit_post_commit_from_bytes (sw_json W) bs)) (\<lambda>request.
     let b = sm_bucket_location request; token = sm_submit_post_claim_token request; post_bytes = sm_encoded_post_bytes request in
     sbind (sget (\<lambda>s. (sv_peer_self s, server_key s))) (\<lambda>(me, sk).
     sbind (sguard (p_id (spc_peer token) = p_id me) ''The submit_post_claim_token is not from us'') (\<lambda>_.
     sbind (slift (BucketLocation_validate (sw_crypto W) b)) (\<lambda>_.
     sbind (sguard (b = spc_bucket_location token) ''The location_id does not match the token'') (\<lambda>_.
     sbind (slift (decode_from_bytes (sw_post_env W) post_bytes (bl_base_id b) True False)) (\<lambda>post.
     sbind (sguard (ep_post_id post = spc_post_id token) ''The post_id does not match the token'') (\<lambda>_.
     sbind (store_committed W b post_bytes (ep_post_id post)) (\<lambda>_.
       sret (CommitBody (commit_token_new (sw_crypto W) me b (ep_post_id post) sk))))))))))"


section \<open>Votes\<close>

definition feedback_welcome :: "'s server_world \<Rightarrow> id \<Rightarrow> bool \<Rightarrow> id \<Rightarrow> ('s, bool) server_run" where
  "feedback_welcome W loc among post_id =
     (if \<not> among then sret False else
      sbind (on_env (get_post_bundle_bytes (sw_store W) (sw_now W) loc)) (\<lambda>stored.
        case stored of
          None \<Rightarrow> sret False
        | Some bs \<Rightarrow> sbind (slift (pb_from_bytes (pj_bundle_header (sw_json W)) bs False)) (\<lambda>bundle.
            sret (post_id \<in> set (pbh_encoded_post_ids (pb_header bundle))))))"

definition x_SubmitPostFeedback :: "'s server_world \<Rightarrow> peer_pow option \<Rightarrow> bytes \<Rightarrow> ('s, response) server_run" where
  "x_SubmitPostFeedback W pow bs =
     sbind (slift (submit_post_feedback_from_bytes (sw_json W) bs)) (\<lambda>request.
     sbind (slift (of_option ''pow required for SubmitPostFeedbackV1'' pow)) (\<lambda>pow.
     sbind (sguard (POW_MINIMUM_PER_FEEDBACK \<le> pp_pow pow) ''Insufficient pow for feedback'') (\<lambda>_.
     sbind (slift (feedback_pow_verify (sw_crypto W) (sf_encoded_post_feedback request))) (\<lambda>_.
     let loc = bl_location_id (sf_bucket_location request); f = sf_encoded_post_feedback request in
     sbind (peers_for_key W loc REDUNDANT_SERVERS_PER_POST) (\<lambda>(peers_nearer, among).
     sbind (feedback_welcome W loc among (fb_post_id f)) (\<lambda>accepted.
     sbind (if accepted then on_env (put_post_feedback_if_more_powerful (sw_store W) (sw_now W) loc f) else sret ()) (\<lambda>_.
       sret (FeedbackBody \<lparr>spfr_peers_nearer = peers_nearer, spfr_accepted = accepted\<rparr>))))))))"

text \<open>Healed votes are counted in a \<open>u32\<close> and stored without a check of their work.\<close>

fun heal_feedbacks :: "'s server_world \<Rightarrow> id \<Rightarrow> id set \<Rightarrow> feedback list \<Rightarrow> nat \<Rightarrow> ('s, nat) server_run" where
  "heal_feedbacks W loc held [] n = sret n"
| "heal_feedbacks W loc held (f # fs) n =
     (if fb_post_id f \<notin> held then heal_feedbacks W loc held fs n
      else sbind (on_env (put_post_feedback_if_more_powerful (sw_store W) (sw_now W) loc f)) (\<lambda>_.
             if n + 1 \<ge> 2 ^ 32 then slift (Inl (Panic ''attempt to add with overflow'')) else heal_feedbacks W loc held fs (n + 1)))"

definition x_HealPostBundleFeedback :: "'s server_world \<Rightarrow> bytes \<Rightarrow> ('s, response) server_run" where
  "x_HealPostBundleFeedback W bs =
     sbind (slift (heal_feedback_from_bytes bs)) (\<lambda>request.
     let loc = hf_location_id request in
     sbind (peers_for_key W loc REDUNDANT_SERVERS_PER_POST) (\<lambda>(_, among).
     if \<not> among then sret (HealFeedbackBody 0) else
     sbind (on_env (get_post_bundle_bytes (sw_store W) (sw_now W) loc)) (\<lambda>stored.
     case stored of
       None \<Rightarrow> sret (HealFeedbackBody 0)
     | Some x \<Rightarrow>
         sbind (slift (pb_from_bytes (pj_bundle_header (sw_json W)) x False)) (\<lambda>bundle.
         sbind (heal_feedbacks W loc (set (pbh_encoded_post_ids (pb_header bundle))) (hf_encoded_post_feedbacks request) 0) (\<lambda>n.
           sret (HealFeedbackBody n))))))"


section \<open>Healing bundles\<close>

definition heal_running :: "'s server \<Rightarrow> id \<Rightarrow> time_millis \<Rightarrow> bool" where
  "heal_running s loc now = (case map_of (sv_heal_in_progress s) loc of None \<Rightarrow> False | Some t \<Rightarrow> now < t + 60000)"

definition no_heal :: response where
  "no_heal = HealClaimBody \<lparr>hcr_needed_post_ids = [], hcr_token = None\<rparr>"

definition x_HealPostBundleClaim :: "'s server_world \<Rightarrow> bytes \<Rightarrow> ('s, response) server_run" where
  "x_HealPostBundleClaim W bs =
     sbind (slift (heal_claim_from_bytes (sw_json W) bs)) (\<lambda>request.
     let b = hc_bucket_location request; donor = hc_donor_header request; loc = pbh_location_id donor in
     sbind (slift (BucketLocation_validate (sw_crypto W) b)) (\<lambda>_.
     sbind (sguard (bl_location_id b = loc) ''bucket_location does not match donor_header'') (\<lambda>_.
     sbind (slift (pbh_verify (sw_crypto W) donor)) (\<lambda>_.
     sbind (peers_for_key W loc REDUNDANT_SERVERS_PER_POST) (\<lambda>(_, among).
     if \<not> among then sret no_heal else
     sbind (sget (\<lambda>s. heal_running s loc (sw_now W))) (\<lambda>running.
     if running then sret no_heal else
     sbind (on_env (get_post_bundle_bytes (sw_store W) (sw_now W) loc)) (\<lambda>stored.
     sbind (case stored of
         None \<Rightarrow> sret []
       | Some x \<Rightarrow> sbind (slift (pb_from_bytes (pj_bundle_header (sw_json W)) x False)) (\<lambda>bundle.
           sret (pbh_encoded_post_ids (pb_header bundle)))) (\<lambda>ours.
     let needed = List.filter (\<lambda>i. i \<notin> set ours) (pbh_encoded_post_ids donor) in
     if needed = [] then sret no_heal else
     sbind (supd (\<lambda>s. s\<lparr>sv_heal_in_progress := AList.update loc (sw_now W) (sv_heal_in_progress s)\<rparr>)) (\<lambda>_.
     sbind (sget (\<lambda>s. (sv_peer_self s, server_key s))) (\<lambda>(me, sk).
       sret (HealClaimBody \<lparr>hcr_needed_post_ids = needed,
         hcr_token = Some (heal_token_new (sw_crypto W) me b needed (pbh_signature donor) sk)\<rparr>)))))))))))"

fun cut_posts :: "post_bundle_header \<Rightarrow> id list \<Rightarrow> bytes \<Rightarrow> (id \<times> bytes) list res" where
  "cut_posts donor [] remaining = (if remaining = [] then Inr [] else Inl (Bail ''excess bytes''))"
| "cut_posts donor (post_id # ids) remaining =
     rbind (of_option ''needed_post_id not found in donor_header''
              (map_of (zip (pbh_encoded_post_ids donor) (pbh_encoded_post_lengths donor)) post_id)) (\<lambda>len.
     rbind (ensure (len \<le> length remaining) ''not enough bytes for post'') (\<lambda>_.
     rbind (cut_posts donor ids (drop len remaining)) (\<lambda>rest.
       Inr ((post_id, take len remaining) # rest))))"

fun check_decodable :: "post_env \<Rightarrow> id \<Rightarrow> (id \<times> bytes) list \<Rightarrow> unit res" where
  "check_decodable E base [] = Inr ()"
| "check_decodable E base ((post_id, post_bytes) # rest) =
     (case decode_from_bytes E post_bytes base True True of
        Inl (Panic m) \<Rightarrow> Inl (Panic m)
      | Inl (Bail m) \<Rightarrow> Inl (Bail ''post failed decryption'')
      | Inr _ \<Rightarrow> check_decodable E base rest)"

text \<open>The posts that were not in the bundle when the loop began, in their order: an id twice in the
  list is appended twice.\<close>

definition heal_append :: "id set \<Rightarrow> (id \<times> bytes) list \<Rightarrow> post_bundle \<Rightarrow> bool \<times> post_bundle" where
  "heal_append ours posts bundle =
     (let new = List.filter (\<lambda>(i, x). i \<notin> ours) posts; h = pb_header bundle in
      (new \<noteq> [], \<lparr>pb_header = h\<lparr>pbh_encoded_post_ids := pbh_encoded_post_ids h @ map fst new,
                        pbh_encoded_post_lengths := pbh_encoded_post_lengths h @ map (length \<circ> snd) new,
                        pbh_encoded_post_healed := pbh_encoded_post_healed h \<union> fst ` set new\<rparr>,
                   pb_encoded_posts_bytes = pb_encoded_posts_bytes bundle @ concat (map snd new)\<rparr>))"

definition store_healed :: "'s server_world \<Rightarrow> post_bundle_header \<Rightarrow> peer \<Rightarrow> (id \<times> bytes) list \<Rightarrow> ('s, bool) server_run" where
  "store_healed W donor me posts =
     (let now = sw_now W; loc = pbh_location_id donor in
      sbind (on_env (get_post_bundle_bytes (sw_store W) now loc)) (\<lambda>stored.
      sbind (on_env (get_post_bundle_metadata (sw_store W) now loc)) (\<lambda>metadata.
      let m = (case metadata of None \<Rightarrow> PostBundleMetadata_zero | Some m \<Rightarrow> m) in
      sbind (slift (load_bundle W (fresh_header 0 loc (pbh_overflowed donor) (pbh_sealed donor) me) stored)) (\<lambda>bundle.
      case heal_append (set (pbh_encoded_post_ids (pb_header bundle))) posts bundle of (added_any, bundle1) \<Rightarrow>
      if \<not> added_any then sret False else
      let h0 = (pb_header bundle1)\<lparr>pbh_time_millis := now, pbh_num_posts := word_of_nat (length (pbh_encoded_post_ids (pb_header bundle1)))\<rparr> in
      sbind (sget server_key) (\<lambda>sk.
      sbind (slift (pbh_signature_generate (sw_crypto W) sk h0)) (\<lambda>h.
      sbind (slift (checked_sum (pbh_encoded_post_lengths h))) (\<lambda>size.
      sbind (on_env (put_post_bundle_bytes (sw_store W) now loc
               (pb_to_bytes (pj_bundle_header (sw_json W)) (bundle1\<lparr>pb_header := h\<rparr>)))) (\<lambda>_.
      sbind (on_env (put_post_bundle_metadata (sw_store W) now loc
               (m\<lparr>pm_num_posts := unat (pbh_num_posts h), pm_size := size\<rparr>) 0)) (\<lambda>_.
        sret True)))))))))"

definition x_HealPostBundleCommit :: "'s server_world \<Rightarrow> bytes \<Rightarrow> ('s, response) server_run" where
  "x_HealPostBundleCommit W bs =
     sbind (slift (heal_commit_from_bytes (sw_json W) bs)) (\<lambda>request.
     let token = hm_token request; donor = hm_donor_header request; b = hct_bucket_location token in
     sbind (sget sv_peer_self) (\<lambda>me.
     sbind (sguard (p_id (hct_peer token) = p_id me) ''token was not issued by this server'') (\<lambda>_.
     sbind (slift (heal_token_verify (sw_crypto W) token)) (\<lambda>_.
     sbind (sguard (pbh_signature donor = hct_donor_header_signature token) ''donor_header signature does not match token'') (\<lambda>_.
     sbind (slift (pbh_verify (sw_crypto W) donor)) (\<lambda>_.
     sbind (sguard (bl_location_id b = pbh_location_id donor) ''token location_id does not match donor_header'') (\<lambda>_.
     sbind (slift (cut_posts donor (hct_needed_post_ids token) (hm_encoded_posts_bytes request))) (\<lambda>posts.
     sbind (slift (check_decodable (sw_post_env W) (bl_base_id b) posts)) (\<lambda>_.
     sbind (store_healed W donor me posts) (\<lambda>added_any.
     sbind (supd (\<lambda>s. s\<lparr>sv_heal_in_progress := AList.delete (pbh_location_id donor) (sv_heal_in_progress s)\<rparr>)) (\<lambda>_.
       sret (HealCommitBody added_any))))))))))))"


section \<open>Uploads to the caches\<close>

definition cache_token_ok :: "'s server_world \<Rightarrow> peer \<Rightarrow> cache_request_token \<Rightarrow> unit res" where
  "cache_token_ok W me token =
     rbind (ensure (p_id (crt_peer token) = p_id me) ''token was not issued by this server'') (\<lambda>_.
     rbind (cache_token_verify (sw_crypto W) token) (\<lambda>_.
     ensure (\<not> cache_token_is_expired token (sw_now W)) ''token has expired''))"

definition cacheable_bundle :: "'s server_world \<Rightarrow> bucket_location \<Rightarrow> bytes \<Rightarrow> post_bundle res" where
  "cacheable_bundle W b bs =
     rbind (pb_from_bytes (pj_bundle_header (sw_json W)) bs True) (\<lambda>bundle.
     rbind (pb_verify (sw_post_env W) (bl_base_id b) bundle) (\<lambda>_. Inr bundle))"

fun upload_bundles :: "'s server_world \<Rightarrow> bucket_location \<Rightarrow> bytes list \<Rightarrow> bool \<Rightarrow> ('s, bool) server_run" where
  "upload_bundles W b [] any_accepted s = (s, Inr any_accepted)"
| "upload_bundles W b (bs # rest) any_accepted s =
     (case cacheable_bundle W b bs of
        Inl (Panic m) \<Rightarrow> (s, Inl (Panic m))
      | Inl (Bail m) \<Rightarrow> upload_bundles W b rest any_accepted s
      | Inr bundle \<Rightarrow>
          (case pbc_on_upload (sw_bundle_dropped W) (bl_location_id b) (p_id (pbh_peer (pb_header bundle))) bs (sw_now W)
                  (pbh_sealed (pb_header bundle)) (sv_post_bundle_cache s) of
             (kept, c) \<Rightarrow> upload_bundles W b rest (any_accepted \<or> kept) (s\<lparr>sv_post_bundle_cache := c\<rparr>)))"

definition x_CachePostBundle :: "'s server_world \<Rightarrow> bytes \<Rightarrow> ('s, response) server_run" where
  "x_CachePostBundle W bs =
     sbind (slift (cache_post_bundle_from_bytes (sw_json W) bs)) (\<lambda>request.
     sbind (sget sv_peer_self) (\<lambda>me.
     sbind (slift (cache_token_ok W me (cb_token request))) (\<lambda>_.
     sbind (upload_bundles W (crt_bucket_location (cb_token request)) (cb_encoded_post_bundles request) False) (\<lambda>any_accepted.
       sret (CacheBundleBody any_accepted)))))"

definition cacheable_feedback :: "'s server_world \<Rightarrow> bytes \<Rightarrow> feedback_bundle res" where
  "cacheable_feedback W bs =
     rbind (fbb_from_bytes (sw_feedback_header_json W) bs) (\<lambda>bundle.
     rbind (fbb_verify (sw_crypto W) bundle) (\<lambda>_. Inr bundle))"

definition upload_feedback :: "'s server_world \<Rightarrow> bucket_location \<Rightarrow> bytes \<Rightarrow> ('s, bool) server_run" where
  "upload_feedback W b bs s =
     (case cacheable_feedback W bs of
        Inl (Panic m) \<Rightarrow> (s, Inl (Panic m))
      | Inl (Bail m) \<Rightarrow> (s, Inr False)
      | Inr bundle \<Rightarrow>
          (case pfc_on_upload (sw_bundle_dropped W) (bl_location_id b) (p_id (fh_peer (fbb_header bundle))) bs (sw_now W) False
                  (sv_post_bundle_feedback_cache s) of
             (kept, c) \<Rightarrow> (s\<lparr>sv_post_bundle_feedback_cache := c\<rparr>, Inr kept)))"

definition x_CachePostBundleFeedback :: "'s server_world \<Rightarrow> bytes \<Rightarrow> ('s, response) server_run" where
  "x_CachePostBundleFeedback W bs =
     sbind (slift (cache_feedback_from_bytes (sw_json W) bs)) (\<lambda>request.
     sbind (sget sv_peer_self) (\<lambda>me.
     sbind (slift (cache_token_ok W me (cf_token request))) (\<lambda>_.
     sbind (upload_feedback W (crt_bucket_location (cf_token request)) (cf_encoded_post_bundle_feedback_bytes request)) (\<lambda>accepted.
       sret (CacheFeedbackBody accepted)))))"


section \<open>URL previews\<close>

definition URL_FETCH_MAX_BODY_BYTES :: nat where "URL_FETCH_MAX_BODY_BYTES = 2 * 1024 * 1024"

definition url_host :: "string \<Rightarrow> string" where
  "url_host url =
     (let host_and_port = takeWhile (\<lambda>c. c \<notin> {CHR ''/'', CHR ''?'', CHR ''#''}) (drop (length ''https://'') url) in
      if starts_with host_and_port ''['' then takeWhile (\<lambda>c. c \<noteq> CHR '']'') (dropWhile (\<lambda>c. c = CHR ''['') host_and_port)
      else takeWhile (\<lambda>c. c \<noteq> CHR '':'') host_and_port)"

text \<open>The body is cut at the limit; an error of a later chunk is an error.\<close>

fun read_body :: "bytes \<Rightarrow> bytes res list \<Rightarrow> bytes res" where
  "read_body body [] = Inr body"
| "read_body body (Inl e # chunks) = Inl e"
| "read_body body (Inr chunk # chunks) =
     (let body' = body @ take (URL_FETCH_MAX_BODY_BYTES - length body) chunk
      in if length body' \<ge> URL_FETCH_MAX_BODY_BYTES then Inr body' else read_body body' chunks)"

definition url_allowed :: "'s server_world \<Rightarrow> string \<Rightarrow> ip_addr list res" where
  "url_allowed W url =
     rbind (ensure (starts_with url ''https://'') ''only https:// URLs are allowed'') (\<lambda>_.
     rbind (ensure (url_host url \<noteq> []) ''could not extract host from URL'') (\<lambda>_.
     rbind (ensure (\<not> sw_is_ip_literal W (url_host url)) ''bare IP addresses are not allowed'') (\<lambda>_.
     rbind (sw_lookup_host W (url_host url)) (\<lambda>addrs.
     rbind (ensure (addrs \<noteq> []) ''DNS returned no addresses'') (\<lambda>_.
     rbind (ensure (\<not> list_ex is_ssrf_protected_ip addrs) ''resolved to protected address'') (\<lambda>_.
       Inr addrs))))))"

definition x_FetchUrlPreview :: "'s server_world \<Rightarrow> bytes \<Rightarrow> ('s, response) server_run" where
  "x_FetchUrlPreview W bs =
     sbind (slift (fetch_url_preview_from_bytes (sw_json W) bs)) (\<lambda>url.
     sbind (slift (url_allowed W url)) (\<lambda>addrs.
     sbind (slift (sw_http_get W url (url_host url) addrs)) (\<lambda>(content_length, chunks).
     sbind (sguard (case content_length of None \<Rightarrow> True | Some n \<Rightarrow> n \<le> URL_FETCH_MAX_BODY_BYTES) ''Content-Length exceeds limit'') (\<lambda>_.
     sbind (slift (read_body [] chunks)) (\<lambda>body.
     let preview = sw_extract_url_preview W body in
       sret (UrlPreviewBody (if up_url preview = [] then preview\<lparr>up_url := url\<rparr> else preview)))))))"


section \<open>Trending hashtags\<close>

definition TRENDING_HASHTAGS_FALLBACK :: "string list" where
  "TRENDING_HASHTAGS_FALLBACK = [''hashiverse'', ''news'']"

definition normalise_hashtag :: "(string \<Rightarrow> string) \<Rightarrow> string \<Rightarrow> string" where
  "normalise_hashtag lower tag = (case lower tag of c # cs \<Rightarrow> if c = CHR ''#'' then cs else c # cs | [] \<Rightarrow> [])"

fun top_up_loop :: "(string \<Rightarrow> string) \<Rightarrow> nat \<Rightarrow> string list \<Rightarrow> string set \<Rightarrow> trending_hashtag list \<Rightarrow> trending_hashtag list" where
  "top_up_loop lower target [] seen tags = tags"
| "top_up_loop lower target (f # fs) seen tags =
     (if length tags \<ge> target then tags
      else if normalise_hashtag lower f \<in> seen then top_up_loop lower target fs seen tags
      else top_up_loop lower target fs (insert (normalise_hashtag lower f) seen) (tags @ [\<lparr>th_hashtag = f, th_count = 0\<rparr>]))"

definition top_up_trending_hashtags_with_fallback :: "(string \<Rightarrow> string) \<Rightarrow> nat \<Rightarrow> string list \<Rightarrow> trending_hashtag list \<Rightarrow> trending_hashtag list" where
  "top_up_trending_hashtags_with_fallback lower limit fallback tags =
     (if length tags \<ge> limit then tags
      else top_up_loop lower limit fallback (set (map (\<lambda>t. normalise_hashtag lower (th_hashtag t)) tags)) tags)"

definition trending_now :: "'s server_world \<Rightarrow> 's server \<Rightarrow> trending_hashtag list" where
  "trending_now W s = sort_key (\<lambda>t. - int (th_count t)) (List.filter (\<lambda>t. th_count t > 0)
     (map (\<lambda>(tag, h). \<lparr>th_hashtag = tag, th_count = hll_count h\<rparr>)
        (List.filter (\<lambda>(tag, h). \<not> sw_hashtag_dropped W tag) (sv_trending_hashtags s))))"

definition x_TrendingHashtagsFetch :: "'s server_world \<Rightarrow> bytes \<Rightarrow> ('s, response) server_run" where
  "x_TrendingHashtagsFetch W bs =
     sbind (slift (trending_fetch_from_bytes (sw_json W) bs)) (\<lambda>limit.
     sbind (sget sv_trending_hashtags_response_cache) (\<lambda>cache.
     sbind (case cache of
         Some (t, tags) \<Rightarrow> if time_sub (sw_now W) t < const_mul MILLIS_IN_SECOND 30 then sret (Some tags) else sret None
       | None \<Rightarrow> sret None) (\<lambda>fresh.
     sbind (case fresh of
         Some tags \<Rightarrow> sret (take limit tags)
       | None \<Rightarrow> sbind (sget (trending_now W)) (\<lambda>tags.
           sbind (supd (\<lambda>s. s\<lparr>sv_trending_hashtags_response_cache := Some (sw_now W, tags)\<rparr>)) (\<lambda>_. sret (take limit tags)))) (\<lambda>tags.
       sret (TrendingBody (top_up_trending_hashtags_with_fallback (sw_lowercase W) limit TRENDING_HASHTAGS_FALLBACK tags))))))"


section \<open>Statistics\<close>

definition make_peer_stats :: "'s server_world \<Rightarrow> ('s, peer_stats_response) server_run" where
  "make_peer_stats W s =
     (case compress_for_speed (sw_compressor W) (sw_stats_document W
             (request_counts_subtree (sv_request_counters s) (sv_request_rate_windows s) (sw_now W)) (sv_kademlia s) (sv_environment s)) of
        Inl e \<Rightarrow> (s, Inl e)
      | Inr g \<Rightarrow>
          let json_compressed = g_to_bytes g;
              r = \<lparr>ps_peer = sv_peer_self s, ps_timestamp = sw_now W, ps_json_compressed = json_compressed,
                   ps_signature = signing_sign (sw_crypto W) (server_key s) (peer_stats_signing_input (sw_now W) json_compressed)\<rparr>
          in (s\<lparr>sv_peer_stats_response_cache := Some (sw_now W, r)\<rparr>, Inr r))"

definition x_PeerStatsRequest :: "'s server_world \<Rightarrow> peer_pow option \<Rightarrow> bytes \<Rightarrow> ('s, response) server_run" where
  "x_PeerStatsRequest W pow bs =
     sbind (slift (of_option ''json'' (dec (sw_peer_stats_request_json W) bs))) (\<lambda>_.
     sbind (slift (of_option ''pow required for PeerStatsRequestV1'' pow)) (\<lambda>pow.
     sbind (sguard (POW_MINIMUM_PER_PEER_STATS \<le> pp_pow pow) ''Insufficient pow for PeerStatsRequestV1'') (\<lambda>_.
     sbind (sget sv_peer_stats_response_cache) (\<lambda>cache.
     sbind (case cache of
         Some (t, r) \<Rightarrow> if time_sub (sw_now W) t < const_mul MILLIS_IN_SECOND 60 then sret r else make_peer_stats W
       | None \<Rightarrow> make_peer_stats W) (\<lambda>r.
       sret (PeerStatsBody r))))))"

end
