(* ===== verification/Healing.thy ===== *)
theory Healing
  imports Handlers
begin

text \<open>
  What a client does for the servers it read from: \<open>client/post_bundle/post_bundle_healing.rs\<close> sends a server the posts another one
  has, \<open>post_bundle_feedback_healing.rs\<close> the votes it misses, and \<open>client/caching/post_bundle_cache_uploader.rs\<close> the bundles it asked
  for with a token. The code spawns background tasks; here each is the list of its requests and a function that runs them in order.
  The services for one peer are a function of the peer.
\<close>

section \<open>Posts\<close>

type_synonym post_byte_map = "id \<rightharpoonup> nat \<times> nat"

text \<open>Offset and length by id: a later entry for one id replaces an earlier one; the running offset is a \<open>usize\<close>.\<close>

fun build_byte_map :: "(id \<times> nat) list \<Rightarrow> nat \<Rightarrow> post_byte_map \<Rightarrow> post_byte_map res" where
  "build_byte_map [] offset m = Inr m"
| "build_byte_map ((post_id, len) # rest) offset m =
     (if USIZE_MAX < offset + len then Inl (Panic ''attempt to add with overflow'')
      else build_byte_map rest (offset + len) (m(post_id \<mapsto> (offset, len))))"

definition post_byte_map :: "post_bundle \<Rightarrow> post_byte_map res" where
  "post_byte_map b = build_byte_map (zip (pbh_encoded_post_ids (pb_header b)) (pbh_encoded_post_lengths (pb_header b))) 0 Map.empty"

record heal_work =
  hw_target_peer :: peer
  hw_bucket_location :: bucket_location
  hw_donor_header :: post_bundle_header
  hw_donor_posts_bytes :: bytes
  hw_post_byte_map :: post_byte_map

definition needs_heal :: "peer list \<Rightarrow> post_bundle \<Rightarrow> post_bundle \<Rightarrow> bool" where
  "needs_heal peers_visited donor target \<longleftrightarrow>
     (\<exists>p \<in> set peers_visited. p_id p = p_id (pbh_peer (pb_header target)))
     \<and> (\<exists>i \<in> set (pbh_encoded_post_ids (pb_header donor)). i \<notin> set (pbh_encoded_post_ids (pb_header target)))"

definition heal_work_for :: "bucket_location \<Rightarrow> post_bundle \<Rightarrow> post_byte_map \<Rightarrow> post_bundle \<Rightarrow> heal_work" where
  "heal_work_for loc donor donor_map target = \<lparr>hw_target_peer = pbh_peer (pb_header target), hw_bucket_location = loc,
     hw_donor_header = pb_header donor, hw_donor_posts_bytes = pb_encoded_posts_bytes donor, hw_post_byte_map = donor_map\<rparr>"

definition heal_post_bundles :: "bucket_location \<Rightarrow> peer list \<Rightarrow> post_bundle list \<Rightarrow> heal_work list res" where
  "heal_post_bundles loc peers_visited bundles =
     (if bundles = [] then Inr []
      else rbind (rmap post_byte_map bundles) (\<lambda>byte_maps.
        Inr (concat (map (\<lambda>donor_idx. concat (map (\<lambda>target_idx.
          if donor_idx = target_idx then []
          else if needs_heal peers_visited (bundles ! donor_idx) (bundles ! target_idx)
          then [heal_work_for loc (bundles ! donor_idx) (byte_maps ! donor_idx) (bundles ! target_idx)] else [])
          [0..<length bundles])) [0..<length bundles]))))"

text \<open>The bytes of the needed posts, in the order of the token; the slice panics when the body is shorter than its header says.\<close>

fun assemble_posts :: "bytes \<Rightarrow> post_byte_map \<Rightarrow> id list \<Rightarrow> bytes res" where
  "assemble_posts body m [] = Inr []"
| "assemble_posts body m (post_id # ids) =
     rbind (of_option ''needed post not in donor bundle'' (m post_id)) (\<lambda>(offset, len).
     if length body < offset + len then Inl (Panic ''range end index out of range'')
     else rbind (assemble_posts body m ids) (\<lambda>rest. Inr (slice offset len body @ rest)))"

record heal_json =
  hj_payload :: payload_json
  hj_claim_response :: "heal_claim_response codec"
  hj_commit_response :: "bool codec"

text \<open>The outcome: \<open>None\<close> when the server issued no token, otherwise whether it accepted.\<close>

definition try_heal_single_bundle :: "runtime_services \<Rightarrow> heal_json \<Rightarrow> id \<Rightarrow> heal_work \<Rightarrow> bool option res" where
  "try_heal_single_bundle R J sponsor w =
     rbind (rpc_server_known R sponsor (hw_target_peer w) HealPostBundleClaimV1
              (heal_claim_new_to_bytes (hj_payload J) (hw_donor_header w) (hw_bucket_location w))) (\<lambda>rx.
     rbind (ensure (rr_response_request_kind rx = HealPostBundleClaimResponseV1) ''response kind'') (\<lambda>_.
     rbind (of_option ''json'' (dec (hj_claim_response J) (rr_bytes rx))) (\<lambda>response.
     case hcr_token response of None \<Rightarrow> Inr None
     | Some token \<Rightarrow>
         rbind (assemble_posts (hw_donor_posts_bytes w) (hw_post_byte_map w) (hct_needed_post_ids token)) (\<lambda>posts_bytes.
         rbind (rpc_server_known_with_no_compression R sponsor (hw_target_peer w) HealPostBundleCommitV1
                  (heal_commit_new_to_bytes (hj_payload J) token (hw_donor_header w) posts_bytes)) (\<lambda>rx2.
         rbind (ensure (rr_response_request_kind rx2 = HealPostBundleCommitResponseV1) ''response kind'') (\<lambda>_.
         rbind (of_option ''json'' (dec (hj_commit_response J) (rr_bytes rx2))) (\<lambda>accepted. Inr (Some accepted))))))))"

text \<open>A background task runs its work in order; a failure is logged, a panic ends it.\<close>

fun run_tasks :: "('w \<Rightarrow> 'a res) \<Rightarrow> 'w list \<Rightarrow> 'a res list" where
  "run_tasks f [] = []"
| "run_tasks f (w # ws) = (case f w of Inl (Panic m) \<Rightarrow> [Inl (Panic m)] | r \<Rightarrow> r # run_tasks f ws)"

definition run_heal_post_bundles :: "(peer \<Rightarrow> runtime_services) \<Rightarrow> heal_json \<Rightarrow> id \<Rightarrow> heal_work list \<Rightarrow> bool option res list" where
  "run_heal_post_bundles R J sponsor work = run_tasks (\<lambda>w. try_heal_single_bundle (R (hw_target_peer w)) J sponsor w) work"


section \<open>Votes\<close>

record heal_feedback_work =
  hfw_target_peer :: peer
  hfw_location_id :: id
  hfw_feedbacks_to_send :: "feedback list"

definition votes_to_send :: "feedback_bundle \<Rightarrow> feedback_bundle \<Rightarrow> feedback list" where
  "votes_to_send best b =
     concat (map (\<lambda>rv. case rv of Inl e \<Rightarrow> []
       | Inr v \<Rightarrow> (case Id_from_slice (view_post_id_bytes v) of Inl e \<Rightarrow> []
         | Inr post_id \<Rightarrow>
             if view_pow v > get_post_pow_for_feedback_type b post_id (view_feedback_type v)
             then [\<lparr>fb_post_id = post_id, fb_feedback_type = view_feedback_type v, fb_salt = salt_or_zero (view_salt_bytes v),
                    fb_pow = view_pow v\<rparr>] else []))
       (view_iter (fbb_feedbacks_bytes best)))"

definition heal_post_bundle_feedbacks :: "peer list \<Rightarrow> feedback_bundle list \<Rightarrow> feedback_bundle \<Rightarrow> heal_feedback_work list" where
  "heal_post_bundle_feedbacks peers_visited bundles best =
     (if length bundles < 2 \<or> fbb_feedbacks_bytes best = [] then []
      else concat (map (\<lambda>b.
        if \<not> (\<exists>p \<in> set peers_visited. p_id p = p_id (fh_peer (fbb_header b))) then []
        else let fs = votes_to_send best b in
          if fs = [] then [] else [\<lparr>hfw_target_peer = fh_peer (fbb_header b), hfw_location_id = fh_location_id (fbb_header b),
            hfw_feedbacks_to_send = fs\<rparr>]) bundles))"

definition try_heal_single_bundle_feedback :: "runtime_services \<Rightarrow> nat codec \<Rightarrow> id \<Rightarrow> heal_feedback_work \<Rightarrow> nat res" where
  "try_heal_single_bundle_feedback R J sponsor w =
     rbind (heal_feedback_new_to_bytes (hfw_location_id w) (hfw_feedbacks_to_send w)) (\<lambda>request.
     rbind (rpc_server_known R sponsor (hfw_target_peer w) HealPostBundleFeedbackV1 request) (\<lambda>rx.
     rbind (ensure (rr_response_request_kind rx = HealPostBundleFeedbackResponseV1) ''response kind'') (\<lambda>_.
       of_option ''json'' (dec J (rr_bytes rx)))))"

definition run_heal_post_bundle_feedbacks :: "(peer \<Rightarrow> runtime_services) \<Rightarrow> nat codec \<Rightarrow> id \<Rightarrow> heal_feedback_work list \<Rightarrow> nat res list" where
  "run_heal_post_bundle_feedbacks R J sponsor work =
     run_tasks (\<lambda>w. try_heal_single_bundle_feedback (R (hfw_target_peer w)) J sponsor w) work"


section \<open>Uploads to the caches\<close>

text \<open>The body for one token, if any: nothing for an expired token or one whose server has every bundle.\<close>

definition cache_upload_body :: "payload_json \<Rightarrow> time_millis \<Rightarrow> (id \<times> bytes) list \<Rightarrow> cache_request_token \<Rightarrow> bytes option" where
  "cache_upload_body J now bundles token =
     (if cache_token_is_expired token now then None
      else let filtered = map snd (List.filter (\<lambda>(originator, bs). originator \<notin> set (crt_already_cached_peer_ids token)) bundles)
        in if filtered = [] then None else Some (cache_post_bundle_new_to_bytes J token filtered))"

definition upload_one_cache :: "runtime_services \<Rightarrow> id \<Rightarrow> cache_request_token \<Rightarrow> request_kind \<Rightarrow> response_kind \<Rightarrow> bool codec \<Rightarrow> bytes \<Rightarrow> unit res" where
  "upload_one_cache R sponsor token kind answer J body =
     rbind (rpc_server_known R sponsor (crt_peer token) kind body) (\<lambda>rx.
     rbind (ensure (rr_response_request_kind rx = answer) ''response kind'') (\<lambda>_.
     rbind (of_option ''json'' (dec J (rr_bytes rx))) (\<lambda>_. Inr ())))"

definition upload_post_bundle_caches :: "(peer \<Rightarrow> runtime_services) \<Rightarrow> payload_json \<Rightarrow> bool codec \<Rightarrow> id \<Rightarrow> cache_request_token list
    \<Rightarrow> (id \<times> bytes) list \<Rightarrow> unit res list" where
  "upload_post_bundle_caches R J JA sponsor tokens bundles =
     (if tokens = [] \<or> bundles = [] then []
      else run_tasks (\<lambda>token. let r = R (crt_peer token) in
        case cache_upload_body J (rs_now r) bundles token of None \<Rightarrow> Inr ()
        | Some body \<Rightarrow> upload_one_cache r sponsor token CachePostBundleV1 CachePostBundleResponseV1 JA body) tokens)"

definition upload_post_bundle_feedback_caches :: "(peer \<Rightarrow> runtime_services) \<Rightarrow> payload_json \<Rightarrow> bool codec \<Rightarrow> id \<Rightarrow> cache_request_token list
    \<Rightarrow> bytes \<Rightarrow> unit res list" where
  "upload_post_bundle_feedback_caches R J JA sponsor tokens feedback_bytes =
     (if tokens = [] \<or> feedback_bytes = [] then []
      else run_tasks (\<lambda>token. let r = R (crt_peer token) in
        if cache_token_is_expired token (rs_now r) then Inr ()
        else upload_one_cache r sponsor token CachePostBundleFeedbackV1 CachePostBundleFeedbackResponseV1 JA
          (cache_feedback_new_to_bytes J token feedback_bytes)) tokens)"

section \<open>What arrives is what the donor has\<close>










text \<open>A server asks for the posts it does not have; a body shorter than the header says ends the task in a panic.\<close>

lemma short_donor_panics:
  assumes "pbh_encoded_post_ids (pb_header b) = [i]" "pbh_encoded_post_lengths (pb_header b) = [n]"
    and "length (pb_encoded_posts_bytes b) < n" "n \<le> USIZE_MAX"
  shows "\<exists>m. post_byte_map b = Inr m \<and> is_panic (assemble_posts (pb_encoded_posts_bytes b) m [i])"
  using assms by (simp add: post_byte_map_def)


section \<open>Votes that are missing\<close>

lemma id_of_view: "view_from_slice bs = Inr v \<Longrightarrow> Id_from_slice (view_post_id_bytes v) = Inr (Id (view_post_id_bytes v))"
  using view_from_slice_lengths(1)[of bs v] by (simp add: Id_from_slice_def array_from_slice_def byte_counts)

lemma salt_of_view: "view_from_slice bs = Inr v \<Longrightarrow> salt_or_zero (view_salt_bytes v) = Salt (view_salt_bytes v)"
  using view_from_slice_lengths(2)[of bs v] by (simp add: salt_or_zero_def Salt_from_slice_def array_from_slice_def byte_counts)

lemma votes_sent:
  "map vote_of (votes_to_send best b) = List.filter (\<lambda>((i, ty), s, p). p > get_post_pow_for_feedback_type b i ty) (votes best)"
proof -
  have "map vote_of (concat (map (\<lambda>rv. case rv of Inl e \<Rightarrow> []
       | Inr v \<Rightarrow> (case Id_from_slice (view_post_id_bytes v) of Inl e \<Rightarrow> []
         | Inr post_id \<Rightarrow>
             if view_pow v > get_post_pow_for_feedback_type b post_id (view_feedback_type v)
             then [\<lparr>fb_post_id = post_id, fb_feedback_type = view_feedback_type v, fb_salt = salt_or_zero (view_salt_bytes v),
                    fb_pow = view_pow v\<rparr>] else []))
       (map view_from_slice cs)))
     = List.filter (\<lambda>((i, ty), s, p). p > get_post_pow_for_feedback_type b i ty)
         (map vote_of_view (ok_values (map view_from_slice cs)))" for cs
  proof (induction cs)
    case (Cons c cs)
    show ?case
    proof (cases "view_from_slice c")
      case (Inr v)
      then show ?thesis using Cons id_of_view[OF Inr] salt_of_view[OF Inr] by (simp add: vote_of_def vote_of_view_def)
    qed (use Cons in simp)
  qed simp
  then show ?thesis by (simp add: votes_to_send_def votes_def view_iter_def)
qed

lemma best_pow_distinct:
  assumes "distinct (map fst vs)"
  shows "best_pow vs k = (case map_of vs k of Some (s, p) \<Rightarrow> p | None \<Rightarrow> 0)"
proof -
  have skip: "k \<notin> fst ` set vs \<Longrightarrow> fold (\<lambda>(k', s, p) m. if k' = k then max p m else m) vs m = m" for vs and m :: pow
    by (induction vs arbitrary: m) auto
  have "fold (\<lambda>(k', s, p) m. if k' = k then max p m else m) vs 0 = (case map_of vs k of Some (s, p) \<Rightarrow> p | None \<Rightarrow> 0)"
    using assms
  proof (induction vs)
    case (Cons v vs)
    obtain k' s p where v: "v = (k', s, p)" by (metis prod.collapse)
    show ?case
    proof (cases "k' = k")
      case True
      then have "k \<notin> fst ` set vs" using Cons.prems v by simp
      from skip[OF this, of p] show ?thesis using True v by simp
    next
      case False
      then show ?thesis using Cons v by simp
    qed
  qed simp
  then show ?thesis by (simp add: best_pow_def)
qed

lemma map_of_filter_votes:
  "distinct (map fst vs) \<Longrightarrow> map_of (List.filter P vs) k = (case map_of vs k of Some x \<Rightarrow> if P (k, x) then Some x else None | None \<Rightarrow> None)"
proof (induction vs)
  case (Cons v vs)
  obtain k' x where v: "v = (k', x)" by (cases v)
  show ?case
  proof (cases "k' = k")
    case True
    then have "map_of vs k = None" using Cons.prems v by (auto simp: map_of_eq_None_iff)
    then show ?thesis using Cons v True by (auto split: option.splits)
  qed (use Cons v in auto)
qed simp

text \<open>After adding what is sent to it, the work a server reports for a post and type is exactly that of the merged bundle.\<close>

lemma votes_sent_make_up:
  assumes "feedback_merge ord bundles = Some best" "\<And>xs. mset (ord xs) = mset xs" "b \<in> set bundles"
  shows "max (get_post_pow_for_feedback_type b i ty) (best_pow (map vote_of (votes_to_send best b)) (i, ty))
      = get_post_pow_for_feedback_type best i ty
    \<and> list_all (\<lambda>f. vote_of f \<in> set (votes best)
        \<and> get_post_pow_for_feedback_type b (fb_post_id f) (fb_feedback_type f) < fb_pow f) (votes_to_send best b)"
proof -
  note m = merged_votes_max[OF assms(1,2)]
  let ?P = "\<lambda>((i, ty), s, p). p > get_post_pow_for_feedback_type b i ty"
  have d: "distinct (map fst (votes best))" "distinct (map fst (List.filter ?P (votes best)))"
    using m[of i ty] by (simp_all add: distinct_map_filter)
  have le: "get_post_pow_for_feedback_type b i ty \<le> get_post_pow_for_feedback_type best i ty"
  proof (cases "map_of (votes b) (i, ty)")
    case (Some sp)
    obtain s p where sp: "sp = (s, p)" by (cases sp)
    have "((i, ty), s, p) \<in> set (votes b)" using Some sp by (simp add: map_of_SomeD)
    then have "((i, ty), s, p) \<in> set (concat (map votes bundles))" using assms(3) by auto
    from best_pow_upper[OF this] show ?thesis using m[of i ty] Some sp by (simp add: get_post_pow_votes)
  qed (simp add: get_post_pow_votes)
  have sent: "best_pow (map vote_of (votes_to_send best b)) (i, ty)
      = (if get_post_pow_for_feedback_type b i ty < get_post_pow_for_feedback_type best i ty
         then get_post_pow_for_feedback_type best i ty else 0)"
    unfolding votes_sent best_pow_distinct[OF d(2)] map_of_filter_votes[OF d(1)]
    by (auto simp: get_post_pow_votes[of best] split: option.splits prod.splits)
  have "vote_of f \<in> set (votes best) \<and> get_post_pow_for_feedback_type b (fb_post_id f) (fb_feedback_type f) < fb_pow f"
    if "f \<in> set (votes_to_send best b)" for f
  proof -
    have "vote_of f \<in> set (List.filter ?P (votes best))" using that votes_sent[of best b] by (metis image_eqI list.set_map)
    then show ?thesis by (auto simp: vote_of_def)
  qed
  then show ?thesis using sent le by (auto simp: list_all_iff max_def)
qed


section \<open>Uploads respect their tokens\<close>

text \<open>Background tasks are run in order until the first panic.\<close>

lemma run_tasks_runs:
  "\<exists>n \<le> length ws. run_tasks f ws = map f (take n ws) \<and> (\<forall>k < n. k + 1 < n \<longrightarrow> \<not> is_panic (f (ws ! k)))
    \<and> (n < length ws \<longrightarrow> run_tasks f ws \<noteq> [] \<and> is_panic (last (run_tasks f ws)))"
proof (induction ws)
  case (Cons w ws)
  show ?case
  proof (cases "is_panic (f w)")
    case True
    then have "run_tasks f (w # ws) = [f w]" by (cases "f w" rule: is_panic.cases) simp_all
    then show ?thesis using True by (intro exI[of _ 1]) simp
  next
    case False
    then have r: "run_tasks f (w # ws) = f w # run_tasks f ws" by (cases "f w" rule: is_panic.cases) simp_all
    obtain n where n: "n \<le> length ws" "run_tasks f ws = map f (take n ws)" "\<forall>k < n. k + 1 < n \<longrightarrow> \<not> is_panic (f (ws ! k))"
      "n < length ws \<longrightarrow> run_tasks f ws \<noteq> [] \<and> is_panic (last (run_tasks f ws))" using Cons by blast
    have "\<not> is_panic (f ((w # ws) ! k))" if "k < Suc n" "k + 1 < Suc n" for k
      using that n(3) False by (cases k) auto
    then show ?thesis using n r by (intro exI[of _ "Suc n"]) auto
  qed
qed simp

lemma cache_body_read_back:
  assumes "json_ok (pj_cache_token J) token" "entries_fit bundles"
  shows "cache_post_bundle_from_bytes J (cache_post_bundle_new_to_bytes J token bundles) = Inr \<lparr>cb_token = token, cb_encoded_post_bundles = bundles\<rparr>"
proof -
  have "read_entries (length bundles) (write_entries bundles) = Inr (bundles, [])"
    using read_entries_write[of bundles "[]"] assms(2) by (simp add: entries_fit_def)
  then show ?thesis unfolding cache_post_bundle_from_bytes_def cache_post_bundle_new_to_bytes_def
    using assms(2) by (simp add: read_json_ok[OF assms(1)] get_be_append entries_fit_def)
qed

text \<open>C31: The tokens of the caches are used in their order, until one use panics. For an expired token, and one whose server already has
  every collected bundle, nothing is sent. Otherwise the server of the token is sent one message, from which its handler takes that
  token and, if the token is good, is offered exactly the collected bundles whose originators the token did not list, each
  once and in the order they were collected.\<close>

theorem cache_upload_respects_token:
  assumes "entries_fit (map snd bundles)" "bundles \<noteq> []" "\<forall>token \<in> set tokens. json_ok (pj_cache_token J) token"
  shows "\<exists>message n. n \<le> length tokens
    \<and> upload_post_bundle_caches R J JA sponsor tokens bundles = map (\<lambda>token.
        if crt_expires_at token < rs_now (R (crt_peer token))
          \<or> (\<forall>(originator, bs) \<in> set bundles. originator \<in> set (crt_already_cached_peer_ids token)) then Inr ()
        else upload_one_cache (R (crt_peer token)) sponsor token CachePostBundleV1 CachePostBundleResponseV1 JA (message token)) (take n tokens)
    \<and> (n < length tokens \<longrightarrow> 0 < n \<and> is_panic (last (upload_post_bundle_caches R J JA sponsor tokens bundles)))
    \<and> (\<forall>token \<in> set tokens. \<forall>(W :: 's server_world) s. sw_json W = J \<longrightarrow> x_CachePostBundle W (message token) s =
        sbind (slift (cache_token_ok W (sv_peer_self s) token)) (\<lambda>_.
        sbind (upload_bundles W (crt_bucket_location token)
          (map snd (List.filter (\<lambda>(originator, bs). originator \<notin> set (crt_already_cached_peer_ids token)) bundles)) False)
          (\<lambda>any_accepted. sret (CacheBundleBody any_accepted))) s)"
proof -
  let ?sent = "\<lambda>token. map snd (List.filter (\<lambda>(originator, bs). originator \<notin> set (crt_already_cached_peer_ids token)) bundles)"
  let ?msg = "\<lambda>token. cache_post_bundle_new_to_bytes J token (?sent token)"
  let ?f = "\<lambda>token. let r = R (crt_peer token) in
        case cache_upload_body J (rs_now r) bundles token of None \<Rightarrow> Inr ()
        | Some body \<Rightarrow> upload_one_cache r sponsor token CachePostBundleV1 CachePostBundleResponseV1 JA body"
  have f: "?f token = (if crt_expires_at token < rs_now (R (crt_peer token))
      \<or> (\<forall>(originator, bs) \<in> set bundles. originator \<in> set (crt_already_cached_peer_ids token)) then Inr ()
    else upload_one_cache (R (crt_peer token)) sponsor token CachePostBundleV1 CachePostBundleResponseV1 JA (?msg token))" for token
    by (auto simp: cache_upload_body_def Let_def cache_token_is_expired_def filter_empty_conv)
  obtain n where n: "n \<le> length tokens" "run_tasks ?f tokens = map ?f (take n tokens)"
    "n < length tokens \<longrightarrow> run_tasks ?f tokens \<noteq> [] \<and> is_panic (last (run_tasks ?f tokens))" using run_tasks_runs[of tokens ?f] by blast
  have u: "upload_post_bundle_caches R J JA sponsor tokens bundles = map ?f (take n tokens)"
    using n(2) assms(2) by (auto simp: upload_post_bundle_caches_def)
  have l: "n < length tokens \<longrightarrow> 0 < n \<and> is_panic (last (map ?f (take n tokens)))"
    using n(3) unfolding n(2) by (cases "n = 0") simp_all
  have "entries_fit (?sent token)" for token
    using assms(1) le_less_trans[OF length_filter_le] by (auto simp: entries_fit_def)
  then have read: "cache_post_bundle_from_bytes J (?msg token) = Inr \<lparr>cb_token = token, cb_encoded_post_bundles = ?sent token\<rparr>"
    if "token \<in> set tokens" for token using cache_body_read_back[OF bspec[OF assms(3) that]] by blast
  have "x_CachePostBundle W (?msg token) s =
        sbind (slift (cache_token_ok W (sv_peer_self s) token)) (\<lambda>_.
        sbind (upload_bundles W (crt_bucket_location token) (?sent token) False) (\<lambda>any_accepted. sret (CacheBundleBody any_accepted))) s"
    if "token \<in> set tokens" "sw_json W = J" for token and W :: "'s server_world" and s
    unfolding x_CachePostBundle_def that(2) read[OF that(1)] by (simp add: sbind_def slift_def sget_def cong: sum.case_cong prod.case_cong)
  with n(1) u l show ?thesis unfolding f by (intro exI[of _ ?msg] exI[of _ n]) simp
qed

end
