(* ===== verification/LiveManager.thy ===== *)
theory LiveManager
  imports Tracker Timeline ClientStorage Healing
begin

text \<open>
  \<open>client/post_bundle/live_post_bundle_manager.rs\<close> and \<open>live_post_bundle_feedback_manager.rs\<close>: a bundle comes from the client's
  storage if it is fresh or sealed, and otherwise from a walk over the servers nearest to the location; the best of what they
  answered is cached, and what they lack is queued for healing. One call is modelled from the lock of its location to its end; the
  walk can only fail to return inside \<open>next_peer\<close>, and \<open>None\<close> is a call that does not return.
\<close>

section \<open>Walking the network\<close>

text \<open>The loop over the iterator: a visit changes what was collected and the tracker, and says whether to stop. A panic ends it.\<close>

partial_function (option) walk_loop :: "(peer \<Rightarrow> nat \<Rightarrow> 'f \<times> peer_tracker \<Rightarrow> ('f \<times> peer_tracker) \<times> bool res) \<Rightarrow> 'f \<Rightarrow> peer_iterator
    \<Rightarrow> peer_tracker \<Rightarrow> (('f \<times> peer_tracker) \<times> unit res) option" where
  "walk_loop visit f it t = (case next_peer (pt_peers t) it of
     None \<Rightarrow> None
   | Some (it', None) \<Rightarrow> Some ((f, t), Inr ())
   | Some (it', Some (p, lab)) \<Rightarrow> (case visit p lab (f, t) of
       ((f', t'), Inl e) \<Rightarrow> Some ((f', t'), Inl e)
     | ((f', t'), Inr stop) \<Rightarrow> if stop then Some ((f', t'), Inr ()) else walk_loop visit f' it' t'))"

declare walk_loop.simps [code]

text \<open>The services of the client and the codecs of its bodies; the services for a peer are a function of the peer.\<close>

record client_world =
  cw_crypto :: crypto
  cw_compressor :: compressor
  cw_services :: "peer \<Rightarrow> runtime_services"
  cw_sponsor_id :: id
  cw_now :: time_millis
  cw_bootstrap :: bootstrap_world
  cw_json :: payload_json
  cw_get_json :: "Payload.get_post_bundle codec"
  cw_feedback_header_json :: "feedback_header codec"
  cw_peers_json :: "peer list codec"
  cw_hex :: "bytes \<Rightarrow> string"
  cw_hash_order :: "feedback list \<Rightarrow> feedback list"

record 's live_manager =
  lm_storage :: 's
  lm_tracker :: peer_tracker
  lm_radii :: cache_radius_tracker

definition LivePostBundleManager_new :: "'s \<Rightarrow> peer_tracker \<Rightarrow> 's live_manager" where
  "LivePostBundleManager_new storage tracker = \<lparr>lm_storage = storage, lm_tracker = tracker,
     lm_radii = CacheRadiusTracker_new (const_mul CLIENT_POST_BUNDLE_CACHE_DURATION 5)\<rparr>"

definition LivePostBundleFeedbackManager_new :: "'s \<Rightarrow> peer_tracker \<Rightarrow> 's live_manager" where
  "LivePostBundleFeedbackManager_new storage tracker = \<lparr>lm_storage = storage, lm_tracker = tracker,
     lm_radii = CacheRadiusTracker_new (const_mul CLIENT_POST_BUNDLE_FEEDBACK_CACHE_DURATION 5)\<rparr>"

text \<open>Writing the tracker back: its failure is only logged.\<close>

definition flush_tracker :: "'s client_storage \<Rightarrow> client_world \<Rightarrow> peer_tracker \<Rightarrow> 's \<Rightarrow> peer_tracker \<times> 's" where
  "flush_tracker S W t s = (case flush (\<lambda>ps. Inr ()) t of
     (t', None, r) \<Rightarrow> (t', s)
   | (t', Some ps, r) \<Rightarrow> (t', fst (put_struct S (cw_compressor W) (cw_peers_json W) BUCKET_PEER ''peers'' ps (cw_now W) s)))"

text \<open>A \<open>try\<close> block whose failure is logged: a panic is not caught.\<close>

definition logged_failure :: "'a res \<Rightarrow> 'b \<Rightarrow> ('a \<Rightarrow> 'b res) \<Rightarrow> 'b res" where
  "logged_failure r fallback f = (case r of Inl (Panic m) \<Rightarrow> Inl (Panic m) | Inl (Bail m) \<Rightarrow> Inr fallback | Inr x \<Rightarrow> f x)"


section \<open>Bundles of posts\<close>

definition bundle_from_cache :: "'s client_storage \<Rightarrow> client_world \<Rightarrow> id \<Rightarrow> time_millis \<Rightarrow> 's \<Rightarrow> 's \<times> post_bundle option res" where
  "bundle_from_cache S W location_id now s =
     (case cs_get S BUCKET_POST_BUNDLE (Id_to_hex_str (cw_hex W) location_id) now s of (s', r) \<Rightarrow>
        (s', logged_failure (rbind r (\<lambda>raw. case raw of None \<Rightarrow> Inr None
           | Some bs \<Rightarrow> rbind (pb_from_bytes (pj_bundle_header (cw_json W)) bs True) (\<lambda>b.
               Inr (if pbh_sealed (pb_header b) then Some b
                    else if time_sub now (pbh_time_millis (pb_header b)) < CLIENT_POST_BUNDLE_CACHE_DURATION then Some b else None))))
           None Inr))"

record bundle_fetch =
  bf_peers_visited :: "peer list"
  bf_retrieved :: "id list"
  bf_bundles :: "post_bundle list"
  bf_tokens :: "cache_request_token list"
  bf_positive :: "nat list"
  bf_uploads :: "(id \<times> bytes) list"

definition bundle_fetch_new :: bundle_fetch where
  "bundle_fetch_new = \<lparr>bf_peers_visited = [], bf_retrieved = [], bf_bundles = [], bf_tokens = [], bf_positive = [], bf_uploads = []\<rparr>"

definition read_bundle :: "client_world \<Rightarrow> bytes \<Rightarrow> post_bundle res" where
  "read_bundle W bs = rbind (pb_from_bytes (pj_bundle_header (cw_json W)) bs True) (\<lambda>b.
     rbind (pbh_verify (cw_crypto W) (pb_header b)) (\<lambda>_. Inr b))"

definition keep_bundle :: "post_bundle \<Rightarrow> bytes \<Rightarrow> bundle_fetch \<Rightarrow> bundle_fetch" where
  "keep_bundle b bs f = (let originator = p_id (pbh_peer (pb_header b)) in
     f\<lparr>bf_retrieved := bf_retrieved f @ [originator], bf_uploads := bf_uploads f @ [(originator, bs)], bf_bundles := bf_bundles f @ [b]\<rparr>)"

fun keep_cached_bundles :: "client_world \<Rightarrow> bytes list \<Rightarrow> bundle_fetch \<times> bool \<Rightarrow> (bundle_fetch \<times> bool) res" where
  "keep_cached_bundles W [] st = Inr st"
| "keep_cached_bundles W (bs # rest) (f, found) =
     rbind (logged_failure (read_bundle W bs) (f, found) (\<lambda>b. Inr (keep_bundle b bs f, True))) (keep_cached_bundles W rest)"

definition ask_for_bundle :: "client_world \<Rightarrow> bucket_location \<Rightarrow> peer \<Rightarrow> bundle_fetch \<Rightarrow> get_post_bundle_response res" where
  "ask_for_bundle W loc p f =
     rbind (rpc_server_known (cw_services W p) (cw_sponsor_id W) p GetPostBundleV1
              (enc (cw_get_json W) \<lparr>gpb_bucket_location = loc, gpb_peers_visited = bf_peers_visited f,
                 gpb_already_retrieved_peer_ids = bf_retrieved f\<rparr>)) (\<lambda>rx.
     rbind (ensure (rr_response_request_kind rx = GetPostBundleResponseV1) ''response kind'') (\<lambda>_.
       get_post_bundle_response_from_bytes (cw_json W) (rr_bytes rx)))"

text \<open>The answer of one peer: what is collected from it, and whether its own bundle could not be read.\<close>

definition take_bundle_response :: "client_world \<Rightarrow> get_post_bundle_response \<Rightarrow> nat \<Rightarrow> bundle_fetch \<Rightarrow> (bundle_fetch \<times> bool) res" where
  "take_bundle_response W response lab f =
     (let f1 = (case gr_cache_request_token response of None \<Rightarrow> f | Some token \<Rightarrow> f\<lparr>bf_tokens := bf_tokens f @ [token]\<rparr>);
          finish = (\<lambda>(g, found). (if found then g\<lparr>bf_positive := bf_positive g @ [lab]\<rparr> else g, True))
      in rbind (keep_cached_bundles W (gr_post_bundles_cached response) (f1, False)) (\<lambda>(f2, found).
         case gr_post_bundle response of None \<Rightarrow> Inr (finish (f2, found))
         | Some raw \<Rightarrow> logged_failure (read_bundle W raw) (f2, False) (\<lambda>b. Inr (finish (keep_bundle b raw f2, True)))))"

definition visit_for_bundle :: "client_world \<Rightarrow> bucket_location \<Rightarrow> peer \<Rightarrow> nat \<Rightarrow> bundle_fetch \<times> peer_tracker
    \<Rightarrow> (bundle_fetch \<times> peer_tracker) \<times> bool res" where
  "visit_for_bundle W loc p lab st = (case st of (f, t) \<Rightarrow>
     if p_id p \<in> set (bf_retrieved f) then (st, Inr False)
     else (case ask_for_bundle W loc p f of
         Inl (Panic m) \<Rightarrow> (st, Inl (Panic m))
       | Inl (Bail m) \<Rightarrow> ((f, tracker_remove_peer p t), Inr False)
       | Inr response \<Rightarrow>
           let f1 = f\<lparr>bf_peers_visited := bf_peers_visited f @ [p]\<rparr> in
           (case tracker_add_peers (cw_crypto W) (gr_peers_nearer response) t of
              Inl e \<Rightarrow> ((f1, t), Inl e)
            | Inr t1 \<Rightarrow> (case take_bundle_response W response lab f1 of
                Inl e \<Rightarrow> ((f1, t1), Inl e)
              | Inr (f2, True) \<Rightarrow> ((f2, t1), Inr (REDUNDANT_SERVERS_PER_POST \<le> length (bf_bundles f2)))
              | Inr (f2, False) \<Rightarrow> ((f2, tracker_remove_peer p t1), Inr False)))))"

text \<open>The buffer of a bundle cannot be longer than the address space.\<close>

definition bundle_buffer :: "client_world \<Rightarrow> post_bundle \<Rightarrow> bytes res" where
  "bundle_buffer W b =
     (if USIZE_MAX < length (enc (pj_bundle_header (cw_json W)) (pb_header b)) + length (pb_encoded_posts_bytes b)
      then Inl (Panic ''capacity overflow'') else Inr (pb_to_bytes (pj_bundle_header (cw_json W)) b))"

text \<open>What the call leaves to the background: healing and the uploads to the caches.\<close>

type_synonym bundle_background = "heal_work list \<times> cache_request_token list \<times> (id \<times> bytes) list"

definition finish_bundle :: "'s client_storage \<Rightarrow> client_world \<Rightarrow> bucket_location \<Rightarrow> time_millis \<Rightarrow> bundle_fetch \<Rightarrow> 's live_manager
    \<Rightarrow> 's live_manager \<times> (post_bundle \<times> bundle_background) res" where
  "finish_bundle S W loc now f m =
     (let m1 = (if bf_positive f = [] then m
          else m\<lparr>lm_radii := cache_radius_update (bl_location_id loc) (Min (set (bf_positive f))) now (lm_radii m)\<rparr>)
      in case max_by_key (\<lambda>b. pbh_num_posts (pb_header b)) (bf_bundles f) of
           None \<Rightarrow> (m1, Inl (Bail ''No post bundles discovered''))
         | Some best \<Rightarrow> (case bundle_buffer W best of
             Inl e \<Rightarrow> (m1, Inl e)
           | Inr bs \<Rightarrow> (case cs_put S BUCKET_POST_BUNDLE (Id_to_hex_str (cw_hex W) (bl_location_id loc)) bs now (lm_storage m1) of
               (s', Inl e) \<Rightarrow> (m1\<lparr>lm_storage := s'\<rparr>, Inl e)
             | (s', Inr _) \<Rightarrow> (m1\<lparr>lm_storage := s'\<rparr>,
                 rbind (heal_post_bundles loc (bf_peers_visited f) (bf_bundles f)) (\<lambda>work.
                   Inr (best, work, bf_tokens f, bf_uploads f))))))"

definition fetch_bundle :: "'s client_storage \<Rightarrow> client_world \<Rightarrow> bucket_location \<Rightarrow> time_millis \<Rightarrow> 's live_manager
    \<Rightarrow> ('s live_manager \<times> (post_bundle \<times> bundle_background) res) option" where
  "fetch_bundle S W loc now m =
     (let radius = cache_radius_get (bl_location_id loc) now (lm_radii m) in
      case iterate_to_location (cw_crypto W) (cw_bootstrap W) (bl_location_id loc) (2 * REDUNDANT_SERVERS_PER_POST) radius (lm_tracker m) of
        Inl e \<Rightarrow> Some (m, Inl e)
      | Inr (t, it) \<Rightarrow> (case walk_loop (visit_for_bundle W loc) bundle_fetch_new it t of
          None \<Rightarrow> None
        | Some ((f, t1), Inl e) \<Rightarrow> Some (m\<lparr>lm_tracker := t1\<rparr>, Inl e)
        | Some ((f, t1), Inr _) \<Rightarrow> (case flush_tracker S W t1 (lm_storage m) of (t2, s2) \<Rightarrow>
            Some (finish_bundle S W loc now f (m\<lparr>lm_tracker := t2, lm_storage := s2\<rparr>)))))"

text \<open>The cache is looked at before the lock of the location and once more behind it.\<close>

definition live_get_post_bundle :: "'s client_storage \<Rightarrow> client_world \<Rightarrow> bucket_location \<Rightarrow> time_millis \<Rightarrow> 's live_manager
    \<Rightarrow> ('s live_manager \<times> (post_bundle \<times> bundle_background) res) option" where
  "live_get_post_bundle S W loc now m =
     (case bundle_from_cache S W (bl_location_id loc) now (lm_storage m) of
        (s1, Inl e) \<Rightarrow> Some (m\<lparr>lm_storage := s1\<rparr>, Inl e)
      | (s1, Inr (Some b)) \<Rightarrow> Some (m\<lparr>lm_storage := s1\<rparr>, Inr (b, [], [], []))
      | (s1, Inr None) \<Rightarrow> (case bundle_from_cache S W (bl_location_id loc) now s1 of
          (s2, Inl e) \<Rightarrow> Some (m\<lparr>lm_storage := s2\<rparr>, Inl e)
        | (s2, Inr (Some b)) \<Rightarrow> Some (m\<lparr>lm_storage := s2\<rparr>, Inr (b, [], [], []))
        | (s2, Inr None) \<Rightarrow> fetch_bundle S W loc now (m\<lparr>lm_storage := s2\<rparr>)))"

section \<open>The walk ends\<close>

lemma next_peer_cases:
  assumes "pi_cache_radius it = None \<or> (\<forall>p \<in> set (unvisited it ps). closeness it p < 256)"
  shows "\<exists>it' r. next_peer ps it = Some (it', r) \<and> (r = None \<or> (\<exists>p radius. p \<in> set ps
    \<and> (pi_cache_radius it = None \<longrightarrow> radius = None) \<and> visit_peer p (it\<lparr>pi_cache_radius := radius\<rparr>) = (it', r)))"
proof (cases "pi_cache_radius it")
  case None
  then have same: "it\<lparr>pi_cache_radius := None\<rparr> = it" by simp
  show ?thesis
  proof (cases "nearest_peer it ps")
    case n: None
    then show ?thesis using next_peer_no_radius[OF None, of ps] by simp
  next
    case (Some p)
    have "p \<in> set ps" using nearest_peer_Some(1)[OF Some] by (auto simp: unvisited_def)
    moreover obtain it' r where "visit_peer p it = (it', r)" by fastforce
    ultimately show ?thesis using next_peer_no_radius[OF None, of ps] Some same by (metis option.simps(5))
  qed
next
  case (Some r)
  show ?thesis
  proof (cases "unvisited it ps = []")
    case True
    then have "nearest_peer it ps = None" by (simp add: nearest_peer_None)
    then have "next_peer ps it = Some (it, None)" using True by (subst next_peer.simps) simp
    then show ?thesis by blast
  next
    case False
    then obtain p where "p \<in> set (unvisited it ps)" by (cases "unvisited it ps") auto
    moreover have "closeness it p < 256" using assms Some calculation by auto
    ultimately obtain r' q where
      q: "nearest_peer (it\<lparr>pi_cache_radius := Some r'\<rparr>) ps = Some q" "next_peer ps it = Some (visit_peer q (it\<lparr>pi_cache_radius := Some r'\<rparr>))"
      using next_peer_widens[OF Some] by blast
    have "q \<in> set ps" using nearest_peer_Some(1)[OF q(1)] by (auto simp: unvisited_def)
    moreover obtain it' s where "visit_peer q (it\<lparr>pi_cache_radius := Some r'\<rparr>) = (it', s)" by fastforce
    ultimately show ?thesis using q(2) Some by (metis option.discI)
  qed
qed

text \<open>Each peer either moves the watermark, which stops at 256, or uses up one of the calls allowed without progress.\<close>

lemma walk_loop_returns:
  assumes loc: "wf_id loc" and keeps: "\<And>p lab f t f' t' r. J t \<Longrightarrow> visit p lab (f, t) = ((f', t'), r) \<Longrightarrow> J t'"
    and apart: "pi_cache_radius it = None \<or> (\<forall>t p. J t \<longrightarrow> p \<in> set (pt_peers t) \<longrightarrow> peer_agreement loc p < 256)"
    and "J t" "pi_bucket_location_id it = loc" "pi_high_watermark it \<le> 256"
    and "pi_iterations_since_high_watermark it \<le> pi_max_iterations_since_high_watermark it"
  shows "\<exists>f' t' r. walk_loop visit f it t = Some ((f', t'), r) \<and> J t'"
  using assms(3-)
proof (induction "(it, f, t)" arbitrary: it f t
    rule: wf_induct_rule[OF wf_measures[of "[\<lambda>(it, f, t). 256 - pi_high_watermark it,
      \<lambda>(it, f, t). pi_max_iterations_since_high_watermark it - pi_iterations_since_high_watermark it]"]])
  case step: 1
  note apart = step.prems(1) and J = step.prems(2)
  have near: "pi_cache_radius it = None \<or> (\<forall>p \<in> set (unvisited it (pt_peers t)). closeness it p < 256)"
  proof (cases "pi_cache_radius it = None")
    case False
    then have "\<forall>t p. J t \<longrightarrow> p \<in> set (pt_peers t) \<longrightarrow> peer_agreement loc p < 256" using apart by satx
    with J have "p \<in> set (pt_peers t) \<Longrightarrow> peer_agreement loc p < 256" for p by metis
    then show ?thesis using step.prems(3) by (simp add: unvisited_def)
  qed simp
  obtain it' r where
    np: "next_peer (pt_peers t) it = Some (it', r)"
      "r = None \<or> (\<exists>p radius. p \<in> set (pt_peers t) \<and> (pi_cache_radius it = None \<longrightarrow> radius = None)
        \<and> visit_peer p (it\<lparr>pi_cache_radius := radius\<rparr>) = (it', r))"
    using next_peer_cases[OF near] by (elim exE conjE) (rule that)
  show ?case
  proof (cases r)
    case None
    then have "walk_loop visit f it t = Some ((f, t), Inr ())" using np(1) by (subst walk_loop.simps) simp
    then show ?thesis using J by blast
  next
    case (Some plab)
    then have "r \<noteq> None" by simp
    with np(2) obtain p radius where v: "p \<in> set (pt_peers t)" "visit_peer p (it\<lparr>pi_cache_radius := radius\<rparr>) = (it', r)"
      "pi_cache_radius it = None \<longrightarrow> radius = None" by (elim disjE exE conjE) (simp, rule that)
    have le: "closeness it p \<le> 256" using peer_agreement_max[OF loc] step.prems(3) by simp
    note vf = visit_peer_fields[OF v(2), simplified]
    have plab: "plab = (p, closeness it p)"
      and less: "256 - pi_high_watermark it' < 256 - pi_high_watermark it
        \<or> 256 - pi_high_watermark it' \<le> 256 - pi_high_watermark it \<and> pi_max_iterations_since_high_watermark it' - pi_iterations_since_high_watermark it'
          < pi_max_iterations_since_high_watermark it - pi_iterations_since_high_watermark it"
      and ok: "pi_iterations_since_high_watermark it' \<le> pi_max_iterations_since_high_watermark it'" "pi_high_watermark it' \<le> 256"
      using vf(2,5,6,7) Some le step.prems(4,5) by (simp_all split: if_splits) linarith?
    have apart': "pi_cache_radius it' = None \<or> (\<forall>t p. J t \<longrightarrow> p \<in> set (pt_peers t) \<longrightarrow> peer_agreement loc p < 256)"
      using apart vf(4) v(3) by blast
    obtain f' t' out where vis: "visit p (closeness it p) (f, t) = ((f', t'), out)" by (metis prod.collapse)
    have J': "J t'" by (rule keeps[OF J vis])
    have run: "walk_loop visit f it t = (case out of Inl e \<Rightarrow> Some ((f', t'), Inl e)
        | Inr stop \<Rightarrow> if stop then Some ((f', t'), Inr ()) else walk_loop visit f' it' t')"
      using np(1) Some plab vis by (subst walk_loop.simps) simp
    show ?thesis
    proof (cases "out = Inr False")
      case True
      have "\<exists>f'' t'' r. walk_loop visit f' it' t' = Some ((f'', t''), r) \<and> J t''"
        by (rule step.hyps) (use apart' J' ok less vf(1) step.prems(3) in auto)
      then show ?thesis using run True by simp
    next
      case False
      then show ?thesis using run J' by (cases out) auto
    qed
  qed
qed

text \<open>What the visits keep while the walk goes on, and what the last of them leaves, the walk leaves.\<close>

definition visit_rule :: "('f \<times> peer_tracker \<Rightarrow> bool) \<Rightarrow> ('f \<times> peer_tracker \<Rightarrow> unit res \<Rightarrow> bool)
    \<Rightarrow> (peer \<Rightarrow> nat \<Rightarrow> 'f \<times> peer_tracker \<Rightarrow> ('f \<times> peer_tracker) \<times> bool res) \<Rightarrow> bool" where
  "visit_rule K Q visit \<longleftrightarrow> (\<forall>st. K st \<longrightarrow> Q st (Inr ()))
     \<and> (\<forall>p lab st st' out. K st \<longrightarrow> visit p lab st = (st', out) \<longrightarrow>
          (case out of Inl e \<Rightarrow> Q st' (Inl e) | Inr stop \<Rightarrow> if stop then Q st' (Inr ()) else K st'))"

lemma walk_loop_leaves:
  assumes "walk_loop visit f it t = Some (st, r)" "visit_rule K Q visit" "K (f, t)"
  shows "Q st r"
proof -
  have "visit_rule K Q visit \<longrightarrow> K (f, t) \<longrightarrow> Q (fst (st, r)) (snd (st, r))"
  proof (rule walk_loop.raw_induct[OF _ assms(1)], intro impI)
    fix loop :: "(peer \<Rightarrow> nat \<Rightarrow> 'a \<times> peer_tracker \<Rightarrow> ('a \<times> peer_tracker) \<times> bool res) \<Rightarrow> 'a \<Rightarrow> peer_iterator \<Rightarrow> peer_tracker
        \<Rightarrow> (('a \<times> peer_tracker) \<times> unit res) option"
      and visit :: "peer \<Rightarrow> nat \<Rightarrow> 'a \<times> peer_tracker \<Rightarrow> ('a \<times> peer_tracker) \<times> bool res"
      and f :: 'a and it t and y :: "('a \<times> peer_tracker) \<times> unit res"
    assume IH: "\<And>visit f it t y. loop visit f it t = Some y \<Longrightarrow> visit_rule K Q visit \<longrightarrow> K (f, t) \<longrightarrow> Q (fst y) (snd y)"
      and run: "(case next_peer (pt_peers t) it of None \<Rightarrow> None | Some (it', None) \<Rightarrow> Some ((f, t), Inr ())
        | Some (it', Some (p, lab)) \<Rightarrow> (case visit p lab (f, t) of
            ((f', t'), Inl e) \<Rightarrow> Some ((f', t'), Inl e)
          | ((f', t'), Inr stop) \<Rightarrow> if stop then Some ((f', t'), Inr ()) else loop visit f' it' t')) = Some y"
      and keeps: "visit_rule K Q visit" and K: "K (f, t)"
    show "Q (fst y) (snd y)"
    proof (cases "next_peer (pt_peers t) it")
      case (Some io)
      obtain it' o' where io: "io = (it', o')" by fastforce
      show ?thesis
      proof (cases o')
        case None
        then show ?thesis using run Some io keeps K by (auto simp: visit_rule_def)
      next
        case pl: (Some pl)
        obtain p lab f' t' out where pl': "pl = (p, lab)" and vis: "visit p lab (f, t) = ((f', t'), out)" by (metis prod.collapse)
        have K': "case out of Inl e \<Rightarrow> Q (f', t') (Inl e) | Inr stop \<Rightarrow> if stop then Q (f', t') (Inr ()) else K (f', t')"
          using keeps K vis unfolding visit_rule_def by blast
        show ?thesis
        proof (cases "out = Inr False")
          case True
          then have "loop visit f' it' t' = Some y" using run Some io pl pl' vis by simp
          then show ?thesis using IH keeps K' True by simp
        next
          case False
          then show ?thesis using run Some io pl pl' vis K' by (cases out) auto
        qed
      qed
    qed (use run in simp)
  qed
  then show ?thesis using assms(2,3) by simp
qed

lemma walk_loop_keeps:
  assumes "walk_loop visit f it t = Some (st, r)"
    and "\<And>p lab st st' r. K st \<Longrightarrow> visit p lab st = (st', r) \<Longrightarrow> K st'" "K (f, t)"
  shows "K st"
proof -
  have "visit_rule K (\<lambda>st r. K st) visit" using assms(2) by (fastforce simp: visit_rule_def split: sum.splits)
  from walk_loop_leaves[OF assms(1) this assms(3)] show ?thesis .
qed

section \<open>What the manager keeps\<close>

lemma tracker_bootstrap_ok:
  assumes "tracker_ok C t" "tracker_bootstrap C B t = Inr t'"
  shows "tracker_ok C t'"
proof -
  have "tracker_bootstrap_loop C B as t = Inr t' \<Longrightarrow> tracker_ok C t \<Longrightarrow> tracker_ok C t'" for as t
  proof (induction as arbitrary: t)
    case (Cons a as)
    show ?case
    proof (cases "bootstrap_address B a")
      case (Inl e)
      then show ?thesis using Cons by (cases e) (auto split: if_splits)
    next
      case (Inr response)
      then obtain u where u: "tracker_add_peers C (br_peers_random response) t = Inr u"
        "(if tracker_is_empty u then tracker_bootstrap_loop C B as u else Inr u) = Inr t'"
        using Cons.prems(1) by auto
      have "tracker_ok C u" using tracker_add_peers_refines[OF Cons.prems(2) u(1)] by blast
      then show ?thesis using u(2) Cons.IH by (auto split: if_splits)
    qed
  qed simp
  then show ?thesis using assms by (auto simp: tracker_bootstrap_def split: if_splits)
qed

lemma iterate_to_location_ok:
  assumes "tracker_ok C t" "iterate_to_location C B loc n r t = Inr (t', it)"
  shows "tracker_ok C t'" "it = PeerIterator_new loc n r"
  using assms tracker_bootstrap_ok[OF assms(1)] by (auto simp: iterate_to_location_def)

lemma flush_tracker_same: "pt_peers (fst (flush_tracker S W t s)) = pt_peers t"
  by (auto simp: flush_tracker_def flush_def split: if_splits)

lemma tracker_ok_peers: "pt_peers t' = pt_peers t \<Longrightarrow> tracker_ok C t' \<longleftrightarrow> tracker_ok C t"
  by (simp add: tracker_ok_def)

lemma read_bundle_counts:
  assumes "read_bundle W bs = Inr b"
  shows "counts_posts b"
proof -
  let ?h = "pb_header b"
  have "pbh_verify (cw_crypto W) ?h = Inr ()" using assms by (auto simp: read_bundle_def)
  then have n: "pbh_num_posts ?h = word_of_nat (length (pbh_encoded_post_lengths ?h))" "pbh_num_posts ?h = word_of_nat (length (pbh_encoded_post_ids ?h))"
    by (auto simp: pbh_verify_def split: if_splits)
  have "unat (word_of_nat k :: byte) \<le> k" for k by (simp add: unat_of_nat)
  then show ?thesis unfolding counts_posts_def using n by metis
qed

lemma logged_failure_Inr: "logged_failure r a f = Inr y \<Longrightarrow> y = a \<or> (\<exists>x. r = Inr x \<and> f x = Inr y)"
  by (auto simp: logged_failure_def split: sum.splits err.splits)

text \<open>Everything collected was read from some bytes.\<close>

definition fetched_ok :: "client_world \<Rightarrow> bundle_fetch \<Rightarrow> bool" where
  "fetched_ok W f \<longleftrightarrow> (\<forall>b \<in> set (bf_bundles f). \<exists>bs. read_bundle W bs = Inr b)"

lemma keep_bundle_ok: "fetched_ok W f \<Longrightarrow> read_bundle W bs = Inr b \<Longrightarrow> fetched_ok W (keep_bundle b bs' f)"
  by (auto simp: fetched_ok_def keep_bundle_def Let_def)

lemma keep_cached_bundles_ok:
  assumes "keep_cached_bundles W cached (f, found) = Inr (f', found')" "fetched_ok W f"
  shows "fetched_ok W f'"
  using assms
proof (induction cached arbitrary: f found)
  case (Cons bs cached)
  then obtain g h where g: "logged_failure (read_bundle W bs) (f, found) (\<lambda>b. Inr (keep_bundle b bs f, True)) = Inr (g, h)"
    "keep_cached_bundles W cached (g, h) = Inr (f', found')" by auto
  have "fetched_ok W g" using logged_failure_Inr[OF g(1)] Cons.prems(2) keep_bundle_ok by auto
  then show ?case using Cons.IH[OF g(2)] by blast
qed simp

lemma take_bundle_response_ok:
  assumes "take_bundle_response W response lab f = Inr (f', b)" "fetched_ok W f"
  shows "fetched_ok W f'"
proof -
  let ?f1 = "case gr_cache_request_token response of None \<Rightarrow> f | Some token \<Rightarrow> f\<lparr>bf_tokens := bf_tokens f @ [token]\<rparr>"
  obtain f2 found where k: "keep_cached_bundles W (gr_post_bundles_cached response) (?f1, False) = Inr (f2, found)"
    using assms(1) by (auto simp: take_bundle_response_def Let_def)
  have "fetched_ok W ?f1" using assms(2) by (auto simp: fetched_ok_def split: option.splits)
  note f2 = keep_cached_bundles_ok[OF k this]
  show ?thesis
  proof (cases "gr_post_bundle response")
    case None
    then show ?thesis using assms(1) k f2 by (auto simp: take_bundle_response_def Let_def fetched_ok_def split: if_splits)
  next
    case (Some raw)
    let ?fin = "\<lambda>b. (keep_bundle b raw f2)\<lparr>bf_positive := bf_positive (keep_bundle b raw f2) @ [lab]\<rparr>"
    have "logged_failure (read_bundle W raw) (f2, False) (\<lambda>b. Inr (?fin b, True)) = Inr (f', b)"
      using assms(1) k Some by (simp add: take_bundle_response_def Let_def)
    from logged_failure_Inr[OF this] show ?thesis
      using f2 keep_bundle_ok[OF f2] by (auto simp: fetched_ok_def)
  qed
qed

lemma visit_for_bundle_ok:
  assumes "visit_for_bundle W loc p lab (f, t) = ((f', t'), r)" "tracker_ok (cw_crypto W) t" "fetched_ok W f"
  shows "tracker_ok (cw_crypto W) t' \<and> fetched_ok W f'"
proof (cases "p_id p \<in> set (bf_retrieved f)")
  case True
  then show ?thesis using assms by (simp add: visit_for_bundle_def)
next
  case False
  show ?thesis
  proof (cases "ask_for_bundle W loc p f")
    case (Inl e)
    then show ?thesis using assms False tracker_remove_peer_refines(1)[OF assms(2)]
      by (cases e) (auto simp: visit_for_bundle_def)
  next
    case (Inr response)
    let ?f1 = "f\<lparr>bf_peers_visited := bf_peers_visited f @ [p]\<rparr>"
    have f1: "fetched_ok W ?f1" using assms(3) by (simp add: fetched_ok_def)
    show ?thesis
    proof (cases "tracker_add_peers (cw_crypto W) (gr_peers_nearer response) t")
      case (Inl e)
      then show ?thesis using assms False Inr f1 by (simp add: visit_for_bundle_def Let_def)
    next
      case (Inr t1)
      have t1: "tracker_ok (cw_crypto W) t1" using tracker_add_peers_refines[OF assms(2) Inr] by blast
      note t2 = tracker_remove_peer_refines(1)[OF t1]
      show ?thesis
      proof (cases "take_bundle_response W response lab ?f1")
        case (Inl e)
        then show ?thesis using assms False \<open>ask_for_bundle W loc p f = Inr response\<close> Inr t1 f1
          by (simp add: visit_for_bundle_def Let_def)
      next
        case fb: (Inr fb)
        obtain f2 b where fb': "fb = (f2, b)" by (cases fb)
        have "fetched_ok W f2" using take_bundle_response_ok[OF fb[unfolded fb'] f1] .
        then show ?thesis using assms False \<open>ask_for_bundle W loc p f = Inr response\<close> Inr t1 t2 fb fb'
          by (cases b) (auto simp: visit_for_bundle_def Let_def)
      qed
    qed
  qed
qed

text \<open>A value that was read can be written and read again.\<close>

definition codec_ok :: "'a codec \<Rightarrow> bool" where
  "codec_ok J \<longleftrightarrow> (\<forall>bs x. dec J bs = Some x \<longrightarrow> dec J (enc J x) = Some x)"

definition cache_counts :: "client_world \<Rightarrow> (string \<Rightarrow> string \<Rightarrow> bytes option) \<Rightarrow> bool" where
  "cache_counts W view \<longleftrightarrow> (\<forall>k bs b. view BUCKET_POST_BUNDLE k = Some bs
     \<longrightarrow> pb_from_bytes (pj_bundle_header (cw_json W)) bs True = Inr b \<longrightarrow> counts_posts b)"

lemma bundle_buffer_roundtrip:
  assumes "codec_ok (pj_bundle_header (cw_json W))" "bundle_buffer W b = Inr bs" "read_bundle W raw = Inr b"
  shows "pb_from_bytes (pj_bundle_header (cw_json W)) bs True = Inr b"
proof -
  have "pb_from_bytes (pj_bundle_header (cw_json W)) raw True = Inr b" using assms(3) by (auto simp: read_bundle_def)
  then obtain hs where "dec (pj_bundle_header (cw_json W)) hs = Some (pb_header b)" by (auto simp: pb_from_bytes_def)
  then show ?thesis using assms(1,2) pb_bytes_roundtrip[of "pj_bundle_header (cw_json W)" b]
    by (auto simp: bundle_buffer_def codec_ok_def split: if_splits)
qed

definition live_ok :: "client_world \<Rightarrow> ('s \<Rightarrow> string \<Rightarrow> string \<Rightarrow> bytes option) \<Rightarrow> ('s \<Rightarrow> bool) \<Rightarrow> 's live_manager \<Rightarrow> bool" where
  "live_ok W view ready m \<longleftrightarrow> codec_ok (pj_bundle_header (cw_json W)) \<and> tracker_ok (cw_crypto W) (lm_tracker m)
     \<and> ready (lm_storage m) \<and> cache_counts W (view (lm_storage m))"

text \<open>The bundle a storage holds for a location, if what it holds can be read.\<close>

definition stored_bundle :: "client_world \<Rightarrow> (string \<Rightarrow> string \<Rightarrow> bytes option) \<Rightarrow> id \<Rightarrow> post_bundle option" where
  "stored_bundle W view location_id = (case view BUCKET_POST_BUNDLE (Id_to_hex_str (cw_hex W) location_id) of None \<Rightarrow> None
     | Some bs \<Rightarrow> (case pb_from_bytes (pj_bundle_header (cw_json W)) bs True of Inl e \<Rightarrow> None | Inr b \<Rightarrow> Some b))"

definition servable :: "time_millis \<Rightarrow> post_bundle \<Rightarrow> bool" where
  "servable now b \<longleftrightarrow> pbh_sealed (pb_header b) \<or> time_sub now (pbh_time_millis (pb_header b)) < CLIENT_POST_BUNDLE_CACHE_DURATION"

lemma buckets_known: "BUCKET_POST_BUNDLE \<in> set BUCKETS" "BUCKET_PEER \<in> set BUCKETS" "BUCKET_PEER \<noteq> BUCKET_POST_BUNDLE"
  "BUCKET_POST_BUNDLE_FEEDBACK \<in> set BUCKETS" "BUCKET_PEER \<noteq> BUCKET_POST_BUNDLE_FEEDBACK"
  by (simp_all add: storage_buckets)

lemma res_option_cases:
  "(\<And>e. r = Inl e \<Longrightarrow> P) \<Longrightarrow> (\<And>b. r = Inr (Some b) \<Longrightarrow> P) \<Longrightarrow> (r = Inr None \<Longrightarrow> P) \<Longrightarrow> P"
  by (cases r) auto

lemma visit_for_bundle_tracker:
  assumes "visit_for_bundle W loc p lab (f, t) = ((f', t'), r)" "tracker_ok (cw_crypto W) t"
  shows "tracker_ok (cw_crypto W) t'"
proof -
  have kept: "tracker_ok (cw_crypto W) u \<Longrightarrow> tracker_ok (cw_crypto W) (tracker_remove_peer p u)" for u
    by (rule tracker_remove_peer_refines(1))
  have added: "tracker_ok (cw_crypto W) u" if "tracker_add_peers (cw_crypto W) ps t = Inr u" for ps u
    using tracker_add_peers_refines[OF assms(2) that] by blast
  show ?thesis
    using assms kept added
    by (auto simp: visit_for_bundle_def Let_def split: if_splits sum.splits err.splits prod.splits bool.splits)
qed

context client_storage_laws
begin

lemma from_cache:
  assumes "ready s"
  shows "\<exists>s' r. bundle_from_cache S W i now s = (s', r) \<and> ready s' \<and> peek s' = peek s
    \<and> (\<forall>b. r = Inr (Some b) \<longrightarrow> stored_bundle W (peek s) i = Some b)
    \<and> (\<forall>b. stored_bundle W (peek s) i = Some b \<longrightarrow> servable now b \<longrightarrow> r = Inr (Some b))"
proof -
  obtain s' where s': "cs_get S BUCKET_POST_BUNDLE (Id_to_hex_str (cw_hex W) i) now s
      = (s', Inr (peek s BUCKET_POST_BUNDLE (Id_to_hex_str (cw_hex W) i)))" "ready s'" "peek s' = peek s"
    using get_peeks[OF assms buckets_known(1)] by blast
  show ?thesis
  proof (cases "peek s BUCKET_POST_BUNDLE (Id_to_hex_str (cw_hex W) i)")
    case None
    then show ?thesis using s' by (simp add: bundle_from_cache_def logged_failure_def stored_bundle_def)
  next
    case (Some bs)
    then show ?thesis using s'
      by (cases "pb_from_bytes (pj_bundle_header (cw_json W)) bs True")
        (auto simp: bundle_from_cache_def logged_failure_def stored_bundle_def servable_def split: err.splits)
  qed
qed

lemma flush_keeps:
  assumes "ready s"
  shows "ready (snd (flush_tracker S W t s)) \<and> peek (snd (flush_tracker S W t s)) BUCKET_POST_BUNDLE = peek s BUCKET_POST_BUNDLE"
proof (cases "pt_peers_need_flush t")
  case False
  then show ?thesis using assms by (simp add: flush_tracker_def flush_def)
next
  case True
  let ?put = "put_struct S (cw_compressor W) (cw_peers_json W) BUCKET_PEER ''peers'' (pt_peers t) (cw_now W) s"
  have "ready (fst ?put) \<and> peek (fst ?put) BUCKET_POST_BUNDLE = peek s BUCKET_POST_BUNDLE"
  proof (cases "compress_for_size (cw_compressor W) (enc (cw_peers_json W) (pt_peers t))")
    case (Inl e)
    then show ?thesis using assms by (simp add: put_struct_def)
  next
    case (Inr g)
    obtain s' where "cs_put S BUCKET_PEER ''peers'' (g_to_bytes g) (cw_now W) s = (s', Inr ())" "ready s'"
        "peek s' = (peek s)(BUCKET_PEER := (peek s BUCKET_PEER)(''peers'' \<mapsto> g_to_bytes g))"
      using put_stores[OF assms buckets_known(2)] by blast
    then show ?thesis using Inr buckets_known(3) by (simp add: put_struct_def del: g_to_bytes_contents)
  qed
  then show ?thesis using True by (simp add: flush_tracker_def flush_def)
qed

lemma finish_keeps:
  assumes "live_ok W peek ready m" "fetched_ok W f" "finish_bundle S W loc now f m = (m', r)"
  shows "live_ok W peek ready m' \<and> (\<forall>b bg. r = Inr (b, bg) \<longrightarrow> counts_posts b
    \<and> stored_bundle W (peek (lm_storage m')) (bl_location_id loc) = Some b)"
proof -
  let ?m1 = "if bf_positive f = [] then m
    else m\<lparr>lm_radii := cache_radius_update (bl_location_id loc) (Min (set (bf_positive f))) now (lm_radii m)\<rparr>"
  have m1: "live_ok W peek ready ?m1" "lm_storage ?m1 = lm_storage m" using assms(1) by (simp_all add: live_ok_def)
  show ?thesis
  proof (cases "max_by_key (\<lambda>b. pbh_num_posts (pb_header b)) (bf_bundles f)")
    case None
    then show ?thesis using assms(3) m1 by (auto simp: finish_bundle_def Let_def)
  next
    case (Some best)
    obtain raw where raw: "read_bundle W raw = Inr best" using max_by_key_member[OF Some] assms(2) by (auto simp: fetched_ok_def)
    note best = read_bundle_counts[OF raw]
    show ?thesis
    proof (cases "bundle_buffer W best")
      case (Inl e)
      then show ?thesis using assms(3) m1 Some by (auto simp: finish_bundle_def Let_def)
    next
      case (Inr bs)
      have rt: "pb_from_bytes (pj_bundle_header (cw_json W)) bs True = Inr best"
        using bundle_buffer_roundtrip[OF _ Inr raw] assms(1) by (simp add: live_ok_def)
      have "ready (lm_storage ?m1)" using m1(1) by (simp add: live_ok_def)
      from put_stores[OF this buckets_known(1)] obtain s' where
        s': "cs_put S BUCKET_POST_BUNDLE (Id_to_hex_str (cw_hex W) (bl_location_id loc)) bs now (lm_storage ?m1) = (s', Inr ())" "ready s'"
          "peek s' = (peek (lm_storage ?m1))(BUCKET_POST_BUNDLE := (peek (lm_storage ?m1) BUCKET_POST_BUNDLE)
             (Id_to_hex_str (cw_hex W) (bl_location_id loc) \<mapsto> bs))" by blast
      have "cache_counts W (peek s')" using m1(1) rt best s'(3) unfolding live_ok_def cache_counts_def by auto
      then have ok: "live_ok W peek ready (?m1\<lparr>lm_storage := s'\<rparr>)" using m1(1) s'(2) by (simp add: live_ok_def)
      have st: "stored_bundle W (peek s') (bl_location_id loc) = Some best" using s'(3) rt by (simp add: stored_bundle_def)
      have "m' = ?m1\<lparr>lm_storage := s'\<rparr>" "\<forall>b bg. r = Inr (b, bg) \<longrightarrow> b = best"
        using assms(3) Some Inr s'(1) by (auto simp: finish_bundle_def Let_def)
      then show ?thesis using ok st best by auto
    qed
  qed
qed

lemma fetch_keeps:
  assumes "live_ok W peek ready m" "fetch_bundle S W loc now m = Some (m', r)"
  shows "live_ok W peek ready m' \<and> (\<forall>b bg. r = Inr (b, bg) \<longrightarrow> counts_posts b
    \<and> stored_bundle W (peek (lm_storage m')) (bl_location_id loc) = Some b)"
proof -
  let ?radius = "cache_radius_get (bl_location_id loc) now (lm_radii m)"
  have t0: "tracker_ok (cw_crypto W) (lm_tracker m)" using assms(1) by (simp add: live_ok_def)
  show ?thesis
  proof (cases "iterate_to_location (cw_crypto W) (cw_bootstrap W) (bl_location_id loc) (2 * REDUNDANT_SERVERS_PER_POST) ?radius (lm_tracker m)")
    case (Inl e)
    then show ?thesis using assms by (auto simp: fetch_bundle_def Let_def)
  next
    case (Inr tit)
    obtain t it where tit: "tit = (t, it)" by (cases tit)
    have t: "tracker_ok (cw_crypto W) t" using iterate_to_location_ok(1)[OF t0 Inr[unfolded tit]] .
    obtain f t1 out where w: "walk_loop (visit_for_bundle W loc) bundle_fetch_new it t = Some ((f, t1), out)"
      using assms(2) Inr tit by (auto simp: fetch_bundle_def Let_def split: option.splits)
    have ok: "tracker_ok (cw_crypto W) t1 \<and> fetched_ok W f"
    proof -
      have "case (f, t1) of (f, t) \<Rightarrow> tracker_ok (cw_crypto W) t \<and> fetched_ok W f"
        by (rule walk_loop_keeps[OF w]) (use visit_for_bundle_ok t in \<open>auto simp: fetched_ok_def bundle_fetch_new_def\<close>)
      then show ?thesis by simp
    qed
    show ?thesis
    proof (cases out)
      case (Inl e)
      then have "m' = m\<lparr>lm_tracker := t1\<rparr>" "r = Inl e" using assms(2) Inr tit w \<open>iterate_to_location _ _ _ _ _ _ = _\<close>
        by (auto simp: fetch_bundle_def Let_def)
      then show ?thesis using assms(1) ok by (simp add: live_ok_def)
    next
      case out: (Inr u)
      obtain t2 s2 where fl: "flush_tracker S W t1 (lm_storage m) = (t2, s2)" by fastforce
      have "pt_peers t2 = pt_peers t1" using flush_tracker_same[of S W t1 "lm_storage m"] fl by simp
      then have t2: "tracker_ok (cw_crypto W) t2" using ok by (simp add: tracker_ok_def)
      have "ready s2 \<and> peek s2 BUCKET_POST_BUNDLE = peek (lm_storage m) BUCKET_POST_BUNDLE"
        using flush_keeps[of "lm_storage m" W t1] fl assms(1) by (simp add: live_ok_def)
      then have "live_ok W peek ready (m\<lparr>lm_tracker := t2, lm_storage := s2\<rparr>)"
        using assms(1) t2 by (simp add: live_ok_def cache_counts_def)
      moreover have "finish_bundle S W loc now f (m\<lparr>lm_tracker := t2, lm_storage := s2\<rparr>) = (m', r)"
        using assms(2) Inr tit w out fl by (simp add: fetch_bundle_def Let_def)
      ultimately show ?thesis using finish_keeps ok by blast
    qed
  qed
qed

lemma storage_step_keeps:
  "live_ok W peek ready m \<Longrightarrow> ready s' \<Longrightarrow> peek s' = peek (lm_storage m) \<Longrightarrow> live_ok W peek ready (m\<lparr>lm_storage := s'\<rparr>)"
  by (simp add: live_ok_def)

lemma stored_counts:
  "live_ok W peek ready m \<Longrightarrow> stored_bundle W (peek (lm_storage m)) i = Some b \<Longrightarrow> counts_posts b"
  by (auto simp: live_ok_def cache_counts_def stored_bundle_def split: option.splits sum.splits)

lemma live_keeps:
  assumes "live_ok W peek ready m" "live_get_post_bundle S W loc now m = Some (m', r)"
  shows "live_ok W peek ready m' \<and> (\<forall>b bg. r = Inr (b, bg) \<longrightarrow> counts_posts b
    \<and> stored_bundle W (peek (lm_storage m')) (bl_location_id loc) = Some b)"
proof -
  have r0: "ready (lm_storage m)" using assms(1) by (simp add: live_ok_def)
  obtain s1 r1 where c1: "bundle_from_cache S W (bl_location_id loc) now (lm_storage m) = (s1, r1)" "ready s1" "peek s1 = peek (lm_storage m)"
    "\<forall>b. r1 = Inr (Some b) \<longrightarrow> stored_bundle W (peek (lm_storage m)) (bl_location_id loc) = Some b"
    using from_cache[OF r0, of W "bl_location_id loc" now] by blast
  obtain s2 r2 where c2: "bundle_from_cache S W (bl_location_id loc) now s1 = (s2, r2)" "ready s2" "peek s2 = peek s1"
    "\<forall>b. r2 = Inr (Some b) \<longrightarrow> stored_bundle W (peek s1) (bl_location_id loc) = Some b"
    using from_cache[OF c1(2), of W "bl_location_id loc" now] by blast
  have ok1: "live_ok W peek ready (m\<lparr>lm_storage := s1\<rparr>)" by (rule storage_step_keeps[OF assms(1) c1(2,3)])
  have ok2: "live_ok W peek ready (m\<lparr>lm_storage := s2\<rparr>)"
    by (rule storage_step_keeps[OF assms(1) c2(2)]) (simp add: c1(3) c2(3))
  consider e where "r1 = Inl e" | b where "r1 = Inr (Some b)" | e where "r1 = Inr None" "r2 = Inl e"
    | b where "r1 = Inr None" "r2 = Inr (Some b)" | "r1 = Inr None" "r2 = Inr None"
    by (metis not_None_eq sum.exhaust)
  then show ?thesis
  proof cases
    case 5
    then have "fetch_bundle S W loc now (m\<lparr>lm_storage := s2\<rparr>) = Some (m', r)"
      using assms(2) c1(1) c2(1) by (simp add: live_get_post_bundle_def)
    from fetch_keeps[OF ok2 this] show ?thesis .
  next
    case (2 b)
    have "stored_bundle W (peek s1) (bl_location_id loc) = Some b" using c1(3,4) 2 by simp
    then show ?thesis using assms(2) c1(1) 2 ok1 stored_counts[OF ok1] by (auto simp: live_get_post_bundle_def)
  next
    case (4 b)
    have "stored_bundle W (peek s2) (bl_location_id loc) = Some b" using c2(3,4) 4 by simp
    then show ?thesis using assms(2) c1(1) c2(1) 4 ok2 stored_counts[OF ok2] by (auto simp: live_get_post_bundle_def)
  qed (use assms(2) c1(1) c2(1) ok1 ok2 in \<open>auto simp: live_get_post_bundle_def\<close>)
qed

text \<open>What a call returned is served from the storage for as long as it is fresh or sealed.\<close>

lemma live_hit:
  assumes "live_ok W peek ready m" "stored_bundle W (peek (lm_storage m)) (bl_location_id loc) = Some b" "servable now b"
  shows "\<exists>s'. live_get_post_bundle S W loc now m = Some (m\<lparr>lm_storage := s'\<rparr>, Inr (b, [], [], [])) \<and> peek s' = peek (lm_storage m)"
  using from_cache[of "lm_storage m" W "bl_location_id loc" now] assms
  by (auto simp: live_get_post_bundle_def live_ok_def)

text \<open>A call returns when no acceptable peer has the very identity of the location.\<close>

lemma live_returns:
  assumes "live_ok W peek ready m" "wf_id (bl_location_id loc)"
    and "\<forall>p. acceptable (cw_crypto W) p \<longrightarrow> peer_agreement (bl_location_id loc) p < 256"
  shows "\<exists>m' r. live_get_post_bundle S W loc now m = Some (m', r)"
proof -
  have fetch: "\<exists>out. fetch_bundle S W loc now m = Some out" if "live_ok W peek ready m" for m
  proof -
    let ?radius = "cache_radius_get (bl_location_id loc) now (lm_radii m)"
    have t0: "tracker_ok (cw_crypto W) (lm_tracker m)" using that by (simp add: live_ok_def)
    show ?thesis
    proof (cases "iterate_to_location (cw_crypto W) (cw_bootstrap W) (bl_location_id loc) (2 * REDUNDANT_SERVERS_PER_POST) ?radius (lm_tracker m)")
      case (Inl e)
      then show ?thesis by (simp add: fetch_bundle_def Let_def)
    next
      case (Inr tit)
      obtain t it where tit: "tit = (t, it)" by (cases tit)
      note i = iterate_to_location_ok[OF t0 Inr[unfolded tit]]
      have "\<exists>f' t' r. walk_loop (visit_for_bundle W loc) bundle_fetch_new it t = Some ((f', t'), r) \<and> tracker_ok (cw_crypto W) t'"
      proof (rule walk_loop_returns[OF assms(2), where J = "tracker_ok (cw_crypto W)"])
        show "pi_cache_radius it = None \<or> (\<forall>t p. tracker_ok (cw_crypto W) t \<longrightarrow> p \<in> set (pt_peers t)
            \<longrightarrow> peer_agreement (bl_location_id loc) p < 256)"
          using assms(3) by (auto simp: tracker_ok_def list_all_iff)
        show "tracker_ok (cw_crypto W) t'" if "tracker_ok (cw_crypto W) t" "visit_for_bundle W loc p lab (f, t) = ((f', t'), r)"
          for p lab f t f' t' r
          using visit_for_bundle_tracker[OF that(2,1)] .
      qed (use i in simp_all)
      then obtain f' t' r where "walk_loop (visit_for_bundle W loc) bundle_fetch_new it t = Some ((f', t'), r)" by blast
      then show ?thesis using Inr tit by (cases r) (auto simp: fetch_bundle_def Let_def split: prod.splits)
    qed
  qed
  have r0: "ready (lm_storage m)" using assms(1) by (simp add: live_ok_def)
  obtain s1 r1 where c1: "bundle_from_cache S W (bl_location_id loc) now (lm_storage m) = (s1, r1)" "ready s1" "peek s1 = peek (lm_storage m)"
    using from_cache[OF r0, of W "bl_location_id loc" now] by blast
  obtain s2 r2 where c2: "bundle_from_cache S W (bl_location_id loc) now s1 = (s2, r2)" "ready s2" "peek s2 = peek s1"
    using from_cache[OF c1(2), of W "bl_location_id loc" now] by blast
  have "live_ok W peek ready (m\<lparr>lm_storage := s2\<rparr>)"
    by (rule storage_step_keeps[OF assms(1) c2(2)]) (simp add: c1(3) c2(3))
  from fetch[OF this] show ?thesis using c1(1) c2(1)
    by (auto simp: live_get_post_bundle_def split: sum.splits option.splits)
qed

end

section \<open>The manager behind a timeline\<close>

text \<open>The trait method: what is left to the background is not its result. A call that does not return ends the timeline's as well;
  it is shown as a panic there.\<close>

definition live_getter :: "'s client_storage \<Rightarrow> client_world \<Rightarrow> 's live_manager bundle_getter" where
  "live_getter S W loc now m = (case live_get_post_bundle S W loc now m of
     None \<Rightarrow> (m, Inl (Panic ''does not return''))
   | Some (m', r) \<Rightarrow> (m', rbind r (\<lambda>(b, bg). Inr b)))"

abbreviation mem_live_ok :: "client_world \<Rightarrow> mem_client_storage live_manager \<Rightarrow> bool" where
  "mem_live_ok W \<equiv> live_ok W mem_client_peek mem_client_ready"

interpretation live: post_bundle_manager "live_getter mem_client_storage W" "mem_live_ok W" "\<lambda>e. True" for W
proof
  fix m loc now b e
  assume m: "mem_live_ok W m"
  show "mem_live_ok W (fst (live_getter mem_client_storage W loc now m))"
    using m mem_client.live_keeps[OF m] by (auto simp: live_getter_def split: option.splits)
  show "snd (live_getter mem_client_storage W loc now m) = Inr b \<Longrightarrow> counts_posts b"
    using mem_client.live_keeps[OF m] by (fastforce simp: live_getter_def split: option.splits)
qed simp

text \<open>C23: The bundle manager of a client, over its in-memory storage: as long as no acceptable peer has the very identity of the
  location, asking for a bundle returns; it keeps the tracker sorted and its peers verified and every bundle in the storage one
  that counts its posts; and a bundle it returned is served again from the storage alone, with no server asked, for as long as
  it is sealed or its header's own time is less than the cache duration ago.\<close>

theorem live_manager_serves:
  assumes "mem_live_ok W m" "wf_id (bl_location_id loc)"
    and "\<forall>p. acceptable (cw_crypto W) p \<longrightarrow> peer_agreement (bl_location_id loc) p < 256"
  shows "\<exists>m' r. live_get_post_bundle mem_client_storage W loc now m = Some (m', r) \<and> mem_live_ok W m'
    \<and> (\<forall>b bg. r = Inr (b, bg) \<longrightarrow> counts_posts b
        \<and> (\<forall>later. servable later b \<longrightarrow> (\<exists>s'. live_get_post_bundle mem_client_storage W loc later m'
             = Some (m'\<lparr>lm_storage := s'\<rparr>, Inr (b, [], [], [])) \<and> mem_client_peek s' = mem_client_peek (lm_storage m'))))"
proof -
  obtain m' r where run: "live_get_post_bundle mem_client_storage W loc now m = Some (m', r)"
    using mem_client.live_returns[OF assms] by blast
  note k = mem_client.live_keeps[OF assms(1) run]
  have "\<exists>s'. live_get_post_bundle mem_client_storage W loc later m' = Some (m'\<lparr>lm_storage := s'\<rparr>, Inr (b, [], [], []))
      \<and> mem_client_peek s' = mem_client_peek (lm_storage m')" if "r = Inr (b, bg)" "servable later b" for b bg later
    using mem_client.live_hit[OF conjunct1[OF k]] k that by blast
  then show ?thesis using run k by blast
qed

text \<open>Asking a timeline over that manager for a page always ends and keeps all of this, whatever the servers answer and however
  the page ends: the tracker stays sorted with verified peers, and the stored bundles count their posts.\<close>

theorem live_timeline_keeps_manager:
  assumes "crypto_ok C" "mem_live_ok W m" "durations_ok ds" "I64_MIN < now"
    and "I64_MIN < time_sub_dur (tl_oldest_allowed (tl_start now st)) MILLIS_IN_MONTH"
  shows "\<exists>st' m' pen' r. tl_get_more_posts C (live_getter mem_client_storage W) now mx ds (st, m, pen) = Some ((st', m', pen'), r)
    \<and> mem_live_ok W m'"
proof -
  obtain st' m' pen' r where run: "tl_get_more_posts C (live_getter mem_client_storage W) now mx ds (st, m, pen) = Some ((st', m', pen'), r)"
    using tl_page_returns[OF assms(3-5), of C "live_getter mem_client_storage W" mx m pen] by (metis prod.collapse)
  have "callbacks_ok ds (\<lambda>(st, posts, m). mem_live_ok W m) (page_fails (\<lambda>e. True) UNIV) (tl_callbacks C (live_getter mem_client_storage W) now mx)"
    by (rule live.walk_outcome[OF assms(1)]) (use assms(3) in \<open>auto simp: durations_ok_def\<close>)
  from live.page_outcome[OF this assms(2-5) run] run show ?thesis by blast
qed


section \<open>Bundles of votes\<close>

definition feedback_from_cache :: "'s client_storage \<Rightarrow> client_world \<Rightarrow> id \<Rightarrow> time_millis \<Rightarrow> 's \<Rightarrow> 's \<times> feedback_bundle option res" where
  "feedback_from_cache S W location_id now s =
     (case cs_get S BUCKET_POST_BUNDLE_FEEDBACK (Id_to_hex_str (cw_hex W) location_id) now s of (s', r) \<Rightarrow>
        (s', logged_failure (rbind r (\<lambda>raw. case raw of None \<Rightarrow> Inr None
           | Some bs \<Rightarrow> rbind (fbb_from_bytes (cw_feedback_header_json W) bs) (\<lambda>b.
               Inr (if time_sub now (fh_time_millis (fbb_header b)) < CLIENT_POST_BUNDLE_FEEDBACK_CACHE_DURATION then Some b else None))))
           None Inr))"

record feedback_fetch =
  ff_peers_visited :: "peer list"
  ff_retrieved :: "id list"
  ff_bundles :: "feedback_bundle list"
  ff_tokens :: "cache_request_token list"
  ff_positive :: "nat list"

definition feedback_fetch_new :: feedback_fetch where
  "feedback_fetch_new = \<lparr>ff_peers_visited = [], ff_retrieved = [], ff_bundles = [], ff_tokens = [], ff_positive = []\<rparr>"

definition read_feedback :: "client_world \<Rightarrow> bytes \<Rightarrow> feedback_bundle res" where
  "read_feedback W bs = rbind (fbb_from_bytes (cw_feedback_header_json W) bs) (\<lambda>b.
     rbind (fh_verify (cw_crypto W) (fbb_header b)) (\<lambda>_. Inr b))"

definition keep_feedback :: "feedback_bundle \<Rightarrow> feedback_fetch \<Rightarrow> feedback_fetch" where
  "keep_feedback b f = f\<lparr>ff_retrieved := ff_retrieved f @ [p_id (fh_peer (fbb_header b))], ff_bundles := ff_bundles f @ [b]\<rparr>"

fun keep_cached_feedbacks :: "client_world \<Rightarrow> bytes list \<Rightarrow> feedback_fetch \<times> bool \<Rightarrow> (feedback_fetch \<times> bool) res" where
  "keep_cached_feedbacks W [] st = Inr st"
| "keep_cached_feedbacks W (bs # rest) (f, found) =
     rbind (logged_failure (read_feedback W bs) (f, found) (\<lambda>b. Inr (keep_feedback b f, True))) (keep_cached_feedbacks W rest)"

definition ask_for_feedback :: "client_world \<Rightarrow> bucket_location \<Rightarrow> peer \<Rightarrow> feedback_fetch \<Rightarrow> get_post_bundle_feedback_response res" where
  "ask_for_feedback W loc p f =
     rbind (rpc_server_known (cw_services W p) (cw_sponsor_id W) p GetPostBundleFeedbackV1
              (enc (cw_get_json W) \<lparr>gpb_bucket_location = loc, gpb_peers_visited = ff_peers_visited f,
                 gpb_already_retrieved_peer_ids = ff_retrieved f\<rparr>)) (\<lambda>rx.
     rbind (ensure (rr_response_request_kind rx = GetPostBundleFeedbackResponseV1) ''response kind'') (\<lambda>_.
       get_feedback_response_from_bytes (cw_json W) (rr_bytes rx)))"

definition take_feedback_response :: "client_world \<Rightarrow> get_post_bundle_feedback_response \<Rightarrow> nat \<Rightarrow> feedback_fetch \<Rightarrow> (feedback_fetch \<times> bool) res" where
  "take_feedback_response W response lab f =
     (let f1 = (case gf_cache_request_token response of None \<Rightarrow> f | Some token \<Rightarrow> f\<lparr>ff_tokens := ff_tokens f @ [token]\<rparr>);
          finish = (\<lambda>(g, found). (if found then g\<lparr>ff_positive := ff_positive g @ [lab]\<rparr> else g, True))
      in rbind (keep_cached_feedbacks W (gf_post_bundle_feedbacks_cached response) (f1, False)) (\<lambda>(f2, found).
         case gf_encoded_post_bundle_feedback response of None \<Rightarrow> Inr (finish (f2, found))
         | Some raw \<Rightarrow> logged_failure (read_feedback W raw) (f2, False) (\<lambda>b. Inr (finish (keep_feedback b f2, True)))))"

definition visit_for_feedback :: "client_world \<Rightarrow> bucket_location \<Rightarrow> peer \<Rightarrow> nat \<Rightarrow> feedback_fetch \<times> peer_tracker
    \<Rightarrow> (feedback_fetch \<times> peer_tracker) \<times> bool res" where
  "visit_for_feedback W loc p lab st = (case st of (f, t) \<Rightarrow>
     if p_id p \<in> set (ff_retrieved f) then (st, Inr False)
     else (case ask_for_feedback W loc p f of
         Inl (Panic m) \<Rightarrow> (st, Inl (Panic m))
       | Inl (Bail m) \<Rightarrow> ((f, tracker_remove_peer p t), Inr False)
       | Inr response \<Rightarrow>
           let f1 = f\<lparr>ff_peers_visited := ff_peers_visited f @ [p]\<rparr> in
           (case tracker_add_peers (cw_crypto W) (gf_peers_nearer response) t of
              Inl e \<Rightarrow> ((f1, t), Inl e)
            | Inr t1 \<Rightarrow> (case take_feedback_response W response lab f1 of
                Inl e \<Rightarrow> ((f1, t1), Inl e)
              | Inr (f2, True) \<Rightarrow> ((f2, t1), Inr (REDUNDANT_SERVERS_PER_POST \<le> length (ff_bundles f2)))
              | Inr (f2, False) \<Rightarrow> ((f2, tracker_remove_peer p t1), Inr False)))))"

definition feedback_buffer :: "client_world \<Rightarrow> feedback_bundle \<Rightarrow> bytes res" where
  "feedback_buffer W b =
     (if USIZE_MAX < length (enc (cw_feedback_header_json W) (fbb_header b)) + length (fbb_feedbacks_bytes b)
      then Inl (Panic ''capacity overflow'') else Inr (fbb_to_bytes (cw_feedback_header_json W) b))"

type_synonym feedback_background = "heal_feedback_work list \<times> cache_request_token list \<times> bytes"

definition finish_feedback :: "'s client_storage \<Rightarrow> client_world \<Rightarrow> bucket_location \<Rightarrow> time_millis \<Rightarrow> feedback_fetch \<Rightarrow> 's live_manager
    \<Rightarrow> 's live_manager \<times> (feedback_bundle \<times> feedback_background) res" where
  "finish_feedback S W loc now f m =
     (let m1 = (if ff_positive f = [] then m
          else m\<lparr>lm_radii := cache_radius_update (bl_location_id loc) (Min (set (ff_positive f))) now (lm_radii m)\<rparr>)
      in case feedback_merge (cw_hash_order W) (ff_bundles f) of
           None \<Rightarrow> (m1, Inl (Bail ''No post bundle feedbacks discovered''))
         | Some best \<Rightarrow> (case feedback_buffer W best of
             Inl e \<Rightarrow> (m1, Inl e)
           | Inr bs \<Rightarrow> (case cs_put S BUCKET_POST_BUNDLE_FEEDBACK (Id_to_hex_str (cw_hex W) (bl_location_id loc)) bs now (lm_storage m1) of
               (s', Inl e) \<Rightarrow> (m1\<lparr>lm_storage := s'\<rparr>, Inl e)
             | (s', Inr _) \<Rightarrow> (m1\<lparr>lm_storage := s'\<rparr>,
                 Inr (best, heal_post_bundle_feedbacks (ff_peers_visited f) (ff_bundles f) best, ff_tokens f, bs)))))"

definition fetch_feedback :: "'s client_storage \<Rightarrow> client_world \<Rightarrow> bucket_location \<Rightarrow> time_millis \<Rightarrow> 's live_manager
    \<Rightarrow> ('s live_manager \<times> (feedback_bundle \<times> feedback_background) res) option" where
  "fetch_feedback S W loc now m =
     (let radius = cache_radius_get (bl_location_id loc) now (lm_radii m) in
      case iterate_to_location (cw_crypto W) (cw_bootstrap W) (bl_location_id loc) (2 * REDUNDANT_SERVERS_PER_POST) radius (lm_tracker m) of
        Inl e \<Rightarrow> Some (m, Inl e)
      | Inr (t, it) \<Rightarrow> (case walk_loop (visit_for_feedback W loc) feedback_fetch_new it t of
          None \<Rightarrow> None
        | Some ((f, t1), Inl e) \<Rightarrow> Some (m\<lparr>lm_tracker := t1\<rparr>, Inl e)
        | Some ((f, t1), Inr _) \<Rightarrow> (case flush_tracker S W t1 (lm_storage m) of (t2, s2) \<Rightarrow>
            Some (finish_feedback S W loc now f (m\<lparr>lm_tracker := t2, lm_storage := s2\<rparr>)))))"

definition live_get_post_bundle_feedback :: "'s client_storage \<Rightarrow> client_world \<Rightarrow> bucket_location \<Rightarrow> time_millis \<Rightarrow> 's live_manager
    \<Rightarrow> ('s live_manager \<times> (feedback_bundle \<times> feedback_background) res) option" where
  "live_get_post_bundle_feedback S W loc now m =
     (case feedback_from_cache S W (bl_location_id loc) now (lm_storage m) of
        (s1, Inl e) \<Rightarrow> Some (m\<lparr>lm_storage := s1\<rparr>, Inl e)
      | (s1, Inr (Some b)) \<Rightarrow> Some (m\<lparr>lm_storage := s1\<rparr>, Inr (b, [], [], []))
      | (s1, Inr None) \<Rightarrow> (case feedback_from_cache S W (bl_location_id loc) now s1 of
          (s2, Inl e) \<Rightarrow> Some (m\<lparr>lm_storage := s2\<rparr>, Inl e)
        | (s2, Inr (Some b)) \<Rightarrow> Some (m\<lparr>lm_storage := s2\<rparr>, Inr (b, [], [], []))
        | (s2, Inr None) \<Rightarrow> fetch_feedback S W loc now (m\<lparr>lm_storage := s2\<rparr>)))"

text \<open>The votes of a bundle whose work exceeds what another bundle has for the same post and type, and the requests that are queued:
  one for each bundle of a visited server that falls short, in the order of the bundles.\<close>

definition votes_short :: "feedback_bundle \<Rightarrow> feedback_bundle \<Rightarrow> vote list" where
  "votes_short best b = List.filter (\<lambda>((i, ty), s, p). get_post_pow_for_feedback_type b i ty < p) (votes best)"

lemma heal_work_exact:
  "map (\<lambda>w. (hfw_target_peer w, hfw_location_id w, map vote_of (hfw_feedbacks_to_send w))) (heal_post_bundle_feedbacks visited bundles best)
    = (if length bundles < 2 then [] else
       map (\<lambda>b. (fh_peer (fbb_header b), fh_location_id (fbb_header b), votes_short best b))
         (List.filter (\<lambda>b. (\<exists>p \<in> set visited. p_id p = p_id (fh_peer (fbb_header b))) \<and> votes_short best b \<noteq> []) bundles))"
proof -
  have sent: "map vote_of (votes_to_send best b) = votes_short best b" for b by (simp add: votes_sent votes_short_def)
  have none: "votes_to_send best b = [] \<longleftrightarrow> votes_short best b = []" for b using sent[of b] by (metis Nil_is_map_conv)
  show ?thesis
  proof (cases "fbb_feedbacks_bytes best = []")
    case True
    then have "votes best = []" by (simp add: votes_def view_iter_def)
    then show ?thesis using True by (simp add: heal_post_bundle_feedbacks_def votes_short_def)
  next
    case False
    have "map (\<lambda>w. (hfw_target_peer w, hfw_location_id w, map vote_of (hfw_feedbacks_to_send w))) (concat (map (\<lambda>b.
        if \<not> (\<exists>p \<in> set visited. p_id p = p_id (fh_peer (fbb_header b))) then []
        else let fs = votes_to_send best b in
          if fs = [] then [] else [\<lparr>hfw_target_peer = fh_peer (fbb_header b), hfw_location_id = fh_location_id (fbb_header b),
            hfw_feedbacks_to_send = fs\<rparr>]) bs))
      = map (\<lambda>b. (fh_peer (fbb_header b), fh_location_id (fbb_header b), votes_short best b))
         (List.filter (\<lambda>b. (\<exists>p \<in> set visited. p_id p = p_id (fh_peer (fbb_header b))) \<and> votes_short best b \<noteq> []) bs)" for bs
      by (induction bs) (simp_all add: Let_def none sent)
    then show ?thesis using False by (simp add: heal_post_bundle_feedbacks_def)
  qed
qed

text \<open>C30: What a fetch of votes returns reports, for each post and type, the largest work among all bundles collected. When at least two
  were collected, one request is queued for each bundle of a visited server that falls short, in the order of the bundles, and
  it holds exactly the votes of the result whose work exceeds what that bundle has for their post and type; with them that
  bundle reports what the result reports. Nothing else is queued.\<close>

theorem feedback_fetch_heals_servers:
  assumes "finish_feedback S W loc now f m = (m', Inr (best, work, tokens, bs))" "\<And>xs. mset (cw_hash_order W xs) = mset xs"
  shows "get_post_pow_for_feedback_type best i ty = best_pow (concat (map votes (ff_bundles f))) (i, ty)
    \<and> map (\<lambda>w. (hfw_target_peer w, hfw_location_id w, map vote_of (hfw_feedbacks_to_send w))) work
      = (if length (ff_bundles f) < 2 then [] else
         map (\<lambda>b. (fh_peer (fbb_header b), fh_location_id (fbb_header b), votes_short best b))
           (List.filter (\<lambda>b. (\<exists>p \<in> set (ff_peers_visited f). p_id p = p_id (fh_peer (fbb_header b))) \<and> votes_short best b \<noteq> [])
             (ff_bundles f)))
    \<and> (\<forall>b \<in> set (ff_bundles f). max (get_post_pow_for_feedback_type b i ty) (best_pow (votes_short best b) (i, ty))
        = get_post_pow_for_feedback_type best i ty)"
proof -
  have mg: "feedback_merge (cw_hash_order W) (ff_bundles f) = Some best"
    and work: "work = heal_post_bundle_feedbacks (ff_peers_visited f) (ff_bundles f) best"
    using assms(1) by (auto simp: finish_feedback_def Let_def split: option.splits sum.splits prod.splits)
  have sent: "map vote_of (votes_to_send best b) = votes_short best b" for b by (simp add: votes_sent votes_short_def)
  show ?thesis
    using merged_votes_max[OF mg assms(2), of i ty] votes_sent_make_up[OF mg assms(2), of _ i ty]
    unfolding work heal_work_exact sent by blast
qed

end
