(* ===== verification/Posting.thy ===== *)
theory Posting
  imports LiveManager
begin

text \<open>
  \<open>client/post_bundle/posting.rs\<close>: a post is parsed for the buckets it belongs to, encoded once, and then offered to each bucket
  in turn, in two phases (claim, commit) per server of a walk; every commit goes into the pen of recent posts and over a channel to
  the caller, who may return early. The HTML parser is a parameter that gives a tree; which elements of it count is modelled.
\<close>

section \<open>The buckets of a post\<close>

datatype html_node = HtmlText string | HtmlElement (element_name: string) (element_attrs: "(string \<times> string) list") "html_node list"

record linked_base_id_detail =
  ld_linked_base_id :: id
  ld_bucket_type :: bucket_type
  ld_referenced_post_header_bytes :: "bytes option"

definition is_quoting :: "string \<Rightarrow> bool" where
  "is_quoting name \<longleftrightarrow> name \<in> {''reply'', ''repost'', ''sequel''}"

text \<open>The elements of a name that have no quoting element above them, in document order, as their attributes.\<close>

fun select_unquoted :: "string \<Rightarrow> bool \<Rightarrow> html_node \<Rightarrow> (string \<times> string) list list" where
  "select_unquoted name quoted (HtmlText s) = []"
| "select_unquoted name quoted (HtmlElement n attrs children) =
     (if n = name \<and> \<not> quoted then [attrs] else []) @ concat (map (select_unquoted name (quoted \<or> is_quoting n)) children)"

definition html_select :: "html_node list \<Rightarrow> string \<Rightarrow> (string \<times> string) list list" where
  "html_select html name = concat (map (select_unquoted name False) html)"

text \<open>Hashtags are told apart by their text as written, not by their id.\<close>

fun hashtag_details :: "crypto \<Rightarrow> (string \<Rightarrow> string) \<Rightarrow> (string \<times> string) list list \<Rightarrow> string set
    \<Rightarrow> (linked_base_id_detail list \<times> string list) res" where
  "hashtag_details C lowercase [] seen = Inr ([], [])"
| "hashtag_details C lowercase (attrs # rest) seen = (case map_of attrs ''hashtag'' of
     None \<Rightarrow> hashtag_details C lowercase rest seen
   | Some hashtag \<Rightarrow>
       if hashtag \<in> seen then hashtag_details C lowercase rest seen
       else rbind (Id_from_hashtag_str C lowercase hashtag) (\<lambda>i.
            rbind (hashtag_details C lowercase rest (insert hashtag seen)) (\<lambda>(ds, tags).
              Inr (\<lparr>ld_linked_base_id = i, ld_bucket_type = Hashtag, ld_referenced_post_header_bytes = None\<rparr> # ds, hashtag # tags))))"

text \<open>Mentions, replies and sequels: an id in hexadecimal; one that cannot be read is logged and skipped.\<close>

fun reference_details :: "(string \<Rightarrow> bytes option) \<Rightarrow> bucket_type \<Rightarrow> string \<Rightarrow> string option \<Rightarrow> (string \<times> string) list list \<Rightarrow> id set
    \<Rightarrow> linked_base_id_detail list" where
  "reference_details hex_decode ty id_attr header_attr [] seen = []"
| "reference_details hex_decode ty id_attr header_attr (attrs # rest) seen = (case map_of attrs id_attr of
     None \<Rightarrow> reference_details hex_decode ty id_attr header_attr rest seen
   | Some s \<Rightarrow> (case Id_from_hex_str hex_decode s of
       Inl e \<Rightarrow> reference_details hex_decode ty id_attr header_attr rest seen
     | Inr i \<Rightarrow>
         if i \<in> seen then reference_details hex_decode ty id_attr header_attr rest seen
         else \<lparr>ld_linked_base_id = i, ld_bucket_type = ty, ld_referenced_post_header_bytes =
                 Option.bind header_attr (\<lambda>a. Option.bind (map_of attrs a) hex_decode)\<rparr>
              # reference_details hex_decode ty id_attr header_attr rest (insert i seen)))"

definition build_locations :: "crypto \<Rightarrow> (string \<Rightarrow> string) \<Rightarrow> (string \<Rightarrow> bytes option) \<Rightarrow> (string \<Rightarrow> html_node list) \<Rightarrow> client_id \<Rightarrow> string
    \<Rightarrow> (linked_base_id_detail list \<times> string list) res" where
  "build_locations C lowercase hex_decode parse_fragment cid post =
     (let html = parse_fragment post in
      rbind (hashtag_details C lowercase (html_select html ''hashtag'') {}) (\<lambda>(hashtag_ds, referenced_hashtags).
        Inr (\<lparr>ld_linked_base_id = cid_id cid, ld_bucket_type = User, ld_referenced_post_header_bytes = None\<rparr>
          # hashtag_ds
          @ reference_details hex_decode Mention ''client_id'' None (html_select html ''mention'') {}
          @ reference_details hex_decode ReplyToPost ''post_id'' (Some ''post_header_hex'') (html_select html ''reply'') {}
          @ reference_details hex_decode Sequel ''post_id'' (Some ''post_header_hex'') (html_select html ''sequel'') {},
          referenced_hashtags)))"


section \<open>One bucket\<close>

record posting_world =
  po_client :: client_world
  po_claim_response_json :: "submit_post_claim_response codec"
  po_commit_response_json :: "submit_post_commit_token codec"
  po_feedback_response_json :: "submit_post_feedback_response codec"
  po_env :: post_env
  po_sign :: "bytes \<Rightarrow> signature res"
  po_parse_fragment :: "string \<Rightarrow> html_node list"
  po_hex_decode :: "string \<Rightarrow> bytes option"
  po_lowercase :: "string \<Rightarrow> string"

text \<open>What stays the same for all buckets of a post.\<close>

record post_job =
  job_sponsor_id :: id
  job_post :: encoded_post
  job_post_bytes :: encoded_post_bytes
  job_referenced_hashtags :: "string list"
  job_timestamp :: time_millis

text \<open>What the walk over the servers of a bucket collects; the pen and the channel outlive it.\<close>

record post_run =
  pr_claim_tokens :: "submit_post_claim_token list"
  pr_commit_tokens :: "submit_post_commit_token list"
  pr_pen :: recent_posts_pen
  pr_outcomes :: "(bucket_type \<times> submit_post_commit_token) list"

definition ask_claim :: "posting_world \<Rightarrow> post_job \<Rightarrow> bucket_location \<Rightarrow> bytes option \<Rightarrow> peer \<Rightarrow> submit_post_claim_response res" where
  "ask_claim P J loc referenced p =
     (let W = po_client P;
          request = submit_post_claim_new_to_bytes (cw_json W) loc referenced (job_referenced_hashtags J)
            (epb_bytes_without_body (job_post_bytes J))
      in rbind (get_minimum_post_pow (ph_post_length (ep_header (job_post J))) (length (ph_linked_base_ids (ep_header (job_post J))))
                 (bl_duration loc)) (\<lambda>requisite_pow.
         rbind (rpc_server_known_with_requisite_pow_and_no_compression (cw_services W p) (job_sponsor_id J) p SubmitPostClaimV1 request
                 requisite_pow) (\<lambda>rx.
         rbind (ensure (rr_response_request_kind rx = SubmitPostClaimResponseV1) ''response kind'') (\<lambda>_.
           of_option ''json'' (dec (po_claim_response_json P) (rr_bytes rx))))))"

definition ask_commit :: "posting_world \<Rightarrow> post_job \<Rightarrow> bucket_location \<Rightarrow> submit_post_claim_token \<Rightarrow> peer \<Rightarrow> submit_post_commit_token res" where
  "ask_commit P J loc token p =
     (let W = po_client P in
      rbind (rpc_server_known_with_no_compression (cw_services W p) (job_sponsor_id J) p SubmitPostCommitV1
              (submit_post_commit_new_to_bytes (cw_json W) loc token (epb_bytes (job_post_bytes J)))) (\<lambda>rx.
      rbind (ensure (rr_response_request_kind rx = SubmitPostCommitResponseV1) ''response kind'') (\<lambda>_.
        of_option ''json'' (dec (po_commit_response_json P) (rr_bytes rx)))))"

text \<open>The token a server answers with is taken as it is: its location and post id go into the pen.\<close>

definition record_in_pen :: "submit_post_commit_token \<Rightarrow> bytes \<Rightarrow> time_millis \<Rightarrow> recent_posts_pen \<Rightarrow> recent_posts_pen" where
  "record_in_pen token bs timestamp pen = pen_add_all [(spm_bucket_location token, spm_post_id token)] bs timestamp pen"

definition take_commit :: "post_job \<Rightarrow> bucket_type \<Rightarrow> submit_post_commit_token \<Rightarrow> post_run \<Rightarrow> post_run" where
  "take_commit J ty token r = r\<lparr>pr_pen := record_in_pen token (epb_bytes (job_post_bytes J)) (job_timestamp J) (pr_pen r),
     pr_outcomes := pr_outcomes r @ [(ty, token)], pr_commit_tokens := pr_commit_tokens r @ [token]\<rparr>"

definition visit_for_post :: "posting_world \<Rightarrow> post_job \<Rightarrow> bucket_location \<Rightarrow> bytes option \<Rightarrow> bucket_type \<Rightarrow> peer \<Rightarrow> nat
    \<Rightarrow> post_run \<times> peer_tracker \<Rightarrow> (post_run \<times> peer_tracker) \<times> bool res" where
  "visit_for_post P J loc referenced ty p lab st = (case st of (r, t) \<Rightarrow>
     (case ask_claim P J loc referenced p of
        Inl (Panic m) \<Rightarrow> (st, Inl (Panic m))
      | Inl (Bail m) \<Rightarrow> ((r, tracker_remove_peer p t), Inr False)
      | Inr response \<Rightarrow> (case tracker_add_peers (cw_crypto (po_client P)) (scr_peers_nearer response) t of
          Inl e \<Rightarrow> (st, Inl e)
        | Inr t1 \<Rightarrow> (case scr_submit_post_claim_token response of
            None \<Rightarrow> ((r, t1), Inr False)
          | Some claim \<Rightarrow>
              let r1 = r\<lparr>pr_claim_tokens := pr_claim_tokens r @ [claim]\<rparr> in
              (case ask_commit P J loc claim p of
                 Inl (Panic m) \<Rightarrow> ((r1, t1), Inl (Panic m))
               | Inl (Bail m) \<Rightarrow> ((r1, tracker_remove_peer p t1), Inr False)
               | Inr token \<Rightarrow>
                   let r2 = take_commit J ty token r1 in
                   ((r2, t1), Inr (REDUNDANT_SERVERS_PER_POST \<le> length (pr_commit_tokens r2))))))))"

text \<open>The state that the posting of one bucket changes: the tracker, the pen and what went over the channel.\<close>

record posting_state =
  ps_tracker :: peer_tracker
  ps_pen :: recent_posts_pen
  ps_outcomes :: "(bucket_type \<times> submit_post_commit_token) list"

definition post_to_location :: "posting_world \<Rightarrow> post_job \<Rightarrow> bucket_location \<Rightarrow> bytes option \<Rightarrow> bucket_type \<Rightarrow> posting_state
    \<Rightarrow> (posting_state \<times> submit_post_commit_token list res) option" where
  "post_to_location P J loc referenced ty s =
     (let W = po_client P in
      case iterate_to_location (cw_crypto W) (cw_bootstrap W) (bl_location_id loc) (2 * REDUNDANT_SERVERS_PER_POST) None (ps_tracker s) of
        Inl e \<Rightarrow> Some (s, Inl e)
      | Inr (t, it) \<Rightarrow> map_option (\<lambda>((r, t1), out).
          (\<lparr>ps_tracker = t1, ps_pen = pr_pen r, ps_outcomes = pr_outcomes r\<rparr>,
           rbind out (\<lambda>_.
             if pr_claim_tokens r = [] then Inl (Bail ''unable to claim anywhere'')
             else if pr_commit_tokens r = [] then Inl (Bail ''unable to commit anywhere'')
             else Inr (pr_commit_tokens r))))
          (walk_loop (visit_for_post P J loc referenced ty)
             \<lparr>pr_claim_tokens = [], pr_commit_tokens = [], pr_pen = ps_pen s, pr_outcomes = ps_outcomes s\<rparr> it t))"


section \<open>All buckets\<close>

record 's posting_client =
  pc_manager :: "'s live_manager"
  pc_pen :: recent_posts_pen
  pc_outcomes :: "(bucket_type \<times> submit_post_commit_token) list"

text \<open>From the widest duration to the narrowest, until a bucket that is neither overflowed nor sealed accepts the post. The manager
  and the posting share one tracker. An error of the bundle manager ends the search, a refused post does not.\<close>

fun post_to_widest :: "'s client_storage \<Rightarrow> posting_world \<Rightarrow> post_job \<Rightarrow> linked_base_id_detail \<Rightarrow> duration_millis list
    \<Rightarrow> 's posting_client \<Rightarrow> ('s posting_client \<times> nat res) option" where
  "post_to_widest S P J d [] s = Some (s, Inr 0)"
| "post_to_widest S P J d (duration # rest) s =
     (case generate_bucket_location (cw_crypto (po_client P)) (ld_bucket_type d) (ld_linked_base_id d) duration (job_timestamp J) of
        Inl e \<Rightarrow> Some (s, Inl e)
      | Inr loc \<Rightarrow> (case live_get_post_bundle S (po_client P) loc (job_timestamp J) (pc_manager s) of
          None \<Rightarrow> None
        | Some (m, Inl e) \<Rightarrow> Some (s\<lparr>pc_manager := m\<rparr>, Inl e)
        | Some (m, Inr (b, background)) \<Rightarrow>
            if \<not> pbh_overflowed (pb_header b) \<and> \<not> pbh_sealed (pb_header b) then
              (case post_to_location P J loc (ld_referenced_post_header_bytes d) (ld_bucket_type d)
                  \<lparr>ps_tracker = lm_tracker m, ps_pen = pc_pen s, ps_outcomes = pc_outcomes s\<rparr> of
                 None \<Rightarrow> None
               | Some (ps, r) \<Rightarrow>
                   let s' = \<lparr>pc_manager = m\<lparr>lm_tracker := ps_tracker ps\<rparr>, pc_pen = ps_pen ps, pc_outcomes = ps_outcomes ps\<rparr> in
                   (case r of
                      Inr tokens \<Rightarrow> Some (s', Inr (length tokens))
                    | Inl (Panic e) \<Rightarrow> Some (s', Inl (Panic e))
                    | Inl (Bail e) \<Rightarrow> post_to_widest S P J d rest s'))
            else post_to_widest S P J d rest (s\<lparr>pc_manager := m\<rparr>)))"

fun post_to_locations :: "'s client_storage \<Rightarrow> posting_world \<Rightarrow> post_job \<Rightarrow> linked_base_id_detail list \<Rightarrow> 's posting_client
    \<Rightarrow> ('s posting_client \<times> unit res) option" where
  "post_to_locations S P J [] s = Some (s, Inr ())"
| "post_to_locations S P J (d # ds) s = (case post_to_widest S P J d (bucket_durations_for_type (ld_bucket_type d)) s of
     None \<Rightarrow> None
   | Some (s', Inl (Panic e)) \<Rightarrow> Some (s', Inl (Panic e))
   | Some (s', r) \<Rightarrow>
       let committed_count = (case r of Inr n \<Rightarrow> n | Inl e \<Rightarrow> 0) in
       if ld_bucket_type d = User \<and> committed_count = 0 then Some (s', Inr ()) else post_to_locations S P J ds s')"

text \<open>The other end of the channel.\<close>

fun collect_outcomes :: "bool \<Rightarrow> (bucket_type \<times> submit_post_commit_token) list \<Rightarrow> submit_post_commit_token list \<Rightarrow> bool
    \<Rightarrow> submit_post_commit_token list res" where
  "collect_outcomes wait_for_all [] tokens user_committed =
     (if user_committed then Inr tokens else Inl (Bail ''Failed to post to any User buckets, so bailing,''))"
| "collect_outcomes wait_for_all ((ty, token) # rest) tokens user_committed =
     (let user_committed' = user_committed \<or> ty = User; tokens' = tokens @ [token] in
      if \<not> wait_for_all \<and> user_committed' then Inr tokens' else collect_outcomes wait_for_all rest tokens' user_committed')"

text \<open>The whole call, once the background task has ended: the client it leaves behind, and what the caller was told.\<close>

definition submit_post :: "'s client_storage \<Rightarrow> posting_world \<Rightarrow> client_id \<Rightarrow> enc_random \<Rightarrow> enc_random \<Rightarrow> string \<Rightarrow> bool
    \<Rightarrow> 's live_manager \<times> recent_posts_pen
    \<Rightarrow> ('s posting_client \<times> (submit_post_commit_token list \<times> encoded_post \<times> bytes) res) option" where
  "submit_post S P cid r1 r2 post wait_for_all state = (case state of (m, pen) \<Rightarrow>
     let s = \<lparr>pc_manager = m, pc_pen = pen, pc_outcomes = []\<rparr>; timestamp = cw_now (po_client P) in
     if post = [] then Some (s, Inl (Bail ''Post cannot be empty''))
     else (case build_locations (cw_crypto (po_client P)) (po_lowercase P) (po_hex_decode P) (po_parse_fragment P) cid post of
         Inl e \<Rightarrow> Some (s, Inl e)
       | Inr (details, referenced_hashtags) \<Rightarrow>
           (case encode_to_bytes_direct (po_env P) (po_sign P) r1 r2 (EncodedPost_new cid timestamp (map ld_linked_base_id details) post) of
              Inl e \<Rightarrow> Some (s, Inl e)
            | Inr (p, bs) \<Rightarrow> map_option (\<lambda>(s', background).
                (s', rbind (collect_outcomes wait_for_all (pc_outcomes s') [] False) (\<lambda>tokens. Inr (tokens, p, epb_bytes bs))))
                (post_to_locations S P \<lparr>job_sponsor_id = cid_id cid, job_post = p, job_post_bytes = bs,
                   job_referenced_hashtags = referenced_hashtags, job_timestamp = timestamp\<rparr> details s))))"


section \<open>Votes\<close>

definition ask_feedback :: "posting_world \<Rightarrow> id \<Rightarrow> bucket_location \<Rightarrow> feedback \<Rightarrow> peer \<Rightarrow> submit_post_feedback_response res" where
  "ask_feedback P sponsor_id loc fb p =
     (let W = po_client P in
      rbind (submit_post_feedback_new_to_bytes (cw_json W) loc fb) (\<lambda>request.
      rbind (rpc_server_known_with_requisite_pow (cw_services W p) sponsor_id p SubmitPostFeedbackV1 request POW_MINIMUM_PER_FEEDBACK) (\<lambda>rx.
      rbind (ensure (rr_response_request_kind rx = SubmitPostFeedbackResponseV1) ''response kind'') (\<lambda>_.
        of_option ''json'' (dec (po_feedback_response_json P) (rr_bytes rx))))))"

definition visit_for_vote :: "posting_world \<Rightarrow> id \<Rightarrow> bucket_location \<Rightarrow> feedback \<Rightarrow> peer \<Rightarrow> nat \<Rightarrow> peer list \<times> peer_tracker
    \<Rightarrow> (peer list \<times> peer_tracker) \<times> bool res" where
  "visit_for_vote P sponsor_id loc fb p lab st = (case st of (accepts, t) \<Rightarrow>
     (case ask_feedback P sponsor_id loc fb p of
        Inl (Panic m) \<Rightarrow> (st, Inl (Panic m))
      | Inl (Bail m) \<Rightarrow> ((accepts, tracker_remove_peer p t), Inr False)
      | Inr response \<Rightarrow> (case tracker_add_peers (cw_crypto (po_client P)) (spfr_peers_nearer response) t of
          Inl e \<Rightarrow> (st, Inl e)
        | Inr t1 \<Rightarrow>
            if spfr_accepted response
            then ((accepts @ [p], t1), Inr (REDUNDANT_SERVERS_PER_POST \<le> length (accepts @ [p])))
            else ((accepts, t1), Inr False))))"

definition post_feedback_to_location :: "posting_world \<Rightarrow> id \<Rightarrow> bucket_location \<Rightarrow> feedback \<Rightarrow> peer_tracker
    \<Rightarrow> (peer_tracker \<times> unit res) option" where
  "post_feedback_to_location P sponsor_id loc fb t0 =
     (let W = po_client P in
      case iterate_to_location (cw_crypto W) (cw_bootstrap W) (bl_location_id loc) (2 * REDUNDANT_SERVERS_PER_POST) None t0 of
        Inl e \<Rightarrow> Some (t0, Inl e)
      | Inr (t, it) \<Rightarrow> map_option (\<lambda>((accepts, t1), out).
          (t1, rbind out (\<lambda>_. ensure (accepts \<noteq> []) ''unable to commit anywhere'')))
          (walk_loop (visit_for_vote P sponsor_id loc fb) [] it t))"


section \<open>What a walk leaves behind\<close>

definition pen_of :: "post_job \<Rightarrow> submit_post_commit_token \<Rightarrow> pen_entry" where
  "pen_of J token = \<lparr>pen_bucket_location = spm_bucket_location token, pen_post_id = spm_post_id token,
     pen_encoded_post_bytes = epb_bytes (job_post_bytes J), pen_time_millis = job_timestamp J\<rparr>"

text \<open>A token is a receipt if it is what a server's answer to a commit of these bytes decodes to.\<close>

definition receipt :: "posting_world \<Rightarrow> id \<Rightarrow> bytes \<Rightarrow> submit_post_commit_token \<Rightarrow> bool" where
  "receipt P sponsor_id bs token \<longleftrightarrow> (\<exists>p loc claim rx. rpc_server_known_with_no_compression (cw_services (po_client P) p) sponsor_id p
      SubmitPostCommitV1 (submit_post_commit_new_to_bytes (cw_json (po_client P)) loc claim bs) = Inr rx
    \<and> rr_response_request_kind rx = SubmitPostCommitResponseV1 \<and> dec (po_commit_response_json P) (rr_bytes rx) = Some token)"

lemma ask_commit_receipt:
  "ask_commit P J loc claim p = Inr token \<Longrightarrow> receipt P (job_sponsor_id J) (epb_bytes (job_post_bytes J)) token"
  unfolding receipt_def by (auto simp: ask_commit_def Let_def of_option_def split: option.splits) blast

text \<open>Every commit is a server's receipt, has gone into the pen and over the channel, in order, and followed a claim.\<close>

definition run_ok :: "posting_world \<Rightarrow> post_job \<Rightarrow> bucket_type \<Rightarrow> posting_state \<Rightarrow> post_run \<Rightarrow> bool" where
  "run_ok P J ty s r \<longleftrightarrow> pr_outcomes r = ps_outcomes s @ map (Pair ty) (pr_commit_tokens r)
     \<and> pr_pen r = ps_pen s @ map (pen_of J) (pr_commit_tokens r)
     \<and> (pr_claim_tokens r = [] \<longrightarrow> pr_commit_tokens r = [])
     \<and> (\<forall>t \<in> set (pr_commit_tokens r). receipt P (job_sponsor_id J) (epb_bytes (job_post_bytes J)) t)"

lemma take_commit_ok:
  "run_ok P J ty s r \<Longrightarrow> pr_claim_tokens r \<noteq> [] \<Longrightarrow> ask_commit P J loc claim p = Inr token
    \<Longrightarrow> run_ok P J ty s (take_commit J ty token r)"
  using ask_commit_receipt
  by (simp add: run_ok_def take_commit_def record_in_pen_def pen_add_all_def pen_of_def)

lemma take_commit_count: "pr_commit_tokens (take_commit J ty token r) = pr_commit_tokens r @ [token]"
  by (simp add: take_commit_def)

definition attempt_ok :: "posting_world \<Rightarrow> post_job \<Rightarrow> bucket_type \<Rightarrow> posting_state \<Rightarrow> nat \<Rightarrow> post_run \<times> peer_tracker \<Rightarrow> bool" where
  "attempt_ok P J ty s n st \<longleftrightarrow> (case st of (r, t) \<Rightarrow> run_ok P J ty s r \<and> tracker_ok (cw_crypto (po_client P)) t \<and> length (pr_commit_tokens r) \<le> n)"

lemma visit_for_post_tracker:
  assumes "visit_for_post P J loc referenced ty p lab (r, t) = ((r', t'), out)" "tracker_ok (cw_crypto (po_client P)) t"
  shows "tracker_ok (cw_crypto (po_client P)) t'"
proof -
  let ?C = "cw_crypto (po_client P)"
  have kept: "tracker_ok ?C u \<Longrightarrow> tracker_ok ?C (tracker_remove_peer p u)" for u
    by (rule tracker_remove_peer_refines(1))
  have added: "tracker_ok ?C u" if "tracker_add_peers ?C ps t = Inr u" for ps u
    using tracker_add_peers_refines[OF assms(2) that] by blast
  show ?thesis
    using assms kept added
    by (auto simp: visit_for_post_def Let_def split: sum.splits err.splits option.splits)
qed

lemma tracker_add_peers_panics: "tracker_add_peers C ps t = Inl e \<Longrightarrow> \<exists>m. e = Panic m"
  by (induction ps arbitrary: t) (auto split: prod.splits sum.splits err.splits)

definition only_panics :: "'a res \<Rightarrow> bool" where
  "only_panics out \<longleftrightarrow> (\<forall>m. out \<noteq> Inl (Bail m))"

lemma only_panics_simps [simp]: "only_panics (Inr x)" "only_panics (Inl (Panic m))" "\<not> only_panics (Inl (Bail m))"
  by (simp_all add: only_panics_def)

lemma added_or_panic: "only_panics (tracker_add_peers C ps t)"
  using tracker_add_peers_panics by (fastforce simp: only_panics_def)

lemma post_visits:
  "visit_rule (attempt_ok P J ty s 2)
     (\<lambda>st out. attempt_ok P J ty s 3 st \<and> only_panics out)
     (visit_for_post P J loc referenced ty)"
  unfolding visit_rule_def
proof (intro conjI allI impI)
  fix st :: "post_run \<times> peer_tracker"
  assume "attempt_ok P J ty s 2 st"
  then show "attempt_ok P J ty s 3 st" by (auto simp: attempt_ok_def)
next
  fix p lab st st' out
  let ?C = "cw_crypto (po_client P)"
  assume a: "attempt_ok P J ty s 2 st" and v: "visit_for_post P J loc referenced ty p lab st = (st', out)"
  obtain r t r' t' where st: "st = (r, t)" "st' = (r', t')" by fastforce
  have K: "run_ok P J ty s r" "tracker_ok ?C t" "length (pr_commit_tokens r) \<le> 2" using a by (simp_all add: attempt_ok_def st)
  have t': "tracker_ok ?C t'" using visit_for_post_tracker[OF v[unfolded st] K(2)] .
  have claimed: "run_ok P J ty s (r\<lparr>pr_claim_tokens := pr_claim_tokens r @ [c]\<rparr>)" for c using K(1) by (simp add: run_ok_def)
  have add: "tracker_add_peers ?C ps t \<noteq> Inl (Bail m)" for ps m using added_or_panic[of ?C ps t] by auto
  have run: "run_ok P J ty s r' \<and> length (pr_commit_tokens r') \<le> 3 \<and> only_panics out
      \<and> (out = Inr False \<longrightarrow> length (pr_commit_tokens r') \<le> 2)"
    using v K(1,3) claimed add
    by (auto simp: st visit_for_post_def Let_def take_commit_ok take_commit_count REDUNDANT_SERVERS_PER_POST_def only_panics_def
        split: sum.splits err.splits option.splits)
  show "case out of Inl e \<Rightarrow> attempt_ok P J ty s 3 st' \<and> only_panics (Inl e)
      | Inr stop \<Rightarrow> if stop then attempt_ok P J ty s 3 st' \<and> only_panics (Inr ()) else attempt_ok P J ty s 2 st'"
    using run t' by (auto simp: attempt_ok_def st only_panics_def split: sum.splits)
qed simp

text \<open>One bucket: the commits it reports are receipts, those that went into the pen and over the channel, three at most; if it fails without a
  panic there was none.\<close>

definition delivered :: "posting_world \<Rightarrow> post_job \<Rightarrow> bucket_type \<Rightarrow> recent_posts_pen \<Rightarrow> (bucket_type \<times> submit_post_commit_token) list
    \<Rightarrow> recent_posts_pen \<Rightarrow> (bucket_type \<times> submit_post_commit_token) list \<Rightarrow> submit_post_commit_token list \<Rightarrow> bool" where
  "delivered P J ty pen outcomes pen' outcomes' tokens \<longleftrightarrow> length tokens \<le> 3
     \<and> outcomes' = outcomes @ map (Pair ty) tokens \<and> pen' = pen @ map (pen_of J) tokens
     \<and> (\<forall>t \<in> set tokens. receipt P (job_sponsor_id J) (epb_bytes (job_post_bytes J)) t)"

lemma post_to_location_leaves:
  assumes "tracker_ok (cw_crypto (po_client P)) (ps_tracker s)" "post_to_location P J loc referenced ty s = Some (s', out)"
  shows "\<exists>tokens. delivered P J ty (ps_pen s) (ps_outcomes s) (ps_pen s') (ps_outcomes s') tokens
    \<and> tracker_ok (cw_crypto (po_client P)) (ps_tracker s')
    \<and> (\<forall>ts. out = Inr ts \<longrightarrow> ts = tokens \<and> tokens \<noteq> []) \<and> (\<forall>m. out = Inl (Bail m) \<longrightarrow> tokens = [])"
proof -
  let ?C = "cw_crypto (po_client P)"
  let ?start = "\<lparr>pr_claim_tokens = [], pr_commit_tokens = [], pr_pen = ps_pen s, pr_outcomes = ps_outcomes s\<rparr>"
  show ?thesis
  proof (cases "iterate_to_location ?C (cw_bootstrap (po_client P)) (bl_location_id loc) (2 * REDUNDANT_SERVERS_PER_POST) None (ps_tracker s)")
    case (Inl e)
    then have "s' = s" "out = Inl e" using assms(2) by (simp_all add: post_to_location_def Let_def)
    then show ?thesis using assms(1) by (auto simp: delivered_def)
  next
    case (Inr tit)
    obtain t it where tit: "tit = (t, it)" by (cases tit)
    note i = iterate_to_location_ok[OF assms(1) Inr[unfolded tit]]
    obtain r t1 o1 where w: "walk_loop (visit_for_post P J loc referenced ty) ?start it t = Some ((r, t1), o1)"
      "s' = \<lparr>ps_tracker = t1, ps_pen = pr_pen r, ps_outcomes = pr_outcomes r\<rparr>"
      "out = rbind o1 (\<lambda>_. if pr_claim_tokens r = [] then Inl (Bail ''unable to claim anywhere'')
             else if pr_commit_tokens r = [] then Inl (Bail ''unable to commit anywhere'') else Inr (pr_commit_tokens r))"
      using assms(2) Inr tit by (auto simp: post_to_location_def Let_def)
    have "attempt_ok P J ty s 2 (?start, t)" using i(1) by (simp add: attempt_ok_def run_ok_def)
    from walk_loop_leaves[OF w(1) post_visits this]
    have a: "run_ok P J ty s r" "tracker_ok ?C t1" "length (pr_commit_tokens r) \<le> 3" "only_panics o1"
      by (simp_all add: attempt_ok_def)
    show ?thesis
      using a w(2,3) by (intro exI[of _ "pr_commit_tokens r"]) (cases o1; auto simp: run_ok_def delivered_def only_panics_def split: if_splits)
  qed
qed

lemma post_to_location_returns:
  assumes "tracker_ok (cw_crypto (po_client P)) (ps_tracker s)" "wf_id (bl_location_id loc)"
  shows "\<exists>s' out. post_to_location P J loc referenced ty s = Some (s', out)"
proof -
  let ?C = "cw_crypto (po_client P)"
  show ?thesis
  proof (cases "iterate_to_location ?C (cw_bootstrap (po_client P)) (bl_location_id loc) (2 * REDUNDANT_SERVERS_PER_POST) None (ps_tracker s)")
    case (Inl e)
    then show ?thesis by (simp add: post_to_location_def Let_def)
  next
    case (Inr tit)
    obtain t it where tit: "tit = (t, it)" by (cases tit)
    note i = iterate_to_location_ok[OF assms(1) Inr[unfolded tit]]
    have "\<exists>r' t' out. walk_loop (visit_for_post P J loc referenced ty) r it t = Some ((r', t'), out) \<and> tracker_ok ?C t'" for r
      by (rule walk_loop_returns[OF assms(2), where J = "tracker_ok ?C"]) (erule visit_for_post_tracker[rotated], simp_all add: i)
    then show ?thesis using Inr tit by (fastforce simp: post_to_location_def Let_def)
  qed
qed


section \<open>What a submission leaves behind\<close>

lemma delivered_trans:
  "delivered P J ty pen os pen1 os1 [] \<Longrightarrow> delivered P J ty pen1 os1 pen2 os2 ts \<Longrightarrow> delivered P J ty pen os pen2 os2 ts"
  by (simp add: delivered_def)

definition all_delivered :: "posting_world \<Rightarrow> post_job \<Rightarrow> linked_base_id_detail list \<Rightarrow> 'a posting_client \<Rightarrow> 'a posting_client
    \<Rightarrow> (bucket_type \<times> submit_post_commit_token) list \<Rightarrow> bool" where
  "all_delivered P J ds s s' new \<longleftrightarrow> pc_outcomes s' = pc_outcomes s @ new \<and> pc_pen s' = pc_pen s @ map (pen_of J \<circ> snd) new
     \<and> length new \<le> 3 * length ds \<and> fst ` set new \<subseteq> ld_bucket_type ` set ds
     \<and> (\<forall>t \<in> snd ` set new. receipt P (job_sponsor_id J) (epb_bytes (job_post_bytes J)) t)"

context client_storage_laws
begin

lemma post_to_widest_leaves:
  assumes "live_ok (po_client P) peek ready (pc_manager s)" "post_to_widest S P J d durations s = Some (s', out)"
  shows "\<exists>tokens. delivered P J (ld_bucket_type d) (pc_pen s) (pc_outcomes s) (pc_pen s') (pc_outcomes s') tokens
    \<and> live_ok (po_client P) peek ready (pc_manager s')
    \<and> (\<forall>n. out = Inr n \<longrightarrow> n = length tokens) \<and> (\<forall>m. out = Inl (Bail m) \<longrightarrow> tokens = [])"
  using assms
proof (induction durations arbitrary: s)
  case Nil
  then show ?case by (auto simp: delivered_def)
next
  case (Cons duration durations)
  show ?case
  proof (cases "generate_bucket_location (cw_crypto (po_client P)) (ld_bucket_type d) (ld_linked_base_id d) duration (job_timestamp J)")
    case (Inl e)
    then show ?thesis using Cons.prems by (auto simp: delivered_def)
  next
    case loc: (Inr loc)
    obtain m r where get: "live_get_post_bundle S (po_client P) loc (job_timestamp J) (pc_manager s) = Some (m, r)"
      using Cons.prems(2) loc by (auto split: option.splits)
    have m: "live_ok (po_client P) peek ready m" using live_keeps[OF Cons.prems(1) get] by blast
    show ?thesis
    proof (cases r)
      case (Inl e)
      then show ?thesis using Cons.prems(2) loc get m by (auto simp: delivered_def)
    next
      case (Inr bb)
      obtain b bg where bb: "bb = (b, bg)" by (cases bb)
      show ?thesis
      proof (cases "\<not> pbh_overflowed (pb_header b) \<and> \<not> pbh_sealed (pb_header b)")
        case False
        then have "post_to_widest S P J d durations (s\<lparr>pc_manager := m\<rparr>) = Some (s', out)"
          using Cons.prems(2) loc get Inr bb by auto
        from Cons.IH[OF _ this] show ?thesis using m by simp
      next
        case True
        let ?ps = "\<lparr>ps_tracker = lm_tracker m, ps_pen = pc_pen s, ps_outcomes = pc_outcomes s\<rparr>"
        obtain ps q where post: "post_to_location P J loc (ld_referenced_post_header_bytes d) (ld_bucket_type d) ?ps = Some (ps, q)"
          using Cons.prems(2) loc get Inr bb True by (auto split: option.splits)
        let ?s = "\<lparr>pc_manager = m\<lparr>lm_tracker := ps_tracker ps\<rparr>, pc_pen = ps_pen ps, pc_outcomes = ps_outcomes ps\<rparr>"
        have t: "tracker_ok (cw_crypto (po_client P)) (ps_tracker ?ps)" using m by (simp add: live_ok_def)
        from post_to_location_leaves[OF t post] obtain tokens where
          k: "delivered P J (ld_bucket_type d) (pc_pen s) (pc_outcomes s) (ps_pen ps) (ps_outcomes ps) tokens"
            "tracker_ok (cw_crypto (po_client P)) (ps_tracker ps)" "\<forall>ts. q = Inr ts \<longrightarrow> ts = tokens" "\<forall>m. q = Inl (Bail m) \<longrightarrow> tokens = []"
          by auto
        have ok: "live_ok (po_client P) peek ready (pc_manager ?s)" using m k(2) by (simp add: live_ok_def)
        have run: "(case q of Inr tokens \<Rightarrow> Some (?s, Inr (length tokens)) | Inl (Panic e) \<Rightarrow> Some (?s, Inl (Panic e))
            | Inl (Bail e) \<Rightarrow> post_to_widest S P J d durations ?s) = Some (s', out)"
          using Cons.prems(2) loc get Inr bb True post by (simp add: Let_def)
        consider ts where "q = Inr ts" | e where "q = Inl (Panic e)" | e where "q = Inl (Bail e)"
          by (metis err.exhaust sum.exhaust)
        then show ?thesis
        proof cases
          case (3 e)
          then have "post_to_widest S P J d durations ?s = Some (s', out)" using run by simp
          from Cons.IH[OF ok this] k(1,4) 3 show ?thesis by (auto intro: delivered_trans)
        qed (use run k ok in auto)
      qed
    qed
  qed
qed

lemma post_to_locations_leaves:
  assumes "live_ok (po_client P) peek ready (pc_manager s)" "post_to_locations S P J ds s = Some (s', out)"
  shows "live_ok (po_client P) peek ready (pc_manager s') \<and> (\<exists>new. all_delivered P J ds s s' new)"
  using assms
proof (induction ds arbitrary: s)
  case Nil
  then show ?case by (auto simp: all_delivered_def)
next
  case (Cons d ds)
  obtain s1 r where w: "post_to_widest S P J d (bucket_durations_for_type (ld_bucket_type d)) s = Some (s1, r)"
    using Cons.prems(2) by (auto split: option.splits)
  from post_to_widest_leaves[OF Cons.prems(1) w] obtain tokens where
    k: "delivered P J (ld_bucket_type d) (pc_pen s) (pc_outcomes s) (pc_pen s1) (pc_outcomes s1) tokens"
      "live_ok (po_client P) peek ready (pc_manager s1)" by blast
  have here: "all_delivered P J (d # ds) s s1 (map (Pair (ld_bucket_type d)) tokens)"
    using k(1) by (auto simp: delivered_def all_delivered_def)
  show ?case
  proof (cases "s' = s1")
    case True
    then show ?thesis using here k(2) by blast
  next
    case False
    then have "post_to_locations S P J ds s1 = Some (s', out)"
      using Cons.prems(2) w by (auto simp: Let_def split: sum.splits err.splits if_splits)
    from Cons.IH[OF k(2) this] obtain new where
      n: "live_ok (po_client P) peek ready (pc_manager s')" "all_delivered P J ds s1 s' new" by blast
    have "all_delivered P J (d # ds) s s' (map (Pair (ld_bucket_type d)) tokens @ new)"
      using k(1) n(2) by (auto simp: delivered_def all_delivered_def)
    then show ?thesis using n(1) by blast
  qed
qed

lemma user_bucket_first:
  assumes "live_ok (po_client P) peek ready (pc_manager s)" "post_to_locations S P J (d # ds) s = Some (s', out)"
    and "ld_bucket_type d = User"
  shows "live_ok (po_client P) peek ready (pc_manager s') \<and> (\<exists>tokens rest. length tokens \<le> 3 \<and> (tokens = [] \<longrightarrow> rest = [])
    \<and> pc_outcomes s' = pc_outcomes s @ map (Pair User) tokens @ rest
    \<and> pc_pen s' = pc_pen s @ map (pen_of J \<circ> snd) (map (Pair User) tokens @ rest)
    \<and> length rest \<le> 3 * length ds \<and> fst ` set rest \<subseteq> ld_bucket_type ` set ds
    \<and> (\<forall>t \<in> set tokens \<union> snd ` set rest. receipt P (job_sponsor_id J) (epb_bytes (job_post_bytes J)) t))"
proof -
  obtain s1 r where w: "post_to_widest S P J d (bucket_durations_for_type (ld_bucket_type d)) s = Some (s1, r)"
    using assms(2) by (auto split: option.splits)
  from post_to_widest_leaves[OF assms(1) w] obtain tokens where
    k: "delivered P J (ld_bucket_type d) (pc_pen s) (pc_outcomes s) (pc_pen s1) (pc_outcomes s1) tokens"
      "live_ok (po_client P) peek ready (pc_manager s1)" "\<forall>n. r = Inr n \<longrightarrow> n = length tokens" "\<forall>m. r = Inl (Bail m) \<longrightarrow> tokens = []"
    by blast
  note del = k(1)[unfolded assms(3) delivered_def]
  show ?thesis
  proof (cases "s' = s1")
    case True
    then show ?thesis using del k(2) by (intro conjI exI[of _ tokens] exI[of _ "[]"]) (simp_all add: comp_def)
  next
    case False
    then have go: "post_to_locations S P J ds s1 = Some (s', out)" and "tokens \<noteq> []"
      using assms(2,3) w k(3,4) by (auto simp: Let_def split: sum.splits err.splits if_splits)
    from post_to_locations_leaves[OF k(2) go] obtain new where
      n: "live_ok (po_client P) peek ready (pc_manager s')" "all_delivered P J ds s1 s' new" by blast
    show ?thesis
      using del n \<open>tokens \<noteq> []\<close> by (intro conjI exI[of _ tokens] exI[of _ new]) (auto simp: all_delivered_def comp_def)
  qed
qed

end

lemma collect_all:
  "collect_outcomes True os ts u = (if u \<or> User \<in> fst ` set os then Inr (ts @ map snd os)
     else Inl (Bail ''Failed to post to any User buckets, so bailing,''))"
  by (induction os arbitrary: ts u) (auto simp: Let_def)

text \<open>What the caller is told: an error if the first bucket has no commit, and otherwise all tokens, or the first if it does not
  wait.\<close>

lemma collect_user_first:
  assumes "tokens = [] \<longrightarrow> rest = []"
  shows "collect_outcomes w (map (Pair User) tokens @ rest) [] False =
    (if tokens = [] then Inl (Bail ''Failed to post to any User buckets, so bailing,'')
     else Inr (if w then tokens @ map snd rest else [hd tokens]))"
  using assms by (cases tokens; cases w) (auto simp: collect_all Let_def comp_def)

lemma reference_types: "d \<in> set (reference_details hex_decode ty a h es seen) \<Longrightarrow> ld_bucket_type d = ty"
  by (induction es arbitrary: seen) (auto split: option.splits sum.splits if_splits)

lemma hashtag_types: "hashtag_details C lower es seen = Inr (ds, tags) \<Longrightarrow> d \<in> set ds \<Longrightarrow> ld_bucket_type d = Hashtag"
  by (induction es arbitrary: seen ds tags) (auto split: option.splits if_splits)

lemma build_locations_user_first:
  assumes "build_locations C lower hex_decode parse cid post = Inr (ds, tags)"
  shows "\<exists>rest. ds = \<lparr>ld_linked_base_id = cid_id cid, ld_bucket_type = User, ld_referenced_post_header_bytes = None\<rparr> # rest
    \<and> User \<notin> ld_bucket_type ` set rest"
  using assms reference_types hashtag_types by (fastforce simp: build_locations_def Let_def)

text \<open>Two spellings of one hashtag are two entries with one id.\<close>

lemma hashtag_spelled_twice:
  assumes "lower a = lower b" "a \<noteq> b" "Id_from_hashtag_str C lower a = Inr i"
  shows "\<exists>d. hashtag_details C lower [[(''hashtag'', a)], [(''hashtag'', b)]] {} = Inr ([d, d], [a, b]) \<and> ld_linked_base_id d = i"
proof -
  have "Id_from_hashtag_str C lower b = Inr i" using assms(1,3) by (simp add: Id_from_hashtag_str_def)
  then show ?thesis using assms(2,3) by simp
qed


section \<open>Votes are offered until enough servers accept\<close>

definition vote_ok :: "crypto \<Rightarrow> nat \<Rightarrow> peer list \<times> peer_tracker \<Rightarrow> bool" where
  "vote_ok C n st \<longleftrightarrow> length (fst st) \<le> n \<and> tracker_ok C (snd st)"

lemma vote_visits:
  "visit_rule (vote_ok (cw_crypto (po_client P)) 2) (\<lambda>st out. vote_ok (cw_crypto (po_client P)) 3 st \<and> only_panics out)
     (visit_for_vote P sponsor_id loc fb)"
  unfolding visit_rule_def
proof (intro conjI allI impI)
  fix st :: "peer list \<times> peer_tracker"
  assume "vote_ok (cw_crypto (po_client P)) 2 st"
  then show "vote_ok (cw_crypto (po_client P)) 3 st" by (simp add: vote_ok_def)
next
  fix p lab st st' out
  let ?C = "cw_crypto (po_client P)"
  assume a: "vote_ok ?C 2 st" and v: "visit_for_vote P sponsor_id loc fb p lab st = (st', out)"
  obtain as t where st: "st = (as, t)" by fastforce
  have t: "tracker_ok ?C t" "length as \<le> 2" using a by (simp_all add: vote_ok_def st)
  have kept: "tracker_ok ?C (tracker_remove_peer p t)" by (rule tracker_remove_peer_refines(1)[OF t(1)])
  have added: "tracker_ok ?C u" if "tracker_add_peers ?C ps t = Inr u" for ps u
    using tracker_add_peers_refines[OF t(1) that] by blast
  have add: "tracker_add_peers ?C ps t \<noteq> Inl (Bail m)" for ps m using added_or_panic[of ?C ps t] by auto
  show "case out of Inl e \<Rightarrow> vote_ok ?C 3 st' \<and> only_panics (Inl e)
      | Inr stop \<Rightarrow> if stop then vote_ok ?C 3 st' \<and> only_panics (Inr ()) else vote_ok ?C 2 st'"
    using v t kept added add
    by (auto simp: st visit_for_vote_def vote_ok_def only_panics_def REDUNDANT_SERVERS_PER_POST_def
        split: sum.splits err.splits if_splits)
qed simp

lemma vote_to_location_ends:
  assumes "tracker_ok (cw_crypto (po_client P)) t" "wf_id (bl_location_id loc)"
  shows "\<exists>t' out. post_feedback_to_location P sponsor_id loc fb t = Some (t', out) \<and> tracker_ok (cw_crypto (po_client P)) t'"
proof -
  let ?C = "cw_crypto (po_client P)"
  show ?thesis
  proof (cases "iterate_to_location ?C (cw_bootstrap (po_client P)) (bl_location_id loc) (2 * REDUNDANT_SERVERS_PER_POST) None t")
    case (Inl e)
    then show ?thesis using assms(1) by (simp add: post_feedback_to_location_def Let_def)
  next
    case (Inr tit)
    obtain t1 it where tit: "tit = (t1, it)" by (cases tit)
    note i = iterate_to_location_ok[OF assms(1) Inr[unfolded tit]]
    have "tracker_ok ?C t'" if "tracker_ok ?C u" "visit_for_vote P sponsor_id loc fb p lab (as, u) = ((as', t'), out)" for p lab as u as' t' out
      using that tracker_remove_peer_refines(1)[OF that(1)] tracker_add_peers_refines[OF that(1)]
      by (auto simp: visit_for_vote_def split: sum.splits err.splits if_splits)
    then have "\<exists>f' t' r. walk_loop (visit_for_vote P sponsor_id loc fb) [] it t1 = Some ((f', t'), r) \<and> tracker_ok ?C t'"
      by (intro walk_loop_returns[OF assms(2), where J = "tracker_ok ?C"]) (simp_all add: i)
    then show ?thesis using Inr tit by (fastforce simp: post_feedback_to_location_def Let_def)
  qed
qed

text \<open>Accepted by one to three servers, or an error.\<close>

lemma vote_to_location_accepted:
  assumes "tracker_ok (cw_crypto (po_client P)) t" "post_feedback_to_location P sponsor_id loc fb t = Some (t', Inr ())"
  shows "\<exists>accepts t1 it. iterate_to_location (cw_crypto (po_client P)) (cw_bootstrap (po_client P)) (bl_location_id loc) 6 None t = Inr (t1, it)
    \<and> walk_loop (visit_for_vote P sponsor_id loc fb) [] it t1 = Some ((accepts, t'), Inr ()) \<and> accepts \<noteq> [] \<and> length accepts \<le> 3"
proof -
  let ?C = "cw_crypto (po_client P)"
  obtain t1 it where i: "iterate_to_location ?C (cw_bootstrap (po_client P)) (bl_location_id loc) 6 None t = Inr (t1, it)"
    using assms(2) by (auto simp: post_feedback_to_location_def Let_def REDUNDANT_SERVERS_PER_POST_def split: sum.splits)
  then obtain accepts where w: "walk_loop (visit_for_vote P sponsor_id loc fb) [] it t1 = Some ((accepts, t'), Inr ())" "accepts \<noteq> []"
    using assms(2) by (auto simp: post_feedback_to_location_def Let_def REDUNDANT_SERVERS_PER_POST_def)
  have "vote_ok ?C 2 ([], t1)" using iterate_to_location_ok(1)[OF assms(1) i] by (simp add: vote_ok_def)
  from walk_loop_leaves[OF w(1) vote_visits this] show ?thesis using i w by (auto simp: vote_ok_def)
qed


section \<open>What a submission promises\<close>

text \<open>C6: A submission, once its background task has ended, in terms of the commits it has recorded: its author's bucket comes first
  and has at most three, and without one nothing else was recorded; each recorded commit has gone into the pen of recent posts, in
  order, with the bytes of the post. A caller that waits gets the tokens of all of them, one that does not gets the first; each
  token is what a server's answer to the commit of exactly these bytes decodes to. An error means that no commit was recorded and
  that the pen is as it was; a server may have committed the post all the same, if its answer was lost or did not decode. The
  client keeps its invariant.\<close>

theorem submission_reports_commits:
  assumes "mem_live_ok (po_client P) m"
    and "submit_post mem_client_storage P cid r1 r2 post wait_for_all (m, pen) = Some (s', out)"
  shows "mem_live_ok (po_client P) (pc_manager s')
    \<and> (\<forall>e. out = Inl e \<longrightarrow> pc_outcomes s' = [] \<and> pc_pen s' = pen)
    \<and> (\<forall>tokens p bs. out = Inr (tokens, p, bs) \<longrightarrow> (\<exists>user rest. pc_outcomes s' = map (Pair User) user @ rest
         \<and> (\<forall>t \<in> set (user @ map snd rest). receipt P (cid_id cid) bs t)
         \<and> user \<noteq> [] \<and> length user \<le> 3 \<and> User \<notin> fst ` set rest \<and> tokens = (if wait_for_all then user @ map snd rest else [hd user])
         \<and> pc_pen s' = pen @ map (\<lambda>t. \<lparr>pen_bucket_location = spm_bucket_location t, pen_post_id = spm_post_id t,
              pen_encoded_post_bytes = bs, pen_time_millis = cw_now (po_client P)\<rparr>) (user @ map snd rest)))"
proof (cases "pc_outcomes s' = [] \<and> pc_pen s' = pen \<and> pc_manager s' = m \<and> (\<exists>e. out = Inl e)")
  case True
  then show ?thesis using assms(1) by auto
next
  case False
  let ?s = "\<lparr>pc_manager = m, pc_pen = pen, pc_outcomes = []\<rparr>"
  obtain ds tags p bs where b: "build_locations (cw_crypto (po_client P)) (po_lowercase P) (po_hex_decode P) (po_parse_fragment P) cid post
      = Inr (ds, tags)"
    "encode_to_bytes_direct (po_env P) (po_sign P) r1 r2 (EncodedPost_new cid (cw_now (po_client P)) (map ld_linked_base_id ds) post)
      = Inr (p, bs)"
    using assms(2) False by (auto simp: submit_post_def Let_def split: if_splits sum.splits)
  let ?J = "\<lparr>job_sponsor_id = cid_id cid, job_post = p, job_post_bytes = bs, job_referenced_hashtags = tags,
      job_timestamp = cw_now (po_client P)\<rparr>"
  obtain d rest_ds where ds: "ds = d # rest_ds" "ld_bucket_type d = User" "User \<notin> ld_bucket_type ` set rest_ds"
    using build_locations_user_first[OF b(1)] by auto
  obtain background where run: "post_to_locations mem_client_storage P ?J (d # rest_ds) ?s = Some (s', background)"
    "out = rbind (collect_outcomes wait_for_all (pc_outcomes s') [] False) (\<lambda>tokens. Inr (tokens, p, epb_bytes bs))"
    using assms(2) False b ds(1) by (auto simp: submit_post_def Let_def split: if_splits)
  have "mem_live_ok (po_client P) (pc_manager ?s)" using assms(1) by simp
  from mem_client.user_bucket_first[OF this run(1) ds(2)] obtain user rest where
    k: "mem_live_ok (po_client P) (pc_manager s')" "length user \<le> 3" "user = [] \<longrightarrow> rest = []"
      "pc_outcomes s' = map (Pair User) user @ rest" "pc_pen s' = pen @ map (pen_of ?J \<circ> snd) (map (Pair User) user @ rest)"
      "fst ` set rest \<subseteq> ld_bucket_type ` set rest_ds" "\<forall>t \<in> set (user @ map snd rest). receipt P (cid_id cid) (epb_bytes bs) t"
    by auto
  have out: "out = (if user = [] then Inl (Bail ''Failed to post to any User buckets, so bailing,'')
      else Inr (if wait_for_all then user @ map snd rest else [hd user], p, epb_bytes bs))"
    using run(2) k(4) collect_user_first[OF k(3)] by simp
  show ?thesis
  proof (cases "user = []")
    case True
    then show ?thesis using k out by simp
  next
    case False
    then show ?thesis using k ds(3) out
      by (intro conjI allI impI exI[of _ user] exI[of _ rest]) (auto simp: pen_of_def comp_def)
  qed
qed

text \<open>Offering a post to one bucket always ends, whatever the servers answer: it reports an error with no commit, or between one
  and three commits, each of which followed a claim and has gone into the pen and over the channel.\<close>

theorem post_to_location_ends:
  assumes "tracker_ok (cw_crypto (po_client P)) (ps_tracker s)" "wf_id (bl_location_id loc)"
  shows "\<exists>s' out new. post_to_location P J loc referenced ty s = Some (s', out) \<and> tracker_ok (cw_crypto (po_client P)) (ps_tracker s')
    \<and> length new \<le> 3 \<and> ps_outcomes s' = ps_outcomes s @ map (Pair ty) new \<and> length (ps_pen s') = length (ps_pen s) + length new
    \<and> (\<forall>tokens. out = Inr tokens \<longrightarrow> tokens = new \<and> new \<noteq> []) \<and> (\<forall>m. out = Inl (Bail m) \<longrightarrow> new = [])"
proof -
  obtain s' out where run: "post_to_location P J loc referenced ty s = Some (s', out)"
    using post_to_location_returns[OF assms] by blast
  from post_to_location_leaves[OF assms(1) run] show ?thesis using run by (auto simp: delivered_def)
qed

end
