(* ===== verification/MetaPost.thy ===== *)
theory MetaPost
  imports ClientStorage Timeline
begin

text \<open>
  Profiles and settings: the sections of \<open>client/meta_post/meta_post.rs\<close> with their merge by timestamp, the encryption of the private
  section in \<open>meta_post_crypto.rs\<close>, and the manager of \<open>meta_post_manager.rs\<close> over the client's storage. A hash map is an
  association list without duplicate keys. JSON, hexadecimal text and the signing of the key locker are arguments.
\<close>

section \<open>Versioned fields\<close>

record 'a versioned_field =
  vf_value :: "'a option"
  vf_timestamp :: time_millis

definition VersionedField_new :: "'a \<Rightarrow> time_millis \<Rightarrow> 'a versioned_field" where
  "VersionedField_new v t = \<lparr>vf_value = Some v, vf_timestamp = t\<rparr>"

definition tombstone :: "time_millis \<Rightarrow> 'a versioned_field" where
  "tombstone t = \<lparr>vf_value = None, vf_timestamp = t\<rparr>"

definition is_tombstone :: "'a versioned_field \<Rightarrow> bool" where
  "is_tombstone f \<longleftrightarrow> vf_value f = None"

record meta_post_public =
  mp_nickname :: "string versioned_field"
  mp_status :: "string versioned_field"
  mp_selfie :: "string versioned_field"
  mp_avatar :: "string versioned_field"

definition MetaPostPublic_empty :: meta_post_public where
  "MetaPostPublic_empty = \<lparr>mp_nickname = tombstone 0, mp_status = tombstone 0, mp_selfie = tombstone 0, mp_avatar = tombstone 0\<rparr>"

definition MetaPostPublic_from_bio :: "time_millis \<Rightarrow> string \<Rightarrow> string \<Rightarrow> string \<Rightarrow> string \<Rightarrow> meta_post_public" where
  "MetaPostPublic_from_bio t nickname status selfie avatar = \<lparr>mp_nickname = VersionedField_new nickname t,
     mp_status = VersionedField_new status t, mp_selfie = VersionedField_new selfie t, mp_avatar = VersionedField_new avatar t\<rparr>"

definition max_timestamp :: "meta_post_public \<Rightarrow> time_millis" where
  "max_timestamp p = Max {vf_timestamp (mp_nickname p), vf_timestamp (mp_status p), vf_timestamp (mp_selfie p), vf_timestamp (mp_avatar p)}"

record meta_post_private =
  mv_followed_client_ids :: "(string \<times> bool versioned_field) list"
  mv_followed_hashtags :: "(string \<times> bool versioned_field) list"
  mv_content_thresholds :: "(byte \<times> 32 word versioned_field) list"
  mv_skip_warnings_for_followed :: "bool versioned_field"

definition MetaPostPrivate_empty :: meta_post_private where
  "MetaPostPrivate_empty = \<lparr>mv_followed_client_ids = [], mv_followed_hashtags = [], mv_content_thresholds = [],
     mv_skip_warnings_for_followed = tombstone 0\<rparr>"

record meta_post_v1 =
  m1_meta :: string
  m1_client_id :: string
  m1_encryption_salt :: salt
  m1_public :: meta_post_public
  m1_private_encrypted :: string

definition META_POST_V1_META :: string where "META_POST_V1_META = ''MetaPostV1''"

definition MetaPostV1_new :: "string \<Rightarrow> salt \<Rightarrow> meta_post_public \<Rightarrow> string \<Rightarrow> meta_post_v1" where
  "MetaPostV1_new cid salt public private_encrypted = \<lparr>m1_meta = META_POST_V1_META, m1_client_id = cid, m1_encryption_salt = salt,
     m1_public = public, m1_private_encrypted = private_encrypted\<rparr>"

datatype meta_post = MetaPostNone | MetaPostV1 meta_post_v1

definition try_parse_meta_post :: "string codec \<Rightarrow> meta_post_v1 codec \<Rightarrow> string \<Rightarrow> meta_post res" where
  "try_parse_meta_post meta_only_json json post = (case dec meta_only_json (str_bytes post) of
     None \<Rightarrow> Inr MetaPostNone
   | Some meta \<Rightarrow>
       if meta = ''MetaPostV1'' then rbind (of_option ''json'' (dec json (str_bytes post))) (\<lambda>m. Inr (MetaPostV1 m))
       else Inl (Bail ''Unsupported meta type''))"


section \<open>Merging\<close>

definition TOMBSTONE_MAX_AGE :: duration_millis where
  "TOMBSTONE_MAX_AGE = const_mul MILLIS_IN_MONTH 3"

definition merge_scalar_field :: "'a versioned_field \<Rightarrow> 'a versioned_field \<Rightarrow> 'a versioned_field" where
  "merge_scalar_field l i = (if vf_timestamp i > vf_timestamp l then i else l)"

fun merge_entries :: "('k \<times> 'a versioned_field) list \<Rightarrow> ('k \<times> 'a versioned_field) list \<Rightarrow> ('k \<times> 'a versioned_field) list" where
  "merge_entries merged [] = merged"
| "merge_entries merged ((k, i) # rest) = merge_entries (case map_of merged k of
     Some l \<Rightarrow> if vf_timestamp i > vf_timestamp l then AList.update k i merged else merged
   | None \<Rightarrow> AList.update k i merged) rest"

definition collectable :: "time_millis \<Rightarrow> 'a versioned_field \<Rightarrow> bool" where
  "collectable now f \<longleftrightarrow> is_tombstone f \<and> vf_timestamp f < saturating_sub_duration now TOMBSTONE_MAX_AGE"

definition merge_collection :: "('k \<times> 'a versioned_field) list \<Rightarrow> ('k \<times> 'a versioned_field) list \<Rightarrow> time_millis
    \<Rightarrow> ('k \<times> 'a versioned_field) list" where
  "merge_collection l i now = List.filter (\<lambda>(k, f). \<not> collectable now f) (merge_entries l i)"

definition merge_public :: "meta_post_public \<Rightarrow> meta_post_public \<Rightarrow> meta_post_public" where
  "merge_public l i = \<lparr>mp_nickname = merge_scalar_field (mp_nickname l) (mp_nickname i),
     mp_status = merge_scalar_field (mp_status l) (mp_status i), mp_selfie = merge_scalar_field (mp_selfie l) (mp_selfie i),
     mp_avatar = merge_scalar_field (mp_avatar l) (mp_avatar i)\<rparr>"

definition merge_private :: "meta_post_private \<Rightarrow> meta_post_private \<Rightarrow> time_millis \<Rightarrow> meta_post_private" where
  "merge_private l i now = \<lparr>mv_followed_client_ids = merge_collection (mv_followed_client_ids l) (mv_followed_client_ids i) now,
     mv_followed_hashtags = merge_collection (mv_followed_hashtags l) (mv_followed_hashtags i) now,
     mv_content_thresholds = merge_collection (mv_content_thresholds l) (mv_content_thresholds i) now,
     mv_skip_warnings_for_followed = merge_scalar_field (mv_skip_warnings_for_followed l) (mv_skip_warnings_for_followed i)\<rparr>"


section \<open>The private section\<close>

record meta_world =
  mw_crypto :: crypto
  mw_aead :: aead
  mw_compressor :: compressor
  mw_env :: post_env
  mw_sign :: "bytes \<Rightarrow> signature res"
  mw_hex_encode :: "bytes \<Rightarrow> string"
  mw_hex_decode :: "string \<Rightarrow> bytes option"
  mw_public_json :: "meta_post_public codec"
  mw_private_json :: "meta_post_private codec"
  mw_envelope_json :: "meta_post_v1 codec"
  mw_meta_only_json :: "string codec"
  mw_client_id :: client_id
  mw_now :: time_millis

definition META_POST_ENCRYPTION_CONTEXT :: bytes where
  "META_POST_ENCRYPTION_CONTEXT = str_bytes ''hashiverse-meta-post-encryption''"

definition derive_meta_post_encryption_key :: "meta_world \<Rightarrow> salt \<Rightarrow> bytes res" where
  "derive_meta_post_encryption_key W salt =
     rbind (mw_sign W (META_POST_ENCRYPTION_CONTEXT @ salt_bytes salt)) (\<lambda>signature.
       Inr (blake3 (mw_crypto W) (signature_bytes signature)))"

definition encrypt_private_section :: "meta_world \<Rightarrow> enc_random \<Rightarrow> salt \<Rightarrow> meta_post_private \<Rightarrow> string res" where
  "encrypt_private_section W random salt private =
     rbind (derive_meta_post_encryption_key W salt) (\<lambda>symmetric_key.
     rbind (compress_for_size (mw_compressor W) (enc (mw_private_json W) private)) (\<lambda>compressed.
     rbind (case random of (fk, ns, bn) \<Rightarrow> encrypt_strong (mw_aead W) fk ns bn (g_to_bytes compressed) [symmetric_key]) (\<lambda>encrypted.
       Inr (mw_hex_encode W encrypted))))"

definition decrypt_private_section :: "meta_world \<Rightarrow> salt \<Rightarrow> string \<Rightarrow> meta_post_private res" where
  "decrypt_private_section W salt encrypted_hex =
     rbind (derive_meta_post_encryption_key W salt) (\<lambda>symmetric_key.
     rbind (of_option ''hex'' (mw_hex_decode W encrypted_hex)) (\<lambda>encrypted.
     rbind (decrypt (mw_aead W) encrypted symmetric_key) (\<lambda>compressed.
     rbind (decompress (mw_compressor W) compressed) (\<lambda>plaintext.
       of_option ''json'' (dec (mw_private_json W) (g_to_bytes plaintext))))))"


section \<open>The manager\<close>

text \<open>A fallible call on the storage, then the rest of the operation.\<close>

definition cbind :: "'s \<times> 'a res \<Rightarrow> ('a \<Rightarrow> 's \<Rightarrow> 's \<times> 'b res) \<Rightarrow> 's \<times> 'b res" where
  "cbind m f = (case m of (s, Inl e) \<Rightarrow> (s, Inl e) | (s, Inr x) \<Rightarrow> f x s)"

lemma cbind_simps [simp]: "cbind (s, Inl e) f = (s, Inl e)" "cbind (s, Inr x) f = f x s"
  by (simp_all add: cbind_def)

definition public_config_key :: "meta_world \<Rightarrow> string" where
  "public_config_key W = config_key_for_user (mw_hex_encode W) (cid_id (mw_client_id W)) BUCKET_CONFIG_KEY_META_POST_V1_PUBLIC"

definition private_config_key :: "meta_world \<Rightarrow> string" where
  "private_config_key W = config_key_for_user (mw_hex_encode W) (cid_id (mw_client_id W)) BUCKET_CONFIG_KEY_META_POST_V1_PRIVATE"

definition get_public :: "'s client_storage \<Rightarrow> meta_world \<Rightarrow> 's \<Rightarrow> 's \<times> meta_post_public res" where
  "get_public S W s = cbind (get_struct S (mw_compressor W) (mw_public_json W) BUCKET_CONFIG (public_config_key W) 0 s) (\<lambda>public s.
     (s, Inr (case public of None \<Rightarrow> MetaPostPublic_empty | Some p \<Rightarrow> p)))"

definition put_public :: "'s client_storage \<Rightarrow> meta_world \<Rightarrow> meta_post_public \<Rightarrow> 's \<Rightarrow> 's \<times> unit res" where
  "put_public S W public = put_struct S (mw_compressor W) (mw_public_json W) BUCKET_CONFIG (public_config_key W) public 0"

definition get_private :: "'s client_storage \<Rightarrow> meta_world \<Rightarrow> 's \<Rightarrow> 's \<times> meta_post_private res" where
  "get_private S W s = cbind (get_struct S (mw_compressor W) (mw_private_json W) BUCKET_CONFIG (private_config_key W) 0 s) (\<lambda>private s.
     (s, Inr (case private of None \<Rightarrow> MetaPostPrivate_empty | Some p \<Rightarrow> p)))"

definition put_private :: "'s client_storage \<Rightarrow> meta_world \<Rightarrow> meta_post_private \<Rightarrow> 's \<Rightarrow> 's \<times> unit res" where
  "put_private S W private = put_struct S (mw_compressor W) (mw_private_json W) BUCKET_CONFIG (private_config_key W) private 0"

text \<open>The cached public section of an account.\<close>

definition cached_public_key :: "meta_world \<Rightarrow> id \<Rightarrow> string" where
  "cached_public_key W i = Id_to_hex_str (mw_hex_encode W) i"

definition set_bio :: "'s client_storage \<Rightarrow> meta_world \<Rightarrow> string \<Rightarrow> string \<Rightarrow> string \<Rightarrow> string \<Rightarrow> 's \<Rightarrow> 's \<times> unit res" where
  "set_bio S W nickname status selfie avatar s =
     cbind (get_public S W s) (\<lambda>local_public s.
       let incoming_public = MetaPostPublic_from_bio (mw_now W) nickname status selfie avatar;
           merged_public = merge_public local_public incoming_public in
     cbind (put_public S W merged_public s) (\<lambda>_ s.
       put_struct S (mw_compressor W) (mw_public_json W) BUCKET_META_POST_PUBLIC (cached_public_key W (cid_id (mw_client_id W)))
         merged_public (mw_now W) s))"

definition get_meta_post_public :: "'s client_storage \<Rightarrow> meta_world \<Rightarrow> id \<Rightarrow> 's \<Rightarrow> 's \<times> meta_post_public option res" where
  "get_meta_post_public S W i = get_struct S (mw_compressor W) (mw_public_json W) BUCKET_META_POST_PUBLIC (cached_public_key W i) (mw_now W)"

fun collect_publics :: "'s client_storage \<Rightarrow> meta_world \<Rightarrow> string list \<Rightarrow> (string \<times> meta_post_public) list \<Rightarrow> 's
    \<Rightarrow> 's \<times> (string \<times> meta_post_public) list res" where
  "collect_publics S W [] out s = (s, Inr out)"
| "collect_publics S W (key # keys) out s =
     (case get_struct S (mw_compressor W) (mw_public_json W) BUCKET_META_POST_PUBLIC key 0 s of
        (s, Inl (Panic m)) \<Rightarrow> (s, Inl (Panic m))
      | (s, Inl (Bail m)) \<Rightarrow> collect_publics S W keys out s
      | (s, Inr None) \<Rightarrow> collect_publics S W keys out s
      | (s, Inr (Some p)) \<Rightarrow> collect_publics S W keys (out @ [(key, p)]) s)"

definition get_all_meta_post_publics :: "'s client_storage \<Rightarrow> meta_world \<Rightarrow> 's \<Rightarrow> 's \<times> (string \<times> meta_post_public) list res" where
  "get_all_meta_post_publics S W s = (case cs_keys S BUCKET_META_POST_PUBLIC s of
     Inl e \<Rightarrow> (s, Inl e)
   | Inr keys \<Rightarrow> collect_publics S W keys [] s)"

text \<open>The salt and the random bytes of the encryption are arguments; the text of a struct in JSON is its codec's bytes.\<close>

definition build_meta_post_json :: "'s client_storage \<Rightarrow> meta_world \<Rightarrow> salt \<Rightarrow> enc_random \<Rightarrow> 's \<Rightarrow> 's \<times> bytes res" where
  "build_meta_post_json S W salt random s =
     cbind (get_public S W s) (\<lambda>public s.
     cbind (get_private S W s) (\<lambda>private s.
     cbind (s, encrypt_private_section W random salt private) (\<lambda>private_encrypted s.
       let meta_post = MetaPostV1_new (Id_to_hex_str (mw_hex_encode W) (cid_id (mw_client_id W))) salt public private_encrypted in
     cbind (put_struct S (mw_compressor W) (mw_public_json W) BUCKET_META_POST_PUBLIC (cached_public_key W (cid_id (mw_client_id W)))
         public (mw_now W) s) (\<lambda>_ s.
       (s, Inr (enc (mw_envelope_json W) meta_post))))))"

fun own_meta_post_in :: "meta_world \<Rightarrow> id \<Rightarrow> post_bundle \<Rightarrow> nat list \<Rightarrow> nat \<Rightarrow> bool res" where
  "own_meta_post_in W base b [] offset = Inr False"
| "own_meta_post_in W base b (i # is) offset =
     (if length (pbh_encoded_post_lengths (pb_header b)) \<le> i then Inl (Panic ''index out of bounds'')
      else let len = pbh_encoded_post_lengths (pb_header b) ! i in
        if USIZE_MAX < offset + len then Inl (Panic ''attempt to add with overflow'')
        else if length (pb_encoded_posts_bytes b) < offset + len then Inl (Panic ''range end out of bounds'')
        else case decode_from_bytes (mw_env W) (slice offset len (pb_encoded_posts_bytes b)) base True True of
          Inl (Panic m) \<Rightarrow> Inl (Panic m)
        | Inl (Bail m) \<Rightarrow> own_meta_post_in W base b is (offset + len)
        | Inr encoded_post \<Rightarrow>
           (case post_header_client_id (mw_crypto W) (ep_header encoded_post) of
             Inl (Panic m) \<Rightarrow> Inl (Panic m)
           | Inl (Bail m) \<Rightarrow> own_meta_post_in W base b is (offset + len)
           | Inr post_client_id \<Rightarrow>
              if cid_id post_client_id = cid_id (mw_client_id W)
                \<and> (case try_parse_meta_post (mw_meta_only_json W) (mw_envelope_json W) (ep_post encoded_post) of
                     Inr (MetaPostV1 m) \<Rightarrow> True | _ \<Rightarrow> False)
              then Inr True
              else own_meta_post_in W base b is (offset + len)))"

definition should_auto_publish :: "meta_world \<Rightarrow> 'm bundle_getter \<Rightarrow> 'm \<Rightarrow> 'm \<times> bool res" where
  "should_auto_publish W get m =
     cbind (m, case bucket_durations_for_type User of [] \<Rightarrow> Inl (Bail ''No bucket durations for User type'') | d # _ \<Rightarrow> Inr d) (\<lambda>d m.
     cbind (m, generate_bucket_location (mw_crypto W) User (cid_id (mw_client_id W)) d (mw_now W)) (\<lambda>loc m.
     cbind (get loc (mw_now W) m) (\<lambda>b m.
       if pbh_overflowed (pb_header b) \<or> pbh_sealed (pb_header b) then (m, Inr False)
       else (m, rbind (own_meta_post_in W (bl_base_id loc) b [0..<unat (pbh_num_posts (pb_header b))] 0) (\<lambda>found. Inr (\<not> found))))))"

definition merge_own_post :: "'s client_storage \<Rightarrow> meta_world \<Rightarrow> meta_post_v1 \<Rightarrow> client_id \<Rightarrow> 's \<Rightarrow> 's \<times> unit res" where
  "merge_own_post S W meta_post post_client_id s =
     (if cid_id post_client_id = cid_id (mw_client_id W)
      then cbind (get_public S W s) (\<lambda>local_public s.
           cbind (put_public S W (merge_public local_public (m1_public meta_post)) s) (\<lambda>_ s.
           case decrypt_private_section W (m1_encryption_salt meta_post) (m1_private_encrypted meta_post) of
             Inl (Panic m) \<Rightarrow> (s, Inl (Panic m))
           | Inl (Bail m) \<Rightarrow> (s, Inr ())
           | Inr incoming_private \<Rightarrow>
               cbind (get_private S W s) (\<lambda>local_private s.
                 put_private S W (merge_private local_private incoming_private (mw_now W)) s)))
      else (s, Inr ()))"

definition process_incoming_meta_post :: "'s client_storage \<Rightarrow> meta_world \<Rightarrow> meta_post_v1 \<Rightarrow> client_id \<Rightarrow> 's \<Rightarrow> 's \<times> unit res" where
  "process_incoming_meta_post S W meta_post post_client_id s =
     (let i = cached_public_key W (cid_id post_client_id); incoming_timestamp = max_timestamp (m1_public meta_post) in
      cbind (get_struct S (mw_compressor W) (mw_public_json W) BUCKET_META_POST_PUBLIC i (mw_now W) s) (\<lambda>existing s.
      cbind (if (case existing of None \<Rightarrow> True | Some b \<Rightarrow> incoming_timestamp > max_timestamp b)
             then put_struct S (mw_compressor W) (mw_public_json W) BUCKET_META_POST_PUBLIC i (m1_public meta_post) (mw_now W) s
             else (s, Inr ())) (\<lambda>_. merge_own_post S W meta_post post_client_id)))"


section \<open>Settings\<close>

definition bury_followed :: "time_millis \<Rightarrow> (string \<times> bool versioned_field) list \<Rightarrow> (string \<times> bool versioned_field) list" where
  "bury_followed t = map (\<lambda>(k, f). (k, if vf_value f = Some True then tombstone t else f))"

definition followed_keys :: "(string \<times> bool versioned_field) list \<Rightarrow> string list" where
  "followed_keys es = map fst (List.filter (\<lambda>(k, f). vf_value f = Some True) es)"

definition follow_field :: "bool \<Rightarrow> time_millis \<Rightarrow> bool versioned_field" where
  "follow_field is_followed t = (if is_followed then VersionedField_new True t else tombstone t)"

definition set_followed :: "time_millis \<Rightarrow> string list \<Rightarrow> (string \<times> bool versioned_field) list \<Rightarrow> (string \<times> bool versioned_field) list" where
  "set_followed t ks es = fold (\<lambda>k. AList.update k (VersionedField_new True t)) ks (bury_followed t es)"

definition update_private :: "'s client_storage \<Rightarrow> meta_world \<Rightarrow> (meta_post_private \<Rightarrow> meta_post_private) \<Rightarrow> 's \<Rightarrow> 's \<times> unit res" where
  "update_private S W f s = cbind (get_private S W s) (\<lambda>private. put_private S W (f private))"

fun ids_from_hex :: "(string \<Rightarrow> bytes option) \<Rightarrow> string list \<Rightarrow> id list res" where
  "ids_from_hex hex_decode [] = Inr []"
| "ids_from_hex hex_decode (k # ks) = rbind (Id_from_hex_str hex_decode k) (\<lambda>i. rbind (ids_from_hex hex_decode ks) (\<lambda>is. Inr (i # is)))"

definition get_followed_client_ids :: "'s client_storage \<Rightarrow> meta_world \<Rightarrow> 's \<Rightarrow> 's \<times> id list res" where
  "get_followed_client_ids S W s = cbind (get_private S W s) (\<lambda>private s.
     (s, ids_from_hex (mw_hex_decode W) (followed_keys (mv_followed_client_ids private))))"

definition set_followed_client_ids :: "'s client_storage \<Rightarrow> meta_world \<Rightarrow> id list \<Rightarrow> 's \<Rightarrow> 's \<times> unit res" where
  "set_followed_client_ids S W client_ids = update_private S W (\<lambda>private. private\<lparr>mv_followed_client_ids :=
     set_followed (mw_now W) (map (Id_to_hex_str (mw_hex_encode W)) client_ids) (mv_followed_client_ids private)\<rparr>)"

definition set_followed_client_id :: "'s client_storage \<Rightarrow> meta_world \<Rightarrow> id \<Rightarrow> bool \<Rightarrow> 's \<Rightarrow> 's \<times> unit res" where
  "set_followed_client_id S W client_id is_followed = update_private S W (\<lambda>private. private\<lparr>mv_followed_client_ids :=
     AList.update (Id_to_hex_str (mw_hex_encode W) client_id) (follow_field is_followed (mw_now W)) (mv_followed_client_ids private)\<rparr>)"

definition get_followed_hashtags :: "'s client_storage \<Rightarrow> meta_world \<Rightarrow> 's \<Rightarrow> 's \<times> string list res" where
  "get_followed_hashtags S W s = cbind (get_private S W s) (\<lambda>private s. (s, Inr (followed_keys (mv_followed_hashtags private))))"

definition set_followed_hashtags :: "'s client_storage \<Rightarrow> meta_world \<Rightarrow> string list \<Rightarrow> 's \<Rightarrow> 's \<times> unit res" where
  "set_followed_hashtags S W hashtags = update_private S W (\<lambda>private. private\<lparr>mv_followed_hashtags :=
     set_followed (mw_now W) hashtags (mv_followed_hashtags private)\<rparr>)"

definition set_followed_hashtag :: "'s client_storage \<Rightarrow> meta_world \<Rightarrow> string \<Rightarrow> bool \<Rightarrow> 's \<Rightarrow> 's \<times> unit res" where
  "set_followed_hashtag S W hashtag is_followed = update_private S W (\<lambda>private. private\<lparr>mv_followed_hashtags :=
     AList.update hashtag (follow_field is_followed (mw_now W)) (mv_followed_hashtags private)\<rparr>)"

definition get_content_thresholds :: "'s client_storage \<Rightarrow> meta_world \<Rightarrow> 's \<Rightarrow> 's \<times> (byte \<times> 32 word) list res" where
  "get_content_thresholds S W s = cbind (get_private S W s) (\<lambda>private s.
     (s, Inr (List.map_filter (\<lambda>(k, f). map_option (Pair k) (vf_value f)) (mv_content_thresholds private))))"

definition set_content_thresholds :: "'s client_storage \<Rightarrow> meta_world \<Rightarrow> (byte \<times> 32 word) list \<Rightarrow> 's \<Rightarrow> 's \<times> unit res" where
  "set_content_thresholds S W thresholds = update_private S W (\<lambda>private. private\<lparr>mv_content_thresholds :=
     fold (\<lambda>(ty, n). AList.update ty (VersionedField_new n (mw_now W))) thresholds (mv_content_thresholds private)\<rparr>)"

definition set_content_threshold :: "'s client_storage \<Rightarrow> meta_world \<Rightarrow> byte \<Rightarrow> 32 word \<Rightarrow> 's \<Rightarrow> 's \<times> unit res" where
  "set_content_threshold S W ty n = update_private S W (\<lambda>private. private\<lparr>mv_content_thresholds :=
     AList.update ty (VersionedField_new n (mw_now W)) (mv_content_thresholds private)\<rparr>)"

definition get_skip_warnings_for_followed :: "'s client_storage \<Rightarrow> meta_world \<Rightarrow> 's \<Rightarrow> 's \<times> bool res" where
  "get_skip_warnings_for_followed S W s = cbind (get_private S W s) (\<lambda>private s.
     (s, Inr (case vf_value (mv_skip_warnings_for_followed private) of None \<Rightarrow> False | Some b \<Rightarrow> b)))"

definition set_skip_warnings_for_followed :: "'s client_storage \<Rightarrow> meta_world \<Rightarrow> bool \<Rightarrow> 's \<Rightarrow> 's \<times> unit res" where
  "set_skip_warnings_for_followed S W b = update_private S W (\<lambda>private. private\<lparr>mv_skip_warnings_for_followed :=
     VersionedField_new b (mw_now W)\<rparr>)"



section \<open>Merging is a join\<close>

text \<open>The lookup of a merged collection is the newer of the two fields; the local one wins a tie.\<close>

fun newer_field :: "'a versioned_field option \<Rightarrow> 'a versioned_field option \<Rightarrow> 'a versioned_field option" where
  "newer_field l None = l"
| "newer_field None (Some i) = Some i"
| "newer_field (Some l) (Some i) = Some (merge_scalar_field l i)"

lemma newer_field_None [simp]: "newer_field None i = i"
  by (cases i) simp_all

lemma merge_entries_lookup:
  "distinct (map fst i) \<Longrightarrow> map_of (merge_entries l i) k = newer_field (map_of l k) (map_of i k)"
  "distinct (map fst l) \<Longrightarrow> distinct (map fst (merge_entries l i))"
proof (induction l i rule: merge_entries.induct)
  case (2 merged j x rest)
  { case 1
    then have "map_of rest j = None" by (force simp: map_of_eq_None_iff)
    then show ?case using 2(1) 1 by (cases "map_of merged j") (auto simp: update_conv' merge_scalar_field_def)
  next
    case 2
    then show ?case using "2.IH"(2) by (auto simp: distinct_update split: option.splits)
  }
qed simp_all

lemma map_of_filter:
  "distinct (map fst xs) \<Longrightarrow> map_of (List.filter (\<lambda>(k, f). P f) xs) k = (case map_of xs k of None \<Rightarrow> None | Some f \<Rightarrow> if P f then Some f else None)"
  by (induction xs) (auto simp: map_of_eq_None_iff image_iff split: option.splits dest: map_of_SomeD)

lemma distinct_filter_keys: "distinct (map fst xs) \<Longrightarrow> distinct (map fst (List.filter P xs))"
  by (induction xs) auto

lemma merge_collection_distinct: "distinct (map fst l) \<Longrightarrow> distinct (map fst (merge_collection l i now))"
  by (simp add: merge_collection_def merge_entries_lookup distinct_filter_keys)

lemma merge_collection_lookup:
  assumes "distinct (map fst l)" "distinct (map fst i)"
  shows "map_of (merge_collection l i now) k = (case newer_field (map_of l k) (map_of i k) of
     None \<Rightarrow> None | Some f \<Rightarrow> if collectable now f then None else Some f)"
  using assms by (simp add: merge_collection_def map_of_filter merge_entries_lookup split: option.splits)

text \<open>A field is newest among several when it is one of them and none is later. Where equal times mean equal fields there is at
  most one.\<close>

definition newest_field :: "'a versioned_field option list \<Rightarrow> 'a versioned_field option \<Rightarrow> bool" where
  "newest_field fs r \<longleftrightarrow> (case r of None \<Rightarrow> \<forall>f \<in> set fs. f = None
     | Some x \<Rightarrow> Some x \<in> set fs \<and> (\<forall>y. Some y \<in> set fs \<longrightarrow> vf_timestamp y \<le> vf_timestamp x))"

definition fields_agree :: "'a versioned_field option list \<Rightarrow> bool" where
  "fields_agree fs \<longleftrightarrow> (\<forall>x y. Some x \<in> set fs \<longrightarrow> Some y \<in> set fs \<longrightarrow> vf_timestamp x = vf_timestamp y \<longrightarrow> x = y)"

lemma newest_field_unique:
  assumes "newest_field fs r" "newest_field gs r'" "set fs = set gs" "fields_agree fs"
  shows "r = r'"
proof (cases r)
  case None
  then show ?thesis using assms(1-3) by (cases r') (auto simp: newest_field_def)
next
  case (Some x)
  then show ?thesis using assms by (cases r') (auto simp: newest_field_def fields_agree_def, metis order_antisym)
qed

lemma newest_field_snoc: "newest_field fs r \<Longrightarrow> newest_field (fs @ [f]) (newer_field r f)"
  by (cases r; cases f) (auto simp: newest_field_def merge_scalar_field_def)

lemma newest_field_one: "newest_field [f] f"
  by (cases f) (auto simp: newest_field_def)


section \<open>Sections of one account on several devices\<close>

definition wf_private :: "meta_post_private \<Rightarrow> bool" where
  "wf_private p \<longleftrightarrow> distinct (map fst (mv_followed_client_ids p)) \<and> distinct (map fst (mv_followed_hashtags p))
     \<and> distinct (map fst (mv_content_thresholds p))"

text \<open>No deletion in the section is old enough to be forgotten.\<close>

definition entries_kept :: "time_millis \<Rightarrow> ('k \<times> 'a versioned_field) list \<Rightarrow> bool" where
  "entries_kept now es \<longleftrightarrow> (\<forall>(k, f) \<in> set es. \<not> collectable now f)"

definition deletions_recent :: "time_millis \<Rightarrow> meta_post_private \<Rightarrow> bool" where
  "deletions_recent now p \<longleftrightarrow> entries_kept now (mv_followed_client_ids p) \<and> entries_kept now (mv_followed_hashtags p)
     \<and> entries_kept now (mv_content_thresholds p)"

text \<open>Devices do not write different values of one field at the same millisecond.\<close>

definition collections_agree :: "('k \<times> 'a versioned_field) list \<Rightarrow> ('k \<times> 'a versioned_field) list \<Rightarrow> bool" where
  "collections_agree es fs \<longleftrightarrow> (\<forall>(k, x) \<in> set es. \<forall>(j, y) \<in> set fs. k = j \<longrightarrow> vf_timestamp x = vf_timestamp y \<longrightarrow> x = y)"

definition sections_agree :: "meta_post_private \<Rightarrow> meta_post_private \<Rightarrow> bool" where
  "sections_agree p q \<longleftrightarrow> collections_agree (mv_followed_client_ids p) (mv_followed_client_ids q)
     \<and> collections_agree (mv_followed_hashtags p) (mv_followed_hashtags q)
     \<and> collections_agree (mv_content_thresholds p) (mv_content_thresholds q)
     \<and> (vf_timestamp (mv_skip_warnings_for_followed p) = vf_timestamp (mv_skip_warnings_for_followed q)
        \<longrightarrow> mv_skip_warnings_for_followed p = mv_skip_warnings_for_followed q)"

text \<open>Sections with the same entries, in whatever order the maps hold them.\<close>

definition same_settings :: "meta_post_private \<Rightarrow> meta_post_private \<Rightarrow> bool" where
  "same_settings p q \<longleftrightarrow> map_of (mv_followed_client_ids p) = map_of (mv_followed_client_ids q)
     \<and> map_of (mv_followed_hashtags p) = map_of (mv_followed_hashtags q)
     \<and> map_of (mv_content_thresholds p) = map_of (mv_content_thresholds q)
     \<and> mv_skip_warnings_for_followed p = mv_skip_warnings_for_followed q"

definition merge_all :: "time_millis \<Rightarrow> meta_post_private list \<Rightarrow> meta_post_private \<Rightarrow> meta_post_private" where
  "merge_all now = fold (\<lambda>incoming local. merge_private local incoming now)"

lemma merge_all_simps [simp]:
  "merge_all now [] l = l" "merge_all now (u # us) l = merge_all now us (merge_private l u now)"
  "merge_all now (us @ vs) l = merge_all now vs (merge_all now us l)"
  by (simp_all add: merge_all_def)

lemma merge_fields:
  "mv_followed_client_ids (merge_private l i now) = merge_collection (mv_followed_client_ids l) (mv_followed_client_ids i) now"
  "mv_followed_hashtags (merge_private l i now) = merge_collection (mv_followed_hashtags l) (mv_followed_hashtags i) now"
  "mv_content_thresholds (merge_private l i now) = merge_collection (mv_content_thresholds l) (mv_content_thresholds i) now"
  "mv_skip_warnings_for_followed (merge_private l i now)
    = merge_scalar_field (mv_skip_warnings_for_followed l) (mv_skip_warnings_for_followed i)"
  by (simp_all add: merge_private_def)

text \<open>One collection of the sections, merged over all of them, holds the newest field of each key.\<close>

lemma merged_collection_newest:
  assumes "\<And>l i. field (merge_private l i now) = merge_collection (field l) (field i) now"
    and "\<And>p. p \<in> set (l # us) \<Longrightarrow> distinct (map fst (field p)) \<and> entries_kept now (field p)"
  shows "distinct (map fst (field (merge_all now us l)))
    \<and> newest_field (map (\<lambda>p. map_of (field p) k) (l # us)) (map_of (field (merge_all now us l)) k)"
  using assms(2)
proof (induction us rule: rev_induct)
  case Nil
  then show ?case using newest_field_one by simp
next
  case (snoc u us)
  let ?m = "merge_all now us l" and ?fs = "map (\<lambda>p. map_of (field p) k) (l # us)"
  have IH: "distinct (map fst (field ?m))" "newest_field ?fs (map_of (field ?m) k)" using snoc by auto
  have n: "newest_field (?fs @ [map_of (field u) k]) (newer_field (map_of (field ?m) k) (map_of (field u) k))"
    by (rule newest_field_snoc[OF IH(2)])
  have "\<not> collectable now f" if "newer_field (map_of (field ?m) k) (map_of (field u) k) = Some f" for f
  proof -
    have "Some f \<in> set (?fs @ [map_of (field u) k])" using n that by (simp add: newest_field_def)
    then have "Some f \<in> (\<lambda>p. map_of (field p) k) ` set (l # us @ [u])" by auto
    then obtain p where p: "p \<in> set (l # us @ [u])" "Some f = map_of (field p) k" by (rule imageE)
    have "(k, f) \<in> set (field p)" by (rule map_of_SomeD[OF p(2)[symmetric]])
    moreover have "entries_kept now (field p)" by (rule conjunct2[OF snoc.prems[OF p(1)]])
    ultimately show ?thesis by (auto simp: entries_kept_def)
  qed
  moreover have "distinct (map fst (field u))" using snoc.prems by simp
  ultimately have "map_of (field (merge_private ?m u now)) k = newer_field (map_of (field ?m) k) (map_of (field u) k)"
    using IH(1) by (simp add: assms(1) merge_collection_lookup split: option.splits)
  then show ?case using n merge_collection_distinct[OF IH(1)] by (simp add: assms(1))
qed

lemma merged_collection_unique:
  assumes "\<And>l i. field (merge_private l i now) = merge_collection (field l) (field i) now"
    and "\<And>p. p \<in> set (l # us) \<Longrightarrow> distinct (map fst (field p)) \<and> entries_kept now (field p)"
    and "\<And>p q. p \<in> set (l # us) \<Longrightarrow> q \<in> set (l # us) \<Longrightarrow> collections_agree (field p) (field q)"
    and "set (l' # vs) = set (l # us)"
  shows "map_of (field (merge_all now us l)) = map_of (field (merge_all now vs l'))"
proof
  fix k
  let ?fs = "\<lambda>ps. map (\<lambda>p. map_of (field p) k) ps"
  have "newest_field (?fs (l # us)) (map_of (field (merge_all now us l)) k)"
    using merged_collection_newest[of field now l us k] assms(1,2) by blast
  moreover have "newest_field (?fs (l' # vs)) (map_of (field (merge_all now vs l')) k)"
    using merged_collection_newest[of field now l' vs k] assms(1,2,4) by (metis (no_types, lifting))
  moreover have "set (?fs (l # us)) = set (?fs (l' # vs))" using assms(4) by (metis list.set_map)
  moreover have "fields_agree (?fs (l # us))"
    unfolding fields_agree_def
  proof (intro allI impI)
    fix x y assume "Some x \<in> set (?fs (l # us))" "Some y \<in> set (?fs (l # us))" and t: "vf_timestamp x = vf_timestamp y"
    then obtain p q where p: "p \<in> set (l # us)" "map_of (field p) k = Some x" and q: "q \<in> set (l # us)" "map_of (field q) k = Some y"
      by (force simp: image_iff)
    then show "x = y" using assms(3)[OF p(1) q(1)] t map_of_SomeD[of "field p" k x] map_of_SomeD[of "field q" k y]
      by (fastforce simp: collections_agree_def)
  qed
  ultimately show "map_of (field (merge_all now us l)) k = map_of (field (merge_all now vs l')) k"
    by (metis newest_field_unique)
qed

lemma merged_scalar_unique:
  assumes "\<And>p q. p \<in> set (l # us) \<Longrightarrow> q \<in> set (l # us) \<Longrightarrow> sections_agree p q" "set (l' # vs) = set (l # us)"
  shows "mv_skip_warnings_for_followed (merge_all now us l) = mv_skip_warnings_for_followed (merge_all now vs l')"
proof -
  let ?f = "mv_skip_warnings_for_followed"
  have newest: "newest_field (map (Some \<circ> ?f) (m # ws)) (Some (?f (merge_all now ws m)))" for m ws
  proof (induction ws rule: rev_induct)
    case Nil
    then show ?case using newest_field_one by simp
  next
    case (snoc w ws)
    from newest_field_snoc[OF snoc, of "Some (?f w)"] show ?case by (simp add: merge_fields)
  qed
  have "vf_timestamp (?f p) = vf_timestamp (?f q) \<longrightarrow> ?f p = ?f q" if "p \<in> set (l # us)" "q \<in> set (l # us)" for p q
    using assms(1)[OF that] by (simp add: sections_agree_def)
  then have "fields_agree (map (Some \<circ> ?f) (l # us))" unfolding fields_agree_def set_map by auto
  moreover have "set (map (Some \<circ> ?f) (l # us)) = set (map (Some \<circ> ?f) (l' # vs))" using assms(2) by (metis list.set_map)
  ultimately show ?thesis using newest_field_unique[OF newest[of l us] newest[of l' vs]] by blast
qed

text \<open>C17: The private sections of one account converge: devices that merged the same sections, in whatever order, as often as they like
  and starting from whichever of them, hold the same follows, hashtags, thresholds and warnings, as long as no deletion among them
  is older than the age at which deletions are forgotten and equal times mean equal fields.\<close>

theorem private_sections_converge:
  assumes "\<forall>p \<in> set (l # us). wf_private p \<and> deletions_recent now p"
    and "\<forall>p \<in> set (l # us). \<forall>q \<in> set (l # us). sections_agree p q"
    and "set (l' # vs) = set (l # us)"
  shows "same_settings (merge_all now us l) (merge_all now vs l')"
proof -
  note ok = bspec[OF assms(1)] and ag = bspec[OF bspec[OF assms(2)]]
  show ?thesis unfolding same_settings_def
  proof (intro conjI)
    show "map_of (mv_followed_client_ids (merge_all now us l)) = map_of (mv_followed_client_ids (merge_all now vs l'))"
      by (rule merged_collection_unique[OF merge_fields(1) _ _ assms(3)])
        (use ok ag in \<open>auto simp: wf_private_def deletions_recent_def sections_agree_def\<close>)
    show "map_of (mv_followed_hashtags (merge_all now us l)) = map_of (mv_followed_hashtags (merge_all now vs l'))"
      by (rule merged_collection_unique[OF merge_fields(2) _ _ assms(3)])
        (use ok ag in \<open>auto simp: wf_private_def deletions_recent_def sections_agree_def\<close>)
    show "map_of (mv_content_thresholds (merge_all now us l)) = map_of (mv_content_thresholds (merge_all now vs l'))"
      by (rule merged_collection_unique[OF merge_fields(3) _ _ assms(3)])
        (use ok ag in \<open>auto simp: wf_private_def deletions_recent_def sections_agree_def\<close>)
    show "mv_skip_warnings_for_followed (merge_all now us l) = mv_skip_warnings_for_followed (merge_all now vs l')"
      by (rule merged_scalar_unique[OF ag assms(3)])
  qed
qed

text \<open>A deletion past that age is forgotten, and an older value that arrives later comes back.\<close>

lemma forgotten_deletion_resurrects:
  fixes live gone :: "'a versioned_field"
  assumes "is_tombstone gone" "vf_timestamp live < vf_timestamp gone" "collectable now gone" "\<not> is_tombstone live"
  shows "map_of (merge_collection (merge_collection [(k, live)] [(k, gone)] now) [] now) k = None"
    "map_of (merge_collection (merge_collection [] [(k, gone)] now) [(k, live)] now) k = Some live"
  using assms by (simp_all add: merge_collection_def collectable_def merge_scalar_field_def)



section \<open>Structs in a storage\<close>

definition reads_back :: "compressor \<Rightarrow> 'a codec \<Rightarrow> 'a \<Rightarrow> bool" where
  "reads_back Z J x \<longleftrightarrow> dec J (enc J x) = Some x \<and> brotli_law Z (enc J x) \<and> length (enc J x) \<le> MAX_DECOMPRESSED_SIZE"

definition read_struct :: "compressor \<Rightarrow> 'a codec \<Rightarrow> bytes option \<Rightarrow> 'a option res" where
  "read_struct Z J stored = (case stored of None \<Rightarrow> Inr None
     | Some bs \<Rightarrow> rbind (decompress Z bs) (\<lambda>g. rbind (of_option ''json'' (dec J (g_to_bytes g))) (\<lambda>v. Inr (Some v))))"

definition only_changes :: "(string \<times> string) set \<Rightarrow> (string \<Rightarrow> string \<Rightarrow> bytes option) \<Rightarrow> (string \<Rightarrow> string \<Rightarrow> bytes option) \<Rightarrow> bool" where
  "only_changes K v v' \<longleftrightarrow> (\<forall>b k. (b, k) \<notin> K \<longrightarrow> v' b k = v b k)"

lemma only_changes_simps [simp]: "only_changes K v v"
  by (simp add: only_changes_def)

lemma only_changes_trans: "only_changes K v v' \<Longrightarrow> only_changes L v' v'' \<Longrightarrow> only_changes (K \<union> L) v v''"
  by (simp add: only_changes_def)

lemma only_changes_mono: "only_changes K v v' \<Longrightarrow> K \<subseteq> L \<Longrightarrow> only_changes L v v'"
  by (auto simp: only_changes_def)

context client_storage_laws
begin

lemma get_struct_peeks:
  assumes "ready s" "b \<in> set BUCKETS"
  shows "\<exists>s'. get_struct S Z J b k t s = (s', read_struct Z J (peek s b k)) \<and> ready s' \<and> peek s' = peek s"
  using get_peeks[OF assms, of k t] by (auto simp: get_struct_def read_struct_def split: option.splits)

lemma put_struct_stores:
  assumes "ready s" "b \<in> set BUCKETS" "reads_back Z J x"
  shows "\<exists>s'. put_struct S Z J b k x t s = (s', Inr ()) \<and> ready s' \<and> only_changes {(b, k)} (peek s) (peek s')
    \<and> read_struct Z J (peek s' b k) = Inr (Some x)"
proof -
  obtain g g' where g: "compress_for_size Z (enc J x) = Inr g" "decompress Z (g_to_bytes g) = Inr g'" "g_to_bytes g' = enc J x"
    using compress_size_ok[of Z "enc J x"] assms(3) by (auto simp: reads_back_def)
  from put_stores[OF assms(1,2), of k "g_to_bytes g" t] show ?thesis using g assms(3)
    by (auto simp: put_struct_def read_struct_def only_changes_def reads_back_def simp del: g_to_bytes_contents)
qed

lemma put_struct_frame:
  assumes "ready s" "b \<in> set BUCKETS" "put_struct S Z J b k x t s = (s', r)"
  shows "ready s'" "only_changes {(b, k)} (peek s) (peek s')" "r = Inl e \<Longrightarrow> s' = s"
proof -
  have "ready s' \<and> only_changes {(b, k)} (peek s) (peek s') \<and> (\<forall>e. r = Inl e \<longrightarrow> s' = s)"
  proof (cases "compress_for_size Z (enc J x)")
    case (Inr g)
    then show ?thesis using put_stores[OF assms(1,2), of k "g_to_bytes g" t] assms(3)
      by (auto simp: put_struct_def only_changes_def simp del: g_to_bytes_contents)
  qed (use assms in \<open>auto simp: put_struct_def\<close>)
  then show "ready s'" "only_changes {(b, k)} (peek s) (peek s')" "r = Inl e \<Longrightarrow> s' = s" by blast+
qed

end

text \<open>The private section of an account can be read by whoever signs with its key.\<close>

lemma private_section_roundtrip:
  assumes "encrypt_private_section W (fk, [n], bn) salt private = Inr text" "aead_inverts (mw_aead W)"
    and "length fk = 32" "length n = 12" "length bn = 12"
    and "reads_back (mw_compressor W) (mw_private_json W) private" "\<And>x. mw_hex_decode W (mw_hex_encode W x) = Some x"
  shows "decrypt_private_section W salt text = Inr private"
proof -
  obtain key g ct where e: "derive_meta_post_encryption_key W salt = Inr key"
      "compress_for_size (mw_compressor W) (enc (mw_private_json W) private) = Inr g"
      "encrypt_strong (mw_aead W) fk [n] bn (g_to_bytes g) [key] = Inr ct" "text = mw_hex_encode W ct"
    using assms(1) by (auto simp: encrypt_private_section_def)
  have "slots_authentic (mw_aead W) Argon2Config_strong fk [key] [n]" by (auto simp: slots_authentic_def)
  then have "decrypt (mw_aead W) ct key = Inr (g_to_bytes g)"
    using encrypt_then_decrypt[of "mw_aead W" fk "[n]" bn Argon2Config_strong "g_to_bytes g" "[key]" ct key] assms(2-5) e(3)
    by (simp add: encrypt_strong_def del: g_to_bytes_contents)
  moreover obtain g' where "decompress (mw_compressor W) (g_to_bytes g) = Inr g'" "g_to_bytes g' = enc (mw_private_json W) private"
    using compress_size_ok[of "mw_compressor W" "enc (mw_private_json W) private"] assms(6) e(2) by (auto simp: reads_back_def)
  ultimately show ?thesis using e(1,4) assms(6,7) by (simp add: decrypt_private_section_def reads_back_def del: g_to_bytes_contents)
qed



section \<open>What the storage holds of an account\<close>

type_synonym peek_view = "string \<Rightarrow> string \<Rightarrow> bytes option"

definition public_in :: "meta_world \<Rightarrow> peek_view \<Rightarrow> meta_post_public res" where
  "public_in W v = rbind (read_struct (mw_compressor W) (mw_public_json W) (v BUCKET_CONFIG (public_config_key W)))
     (\<lambda>p. Inr (case p of None \<Rightarrow> MetaPostPublic_empty | Some p \<Rightarrow> p))"

definition private_in :: "meta_world \<Rightarrow> peek_view \<Rightarrow> meta_post_private res" where
  "private_in W v = rbind (read_struct (mw_compressor W) (mw_private_json W) (v BUCKET_CONFIG (private_config_key W)))
     (\<lambda>p. Inr (case p of None \<Rightarrow> MetaPostPrivate_empty | Some p \<Rightarrow> p))"

definition cached_profile_in :: "meta_world \<Rightarrow> id \<Rightarrow> peek_view \<Rightarrow> meta_post_public option res" where
  "cached_profile_in W i v = read_struct (mw_compressor W) (mw_public_json W) (v BUCKET_META_POST_PUBLIC (cached_public_key W i))"

lemma config_keys_differ: "public_config_key W \<noteq> private_config_key W" "private_config_key W \<noteq> public_config_key W"
  by (simp_all add: public_config_key_def private_config_key_def config_key_for_user_def
      BUCKET_CONFIG_KEY_META_POST_V1_PUBLIC_def BUCKET_CONFIG_KEY_META_POST_V1_PRIVATE_def)

lemma config_is_not_cache: "BUCKET_CONFIG \<noteq> BUCKET_META_POST_PUBLIC" "BUCKET_META_POST_PUBLIC \<noteq> BUCKET_CONFIG"
  by (simp_all add: storage_buckets)

lemma meta_buckets: "BUCKET_CONFIG \<in> set BUCKETS" "BUCKET_META_POST_PUBLIC \<in> set BUCKETS"
  by (simp_all add: BUCKETS_def)

lemmas meta_keys = config_keys_differ config_is_not_cache meta_buckets

context client_storage_laws
begin

lemma get_public_reads:
  assumes "ready s"
  shows "\<exists>s'. get_public S W s = (s', public_in W (peek s)) \<and> ready s' \<and> peek s' = peek s"
proof -
  obtain s' where "get_struct S (mw_compressor W) (mw_public_json W) BUCKET_CONFIG (public_config_key W) 0 s
      = (s', read_struct (mw_compressor W) (mw_public_json W) (peek s BUCKET_CONFIG (public_config_key W)))" "ready s'" "peek s' = peek s"
    using get_struct_peeks[OF assms meta_buckets(1)] by blast
  then show ?thesis by (auto simp: get_public_def public_in_def cbind_def rbind_def split: sum.splits)
qed

lemma get_private_reads:
  assumes "ready s"
  shows "\<exists>s'. get_private S W s = (s', private_in W (peek s)) \<and> ready s' \<and> peek s' = peek s"
proof -
  obtain s' where "get_struct S (mw_compressor W) (mw_private_json W) BUCKET_CONFIG (private_config_key W) 0 s
      = (s', read_struct (mw_compressor W) (mw_private_json W) (peek s BUCKET_CONFIG (private_config_key W)))" "ready s'" "peek s' = peek s"
    using get_struct_peeks[OF assms meta_buckets(1)] by blast
  then show ?thesis by (auto simp: get_private_def private_in_def cbind_def rbind_def split: sum.splits)
qed

lemma put_public_stores:
  assumes "ready s" "reads_back (mw_compressor W) (mw_public_json W) p"
  shows "\<exists>s'. put_public S W p s = (s', Inr ()) \<and> ready s' \<and> only_changes {(BUCKET_CONFIG, public_config_key W)} (peek s) (peek s')
    \<and> public_in W (peek s') = Inr p"
  using put_struct_stores[OF assms(1) meta_buckets(1) assms(2), of "public_config_key W" 0] by (auto simp: put_public_def public_in_def)

lemma put_private_stores:
  assumes "ready s" "reads_back (mw_compressor W) (mw_private_json W) p"
  shows "\<exists>s'. put_private S W p s = (s', Inr ()) \<and> ready s' \<and> only_changes {(BUCKET_CONFIG, private_config_key W)} (peek s) (peek s')
    \<and> private_in W (peek s') = Inr p"
  using put_struct_stores[OF assms(1) meta_buckets(1) assms(2), of "private_config_key W" 0] by (auto simp: put_private_def private_in_def)

text \<open>The cache holds the received public section if it is newer than the cached one.\<close>

lemma cache_step:
  assumes "ready s"
  shows "\<exists>s' r. cbind (get_struct S (mw_compressor W) (mw_public_json W) BUCKET_META_POST_PUBLIC (cached_public_key W i) now s) (\<lambda>existing s.
      if (case existing of None \<Rightarrow> True | Some b \<Rightarrow> max_timestamp p > max_timestamp b)
      then put_struct S (mw_compressor W) (mw_public_json W) BUCKET_META_POST_PUBLIC (cached_public_key W i) p now s
      else (s, Inr ())) = (s', r) \<and> ready s' \<and> only_changes {(BUCKET_META_POST_PUBLIC, cached_public_key W i)} (peek s) (peek s')
    \<and> (reads_back (mw_compressor W) (mw_public_json W) p \<longrightarrow> (\<forall>c. cached_profile_in W i (peek s) = Inr c \<longrightarrow> r = Inr ()
         \<and> cached_profile_in W i (peek s') = Inr (Some (case c of None \<Rightarrow> p | Some q \<Rightarrow> if max_timestamp p > max_timestamp q then p else q))))"
proof -
  let ?Z = "mw_compressor W" and ?J = "mw_public_json W" and ?b = BUCKET_META_POST_PUBLIC and ?k = "cached_public_key W i"
  obtain s1 where s1: "get_struct S ?Z ?J ?b ?k now s = (s1, cached_profile_in W i (peek s))" "ready s1" "peek s1 = peek s"
    using get_struct_peeks[OF assms meta_buckets(2)] by (metis cached_profile_in_def)
  obtain s2 r2 where s2: "put_struct S ?Z ?J ?b ?k p now s1 = (s2, r2)" by (metis prod.exhaust)
  note f = put_struct_frame[OF s1(2) meta_buckets(2) s2]
  have st: "r2 = Inr () \<and> cached_profile_in W i (peek s2) = Inr (Some p)" if "reads_back ?Z ?J p"
    using put_struct_stores[OF s1(2) meta_buckets(2) that, of ?k now] s2 by (simp add: cached_profile_in_def)
  show ?thesis using s1 s2 f(1,2) st by (cases "cached_profile_in W i (peek s)") (auto split: option.splits)
qed

end


lemma cbind_assoc: "cbind (cbind m f) g = cbind m (\<lambda>x s. cbind (f x s) g)"
  by (auto simp: cbind_def split: prod.splits sum.splits)

lemma process_split:
  "process_incoming_meta_post S W mp author s = cbind (cbind (get_struct S (mw_compressor W) (mw_public_json W) BUCKET_META_POST_PUBLIC
       (cached_public_key W (cid_id author)) (mw_now W) s) (\<lambda>existing s.
      if (case existing of None \<Rightarrow> True | Some b \<Rightarrow> max_timestamp (m1_public mp) > max_timestamp b)
      then put_struct S (mw_compressor W) (mw_public_json W) BUCKET_META_POST_PUBLIC (cached_public_key W (cid_id author)) (m1_public mp) (mw_now W) s
      else (s, Inr ()))) (\<lambda>_. merge_own_post S W mp author)"
  by (simp add: process_incoming_meta_post_def merge_own_post_def cbind_assoc Let_def)

definition own_config_keys :: "meta_world \<Rightarrow> (string \<times> string) set" where
  "own_config_keys W = {(BUCKET_CONFIG, public_config_key W), (BUCKET_CONFIG, private_config_key W)}"

context client_storage_laws
begin

lemma merge_own_frame:
  assumes "ready s" "merge_own_post S W mp author s = (s', r)"
  shows "ready s' \<and> only_changes (if cid_id author = cid_id (mw_client_id W) then own_config_keys W else {}) (peek s) (peek s')"
proof (cases "cid_id author = cid_id (mw_client_id W)")
  case True
  obtain s1 where s1: "get_public S W s = (s1, public_in W (peek s))" "ready s1" "peek s1 = peek s"
    using get_public_reads[OF assms(1)] by blast
  show ?thesis
  proof (cases "public_in W (peek s)")
    case (Inl e)
    then show ?thesis using assms(2) True s1 by (auto simp: merge_own_post_def)
  next
    case (Inr l)
    obtain s2 r2 where s2: "put_public S W (merge_public l (m1_public mp)) s1 = (s2, r2)" by (metis prod.exhaust)
    have f2: "ready s2" "only_changes (own_config_keys W) (peek s) (peek s2)"
      using put_struct_frame[OF s1(2) meta_buckets(1) s2[unfolded put_public_def]] s1(3)
      by (auto simp: own_config_keys_def intro: only_changes_mono)
    obtain s3 where s3: "get_private S W s2 = (s3, private_in W (peek s2))" "ready s3" "peek s3 = peek s2"
      using get_private_reads[OF f2(1)] by blast
    have put: "ready s4 \<and> only_changes (own_config_keys W) (peek s) (peek s4)" if "put_private S W p s3 = (s4, r4)" for p s4 r4
      using put_struct_frame[OF s3(2) meta_buckets(1) that[unfolded put_private_def]] s3(3)
        only_changes_trans[OF f2(2), of "{(BUCKET_CONFIG, private_config_key W)}" "peek s4"]
      by (auto simp: own_config_keys_def intro: only_changes_mono)
    show ?thesis using assms(2) True s1(1) Inr s2 f2 s3 put
      by (auto simp: merge_own_post_def cbind_def split: sum.splits err.splits prod.splits)
  qed
qed (use assms in \<open>auto simp: merge_own_post_def\<close>)

lemma process_frame:
  assumes "ready s" "process_incoming_meta_post S W mp author s = (s', r)"
  shows "ready s' \<and> only_changes ({(BUCKET_META_POST_PUBLIC, cached_public_key W (cid_id author))}
      \<union> (if cid_id author = cid_id (mw_client_id W) then own_config_keys W else {})) (peek s) (peek s')
    \<and> (\<forall>c. cached_profile_in W (cid_id author) (peek s) = Inr c \<longrightarrow> reads_back (mw_compressor W) (mw_public_json W) (m1_public mp)
      \<longrightarrow> cached_profile_in W (cid_id author) (peek s') = Inr (Some (case c of None \<Rightarrow> m1_public mp
            | Some q \<Rightarrow> if max_timestamp (m1_public mp) > max_timestamp q then m1_public mp else q)))"
proof -
  obtain s1 r1 where c: "cbind (get_struct S (mw_compressor W) (mw_public_json W) BUCKET_META_POST_PUBLIC
       (cached_public_key W (cid_id author)) (mw_now W) s) (\<lambda>existing s.
      if (case existing of None \<Rightarrow> True | Some b \<Rightarrow> max_timestamp (m1_public mp) > max_timestamp b)
      then put_struct S (mw_compressor W) (mw_public_json W) BUCKET_META_POST_PUBLIC (cached_public_key W (cid_id author)) (m1_public mp) (mw_now W) s
      else (s, Inr ())) = (s1, r1)" "ready s1"
      "only_changes {(BUCKET_META_POST_PUBLIC, cached_public_key W (cid_id author))} (peek s) (peek s1)"
    and cached: "reads_back (mw_compressor W) (mw_public_json W) (m1_public mp) \<Longrightarrow> cached_profile_in W (cid_id author) (peek s) = Inr c \<Longrightarrow>
      cached_profile_in W (cid_id author) (peek s1) = Inr (Some (case c of None \<Rightarrow> m1_public mp
            | Some q \<Rightarrow> if max_timestamp (m1_public mp) > max_timestamp q then m1_public mp else q))" for c
    using cache_step[OF assms(1), of W "cid_id author" "mw_now W" "m1_public mp"] by blast
  let ?own = "if cid_id author = cid_id (mw_client_id W) then own_config_keys W else {}"
  have run: "cbind (s1, r1) (\<lambda>_. merge_own_post S W mp author) = (s', r)" using assms(2) c(1) by (simp add: process_split)
  have own: "ready s' \<and> only_changes ?own (peek s1) (peek s')"
    using run merge_own_frame[OF c(2)] c(2) by (cases r1) auto
  have "(BUCKET_META_POST_PUBLIC, k) \<notin> ?own" for k using config_is_not_cache by (auto simp: own_config_keys_def)
  then have "peek s' BUCKET_META_POST_PUBLIC = peek s1 BUCKET_META_POST_PUBLIC" using own by (auto simp: only_changes_def)
  then have "cached_profile_in W i (peek s') = cached_profile_in W i (peek s1)" for i by (simp add: cached_profile_in_def)
  then show ?thesis using own only_changes_trans[OF c(3) conjunct2[OF own]] cached by simp
qed

lemma own_post_merges:
  assumes "ready s" "cid_id author = cid_id (mw_client_id W)" "public_in W (peek s) = Inr p" "private_in W (peek s) = Inr v"
    and "cached_profile_in W (cid_id author) (peek s) = Inr c"
    and "decrypt_private_section W (m1_encryption_salt mp) (m1_private_encrypted mp) = Inr v'"
    and rb: "reads_back (mw_compressor W) (mw_public_json W) (m1_public mp)"
      "reads_back (mw_compressor W) (mw_public_json W) (merge_public p (m1_public mp))"
      "reads_back (mw_compressor W) (mw_private_json W) (merge_private v v' (mw_now W))"
  shows "\<exists>s'. process_incoming_meta_post S W mp author s = (s', Inr ()) \<and> ready s'
    \<and> public_in W (peek s') = Inr (merge_public p (m1_public mp)) \<and> private_in W (peek s') = Inr (merge_private v v' (mw_now W))"
proof -
  obtain s1 where c: "cbind (get_struct S (mw_compressor W) (mw_public_json W) BUCKET_META_POST_PUBLIC
       (cached_public_key W (cid_id author)) (mw_now W) s) (\<lambda>existing s.
      if (case existing of None \<Rightarrow> True | Some b \<Rightarrow> max_timestamp (m1_public mp) > max_timestamp b)
      then put_struct S (mw_compressor W) (mw_public_json W) BUCKET_META_POST_PUBLIC (cached_public_key W (cid_id author)) (m1_public mp) (mw_now W) s
      else (s, Inr ())) = (s1, Inr ())" "ready s1"
      "only_changes {(BUCKET_META_POST_PUBLIC, cached_public_key W (cid_id author))} (peek s) (peek s1)"
    using cache_step[OF assms(1), of W "cid_id author" "mw_now W" "m1_public mp"] rb(1) assms(5) by blast
  have same: "peek s1 BUCKET_CONFIG = peek s BUCKET_CONFIG" using c(3) config_is_not_cache by (auto simp: only_changes_def)
  obtain s2 where s2: "get_public S W s1 = (s2, Inr p)" "ready s2" "peek s2 = peek s1"
    using get_public_reads[OF c(2), of W] assms(3) same by (auto simp: public_in_def)
  obtain s3 where s3: "put_public S W (merge_public p (m1_public mp)) s2 = (s3, Inr ())" "ready s3"
      "only_changes {(BUCKET_CONFIG, public_config_key W)} (peek s2) (peek s3)" "public_in W (peek s3) = Inr (merge_public p (m1_public mp))"
    using put_public_stores[OF s2(2) rb(2)] by blast
  have "private_in W (peek s3) = private_in W (peek s)"
    using s3(3) s2(3) same config_keys_differ by (simp add: only_changes_def private_in_def)
  then obtain s4 where s4: "get_private S W s3 = (s4, Inr v)" "ready s4" "peek s4 = peek s3"
    using get_private_reads[OF s3(2), of W] assms(4) by auto
  obtain s5 where s5: "put_private S W (merge_private v v' (mw_now W)) s4 = (s5, Inr ())" "ready s5"
      "only_changes {(BUCKET_CONFIG, private_config_key W)} (peek s4) (peek s5)" "private_in W (peek s5) = Inr (merge_private v v' (mw_now W))"
    using put_private_stores[OF s4(2) rb(3)] by blast
  have "public_in W (peek s5) = public_in W (peek s3)"
    using s5(3) s4(3) config_keys_differ by (simp add: only_changes_def public_in_def)
  then show ?thesis using c(1) s2(1) s3 s4(1) s5 assms(2,6) by (simp add: process_split merge_own_post_def)
qed

lemma build_publishes:
  assumes "ready s" "public_in W (peek s) = Inr p" "private_in W (peek s) = Inr v"
    and "encrypt_private_section W random salt v = Inr text" "reads_back (mw_compressor W) (mw_public_json W) p"
  shows "\<exists>s'. build_meta_post_json S W salt random s = (s', Inr (enc (mw_envelope_json W)
      (MetaPostV1_new (Id_to_hex_str (mw_hex_encode W) (cid_id (mw_client_id W))) salt p text))) \<and> ready s'
    \<and> cached_profile_in W (cid_id (mw_client_id W)) (peek s') = Inr (Some p)"
proof -
  obtain s1 where s1: "get_public S W s = (s1, Inr p)" "ready s1" "peek s1 = peek s" using get_public_reads[OF assms(1), of W] assms(2) by auto
  obtain s2 where s2: "get_private S W s1 = (s2, Inr v)" "ready s2" "peek s2 = peek s1"
    using get_private_reads[OF s1(2), of W] assms(3) s1(3) by auto
  from put_struct_stores[OF s2(2) meta_buckets(2) assms(5), of "cached_public_key W (cid_id (mw_client_id W))" "mw_now W"]
  show ?thesis using s1(1) s2(1) assms(4) by (auto simp: build_meta_post_json_def cached_profile_in_def Let_def)
qed

end

text \<open>A received profile changes one place of the client's storage: the cached public section of its author, which never goes back in
  time. Only a post of the client's own account reaches its settings, the two sections under its configuration keys.\<close>

theorem incoming_meta_post_stays_in_place:
  assumes "mem_client_ready s" "process_incoming_meta_post mem_client_storage W mp author s = (s', r)"
  shows "mem_client_ready s' \<and> (\<forall>b k. mem_client_peek s' b k \<noteq> mem_client_peek s b k \<longrightarrow>
      b = BUCKET_META_POST_PUBLIC \<and> k = cached_public_key W (cid_id author)
      \<or> cid_id author = cid_id (mw_client_id W) \<and> b = BUCKET_CONFIG \<and> k \<in> {public_config_key W, private_config_key W})
    \<and> (\<forall>q. cached_profile_in W (cid_id author) (mem_client_peek s) = Inr (Some q) \<longrightarrow> reads_back (mw_compressor W) (mw_public_json W) (m1_public mp)
      \<longrightarrow> (\<exists>q'. cached_profile_in W (cid_id author) (mem_client_peek s') = Inr (Some q') \<and> max_timestamp q \<le> max_timestamp q' \<and> q' \<in> {q, m1_public mp}))"
proof (intro conjI allI impI)
  note f = mem_client.process_frame[OF assms]
  show "mem_client_ready s'" using f by blast
  fix b k assume "mem_client_peek s' b k \<noteq> mem_client_peek s b k"
  then show "b = BUCKET_META_POST_PUBLIC \<and> k = cached_public_key W (cid_id author)
      \<or> cid_id author = cid_id (mw_client_id W) \<and> b = BUCKET_CONFIG \<and> k \<in> {public_config_key W, private_config_key W}"
    using f by (auto simp: only_changes_def own_config_keys_def split: if_splits)
next
  fix q assume "cached_profile_in W (cid_id author) (mem_client_peek s) = Inr (Some q)" "reads_back (mw_compressor W) (mw_public_json W) (m1_public mp)"
  then have "cached_profile_in W (cid_id author) (mem_client_peek s')
      = Inr (Some (if max_timestamp (m1_public mp) > max_timestamp q then m1_public mp else q))"
    using mem_client.process_frame[OF assms] by auto
  then show "\<exists>q'. cached_profile_in W (cid_id author) (mem_client_peek s') = Inr (Some q') \<and> max_timestamp q \<le> max_timestamp q' \<and> q' \<in> {q, m1_public mp}"
    by (auto intro: less_imp_le split: if_splits)
qed

definition later_world :: "time_millis \<Rightarrow> meta_world \<Rightarrow> meta_world" where
  "later_world t W = W\<lparr>mw_now := t\<rparr>"

lemma later_world_simps [simp]:
  "mw_now (later_world t W) = t" "mw_client_id (later_world t W) = mw_client_id W" "mw_compressor (later_world t W) = mw_compressor W"
  "mw_public_json (later_world t W) = mw_public_json W" "mw_private_json (later_world t W) = mw_private_json W"
  "public_in (later_world t W) = public_in W" "private_in (later_world t W) = private_in W" "cached_profile_in (later_world t W) = cached_profile_in W"
  "decrypt_private_section (later_world t W) = decrypt_private_section W"
  by (simp_all add: later_world_def public_in_def private_in_def cached_profile_in_def fun_eq_iff public_config_key_def private_config_key_def
      cached_public_key_def decrypt_private_section_def derive_meta_post_encryption_key_def)

text \<open>C18: Two devices of one account: the profile one of them builds is a post the other parses, and when it processes the post its public
  and private sections become the merge of both devices'.\<close>

theorem devices_exchange_settings:
  assumes "mem_client_ready sa" "mem_client_ready sb"
    and "public_in W (mem_client_peek sa) = Inr pa" "private_in W (mem_client_peek sa) = Inr va"
    and "public_in W (mem_client_peek sb) = Inr pb" "private_in W (mem_client_peek sb) = Inr vb"
    and "cached_profile_in W (cid_id (mw_client_id W)) (mem_client_peek sb) = Inr c"
    and "encrypt_private_section W (fk, [n], bn) salt va = Inr text" "aead_inverts (mw_aead W)"
    and "length fk = 32" "length n = 12" "length bn = 12" "\<And>x. mw_hex_decode W (mw_hex_encode W x) = Some x"
    and "m = MetaPostV1_new (Id_to_hex_str (mw_hex_encode W) (cid_id (mw_client_id W))) salt pa text"
    and "dec (mw_envelope_json W) (enc (mw_envelope_json W) m) = Some m"
    and "dec (mw_meta_only_json W) (enc (mw_envelope_json W) m) = Some (m1_meta m)" "str_bytes post = enc (mw_envelope_json W) m"
    and "reads_back (mw_compressor W) (mw_public_json W) pa" "reads_back (mw_compressor W) (mw_private_json W) va"
    and "reads_back (mw_compressor W) (mw_public_json W) (merge_public pb pa)"
    and "reads_back (mw_compressor W) (mw_private_json W) (merge_private vb va later)"
  shows "\<exists>sa' sb'. build_meta_post_json mem_client_storage W salt (fk, [n], bn) sa = (sa', Inr (str_bytes post))
    \<and> try_parse_meta_post (mw_meta_only_json W) (mw_envelope_json W) post = Inr (MetaPostV1 m)
    \<and> process_incoming_meta_post mem_client_storage (later_world later W) m (mw_client_id W) sb = (sb', Inr ())
    \<and> snd (get_public mem_client_storage (later_world later W) sb') = Inr (merge_public pb pa)
    \<and> snd (get_private mem_client_storage (later_world later W) sb') = Inr (merge_private vb va later)"
proof -
  let ?W = "later_world later W"
  obtain sa' where sa': "build_meta_post_json mem_client_storage W salt (fk, [n], bn) sa = (sa', Inr (str_bytes post))"
    using mem_client.build_publishes[OF assms(1,3,4,8,18)] assms(14,17) by auto
  have parse: "try_parse_meta_post (mw_meta_only_json W) (mw_envelope_json W) post = Inr (MetaPostV1 m)"
    using assms(14-17) by (simp add: try_parse_meta_post_def MetaPostV1_new_def META_POST_V1_META_def)
  have m: "m1_public m = pa" "m1_encryption_salt m = salt" "m1_private_encrypted m = text" by (simp_all add: assms(14) MetaPostV1_new_def)
  have "decrypt_private_section W salt text = Inr va" by (rule private_section_roundtrip[OF assms(8-12,19,13)])
  then obtain sb' where sb': "process_incoming_meta_post mem_client_storage ?W m (mw_client_id W) sb = (sb', Inr ())" "mem_client_ready sb'"
      "public_in ?W (mem_client_peek sb') = Inr (merge_public pb pa)" "private_in ?W (mem_client_peek sb') = Inr (merge_private vb va later)"
    using mem_client.own_post_merges[OF assms(2), of "mw_client_id W" ?W pb vb c m va] assms(5-7,18,20,21) by (auto simp: m)
  have "snd (get_public mem_client_storage ?W sb') = Inr (merge_public pb pa)"
    using mem_client.get_public_reads[OF sb'(2), of ?W] sb'(3) by auto
  moreover have "snd (get_private mem_client_storage ?W sb') = Inr (merge_private vb va later)"
    using mem_client.get_private_reads[OF sb'(2), of ?W] sb'(4) by auto
  ultimately show ?thesis using sa' parse sb'(1) by blast
qed

text \<open>The follows a client sets are those it reads.\<close>

lemma bury_keys: "map fst (bury_followed t es) = map fst es" "followed_keys (bury_followed t es) = []"
  by (induction es) (auto simp: bury_followed_def followed_keys_def tombstone_def split: if_splits)

lemma followed_keys_iff:
  "distinct (map fst es) \<Longrightarrow> k \<in> set (followed_keys es) \<longleftrightarrow> (\<exists>f. map_of es k = Some f \<and> vf_value f = Some True)"
  by (fastforce simp: followed_keys_def image_iff)

lemma followed_keys_update:
  "distinct (map fst es) \<Longrightarrow> set (followed_keys (AList.update k (VersionedField_new True t) es)) = insert k (set (followed_keys es))"
  by (auto simp: set_eq_iff followed_keys_iff distinct_update update_conv' VersionedField_new_def)

lemma set_followed_keys:
  assumes "distinct (map fst es)"
  shows "set (followed_keys (set_followed t ks es)) = set ks" "distinct (map fst (set_followed t ks es))"
proof -
  have "distinct (map fst fs) \<Longrightarrow> set (followed_keys (fold (\<lambda>k. AList.update k (VersionedField_new True t)) ks fs)) = set ks \<union> set (followed_keys fs)
      \<and> distinct (map fst (fold (\<lambda>k. AList.update k (VersionedField_new True t)) ks fs))" for fs
    by (induction ks arbitrary: fs) (auto simp: followed_keys_update distinct_update)
  from this[of "bury_followed t es"] assms
  show "set (followed_keys (set_followed t ks es)) = set ks" "distinct (map fst (set_followed t ks es))"
    by (simp_all add: set_followed_def bury_keys)
qed

end
