(* ===== verification/PlainText.thy ===== *)
theory PlainText
  imports EncodedPost
begin

text \<open>
  \<open>lib/tools/plain_text_post.rs\<close>: plain text to the HTML of a post, and the HTML of a link preview. A character of a \<open>str\<close> is
  its UTF-8 sequence, a \<^typ>\<open>string\<close>; the Unicode tables behind \<open>is_alphanumeric\<close> for characters outside ASCII and
  \<open>to_lowercase\<close> are parameters.
\<close>

section \<open>Characters\<close>

definition continuation :: "char \<Rightarrow> bool" where
  "continuation c \<longleftrightarrow> 128 \<le> (of_char c :: nat) \<and> (of_char c :: nat) < 192"

function chars :: "string \<Rightarrow> string list" where
  "chars [] = []"
| "chars (c # cs) = (c # takeWhile continuation cs) # chars (dropWhile continuation cs)"
  by pat_completeness auto
termination by (relation "measure length") (auto simp: le_imp_less_Suc length_dropWhile_le)

definition is_hex_char :: "string \<Rightarrow> bool" where
  "is_hex_char c = (case c of [b] \<Rightarrow> b \<in> set ''0123456789abcdefABCDEF'' | _ \<Rightarrow> False)"

definition is_alphanumeric :: "(string \<Rightarrow> bool) \<Rightarrow> string \<Rightarrow> bool" where
  "is_alphanumeric unicode_alnum c = (case c of
     [b] \<Rightarrow> b \<in> set ''0123456789abcdefghijklmnopqrstuvwxyzABCDEFGHIJKLMNOPQRSTUVWXYZ''
   | _ \<Rightarrow> unicode_alnum c)"


section \<open>The conversion\<close>

definition escape_char :: "string \<Rightarrow> string" where
  "escape_char c =
     (if c = ''&'' then ''&amp;'' else if c = ''<'' then ''&lt;'' else if c = ''>'' then ''&gt;''
      else if c = [CHR 0x22] then ''&quot;'' else c)"

definition html_escape :: "string \<Rightarrow> string" where
  "html_escape s = concat (map escape_char (chars s))"

definition x_hashtag :: "(string \<Rightarrow> bool) \<Rightarrow> (string \<Rightarrow> string) \<Rightarrow> string \<Rightarrow> string" where
  "x_hashtag unicode_alnum lower hashtag =
     (let stripped = (case hashtag of c # cs \<Rightarrow> if c = CHR ''#'' then cs else hashtag | [] \<Rightarrow> hashtag)
      in if stripped = [] \<or> \<not> list_all (is_alphanumeric unicode_alnum) (chars stripped) then hashtag
         else ''<hashtag hashtag='' @ [CHR 0x22] @ lower stripped @ [CHR 0x22] @ ''><span class='' @ [CHR 0x22]
           @ ''plugin-hashtag-left'' @ [CHR 0x22] @ ''>#</span><span class='' @ [CHR 0x22] @ ''plugin-hashtag-right''
           @ [CHR 0x22] @ ''>'' @ stripped @ ''</span></hashtag>'')"

definition x_mention :: "string \<Rightarrow> string" where
  "x_mention client_id = ''<mention client_id='' @ [CHR 0x22] @ client_id @ [CHR 0x22] @ ''></mention>''"

text \<open>The inner loops take the longest run, the one for a mention at most 64 characters.\<close>

function convert_chars :: "(string \<Rightarrow> bool) \<Rightarrow> (string \<Rightarrow> string) \<Rightarrow> string list \<Rightarrow> string" where
  "convert_chars u lower [] = []"
| "convert_chars u lower (c # cs) =
     (if c = ''#'' then
        (let hashtag_text = takeWhile (is_alphanumeric u) cs
         in if hashtag_text \<noteq> [] then x_hashtag u lower (concat hashtag_text) @ convert_chars u lower (drop (length hashtag_text) cs)
            else ''#'' @ convert_chars u lower cs)
      else if c = ''@'' then
        (let hex = takeWhile is_hex_char (take 64 cs); rest = drop (length hex) cs
         in if length hex = 64 \<and> (rest = [] \<or> \<not> is_hex_char (hd rest))
            then x_mention (concat hex) @ convert_chars u lower rest
            else ''@'' @ convert_chars u lower cs)
      else if c = [CHR 10] then ''<br>'' @ convert_chars u lower cs
      else if c = [CHR 13] then convert_chars u lower cs
      else c @ convert_chars u lower cs)"
  by pat_completeness auto
termination by (relation "measure (\<lambda>(u, lower, cs). length cs)") auto

definition convert_text_to_hashiverse_html :: "(string \<Rightarrow> bool) \<Rightarrow> (string \<Rightarrow> string) \<Rightarrow> string \<Rightarrow> string" where
  "convert_text_to_hashiverse_html u lower s = convert_chars u lower (chars (html_escape s))"


section \<open>Link previews\<close>

text \<open>\<open>split_once\<close>: what follows the first occurrence.\<close>

fun after_first :: "string \<Rightarrow> string \<Rightarrow> string option" where
  "after_first sep s = (if take (length sep) s = sep then Some (drop (length sep) s)
     else (case s of [] \<Rightarrow> None | _ # cs \<Rightarrow> after_first sep cs))"

declare after_first.simps [simp del]

definition extract_host_or_url :: "string \<Rightarrow> string" where
  "extract_host_or_url url = (case after_first ''://'' url of
     None \<Rightarrow> url
   | Some rest \<Rightarrow> (let host = takeWhile (\<lambda>c. c \<notin> set ''/?#'') rest in if host = [] then url else host))"

definition attr :: "string \<Rightarrow> string \<Rightarrow> string" where
  "attr name v = '' '' @ name @ ''='' @ [CHR 0x22] @ v @ [CHR 0x22]"

definition domain_div :: "string \<Rightarrow> string" where
  "domain_div url = ''<div'' @ attr ''class'' ''plugin-urlpreview-card-domain'' @ ''>'' @ html_escape (extract_host_or_url url) @ ''</div>''"

definition x_url_preview :: "string \<Rightarrow> string \<Rightarrow> string \<Rightarrow> string \<Rightarrow> string" where
  "x_url_preview title description image_url url =
     ''<div'' @ attr ''class'' ''plugin-urlpreview-card'' @ ''>''
     @ (if image_url = [] then []
        else ''<div'' @ attr ''class'' ''plugin-urlpreview-card-image-container'' @ ''>''
          @ ''<a'' @ attr ''class'' ''plugin-urlpreview-card-image-link'' @ attr ''href'' (html_escape url)
          @ attr ''rel'' ''noopener noreferrer nofollow'' @ ''><img'' @ attr ''src'' (html_escape image_url) @ attr ''alt'' []
          @ attr ''class'' ''plugin-urlpreview-card-image unblur-image'' @ ''></a>'' @ domain_div url @ ''</div>'')
     @ ''<div'' @ attr ''class'' ''plugin-urlpreview-card-inner'' @ ''>''
     @ (if image_url = [] then domain_div url else [])
     @ ''<a'' @ attr ''class'' ''plugin-urlpreview-card-title'' @ attr ''href'' (html_escape url)
     @ attr ''rel'' ''noopener noreferrer nofollow'' @ ''>'' @ html_escape title @ ''</a>''
     @ (if description = [] then []
        else ''<div'' @ attr ''class'' ''plugin-urlpreview-card-description'' @ ''>'' @ html_escape description @ ''</div>'')
     @ ''</div></div>''"


section \<open>Escaping\<close>

lemma concat_chars [simp]: "concat (chars s) = s"
  by (induction s rule: chars.induct) simp_all

lemma chars_nonempty: "c \<in> set (chars s) \<Longrightarrow> c \<noteq> []"
  by (induction s rule: chars.induct) auto

lemma takeWhile_stop: "t = [] \<or> \<not> P (hd t) \<Longrightarrow> takeWhile P (xs @ t) = takeWhile P xs"
  by (induction xs) (cases t; simp)+

lemma dropWhile_stop: "t = [] \<or> \<not> P (hd t) \<Longrightarrow> dropWhile P (xs @ t) = dropWhile P xs @ t"
  by (induction xs) (cases t; simp)+

text \<open>The encoding of one character, and of a text: a byte below 128, or a leading byte and continuations.\<close>

definition one_char :: "string \<Rightarrow> bool" where
  "one_char c \<longleftrightarrow> c \<noteq> [] \<and> list_all continuation (tl c)
     \<and> (if tl c = [] then (of_char (hd c) :: nat) < 128 else 192 \<le> (of_char (hd c) :: nat))"

lemma one_char_hd: "one_char c \<Longrightarrow> c \<noteq> [] \<and> \<not> continuation (hd c)"
  by (auto simp: one_char_def continuation_def split: if_splits)

definition starts_char :: "string \<Rightarrow> bool" where
  "starts_char s \<longleftrightarrow> s = [] \<or> \<not> continuation (hd s)"

lemma takeWhile_all: "list_all P xs \<Longrightarrow> takeWhile P (xs @ t) = xs @ takeWhile P t \<and> dropWhile P (xs @ t) = dropWhile P t"
  by (induction xs) auto

lemma chars_one_char: "one_char c \<Longrightarrow> starts_char t \<Longrightarrow> chars (c @ t) = c # chars t"
proof -
  assume c: "one_char c" and t: "starts_char t"
  obtain b bs where bs: "c = b # bs" "list_all continuation bs" using c by (cases c) (auto simp: one_char_def)
  have "takeWhile continuation t = []" "dropWhile continuation t = t" using t by (cases t; simp add: starts_char_def)+
  then show ?thesis using takeWhile_all[OF bs(2), of t] by (simp add: bs(1))
qed

lemma chars_concat: "list_all one_char cs \<Longrightarrow> chars (concat cs) = cs \<and> starts_char (concat cs)"
proof (induction cs)
  case (Cons c cs)
  then have c: "one_char c" and IH: "chars (concat cs) = cs" "starts_char (concat cs)" by simp_all
  have "starts_char (concat (c # cs))" using one_char_hd[OF c] by (cases c) (simp_all add: starts_char_def)
  then show ?case using chars_one_char[OF c IH(2)] IH(1) by simp
qed (simp add: starts_char_def)

lemma one_char_ascii: "one_char [b] \<longleftrightarrow> (of_char b :: nat) < 128"
  by (simp add: one_char_def)

text \<open>The characters of an escaped text.\<close>

definition escaped_chars :: "string \<Rightarrow> string list" where
  "escaped_chars c = (if escape_char c = c then [c] else map (\<lambda>b. [b]) (escape_char c))"

lemma escaped_chars_simps:
  "concat (escaped_chars c) = escape_char c" "one_char c \<Longrightarrow> list_all one_char (escaped_chars c)"
  by (auto simp: escaped_chars_def escape_char_def one_char_ascii)

lemma utf8_valid_splits:
  assumes "utf8_valid (map of_char s)" "s \<noteq> []"
  obtains g t where "s = g @ t" "one_char g" "utf8_valid (map of_char t)" "length t < length s"
proof -
  obtain c cs where s: "s = c # cs" using assms(2) by (cases s) auto
  define a where "a = (of_char c :: nat)"
  have v: "utf8_valid (a # map of_char cs)" using assms(1) by (simp add: s a_def)
  consider "a < 128" | "194 \<le> a" "a < 224" | "224 \<le> a" "a < 240" | "240 \<le> a" "a < 245"
    using v by (auto simp: Let_def split: if_splits)
  then show ?thesis
  proof cases
    case 1
    then show ?thesis using that[of "[c]" cs] v by (simp add: s one_char_def a_def)
  next
    case 2
    then obtain b t where "cs = b # t" "continuation b" "utf8_valid (map of_char t)"
      using v by (cases cs) (auto simp: Let_def continuation_def)
    then show ?thesis using that[of "[c, b]" t] 2 by (simp add: s one_char_def a_def)
  next
    case 3
    then obtain b d t where "cs = b # d # t" "continuation b" "continuation d" "utf8_valid (map of_char t)"
      using v by (cases cs; cases "tl cs") (auto simp: Let_def continuation_def)
    then show ?thesis using that[of "[c, b, d]" t] 3 by (simp add: s one_char_def a_def)
  next
    case 4
    then obtain b d e t where "cs = b # d # e # t" "continuation b" "continuation d" "continuation e" "utf8_valid (map of_char t)"
      using v by (cases cs; cases "tl cs"; cases "tl (tl cs)") (auto simp: Let_def continuation_def)
    then show ?thesis using that[of "[c, b, d, e]" t] 4 by (simp add: s one_char_def a_def)
  qed
qed

lemma utf8_chars:
  assumes "is_utf8 s" shows "list_all one_char (chars s)"
proof -
  have bytes: "map unat (str_bytes s) = map of_char s"
    by (simp add: str_bytes_def) (simp add: unat_byte_of_nat)
  have "utf8_valid (map of_char s) \<Longrightarrow> list_all one_char (chars s) \<and> starts_char s" for s
  proof (induction "length s" arbitrary: s rule: less_induct)
    case less
    show ?case
    proof (cases "s = []")
      case False
      then obtain g t where g: "s = g @ t" "one_char g" "utf8_valid (map of_char t)" "length t < length s"
        using utf8_valid_splits[OF less.prems] by metis
      have "list_all one_char (chars t)" "starts_char t" using less.hyps[OF g(4,3)] by simp_all
      moreover have "starts_char s" using one_char_hd[OF g(2)] by (cases g) (simp_all add: g(1) starts_char_def)
      ultimately show ?thesis using chars_one_char[OF g(2)] g(1,2) by simp
    qed (simp add: starts_char_def)
  qed
  then show ?thesis using assms by (simp add: is_utf8_def bytes)
qed

lemma concat_map_concat_chars: "concat (map f xs) = concat (concat (map g xs))" if "\<And>x. concat (g x) = f x" for f :: "string \<Rightarrow> string" and g
  using that by (induction xs) simp_all

lemma chars_html_escape:
  assumes "is_utf8 s"
  shows "chars (html_escape s) = concat (map escaped_chars (chars s))"
proof -
  have "html_escape s = concat (concat (map escaped_chars (chars s)))"
    unfolding html_escape_def by (rule concat_map_concat_chars) (rule escaped_chars_simps(1))
  moreover have "list_all one_char (concat (map escaped_chars (chars s)))"
    using utf8_chars[OF assms] escaped_chars_simps(2) by (auto simp: list_all_iff)
  ultimately show ?thesis using chars_concat by simp
qed

definition markup :: "char set" where "markup = {CHR ''<'', CHR ''>'', CHR 0x22}"


section \<open>What a text becomes\<close>

text \<open>The pieces of the text itself, before any escaping, with what each is in the text and in the post.\<close>

datatype piece = Plain string | Tag "string list" | Mention "string list" | Break | Dropped

definition tag_run :: "(string \<Rightarrow> bool) \<Rightarrow> string \<Rightarrow> string list \<Rightarrow> string list" where
  "tag_run u c cs = (if c = ''#'' then takeWhile (is_alphanumeric u) cs else [])"

text \<open>A mention is a run of exactly 64 hexadecimal digits.\<close>

definition mention_run :: "string \<Rightarrow> string list \<Rightarrow> string list" where
  "mention_run c cs = (if c = ''@'' \<and> length (takeWhile is_hex_char cs) = 64 then takeWhile is_hex_char cs else [])"

function pieces :: "(string \<Rightarrow> bool) \<Rightarrow> string list \<Rightarrow> piece list" where
  "pieces u [] = []"
| "pieces u (c # cs) =
     (if tag_run u c cs \<noteq> [] then Tag (tag_run u c cs) # pieces u (drop (length (tag_run u c cs)) cs)
      else if mention_run c cs \<noteq> [] then Mention (mention_run c cs) # pieces u (drop (length (mention_run c cs)) cs)
      else (if c = [CHR 10] then Break else if c = [CHR 13] then Dropped else Plain c) # pieces u cs)"
  by pat_completeness auto
termination by (relation "measure (\<lambda>(u, cs). length cs)") auto

fun source :: "piece \<Rightarrow> string" where
  "source (Plain c) = c" | "source (Tag t) = ''#'' @ concat t" | "source (Mention h) = ''@'' @ concat h"
| "source Break = [CHR 10]" | "source Dropped = [CHR 13]"

fun render :: "(string \<Rightarrow> string) \<Rightarrow> piece \<Rightarrow> string" where
  "render lower (Plain c) = escape_char c"
| "render lower (Tag t) = ''<hashtag hashtag='' @ [CHR 0x22] @ lower (concat t) @ [CHR 0x22] @ ''><span class='' @ [CHR 0x22]
     @ ''plugin-hashtag-left'' @ [CHR 0x22] @ ''>#</span><span class='' @ [CHR 0x22] @ ''plugin-hashtag-right''
     @ [CHR 0x22] @ ''>'' @ concat t @ ''</span></hashtag>''"
| "render lower (Mention h) = x_mention (concat h)"
| "render lower Break = ''<br>''"
| "render lower Dropped = []"

fun piece_ok :: "(string \<Rightarrow> bool) \<Rightarrow> piece \<Rightarrow> bool" where
  "piece_ok u (Plain c) \<longleftrightarrow> one_char c \<and> set (escape_char c) \<inter> markup = {}"
| "piece_ok u (Tag t) \<longleftrightarrow> t \<noteq> [] \<and> list_all (is_alphanumeric u) t"
| "piece_ok u (Mention h) \<longleftrightarrow> length h = 64 \<and> list_all is_hex_char h"
| "piece_ok u _ \<longleftrightarrow> True"

lemma runs:
  "tag_run u c cs \<noteq> [] \<Longrightarrow> c = ''#'' \<and> list_all (is_alphanumeric u) (tag_run u c cs)
     \<and> tag_run u c cs @ drop (length (tag_run u c cs)) cs = cs"
  "mention_run c cs \<noteq> [] \<Longrightarrow> c = ''@'' \<and> length (mention_run c cs) = 64 \<and> list_all is_hex_char (mention_run c cs)
     \<and> mention_run c cs @ drop (length (mention_run c cs)) cs = cs"
proof -
  have run: "list_all P (takeWhile P cs) \<and> takeWhile P cs @ drop (length (takeWhile P cs)) cs = cs" for P :: "string \<Rightarrow> bool"
    by (simp add: dropWhile_eq_drop[symmetric] list_all_iff) (meson set_takeWhileD)
  show "tag_run u c cs \<noteq> [] \<Longrightarrow> c = ''#'' \<and> list_all (is_alphanumeric u) (tag_run u c cs)
      \<and> tag_run u c cs @ drop (length (tag_run u c cs)) cs = cs"
    using run by (simp add: tag_run_def split: if_splits)
  show "mention_run c cs \<noteq> [] \<Longrightarrow> c = ''@'' \<and> length (mention_run c cs) = 64 \<and> list_all is_hex_char (mention_run c cs)
      \<and> mention_run c cs @ drop (length (mention_run c cs)) cs = cs"
    using run[of is_hex_char] by (cases "c = ''@'' \<and> length (takeWhile is_hex_char cs) = 64") (auto simp: mention_run_def)
qed

lemma concat_prefix: "r @ s = cs \<Longrightarrow> concat r @ concat s = concat cs"
  by auto

text \<open>Nothing of the text is lost or moved.\<close>

lemma source_pieces: "concat (map source (pieces u cs)) = concat cs"
proof (induction u cs rule: pieces.induct)
  case (2 u c cs)
  consider "tag_run u c cs \<noteq> []" | "tag_run u c cs = []" "mention_run c cs \<noteq> []" | "tag_run u c cs = []" "mention_run c cs = []"
    by blast
  then show ?case
  proof cases
    case 1
    then have "concat (map source (pieces u (c # cs))) = ''#'' @ concat (tag_run u c cs) @ concat (drop (length (tag_run u c cs)) cs)"
      using "2.IH"(1) by simp
    moreover have "c = ''#''" "concat (tag_run u c cs) @ concat (drop (length (tag_run u c cs)) cs) = concat cs"
      using runs(1)[OF 1] concat_prefix by blast+
    ultimately show ?thesis by (simp only: concat.simps)
  next
    case 2
    then have "concat (map source (pieces u (c # cs))) = ''@'' @ concat (mention_run c cs) @ concat (drop (length (mention_run c cs)) cs)"
      using "2.IH"(2) by simp
    moreover have "c = ''@''" "concat (mention_run c cs) @ concat (drop (length (mention_run c cs)) cs) = concat cs"
      using runs(2)[OF 2(2)] concat_prefix by blast+
    ultimately show ?thesis by (simp only: concat.simps)
  qed (use "2.IH"(3) in simp)
qed simp

lemma one_char_markup:
  assumes "one_char c" shows "set (escape_char c) \<inter> markup = {}"
proof (cases "escape_char c = c")
  case True
  obtain b bs where c: "c = b # bs" "list_all continuation bs" "bs = [] \<or> 192 \<le> (of_char b :: nat)"
    using assms by (cases c) (auto simp: one_char_def split: if_splits)
  have ascii: "\<not> continuation x \<and> (of_char x :: nat) < 192" if "x \<in> markup" for x using that by (auto simp: markup_def continuation_def)
  have "b \<notin> markup" using True ascii[of b] c(3) by (auto simp: c(1) escape_char_def markup_def)
  then show ?thesis using c(1,2) True ascii by (auto simp: list_all_iff)
qed (auto simp: escape_char_def markup_def split: if_splits)

lemma pieces_are_ok: "list_all one_char cs \<Longrightarrow> list_all (piece_ok u) (pieces u cs)"
proof (induction u cs rule: pieces.induct)
  case (2 u c cs)
  have rest: "list_all one_char (drop n cs)" for n using 2(4) by (auto simp: list_all_iff dest: in_set_dropD)
  consider "tag_run u c cs \<noteq> []" | "tag_run u c cs = []" "mention_run c cs \<noteq> []" | "tag_run u c cs = []" "mention_run c cs = []"
    by blast
  then show ?case
  proof cases
    case 1
    then have "pieces u (c # cs) = Tag (tag_run u c cs) # pieces u (drop (length (tag_run u c cs)) cs)" by simp
    moreover have "list_all (is_alphanumeric u) (tag_run u c cs)" using runs(1)[OF 1] by blast
    ultimately show ?thesis using "2.IH"(1)[OF 1 rest] 1 by simp
  next
    case 2
    then have "pieces u (c # cs) = Mention (mention_run c cs) # pieces u (drop (length (mention_run c cs)) cs)" by simp
    moreover have "length (mention_run c cs) = 64 \<and> list_all is_hex_char (mention_run c cs)" using runs(2)[OF 2(2)] by blast
    moreover have "list_all (piece_ok u) (pieces u (drop (length (mention_run c cs)) cs))" using "2.IH"(2) 2 rest by simp
    ultimately show ?thesis by simp
  qed (use "2.IH"(3) "2.prems" one_char_markup[of c] in simp)
qed simp

text \<open>Escaping changes no character of a run and ends none later.\<close>

abbreviation escape_chars :: "string list \<Rightarrow> string list" where
  "escape_chars cs \<equiv> concat (map escaped_chars cs)"

definition untouched :: "(string \<Rightarrow> bool) \<Rightarrow> bool" where
  "untouched P \<longleftrightarrow> \<not> P ''&'' \<and> \<not> P ''<'' \<and> \<not> P ''>'' \<and> \<not> P [CHR 0x22]"

lemma untouched_classes: "untouched (is_alphanumeric u)" "untouched is_hex_char"
  by (simp_all add: untouched_def is_alphanumeric_def is_hex_char_def)

lemma escaped_head:
  assumes "untouched P"
  shows "(P c \<longrightarrow> escaped_chars c = [c]) \<and> (\<exists>d ds. escaped_chars c = d # ds \<and> (P d \<longrightarrow> P c))"
  using assms by (auto simp: untouched_def escaped_chars_def escape_char_def)

lemma run_escaped:
  assumes "untouched P"
  shows "takeWhile P (escape_chars cs) = takeWhile P cs
    \<and> (n \<le> length (takeWhile P cs) \<longrightarrow> drop n (escape_chars cs) = escape_chars (drop n cs))"
proof (induction cs arbitrary: n)
  case (Cons c cs)
  obtain d ds where d: "P c \<longrightarrow> escaped_chars c = [c]" "escaped_chars c = d # ds" "P d \<longrightarrow> P c"
    using escaped_head[OF assms] by blast
  show ?case
  proof (cases "P c")
    case True
    then show ?thesis using d(1) Cons by (cases n) simp_all
  qed (use d(2,3) in simp)
qed simp

lemma hashtag_run:
  assumes "t \<noteq> []" "list_all (is_alphanumeric u) t" "list_all one_char t"
  shows "x_hashtag u lower (concat t) = render lower (Tag t)"
proof -
  obtain b bs ts where t: "t = (b # bs) # ts" using assms by (cases t) (auto simp: one_char_def neq_Nil_conv)
  have "b \<noteq> CHR ''#''" using assms(2,3) by (auto simp: t is_alphanumeric_def one_char_def split: list.splits if_splits)
  then show ?thesis using assms chars_concat[OF assms(3)] by (simp add: x_hashtag_def t)
qed

lemma convert_other:
  assumes "c \<notin> {''#'', ''@'', [CHR 10], [CHR 13]}"
  shows "convert_chars u lower (escaped_chars c @ cs) = escape_char c @ convert_chars u lower cs"
  using assms by (cases "escape_char c = c") (auto simp: escaped_chars_def escape_char_def split: if_splits)

lemma not_escaped: "c \<in> {''#'', ''@'', [CHR 10], [CHR 13]} \<Longrightarrow> escaped_chars c = [c] \<and> escape_char c = c"
  by (auto simp: escaped_chars_def escape_char_def)

text \<open>The bounded loop and the look at the next character find the runs of exactly \<open>n\<close>.\<close>

lemma exact_run:
  "length (takeWhile P (take n cs)) = n \<and> (drop n cs = [] \<or> \<not> P (hd (drop n cs))) \<longleftrightarrow> length (takeWhile P cs) = n"
proof (induction cs arbitrary: n)
  case (Cons c cs)
  then show ?case by (cases n) auto
qed auto

lemma mention_chars:
  "convert_chars u lower (''@'' # cs) =
     (if length (takeWhile is_hex_char cs) = 64
      then x_mention (concat (takeWhile is_hex_char cs)) @ convert_chars u lower (drop 64 cs)
      else ''@'' @ convert_chars u lower cs)"
proof -
  let ?h = "takeWhile is_hex_char (take 64 cs)"
  have run: "(length ?h = 64 \<and> (drop (length ?h) cs = [] \<or> \<not> is_hex_char (hd (drop (length ?h) cs)))) = (length (takeWhile is_hex_char cs) = 64)"
    using exact_run[of is_hex_char 64 cs] by auto
  have "?h = takeWhile is_hex_char cs" if "length (takeWhile is_hex_char cs) = 64"
    using that exact_run[of is_hex_char 64 cs] by (metis length_take min.idem order_refl take_all takeWhile_eq_take take_take)
  then show ?thesis using run by (simp add: Let_def)
qed

lemma convert_is_pieces:
  "list_all one_char cs \<Longrightarrow> convert_chars u lower (escape_chars cs) = concat (map (render lower) (pieces u cs))"
proof (induction u cs rule: pieces.induct)
  case (2 u c cs)
  have rest: "list_all one_char (drop n cs)" for n using 2(4) by (auto simp: list_all_iff dest: in_set_dropD)
  note run = run_escaped[OF untouched_classes(1), of u cs] run_escaped[OF untouched_classes(2), of cs]
  consider "tag_run u c cs \<noteq> []" | "tag_run u c cs = []" "mention_run c cs \<noteq> []" | "tag_run u c cs = []" "mention_run c cs = []"
    by blast
  then show ?case
  proof cases
    case 1
    then have c: "c = ''#''" "tag_run u c cs = takeWhile (is_alphanumeric u) cs" by (simp_all add: tag_run_def split: if_splits)
    let ?t = "takeWhile (is_alphanumeric u) cs"
    have t: "?t \<noteq> []" "list_all (is_alphanumeric u) ?t" "list_all one_char ?t"
      using 1 runs(1)[OF 1] "2.prems" c(2) by (auto simp: list_all_iff dest: set_takeWhileD)
    have "escape_chars (c # cs) = ''#'' # escape_chars cs" using not_escaped[of c] c(1) by simp
    then have "convert_chars u lower (escape_chars (c # cs))
        = render lower (Tag ?t) @ convert_chars u lower (escape_chars (drop (length ?t) cs))"
      using t(1) run(1)[of "length ?t"] hashtag_run[OF t, of lower] by (simp only:) (simp add: Let_def)
    moreover have "convert_chars u lower (escape_chars (drop (length ?t) cs))
        = concat (map (render lower) (pieces u (drop (length ?t) cs)))" using "2.IH"(1)[OF 1 rest] c(2) by simp
    ultimately show ?thesis using 1 c(2) by simp
  next
    case 2
    then have c: "c = ''@''" "mention_run c cs = takeWhile is_hex_char cs" "length (takeWhile is_hex_char cs) = 64"
      by (simp_all add: mention_run_def split: if_splits)
    have "convert_chars u lower (escape_chars (drop 64 cs)) = concat (map (render lower) (pieces u (drop 64 cs)))"
      using "2.IH"(2)[OF _ 2(2) rest] 2(1) c(2,3) by simp
    then show ?thesis using 2 run(2)[of 64] not_escaped[of c] c(2,3)
      by (simp add: c(1) mention_chars del: convert_chars.simps(2))
  next
    case 3
    have IH: "convert_chars u lower (escape_chars cs) = concat (map (render lower) (pieces u cs))"
      using "2.IH"(3) 3 rest[of 0] by simp
    consider "c = ''#''" | "c = ''@''" | "c = [CHR 10]" | "c = [CHR 13]" | "c \<notin> {''#'', ''@'', [CHR 10], [CHR 13]}" by blast
    then show ?thesis
    proof cases
      case 2
      then have "length (takeWhile is_hex_char (escape_chars cs)) \<noteq> 64" using 3(2) run(2) by (auto simp: mention_run_def)
      then show ?thesis using 2 3 IH not_escaped[of c] by (simp add: mention_chars del: convert_chars.simps(2))
    next
      case 1
      then have "takeWhile (is_alphanumeric u) (escape_chars cs) = []" using 3(1) run(1) by (simp add: tag_run_def)
      then show ?thesis using 1 3 IH not_escaped[of c] by simp
    qed (use 3 IH not_escaped[of c] convert_other[of c u lower "escape_chars cs"] in simp_all)
  qed
qed simp

text \<open>C37: A post made from plain text: it is the pieces of the text one after the other, none of the text lost. Hashtags are runs of
  letters and digits, mentions have exactly 64 hexadecimal digits, and what is neither brings no angle bracket and no quote.\<close>

theorem plain_text_becomes_pieces:
  assumes "is_utf8 s"
  shows "convert_text_to_hashiverse_html u lower s = concat (map (render lower) (pieces u (chars s)))
    \<and> concat (map source (pieces u (chars s))) = s
    \<and> list_all (piece_ok u) (pieces u (chars s))"
  using assms utf8_chars[OF assms] convert_is_pieces[of "chars s" u lower] pieces_are_ok[of "chars s" u] source_pieces[of u "chars s"]
  by (simp add: convert_text_to_hashiverse_html_def chars_html_escape)

theorem plain_text_becomes_pieces_witness:
  "convert_text_to_hashiverse_html (\<lambda>c. False) id ''<b> #Rust!'' =
     ''&lt;b&gt; <hashtag hashtag='' @ [CHR 0x22] @ ''Rust'' @ [CHR 0x22] @ ''><span class='' @ [CHR 0x22]
     @ ''plugin-hashtag-left'' @ [CHR 0x22] @ ''>#</span><span class='' @ [CHR 0x22] @ ''plugin-hashtag-right''
     @ [CHR 0x22] @ ''>Rust</span></hashtag>!''"
proof -
  have "is_utf8 ''<b> #Rust!''" by (simp add: is_utf8_def str_bytes_def)
  moreover have "pieces (\<lambda>c. False) (chars ''<b> #Rust!'') =
      map Plain [''<'', ''b'', ''>'', '' ''] @ [Tag [''R'', ''u'', ''s'', ''t''], Plain ''!'']"
    by (simp add: continuation_def tag_run_def mention_run_def is_alphanumeric_def)
  ultimately show ?thesis
    using plain_text_becomes_pieces[of "''<b> #Rust!''" "\<lambda>c. False" id] by (simp add: escape_char_def)
qed


section \<open>No field of a preview brings markup\<close>

text \<open>A text in which no markup character is followed by a continuation, as in any part of a valid one.\<close>

definition clean :: "string \<Rightarrow> bool" where
  "clean s \<longleftrightarrow> (\<forall>xs a b ys. s = xs @ a # b # ys \<longrightarrow> a \<in> markup \<longrightarrow> \<not> continuation b)"

lemma clean_part: "clean (xs @ s @ ys) \<Longrightarrow> clean s"
  unfolding clean_def by (metis append.assoc append_Cons)

lemma clean_take_drop: "clean s \<Longrightarrow> clean (takeWhile P s)" "clean s \<Longrightarrow> clean (drop n s)" "clean s \<Longrightarrow> clean (dropWhile P s)"
  using clean_part[of "[]" "takeWhile P s" "dropWhile P s"] clean_part[of "take n s" "drop n s" "[]"]
    clean_part[of "takeWhile P s" "dropWhile P s" "[]"] by simp_all

lemma clean_escape: "clean s \<Longrightarrow> set (html_escape s) \<inter> markup = {}"
proof (induction s rule: chars.induct)
  case (2 c cs)
  have "clean cs" using clean_part[of "[c]" cs "[]"] 2(2) by simp
  then have "set (html_escape (dropWhile continuation cs)) \<inter> markup = {}" using 2(1) clean_take_drop(3) by blast
  moreover have "set (escape_char (c # takeWhile continuation cs)) \<inter> markup = {}"
  proof (cases "c \<in> markup")
    case True
    have "\<not> continuation d" if "cs = d # ds" for d ds
      using 2(2) True that unfolding clean_def by (metis append_Nil)
    then have "takeWhile continuation cs = []" by (cases cs) simp_all
    then show ?thesis using True by (auto simp: escape_char_def markup_def)
  next
    case False
    have "x \<notin> markup" if "continuation x" for x using that by (auto simp: markup_def continuation_def)
    then show ?thesis using False by (auto simp: escape_char_def markup_def dest: set_takeWhileD)
  qed
  ultimately show ?case by (auto simp: html_escape_def)
qed (simp add: html_escape_def)

lemma clean_Cons: "clean (c # s) \<longleftrightarrow> (c \<in> markup \<longrightarrow> s = [] \<or> \<not> continuation (hd s)) \<and> clean s"
proof
  assume c: "clean (c # s)"
  have "\<not> continuation (hd s)" if "c \<in> markup" "s \<noteq> []"
    using c that unfolding clean_def by (metis append_Nil list.collapse)
  then show "(c \<in> markup \<longrightarrow> s = [] \<or> \<not> continuation (hd s)) \<and> clean s" using clean_part[of "[c]" s "[]"] c by auto
next
  assume h: "(c \<in> markup \<longrightarrow> s = [] \<or> \<not> continuation (hd s)) \<and> clean s"
  show "clean (c # s)" unfolding clean_def
  proof (intro allI impI)
    fix xs a b ys assume e: "c # s = xs @ a # b # ys" and a: "a \<in> markup"
    show "\<not> continuation b"
    proof (cases xs)
      case Nil
      then show ?thesis using h e a by auto
    next
      case (Cons x xs')
      then have "s = xs' @ a # b # ys" using e by simp
      then show ?thesis using h a unfolding clean_def by blast
    qed
  qed
qed

lemma clean_continuations: "list_all continuation xs \<Longrightarrow> clean t \<Longrightarrow> clean (xs @ t)"
  by (induction xs) (auto simp: clean_Cons markup_def continuation_def)

lemma clean_chars: "list_all one_char (chars s) \<Longrightarrow> clean s"
proof (induction s rule: chars.induct)
  case (2 c cs)
  let ?t = "takeWhile continuation cs" and ?d = "dropWhile continuation cs"
  have one: "one_char (c # ?t)" and d: "clean ?d" using 2 by simp_all
  have "clean (?t @ ?d)" by (rule clean_continuations) (use d in \<open>auto simp: list_all_iff dest: set_takeWhileD\<close>)
  moreover have "cs = [] \<or> \<not> continuation (hd cs)" if "c \<in> markup"
    using one that by (cases cs) (auto simp: one_char_def markup_def split: if_splits)
  ultimately show ?case by (simp add: clean_Cons)
qed (simp add: clean_def)

lemmas clean_utf8 = clean_chars[OF utf8_chars]

lemma after_first_part: "after_first sep s = Some t \<Longrightarrow> \<exists>n. t = drop n s"
proof (induction sep s rule: after_first.induct)
  case (1 sep s)
  show ?case
  proof (cases "take (length sep) s = sep")
    case True
    then show ?thesis using 1(2) by (auto simp: after_first.simps[of sep s])
  next
    case False
    then have "(case s of [] \<Rightarrow> None | _ # cs \<Rightarrow> after_first sep cs) = Some t" using 1(2) by (simp add: after_first.simps[of sep s])
    then obtain c cs where cs: "s = c # cs" "after_first sep cs = Some t" by (cases s) simp_all
    then obtain n where "t = drop n cs" using 1(1)[OF False cs(1)] by blast
    then have "t = drop (Suc n) s" using cs(1) by simp
    then show ?thesis by blast
  qed
qed

lemma clean_host: "clean url \<Longrightarrow> clean (extract_host_or_url url)"
proof (cases "after_first ''://'' url")
  case (Some rest)
  assume url: "clean url"
  obtain n where "rest = drop n url" using after_first_part[OF Some] by blast
  then have "clean rest" using clean_take_drop(2)[OF url] by simp
  then show ?thesis using url Some clean_take_drop(1) by (simp add: extract_host_or_url_def Let_def )
qed (simp add: extract_host_or_url_def)

definition skeleton :: "string \<Rightarrow> string" where
  "skeleton s = filter (\<lambda>c. c \<in> markup) s"

lemma skeleton_append [simp]: "skeleton (s @ t) = skeleton s @ skeleton t" "skeleton [] = []"
  "skeleton (c # s) = (if c \<in> markup then [c] else []) @ skeleton s"
  by (simp_all add: skeleton_def)

lemma skeleton_escape: "clean s \<Longrightarrow> skeleton (html_escape s) = []"
  using clean_escape by (auto simp: skeleton_def filter_empty_conv)

text \<open>The angle brackets and quotes of a preview are those of the template, whatever the page says of itself: two previews that
  both have an image or both have none, and likewise a description, have the same.\<close>

theorem preview_markup_fixed:
  assumes "is_utf8 title" "is_utf8 description" "is_utf8 image_url" "is_utf8 url"
    and "is_utf8 title'" "is_utf8 description'" "is_utf8 image_url'" "is_utf8 url'"
    and "image_url = [] \<longleftrightarrow> image_url' = []" "description = [] \<longleftrightarrow> description' = []"
  shows "filter (\<lambda>c. c \<in> markup) (x_url_preview title description image_url url)
    = filter (\<lambda>c. c \<in> markup) (x_url_preview title' description' image_url' url')"
proof -
  have "skeleton (html_escape s) = []" if "is_utf8 s" for s using clean_utf8 skeleton_escape that by blast
  moreover have "skeleton (domain_div s) = skeleton (''<div'' @ attr ''class'' ''plugin-urlpreview-card-domain'' @ ''>'' @ ''</div>'')"
    if "is_utf8 s" for s using clean_utf8[OF that] clean_host skeleton_escape by (simp add: domain_div_def)
  ultimately show ?thesis using assms
    unfolding skeleton_def[symmetric] x_url_preview_def by (simp only: skeleton_append attr_def if_distrib[of skeleton])
qed


theorem preview_markup_fixed_witness:
  "filter (\<lambda>c. c \<in> markup) (x_url_preview ''<script>'' [] [] ''https://a.b/c'')
    = filter (\<lambda>c. c \<in> markup) (x_url_preview ''t'' [] [] ''u'')"
  by (rule preview_markup_fixed) (simp_all add: is_utf8_def str_bytes_def)

text \<open>A hashtag that is not one comes back as it went in, markup included.\<close>

lemma bad_hashtag_unescaped: "x_hashtag u lower ''<b>'' = ''<b>''"
  by (simp add: x_hashtag_def continuation_def is_alphanumeric_def)

end
