(* ===== verification/Client.thy ===== *)
theory Client
  imports Posting MetaPost PlainText
begin

text \<open>
  \<open>client/hashiverse_client.rs\<close>: the client that an application holds. It owns the storage, the tracker, the radii of the two
  bundle managers, the pen and the current timelines, and composes the operations of the theories above; each operation passes
  this state on also when it fails. \<open>None\<close> is a call that does not return. Tasks that a fetch leaves for the background do not
  touch this state.
\<close>

section \<open>State and world\<close>

record 's hashiverse_client =
  hc_storage :: 's
  hc_tracker :: peer_tracker
  hc_bundle_radii :: cache_radius_tracker
  hc_feedback_radii :: cache_radius_tracker
  hc_pen :: recent_posts_pen
  hc_single :: "single_timeline option"
  hc_multiple :: "multiple_timeline option"

record hashiverse_world =
  hw_posting :: posting_world
  hw_meta :: meta_world
  hw_best_effort :: "nat \<Rightarrow> pow \<Rightarrow> hash \<Rightarrow> (salt \<times> pow \<times> hash) res"
  hw_random_index :: "nat \<Rightarrow> nat"
  hw_post_random :: "enc_random \<times> enc_random"
  hw_meta_random :: "salt \<times> enc_random"
  hw_url_preview_json :: "url_preview_data codec"
  hw_trending_json :: "trending_hashtag list codec"
  hw_stats_request_json :: "unit codec"
  hw_stats_response_json :: "peer_stats_response codec"
  hw_stats_document_json :: "string codec"
  hw_unicode_alnum :: "string \<Rightarrow> bool"
  hw_uppercase :: "string \<Rightarrow> string"

type_synonym ('s, 'a) client_run = "('s hashiverse_client \<times> 'a res) option"

abbreviation hw_client :: "hashiverse_world \<Rightarrow> client_world" where "hw_client W \<equiv> po_client (hw_posting W)"
abbreviation hw_now :: "hashiverse_world \<Rightarrow> time_millis" where "hw_now W \<equiv> cw_now (hw_client W)"
abbreviation hw_client_id :: "hashiverse_world \<Rightarrow> client_id" where "hw_client_id W \<equiv> mw_client_id (hw_meta W)"

definition obind :: "('s, 'a) client_run \<Rightarrow> ('a \<Rightarrow> 's hashiverse_client \<Rightarrow> ('s, 'b) client_run) \<Rightarrow> ('s, 'b) client_run" where
  "obind r f = (case r of None \<Rightarrow> None | Some (h, Inl e) \<Rightarrow> Some (h, Inl e) | Some (h, Inr x) \<Rightarrow> f x h)"

text \<open>The managers share the storage and the tracker; each has radii of its own.\<close>

definition bundle_manager :: "'s hashiverse_client \<Rightarrow> 's live_manager" where
  "bundle_manager h = \<lparr>lm_storage = hc_storage h, lm_tracker = hc_tracker h, lm_radii = hc_bundle_radii h\<rparr>"

definition put_bundle_manager :: "'s live_manager \<Rightarrow> 's hashiverse_client \<Rightarrow> 's hashiverse_client" where
  "put_bundle_manager m h = h\<lparr>hc_storage := lm_storage m, hc_tracker := lm_tracker m, hc_bundle_radii := lm_radii m\<rparr>"

definition feedback_manager :: "'s hashiverse_client \<Rightarrow> 's live_manager" where
  "feedback_manager h = \<lparr>lm_storage = hc_storage h, lm_tracker = hc_tracker h, lm_radii = hc_feedback_radii h\<rparr>"

definition put_feedback_manager :: "'s live_manager \<Rightarrow> 's hashiverse_client \<Rightarrow> 's hashiverse_client" where
  "put_feedback_manager m h = h\<lparr>hc_storage := lm_storage m, hc_tracker := lm_tracker m, hc_feedback_radii := lm_radii m\<rparr>"

fun trim_buckets :: "'s client_storage \<Rightarrow> (string \<times> nat) list \<Rightarrow> 's \<Rightarrow> 's \<times> unit res" where
  "trim_buckets S [] s = (s, Inr ())"
| "trim_buckets S ((bucket, limit) # rest) s =
     (if limit > 0 then cbind (cs_trim S bucket limit s) (\<lambda>_. trim_buckets S rest) else trim_buckets S rest s)"

definition HashiverseClient_new :: "'s client_storage \<Rightarrow> hashiverse_world \<Rightarrow> 's \<Rightarrow> 's \<times> 's hashiverse_client res" where
  "HashiverseClient_new S W s0 =
     (case get_struct S (cw_compressor (hw_client W)) (cw_peers_json (hw_client W)) BUCKET_PEER ''peers'' (hw_now W) s0 of (s1, stored) \<Rightarrow>
       let tracker = PeerTracker_new stored in
       cbind (s1, ensure (length BUCKETS = length BUCKET_TRIMS) ''Mismatch in length between BUCKETS and BUCKET_TRIMS'') (\<lambda>_ s1.
       cbind (trim_buckets S (zip BUCKETS BUCKET_TRIMS) s1) (\<lambda>_ s2.
         (s2, Inr \<lparr>hc_storage = s2, hc_tracker = tracker, hc_bundle_radii = lm_radii (LivePostBundleManager_new s2 tracker),
            hc_feedback_radii = lm_radii (LivePostBundleFeedbackManager_new s2 tracker), hc_pen = [], hc_single = None, hc_multiple = None\<rparr>))))"

definition client_storage_reset :: "'s client_storage \<Rightarrow> 's hashiverse_client \<Rightarrow> ('s, unit) client_run" where
  "client_storage_reset S h = (case cs_reset S (hc_storage h) of (s, r) \<Rightarrow> Some (h\<lparr>hc_storage := s\<rparr>, r))"


section \<open>Posting\<close>

definition submit_post_with_wait :: "'s client_storage \<Rightarrow> hashiverse_world \<Rightarrow> string \<Rightarrow> bool \<Rightarrow> 's hashiverse_client
    \<Rightarrow> ('s, submit_post_commit_token list \<times> encoded_post \<times> bytes) client_run" where
  "submit_post_with_wait S W post wait_for_all h =
     map_option (\<lambda>(c, out). (put_bundle_manager (pc_manager c) h\<lparr>hc_pen := pc_pen c\<rparr>, out))
       (submit_post S (hw_posting W) (hw_client_id W) (fst (hw_post_random W)) (snd (hw_post_random W)) post wait_for_all
          (bundle_manager h, hc_pen h))"

definition client_submit_post :: "'s client_storage \<Rightarrow> hashiverse_world \<Rightarrow> string \<Rightarrow> 's hashiverse_client
    \<Rightarrow> ('s, submit_post_commit_token list \<times> encoded_post \<times> bytes) client_run" where
  "client_submit_post S W post h = submit_post_with_wait S W post True h"

definition submit_meta_post :: "'s client_storage \<Rightarrow> hashiverse_world \<Rightarrow> 's hashiverse_client \<Rightarrow> ('s, unit) client_run" where
  "submit_meta_post S W h =
     (case build_meta_post_json S (hw_meta W) (fst (hw_meta_random W)) (snd (hw_meta_random W)) (hc_storage h) of
        (s, Inl e) \<Rightarrow> Some (h\<lparr>hc_storage := s\<rparr>, Inl e)
      | (s, Inr post_json) \<Rightarrow>
          obind (client_submit_post S W (bytes_str post_json) (h\<lparr>hc_storage := s\<rparr>)) (\<lambda>_ h. Some (h, Inr ())))"

definition ensure_meta_post_in_current_bucket :: "'s client_storage \<Rightarrow> hashiverse_world \<Rightarrow> 's hashiverse_client \<Rightarrow> ('s, unit) client_run" where
  "ensure_meta_post_in_current_bucket S W h =
     (case should_auto_publish (hw_meta W) (live_getter S (hw_client W)) (bundle_manager h) of
        (m, Inl e) \<Rightarrow> Some (put_bundle_manager m h, Inl e)
      | (m, Inr publish) \<Rightarrow> if publish then submit_meta_post S W (put_bundle_manager m h) else Some (put_bundle_manager m h, Inr ()))"

text \<open>A vote is only sent if its work beats the best that is known; a failure to send is logged.\<close>

definition submit_feedback :: "'s client_storage \<Rightarrow> hashiverse_world \<Rightarrow> bucket_location \<Rightarrow> id \<Rightarrow> byte \<Rightarrow> 's hashiverse_client
    \<Rightarrow> ('s, unit) client_run" where
  "submit_feedback S W loc post_id ty h =
     (case feedback_pow_generate (cw_crypto (hw_client W)) (hw_best_effort W) post_id ty of
        Inl e \<Rightarrow> Some (h, Inl e)
      | Inr (salt, pow, hash) \<Rightarrow> (case live_get_post_bundle_feedback S (hw_client W) loc (hw_now W) (feedback_manager h) of
          None \<Rightarrow> None
        | Some (m, Inl e) \<Rightarrow> Some (put_feedback_manager m h, Inl e)
        | Some (m, Inr (b, background)) \<Rightarrow>
            let h1 = put_feedback_manager m h in
            if pow \<le> get_post_pow_for_feedback_type b post_id ty then Some (h1, Inr ())
            else map_option (\<lambda>(t, r). (h1\<lparr>hc_tracker := t\<rparr>, logged_failure r () (\<lambda>_. Inr ())))
                   (post_feedback_to_location (hw_posting W) (cid_id (hw_client_id W)) loc (Feedback_new post_id ty salt pow)
                      (hc_tracker h1))))"


section \<open>Reading\<close>

fun find_post :: "post_env \<Rightarrow> bucket_location \<Rightarrow> id \<Rightarrow> post_bundle \<Rightarrow> nat list \<Rightarrow> nat
    \<Rightarrow> (bucket_location \<times> encoded_post \<times> bytes \<times> bool) res" where
  "find_post E loc post_id b [] offset = Inl (Bail ''Post not found in bundle'')"
| "find_post E loc post_id b (i # is) offset =
     (let h = pb_header b in
      if length (pbh_encoded_post_lengths h) \<le> i \<or> length (pbh_encoded_post_ids h) \<le> i then Inl (Panic ''index out of bounds'')
      else let len = pbh_encoded_post_lengths h ! i in
        if pbh_encoded_post_ids h ! i = post_id then
          (if USIZE_MAX < offset + len then Inl (Panic ''attempt to add with overflow'')
           else if length (pb_encoded_posts_bytes b) < offset + len then Inl (Panic ''range end out of bounds'')
           else let post_bytes = slice offset len (pb_encoded_posts_bytes b) in
             rbind (decode_from_bytes E post_bytes (bl_base_id loc) True True) (\<lambda>encoded_post.
               Inr (loc, encoded_post, post_bytes, post_id \<in> pbh_encoded_post_healed h)))
        else if USIZE_MAX < offset + len then Inl (Panic ''attempt to add with overflow'')
        else find_post E loc post_id b is (offset + len))"

definition get_post :: "'s client_storage \<Rightarrow> hashiverse_world \<Rightarrow> bucket_location \<Rightarrow> id \<Rightarrow> 's hashiverse_client
    \<Rightarrow> ('s, bucket_location \<times> encoded_post \<times> bytes \<times> bool) client_run" where
  "get_post S W loc post_id h =
     map_option (\<lambda>(m, r). (put_bundle_manager m h, rbind r (\<lambda>(b, background).
         find_post (po_env (hw_posting W)) loc post_id b [0..<unat (pbh_num_posts (pb_header b))] 0)))
       (live_get_post_bundle S (hw_client W) loc (hw_now W) (bundle_manager h))"

definition statistical_attempts :: "pow \<Rightarrow> nat" where
  "statistical_attempts p = (if unat p < 64 then 2 ^ unat p else 2 ^ 64 - 1)"

definition feedback_strength :: "pow \<Rightarrow> nat" where
  "feedback_strength p = (if p > 0 then statistical_attempts p div CLIENT_FEEDBACK_POW_NUMERAIRE else 0)"

definition get_post_feedbacks :: "'s client_storage \<Rightarrow> hashiverse_world \<Rightarrow> bucket_location \<Rightarrow> id \<Rightarrow> 's hashiverse_client
    \<Rightarrow> ('s, nat list) client_run" where
  "get_post_feedbacks S W loc post_id h =
     map_option (\<lambda>(m, r). (put_feedback_manager m h, rbind r (\<lambda>(b, background). Inr (map feedback_strength (get_post_pows b post_id)))))
       (live_get_post_bundle_feedback S (hw_client W) loc (hw_now W) (feedback_manager h))"

type_synonym shown_post = "bucket_location \<times> encoded_post \<times> bytes \<times> bool"

text \<open>A post of the timeline is decoded and shown, or is a profile and goes to its manager; what fails is logged.\<close>

fun post_process_timeline_posts :: "'s client_storage \<Rightarrow> hashiverse_world \<Rightarrow> timeline_post list \<Rightarrow> shown_post list \<Rightarrow> 's
    \<Rightarrow> 's \<times> shown_post list res" where
  "post_process_timeline_posts S W [] shown s = (s, Inr shown)"
| "post_process_timeline_posts S W ((loc, bs, healed) # rest) shown s =
     (case rbind (decode_from_bytes (po_env (hw_posting W)) bs (bl_base_id loc) True True) (\<lambda>p.
         rbind (try_parse_meta_post (mw_meta_only_json (hw_meta W)) (mw_envelope_json (hw_meta W)) (ep_post p)) (\<lambda>meta.
           case meta of MetaPostNone \<Rightarrow> Inr (p, None)
           | MetaPostV1 m \<Rightarrow> rbind (post_header_client_id (cw_crypto (hw_client W)) (ep_header p)) (\<lambda>author. Inr (p, Some (m, author))))) of
        Inl (Panic m) \<Rightarrow> (s, Inl (Panic m))
      | Inl (Bail m) \<Rightarrow> post_process_timeline_posts S W rest shown s
      | Inr (p, None) \<Rightarrow> post_process_timeline_posts S W rest (shown @ [(loc, p, bs, healed)]) s
      | Inr (p, Some (m, author)) \<Rightarrow> (case process_incoming_meta_post S (hw_meta W) m author s of
          (s', Inl (Panic e)) \<Rightarrow> (s', Inl (Panic e))
        | (s', _) \<Rightarrow> post_process_timeline_posts S W rest shown s'))"

definition single_timeline_reset :: "'s hashiverse_client \<Rightarrow> 's hashiverse_client" where
  "single_timeline_reset h = h\<lparr>hc_single := None\<rparr>"

definition single_timeline_lock :: "bucket_type \<Rightarrow> id \<Rightarrow> 's hashiverse_client \<Rightarrow> single_timeline" where
  "single_timeline_lock ty base_id h = (case hc_single h of
     Some st \<Rightarrow> if tl_bucket_type st \<noteq> ty \<or> tl_base_id st \<noteq> base_id then SingleTimeline_new ty base_id else st
   | None \<Rightarrow> SingleTimeline_new ty base_id)"

definition shown_page :: "'s client_storage \<Rightarrow> hashiverse_world \<Rightarrow> time_millis \<Rightarrow> timeline_post list \<Rightarrow> 's hashiverse_client
    \<Rightarrow> ('s, shown_post list \<times> time_millis) client_run" where
  "shown_page S W oldest page h = (case post_process_timeline_posts S W page [] (hc_storage h) of (s, r) \<Rightarrow>
     Some (h\<lparr>hc_storage := s\<rparr>, rbind r (\<lambda>posts. Inr (posts, oldest))))"

definition single_timeline_get_more :: "'s client_storage \<Rightarrow> hashiverse_world \<Rightarrow> bucket_type \<Rightarrow> id \<Rightarrow> 's hashiverse_client
    \<Rightarrow> ('s, shown_post list \<times> time_millis) client_run" where
  "single_timeline_get_more S W ty base_id h =
     (case tl_get_more_posts (cw_crypto (hw_client W)) (live_getter S (hw_client W)) (hw_now W) 20 (bucket_durations_for_type ty)
        (single_timeline_lock ty base_id h, bundle_manager h, hc_pen h) of
        None \<Rightarrow> None
      | Some ((st, m, pen), r) \<Rightarrow>
          let h1 = put_bundle_manager m h\<lparr>hc_pen := pen, hc_single := Some st\<rparr> in
          (case r of Inl e \<Rightarrow> Some (h1, Inl e) | Inr page \<Rightarrow> shown_page S W (tl_oldest_processed st) page h1))"

definition multiple_timeline_reset :: "'s hashiverse_client \<Rightarrow> 's hashiverse_client" where
  "multiple_timeline_reset h = h\<lparr>hc_multiple := None\<rparr>"

definition multiple_timeline_lock :: "bucket_type \<Rightarrow> id list \<Rightarrow> 's hashiverse_client \<Rightarrow> multiple_timeline" where
  "multiple_timeline_lock ty base_ids h = (case hc_multiple h of
     Some mt \<Rightarrow> if mt_bucket_type mt \<noteq> ty \<or> mt_base_ids mt \<noteq> base_ids then MultipleTimeline_new ty base_ids else mt
   | None \<Rightarrow> MultipleTimeline_new ty base_ids)"

definition multiple_timeline_get_more :: "'s client_storage \<Rightarrow> hashiverse_world \<Rightarrow> bucket_type \<Rightarrow> id list \<Rightarrow> 's hashiverse_client
    \<Rightarrow> ('s, shown_post list \<times> time_millis) client_run" where
  "multiple_timeline_get_more S W ty base_ids h =
     (case mt_get_more_posts (cw_crypto (hw_client W)) (live_getter S (hw_client W)) (hw_now W) 60 5 (bucket_durations_for_type ty)
        (multiple_timeline_lock ty base_ids h, bundle_manager h, hc_pen h) of
        None \<Rightarrow> None
      | Some ((mt, m, pen), r) \<Rightarrow>
          let h1 = put_bundle_manager m h\<lparr>hc_pen := pen, hc_multiple := Some mt\<rparr> in
          (case r of Inl e \<Rightarrow> Some (h1, Inl e) | Inr page \<Rightarrow> shown_page S W (mt_oldest_processed mt) page h1))"


section \<open>Questions to a peer\<close>

definition get_random_peer :: "hashiverse_world \<Rightarrow> 's hashiverse_client \<Rightarrow> 's hashiverse_client \<times> peer res" where
  "get_random_peer W h =
     (let pick = (\<lambda>ps. ps ! hw_random_index W (length ps)) in
      if pt_peers (hc_tracker h) \<noteq> [] then (h, Inr (pick (pt_peers (hc_tracker h))))
      else (case tracker_bootstrap (cw_crypto (hw_client W)) (cw_bootstrap (hw_client W)) (hc_tracker h) of
          Inl e \<Rightarrow> (h, Inl e)
        | Inr t \<Rightarrow> (h\<lparr>hc_tracker := t\<rparr>, if pt_peers t = [] then Inl (Bail ''Still no known peers available after bootstrap'')
            else Inr (pick (pt_peers t)))))"

definition get_all_known_peers :: "'s hashiverse_client \<Rightarrow> peer list" where
  "get_all_known_peers h = pt_peers (hc_tracker h)"

definition fetch_url_preview :: "hashiverse_world \<Rightarrow> string \<Rightarrow> 's hashiverse_client \<Rightarrow> 's hashiverse_client \<times> url_preview_data res" where
  "fetch_url_preview W url h = (case get_random_peer W h of
     (h', Inl e) \<Rightarrow> (h', Inl e)
   | (h', Inr p) \<Rightarrow> (h',
       rbind (rpc_server_known_with_requisite_pow (cw_services (hw_client W) p) (cid_id (hw_client_id W)) p FetchUrlPreviewV1
         (fetch_url_preview_new_to_bytes (cw_json (hw_client W)) url) POW_MINIMUM_PER_URL_FETCH) (\<lambda>rx.
       rbind (ensure (rr_response_request_kind rx = FetchUrlPreviewResponseV1) ''unexpected response kind'') (\<lambda>_.
         of_option ''json'' (dec (hw_url_preview_json W) (rr_bytes rx))))))"

definition fetch_trending_hashtags :: "hashiverse_world \<Rightarrow> nat \<Rightarrow> 's hashiverse_client \<Rightarrow> 's hashiverse_client \<times> trending_hashtag list res" where
  "fetch_trending_hashtags W limit h = (case get_random_peer W h of
     (h', Inl e) \<Rightarrow> (h', Inl e)
   | (h', Inr p) \<Rightarrow> (h',
       rbind (rpc_server_known (cw_services (hw_client W) p) (cid_id (hw_client_id W)) p TrendingHashtagsFetchV1
         (trending_fetch_new_to_bytes (cw_json (hw_client W)) limit)) (\<lambda>rx.
       rbind (ensure (rr_response_request_kind rx = TrendingHashtagsFetchResponseV1) ''unexpected response kind'') (\<lambda>_.
         of_option ''json'' (dec (hw_trending_json W) (rr_bytes rx))))))"

text \<open>The document is any JSON value, as its text.\<close>

definition fetch_peer_stats :: "hashiverse_world \<Rightarrow> id \<Rightarrow> 's hashiverse_client \<Rightarrow> string res" where
  "fetch_peer_stats W peer_id h =
     (let C = cw_crypto (hw_client W) in
      rbind (of_option ''peer not known to this client'' (List.find (\<lambda>p. p_id p = peer_id) (pt_peers (hc_tracker h)))) (\<lambda>p.
      rbind (rpc_server_known_with_requisite_pow (cw_services (hw_client W) p) (cid_id (hw_client_id W)) p PeerStatsRequestV1
        (enc (hw_stats_request_json W) ()) POW_MINIMUM_PER_PEER_STATS) (\<lambda>rx.
      rbind (ensure (rr_response_request_kind rx = PeerStatsResponseV1) ''unexpected response kind'') (\<lambda>_.
      rbind (of_option ''json'' (dec (hw_stats_response_json W) (rr_bytes rx))) (\<lambda>response.
      rbind (VerificationKey_from_bytes C (p_verification_key_bytes (ps_peer response))) (\<lambda>vk.
      rbind (signing_verify C vk (ps_signature response) (peer_stats_signing_input (ps_timestamp response) (ps_json_compressed response))) (\<lambda>_.
      rbind (decompress (cw_compressor (hw_client W)) (ps_json_compressed response)) (\<lambda>g.
        of_option ''json'' (dec (hw_stats_document_json W) (g_to_bytes g))))))))))"


section \<open>Commands\<close>

definition dispatch_command :: "'s client_storage \<Rightarrow> hashiverse_world \<Rightarrow> string \<Rightarrow> 's hashiverse_client \<Rightarrow> ('s, unit) client_run" where
  "dispatch_command S W command h =
     (let parts = splitn_on 2 (CHR '' '') command; verb = hw_uppercase W (parts ! 0)
      in if parts = [] then Some (h, Inl (Bail ''Command cannot be empty''))
         else if verb = ''I'' then Some (h, Inr ())
         else if verb = ''P'' then
           (if length parts < 2 then Some (h, Inl (Bail ''Post message cannot be empty''))
            else map_option (\<lambda>(h', r). (h', logged_failure r () (\<lambda>_. Inr ())))
              (client_submit_post S W (convert_text_to_hashiverse_html (hw_unicode_alnum W) (po_lowercase (hw_posting W)) (parts ! 1)) h))
         else if verb = ''M'' then map_option (\<lambda>(h', r). (h', logged_failure r () (\<lambda>_. Inr ())))
              (single_timeline_get_more S W User (cid_id (hw_client_id W)) h)
         else Some (h, Inr ()))"

end
