(* ===== verification/Dispatch.thy ===== *)
theory Dispatch
  imports Handlers
begin

text \<open>
  The envelope around the handlers of \<open>server/handlers/dispatch.rs\<close>: decoding, counting, the replay check, the upgrade of the server's
  own proof of work, routing, and the signed response or error response; the replay check by its parts, for requests that overlap.
  Theorems about whole requests: what is refused before any
  handler runs, what every request keeps of the table and of the store, and what the commit and heal handlers accept.
\<close>

section \<open>Routing\<close>

definition dispatch_network_envelope :: "'s server_world \<Rightarrow> peer_pow option \<Rightarrow> request_kind \<Rightarrow> bytes \<Rightarrow> ('s, response) server_run" where
  "dispatch_network_envelope W pow kind bs = (case kind of
       ErrorV1 \<Rightarrow> sfail ''Received ErrorV1''
     | PingV1 \<Rightarrow> x_Ping
     | BootstrapV1 \<Rightarrow> x_Bootstrap W
     | AnnounceV1 \<Rightarrow> x_AnnounceV1 W bs
     | GetPostBundleV1 \<Rightarrow> x_GetPostBundle W bs
     | GetPostBundleFeedbackV1 \<Rightarrow> x_GetPostBundleFeedback W bs
     | SubmitPostClaimV1 \<Rightarrow> x_SubmitPostClaim W pow bs
     | SubmitPostCommitV1 \<Rightarrow> x_SubmitPostCommit W bs
     | SubmitPostFeedbackV1 \<Rightarrow> x_SubmitPostFeedback W pow bs
     | HealPostBundleClaimV1 \<Rightarrow> x_HealPostBundleClaim W bs
     | HealPostBundleCommitV1 \<Rightarrow> x_HealPostBundleCommit W bs
     | HealPostBundleFeedbackV1 \<Rightarrow> x_HealPostBundleFeedback W bs
     | CachePostBundleV1 \<Rightarrow> x_CachePostBundle W bs
     | CachePostBundleFeedbackV1 \<Rightarrow> x_CachePostBundleFeedback W bs
     | FetchUrlPreviewV1 \<Rightarrow> x_FetchUrlPreview W bs
     | TrendingHashtagsFetchV1 \<Rightarrow> x_TrendingHashtagsFetch W bs
     | PeerStatsRequestV1 \<Rightarrow> x_PeerStatsRequest W pow bs
     | AnnounceV2 \<Rightarrow> x_AnnounceV2 W bs)"

definition compress_response :: "request_kind \<Rightarrow> bool" where
  "compress_response kind \<longleftrightarrow> kind \<noteq> GetPostBundleV1 \<and> kind \<noteq> CachePostBundleV1"

section \<open>Before the handler\<close>

definition salt_seen :: "'s server_world \<Rightarrow> 's server \<Rightarrow> salt \<Rightarrow> bool" where
  "salt_seen W s salt_value \<longleftrightarrow> \<not> sw_salt_dropped W salt_value \<and>
     (case map_of (sv_seen_salts s) salt_value of None \<Rightarrow> False | Some t \<Rightarrow> sw_now_decode W < t + const_mul MILLIS_IN_MINUTE 5)"

definition count_request :: "'s server_world \<Rightarrow> request_kind \<Rightarrow> 's server \<Rightarrow> 's server" where
  "count_request W kind s =
     (let i = request_kind_u16 kind in
      s\<lparr>sv_request_counters := (sv_request_counters s)[i := fetch_add 1 (sv_request_counters s ! i)],
        sv_request_rate_windows := (sv_request_rate_windows s)[i := rate_windows_record (sw_now_decode W) (sv_request_rate_windows s ! i)]\<rparr>)"

definition record_salt :: "'s server_world \<Rightarrow> salt \<Rightarrow> 's server \<Rightarrow> 's server" where
  "record_salt W salt_value s = s\<lparr>sv_seen_salts := AList.update salt_value (sw_now_decode W) (sv_seen_salts s)\<rparr>"

text \<open>Two calls to the cache of salts; this is a request that no other one interrupts between them.\<close>

definition check_replay :: "'s server_world \<Rightarrow> salt \<Rightarrow> ('s, unit) server_run" where
  "check_replay W salt_value s =
     (if salt_seen W s salt_value then (s, Inl (Bail ''replay detected: salt already seen''))
      else (record_salt W salt_value s, Inr ()))"

text \<open>A request whose proof of work beats the server's own of today or of this month becomes the server's own.\<close>

definition upgrade_pow :: "'s server_world \<Rightarrow> peer_pow \<Rightarrow> ('s, unit) server_run" where
  "upgrade_pow W pow s =
     (let me = sv_peer_self s; now = sw_now_decode W;
          better_day = pow_decayed_day pow now > pow_decayed_day (p_pow_current_day me) now;
          better_month = pow_decayed_month pow now > pow_decayed_month (p_pow_current_month me) now;
          me1 = (if better_day then me\<lparr>p_pow_current_day := pow\<rparr> else me);
          me2 = (if better_month then me1\<lparr>p_pow_current_month := pow\<rparr> else me1)
      in if better_day \<or> better_month
         then (case Peer_sign (sw_crypto W) (sw_now_sign W) (server_key s) me2 of
             Inl e \<Rightarrow> (s\<lparr>sv_peer_self := me2\<lparr>p_timestamp := sw_now_sign W\<rparr>\<rparr>, Inl e)
           | Inr me3 \<Rightarrow> (s\<lparr>sv_peer_self := me3\<rparr>, Inr ()))
         else (s, Inr ()))"

definition request_pow :: "'s server_world \<Rightarrow> rpc_request_rx \<Rightarrow> ('s, peer_pow option) server_run" where
  "request_pow W rx =
     (if rx_pow_server_known rx then
        sbind (sget sv_peer_self) (\<lambda>me.
        sbind (slift (PeerPow_new (sw_crypto W) (rx_pow_sponsor_id rx) (p_verification_key_bytes me) (p_pq_commitment_bytes me)
                 (rx_pow_timestamp rx) (rx_pow_content_hash rx) (rx_pow_salt rx))) (\<lambda>pow.
        sbind (upgrade_pow W pow) (\<lambda>_. sret (Some pow))))
      else if rx_payload_request_kind rx = BootstrapV1 then sret None
      else sfail ''Anonymous pow not allowed'')"

section \<open>The envelope\<close>

definition encode_reply :: "'s server_world \<Rightarrow> server_id \<Rightarrow> hash \<Rightarrow> byte \<Rightarrow> response_kind \<Rightarrow> gatherer \<Rightarrow> gatherer res" where
  "encode_reply W sid content_hash flags kind payload =
     rpc_response_encode (sw_crypto W) (sw_compressor W) (k_signature_key (sid_keys sid)) (k_verification_key_bytes (sid_keys sid))
       (k_pq_commitment_bytes (sid_keys sid)) (sid_sponsor_id sid) (sid_timestamp sid) (sid_hash sid) (sid_salt sid)
       content_hash flags kind payload"

definition handle_request :: "'s server_world \<Rightarrow> (response \<Rightarrow> gatherer res) \<Rightarrow> rpc_request_rx \<Rightarrow> ('s, gatherer) server_run" where
  "handle_request W encode_response rx =
     sbind (request_pow W rx) (\<lambda>pow.
     sbind (dispatch_network_envelope W pow (rx_payload_request_kind rx) (rx_bytes rx)) (\<lambda>response.
     sbind (slift (encode_response response)) (\<lambda>payload.
     sbind (sget sv_server_id) (\<lambda>sid.
       slift (encode_reply W sid (rx_pow_content_hash rx)
         (if compress_response (rx_payload_request_kind rx) then RESP_COMPRESSED else 0) (response_kind_of response) payload)))))"

text \<open>The reply, and how often the caller's address is reported as sending bad requests. The loop reports once more
  when no reply can be sent.\<close>

definition wrap_and_dispatch_network_envelope ::
  "'s server_world \<Rightarrow> (response \<Rightarrow> gatherer res) \<Rightarrow> bytes \<Rightarrow> 's server \<Rightarrow> 's server \<times> nat \<times> gatherer res" where
  "wrap_and_dispatch_network_envelope W encode_response bs s =
     (let keys = sid_keys (sv_server_id s) in
      case rpc_request_decode (sw_crypto W) (sw_compressor W) (sw_now_decode W) (k_verification_key_bytes keys)
             (k_pq_commitment_bytes keys) bs of
        Inl e \<Rightarrow> (s, 0, Inl e)
      | Inr rx \<Rightarrow>
          (case check_replay W (rx_pow_salt rx) (count_request W (rx_payload_request_kind rx) s) of
             (s1, Inl e) \<Rightarrow> (s1, 0, Inl e)
           | (s1, Inr _) \<Rightarrow>
               (case handle_request W encode_response rx s1 of
                  (s2, Inr g) \<Rightarrow> (s2, 0, Inr g)
                | (s2, Inl (Panic m)) \<Rightarrow> (s2, 0, Inl (Panic m))
                | (s2, Inl (Bail m)) \<Rightarrow>
                    (s2, 1, rbind (encode_response (ErrorBody \<lparr>er_code = 0, er_message = m\<rparr>)) (\<lambda>payload.
                       encode_reply W (sv_server_id s2) (rx_pow_content_hash rx) RESP_COMPRESSED ErrorResponseV1 payload)))))"

definition serve :: "'s server_world \<Rightarrow> (response \<Rightarrow> gatherer res) \<Rightarrow> bytes \<Rightarrow> 's server \<Rightarrow> 's server \<times> nat \<times> gatherer option res" where
  "serve W encode_response bs s = (case wrap_and_dispatch_network_envelope W encode_response bs s of
       (s', n, Inr g) \<Rightarrow> (s', n, Inr (Some g))
     | (s', n, Inl (Bail m)) \<Rightarrow> (s', n + 1, Inr None)
     | (s', n, Inl (Panic m)) \<Rightarrow> (s', n, Inl (Panic m)))"


section \<open>What every handler keeps\<close>

lemmas handler_defs = x_Ping_def x_Bootstrap_def x_AnnounceV1_def x_AnnounceV2_def x_GetPostBundle_def
  x_GetPostBundleFeedback_def x_SubmitPostClaim_def x_SubmitPostCommit_def x_SubmitPostFeedback_def
  x_HealPostBundleClaim_def x_HealPostBundleCommit_def x_HealPostBundleFeedback_def x_CachePostBundle_def
  x_CachePostBundleFeedback_def x_FetchUrlPreview_def x_TrendingHashtagsFetch_def x_PeerStatsRequest_def

text \<open>The parts of the state that a handler may write: a relation that ignores them, and allows the admission of a peer, holds
  across every handler.\<close>

locale handler_frame = state_preorder R for R :: "'s server \<Rightarrow> 's server \<Rightarrow> bool" +
  fixes W :: "'s server_world"
  assumes potential: "keeps R (add_potential_peer_to_kademlia W p t)"
    and writable: "R s (s\<lparr>sv_environment := e\<rparr>)" "R s (s\<lparr>sv_post_bundle_cache := bc\<rparr>)"
      "R s (s\<lparr>sv_post_bundle_feedback_cache := fc\<rparr>)" "R s (s\<lparr>sv_heal_in_progress := hp\<rparr>)"
      "R s (s\<lparr>sv_trending_hashtags := th\<rparr>)" "R s (s\<lparr>sv_trending_hashtags_response_cache := tc\<rparr>)"
      "R s (s\<lparr>sv_peer_stats_response_cache := pc\<rparr>)" "R s (s\<lparr>sv_peer_self := me\<rparr>)"
begin

lemma primitive_keeps:
  "keeps R (on_env m)" "keeps R (peers_for_key W i n)"
  "keeps R (supd (\<lambda>s. s\<lparr>sv_heal_in_progress := f1 s\<rparr>))"
  "keeps R (supd (\<lambda>s. s\<lparr>sv_trending_hashtags_response_cache := f2 s\<rparr>))"
  "keeps R (supd (\<lambda>s. s\<lparr>sv_trending_hashtags := f3 s\<rparr>))"
  by (auto intro!: keepsI writable refl simp: on_env_def peers_for_key_def supd_def split: prod.splits)

lemma caches_keep:
  "keeps R (bundle_cache_get W b ids p)" "keeps R (feedback_cache_get W b ids p)" "keeps R (upload_feedback W b bs)"
  "keeps R (make_peer_stats W)" "keeps R (upgrade_pow W pow)"
  by (auto intro!: keepsI writable refl simp: bundle_cache_get_def feedback_cache_get_def upload_feedback_def make_peer_stats_def
      upgrade_pow_def Let_def split: sum.splits err.splits prod.splits)

lemma upload_bundles_keep: "keeps R (upload_bundles W b xs acc)"
proof -
  have "R s (fst (upload_bundles W b xs acc s))" for s
    by (induction xs arbitrary: acc s) (auto intro: refl trans[OF writable(2)] split: sum.splits err.splits prod.splits)
  then show ?thesis by (rule keepsI)
qed

lemmas frame_rules = keeps_rules potential primitive_keeps caches_keep upload_bundles_keep keeps_intros

lemma add_peers_keep: "keeps R (add_peers W ps t)"
  unfolding add_peers_def by (intro frame_rules)

lemma heal_feedbacks_keep: "keeps R (heal_feedbacks W loc held fs n)"
  by (induction fs arbitrary: n) (auto intro!: frame_rules)

lemma parts_keep:
  "keeps R (own_post_bundle W b p)" "keeps R (grant_claim W b i)" "keeps R (store_committed W b bs i)"
  "keeps R (feedback_welcome W loc among i)" "keeps R (store_healed W donor me' posts)" "keeps R (track_hashtags W r post)"
  "keeps R (announce_reply W k p)"
  unfolding own_post_bundle_def stored_bundle_refreshed_def resign_bundle_def grant_claim_def store_committed_def
    feedback_welcome_def store_healed_def track_hashtags_def announce_reply_def
  by (intro frame_rules)+

lemma handlers_keep: "keeps R (dispatch_network_envelope W pow kind bs)"
  by (cases kind; simp only: dispatch_network_envelope_def handler_defs request_kind.case;
      intro frame_rules parts_keep add_peers_keep heal_feedbacks_keep)

lemma handle_request_keeps: "keeps R (handle_request W er rx)"
  unfolding handle_request_def request_pow_def by (intro frame_rules handlers_keep)

end

interpretation table_frame: handler_frame "table_admits (sw_crypto W)" W for W
  by unfold_locales (auto intro: add_potential_keeps simp: table_admits_def)

text \<open>The identity of the server, the salts it knows and its counters are out of the handlers' reach.\<close>

definition same_identity :: "'s server \<Rightarrow> 's server \<Rightarrow> bool" where
  "same_identity s s' \<longleftrightarrow> sv_server_id s' = sv_server_id s \<and> sv_seen_salts s' = sv_seen_salts s
     \<and> sv_request_counters s' = sv_request_counters s \<and> sv_request_rate_windows s' = sv_request_rate_windows s"

interpretation identity_frame: handler_frame same_identity W for W
  by unfold_locales
    (auto simp: same_identity_def keeps_def add_potential_peer_to_kademlia_def split: sum.splits err.splits)

lemma check_replay_table: "keeps (table_admits C) (check_replay W x)"
  by (auto intro!: keepsI table_admits_same simp: check_replay_def record_salt_def)

lemmas [trans] = table.trans

lemma serve_table:
  assumes "serve W er bs s = (s', r)"
  shows "table_admits (sw_crypto W) s s'"
proof -
  have "table_admits (sw_crypto W) s (fst (wrap_and_dispatch_network_envelope W er bs s))"
  proof (cases "rpc_request_decode (sw_crypto W) (sw_compressor W) (sw_now_decode W)
      (k_verification_key_bytes (sid_keys (sv_server_id s))) (k_pq_commitment_bytes (sid_keys (sv_server_id s))) bs")
    case (Inr rx)
    let ?s0 = "count_request W (rx_payload_request_kind rx) s"
    let ?s1 = "fst (check_replay W (rx_pow_salt rx) ?s0)"
    have "table_admits (sw_crypto W) s ?s0" by (simp add: count_request_def Let_def table_admits_same)
    also have "table_admits (sw_crypto W) ?s0 ?s1" using check_replay_table[of "sw_crypto W" W "rx_pow_salt rx"] by (simp add: keeps_def)
    finally have 1: "table_admits (sw_crypto W) s ?s1" .
    moreover have "table_admits (sw_crypto W) ?s1 (fst (handle_request W er rx ?s1))"
      using table_frame.handle_request_keeps[of W er rx] by (simp add: keeps_def)
    ultimately show ?thesis using Inr
      by (auto simp: wrap_and_dispatch_network_envelope_def Let_def dest: table.trans split: prod.splits sum.splits err.splits)
  qed (simp add: wrap_and_dispatch_network_envelope_def table.refl)
  then show ?thesis using assms by (auto simp: serve_def split: prod.splits sum.splits err.splits)
qed


section \<open>The life of a server\<close>

inductive server_step :: "crypto \<Rightarrow> 's server \<Rightarrow> 's server \<Rightarrow> bool" for C where
  serve_request: "sw_crypto W = C \<Longrightarrow> serve W er bs s = (s', r) \<Longrightarrow> server_step C s s'"
| maintain_table: "sw_crypto W = C \<Longrightarrow> maintain_kademlia_turn W M mt s = (s', t) \<Longrightarrow> server_step C s s'"
| maintain_store: "on_env (do_maintenance S samples) s = (s', u) \<Longrightarrow> server_step C s s'"

lemma server_step_table:
  assumes "server_step C s s'"
  shows "table_admits C s s'"
  using assms
proof cases
  case (serve_request W er bs r)
  then show ?thesis using serve_table[of W er bs s s' r] by simp
next
  case (maintain_table W M mt t)
  then show ?thesis using table_maintenance.maintain_kademlia_keeps[of W M mt] by (simp add: keeps_def) (metis fst_conv)
next
  case (maintain_store S samples u)
  then show ?thesis by (auto simp: on_env_def intro!: table_admits_same split: prod.splits)
qed

lemma server_steps_table: "(server_step C)\<^sup>*\<^sup>* s s' \<Longrightarrow> table_admits C s s'"
  by (induction rule: rtranclp_induct) (auto intro: table.refl table.trans server_step_table)

text \<open>C3: Whatever requests a server receives, however it is answered when it bootstraps and announces itself, and whenever its
  store is cleaned: its table keeps the Kademlia invariant and its own id, and it only ever learns of peers whose record
  is signed by the key of its id and carries the proof of work of a server.\<close>

theorem server_table_sound:
  assumes "(server_step C)\<^sup>*\<^sup>* s s'" "crypto_ok C" "kad_ok p_id (sv_kademlia s)"
  shows "kad_ok p_id (sv_kademlia s') \<and> k_id (sv_kademlia s') = k_id (sv_kademlia s)
    \<and> k_max_peers_per_bucket (sv_kademlia s') = k_max_peers_per_bucket (sv_kademlia s)
    \<and> list_all (\<lambda>p. p \<in> set (get_all_peers (sv_kademlia s)) \<or> Peer_verify C p = Inr () \<and> SERVER_KEY_POW_MIN \<le> pp_pow (p_pow_initial p))
        (get_all_peers (sv_kademlia s'))"
  using admission_steps[OF server_steps_table[OF assms(1), unfolded table_admits_def] assms(2)] assms(3)
  by (auto simp: list_all_iff admissible_def)

section \<open>Replays\<close>

text \<open>The replay guard forgets a salt after five minutes, but a request may be dated five minutes ahead: the same bytes are
  understood, with the same content, ten minutes later, when the salt is no longer known.\<close>

theorem replay_after_salt_expiry:
  assumes "rpc_request_decode C Z now vkb pqcb bs = Inr rx" "rx_pow_timestamp rx = now + 300000" "0 \<le> now" "now \<le> 2 ^ 62"
    and "map_of (sv_seen_salts s) (rx_pow_salt rx) = Some now" "sw_now_decode W = now + 600000"
  shows "rpc_request_decode C Z (now + 600000) vkb pqcb bs = Inr rx \<and> \<not> salt_seen W s (rx_pow_salt rx)"
proof
  have sub: "time_sub now (now + 300000) = -300000" "time_sub (now + 600000) (now + 300000) = 300000"
    by (simp_all add: time_sub_def sat_i64_def I64_MIN_def I64_MAX_def)
  show "rpc_request_decode C Z (now + 600000) vkb pqcb bs = Inr rx"
    using assms(1,2) sub
    apply (auto simp: rpc_request_decode_def Let_def ensure_def duration_abs_def POW_MAX_CLOCK_DRIFT_MILLIS_def
        const_mul_def millis_values CLOCK_LENIENCE_FACTOR_def I64_MIN_def split: if_splits)
    subgoal for b a ba x aa bb xa ab bc ac
      by (rule exI[of _ ac]) auto
    done
  show "\<not> salt_seen W s (rx_pow_salt rx)"
    using assms(5,6) by (simp add: salt_seen_def const_mul_def millis_values)
qed

text \<open>Between the two calls nothing is locked. The phases of requests that carry one salt:\<close>

datatype replay_phase = Arrived | Checked | Entered | Refused

inductive replay_step :: "'s server_world \<Rightarrow> salt \<Rightarrow> 's server \<times> replay_phase list \<Rightarrow> 's server \<times> replay_phase list \<Rightarrow> bool" for W x where
  check: "i < length ps \<Longrightarrow> ps ! i = Arrived \<Longrightarrow> replay_step W x (s, ps) (s, ps[i := if salt_seen W s x then Refused else Checked])"
| enter: "i < length ps \<Longrightarrow> ps ! i = Checked \<Longrightarrow> replay_step W x (s, ps) (record_salt W x s, ps[i := Entered])"

text \<open>Two requests with the same unknown salt whose checks both come before either entry are both taken in.\<close>

lemma overlapping_replays_pass:
  assumes "\<not> salt_seen W s x"
  shows "\<exists>s'. (replay_step W x)\<^sup>*\<^sup>* (s, [Arrived, Arrived]) (s', [Entered, Entered])"
proof -
  note both = assms
  have "replay_step W x (s, [Arrived, Arrived]) (s, [Checked, Arrived])" using check[of 0 "[Arrived, Arrived]" W x s] both by simp
  moreover have "replay_step W x (s, [Checked, Arrived]) (s, [Checked, Checked])" using check[of 1 "[Checked, Arrived]" W x s] both by simp
  moreover have "replay_step W x (s, [Checked, Checked]) (record_salt W x s, [Entered, Checked])"
    using enter[of 0 "[Checked, Checked]" W x s] by simp
  moreover have "replay_step W x (record_salt W x s, [Entered, Checked]) (record_salt W x (record_salt W x s), [Entered, Entered])"
    using enter[of 1 "[Entered, Checked]" W x "record_salt W x s"] by simp
  ultimately show ?thesis by (meson rtranclp.rtrancl_into_rtrancl rtranclp.rtrancl_refl)
qed

text \<open>The life of a server, with the clock at its last request: whole requests, the parts of requests that overlap (counting one,
  entering its salt some time after the check, running its handler), and maintenance.\<close>

interpretation identity_maintenance: maintenance_frame same_identity W for W
  by unfold_locales
    (auto simp: same_identity_def keeps_def add_potential_peer_to_kademlia_def split: sum.splits err.splits)

inductive server_run :: "time_millis \<Rightarrow> 's server \<Rightarrow> time_millis \<Rightarrow> 's server \<Rightarrow> bool" where
  begin_run: "server_run t s t s"
| request: "server_run t s t1 s1 \<Longrightarrow> t1 \<le> sw_now_decode W \<Longrightarrow> serve W er bs s1 = (s2, r) \<Longrightarrow> server_run t s (sw_now_decode W) s2"
| count_part: "server_run t s t1 s1 \<Longrightarrow> t1 \<le> sw_now_decode W \<Longrightarrow> server_run t s (sw_now_decode W) (count_request W kind s1)"
| salt_part: "server_run t s t1 s1 \<Longrightarrow> t1 \<le> sw_now_decode W \<Longrightarrow> server_run t s (sw_now_decode W) (record_salt W x s1)"
| handler_part: "server_run t s t1 s1 \<Longrightarrow> handle_request W er rx s1 = (s2, g) \<Longrightarrow> server_run t s t1 s2"
| table_turn: "server_run t s t1 s1 \<Longrightarrow> maintain_kademlia_turn W M mt s1 = (s2, m) \<Longrightarrow> server_run t s t1 s2"
| store_turn: "server_run t s t1 s1 \<Longrightarrow> on_env (do_maintenance S samples) s1 = (s2, u) \<Longrightarrow> server_run t s t1 s2"

definition salt_known_since :: "'s server \<Rightarrow> salt \<Rightarrow> time_millis \<Rightarrow> bool" where
  "salt_known_since s x t = (case map_of (sv_seen_salts s) x of None \<Rightarrow> False | Some t' \<Rightarrow> t \<le> t')"

text \<open>What a request does to the salts: nothing, or it enters its own, when that was not known.\<close>

lemma serve_decoded:
  assumes "serve W er bs s = (s', r)"
    "rpc_request_decode (sw_crypto W) (sw_compressor W) (sw_now_decode W) (k_verification_key_bytes (sid_keys (sv_server_id s)))
       (k_pq_commitment_bytes (sid_keys (sv_server_id s))) bs = Inr rx"
  shows "if salt_seen W s (rx_pow_salt rx)
    then s' = count_request W (rx_payload_request_kind rx) s \<and> r = (1, Inr None)
    else sv_seen_salts s' = AList.update (rx_pow_salt rx) (sw_now_decode W) (sv_seen_salts s)"
proof -
  let ?s0 = "count_request W (rx_payload_request_kind rx) s" and ?x = "rx_pow_salt rx"
  let ?s1 = "?s0\<lparr>sv_seen_salts := AList.update ?x (sw_now_decode W) (sv_seen_salts s)\<rparr>"
  have c: "salt_seen W ?s0 ?x = salt_seen W s ?x" "sv_seen_salts ?s0 = sv_seen_salts s"
    by (simp_all add: salt_seen_def count_request_def Let_def)
  have "same_identity ?s1 (fst (handle_request W er rx ?s1))"
    using identity_frame.handle_request_keeps[of W er rx] unfolding keeps_def by blast
  then show ?thesis using assms c
    by (auto simp: serve_def wrap_and_dispatch_network_envelope_def check_replay_def record_salt_def Let_def same_identity_def
        split: prod.splits sum.splits err.splits if_splits)
qed

lemma serve_salts:
  assumes "serve W er bs s = (s', r)"
  shows "sv_seen_salts s' = sv_seen_salts s \<or> (\<exists>x. sv_seen_salts s' = AList.update x (sw_now_decode W) (sv_seen_salts s))"
proof (cases "rpc_request_decode (sw_crypto W) (sw_compressor W) (sw_now_decode W) (k_verification_key_bytes (sid_keys (sv_server_id s)))
       (k_pq_commitment_bytes (sid_keys (sv_server_id s))) bs")
  case (Inl e)
  then show ?thesis using assms
    by (cases e) (auto simp: serve_def wrap_and_dispatch_network_envelope_def Let_def)
next
  case (Inr rx)
  from serve_decoded[OF assms Inr] show ?thesis by (auto simp: count_request_def Let_def split: if_splits)
qed

lemma server_run_salts:
  assumes "server_run t s t' s'" "salt_known_since s x t0" "t0 \<le> t"
  shows "salt_known_since s' x t0 \<and> t \<le> t'"
  using assms
proof (induction rule: server_run.induct)
  case (request t s t1 s1 W er bs s2 r)
  then show ?case using serve_salts[OF request.hyps(3)]
    by (auto simp: salt_known_since_def update_conv' split: option.splits if_splits)
next
  case (count_part t s t1 s1 W kind)
  then show ?case by (simp add: salt_known_since_def count_request_def Let_def)
next
  case (salt_part t s t1 s1 W y)
  then show ?case by (auto simp: salt_known_since_def record_salt_def update_conv' split: option.splits if_splits)
next
  case (handler_part t s t1 s1 W er rx s2 g)
  then have "same_identity s1 s2"
    using identity_frame.handle_request_keeps[of W er rx] unfolding keeps_def by (metis fst_conv)
  with handler_part show ?case by (simp add: salt_known_since_def same_identity_def)
next
  case (table_turn t s t1 s1 W M mt s2 m)
  then have "same_identity s1 s2"
    using identity_maintenance.maintain_kademlia_keeps[of W M mt] unfolding keeps_def by (metis fst_conv)
  with table_turn show ?case by (simp add: salt_known_since_def same_identity_def)
next
  case (store_turn t s t1 s1 S samples s2 u)
  then have "sv_seen_salts s2 = sv_seen_salts s1" by (auto simp: on_env_def split: prod.splits)
  with store_turn show ?case by (simp add: salt_known_since_def)
qed simp

text \<open>C4: From the moment a request has passed the replay check and its salt is entered, and for five minutes, a request with
  that salt that arrives gets no answer: only the request counters change and the caller is reported once, whatever other
  requests, parts of requests that overlap, and maintenance have come in between, as long as the cache of at most 100,000 salts still
  holds the salt when the second request asks for it.\<close>

theorem replayed_request_refused:
  assumes "check_replay W (rx_pow_salt rx) s = (s1, Inr ())"
    and "server_run (sw_now_decode W) s1 t s2" "sw_now_decode W' < sw_now_decode W + const_mul MILLIS_IN_MINUTE 5"
    and "rpc_request_decode (sw_crypto W') (sw_compressor W') (sw_now_decode W') (k_verification_key_bytes (sid_keys (sv_server_id s2)))
       (k_pq_commitment_bytes (sid_keys (sv_server_id s2))) bs' = Inr rx'"
    and "rx_pow_salt rx' = rx_pow_salt rx" "\<not> sw_salt_dropped W' (rx_pow_salt rx)"
  shows "serve W' er' bs' s2 = (count_request W' (rx_payload_request_kind rx') s2, 1, Inr None)"
proof -
  have "salt_known_since s1 (rx_pow_salt rx) (sw_now_decode W)"
    using assms(1) by (auto simp: check_replay_def record_salt_def salt_known_since_def update_conv' split: if_splits)
  from server_run_salts[OF assms(2) this] have "salt_known_since s2 (rx_pow_salt rx) (sw_now_decode W)" by simp
  then have seen: "salt_seen W' s2 (rx_pow_salt rx')"
    using assms(3,5,6) by (auto simp: salt_known_since_def salt_seen_def split: option.splits)
  obtain s3 r3 where r: "serve W' er' bs' s2 = (s3, r3)" by (cases "serve W' er' bs' s2") auto
  from serve_decoded[OF r assms(4)] seen show ?thesis by (simp add: r)
qed

end
