(* ===== verification/Protocol.thy ===== *)
theory Protocol
  imports Dispatch "HOL-Library.Sublist"
begin

text \<open>
  What the handlers of \<open>server/handlers/dispatch.rs\<close> promise: which claims are granted, what a commit and a heal make of the stored bundle,
  which votes and which cached bundles are accepted, which addresses are fetched, and what the trending list holds. The store is
  the in-memory store of \<open>mem_environment_store.rs\<close> where a property speaks of what is stored.
\<close>

section \<open>Fetching\<close>

text \<open>An address block in the usual notation: the first bits of the address.\<close>

definition in_block :: "byte list \<Rightarrow> nat \<Rightarrow> byte list \<Rightarrow> bool" where
  "in_block prefix_bytes n o4 \<longleftrightarrow> take n (bits_of o4) = take n (bits_of prefix_bytes)"

definition protected_blocks :: "(byte list \<times> nat) list" where
  "protected_blocks = [([127, 0, 0, 0], 8), ([10, 0, 0, 0], 8), ([172, 16, 0, 0], 12), ([192, 168, 0, 0], 16),
     ([169, 254, 0, 0], 16), ([224, 0, 0, 0], 4), ([0, 0, 0, 0], 32), ([255, 255, 255, 255], 32), ([100, 64, 0, 0], 10)]"

lemma url_allowed_sound:
  assumes "url_allowed W url = Inr addrs"
  shows "starts_with url ''https://'' \<and> \<not> sw_is_ip_literal W (url_host url) \<and> sw_lookup_host W (url_host url) = Inr addrs
    \<and> addrs \<noteq> [] \<and> list_all (\<lambda>a. \<not> is_ssrf_protected_ip a) addrs"
  using assms by (auto simp: url_allowed_def ensure_def list_ex_iff list_all_iff split: if_splits)

lemma read_body_prefix:
  "length body \<le> URL_FETCH_MAX_BODY_BYTES \<Longrightarrow> read_body body chunks = Inr b \<Longrightarrow>
   length b \<le> URL_FETCH_MAX_BODY_BYTES \<and> (\<exists>rest. body @ concat (ok_values chunks) = b @ rest)"
proof (induction body chunks rule: read_body.induct)
  case (3 body chunk chunks)
  let ?k = "URL_FETCH_MAX_BODY_BYTES - length body"
  let ?b = "body @ take ?k chunk"
  have ok: "concat (ok_values (Inr chunk # chunks)) = chunk @ concat (ok_values chunks)" by (simp add: ok_values_def)
  show ?case
  proof (cases "URL_FETCH_MAX_BODY_BYTES \<le> length ?b")
    case True
    then have "b = ?b" using 3(3) by (simp only: read_body.simps Let_def if_True sum.inject)
    then show ?thesis unfolding ok using 3(2)
      by (intro conjI exI[of _ "drop ?k chunk @ concat (ok_values chunks)"]) simp_all
  next
    case False
    then have "take ?k chunk = chunk" using 3(2) by simp
    with False 3(1)[OF refl] 3(2,3) show ?thesis unfolding ok by (auto simp: Let_def)
  qed
qed (auto simp: ok_values_def)

lemma all_bytes: "list_all (\<lambda>i. P (word_of_int i)) [0..255] \<Longrightarrow> P (b :: byte)"
proof -
  assume a: "list_all (\<lambda>i. P (word_of_int i)) [0..255]"
  have "uint b < 2 ^ 8" using uint_bounded[of b] by simp
  then have "uint b \<in> set [0..255]" by simp
  with a show ?thesis by (metis (mono_tags, lifting) list_all_iff word_of_int_uint)
qed

lemma byte_blocks:
  "take 4 (byte_bits b) = take 4 (byte_bits 16) \<longleftrightarrow> 16 \<le> b \<and> b \<le> 31"
  "take 4 (byte_bits b) = take 4 (byte_bits 224) \<longleftrightarrow> 224 \<le> b \<and> b \<le> 239"
  "take 2 (byte_bits b) = take 2 (byte_bits 64) \<longleftrightarrow> b AND 0xC0 = 64"
  by (rule all_bytes[of _ b], code_simp)+


lemma byte_bits_inject: "byte_bits b = byte_bits c \<longleftrightarrow> b = c"
proof
  assume e: "byte_bits b = byte_bits c"
  have "bit b i = bit c i" if "i < 8" for i
  proof -
    have "byte_bits x ! (7 - i) = bit x i" for x
      using that by (simp add: byte_bits_def rev_nth del: upt_Suc)
    then show ?thesis using e by metis
  qed
  then show "b = c" by (intro bit_word_eqI) simp
qed simp

lemma take_bits_of_Cons:
  "8 \<le> n \<Longrightarrow> take n (bits_of (b # bs)) = byte_bits b @ take (n - 8) (bits_of bs)"
  "n \<le> 8 \<Longrightarrow> take n (bits_of (b # bs)) = take n (byte_bits b)"
  by simp_all

text \<open>The filter for server-side fetches is the list of address blocks of its documentation: loopback, private, link-local,
  multicast, unspecified, broadcast and carrier-grade NAT addresses, and the IPv6 addresses that embed one of them.\<close>

theorem ssrf_filter_blocks:
  "(is_ssrf_protected_ip (V4 [a, b, c, d]) \<longleftrightarrow> list_ex (\<lambda>(p, n). in_block p n [a, b, c, d]) protected_blocks)
   \<and> (is_ssrf_protected_ip (V4 [a, b, c, d]) \<longrightarrow>
        is_ssrf_protected_ip (V6 [0, 0, 0, 0, 0, 0xFFFF, word_cat a b, word_cat c d]))"
proof
  show "is_ssrf_protected_ip (V4 [a, b, c, d]) \<longleftrightarrow> list_ex (\<lambda>(p, n). in_block p n [a, b, c, d]) protected_blocks"
    by (simp add: is_ssrf_protected_ip_def v4_protected_def protected_blocks_def in_block_def take_bits_of_Cons
        byte_bits_inject byte_blocks del: bits_of_simps(2)) (simp add: byte_bits_inject)
  have "ucast (drop_bit 8 (word_cat x y :: 16 word)) = x" "ucast (word_cat x y :: 16 word) = y" for x y :: byte
    by (intro bit_word_eqI; auto simp: bit_ucast_iff bit_drop_bit_eq bit_word_cat_iff)+
  then have "to_ipv4_mapped [0, 0, 0, 0, 0, 0xFFFF, word_cat a b, word_cat c d] = Some [a, b, c, d]"
    by (simp add: to_ipv4_mapped_def)
  then show "is_ssrf_protected_ip (V4 [a, b, c, d]) \<longrightarrow>
        is_ssrf_protected_ip (V6 [0, 0, 0, 0, 0, 0xFFFF, word_cat a b, word_cat c d])"
    by (simp add: is_ssrf_protected_ip_def)
qed

text \<open>A preview is only ever fetched over https, from a name and not an address, with the connection pinned to addresses that were
  all looked up for that name and are all unprotected, and at most two megabytes of the body are kept.\<close>

theorem url_fetch_confined:
  assumes "x_FetchUrlPreview W bs s = (s', Inr r)"
  shows "s' = s \<and> (\<exists>url addrs n chunks body. fetch_url_preview_from_bytes (sw_json W) bs = Inr url
    \<and> starts_with url ''https://'' \<and> \<not> sw_is_ip_literal W (url_host url)
    \<and> sw_lookup_host W (url_host url) = Inr addrs \<and> addrs \<noteq> [] \<and> list_all (\<lambda>a. \<not> is_ssrf_protected_ip a) addrs
    \<and> sw_http_get W url (url_host url) addrs = Inr (n, chunks)
    \<and> read_body [] chunks = Inr body \<and> length body \<le> 2097152 \<and> prefix body (concat (ok_values chunks)))"
proof -
  from assms obtain url addrs n chunks body where
    "fetch_url_preview_from_bytes (sw_json W) bs = Inr url" "url_allowed W url = Inr addrs"
    "sw_http_get W url (url_host url) addrs = Inr (n, chunks)" "read_body [] chunks = Inr body" "s' = s"
    by (auto simp: x_FetchUrlPreview_def server_monad Let_def split: prod.splits sum.splits)
  then show ?thesis using url_allowed_sound[of W url addrs] read_body_prefix[of "[]" chunks body]
    by (auto simp: URL_FETCH_MAX_BODY_BYTES_def prefix_def)
qed


section \<open>Committing a post\<close>

lemma commit_from_bytes:
  assumes "json_ok (pj_bucket J) b" "json_ok (pj_claim_token J) t"
  shows "submit_post_commit_from_bytes J (submit_post_commit_new_to_bytes J b t x)
    = Inr \<lparr>sm_bucket_location = b, sm_submit_post_claim_token = t, sm_encoded_post_bytes = x\<rparr>"
  using assms by (simp add: submit_post_commit_from_bytes_def submit_post_commit_new_to_bytes_def read_json_ok read_json_ok_end)

text \<open>C40: The commit handler never looks at the signature of the claim token: a token that nobody signed works as one that the server
  issued, for any post that decodes with the base id of the bucket.\<close>

theorem commit_ignores_token_signature:
  assumes "json_ok (pj_bucket (sw_json W)) b" "json_ok (pj_claim_token (sw_json W)) t"
    and "json_ok (pj_claim_token (sw_json W)) (t\<lparr>spc_token_signature := forged\<rparr>)"
  shows "x_SubmitPostCommit W (submit_post_commit_new_to_bytes (sw_json W) b (t\<lparr>spc_token_signature := forged\<rparr>) x) s
    = x_SubmitPostCommit W (submit_post_commit_new_to_bytes (sw_json W) b t x) s"
  using assms by (simp add: x_SubmitPostCommit_def commit_from_bytes Let_def)

lemma on_env_Inr: "on_env m s = (s', Inr x) \<longleftrightarrow> (\<exists>e. m (sv_environment s) = (e, Inr x) \<and> s' = s\<lparr>sv_environment := e\<rparr>)"
  by (auto simp: on_env_def split: prod.splits)

lemma server_runs_Inr:
  "sret x s = (s', Inr y) \<longleftrightarrow> s' = s \<and> y = x"
  "slift r s = (s', Inr y) \<longleftrightarrow> s' = s \<and> r = Inr y"
  "sget g s = (s', Inr y) \<longleftrightarrow> s' = s \<and> y = g s"
  "supd h s = (s', Inr u) \<longleftrightarrow> s' = h s"
  "sguard b msg s = (s', Inr u) \<longleftrightarrow> s' = s \<and> b"
  "sfail msg s = (s', Inr y) \<longleftrightarrow> False"
  by (auto simp: server_monad ensure_def)

lemma mem_env_Inr:
  "get_post_bundle_metadata (mem_store_ops P) t i e = (e', Inr m) \<longleftrightarrow> e' = touch t i e \<and> mem_metadata_get P (e_store e) i = Inr m"
  "get_post_bundle_bytes (mem_store_ops P) t i e = (e', Inr x) \<longleftrightarrow> e' = touch t i e \<and> mem_bytes_get (e_store e) i = Inr x"
  "put_post_bundle_bytes (mem_store_ops P) t i bs e = (e', Inr u) \<longleftrightarrow>
     e' = (touch t i e)\<lparr>e_store := (e_store e)\<lparr>ms_bytes := AList.update i bs (ms_bytes (e_store e))\<rparr>\<rparr>"
  "put_post_bundle_metadata (mem_store_ops P) t i md k e = (e', Inr u) \<longleftrightarrow>
     e' = (touch t i e)\<lparr>e_store := (e_store e)\<lparr>ms_metadata := AList.update i (enc P md) (ms_metadata (e_store e))\<rparr>,
        e_size := fetch_add k (e_size e)\<rparr>"
  by (auto simp: get_post_bundle_metadata_def get_post_bundle_bytes_def put_post_bundle_bytes_def put_post_bundle_metadata_def
      on_store_def mem_ops touch_def)

lemmas run_Inr = sbind_Inr on_env_Inr server_runs_Inr mem_env_Inr


text \<open>The bundle that a handler works on: what is stored, or an empty one.\<close>

definition bundle_before :: "'s server_world \<Rightarrow> post_bundle_header \<Rightarrow> mem_store \<Rightarrow> id \<Rightarrow> post_bundle res" where
  "bundle_before W empty_header st loc = load_bundle W empty_header (map_of (ms_bytes st) loc)"

definition metadata_or_zero :: "post_bundle_metadata option \<Rightarrow> post_bundle_metadata" where
  "metadata_or_zero m = (case m of None \<Rightarrow> PostBundleMetadata_zero | Some m \<Rightarrow> m)"

lemma store_committed_spec:
  assumes "store_committed W b x i s = (s', Inr ())" "sw_store W = mem_store_ops P"
  shows "\<exists>old h0 h m.
      bundle_before W (fresh_header 0 (bl_location_id b) False False (sv_peer_self s)) (e_store (sv_environment s)) (bl_location_id b) = Inr old
    \<and> i \<notin> set (pbh_encoded_post_ids (pb_header old))
    \<and> mem_metadata_get P (e_store (sv_environment s)) (bl_location_id b) = Inr m
    \<and> append_post b (sw_now W) (metadata_or_zero m) i (length x) (pb_header old) = Inr h0
    \<and> pbh_signature_generate (sw_crypto W) (server_key s) h0 = Inr h
    \<and> sum_list (pbh_encoded_post_lengths h) \<le> USIZE_MAX
    \<and> e_store (sv_environment s') = (e_store (sv_environment s))
        \<lparr>ms_bytes := AList.update (bl_location_id b) (pb_to_bytes (pj_bundle_header (sw_json W))
             \<lparr>pb_header = h, pb_encoded_posts_bytes = pb_encoded_posts_bytes old @ x\<rparr>) (ms_bytes (e_store (sv_environment s))),
         ms_metadata := AList.update (bl_location_id b) (enc P ((metadata_or_zero m)
             \<lparr>pm_num_posts := unat (pbh_num_posts h), pm_overflowed := pbh_overflowed h, pm_sealed := pbh_sealed h,
              pm_size := sum_list (pbh_encoded_post_lengths h)\<rparr>)) (ms_metadata (e_store (sv_environment s)))\<rparr>
    \<and> e_size (sv_environment s') = fetch_add (length x) (e_size (sv_environment s))
    \<and> s' = s\<lparr>sv_environment := sv_environment s'\<rparr>"
proof -
  have k: "server_key (s\<lparr>sv_environment := e\<rparr>) = server_key s" for e by (simp add: server_key_def)
  show ?thesis using assms
    by (auto simp: store_committed_def Let_def run_Inr bundle_before_def checked_sum_def metadata_or_zero_def k
        touch_def mem_bytes_get_def split: if_splits)
qed

lemma append_post_fields:
  assumes "append_post b now m i n h = Inr h0" "pbh_signature_generate C sk h0 = Inr h'"
  shows "pbh_encoded_post_ids h' = pbh_encoded_post_ids h @ [i]" "pbh_encoded_post_lengths h' = pbh_encoded_post_lengths h @ [n]"
    "pbh_num_posts h' = pbh_num_posts h + 1" "unat (pbh_num_posts h) < 255" "pbh_time_millis h' = now"
    "pbh_overflowed h' \<longleftrightarrow> 20 < pbh_num_posts h' \<or> 30 < pm_num_posts_granted m"
    "pbh_sealed h' \<longleftrightarrow> pbh_overflowed h' \<or> bucket_elapsed b now"
    "pbh_location_id h' = pbh_location_id h" "pbh_peer h' = pbh_peer h"
  using assms
  by (auto simp: append_post_def pbh_signature_generate_def Let_def ENCODED_POST_BUNDLE_V1_OVERFLOWED_NUM_POSTS_def
      ENCODED_POST_BUNDLE_V1_OVERFLOWED_NUM_POSTS_GRANTED_def split: if_splits)

text \<open>C1: A commit that is answered with a receipt has put exactly one post, decodable with the bucket's base id and new to the
  bundle, at the end of the bundle of its location, has counted its bytes, and has touched no other location; the bundle is
  sealed from the twenty-first post, after thirty granted claims, or a minute after its bucket has ended. The receipt verifies.\<close>

theorem commit_appends_one_post:
  assumes "x_SubmitPostCommit W bs s = (s', Inr (CommitBody receipt))" "sw_store W = mem_store_ops P"
    and "key_pair_ok (sw_crypto W) (signature_key_bytes (server_key s)) (vkb_bytes (p_verification_key_bytes (sv_peer_self s)))"
    and "Peer_verify (sw_crypto W) (sv_peer_self s) = Inr ()"
  shows "\<exists>request post old new m.
      submit_post_commit_from_bytes (sw_json W) bs = Inr request
    \<and> decode_from_bytes (sw_post_env W) (sm_encoded_post_bytes request) (bl_base_id (sm_bucket_location request)) True False = Inr post
    \<and> (let b = sm_bucket_location request; loc = bl_location_id b; st = e_store (sv_environment s); st' = e_store (sv_environment s');
           h = pb_header old; h' = pb_header new
       in bundle_before W (fresh_header 0 loc False False (sv_peer_self s)) st loc = Inr old
        \<and> ep_post_id post \<notin> set (pbh_encoded_post_ids h)
        \<and> pbh_encoded_post_ids h' = pbh_encoded_post_ids h @ [ep_post_id post]
        \<and> pbh_encoded_post_lengths h' = pbh_encoded_post_lengths h @ [length (sm_encoded_post_bytes request)]
        \<and> pb_encoded_posts_bytes new = pb_encoded_posts_bytes old @ sm_encoded_post_bytes request
        \<and> unat (pbh_num_posts h') = unat (pbh_num_posts h) + 1
        \<and> mem_metadata_get P st loc = Inr m
        \<and> (pbh_sealed h' \<longleftrightarrow> 20 < pbh_num_posts h' \<or> 30 < pm_num_posts_granted (metadata_or_zero m) \<or> bucket_elapsed b (sw_now W))
        \<and> map_of (ms_bytes st') = (map_of (ms_bytes st))(loc \<mapsto> pb_to_bytes (pj_bundle_header (sw_json W)) new)
        \<and> e_size (sv_environment s') = fetch_add (length (sm_encoded_post_bytes request)) (e_size (sv_environment s))
        \<and> sv_kademlia s' = sv_kademlia s)
    \<and> commit_token_verify (sw_crypto W) receipt = Inr () \<and> spm_post_id receipt = ep_post_id post"
proof -
  from assms(1) obtain request post where r:
    "submit_post_commit_from_bytes (sw_json W) bs = Inr request"
    "decode_from_bytes (sw_post_env W) (sm_encoded_post_bytes request) (bl_base_id (sm_bucket_location request)) True False = Inr post"
    "store_committed W (sm_bucket_location request) (sm_encoded_post_bytes request) (ep_post_id post) s = (s', Inr ())"
    "receipt = commit_token_new (sw_crypto W) (sv_peer_self s) (sm_bucket_location request) (ep_post_id post) (server_key s)"
    by (auto simp: x_SubmitPostCommit_def Let_def run_Inr split: prod.splits)
  have v: "commit_token_verify (sw_crypto W) receipt = Inr ()" "spm_post_id receipt = ep_post_id post"
    unfolding r(4) using assms(3,4)
    by (auto intro!: commit_token.signed_verifies simp: commit_token_new_def)
  from store_committed_spec[OF r(3) assms(2)] obtain old h0 h m where c:
    "bundle_before W (fresh_header 0 (bl_location_id (sm_bucket_location request)) False False (sv_peer_self s))
       (e_store (sv_environment s)) (bl_location_id (sm_bucket_location request)) = Inr old"
    "ep_post_id post \<notin> set (pbh_encoded_post_ids (pb_header old))"
    "mem_metadata_get P (e_store (sv_environment s)) (bl_location_id (sm_bucket_location request)) = Inr m"
    "append_post (sm_bucket_location request) (sw_now W) (metadata_or_zero m) (ep_post_id post)
       (length (sm_encoded_post_bytes request)) (pb_header old) = Inr h0"
    "pbh_signature_generate (sw_crypto W) (server_key s) h0 = Inr h"
    "ms_bytes (e_store (sv_environment s')) = AList.update (bl_location_id (sm_bucket_location request))
       (pb_to_bytes (pj_bundle_header (sw_json W)) \<lparr>pb_header = h, pb_encoded_posts_bytes = pb_encoded_posts_bytes old @ sm_encoded_post_bytes request\<rparr>)
       (ms_bytes (e_store (sv_environment s)))"
    "e_size (sv_environment s') = fetch_add (length (sm_encoded_post_bytes request)) (e_size (sv_environment s))"
    "sv_kademlia s' = sv_kademlia s"
    by (metis (no_types, lifting) mem_store.select_convs(4) mem_store.simps(11) mem_store.surjective mem_store.update_convs(2,4) server.select_convs(3) server.surjective server.update_convs(1))
  note f = append_post_fields[OF c(4,5)]
  have "unat (pbh_num_posts h) = unat (pbh_num_posts (pb_header old)) + 1"
    using f(3,4) by (simp add: unat_word_ariths)
  then show ?thesis
    using r(1,2) v c(1-3,6-8) f
    by (intro exI[of _ request] exI[of _ post] exI[of _ old]
        exI[of _ "\<lparr>pb_header = h, pb_encoded_posts_bytes = pb_encoded_posts_bytes old @ sm_encoded_post_bytes request\<rparr>"] exI[of _ m])
      (simp add: Let_def update_conv' fun_upd_def)
qed


section \<open>Healing\<close>

lemma mem_env_runs:
  "get_post_bundle_metadata (mem_store_ops P) t i e = (touch t i e, mem_metadata_get P (e_store e) i)"
  "get_post_bundle_bytes (mem_store_ops P) t i e = (touch t i e, mem_bytes_get (e_store e) i)"
  "put_post_bundle_bytes (mem_store_ops P) t i bs e =
     ((touch t i e)\<lparr>e_store := (e_store e)\<lparr>ms_bytes := AList.update i bs (ms_bytes (e_store e))\<rparr>\<rparr>, Inr ())"
  "put_post_bundle_metadata (mem_store_ops P) t i md k e =
     ((touch t i e)\<lparr>e_store := (e_store e)\<lparr>ms_metadata := AList.update i (enc P md) (ms_metadata (e_store e))\<rparr>,
        e_size := fetch_add k (e_size e)\<rparr>, Inr ())"
  "put_post_feedback_if_more_powerful (mem_store_ops P) t i f e =
     ((touch t i e)\<lparr>e_store := (e_store e)\<lparr>ms_feedbacks := AList.update i
        (put_vote f (case map_of (ms_feedbacks (e_store e)) i of None \<Rightarrow> [] | Some es \<Rightarrow> es)) (ms_feedbacks (e_store e))\<rparr>\<rparr>, Inr ())"
  by (simp_all add: put_post_feedback_if_more_powerful_def get_post_bundle_metadata_def get_post_bundle_bytes_def put_post_bundle_bytes_def put_post_bundle_metadata_def
      on_store_def mem_ops touch_def)

lemma fetch_add_0: "c < 2 ^ 64 \<Longrightarrow> fetch_add 0 c = c"
  by (simp add: fetch_add_def)

definition healed_posts :: "post_bundle \<Rightarrow> (id \<times> bytes) list \<Rightarrow> (id \<times> bytes) list" where
  "healed_posts old posts = List.filter (\<lambda>(i, x). i \<notin> set (pbh_encoded_post_ids (pb_header old))) posts"

lemma store_healed_spec:
  assumes "store_healed W donor me posts s = (s', Inr True)" "sw_store W = mem_store_ops P"
  shows "\<exists>old m.
      bundle_before W (fresh_header 0 (pbh_location_id donor) (pbh_overflowed donor) (pbh_sealed donor) me)
        (e_store (sv_environment s)) (pbh_location_id donor) = Inr old
    \<and> healed_posts old posts \<noteq> []
    \<and> mem_metadata_get P (e_store (sv_environment s)) (pbh_location_id donor) = Inr m
    \<and> ms_metadata (e_store (sv_environment s')) = AList.update (pbh_location_id donor) (enc P ((metadata_or_zero m)
         \<lparr>pm_num_posts := unat (word_of_nat (length (pbh_encoded_post_ids (pb_header old)) + length (healed_posts old posts)) :: byte),
          pm_size := sum_list (pbh_encoded_post_lengths (pb_header old)) + sum_list (map (length \<circ> snd) (healed_posts old posts))\<rparr>))
         (ms_metadata (e_store (sv_environment s)))
    \<and> e_size (sv_environment s') = fetch_add 0 (e_size (sv_environment s))"
  using assms
  by (auto simp: store_healed_def Let_def run_Inr bundle_before_def checked_sum_def metadata_or_zero_def heal_append_def
      healed_posts_def pbh_signature_generate_def touch_def mem_bytes_get_def split: if_splits)

text \<open>A heal commit that adds posts declares no bytes to the store: the counter that triggers the decimation stays where it
  was while the stored sizes grow by the healed posts.\<close>

theorem heal_commit_not_counted:
  assumes "store_healed W donor me posts s = (s', Inr True)" "sw_store W = mem_store_ops P"
    and "mem_ok P (e_store (sv_environment s))" "e_size (sv_environment s) < 2 ^ 64"
    and "bundle_before W (fresh_header 0 (pbh_location_id donor) (pbh_overflowed donor) (pbh_sealed donor) me)
        (e_store (sv_environment s)) (pbh_location_id donor) = Inr old"
    and "stored_size_of (mem_store_ops P) (e_store (sv_environment s)) (pbh_location_id donor)
        = sum_list (pbh_encoded_post_lengths (pb_header old))"
  shows "e_size (sv_environment s') = e_size (sv_environment s)
    \<and> stored_size (mem_store_ops P) (e_store (sv_environment s'))
      = stored_size (mem_store_ops P) (e_store (sv_environment s)) + sum_list (map (length \<circ> snd) (healed_posts old posts))"
proof -
  let ?S = "mem_store_ops P" and ?st = "e_store (sv_environment s)" and ?loc = "pbh_location_id donor"
  from store_healed_spec[OF assms(1,2)] assms(5) obtain m' where h:
    "pm_size m' = sum_list (pbh_encoded_post_lengths (pb_header old)) + sum_list (map (length \<circ> snd) (healed_posts old posts))"
    "ms_metadata (e_store (sv_environment s')) = AList.update ?loc (enc P m') (ms_metadata ?st)"
    "e_size (sv_environment s') = fetch_add 0 (e_size (sv_environment s))" by force
  let ?st1 = "?st\<lparr>ms_metadata := AList.update ?loc (enc P m') (ms_metadata ?st)\<rparr>"
  have "so_metadata_put ?S ?loc m' ?st = Inr ?st1" by (simp add: mem_ops)
  from mem.stored_size_put[OF assms(3) this]
  have "stored_size ?S ?st1 = stored_size ?S ?st + sum_list (map (length \<circ> snd) (healed_posts old posts))"
    unfolding assms(6) h(1) by simp
  moreover have "same_metadata ?S ?st1 (e_store (sv_environment s'))"
    using h(2) by (simp add: same_metadata_def mem_store_ops_def mem_metadata_get_def)
  ultimately show ?thesis using mem.same_metadata_size h(3) fetch_add_0[OF assms(4)] by simp
qed

section \<open>How many claims are granted\<close>

definition metadata_ok :: "post_bundle_metadata \<Rightarrow> bool" where
  "metadata_ok m \<longleftrightarrow> pm_num_posts_granted m \<le> 31 \<and> (30 < pm_num_posts_granted m \<longrightarrow> pm_sealed m)"

text \<open>Everything that writes the metadata of a location on behalf of a request, whatever its result.\<close>

inductive bucket_run :: "post_bundle_metadata codec \<Rightarrow> id \<Rightarrow> nat \<Rightarrow> mem_store server \<Rightarrow> bool" for P loc where
  no_metadata: "ms_metadata (e_store (sv_environment s)) = [] \<Longrightarrow> bucket_run P loc 0 s"
| claim: "bucket_run P loc n s \<Longrightarrow> sw_store W = mem_store_ops P \<Longrightarrow> grant_claim W b i s = (s', r) \<Longrightarrow>
    bucket_run P loc (if bl_location_id b = loc \<and> (\<exists>t. r = Inr (Some t)) then n + 1 else n) s'"
| commit: "bucket_run P loc n s \<Longrightarrow> sw_store W = mem_store_ops P \<Longrightarrow> store_committed W b x i s = (s', r') \<Longrightarrow> bucket_run P loc n s'"
| heal: "bucket_run P loc n s \<Longrightarrow> sw_store W = mem_store_ops P \<Longrightarrow> store_healed W donor me posts s = (s', h) \<Longrightarrow> bucket_run P loc n s'"
| read_bundle: "bucket_run P loc n s \<Longrightarrow> sw_store W = mem_store_ops P \<Longrightarrow> own_post_bundle W b p s = (s', o1) \<Longrightarrow> bucket_run P loc n s'"

text \<open>What these operations make of the metadata of a location, apart from a claim: they keep the number of granted claims,
  and a bundle that is sealed for having granted too many stays sealed.\<close>

definition meta_write :: "post_bundle_metadata codec \<Rightarrow> id \<Rightarrow> mem_store \<Rightarrow> mem_store \<Rightarrow> bool" where
  "meta_write P loc st st' \<longleftrightarrow> ms_metadata st' = ms_metadata st \<or>
     (\<exists>m m'. mem_metadata_get P st loc = Inr m \<and> pm_num_posts_granted m' = pm_num_posts_granted (metadata_or_zero m)
        \<and> (30 < pm_num_posts_granted m' \<and> pm_sealed (metadata_or_zero m) \<longrightarrow> pm_sealed m')
        \<and> ms_metadata st' = AList.update loc (enc P m') (ms_metadata st))"

definition store_of :: "mem_store server \<Rightarrow> mem_store" where
  "store_of s = e_store (sv_environment s)"

lemma meta_write_shapes:
  "meta_write P loc st st"
  "meta_write P loc st (st\<lparr>ms_bytes := y\<rparr>)"
  "mem_metadata_get P st loc = Inr m \<Longrightarrow> pm_num_posts_granted m' = pm_num_posts_granted (metadata_or_zero m) \<Longrightarrow>
    (30 < pm_num_posts_granted m' \<Longrightarrow> pm_sealed (metadata_or_zero m) \<Longrightarrow> pm_sealed m') \<Longrightarrow>
    meta_write P loc st (st\<lparr>ms_metadata := AList.update loc (enc P m') (ms_metadata st)\<rparr>)"
  "mem_metadata_get P st loc = Inr m \<Longrightarrow> pm_num_posts_granted m' = pm_num_posts_granted (metadata_or_zero m) \<Longrightarrow>
    (30 < pm_num_posts_granted m' \<Longrightarrow> pm_sealed (metadata_or_zero m) \<Longrightarrow> pm_sealed m') \<Longrightarrow>
    meta_write P loc st (st\<lparr>ms_bytes := y, ms_metadata := AList.update loc (enc P m') (ms_metadata st)\<rparr>)"
  by (auto simp: meta_write_def)

lemma commit_meta:
  assumes "store_committed W b x i s = (s', r)" "sw_store W = mem_store_ops P"
  shows "meta_write P (bl_location_id b) (store_of s) (store_of s')"
  using assms
  by (auto simp: store_committed_def Let_def server_monad mem_env_runs store_of_def touch_def metadata_or_zero_def append_post_fields
      split: sum.splits prod.splits if_splits intro!: meta_write_shapes)

lemma heal_meta:
  assumes "store_healed W donor me posts s = (s', r)" "sw_store W = mem_store_ops P"
  shows "meta_write P (pbh_location_id donor) (store_of s) (store_of s')"
  using assms
  by (auto simp: store_healed_def Let_def server_monad mem_env_runs store_of_def touch_def metadata_or_zero_def
      split: sum.splits prod.splits if_splits intro!: meta_write_shapes)

lemma read_meta:
  assumes "own_post_bundle W b p s = (s', r)" "sw_store W = mem_store_ops P"
  shows "meta_write P (bl_location_id b) (store_of s) (store_of s')"
  using assms
  by (auto simp: own_post_bundle_def stored_bundle_refreshed_def resign_bundle_def Let_def server_monad mem_env_runs
      store_of_def touch_def metadata_or_zero_def split: sum.splits prod.splits if_splits option.splits intro!: meta_write_shapes)

lemma grant_claim_cases:
  assumes "grant_claim W b i s = (s', r)" "sw_store W = mem_store_ops P"
  shows "store_of s' = store_of s \<and> (\<forall>t. r \<noteq> Inr (Some t)) \<or>
    (\<exists>m. mem_metadata_get P (store_of s) (bl_location_id b) = Inr m \<and> \<not> pm_sealed (metadata_or_zero m)
      \<and> store_of s' = (store_of s)\<lparr>ms_metadata := AList.update (bl_location_id b)
           (enc P (grant_update b (sw_now W) (metadata_or_zero m))) (ms_metadata (store_of s))\<rparr>
      \<and> ((\<exists>t. r = Inr (Some t)) \<longleftrightarrow> \<not> pm_sealed (grant_update b (sw_now W) (metadata_or_zero m))))"
  using assms
  by (auto simp: grant_claim_def Let_def server_monad mem_env_runs store_of_def touch_def metadata_or_zero_def
      split: sum.splits prod.splits if_splits)

text \<open>The invariant: the metadata counts the tokens given out.\<close>

definition tokens_counted :: "post_bundle_metadata codec \<Rightarrow> id \<Rightarrow> nat \<Rightarrow> mem_store \<Rightarrow> bool" where
  "tokens_counted P loc n st = (case map_of (ms_metadata st) loc of
     None \<Rightarrow> n = 0
   | Some x \<Rightarrow> (case dec P x of None \<Rightarrow> False | Some m \<Rightarrow> n \<le> pm_num_posts_granted m \<and> n \<le> 30 \<and> metadata_ok m))"

lemma meta_write_counted:
  assumes "meta_write P loc' st st'" "tokens_counted P loc n st" "\<forall>m. dec P (enc P m) = Some m"
  shows "tokens_counted P loc n st'"
  using assms
  by (auto simp: meta_write_def tokens_counted_def mem_metadata_get_def metadata_or_zero_def metadata_ok_def update_conv'
      of_option_def PostBundleMetadata_zero_def split: option.splits if_splits)

lemma claim_counted:
  assumes "grant_claim W b i s = (s', r)" "sw_store W = mem_store_ops P" "tokens_counted P loc n (store_of s)"
    "\<forall>m. dec P (enc P m) = Some m"
  shows "tokens_counted P loc (if bl_location_id b = loc \<and> (\<exists>t. r = Inr (Some t)) then n + 1 else n) (store_of s')"
  using grant_claim_cases[OF assms(1,2)] assms(3,4)
  by (elim disjE exE)
    (auto simp: grant_update_def tokens_counted_def mem_metadata_get_def metadata_ok_def update_conv' of_option_def
      PostBundleMetadata_zero_def metadata_or_zero_def Let_def ENCODED_POST_BUNDLE_V1_OVERFLOWED_NUM_POSTS_GRANTED_def
      ENCODED_POST_BUNDLE_V1_OVERFLOWED_NUM_POSTS_def split: if_splits option.splits)

text \<open>C2: From an empty store, and as long as the location is not decimated, no more than thirty claim tokens are given out for a
  location, however claims, commits, heals and reads of any locations, at any clock, interleave and fail.\<close>

theorem claims_bounded:
  assumes "bucket_run P loc n s" "\<forall>m. dec P (enc P m) = Some m"
  shows "n \<le> 30 \<and> tokens_counted P loc n (store_of s)"
proof -
  have "tokens_counted P loc n (store_of s)"
    using assms(1)
  proof (induction rule: bucket_run.induct)
    case (no_metadata s)
    then show ?case by (simp add: tokens_counted_def store_of_def)
  next
    case (claim n s W b i s' r)
    then show ?case using claim_counted assms(2) by blast
  next
    case (commit n s W b x i s' r')
    then show ?case using meta_write_counted[OF commit_meta] assms(2) by blast
  next
    case (heal n s W donor me posts s' h)
    then show ?case using meta_write_counted[OF heal_meta] assms(2) by blast
  next
    case (read_bundle n s W b p s' o1)
    then show ?case using meta_write_counted[OF read_meta] assms(2) by blast
  qed
  then show ?thesis by (auto simp: tokens_counted_def split: option.splits)
qed


section \<open>Claims\<close>

text \<open>C11: A token is only given for a post whose header decodes and is signed under the bucket's base id, whose claim carries the work
  that its length, its links and its bucket ask for, that falls into the bucket, was written recently, is linked to the
  base id, and, in a user's own bucket, is by that user; by a server among the nearest that it knows.\<close>

theorem claim_granted_only_if:
  assumes "x_SubmitPostClaim W pow bs s = (s', Inr (ClaimBody r))" "scr_submit_post_claim_token r = Some token"
  shows "\<exists>request post p minimum author peers. submit_post_claim_from_bytes (sw_json W) bs = Inr request
    \<and> (let b = sc_bucket_location request; h = ep_header post in
          decode_from_bytes (sw_post_env W) (sc_encoded_post_bytes request) (bl_base_id b) False False = Inr post
        \<and> pow = Some p \<and> get_minimum_post_pow (ph_post_length h) (length (ph_linked_base_ids h)) (bl_duration b) = Inr minimum
        \<and> minimum \<le> pp_pow p
        \<and> BucketLocation_validate (sw_crypto W) b = Inr () \<and> bl_duration b \<in> set BUCKET_DURATIONS
        \<and> round_down_to_bucket_start (ph_time_millis h) (bl_duration b) = Inr (bl_bucket_time_millis b)
        \<and> \<bar>time_sub (sw_now W) (ph_time_millis h)\<bar> \<le> CLIENT_POST_TIMESTAMP_DELTA_THRESHOLD
        \<and> bl_base_id b \<in> set (ph_linked_base_ids h)
        \<and> post_header_client_id (sw_crypto W) h = Inr author \<and> (bl_bucket_type b = User \<longrightarrow> bl_base_id b = cid_id author)
        \<and> get_peers_for_key p_id (sw_sort_desc W) (sv_kademlia s) (bl_location_id b) REDUNDANT_SERVERS_PER_POST = Inr (peers, True)
        \<and> token = claim_token_new (sw_crypto W) (sv_peer_self s) b (ep_post_id post) (server_key s))"
proof -
  from assms obtain request post peers among s1 where r:
    "submit_post_claim_from_bytes (sw_json W) bs = Inr request" "check_claim W pow request = Inr post"
    "get_peers_for_key p_id (sw_sort_desc W) (sv_kademlia s) (bl_location_id (sc_bucket_location request)) REDUNDANT_SERVERS_PER_POST
      = Inr (peers, among)" "among" "grant_claim W (sc_bucket_location request) (ep_post_id post) s = (s1, Inr (Some token))"
    by (auto simp: x_SubmitPostClaim_def Let_def sbind_Inr server_runs_Inr peers_for_key_def split: prod.splits if_splits)
  have "token = claim_token_new (sw_crypto W) (sv_peer_self s) (sc_bucket_location request) (ep_post_id post) (server_key s)"
    using r(5) by (auto simp: grant_claim_def Let_def sbind_Inr server_runs_Inr on_env_Inr server_key_def split: if_splits)
  moreover obtain p where "pow = Some p" using r(2) by (cases pow) (auto simp: check_claim_def Let_def of_option_def)
  moreover have "bucket_duration_known (sc_bucket_location request) \<longleftrightarrow> bl_duration (sc_bucket_location request) \<in> set BUCKET_DURATIONS"
    by (simp add: bucket_duration_known_def)
  ultimately show ?thesis using r(1-4)
    by (auto simp: check_claim_def Let_def of_option_def ensure_def duration_abs_def split: if_splits)
qed


section \<open>Votes\<close>

text \<open>A submitted vote is stored only if the request did the work that votes ask for, the vote's own work verifies, the server is
  among the nearest and the voted post is in its bundle; otherwise the votes stay as they are.\<close>

theorem submitted_vote_checked:
  assumes "x_SubmitPostFeedback W pow bs s = (s', Inr (FeedbackBody r))" "sw_store W = mem_store_ops P"
  shows "\<exists>request p. submit_post_feedback_from_bytes (sw_json W) bs = Inr request \<and> pow = Some p \<and> 20 \<le> pp_pow p
    \<and> feedback_pow_verify (sw_crypto W) (sf_encoded_post_feedback request) = Inr ()
    \<and> (let loc = bl_location_id (sf_bucket_location request); f = sf_encoded_post_feedback request;
           votes_before = ms_feedbacks (store_of s); votes_after = ms_feedbacks (store_of s')
       in if spfr_accepted r
          then (\<exists>x bundle. map_of (ms_bytes (store_of s)) loc = Some x
                 \<and> pb_from_bytes (pj_bundle_header (sw_json W)) x False = Inr bundle
                 \<and> fb_post_id f \<in> set (pbh_encoded_post_ids (pb_header bundle))
                 \<and> votes_after = AList.update loc (put_vote f (case map_of votes_before loc of None \<Rightarrow> [] | Some es \<Rightarrow> es)) votes_before)
          else votes_after = votes_before)"
proof -
  from assms(1) obtain request p among peers s1 where r:
    "submit_post_feedback_from_bytes (sw_json W) bs = Inr request" "pow = Some p" "POW_MINIMUM_PER_FEEDBACK \<le> pp_pow p"
    "feedback_pow_verify (sw_crypto W) (sf_encoded_post_feedback request) = Inr ()"
    "feedback_welcome W (bl_location_id (sf_bucket_location request)) among (fb_post_id (sf_encoded_post_feedback request)) s
      = (s1, Inr (spfr_accepted r))"
    "(if spfr_accepted r then on_env (put_post_feedback_if_more_powerful (sw_store W) (sw_now W)
        (bl_location_id (sf_bucket_location request)) (sf_encoded_post_feedback request)) else sret ()) s1 = (s', Inr ())"
    by (auto simp: x_SubmitPostFeedback_def Let_def sbind_Inr server_runs_Inr peers_for_key_def of_option_def
        split: prod.splits option.splits)
  from r(5) assms(2) have w: "ms_feedbacks (store_of s1) = ms_feedbacks (store_of s)"
    "spfr_accepted r \<Longrightarrow> \<exists>x bundle. map_of (ms_bytes (store_of s)) (bl_location_id (sf_bucket_location request)) = Some x
       \<and> pb_from_bytes (pj_bundle_header (sw_json W)) x False = Inr bundle
       \<and> fb_post_id (sf_encoded_post_feedback request) \<in> set (pbh_encoded_post_ids (pb_header bundle))"
    by (auto simp: feedback_welcome_def run_Inr store_of_def touch_def mem_bytes_get_def split: if_splits option.splits)
  have "20 \<le> pp_pow p" using r(3) by (simp add: pow_minimums)
  with r(1,2,4,6) w assms(2) show ?thesis
    by (auto simp: run_Inr put_post_feedback_if_more_powerful_def on_store_def mem_ops touch_def store_of_def split: if_splits)
qed

text \<open>Healed votes are not checked: whoever sends a vote for a post that the server holds, with any salt and any claimed work, has it
  stored, and it wins against every honest vote of less work.\<close>

theorem healed_vote_unchecked:
  assumes "sw_store W = mem_store_ops P" "wf_id loc" "wf_feedback f"
    and "get_peers_for_key p_id (sw_sort_desc W) (sv_kademlia s) loc REDUNDANT_SERVERS_PER_POST = Inr (peers, True)"
    and "map_of (ms_bytes (store_of s)) loc = Some x" "pb_from_bytes (pj_bundle_header (sw_json W)) x False = Inr bundle"
    and "fb_post_id f \<in> set (pbh_encoded_post_ids (pb_header bundle))"
    and "case map_of (ms_feedbacks (store_of s)) loc of None \<Rightarrow> True
       | Some es \<Rightarrow> list_all (\<lambda>g. same_vote g f \<longrightarrow> fb_pow g < fb_pow f) es"
  shows "\<exists>s' es. x_HealPostBundleFeedback W (id_bytes loc @ feedback_encode_to_bytes f) s = (s', Inr (HealFeedbackBody 1))
    \<and> map_of (ms_feedbacks (store_of s')) loc = Some es \<and> f \<in> set es"
proof -
  have dec: "heal_feedback_from_bytes (id_bytes loc @ feedback_encode_to_bytes f)
      = Inr \<lparr>hf_location_id = loc, hf_encoded_post_feedbacks = [f]\<rparr>"
    using assms(2,3) read_feedbacks_encoded[of "[f]"]
    by (cases loc) (simp add: heal_feedback_from_bytes_def wf_newtypes byte_counts split_to_append from_slice_Inr rbind_ensure)
  have put: "f \<in> set (put_vote f es)" if "list_all (\<lambda>g. same_vote g f \<longrightarrow> fb_pow g < fb_pow f) es" for es
    using that by (induction es) (auto simp: not_le)
  show ?thesis
    using assms(1,4-8) put
    by (auto simp: x_HealPostBundleFeedback_def dec sbind_def slift_def peers_for_key_def sret_def on_env_def mem_env_runs Let_def
        touch_def store_of_def mem_bytes_get_def update_conv' split: option.splits)
qed


section \<open>Uploads to the caches\<close>

definition cached_in :: "post_bundle_cache \<Rightarrow> id \<Rightarrow> id \<Rightarrow> cached_bundle \<Rightarrow> bool" where
  "cached_in c loc originator cb \<longleftrightarrow> (\<exists>e. (loc, e) \<in> set (pbc_bundles c) \<and> (originator, cb) \<in> set (le_bundles e))"

lemma evict_worst_subset: "set (evict_worst m loc es) \<subseteq> set es"
proof (induction "length es" arbitrary: es rule: less_induct)
  case less
  show ?case
  proof (cases "m < length es")
    case True
    then obtain k where k: "min_by_rank loc es = Some k" "k \<in> fst ` set es" using min_by_rank_Some[of es loc] by force
    then have "length (AList.delete k es) < length es" by (auto simp: AList.delete_eq intro!: length_filter_less)
    from less[OF this] have "set (evict_worst m loc (AList.delete k es)) \<subseteq> set es" by (auto simp: AList.delete_eq)
    then show ?thesis using k True by (subst evict_worst.simps) auto
  qed (subst evict_worst.simps, auto)
qed

lemma on_upload_cached:
  assumes "pbc_on_upload ev loc originator bs t is_sealed c = (kept, c')" "cached_in c' loc' o1 cb"
  shows "cached_in c loc' o1 cb \<or> loc' = loc \<and> o1 = originator \<and> ca_bytes cb = bs \<and> ca_expires_at cb = cached_expiry is_sealed t"
  using assms
  by (auto simp: pbc_on_upload_def Let_def cached_in_def dest!: map_of_alive_in subsetD[OF set_update_subset] subsetD[OF evict_worst_subset]
      subsetD[OF set_alive_subset] split: option.splits)

lemma upload_bundles_cached:
  assumes "upload_bundles W b xs acc s = (s', r)" "cached_in (sv_post_bundle_cache s') loc o1 cb"
  shows "cached_in (sv_post_bundle_cache s) loc o1 cb \<or> loc = bl_location_id b \<and> ca_bytes cb \<in> set xs
    \<and> (\<exists>bundle. cacheable_bundle W b (ca_bytes cb) = Inr bundle \<and> o1 = p_id (pbh_peer (pb_header bundle)))"
  using assms
proof (induction xs arbitrary: acc s)
  case (Cons x xs)
  show ?case
  proof (cases "cacheable_bundle W b x")
    case (Inl e)
    then show ?thesis using Cons by (cases e) auto
  next
    case (Inr pb)
    obtain kept c where u: "pbc_on_upload (sw_bundle_dropped W) (bl_location_id b) (p_id (pbh_peer (pb_header pb))) x (sw_now W)
        (pbh_sealed (pb_header pb)) (sv_post_bundle_cache s) = (kept, c)" by fastforce
    let ?s1 = "s\<lparr>sv_post_bundle_cache := c\<rparr>"
    have "upload_bundles W b xs (acc \<or> kept) ?s1 = (s', r)" using Cons.prems(1) Inr u by simp
    from Cons.IH[OF this Cons.prems(2)] consider "cached_in c loc o1 cb"
      | "loc = bl_location_id b" "ca_bytes cb \<in> set xs" "\<exists>bundle. cacheable_bundle W b (ca_bytes cb) = Inr bundle \<and> o1 = p_id (pbh_peer (pb_header bundle))"
      by auto
    then show ?thesis
    proof cases
      case 1
      from on_upload_cached[OF u this] show ?thesis using Inr by auto
    next
      case 2
      then show ?thesis by auto
    qed
  qed
qed simp

text \<open>C27: A cache only takes bundles from the holder of a valid, unexpired token of this server for the location, and only bundles that
  are signed by the peer they are filed under and whose every post decodes with the base id of the location's bucket.\<close>

theorem cached_bundles_verified:
  assumes "x_CachePostBundle W bs s = (s', Inr r)" "cached_in (sv_post_bundle_cache s') loc originator cb"
    and "\<not> cached_in (sv_post_bundle_cache s) loc originator cb"
  shows "\<exists>request bundle. cache_post_bundle_from_bytes (sw_json W) bs = Inr request
    \<and> (let token = cb_token request; b = crt_bucket_location token in
        p_id (crt_peer token) = p_id (sv_peer_self s) \<and> cache_token_verify (sw_crypto W) token = Inr () \<and> sw_now W \<le> crt_expires_at token
      \<and> loc = bl_location_id b \<and> ca_bytes cb \<in> set (cb_encoded_post_bundles request)
      \<and> pb_from_bytes (pj_bundle_header (sw_json W)) (ca_bytes cb) True = Inr bundle
      \<and> pb_verify (sw_post_env W) (bl_base_id b) bundle = Inr () \<and> originator = p_id (pbh_peer (pb_header bundle)))"
proof -
  from assms(1) obtain request acc s1 where u: "cache_post_bundle_from_bytes (sw_json W) bs = Inr request"
    "cache_token_ok W (sv_peer_self s) (cb_token request) = Inr ()"
    "upload_bundles W (crt_bucket_location (cb_token request)) (cb_encoded_post_bundles request) False s = (s', Inr acc)"
    by (auto simp: x_CachePostBundle_def sbind_Inr server_runs_Inr)
  from upload_bundles_cached[OF u(3) assms(2)] assms(3) u(1,2) show ?thesis
    by (auto simp: cache_token_ok_def ensure_def cacheable_bundle_def cache_token_is_expired_def Let_def not_less split: if_splits)
qed

section \<open>Trending\<close>

lemma top_up_loop_spec:
  "length tags \<le> target \<Longrightarrow> \<exists>fill. top_up_loop lower target fs seen tags = tags @ fill
     \<and> length (tags @ fill) \<le> target \<and> set (map th_hashtag fill) \<subseteq> set fs \<and> list_all (\<lambda>t. th_count t = 0) fill
     \<and> distinct (map (normalise_hashtag lower \<circ> th_hashtag) fill)
     \<and> (\<forall>t \<in> set fill. normalise_hashtag lower (th_hashtag t) \<notin> seen)"
proof (induction fs arbitrary: seen tags)
  case (Cons f fs)
  consider "target \<le> length tags" | "\<not> target \<le> length tags" "normalise_hashtag lower f \<in> seen"
    | "\<not> target \<le> length tags" "normalise_hashtag lower f \<notin> seen" by blast
  then show ?case
  proof cases
    case 1
    then show ?thesis using Cons.prems by (intro exI[of _ "[]"]) simp
  next
    case 2
    with Cons.IH[OF Cons.prems, of seen] show ?thesis by fastforce
  next
    case 3
    note False = this
    let ?t = "\<lparr>th_hashtag = f, th_count = 0\<rparr>"
    from False Cons.IH[of "tags @ [?t]" "insert (normalise_hashtag lower f) seen"] obtain fill where
      "top_up_loop lower target fs (insert (normalise_hashtag lower f) seen) (tags @ [?t]) = tags @ ?t # fill"
      "length (tags @ ?t # fill) \<le> target" "set (map th_hashtag fill) \<subseteq> set fs" "list_all (\<lambda>t. th_count t = 0) fill"
      "distinct (map (normalise_hashtag lower \<circ> th_hashtag) fill)"
      "\<forall>t \<in> set fill. normalise_hashtag lower (th_hashtag t) \<notin> insert (normalise_hashtag lower f) seen"
      by (auto simp: not_le comp_def)
    with False show ?thesis by (intro exI[of _ "?t # fill"]) (auto simp: comp_def)
  qed
qed (auto intro!: exI[of _ "[]"])

text \<open>A trending answer is never longer than asked for: first the real tags, most authors first when they are freshly computed,
  then fallback tags with count zero, none of which repeats a tag of the list in another spelling.\<close>

theorem trending_answer:
  assumes "x_TrendingHashtagsFetch W bs s = (s', Inr (TrendingBody tags))"
  shows "\<exists>limit real fill. trending_fetch_from_bytes (sw_json W) bs = Inr limit \<and> tags = real @ fill \<and> length tags \<le> limit
    \<and> list_all (\<lambda>t. th_count t = 0 \<and> th_hashtag t \<in> {''hashiverse'', ''news''}) fill
    \<and> distinct (map (normalise_hashtag (sw_lowercase W) \<circ> th_hashtag) fill)
    \<and> (\<forall>t \<in> set fill. \<forall>u \<in> set real. normalise_hashtag (sw_lowercase W) (th_hashtag t) \<noteq> normalise_hashtag (sw_lowercase W) (th_hashtag u))
    \<and> (sv_trending_hashtags_response_cache s = None \<longrightarrow>
         sorted (map (\<lambda>t. - int (th_count t)) real) \<and> list_all (\<lambda>t. 0 < th_count t) real \<and> sv_trending_hashtags s' = sv_trending_hashtags s)"
proof -
  from assms obtain limit real where r: "trending_fetch_from_bytes (sw_json W) bs = Inr limit"
    "tags = top_up_trending_hashtags_with_fallback (sw_lowercase W) limit TRENDING_HASHTAGS_FALLBACK (take limit real)"
    "sv_trending_hashtags_response_cache s = None \<longrightarrow> real = trending_now W s \<and> sv_trending_hashtags s' = sv_trending_hashtags s"
    by (auto simp: x_TrendingHashtagsFetch_def sbind_Inr server_runs_Inr split: option.splits prod.splits if_splits)
  let ?real = "take limit real"
  obtain fill where f: "tags = ?real @ fill" "length (?real @ fill) \<le> limit"
    "set (map th_hashtag fill) \<subseteq> set TRENDING_HASHTAGS_FALLBACK" "list_all (\<lambda>t. th_count t = 0) fill"
    "distinct (map (normalise_hashtag (sw_lowercase W) \<circ> th_hashtag) fill)"
    "\<forall>t \<in> set fill. normalise_hashtag (sw_lowercase W) (th_hashtag t) \<notin> set (map (\<lambda>t. normalise_hashtag (sw_lowercase W) (th_hashtag t)) ?real)"
  proof (cases "limit \<le> length real")
    case True
    then have "tags = ?real @ []" using r(2) by (simp add: top_up_trending_hashtags_with_fallback_def)
    then show ?thesis using that[of "[]"] by simp
  next
    case False
    then have "tags = top_up_loop (sw_lowercase W) limit TRENDING_HASHTAGS_FALLBACK
        (set (map (\<lambda>t. normalise_hashtag (sw_lowercase W) (th_hashtag t)) ?real)) ?real"
      using r(2) by (simp add: top_up_trending_hashtags_with_fallback_def)
    then show ?thesis using top_up_loop_spec[of ?real limit "sw_lowercase W" TRENDING_HASHTAGS_FALLBACK
        "set (map (\<lambda>t. normalise_hashtag (sw_lowercase W) (th_hashtag t)) ?real)"] that by fastforce
  qed
  have now: "sorted (map (\<lambda>t. - int (th_count t)) (take n (trending_now W s)))" "list_all (\<lambda>t. 0 < th_count t) (take n (trending_now W s))" for n
    by (auto simp: trending_now_def sorted_sort_key take_map[symmetric] intro: sorted_wrt_take simp: list_all_iff dest!: in_set_takeD)
  show ?thesis
    using r(1,3) f now[of limit]
    by (intro exI[of _ limit] exI[of _ ?real] exI[of _ fill])
      (auto simp: TRENDING_HASHTAGS_FALLBACK_def list_all_iff image_subset_iff)
qed

end
