(* ===== verification/Samples.thy ===== *)
theory Samples
  imports Protocol Gatherer
begin

text \<open>
  A concrete world in which the properties are exercised: constant digests, a signature scheme with one signature, one server
  with its own peer record, one bucket and one post without text. Each theorem below applies one property there.
\<close>

definition const_codec :: "'a \<Rightarrow> 'a codec" where
  "const_codec v = \<lparr>enc = (\<lambda>x. []), dec = (\<lambda>x. Some v)\<rparr>"

lemma const_codec_ok: "json_ok (const_codec v) v"
  by (simp add: json_ok_def const_codec_def)

definition toy_signature :: signature where
  "toy_signature = Signature (replicate 64 7)"

definition toy_pow :: peer_pow where
  "toy_pow = PeerPow_zero\<lparr>pp_pow := 255\<rparr>"

definition toy_peer :: peer where
  "toy_peer = (Peer_zero ''1'')\<lparr>p_pow_initial := toy_pow, p_pow_current_day := toy_pow, p_pow_current_month := toy_pow,
     p_signature := toy_signature\<rparr>"

lemma toy_peer_verify: "Peer_verify toy_crypto toy_peer = Inr ()"
  by code_simp

definition toy_location :: bucket_location where
  "toy_location = \<lparr>bl_bucket_type = User, bl_base_id = Id_zero, bl_duration = MILLIS_IN_MONTH, bl_bucket_time_millis = 0,
     bl_location_id = Id_zero\<rparr>"

lemma toy_location_valid: "BucketLocation_validate toy_crypto toy_location = Inr ()"
  by (simp add: BucketLocation_validate_def BucketLocation_new_def round_down_to_bucket_start_def checked_div_def toy_location_def
      bucket_hash_def hash_multiple_def toy_crypto_def Id_from_hash_def Id_zero_def byte_counts I64_MIN_def millis_values)

definition toy_post_header :: post_header where
  "toy_post_header = \<lparr>ph_verification_key_bytes = VerificationKeyBytes_zero, ph_pq_commitment_bytes = PQCommitmentBytes_zero,
     ph_time_millis = 0, ph_post_length = 0, ph_linked_base_ids = [Id_zero], ph_sig_direct = Some (),
     ph_sig_ephemeral = None, ph_sig_delegation = None\<rparr>"

definition toy_env :: post_env where
  "toy_env = \<lparr>pe_crypto = toy_crypto, pe_aead = toy_aead, pe_compressor = toy_compressor,
     pe_header_json = const_codec toy_post_header\<rparr>"

text \<open>The header is encrypted under the base id of the bucket; the body is empty.\<close>

definition toy_compressed :: bytes where
  "toy_compressed = (case compress_for_size toy_compressor [] of Inl e \<Rightarrow> [] | Inr g \<Rightarrow> g_to_bytes g)"

definition toy_header_encrypted :: bytes where
  "toy_header_encrypted =
     (case encrypt_weak toy_aead (replicate 32 3) [replicate 12 0] (replicate 12 2) toy_compressed [id_bytes Id_zero] of
        Inl e \<Rightarrow> [] | Inr x \<Rightarrow> x)"

definition toy_post_bytes :: bytes where
  "toy_post_bytes = id_bytes Id_zero @ signature_bytes toy_signature @ [1] @ replicate 32 0 @ replicate 32 0
     @ be_bytes 4 (length toy_header_encrypted) @ be_bytes 4 0 @ toy_header_encrypted"

definition toy_post :: encoded_post where
  "toy_post = \<lparr>ep_post_id = Id_zero, ep_signature = toy_signature, ep_header = toy_post_header, ep_post = []\<rparr>"

lemma toy_header_opens:
  "\<exists>g. decrypt toy_aead toy_header_encrypted (id_bytes Id_zero) = Inr toy_compressed
     \<and> decompress toy_compressor toy_compressed = Inr g" "length toy_header_encrypted < 4294967296"
proof -
  obtain g h where g: "compress_for_size toy_compressor [] = Inr g" "decompress toy_compressor (g_to_bytes g) = Inr h" "g_len g \<le> 1"
    using compress_size_ok[of toy_compressor "[]"] toy_compressor_laws by auto
  obtain x where x: "encrypt_weak toy_aead (replicate 32 3) [replicate 12 0] (replicate 12 2) toy_compressed [id_bytes Id_zero] = Inr x"
      "length x < 4294967296"
    using g(3) by (simp add: encrypt_weak_def encrypt_with_config_def to_argon2_def toy_aead_def wrap_slot_def toy_compressed_def
        derive_wrap_key_def Argon2Config_weak_def MAX_RECIPIENTS_def g(1) g_len_contents)
  have e: "toy_header_encrypted = x" by (simp add: toy_header_encrypted_def x(1))
  show "length toy_header_encrypted < 4294967296" using x(2) e by simp
  have "decrypt toy_aead x (id_bytes Id_zero) = Inr toy_compressed"
    by (rule enc_random_decrypt[of toy_aead "[id_bytes Id_zero]" "(replicate 32 3, [replicate 12 0], replicate 12 2)"])
      (simp_all add: enc_random_ok_def toy_aead_laws x(1))
  with g show "\<exists>g. decrypt toy_aead toy_header_encrypted (id_bytes Id_zero) = Inr toy_compressed
     \<and> decompress toy_compressor toy_compressed = Inr g" by (simp add: e toy_compressed_def)
qed

lemma toy_post_decodes: "decode_from_bytes toy_env toy_post_bytes Id_zero expect_body False = Inr toy_post"
proof -
  obtain g where g: "decrypt toy_aead toy_header_encrypted (id_bytes Id_zero) = Inr toy_compressed"
     "decompress toy_compressor toy_compressed = Inr g" using toy_header_opens(1) by blast
  have w: "wf_id Id_zero" "wf_signature toy_signature" "length (hash_bytes (hashing_hash toy_crypto x)) = 32"
     "hashing_hash toy_crypto x = Hash (replicate 32 0)" for x
    by (simp_all add: wf_newtypes Id_zero_def toy_signature_def byte_counts hashing_hash_def toy_crypto_def)
  have z: "Hash_from_slice (replicate 32 0) = Inr (Hash (replicate 32 0))" "Id_from_hash (Hash (replicate 32 0)) = Inr Id_zero"
    by (simp_all add: from_slice_Inr byte_counts Id_from_hash_def Id_zero_def wf_newtypes)
  have v: "verify_post_signature toy_crypto toy_post_header toy_signature h = Inr ()" for h
    by (simp add: verify_post_signature_def toy_post_header_def VerificationKey_from_bytes_def toy_crypto_def signing_verify_def toy_signature_def)
  show ?thesis
    using toy_header_opens(2) g w z v
    by (cases expect_body) (simp_all add: decode_from_bytes_def toy_post_bytes_def Let_def split_to_append wf_lengths from_slice_wf get_u8_Cons
        get_be_append byte_counts split_to_exact toy_env_def const_codec_def toy_post_def)
qed


section \<open>The server and its world\<close>

definition toy_keys :: keys where
  "toy_keys = \<lparr>k_signature_key = SignatureKey (replicate 32 0), k_verification_key = VerificationKey (replicate 32 0),
     k_verification_key_bytes = VerificationKeyBytes_zero, k_pq_commitment_bytes = PQCommitmentBytes_zero\<rparr>"

definition toy_server_id :: server_id where
  "toy_server_id = \<lparr>sid_keys = toy_keys, sid_sponsor_id = Id_zero, sid_timestamp = 0, sid_hash = Hash_zero, sid_salt = Salt_zero,
     sid_pow = 255, sid_id = Id_zero\<rparr>"

definition toy_server :: "mem_store server" where
  "toy_server = \<lparr>sv_environment = \<lparr>e_dimensions = EnvironmentDimensions_default, e_store = mem_store_new, e_touched = [], e_size = 0\<rparr>,
     sv_server_id = toy_server_id,
     sv_kademlia = (kad_new Id_zero 16)\<lparr>k_peer_buckets := replicate (MAX_BUCKETS - 1) [] @ [[toy_peer]]\<rparr>,
     sv_peer_self = toy_peer, sv_heal_in_progress = [], sv_seen_salts = [],
     sv_post_bundle_cache = \<lparr>pbc_max_originators_per_location = 5, pbc_bundles = [(Id_zero, bundle_entry_placeholder)], pbc_inflight = []\<rparr>,
     sv_post_bundle_feedback_cache = \<lparr>pfc_bundles = [], pfc_inflight = []\<rparr>,
     sv_trending_hashtags = [], sv_trending_hashtags_response_cache = None,
     sv_request_counters = replicate 18 0, sv_request_rate_windows = replicate 18 rate_windows_new,
     sv_peer_stats_response_cache = None\<rparr>"

definition toy_bundle_header :: post_bundle_header where
  "toy_bundle_header = toy_header\<lparr>pbh_peer := toy_peer, pbh_signature := toy_signature\<rparr>"

text \<open>A codec of claim tokens that keeps the signature.\<close>

definition toy_claim_token :: submit_post_claim_token where
  "toy_claim_token = claim_token_new toy_crypto toy_peer toy_location Id_zero (server_key toy_server)"

definition toy_claim_codec :: "submit_post_claim_token codec" where
  "toy_claim_codec = \<lparr>enc = (\<lambda>t. signature_bytes (spc_token_signature t)),
     dec = (\<lambda>x. Some (toy_claim_token\<lparr>spc_token_signature := Signature x\<rparr>))\<rparr>"

definition toy_json :: payload_json where
  "toy_json = \<lparr>pj_peers = const_codec [], pj_bucket = const_codec toy_location, pj_hashtags = const_codec [],
     pj_claim_token = toy_claim_codec,
     pj_heal_token = const_codec (heal_token_new toy_crypto toy_peer toy_location [] toy_signature (server_key toy_server)),
     pj_cache_token = const_codec (cache_token_new toy_crypto toy_peer toy_location 30000 [] (server_key toy_server)),
     pj_bundle_header = const_codec toy_bundle_header, pj_url = const_codec ''https://a.example/'', pj_limit = const_codec 3\<rparr>"

definition toy_world :: "time_millis \<Rightarrow> mem_store server_world" where
  "toy_world now = \<lparr>sw_post_env = toy_env, sw_store = mem_store_ops toy_metadata_codec, sw_json = toy_json,
     sw_feedback_header_json = const_codec undefined, sw_announce_v1_json = const_codec \<lparr>a1_peer_self = toy_peer\<rparr>,
     sw_announce_v2_json = const_codec \<lparr>a2_peer_self = toy_peer, a2_proof_payload = []\<rparr>,
     sw_get_post_bundle_json = const_codec \<lparr>gpb_bucket_location = toy_location, gpb_peers_visited = [], gpb_already_retrieved_peer_ids = []\<rparr>,
     sw_peer_buckets_json = const_codec [], sw_peer_stats_request_json = const_codec (), sw_sort_desc = id,
     sw_lowercase = id, sw_random = [], sw_ownership_prove = (\<lambda>p x t. True), sw_salt_dropped = (\<lambda>x. False),
     sw_bundle_dropped = (\<lambda>i. False), sw_hashtag_dropped = (\<lambda>t. False), sw_stats_document = (\<lambda>c k e. []),
     sw_is_ip_literal = (\<lambda>h. False), sw_lookup_host = (\<lambda>h. Inr [V4 [93, 184, 215, 14]]),
     sw_http_get = (\<lambda>u h a. Inr (Some 2, [Inr [1, 2]])),
     sw_extract_url_preview = (\<lambda>x. \<lparr>up_url = [], up_title = [], up_description = [], up_image_url = []\<rparr>),
     sw_now_decode = now, sw_now_sign = now, sw_now = now\<rparr>"

lemma toy_world_simps [simp]:
  "sw_crypto (toy_world t) = toy_crypto" "sw_compressor (toy_world t) = toy_compressor" "sw_post_env (toy_world t) = toy_env"
  "sw_store (toy_world t) = mem_store_ops toy_metadata_codec" "sw_json (toy_world t) = toy_json" "sw_now (toy_world t) = t"
  "sw_now_decode (toy_world t) = t" "sw_sort_desc (toy_world t) = id" "sw_is_ip_literal (toy_world t) = (\<lambda>h. False)"
  "sw_lookup_host (toy_world t) = (\<lambda>h. Inr [V4 [93, 184, 215, 14]])" "sw_lowercase (toy_world t) = id"
  "sw_http_get (toy_world t) = (\<lambda>u h a. Inr (Some 2, [Inr [1, 2]]))" "sw_now_sign (toy_world t) = t"
  "sw_salt_dropped (toy_world t) = (\<lambda>x. False)" "sw_bundle_dropped (toy_world t) = (\<lambda>i. False)"
  "sw_announce_v1_json (toy_world t) = const_codec \<lparr>a1_peer_self = toy_peer\<rparr>"
  by (simp_all add: toy_world_def sw_crypto_def sw_compressor_def toy_env_def)

lemma toy_server_simps [simp]:
  "sv_peer_self toy_server = toy_peer" "e_store (sv_environment toy_server) = mem_store_new" "e_size (sv_environment toy_server) = 0"
  "store_of toy_server = mem_store_new" "sv_server_id toy_server = toy_server_id" "sv_seen_salts toy_server = []"
  "sv_trending_hashtags toy_server = []" "sv_trending_hashtags_response_cache toy_server = None"
  by (simp_all add: toy_server_def store_of_def)

lemma toy_peers: "get_peers_for_key p_id id (sv_kademlia toy_server) Id_zero n = Inr ([toy_peer], True)" if "0 < n"
proof -
  have "leading_agreement_bits_xor (id_bytes Id_zero) (id_bytes Id_zero) \<ge> MAX_BUCKETS - 1" by code_simp
  then have b: "get_bucket_for_id (sv_kademlia toy_server) Id_zero = [toy_peer]"
    by (simp add: get_bucket_for_id_def bucket_id_def toy_server_def kad_new_def nth_append)
  have "concat (k_peer_buckets (sv_kademlia toy_server)) = [toy_peer]"
    by (simp add: toy_server_def kad_new_def)
  with b have c: "(if n \<le> length (get_bucket_for_id (sv_kademlia toy_server) Id_zero)
      then get_bucket_for_id (sv_kademlia toy_server) Id_zero else concat (k_peer_buckets (sv_kademlia toy_server))) = [toy_peer]"
    by simp
  have "p_id toy_peer = k_id (sv_kademlia toy_server)"
    by (simp add: toy_peer_def Peer_zero_def toy_server_def kad_new_def)
  with that show ?thesis by (simp add: get_peers_for_key_def Let_def c)
qed

text \<open>A body that starts with the length of an empty JSON document.\<close>

lemma read_empty_json: "read_length_prefixed_json (const_codec v) (be_bytes 8 0 @ rest) = Inr (v, rest)"
  using read_json_ok[OF const_codec_ok, of v rest] by (simp add: write_length_prefixed_json_def const_codec_def)

lemma fresh_bundle_signs:
  "pbh_signature_generate toy_crypto sk h = Inr (h\<lparr>pbh_signature := toy_signature\<rparr>)" if "pbh_peer h = toy_peer"
proof -
  obtain x where "signature_hash_generate toy_crypto toy_peer = Inr x" using signature_hash_total[OF toy_crypto_ok] by blast
  with that show ?thesis
    by (simp add: pbh_signature_generate_def pbh_get_hash_for_signing_def signing_sign_def toy_signature_def toy_crypto_def)
qed

lemma read_empty_json_end: "read_length_prefixed_json (const_codec v) (be_bytes 8 0) = Inr (v, [])"
  using read_empty_json[of v "[]"] by simp


section \<open>Fetching and trending\<close>

theorem ssrf_filter_blocks_witness:
  "(is_ssrf_protected_ip (V4 [100, 127, 0, 1]) \<longleftrightarrow> list_ex (\<lambda>(p, n). in_block p n [100, 127, 0, 1]) protected_blocks)
   \<and> is_ssrf_protected_ip (V6 [0, 0, 0, 0, 0, 0xFFFF, word_cat (100 :: byte) (127 :: byte), word_cat (0 :: byte) (1 :: byte)])"
proof -
  have "is_ssrf_protected_ip (V4 [100, 127, 0, 1])" by code_simp
  with ssrf_filter_blocks[of 100 127 0 1] show ?thesis by blast
qed

lemma toy_url_allowed: "url_allowed (toy_world 0) ''https://a.example/'' = Inr [V4 [93, 184, 215, 14]]"
proof -
  have "starts_with ''https://a.example/'' ''https://''" "url_host ''https://a.example/'' \<noteq> []"
    "\<not> is_ssrf_protected_ip (V4 [93, 184, 215, 14])" by code_simp+
  then show ?thesis by (simp add: url_allowed_def toy_world_def ensure_def)
qed

theorem url_fetch_confined_witness:
  "\<exists>r. x_FetchUrlPreview (toy_world 0) (be_bytes 8 0) toy_server = (toy_server, Inr r)
    \<and> (\<exists>url addrs n chunks body. fetch_url_preview_from_bytes toy_json (be_bytes 8 0) = Inr url
    \<and> starts_with url ''https://'' \<and> \<not> sw_is_ip_literal (toy_world 0) (url_host url)
    \<and> sw_lookup_host (toy_world 0) (url_host url) = Inr addrs \<and> addrs \<noteq> [] \<and> list_all (\<lambda>a. \<not> is_ssrf_protected_ip a) addrs
    \<and> sw_http_get (toy_world 0) url (url_host url) addrs = Inr (n, chunks)
    \<and> read_body [] chunks = Inr body \<and> length body \<le> 2097152 \<and> prefix body (concat (ok_values chunks)))"
proof -
  have "fetch_url_preview_from_bytes toy_json (be_bytes 8 0) = Inr ''https://a.example/''"
    by (simp add: fetch_url_preview_from_bytes_def toy_json_def read_empty_json_end)
  then obtain r where r: "x_FetchUrlPreview (toy_world 0) (be_bytes 8 0) toy_server = (toy_server, Inr r)"
    using toy_url_allowed by (simp add: x_FetchUrlPreview_def server_monad ensure_def URL_FETCH_MAX_BODY_BYTES_def Let_def)
  from url_fetch_confined[OF r] r show ?thesis by simp
qed

theorem trending_answer_witness:
  "\<exists>s' tags. x_TrendingHashtagsFetch (toy_world 0) (be_bytes 8 0) toy_server = (s', Inr (TrendingBody tags))
    \<and> (\<exists>limit real fill. trending_fetch_from_bytes toy_json (be_bytes 8 0) = Inr limit \<and> tags = real @ fill \<and> length tags \<le> limit
      \<and> list_all (\<lambda>t. th_count t = 0 \<and> th_hashtag t \<in> {''hashiverse'', ''news''}) fill)"
proof -
  have "trending_fetch_from_bytes toy_json (be_bytes 8 0) = Inr 3"
    by (simp add: trending_fetch_from_bytes_def toy_json_def read_empty_json_end)
  then obtain s' tags where r: "x_TrendingHashtagsFetch (toy_world 0) (be_bytes 8 0) toy_server = (s', Inr (TrendingBody tags))"
    by (simp add: x_TrendingHashtagsFetch_def server_monad)
  from trending_answer[OF r] r show ?thesis by auto
qed


section \<open>Claims, commits and heals\<close>

lemma toy_claim_codec_ok: "length x < 2 ^ 64 \<Longrightarrow> json_ok toy_claim_codec (toy_claim_token\<lparr>spc_token_signature := Signature x\<rparr>)"
  by (simp add: json_ok_def toy_claim_codec_def)

lemma toy_token_signature: "toy_claim_token = toy_claim_token\<lparr>spc_token_signature := Signature (replicate 64 7)\<rparr>"
  by (simp add: toy_claim_token_def claim_token_new_def signing_sign_def toy_crypto_def)

lemma toy_json_ok:
  "json_ok (pj_bucket toy_json) toy_location" "json_ok (pj_claim_token toy_json) toy_claim_token"
  using toy_claim_codec_ok[of "replicate 64 7"] toy_token_signature by (simp_all add: toy_json_def const_codec_ok)

theorem commit_ignores_token_signature_witness:
  "x_SubmitPostCommit (toy_world 0) (submit_post_commit_new_to_bytes toy_json toy_location
      (toy_claim_token\<lparr>spc_token_signature := Signature [1]\<rparr>) toy_post_bytes) toy_server
    = x_SubmitPostCommit (toy_world 0) (submit_post_commit_new_to_bytes toy_json toy_location toy_claim_token toy_post_bytes) toy_server
    \<and> claim_token_verify toy_crypto (toy_claim_token\<lparr>spc_token_signature := Signature [1]\<rparr>) \<noteq> Inr ()"
proof -
  have ne: "[1] \<noteq> (replicate 64 7 :: bytes)" by (rule notI, drule arg_cong[of _ _ length]) simp
  have "claim_token_verify toy_crypto (toy_claim_token\<lparr>spc_token_signature := Signature [1]\<rparr>) \<noteq> Inr ()"
    using ne by (simp add: claim_token_verify_def toy_claim_token_def claim_token_new_def toy_peer_verify VerificationKey_from_bytes_def
        toy_crypto_def signing_verify_def)
  with commit_ignores_token_signature[of "toy_world 0" toy_location toy_claim_token "Signature [1]" toy_post_bytes toy_server]
    toy_json_ok toy_claim_codec_ok[of "[1]"]
  show ?thesis by (simp add: toy_json_def)
qed

lemma toy_location_simps [simp]:
  "bl_location_id toy_location = Id_zero" "bl_base_id toy_location = Id_zero" "bl_bucket_type toy_location = User"
  "bl_duration toy_location = MILLIS_IN_MONTH" "bl_bucket_time_millis toy_location = 0"
  by (simp_all add: toy_location_def)

lemma toy_committed:
  "\<exists>s'. store_committed (toy_world 0) toy_location toy_post_bytes Id_zero toy_server = (s', Inr ())"
proof -
  have "length toy_post_bytes \<le> USIZE_MAX"
    using toy_header_opens(2) by (simp add: toy_post_bytes_def USIZE_MAX_def toy_signature_def Id_zero_def byte_counts)
  then show ?thesis
    by (simp add: store_committed_def Let_def server_monad mem_env_runs mem_metadata_get_def mem_bytes_get_def mem_store_new_def touch_def
        load_bundle_def fresh_header_def ensure_def append_post_def fresh_bundle_signs checked_sum_def)
qed

lemma toy_commit:
  "\<exists>s' receipt. x_SubmitPostCommit (toy_world 0) (submit_post_commit_new_to_bytes toy_json toy_location toy_claim_token toy_post_bytes) toy_server
     = (s', Inr (CommitBody receipt))"
proof -
  obtain s' where c: "store_committed (toy_world 0) toy_location toy_post_bytes Id_zero toy_server = (s', Inr ())" using toy_committed by blast
  have d: "submit_post_commit_from_bytes toy_json (submit_post_commit_new_to_bytes toy_json toy_location toy_claim_token toy_post_bytes)
    = Inr \<lparr>sm_bucket_location = toy_location, sm_submit_post_claim_token = toy_claim_token, sm_encoded_post_bytes = toy_post_bytes\<rparr>"
    by (rule commit_from_bytes[OF toy_json_ok])
  have t: "spc_peer toy_claim_token = toy_peer" "spc_bucket_location toy_claim_token = toy_location" "spc_post_id toy_claim_token = Id_zero"
    by (simp_all add: toy_claim_token_def claim_token_new_def)
  show ?thesis
    using c d t toy_post_decodes[of True] toy_location_valid
    by (simp add: x_SubmitPostCommit_def Let_def sbind_def sret_def sguard_def slift_def sget_def ensure_def toy_post_def)
qed

theorem commit_appends_one_post_witness:
  "\<exists>s' receipt. x_SubmitPostCommit (toy_world 0) (submit_post_commit_new_to_bytes toy_json toy_location toy_claim_token toy_post_bytes) toy_server
     = (s', Inr (CommitBody receipt)) \<and> e_size (sv_environment s') = fetch_add (length toy_post_bytes) 0
     \<and> commit_token_verify toy_crypto receipt = Inr ()"
proof -
  obtain s' receipt where c: "x_SubmitPostCommit (toy_world 0)
      (submit_post_commit_new_to_bytes toy_json toy_location toy_claim_token toy_post_bytes) toy_server = (s', Inr (CommitBody receipt))"
    using toy_commit by blast
  have "submit_post_commit_from_bytes toy_json (submit_post_commit_new_to_bytes toy_json toy_location toy_claim_token toy_post_bytes)
    = Inr \<lparr>sm_bucket_location = toy_location, sm_submit_post_claim_token = toy_claim_token, sm_encoded_post_bytes = toy_post_bytes\<rparr>"
    by (rule commit_from_bytes[OF toy_json_ok])
  with commit_appends_one_post[OF c, of toy_metadata_codec] c show ?thesis
    by (auto simp: toy_key_pair toy_peer_verify Let_def)
qed

lemma toy_granted: "\<exists>s' t. grant_claim (toy_world 0) toy_location Id_zero toy_server = (s', Inr (Some t))"
    by (simp add: grant_claim_def Let_def server_monad mem_env_runs mem_metadata_get_def mem_store_new_def PostBundleMetadata_zero_def
        grant_update_def bucket_elapsed_def bundle_limits millis_values time_add_dur_def sat_i64_def I64_MIN_def I64_MAX_def
        ENCODED_POST_BUNDLE_V1_OVERFLOWED_NUM_POSTS_def)

theorem claims_bounded_witness:
  "\<exists>s'. bucket_run toy_metadata_codec Id_zero 1 s' \<and> 1 \<le> (30 :: nat) \<and> tokens_counted toy_metadata_codec Id_zero 1 (store_of s')"
proof -
  obtain s' t where g: "grant_claim (toy_world 0) toy_location Id_zero toy_server = (s', Inr (Some t))"
    using toy_granted by blast
  have "bucket_run toy_metadata_codec Id_zero 0 toy_server" by (rule no_metadata) (simp add: mem_store_new_def)
  from claim[OF this _ g] have r: "bucket_run toy_metadata_codec Id_zero 1 s'" by simp
  from claims_bounded[OF r] r show ?thesis by (auto simp: toy_metadata_codec_law)
qed

lemma toy_measure: "pow_measure toy_crypto ds Salt_zero = Inr (255, Hash (replicate 32 0))"
proof -
  have "pow_compute_data_hash toy_crypto ds = pow_compute_data_hash toy_crypto []"
    by (simp add: pow_compute_data_hash_def hash_multiple_def toy_crypto_def)
  then have "pow_measure toy_crypto ds Salt_zero = pow_measure toy_crypto [] Salt_zero"
    by (simp only: pow_measure_def)
  also have "\<dots> = Inr (255, Hash (replicate 32 0))" by code_simp
  finally show ?thesis .
qed

lemma toy_minimum_pow: "get_minimum_post_pow 0 (Suc 0) MILLIS_IN_MONTH = Inr 18"
  by (simp add: get_minimum_post_pow_def millis_values post_additional_bits_def amplification_length_def amplification_linked_def
      amplification_bucket_def log2_ceil_as_u8_def pow_minimums)

lemma toy_claim_body:
  "submit_post_claim_from_bytes toy_json (submit_post_claim_new_to_bytes toy_json toy_location None [] toy_post_bytes)
    = Inr \<lparr>sc_bucket_location = toy_location, sc_referenced_post_header_bytes = None, sc_referenced_hashtags = [],
           sc_encoded_post_bytes = toy_post_bytes\<rparr>"
  by (subst submit_post_claim_roundtrip) (simp_all add: toy_json_def const_codec_ok toy_post_bytes_def)

theorem claim_granted_only_if_witness:
  "\<exists>s' r token. x_SubmitPostClaim (toy_world 0) (Some toy_pow) (submit_post_claim_new_to_bytes toy_json toy_location None [] toy_post_bytes)
       toy_server = (s', Inr (ClaimBody r)) \<and> scr_submit_post_claim_token r = Some token
     \<and> token = claim_token_new toy_crypto toy_peer toy_location Id_zero (server_key toy_server)"
proof -
  obtain s' t where g: "grant_claim (toy_world 0) toy_location Id_zero toy_server = (s', Inr (Some t))"
    using toy_granted by blast
  have "ClientId_new toy_crypto VerificationKeyBytes_zero PQCommitmentBytes_zero
      = Inr \<lparr>cid_verification_key_bytes = VerificationKeyBytes_zero, cid_pq_commitment_bytes = PQCommitmentBytes_zero, cid_id = Id_zero\<rparr>"
    by code_simp
  then have c: "check_claim (toy_world 0) (Some toy_pow) \<lparr>sc_bucket_location = toy_location, sc_referenced_post_header_bytes = None,
      sc_referenced_hashtags = [], sc_encoded_post_bytes = toy_post_bytes\<rparr> = Inr toy_post"
    by (simp add: check_claim_def toy_location_valid bucket_duration_known_def BUCKET_DURATIONS_def ensure_def toy_post_decodes
        toy_post_def toy_post_header_def toy_minimum_pow[unfolded millis_values] toy_pow_def round_down_to_bucket_start_def checked_div_def millis_values
        post_header_client_id_def check_referenced_post_def duration_abs_def time_sub_def sat_i64_def I64_MIN_def I64_MAX_def bundle_limits)
  then obtain r where r: "x_SubmitPostClaim (toy_world 0) (Some toy_pow)
      (submit_post_claim_new_to_bytes toy_json toy_location None [] toy_post_bytes) toy_server = (s', Inr (ClaimBody r))"
      "scr_submit_post_claim_token r = Some t"
    using g toy_peers[of REDUNDANT_SERVERS_PER_POST]
    by (simp add: x_SubmitPostClaim_def toy_claim_body server_monad ensure_def peers_for_key_def REDUNDANT_SERVERS_PER_POST_def
        toy_post_def track_hashtags_def Let_def)
  from claim_granted_only_if[OF r] r toy_claim_body toy_post_decodes[of False] show ?thesis
    by (auto simp: Let_def toy_post_def)
qed


section \<open>Votes and heals\<close>

text \<open>A world whose stored bundle lists the post.\<close>

definition toy_voting_world :: "mem_store server_world" where
  "toy_voting_world = (toy_world 0)\<lparr>sw_json := toy_json\<lparr>pj_bundle_header :=
     const_codec (toy_bundle_header\<lparr>pbh_num_posts := 1, pbh_encoded_post_ids := [Id_zero], pbh_encoded_post_lengths := [0]\<rparr>)\<rparr>\<rparr>"

definition toy_bundle_bytes :: bytes where
  "toy_bundle_bytes = [1] @ be_bytes 8 0 @ be_bytes 8 0"

lemma toy_bundle_read:
  "pb_from_bytes (const_codec h) toy_bundle_bytes b = Inr \<lparr>pb_header = h, pb_encoded_posts_bytes = []\<rparr>"
proof -
  have "get_be 8 (be_bytes 8 0) = Inr (0, [])" using get_be_append[of 8 0 "[]"] by simp
  then show ?thesis
    by (simp add: pb_from_bytes_def toy_bundle_bytes_def get_u8_Cons get_be_append const_codec_def checked_add_usize_def USIZE_MAX_def
        split_to_exact rbind_ensure split_to_def)
qed

definition toy_voting_server :: "mem_store server" where
  "toy_voting_server = toy_server\<lparr>sv_environment := (sv_environment toy_server)\<lparr>e_store :=
     mem_store_new\<lparr>ms_bytes := [(Id_zero, toy_bundle_bytes)]\<rparr>\<rparr>\<rparr>"

definition toy_vote :: "pow \<Rightarrow> feedback" where
  "toy_vote p = \<lparr>fb_post_id = Id_zero, fb_feedback_type = 3, fb_salt = Salt_zero, fb_pow = p\<rparr>"

lemma toy_voting_simps [simp]:
  "sw_crypto toy_voting_world = toy_crypto" "sw_store toy_voting_world = mem_store_ops toy_metadata_codec" "sw_sort_desc toy_voting_world = id"
  "sv_kademlia toy_voting_server = sv_kademlia toy_server" "store_of toy_voting_server = mem_store_new\<lparr>ms_bytes := [(Id_zero, toy_bundle_bytes)]\<rparr>"
  "pj_bundle_header (sw_json toy_voting_world) =
     const_codec (toy_bundle_header\<lparr>pbh_num_posts := 1, pbh_encoded_post_ids := [Id_zero], pbh_encoded_post_lengths := [0]\<rparr>)"
  "pj_bucket (sw_json toy_voting_world) = const_codec toy_location"
  by (simp_all add: toy_voting_world_def sw_crypto_def toy_voting_server_def store_of_def toy_json_def toy_env_def)

lemma toy_vote_wf: "wf_feedback (toy_vote p)"
  by (simp add: wf_feedback_def toy_vote_def wf_newtypes Id_zero_def Salt_zero_def byte_counts)

theorem healed_vote_unchecked_witness:
  "\<exists>s' es. x_HealPostBundleFeedback toy_voting_world (id_bytes Id_zero @ feedback_encode_to_bytes (toy_vote 9)) toy_voting_server
       = (s', Inr (HealFeedbackBody 1))
    \<and> map_of (ms_feedbacks (store_of s')) Id_zero = Some es \<and> toy_vote 9 \<in> set es
    \<and> feedback_pow_verify toy_crypto (toy_vote 9) \<noteq> Inr ()"
proof -
  have "feedback_pow_verify toy_crypto (toy_vote 9) \<noteq> Inr ()"
    by (simp add: feedback_pow_verify_def toy_vote_def toy_measure)
  moreover have "wf_id Id_zero" by (simp add: wf_newtypes Id_zero_def byte_counts)
  ultimately show ?thesis
    using healed_vote_unchecked[of toy_voting_world toy_metadata_codec Id_zero "toy_vote 9" toy_voting_server "[toy_peer]" toy_bundle_bytes]
      toy_peers[of REDUNDANT_SERVERS_PER_POST] toy_bundle_read toy_vote_wf
    by (simp add: REDUNDANT_SERVERS_PER_POST_def toy_vote_def mem_store_new_def)
qed

theorem submitted_vote_checked_witness:
  "\<exists>bs s' r. x_SubmitPostFeedback toy_voting_world (Some toy_pow) bs toy_voting_server = (s', Inr (FeedbackBody r)) \<and> spfr_accepted r
    \<and> ms_feedbacks (store_of s') = AList.update Id_zero (put_vote (toy_vote 255) []) []"
proof -
  let ?bs = "be_bytes 8 0 @ feedback_encode_to_bytes (toy_vote 255)"
  have "feedback_decode_from_bytes (feedback_encode_to_bytes (toy_vote 255)) = Inr (toy_vote 255)"
    using feedback_decode_buf_encode[OF toy_vote_wf, of 255 "[]"] by (simp add: feedback_decode_from_bytes_def)
  then have b: "submit_post_feedback_from_bytes (sw_json toy_voting_world) ?bs
      = Inr \<lparr>sf_bucket_location = toy_location, sf_encoded_post_feedback = toy_vote 255\<rparr>"
    by (simp add: submit_post_feedback_from_bytes_def read_empty_json)
  have v: "feedback_pow_verify toy_crypto (toy_vote 255) = Inr ()"
    by (simp add: feedback_pow_verify_def toy_vote_def toy_measure ensure_def)
  obtain s' r where r: "x_SubmitPostFeedback toy_voting_world (Some toy_pow) ?bs toy_voting_server = (s', Inr (FeedbackBody r))" "spfr_accepted r"
    using b v toy_peers[of REDUNDANT_SERVERS_PER_POST] toy_bundle_read
    by (simp add: x_SubmitPostFeedback_def server_monad ensure_def peers_for_key_def REDUNDANT_SERVERS_PER_POST_def Let_def
        feedback_welcome_def mem_env_runs mem_bytes_get_def toy_pow_def pow_minimums touch_def)
      (simp add: toy_voting_server_def toy_vote_def server_monad mem_env_runs)
  from submitted_vote_checked[OF r(1)] r b show ?thesis
    by (auto simp: Let_def mem_store_new_def)
qed

theorem heal_commit_not_counted_witness:
  "\<exists>s' old. store_healed (toy_world 0) toy_bundle_header toy_peer [(Id_zero, [1, 2])] toy_server = (s', Inr True)
    \<and> e_size (sv_environment s') = 0
    \<and> stored_size (mem_store_ops toy_metadata_codec) (e_store (sv_environment s'))
      = stored_size (mem_store_ops toy_metadata_codec) mem_store_new + sum_list (map (length \<circ> snd) (healed_posts old [(Id_zero, [1, 2])]))"
proof -
  have h: "pbh_location_id toy_bundle_header = Id_zero" "\<not> pbh_overflowed toy_bundle_header" "\<not> pbh_sealed toy_bundle_header"
    by (simp_all add: toy_bundle_header_def toy_header_def)
  let ?old = "\<lparr>pb_header = fresh_header 0 Id_zero False False toy_peer, pb_encoded_posts_bytes = []\<rparr>"
  obtain s' where s': "store_healed (toy_world 0) toy_bundle_header toy_peer [(Id_zero, [1, 2])] toy_server = (s', Inr True)"
    by (simp add: store_healed_def Let_def server_monad mem_env_runs mem_metadata_get_def mem_bytes_get_def mem_store_new_def touch_def
        load_bundle_def fresh_header_def heal_append_def fresh_bundle_signs checked_sum_def USIZE_MAX_def h)
  have "bundle_before (toy_world 0) (fresh_header 0 Id_zero False False toy_peer) mem_store_new Id_zero = Inr ?old"
    by (simp add: bundle_before_def load_bundle_def mem_store_new_def)
  from heal_commit_not_counted[OF s', of toy_metadata_codec ?old] this s' show ?thesis
    by (auto simp: h mem_ok_def toy_metadata_codec_law mem_store_new_def stored_size_of_def mem_ops fresh_header_def)
qed


section \<open>An upload to the cache\<close>

lemma toy_bundle_verifies: "pb_verify toy_env Id_zero \<lparr>pb_header = toy_bundle_header, pb_encoded_posts_bytes = []\<rparr> = Inr ()"
proof -
  obtain x where "signature_hash_generate toy_crypto toy_peer = Inr x" using signature_hash_total[OF toy_crypto_ok] by blast
  then show ?thesis
    by (simp add: pb_verify_def pbh_verify_def toy_bundle_header_def toy_header_def ensure_def pbh_signature_verify_def
        pbh_get_hash_for_signing_def VerificationKey_from_bytes_def signing_verify_def toy_env_def toy_crypto_def toy_signature_def)
qed

definition toy_upload :: bytes where
  "toy_upload = cache_post_bundle_new_to_bytes toy_json (cache_token_new toy_crypto toy_peer toy_location 30000 [] (server_key toy_server))
     [toy_bundle_bytes]"

lemma toy_upload_read: "cache_post_bundle_from_bytes toy_json toy_upload
    = Inr \<lparr>cb_token = cache_token_new toy_crypto toy_peer toy_location 30000 [] (server_key toy_server), cb_encoded_post_bundles = [toy_bundle_bytes]\<rparr>"
proof -
  let ?t = "cache_token_new toy_crypto toy_peer toy_location 30000 [] (server_key toy_server)"
  have j: "json_ok (pj_cache_token toy_json) ?t" by (simp add: toy_json_def const_codec_ok)
  have e: "\<forall>x \<in> set [toy_bundle_bytes]. length x < 4294967296" by (simp add: toy_bundle_bytes_def)
  show ?thesis
    using read_entries_write[OF e, of "[]"]
    by (simp add: cache_post_bundle_from_bytes_def toy_upload_def cache_post_bundle_new_to_bytes_def read_json_ok[OF j] get_be_append)
qed

theorem cached_bundles_verified_witness:
  "\<exists>s' r cb. x_CachePostBundle (toy_world 5) toy_upload toy_server = (s', Inr r)
    \<and> cached_in (sv_post_bundle_cache s') Id_zero Id_zero cb \<and> ca_bytes cb = toy_bundle_bytes"
proof -
  let ?t = "cache_token_new toy_crypto toy_peer toy_location 30000 [] (server_key toy_server)"
  let ?cb = "\<lparr>ca_bytes = toy_bundle_bytes, ca_expires_at = cached_expiry False 5\<rparr>"
  let ?c = "\<lparr>pbc_max_originators_per_location = 5, pbc_bundles = [(Id_zero, bundle_entry_placeholder)], pbc_inflight = []\<rparr> :: post_bundle_cache"
  have c0: "sv_post_bundle_cache toy_server = ?c" by (simp add: toy_server_def)
  have p: "p_id (pbh_peer toy_bundle_header) = Id_zero" "\<not> pbh_sealed toy_bundle_header"
    by (simp_all add: toy_bundle_header_def toy_peer_def Peer_zero_def toy_header_def)
  obtain k c where u: "pbc_on_upload (\<lambda>_. False) Id_zero Id_zero toy_bundle_bytes 5 False ?c = (k, c)" "cached_in c Id_zero Id_zero ?cb"
    by (simp add: pbc_on_upload_def alive_def bundle_entry_placeholder_def cached_in_def evict_worst.simps Let_def)
  have tok: "cache_token_verify toy_crypto ?t = Inr ()"
    using cache_token.signed_verifies[OF toy_key_pair, of ?t] toy_peer_verify toy_location_valid
    by (simp add: cache_token_new_def)
  have ok: "cache_token_ok (toy_world 5) toy_peer ?t = Inr ()"
    using tok by (simp add: cache_token_ok_def ensure_def cache_token_is_expired_def) (simp add: cache_token_new_def)
  have t: "crt_bucket_location ?t = toy_location" by (simp add: cache_token_new_def)
  have bh: "pj_bundle_header toy_json = const_codec toy_bundle_header" by (simp add: toy_json_def)
  obtain s' r where x: "x_CachePostBundle (toy_world 5) toy_upload toy_server = (s', Inr r)" "sv_post_bundle_cache s' = c"
    using u(1) ok toy_upload_read toy_bundle_read toy_bundle_verifies p c0
    by (simp add: x_CachePostBundle_def server_monad t cacheable_bundle_def bh)
  have "\<not> cached_in ?c Id_zero Id_zero ?cb" by (simp add: cached_in_def bundle_entry_placeholder_def)
  with cached_bundles_verified[OF x(1), of Id_zero Id_zero ?cb] x u(2) c0 toy_upload_read show ?thesis
    by auto
qed


section \<open>Whole requests\<close>

definition toy_request :: "request_kind \<Rightarrow> time_millis \<Rightarrow> bytes" where
  "toy_request kind t = rpc_request_header 2 kind Id_zero t Hash_zero Salt_zero @ le_bytes 4 0"

definition toy_rx :: "request_kind \<Rightarrow> time_millis \<Rightarrow> rpc_request_rx" where
  "toy_rx kind t = \<lparr>rx_payload_request_kind = kind, rx_pow_sponsor_id = Id_zero, rx_pow_server_known = True, rx_pow = 255,
     rx_pow_timestamp = t, rx_pow_content_hash = Hash_zero, rx_pow_salt = Salt_zero, rx_bytes = []\<rparr>"

lemma toy_request_decodes:
  assumes "\<bar>now - t\<bar> \<le> 300000" "in_i64 t"
  shows "rpc_request_decode toy_crypto toy_compressor now vkb pqcb (toy_request kind t) = Inr (toy_rx kind t)"
proof -
  have h: "wf_request_header 2 Id_zero t Hash_zero Salt_zero"
    using assms(2) by (simp add: wf_request_header_def wf_newtypes Id_zero_def Hash_zero_def Salt_zero_def byte_counts)
  have m: "measure_request_pow toy_crypto 2 vkb pqcb Id_zero (time_encode_be t) Hash_zero Salt_zero = Inr (255, True)"
    by (simp add: measure_request_pow_Inr server_pow_measure_def toy_measure flags_contain_def REQ_SERVER_KNOWN_def pow_minimums)
  have r: "read_payload PROTOCOL_MAX_BLOB_SIZE_REQUEST (le_bytes 4 0) = Inr []"
    using read_payload_write[of "[]" PROTOCOL_MAX_BLOB_SIZE_REQUEST] by simp
  have f: "\<not> flags_contain 2 REQ_COMPRESSED" by code_simp
  show ?thesis
    using assms(1) m r f
    by (simp add: toy_request_def rpc_request_decode_header[OF h] request_checks_def duration_abs_small bundle_limits ensure_def toy_rx_def)
qed

theorem replay_after_salt_expiry_witness:
  "rpc_request_decode toy_crypto toy_compressor 600000 VerificationKeyBytes_zero PQCommitmentBytes_zero (toy_request SubmitPostCommitV1 300000)
     = Inr (toy_rx SubmitPostCommitV1 300000)
   \<and> \<not> salt_seen (toy_world 600000) (toy_server\<lparr>sv_seen_salts := [(Salt_zero, 0)]\<rparr>) Salt_zero"
proof -
  have d: "rpc_request_decode toy_crypto toy_compressor 0 VerificationKeyBytes_zero PQCommitmentBytes_zero
      (toy_request SubmitPostCommitV1 300000) = Inr (toy_rx SubmitPostCommitV1 300000)"
    by (rule toy_request_decodes) (simp_all add: in_i64_def I64_MIN_def I64_MAX_def)
  from replay_after_salt_expiry[OF d, of "toy_server\<lparr>sv_seen_salts := [(Salt_zero, 0)]\<rparr>" "toy_world 600000"] show ?thesis
    by (simp add: toy_rx_def)
qed

theorem replayed_request_refused_witness:
  "\<exists>s1 s2. check_replay (toy_world 0) Salt_zero toy_server = (s1, Inr ())
    \<and> handle_request (toy_world 0) (\<lambda>_. Inr g_default) (toy_rx AnnounceV1 0) s1 = s2
    \<and> serve (toy_world 200000) (\<lambda>_. Inr g_default) (toy_request AnnounceV1 0) (fst s2)
      = (count_request (toy_world 200000) AnnounceV1 (fst s2), 1, Inr None)"
proof -
  have "\<not> salt_seen (toy_world 0) toy_server Salt_zero" by (simp add: salt_seen_def)
  then obtain s1 where s1: "check_replay (toy_world 0) (rx_pow_salt (toy_rx AnnounceV1 0)) toy_server = (s1, Inr ())"
    by (simp add: check_replay_def toy_rx_def)
  obtain s2 g where s2: "handle_request (toy_world 0) (\<lambda>_. Inr g_default) (toy_rx AnnounceV1 0) s1 = (s2, g)" by fastforce
  have run: "server_run (sw_now_decode (toy_world 0)) s1 (sw_now_decode (toy_world 0)) s2" by (rule handler_part[OF begin_run s2])
  from replayed_request_refused[OF s1 run, of "toy_world 200000" "toy_request AnnounceV1 0" "toy_rx AnnounceV1 0" "\<lambda>_. Inr g_default"]
  have "serve (toy_world 200000) (\<lambda>_. Inr g_default) (toy_request AnnounceV1 0) s2 = (count_request (toy_world 200000) AnnounceV1 s2, 1, Inr None)"
    by (simp add: toy_request_decodes toy_rx_def in_i64_def I64_MIN_def I64_MAX_def millis_values const_mul_def)
  then show ?thesis using s1 s2 by (simp add: toy_rx_def)
qed

theorem server_table_sound_witness:
  "\<exists>s'. server_step toy_crypto (toy_server\<lparr>sv_kademlia := kad_new Id_zero 16\<rparr>) s'
    \<and> kad_ok p_id (sv_kademlia s')
    \<and> list_all (\<lambda>p. Peer_verify toy_crypto p = Inr () \<and> SERVER_KEY_POW_MIN \<le> pp_pow (p_pow_initial p)) (get_all_peers (sv_kademlia s'))"
proof -
  let ?s = "toy_server\<lparr>sv_kademlia := kad_new Id_zero 16\<rparr>"
  obtain s1 r1 where s1: "serve (toy_world 0) (\<lambda>_. Inr g_default) (toy_request AnnounceV1 0) ?s = (s1, r1)"
    by (cases "serve (toy_world 0) (\<lambda>_. Inr g_default) (toy_request AnnounceV1 0) ?s") auto
  have st: "server_step toy_crypto ?s s1" by (rule serve_request[OF _ s1]) simp
  have k: "kad_ok p_id (sv_kademlia ?s)" "get_all_peers (sv_kademlia ?s) = []"
    using kad_ok_new[of Id_zero] by (simp_all add: get_all_peers_def kad_new_def)
  from server_table_sound[OF r_into_rtranclp[of "server_step toy_crypto", OF st] toy_crypto_ok k(1)] st k(2) show ?thesis by auto
qed


section \<open>Wire formats, identities and storage\<close>

theorem issued_tokens_verify_witness:
  "claim_token_verify toy_crypto (claim_token_new toy_crypto toy_peer toy_location Id_zero (SignatureKey [1])) = Inr ()
    \<and> commit_token_verify toy_crypto (commit_token_new toy_crypto toy_peer toy_location Id_zero (SignatureKey [1])) = Inr ()
    \<and> heal_token_verify toy_crypto (heal_token_new toy_crypto toy_peer toy_location [Id_zero] toy_signature (SignatureKey [1])) = Inr ()
    \<and> cache_token_verify toy_crypto (cache_token_new toy_crypto toy_peer toy_location 7 [Id_zero] (SignatureKey [1])) = Inr ()"
  by (rule issued_tokens_verify[OF toy_key_pair toy_peer_verify toy_location_valid])

theorem token_inputs_disjoint_witness:
  "concat (heal_token_inputs toy_crypto Id_zero toy_location toy_signature [])
     \<noteq> concat (cache_token_inputs toy_crypto Id_zero toy_location 7 [Id_zero])"
proof -
  have "wf_token_fields toy_crypto (p_id toy_peer) Id_zero toy_signature ids" if "ids = [] \<or> ids = [Id_zero]" for ids
    using that by (auto simp: wf_token_fields_def toy_crypto_ok wf_newtypes Id_zero_def toy_signature_def toy_peer_def Peer_zero_def byte_counts)
  from token_inputs_disjoint[OF this[of "[]"] this[of "[Id_zero]"], of toy_location toy_location 7] show ?thesis
    by (simp add: toy_peer_def Peer_zero_def)
qed

theorem rpc_request_accepted_witness:
  "\<bar>300 - rx_pow_timestamp (toy_rx PingV1 0)\<bar> \<le> 300000 \<and> 16 \<le> rx_pow (toy_rx PingV1 0)"
proof -
  have "rpc_request_decode toy_crypto toy_compressor 300 VerificationKeyBytes_zero PQCommitmentBytes_zero (toy_request PingV1 0)
      = Inr (toy_rx PingV1 0)"
    by (rule toy_request_decodes) (simp_all add: in_i64_def I64_MIN_def I64_MAX_def)
  from rpc_request_accepted[OF this] show ?thesis by (simp add: toy_rx_def)
qed

theorem content_hash_not_bound_witness:
  "rpc_request_decode toy_crypto toy_compressor 0 VerificationKeyBytes_zero PQCommitmentBytes_zero
     (rpc_request_header 2 PingV1 Id_zero 0 Hash_zero Salt_zero @ le_bytes 4 (length [5 :: byte, 6]) @ [5, 6])
     = Inr ((toy_rx PingV1 0)\<lparr>rx_bytes := [5, 6]\<rparr>)"
proof -
  have d: "rpc_request_decode toy_crypto toy_compressor 0 VerificationKeyBytes_zero PQCommitmentBytes_zero
     (rpc_request_header 2 PingV1 Id_zero 0 Hash_zero Salt_zero @ le_bytes 4 (length ([] :: bytes)) @ []) = Inr (toy_rx PingV1 0)"
    using toy_request_decodes[of 0 0 VerificationKeyBytes_zero PQCommitmentBytes_zero PingV1]
    by (simp add: toy_request_def in_i64_def I64_MIN_def I64_MAX_def)
  have f: "\<not> flags_contain 2 REQ_COMPRESSED" by code_simp
  have h: "wf_request_header 2 Id_zero 0 Hash_zero Salt_zero"
    by (simp add: wf_request_header_def wf_newtypes Id_zero_def Hash_zero_def Salt_zero_def byte_counts in_i64_def I64_MIN_def I64_MAX_def)
  show ?thesis by (rule content_hash_not_bound[OF h f d]) (simp add: PROTOCOL_MAX_BLOB_SIZE_REQUEST_def)
qed

definition toy_search :: pow_search where
  "toy_search = (\<lambda>m dh. if dh = pow_compute_data_hash toy_crypto [] then Inr (Salt_zero, 255, Hash (replicate 32 0)) else Inl (Bail ''none''))"

lemma toy_search_ok: "pow_search_ok toy_crypto toy_search"
proof -
  have "(m :: byte) \<le> 255" for m using byte_less[of m] by (simp add: word_le_nat_alt)
  then show ?thesis using toy_measure[of "[]"] by (simp add: pow_search_ok_def toy_search_def pow_measure_def)
qed

lemma toy_data_hash: "pow_compute_data_hash toy_crypto ds = pow_compute_data_hash toy_crypto []"
  by (simp add: pow_compute_data_hash_def hash_multiple_def toy_crypto_def)

theorem rpc_request_roundtrip_witness:
  "\<exists>tx r. rpc_request_encode toy_crypto toy_compressor toy_search 0 16 2 PingV1 Id_zero VerificationKeyBytes_zero PQCommitmentBytes_zero [4] = Inr tx
    \<and> rpc_request_decode toy_crypto toy_compressor 1000 VerificationKeyBytes_zero PQCommitmentBytes_zero (rq_bytes tx) = Inr r
    \<and> rx_payload_request_kind r = PingV1 \<and> rx_bytes r = [4]"
proof -
  have f: "\<not> flags_contain 2 REQ_COMPRESSED" "flags_contain 2 REQ_SERVER_KNOWN" by code_simp+
  obtain tx where tx: "rpc_request_encode toy_crypto toy_compressor toy_search 0 16 2 PingV1 Id_zero VerificationKeyBytes_zero
      PQCommitmentBytes_zero [4] = Inr tx"
    using toy_data_hash
    by (simp add: rpc_request_encode_def f Let_def PROTOCOL_MAX_BLOB_SIZE_REQUEST_def server_pow_generate_def toy_search_def)
  have s: "\<forall>m dh s p h. toy_search m dh = Inr (s, p, h) \<longrightarrow> wf_salt s"
    by (auto simp: toy_search_def wf_newtypes Salt_zero_def byte_counts)
  from rpc_request_roundtrip[OF toy_crypto_ok toy_search_ok s, of 2 Id_zero 0 1000 toy_compressor "[4]" 16 VerificationKeyBytes_zero
      PQCommitmentBytes_zero VerificationKeyBytes_zero PQCommitmentBytes_zero PingV1 tx] tx f
  show ?thesis
    by (auto simp: wf_newtypes Id_zero_def byte_counts in_i64_def I64_MIN_def I64_MAX_def toy_compressor_laws
        PROTOCOL_MAX_BLOB_SIZE_REQUEST_def pow_minimums)
qed

lemma toy_server_pow: "server_pow_measure toy_crypto sp vkb pqcb tb h Salt_zero = Inr (255, Hash (replicate 32 0))"
  by (simp add: server_pow_measure_def toy_measure)

lemma toy_responder:
  "wf_responder toy_crypto (SignatureKey []) VerificationKeyBytes_zero PQCommitmentBytes_zero Id_zero 0 Hash_zero Salt_zero"
  by (simp add: wf_responder_def toy_key_pair wf_newtypes VerificationKeyBytes_zero_def PQCommitmentBytes_zero_def Id_zero_def
      Hash_zero_def Salt_zero_def byte_counts in_i64_def I64_MIN_def I64_MAX_def)

lemma toy_pow_id: "server_pow_hash_to_id (Hash (replicate 32 0)) = Inr Id_zero"
  by code_simp

lemma toy_encoded_response:
  "\<exists>g. rpc_response_encode toy_crypto toy_compressor (SignatureKey []) VerificationKeyBytes_zero PQCommitmentBytes_zero Id_zero 0
      Hash_zero Salt_zero Hash_zero RESP_COMPRESSED PingResponseV1 g_default = Inr g"
proof -
  have c: "contents g_default = []" "flags_contain RESP_COMPRESSED RESP_COMPRESSED" by code_simp+
  obtain z where z: "compress_for_speed toy_compressor [] = Inr z" "g_len z \<le> 1"
    using compress_speed_ok[of toy_compressor "[]"] toy_compressor_laws by auto
  then show ?thesis
    by (simp add: rpc_response_encode_def Let_def c PROTOCOL_MAX_BLOB_SIZE_RESPONSE_def g_len_contents)
qed

lemma toy_response:
  "\<exists>g. rpc_response_encode toy_crypto toy_compressor (SignatureKey []) VerificationKeyBytes_zero PQCommitmentBytes_zero Id_zero 0
      Hash_zero Salt_zero Hash_zero RESP_COMPRESSED PingResponseV1 g_default = Inr g
    \<and> rpc_response_decode toy_crypto toy_compressor Id_zero Hash_zero 32 (g_to_bytes g)
      = Inr \<lparr>rr_response_request_kind = PingResponseV1, rr_bytes = contents g_default\<rparr>"
proof -
  obtain g where g: "rpc_response_encode toy_crypto toy_compressor (SignatureKey []) VerificationKeyBytes_zero PQCommitmentBytes_zero Id_zero 0
      Hash_zero Salt_zero Hash_zero RESP_COMPRESSED PingResponseV1 g_default = Inr g" using toy_encoded_response by blast
  have "g_len g_default < PROTOCOL_MAX_BLOB_SIZE_RESPONSE" by (simp add: PROTOCOL_MAX_BLOB_SIZE_RESPONSE_def g_len_contents)
  from response_decodes[OF toy_responder _ toy_server_pow _ toy_pow_id _ this g, of 32] g show ?thesis
    by (simp add: RESP_COMPRESSED_def toy_compressor_laws)
qed

theorem rpc_response_roundtrip_witness:
  "\<exists>g. rpc_response_encode toy_crypto toy_compressor (SignatureKey []) VerificationKeyBytes_zero PQCommitmentBytes_zero Id_zero 0 Hash_zero
       Salt_zero Hash_zero RESP_COMPRESSED PingResponseV1 g_default = Inr g
    \<and> rpc_response_decode toy_crypto toy_compressor Id_zero Hash_zero 32 (g_to_bytes g)
      = Inr \<lparr>rr_response_request_kind = PingResponseV1, rr_bytes = contents g_default\<rparr>"
proof -
  obtain g where g: "rpc_response_encode toy_crypto toy_compressor (SignatureKey []) VerificationKeyBytes_zero PQCommitmentBytes_zero Id_zero 0
      Hash_zero Salt_zero Hash_zero RESP_COMPRESSED PingResponseV1 g_default = Inr g" using toy_encoded_response by blast
  have "g_len g_default < PROTOCOL_MAX_BLOB_SIZE_RESPONSE" by (simp add: PROTOCOL_MAX_BLOB_SIZE_RESPONSE_def g_len_contents)
  from rpc_response_roundtrip[OF toy_responder _ toy_server_pow _ toy_pow_id _ this g, of 32] g show ?thesis
    by (simp add: RESP_COMPRESSED_def toy_compressor_laws)
qed

theorem bucket_ladder_nested_witness:
  "BUCKET_DURATIONS ! 5 dvd BUCKET_DURATIONS ! 2
    \<and> (\<exists>f. round_down_to_bucket_start 1700000000000 (BUCKET_DURATIONS ! 5) = Inr f
         \<and> round_down_to_bucket_start f (BUCKET_DURATIONS ! 2) = round_down_to_bucket_start 1700000000000 (BUCKET_DURATIONS ! 2))"
  by (rule bucket_ladder_nested) (simp_all add: bucket_durations_values)

theorem post_bundle_verify_sound_witness:
  "pbh_signature_verify toy_crypto toy_bundle_header = Inr () \<and> sum_list (pbh_encoded_post_lengths toy_bundle_header) = 0"
  using post_bundle_verify_sound[OF toy_bundle_verifies] by (simp add: toy_env_def)

definition toy_feedback_bundle :: "pow \<Rightarrow> feedback_bundle" where
  "toy_feedback_bundle p = \<lparr>fbb_header = \<lparr>fh_time_millis = 0, fh_location_id = Id_zero, fh_feedbacks_bytes_hash = Hash_zero,
     fh_peer = toy_peer, fh_signature = toy_signature\<rparr>, fbb_feedbacks_bytes = feedback_encode_to_bytes (toy_vote p)\<rparr>"

theorem feedback_merge_is_max_witness:
  "\<exists>m. feedback_merge id [toy_feedback_bundle 9, toy_feedback_bundle 12] = Some m \<and> distinct (map fst (votes m))
     \<and> get_post_pow_for_feedback_type m Id_zero 3 = 12"
proof -
  obtain m where m: "feedback_merge id [toy_feedback_bundle 9, toy_feedback_bundle 12] = Some m"
    by (cases "feedback_merge id [toy_feedback_bundle 9, toy_feedback_bundle 12]")
      (auto simp: feedback_merge_def Let_def split: option.splits)
  have v: "votes (toy_feedback_bundle p) = [((Id_zero, 3), Salt_zero, p)]" for p
    using view_iter_encoded[of "[toy_vote p]"] toy_vote_wf[of p]
    by (simp add: votes_def toy_feedback_bundle_def vote_of_view_encoded) (simp add: vote_of_def toy_vote_def)
  from feedback_merge_is_max[OF m, of Id_zero 3] m show ?thesis by (auto simp: v best_pow_def)
qed

theorem new_server_peer_verifies_witness:
  "\<exists>s. ServerId_new toy_crypto toy_search 0 SERVER_KEY_POW_MIN Id_zero toy_keys Hash_zero = Inr s
    \<and> ServerId_verify toy_crypto s = Inr () \<and> (\<exists>p. ServerId_to_peer toy_crypto ''1'' 5 s = Inr p \<and> Peer_verify toy_crypto p = Inr ())"
proof -
  obtain s where s: "ServerId_new toy_crypto toy_search 0 SERVER_KEY_POW_MIN Id_zero toy_keys Hash_zero = Inr s"
    using toy_data_hash toy_pow_id by (simp add: ServerId_new_def server_pow_generate_def toy_search_def Let_def)
  from new_server_peer_verifies[OF toy_crypto_ok toy_search_ok toy_key_pair s] s show ?thesis by blast
qed

theorem stored_votes_converge_witness:
  "stored_vote_pow (fold put_vote [toy_vote 9, toy_vote 12] []) = stored_vote_pow (fold put_vote [toy_vote 12, toy_vote 9] [])"
  by (rule conjunct1, rule stored_votes_converge) simp

theorem decimation_takes_oldest_witness:
  "\<exists>victims spared. choose_victims 1 [Inr (Id_zero, time_encode_be 9), Inr (Id (replicate 32 1), time_encode_be 3)] = Inr victims
    \<and> length victims = min 1 (length (ok_values (take (5 * 1) [Inr (Id_zero, time_encode_be 9), Inr (Id (replicate 32 1), time_encode_be 3)])))
    \<and> mset (map flip (ok_values (take (5 * 1) [Inr (Id_zero, time_encode_be 9), Inr (Id (replicate 32 1), time_encode_be 3)])))
        = mset victims + spared
    \<and> (\<forall>x \<in> set victims. \<forall>y \<in># spared. fst x \<le> fst y)"
  by (rule decimation_takes_oldest)

theorem kademlia_random_peers_witness:
  "set [toy_peer] \<subseteq> set (get_all_peers (sv_kademlia toy_server)) \<and> length [toy_peer] = kad_len (sv_kademlia toy_server)"
proof -
  have c: "concat (k_peer_buckets (sv_kademlia toy_server)) = [toy_peer]" by (simp add: toy_server_def kad_new_def)
  then have l: "kad_len (sv_kademlia toy_server) = 1" by (simp add: kad_len_sum)
  have "get_peers_random (sv_kademlia toy_server) 4 [] = Some ([toy_peer], [])" by (simp add: get_peers_random_def l c)
  from kademlia_random_peers[OF this] l show ?thesis by simp
qed

theorem rpc_response_accepted_witness:
  "\<exists>vkb pqcb sponsor tsb h s sig p pow_hash i.
      server_pow_measure toy_crypto sponsor vkb pqcb tsb h s = Inr (p, pow_hash) \<and> 32 \<le> p
    \<and> server_pow_hash_to_id pow_hash = Inr i \<and> (i = Id_zero \<or> Id_is_zero Id_zero)
    \<and> ed_verify toy_crypto (vkb_bytes vkb) (hash_bytes Hash_zero) (signature_bytes sig)"
proof -
  obtain g where g: "rpc_response_encode toy_crypto toy_compressor (SignatureKey []) VerificationKeyBytes_zero PQCommitmentBytes_zero Id_zero 0
      Hash_zero Salt_zero Hash_zero RESP_COMPRESSED PingResponseV1 g_default = Inr g"
    "rpc_response_decode toy_crypto toy_compressor Id_zero Hash_zero 32 (g_to_bytes g)
      = Inr \<lparr>rr_response_request_kind = PingResponseV1, rr_bytes = contents g_default\<rparr>"
    using toy_response by blast
  from rpc_response_accepted[OF g(2)] show ?thesis .
qed

end
