(* ===== verification/ClientSamples.thy ===== *)
theory ClientSamples
  imports Samples Posting MetaPost
begin

text \<open>
  The client in the concrete world of \<open>Samples\<close>: a storage in memory, one known peer, the bucket durations of the code. Each theorem
  below applies one property of the client there.
\<close>

section \<open>The tracker and the walk\<close>

definition toy_client_id :: client_id where
  "toy_client_id = \<lparr>cid_verification_key_bytes = VerificationKeyBytes (replicate 32 1), cid_pq_commitment_bytes = PQCommitmentBytes (replicate 32 0),
     cid_id = Id_zero\<rparr>"

lemma toy_peer_acceptable: "acceptable toy_crypto toy_peer"
  by (simp add: acceptable_def toy_peer_verify) code_simp

lemma toy_peer_id [simp]: "p_id toy_peer = Id_zero"
  by (simp add: toy_peer_def Peer_zero_def)

theorem tracker_keeps_newest_witness:
  "\<exists>t. tracker_add_peers toy_crypto [toy_peer, toy_peer] (PeerTracker_new (Inr None)) = Inr t \<and> tracked t = [Id_zero \<mapsto> toy_peer]"
proof -
  obtain t where t: "tracker_add_peers toy_crypto [toy_peer, toy_peer] (PeerTracker_new (Inr None)) = Inr t"
  proof -
    obtain t1 where t1: "tracker_add_peer toy_crypto toy_peer (PeerTracker_new (Inr None)) = (t1, Inr ())"
      using acceptable_accepted[OF toy_peer_acceptable] by blast
    obtain t2 where "tracker_add_peer toy_crypto toy_peer t1 = (t2, Inr ())" using acceptable_accepted[OF toy_peer_acceptable] by blast
    then have "tracker_add_peers toy_crypto [toy_peer, toy_peer] (PeerTracker_new (Inr None)) = Inr t2" using t1 by simp
    then show thesis by (rule that)
  qed
  from tracker_keeps_newest[OF t, of toy_peer] have "tracked t = fold newer_of [toy_peer, toy_peer] Map.empty"
    by (simp add: toy_peer_acceptable)
  then show ?thesis using t by (auto simp: newer_of_def)
qed

theorem walk_visits_nearest_witness:
  "walk 3 [toy_peer] (PeerIterator_new Id_zero 6 None) = [toy_peer]"
proof -
  have "length (walk 3 [toy_peer] (PeerIterator_new Id_zero 6 None)) = 1 \<and> set (walk 3 [toy_peer] (PeerIterator_new Id_zero 6 None)) \<subseteq> {toy_peer}"
    using walk_visits_nearest[of "[toy_peer]" 3 Id_zero 6] by (simp add: Let_def split: if_splits)
  then show ?thesis by (cases "walk 3 [toy_peer] (PeerIterator_new Id_zero 6 None)") auto
qed

text \<open>The peer whose identity is the location's is never within the radius: the call does not return.\<close>

lemma zero_agreement: "leading_agreement_bits_xor (id_bytes Id_zero) (id_bytes Id_zero) = 256"
  by code_simp

theorem next_peer_returns_iff_witness:
  "next_peer [toy_peer] (PeerIterator_new Id_zero 6 (Some 3)) = None"
proof -
  have "wf_id Id_zero" by (simp add: wf_newtypes Id_zero_def byte_counts)
  with next_peer_returns_iff[of "PeerIterator_new Id_zero 6 (Some 3)" 3 "[toy_peer]"]
    have "\<not> (\<exists>r. next_peer [toy_peer] (PeerIterator_new Id_zero 6 (Some 3)) = Some r)"
    by (simp add: peer_agreement_def zero_agreement)
  then show ?thesis by (metis not_Some_eq)
qed


section \<open>The walk over the buckets\<close>

lemma ladder_ok: "durations_ok BUCKET_DURATIONS" "durations_ok (bucket_durations_for_type ty)"
  using ladder_nested by (auto simp: nested_def)

theorem visit_equals_reference_witness:
  "bucket_visit 1700000000000 1699990000000 [3600000, 900000] collect_all []
    = Some (visit_level 1700000000000 collect_all [3600000, 900000]
        (siblings 3600000 (bucket_start 1699990000000 3600000) (bucket_start 1700000000000 3600000)) [])"
  using visit_equals_reference[of "[3600000, 900000]" 1700000000000 1699990000000 collect_all "[]"]
  by (simp add: durations_ok_def in_i64_def I64_MIN_def I64_MAX_def)

theorem visit_opens_each_bucket_once_witness:
  "\<exists>s' evs r. bucket_visit 1700000000000 1699990000000 BUCKET_DURATIONS (logged collect_all) ([], []) = Some ((s', evs), r) \<and> distinct evs"
proof -
  have ok: "nested BUCKET_DURATIONS" "durations_ok BUCKET_DURATIONS" using ladder_nested ladder_ok by auto
  obtain out where "bucket_visit 1700000000000 1699990000000 BUCKET_DURATIONS (logged collect_all) ([], []) = Some out"
    using visit_runs_reference[OF ok(2), of 1700000000000 1699990000000 "logged collect_all" "([], [])"] by (simp add: I64_MIN_def)
  moreover obtain s' evs r where "out = ((s', evs), r)" by (metis prod.collapse)
  ultimately have run: "bucket_visit 1700000000000 1699990000000 BUCKET_DURATIONS (logged collect_all) ([], []) = Some ((s', evs), r)" by simp
  with visit_opens_each_bucket_once[OF ok(1) _ _ _ run] show ?thesis by (simp add: bucket_durations_values I64_MAX_def)
qed

theorem full_walk_covers_time_witness:
  "\<exists>opened. bucket_visit 1700000000000 1699990000000 BUCKET_DURATIONS collect_all [] = Some (opened, Inr True)
    \<and> sorted_wrt (>) (finest (last BUCKET_DURATIONS) opened)
    \<and> set (finest (last BUCKET_DURATIONS) opened) = {t. last BUCKET_DURATIONS dvd t
        \<and> bucket_start 1699990000000 (hd BUCKET_DURATIONS) \<le> t \<and> t < 1700000000000}"
  by (rule full_walk_covers_time[OF ladder_nested(1)]) (simp_all add: bucket_durations_values I64_MAX_def)


section \<open>Timelines\<close>

definition toy_timeline :: single_timeline where
  "toy_timeline = SingleTimeline_new User Id_zero"

lemma toy_timeline_start:
  "I64_MIN < time_sub_dur (tl_oldest_allowed (tl_start 1700000000000 toy_timeline)) MILLIS_IN_MONTH" "tl_seen toy_timeline = {}"
  by (simp_all add: toy_timeline_def SingleTimeline_new_def tl_start_def time_sub_dur_def sat_i64_def millis_values I64_MIN_def I64_MAX_def)

lemma toy_stub: "stub_ok Map.empty"
  by (simp add: stub_ok_def)

text \<open>A bundle that lists one post, and a timeline over monthly buckets of which the newest holds it.\<close>

definition toy_stub_bundle :: post_bundle where
  "toy_stub_bundle = \<lparr>pb_header = toy_header\<lparr>pbh_num_posts := 1, pbh_encoded_post_ids := [Id (replicate 32 1)],
     pbh_encoded_post_lengths := [2]\<rparr>, pb_encoded_posts_bytes = [8, 9]\<rparr>"

definition toy_month :: bucket_location where
  "toy_month = \<lparr>bl_bucket_type = User, bl_base_id = Id_zero, bl_duration = MILLIS_IN_MONTH, bl_bucket_time_millis = 5 * MILLIS_IN_MONTH,
     bl_location_id = Id_zero\<rparr>"

lemma toy_page:
  "\<exists>st' m' pen'. tl_get_more_posts toy_crypto (stub_get_post_bundle toy_peer) 12096000005 1 [MILLIS_IN_MONTH]
      (toy_timeline, [Id_zero \<mapsto> toy_stub_bundle], []) = Some ((st', m', pen'), Inr [(toy_month, [8, 9], False)])"
proof -
  have loc: "BucketLocation_new toy_crypto User Id_zero 2419200000 12096000000 = Inr toy_month"
    by (simp add: BucketLocation_new_def toy_month_def bucket_hash_def hash_multiple_def toy_crypto_def Id_from_hash_def Id_zero_def byte_counts
        round_down_to_bucket_start_def checked_div_def I64_MIN_def millis_values)
  have d: "durations_ok [2419200000]" by (simp add: durations_ok_def in_i64_def I64_MIN_def I64_MAX_def)
  have "\<exists>rest. siblings 2419200000 (bucket_start 9676800005 2419200000) (bucket_start 12096000005 2419200000) = 12096000000 # rest"
    by (subst siblings.simps) (simp add: bucket_start_def signed_divide_int_def)
  then obtain rest where ts: "siblings 2419200000 (bucket_start 9676800005 2419200000) (bucket_start 12096000005 2419200000) = 12096000000 # rest"
    by blast
  let ?G = "stub_get_post_bundle toy_peer" and ?m = "[Id_zero \<mapsto> toy_stub_bundle]"
  have start: "tl_start 12096000005 toy_timeline = toy_timeline\<lparr>tl_oldest_allowed := 12096000005, tl_oldest_processed := 12096000005\<rparr>"
    by (simp add: tl_start_def toy_timeline_def SingleTimeline_new_def Let_def)
  have earliest: "time_sub_dur 12096000005 MILLIS_IN_MONTH = 9676800005" by (simp add: time_sub_dur_def sat_i64_def millis_values I64_MIN_def I64_MAX_def)
  have b: "?G toy_month 12096000005 ?m = (?m, Inr (toy_stub_bundle\<lparr>pb_header := (pb_header toy_stub_bundle)\<lparr>pbh_time_millis := 12096000005,
        pbh_overflowed := False, pbh_sealed := 12096000005 > stub_sealed_time toy_month\<rparr>\<rparr>))"
    by (simp add: stub_get_post_bundle_def toy_month_def toy_stub_bundle_def bundle_limits Let_def)
  have opened: "\<exists>st1. tl_on_open toy_crypto ?G 12096000005 12096000000 2419200000 (tl_start 12096000005 toy_timeline, [], ?m)
      = ((st1, [], ?m), Inr ContinueWithoutChildren) \<and> tl_seen st1 = {} \<and> tl_bucket_type st1 = User \<and> tl_base_id st1 = Id_zero"
    unfolding start by (simp add: tl_on_open_def tl_bundle_def toy_timeline_def SingleTimeline_new_def loc b)
  then obtain st1 where o: "tl_on_open toy_crypto ?G 12096000005 12096000000 2419200000 (tl_start 12096000005 toy_timeline, [], ?m)
      = ((st1, [], ?m), Inr ContinueWithoutChildren)" "tl_seen st1 = {}" "tl_bucket_type st1 = User" "tl_base_id st1 = Id_zero" by blast
  obtain st2 where c: "tl_on_close toy_crypto ?G 12096000005 1 12096000000 2419200000 (st1, [], ?m)
      = ((st2, [(toy_month, [8, 9], False)], ?m), Inr CloseStop)"
    using o by (simp add: tl_on_close_def tl_bundle_def loc b Let_def) (simp add: toy_stub_bundle_def toy_header_def slice_def USIZE_MAX_def)
  have "bucket_visit 12096000005 9676800005 [2419200000] (tl_callbacks toy_crypto ?G 12096000005 1) (tl_start 12096000005 toy_timeline, [], ?m)
      = Some ((st2, [(toy_month, [8, 9], False)], ?m), Inr False)"
    by (subst visit_runs_reference[OF d]) (simp_all add: I64_MIN_def tl_callbacks_def ts o(1) c[unfolded One_nat_def])
  then show ?thesis using earliest start
    by (simp add: tl_get_more_posts_def millis_values pen_get_matching_posts_def toy_timeline_def SingleTimeline_new_def)
qed

theorem timeline_pages_do_not_repeat_witness:
  "\<exists>st' m' pen'. tl_get_more_posts toy_crypto (stub_get_post_bundle toy_peer) 12096000005 1 [MILLIS_IN_MONTH]
      (toy_timeline, [Id_zero \<mapsto> toy_stub_bundle], []) = Some ((st', m', pen'), Inr [(toy_month, [8, 9], False)])
    \<and> (\<exists>i. tl_seen st' = {i} \<and> from_bundle (stub_get_post_bundle toy_peer) 12096000005 [Id_zero \<mapsto> toy_stub_bundle] (toy_month, [8, 9], False) i)"
proof -
  obtain st' m' pen' where run: "tl_get_more_posts toy_crypto (stub_get_post_bundle toy_peer) 12096000005 1 [MILLIS_IN_MONTH]
      (toy_timeline, [Id_zero \<mapsto> toy_stub_bundle], []) = Some ((st', m', pen'), Inr [(toy_month, [8, 9], False)])" using toy_page by blast
  have d: "durations_ok [MILLIS_IN_MONTH]" by (simp add: durations_ok_def in_i64_def I64_MIN_def I64_MAX_def millis_values)
  have n: "I64_MIN < (12096000005 :: int)" "I64_MIN < time_sub_dur (tl_oldest_allowed (tl_start 12096000005 toy_timeline)) MILLIS_IN_MONTH"
    by (simp_all add: I64_MIN_def tl_start_def toy_timeline_def SingleTimeline_new_def time_sub_dur_def sat_i64_def millis_values I64_MAX_def)
  from timeline_pages_do_not_repeat[OF d n, of toy_crypto "stub_get_post_bundle toy_peer" 1 "[Id_zero \<mapsto> toy_stub_bundle]" "[]"] run
  have "\<exists>ids. distinct ids \<and> set ids \<inter> tl_seen toy_timeline = {} \<and> tl_seen st' = tl_seen toy_timeline \<union> set ids
      \<and> list_all2 (\<lambda>post i. from_bundle (stub_get_post_bundle toy_peer) 12096000005 [Id_zero \<mapsto> toy_stub_bundle] post i
          \<or> from_pen [] 12096000005 post i) [(toy_month, [8, 9], False)] ids" by auto
  then have "\<exists>i. tl_seen st' = {i} \<and> from_bundle (stub_get_post_bundle toy_peer) 12096000005 [Id_zero \<mapsto> toy_stub_bundle] (toy_month, [8, 9], False) i"
    by (auto simp: list_all2_Cons1 from_pen_def toy_timeline_def SingleTimeline_new_def)
  with run show ?thesis by blast
qed

theorem merged_feed_polls_all_witness:
  "\<exists>mt' m' pen' out. mt_get_more_posts toy_crypto (stub_get_post_bundle toy_peer) 1700000000000 50 20 BUCKET_DURATIONS
      (MultipleTimeline_new User [Id_zero], Map.empty, []) = Some ((mt', m', pen'), Inr out)
    \<and> map feed_of (mt_single_timelines mt') = [(User, Id_zero)] \<and> total_seen (mt_single_timelines mt') = length out"
proof -
  let ?mt = "MultipleTimeline_new User [Id_zero]"
  have n: "I64_MIN < (1700000000000 :: int)" by (simp add: I64_MIN_def)
  have mt: "mt_single_timelines ?mt = [toy_timeline]" by (simp add: MultipleTimeline_new_def toy_timeline_def)
  obtain st' m' pen' posts where page: "tl_get_more_posts toy_crypto (stub_get_post_bundle toy_peer) 1700000000000 20 BUCKET_DURATIONS
      (toy_timeline, Map.empty, []) = Some ((st', m', pen'), Inr posts)"
    using stub_page_succeeds[OF toy_crypto_ok toy_stub ladder_ok(1) n toy_timeline_start(1)] by (metis prod.collapse)
  then obtain mt' m2 pen2 out where run: "mt_get_more_posts toy_crypto (stub_get_post_bundle toy_peer) 1700000000000 50 20 BUCKET_DURATIONS
      (?mt, Map.empty, []) = Some ((mt', m2, pen2), Inr out)"
    by (cases "50 \<le> length posts") (simp_all add: mt_get_more_posts_def mt sort_timelines_def)
  have "\<forall>st \<in> set (mt_single_timelines ?mt). walkable 1700000000000 st" by (simp add: mt walkable_def toy_timeline_start)
  from merged_feed_polls_all[OF ladder_ok(1) n this _ run] run show ?thesis
    by (auto simp: mt feed_of_def toy_timeline_def SingleTimeline_new_def total_seen_def tl_post_count_def)
qed


section \<open>Storage, healing and caching\<close>

theorem client_trim_evicts_oldest_witness:
  "\<exists>s' es'. mem_client_trim BUCKET_PEER 1 [(BUCKET_CONFIG, []), (BUCKET_PEER, [(''a'', \<lparr>se_value = [1], se_last_accessed = 9\<rparr>),
      (''b'', \<lparr>se_value = [2], se_last_accessed = 5\<rparr>)]), (BUCKET_POST_BUNDLE, []), (BUCKET_POST_BUNDLE_FEEDBACK, []), (BUCKET_META_POST_PUBLIC, [])]
      = (s', Inr ()) \<and> map_of s' BUCKET_PEER = Some es' \<and> length es' = 1"
  using client_trim_evicts_oldest[of "[(BUCKET_CONFIG, []), (BUCKET_PEER, [(''a'', \<lparr>se_value = [1], se_last_accessed = 9\<rparr>),
      (''b'', \<lparr>se_value = [2], se_last_accessed = 5\<rparr>)]), (BUCKET_POST_BUNDLE, []), (BUCKET_POST_BUNDLE_FEEDBACK, []), (BUCKET_META_POST_PUBLIC, [])]"
    BUCKET_PEER _ 1]
  by (force simp: mem_client_ready_def storage_buckets)


definition toy_cache_token :: cache_request_token where
  "toy_cache_token = cache_token_new toy_crypto toy_peer toy_location 30000 [] (server_key toy_server)"

section \<open>A server that answers\<close>

text \<open>The answer of the server depends on the kind of the request; it is empty, and codecs of constants read the bodies.\<close>

definition toy_services :: "(bytes \<Rightarrow> bytes) \<Rightarrow> runtime_services" where
  "toy_services reply = \<lparr>rs_crypto = toy_crypto, rs_compressor = toy_compressor, rs_now = 0, rs_pow_search = toy_search,
     rs_transport = (\<lambda>address request. Inr (reply (take 2 (drop 2 request)))), rs_error_json = const_codec undefined\<rparr>"

definition toy_answers :: "(bytes \<Rightarrow> bytes) \<Rightarrow> request_kind \<Rightarrow> response_kind \<Rightarrow> bool" where
  "toy_answers reply k rk \<longleftrightarrow> rk \<noteq> ErrorResponseV1 \<and> rpc_response_decode toy_crypto toy_compressor Id_zero Hash_zero 32
     (reply (le_bytes 2 (request_kind_u16 k))) = Inr \<lparr>rr_response_request_kind = rk, rr_bytes = []\<rparr>"

lemma toy_response_of:
  "\<exists>bs. rpc_response_decode toy_crypto toy_compressor Id_zero Hash_zero 32 bs = Inr \<lparr>rr_response_request_kind = rk, rr_bytes = []\<rparr>"
proof -
  have c: "contents g_default = []" "flags_contain RESP_COMPRESSED RESP_COMPRESSED" by code_simp+
  obtain z where z: "compress_for_speed toy_compressor [] = Inr z" "g_len z \<le> 1"
    using compress_speed_ok[of toy_compressor "[]"] toy_compressor_laws by auto
  then obtain g where g: "rpc_response_encode toy_crypto toy_compressor (SignatureKey []) VerificationKeyBytes_zero PQCommitmentBytes_zero
      Id_zero 0 Hash_zero Salt_zero Hash_zero RESP_COMPRESSED rk g_default = Inr g"
    by (simp add: rpc_response_encode_def Let_def c PROTOCOL_MAX_BLOB_SIZE_RESPONSE_def g_len_contents)
  have "g_len g_default < PROTOCOL_MAX_BLOB_SIZE_RESPONSE" by (simp add: PROTOCOL_MAX_BLOB_SIZE_RESPONSE_def g_len_contents)
  from response_decodes[OF toy_responder _ toy_server_pow _ toy_pow_id _ this g, of 32] c(1) show ?thesis
    by (auto simp: RESP_COMPRESSED_def toy_compressor_laws)
qed

lemma toy_call:
  assumes "toy_answers reply k rk" "length payload \<le> PROTOCOL_MAX_BLOB_SIZE_REQUEST"
  shows "rpc_to_peer (toy_services reply) p REQ_SERVER_KNOWN Id_zero toy_peer k payload = Inr \<lparr>rr_response_request_kind = rk, rr_bytes = []\<rparr>"
proof -
  have f: "\<not> flags_contain REQ_SERVER_KNOWN REQ_COMPRESSED" by code_simp
  have m: "SERVER_KEY_POW_MIN = 32" "hashing_hash toy_crypto x = Hash_zero" for x
    by (simp_all add: pow_minimums hashing_hash_def toy_crypto_def Hash_zero_def byte_counts)
  show ?thesis using assms toy_data_hash
    by (simp add: rpc_to_peer_def rpc_server_xxx_def rpc_request_encode_def toy_services_def f Let_def m server_pow_generate_def
        toy_search_def rpc_request_header_def toy_answers_def)
qed

theorem cache_upload_respects_token_witness:
  "\<exists>message. upload_post_bundle_caches (\<lambda>p. toy_services id) toy_json (const_codec True) Id_zero [toy_cache_token] [(Id_zero, [1, 2]), (Id_zero, [3])] =
      [upload_one_cache (toy_services id) Id_zero toy_cache_token CachePostBundleV1 CachePostBundleResponseV1 (const_codec True) message]
    \<and> x_CachePostBundle (toy_world 0) message toy_server =
      sbind (slift (cache_token_ok (toy_world 0) toy_peer toy_cache_token)) (\<lambda>_.
      sbind (upload_bundles (toy_world 0) (crt_bucket_location toy_cache_token) [[1, 2], [3]] False)
        (\<lambda>any_accepted. sret (CacheBundleBody any_accepted))) toy_server"
proof -
  let ?R = "\<lambda>p :: peer. toy_services id" and ?JA = "const_codec True" and ?bundles = "[(Id_zero, [1, 2]), (Id_zero, [3])] :: (id \<times> bytes) list"
  have t: "crt_expires_at toy_cache_token = 30000" "crt_already_cached_peer_ids toy_cache_token = []" "crt_peer toy_cache_token = toy_peer"
    by (simp_all add: toy_cache_token_def cache_token_new_def)
  have ok: "\<forall>token \<in> set [toy_cache_token]. json_ok (pj_cache_token toy_json) token"
    by (simp add: json_ok_def toy_json_def const_codec_def toy_cache_token_def)
  have fit: "entries_fit (map snd ?bundles)" by (simp add: entries_fit_def)
  from cache_upload_respects_token[OF fit list.distinct(2) ok, where 's = mem_store, of ?R ?JA Id_zero]
  obtain message n where u: "n \<le> length [toy_cache_token]" "upload_post_bundle_caches ?R toy_json ?JA Id_zero [toy_cache_token] ?bundles =
      map (\<lambda>token. if crt_expires_at token < rs_now (?R (crt_peer token))
          \<or> (\<forall>(originator, bs) \<in> set ?bundles. originator \<in> set (crt_already_cached_peer_ids token)) then Inr ()
        else upload_one_cache (?R (crt_peer token)) Id_zero token CachePostBundleV1 CachePostBundleResponseV1 ?JA (message token)) (take n [toy_cache_token])"
    "n < length [toy_cache_token] \<longrightarrow> 0 < n \<and> is_panic (last (upload_post_bundle_caches ?R toy_json ?JA Id_zero [toy_cache_token] ?bundles))"
    "\<forall>token \<in> set [toy_cache_token]. \<forall>(W :: mem_store server_world) s. sw_json W = toy_json \<longrightarrow> x_CachePostBundle W (message token) s =
        sbind (slift (cache_token_ok W (sv_peer_self s) token)) (\<lambda>_.
        sbind (upload_bundles W (crt_bucket_location token)
          (map snd (List.filter (\<lambda>(originator, bs). originator \<notin> set (crt_already_cached_peer_ids token)) ?bundles)) False)
          (\<lambda>any_accepted. sret (CacheBundleBody any_accepted))) s"
    by (elim exE conjE) (rule that)
  have "n = 1" using u(1,3) by auto
  moreover have "sv_peer_self toy_server = toy_peer" "rs_now (toy_services id) = 0" by (simp_all add: toy_server_def toy_services_def)
  ultimately show ?thesis using u(2,4) t by (intro exI[of _ "message toy_cache_token"]) simp
qed





definition toy_commit_token :: submit_post_commit_token where
  "toy_commit_token = \<lparr>spm_peer = toy_peer, spm_bucket_location = toy_location, spm_post_id = Id_zero, spm_token_signature = toy_signature\<rparr>"

definition toy_client_world :: "(bytes \<Rightarrow> bytes) \<Rightarrow> client_world" where
  "toy_client_world reply = \<lparr>cw_crypto = toy_crypto, cw_compressor = toy_compressor, cw_services = (\<lambda>p. toy_services reply),
     cw_sponsor_id = Id_zero, cw_now = 0,
     cw_bootstrap = \<lparr>bw_addresses = [], bw_services = (\<lambda>a. toy_services reply), bw_request_json = const_codec (),
        bw_response_json = const_codec \<lparr>br_peers_random = []\<rparr>\<rparr>,
     cw_json = toy_json, cw_get_json = const_codec undefined, cw_feedback_header_json = const_codec undefined,
     cw_peers_json = const_codec [], cw_hex = bytes_str, cw_hash_order = id\<rparr>"

definition toy_posting_world :: "(bytes \<Rightarrow> bytes) \<Rightarrow> posting_world" where
  "toy_posting_world reply = \<lparr>po_client = toy_client_world reply,
     po_claim_response_json = const_codec \<lparr>scr_peers_nearer = [], scr_submit_post_claim_token = Some toy_claim_token\<rparr>,
     po_commit_response_json = const_codec toy_commit_token, po_feedback_response_json = const_codec undefined,
     po_env = toy_env, po_sign = (\<lambda>m. Inr toy_signature), po_parse_fragment = (\<lambda>s. [HtmlText s]),
     po_hex_decode = (\<lambda>s. None), po_lowercase = id\<rparr>"

lemma toy_reply:
  "\<exists>reply. toy_answers reply SubmitPostClaimV1 SubmitPostClaimResponseV1 \<and> toy_answers reply SubmitPostCommitV1 SubmitPostCommitResponseV1"
proof -
  obtain claim commit where c: "rpc_response_decode toy_crypto toy_compressor Id_zero Hash_zero 32 claim
      = Inr \<lparr>rr_response_request_kind = SubmitPostClaimResponseV1, rr_bytes = []\<rparr>"
    "rpc_response_decode toy_crypto toy_compressor Id_zero Hash_zero 32 commit
      = Inr \<lparr>rr_response_request_kind = SubmitPostCommitResponseV1, rr_bytes = []\<rparr>"
    using toy_response_of by metis
  have k: "le_bytes 2 (request_kind_u16 SubmitPostClaimV1) \<noteq> le_bytes 2 (request_kind_u16 SubmitPostCommitV1)" by code_simp
  let ?reply = "\<lambda>k. if k = le_bytes 2 (request_kind_u16 SubmitPostClaimV1) then claim else commit"
  have "toy_answers ?reply SubmitPostClaimV1 SubmitPostClaimResponseV1" "toy_answers ?reply SubmitPostCommitV1 SubmitPostCommitResponseV1"
    using c k by (simp_all add: toy_answers_def)
  then show ?thesis by blast
qed

text \<open>The walk with the one peer.\<close>

lemma toy_next_peer:
  "\<exists>it'. next_peer [toy_peer] (PeerIterator_new Id_zero 6 None) = Some (it', Some (toy_peer, 256)) \<and> next_peer [toy_peer] it' = Some (it', None)"
proof -
  have z: "peer_agreement Id_zero toy_peer = 256" unfolding peer_agreement_def toy_peer_id by code_simp
  show ?thesis
    by (simp add: next_peer.simps PeerIterator_new_def nearest_peer_def unvisited_def within_radius_def z visit_peer_def)
qed

definition toy_random :: enc_random where "toy_random = (replicate 32 3, [replicate 12 0], replicate 12 2)"

definition toy_posted :: "encoded_post \<times> encoded_post_bytes" where
  "toy_posted = (case encode_to_bytes_direct toy_env (\<lambda>m. Inr toy_signature) toy_random toy_random (EncodedPost_new toy_client_id 0 [Id_zero] ''hi'') of
       Inr x \<Rightarrow> x | Inl e \<Rightarrow> (toy_post, \<lparr>epb_length_without_body = 0, epb_bytes = []\<rparr>))"

lemma toy_encodes:
  "encode_to_bytes_direct toy_env (\<lambda>m. Inr toy_signature) toy_random toy_random (EncodedPost_new toy_client_id 0 [Id_zero] ''hi'') = Inr toy_posted"
proof -
  have "case encode_to_bytes_direct toy_env (\<lambda>m. Inr toy_signature) toy_random toy_random (EncodedPost_new toy_client_id 0 [Id_zero] ''hi'') of
      Inr x \<Rightarrow> True | Inl e \<Rightarrow> False" by code_simp
  then show ?thesis by (auto simp: toy_posted_def split: sum.splits)
qed

lemma toy_posted_length: "length (epb_bytes (snd toy_posted)) = 381" by code_simp

lemma toy_posted_header: "ph_post_length (ep_header (fst toy_posted)) = 2" "length (ph_linked_base_ids (ep_header (fst toy_posted))) = 1"
  by code_simp+

definition toy_job :: post_job where
  "toy_job = \<lparr>job_sponsor_id = Id_zero, job_post = fst toy_posted, job_post_bytes = snd toy_posted, job_referenced_hashtags = [],
     job_timestamp = 0\<rparr>"

lemma toy_bodies:
  "length (submit_post_claim_new_to_bytes toy_json toy_location None [] (epb_bytes_without_body (snd toy_posted))) \<le> PROTOCOL_MAX_BLOB_SIZE_REQUEST"
  "length (submit_post_commit_new_to_bytes toy_json toy_location toy_claim_token (epb_bytes (snd toy_posted))) \<le> PROTOCOL_MAX_BLOB_SIZE_REQUEST"
proof -
  have "length (signature_bytes (spc_token_signature toy_claim_token)) \<le> 64" by (simp add: toy_claim_token_def claim_token_new_def signing_sign_def toy_crypto_def)
  then show "length (submit_post_claim_new_to_bytes toy_json toy_location None [] (epb_bytes_without_body (snd toy_posted))) \<le> PROTOCOL_MAX_BLOB_SIZE_REQUEST"
    "length (submit_post_commit_new_to_bytes toy_json toy_location toy_claim_token (epb_bytes (snd toy_posted))) \<le> PROTOCOL_MAX_BLOB_SIZE_REQUEST"
    using toy_posted_length
    by (simp_all add: PROTOCOL_MAX_BLOB_SIZE_REQUEST_def submit_post_claim_new_to_bytes_def submit_post_commit_new_to_bytes_def
        write_length_prefixed_json_def toy_json_def const_codec_def toy_claim_codec_def epb_bytes_without_body_def)
qed

lemma toy_posting_pow: "get_minimum_post_pow 2 1 MILLIS_IN_MONTH = Inr 18"
  by (simp add: get_minimum_post_pow_def millis_values post_additional_bits_def amplification_length_def amplification_linked_def
      amplification_bucket_def log2_ceil_as_u8_def pow_minimums)

lemma toy_asks:
  assumes "toy_answers reply SubmitPostClaimV1 SubmitPostClaimResponseV1" "toy_answers reply SubmitPostCommitV1 SubmitPostCommitResponseV1"
  shows "ask_claim (toy_posting_world reply) toy_job toy_location None toy_peer
      = Inr \<lparr>scr_peers_nearer = [], scr_submit_post_claim_token = Some toy_claim_token\<rparr>"
    "ask_commit (toy_posting_world reply) toy_job toy_location toy_claim_token toy_peer = Inr toy_commit_token"
proof -
  have d: "bl_duration toy_location = MILLIS_IN_MONTH" by (simp add: toy_location_def)
  show "ask_claim (toy_posting_world reply) toy_job toy_location None toy_peer
      = Inr \<lparr>scr_peers_nearer = [], scr_submit_post_claim_token = Some toy_claim_token\<rparr>"
    using toy_call[OF assms(1) toy_bodies(1)] toy_posting_pow toy_posted_header
    by (simp add: ask_claim_def toy_posting_world_def toy_client_world_def toy_job_def d const_codec_def
        rpc_server_known_with_requisite_pow_and_no_compression_def)
  show "ask_commit (toy_posting_world reply) toy_job toy_location toy_claim_token toy_peer = Inr toy_commit_token"
    using toy_call[OF assms(2) toy_bodies(2)]
    by (simp add: ask_commit_def toy_posting_world_def toy_client_world_def toy_job_def const_codec_def rpc_server_known_with_no_compression_def)
qed

definition toy_tracker :: peer_tracker where
  "toy_tracker = (PeerTracker_new (Inr None))\<lparr>pt_peers := [toy_peer]\<rparr>"

lemma toy_tracker_ok: "tracker_ok toy_crypto toy_tracker"
  by (simp add: tracker_ok_def toy_tracker_def toy_peer_acceptable)

lemma toy_post_to_location:
  assumes "toy_answers reply SubmitPostClaimV1 SubmitPostClaimResponseV1" "toy_answers reply SubmitPostCommitV1 SubmitPostCommitResponseV1"
  shows "\<exists>s'. post_to_location (toy_posting_world reply) toy_job toy_location None User \<lparr>ps_tracker = toy_tracker, ps_pen = [], ps_outcomes = []\<rparr>
    = Some (s', Inr [toy_commit_token]) \<and> ps_outcomes s' = [(User, toy_commit_token)] \<and> ps_tracker s' = toy_tracker"
proof -
  have loc: "bl_location_id toy_location = Id_zero" by (simp add: toy_location_def)
  have peers: "pt_peers toy_tracker = [toy_peer]" by (simp add: toy_tracker_def)
  have it: "iterate_to_location (cw_crypto (po_client (toy_posting_world reply))) (cw_bootstrap (po_client (toy_posting_world reply))) Id_zero 6 None
      toy_tracker = Inr (toy_tracker, PeerIterator_new Id_zero 6 None)"
    by (simp add: iterate_to_location_def tracker_bootstrap_def tracker_is_empty_def peers)
  obtain it' where n: "next_peer [toy_peer] (PeerIterator_new Id_zero 6 None) = Some (it', Some (toy_peer, 256))"
      "next_peer [toy_peer] it' = Some (it', None)" using toy_next_peer by blast
  let ?r = "\<lparr>pr_claim_tokens = [], pr_commit_tokens = [], pr_pen = [], pr_outcomes = []\<rparr>"
  let ?r' = "take_commit toy_job User toy_commit_token (?r\<lparr>pr_claim_tokens := [toy_claim_token]\<rparr>)"
  have v: "visit_for_post (toy_posting_world reply) toy_job toy_location None User toy_peer 256 (?r, toy_tracker) = ((?r', toy_tracker), Inr False)"
    using toy_asks[OF assms] by (simp add: visit_for_post_def REDUNDANT_SERVERS_PER_POST_def take_commit_def)
  have "walk_loop (visit_for_post (toy_posting_world reply) toy_job toy_location None User) ?r (PeerIterator_new Id_zero 6 None) toy_tracker
      = Some ((?r', toy_tracker), Inr ())"
    using n v peers by (subst walk_loop.simps) (simp, subst walk_loop.simps, simp)
  then show ?thesis using it loc
    by (simp add: post_to_location_def REDUNDANT_SERVERS_PER_POST_def take_commit_def)
qed


text \<open>A manager whose storage holds a bundle for the location.\<close>

definition toy_bundle :: post_bundle where
  "toy_bundle = \<lparr>pb_header = toy_bundle_header, pb_encoded_posts_bytes = []\<rparr>"

lemma toy_bundle_in_storage:
  "\<exists>s. mem_client_ready s \<and> mem_client_peek s = (\<lambda>b k. None)(BUCKET_POST_BUNDLE := [bytes_str (id_bytes i) \<mapsto> toy_bundle_bytes])"
  using mem_client.put_stores[OF mem_client_new_ready(1), of BUCKET_POST_BUNDLE "bytes_str (id_bytes i)" toy_bundle_bytes 0]
  by (auto simp: mem_client_new_ready BUCKETS_def)

lemma toy_header_json: "pj_bundle_header (cw_json (toy_client_world reply)) = const_codec toy_bundle_header"
  by (simp add: toy_client_world_def toy_json_def)

lemma toy_live_ok:
  assumes "mem_client_ready s" "mem_client_peek s = (\<lambda>b k. None)(BUCKET_POST_BUNDLE := [bytes_str (id_bytes i) \<mapsto> toy_bundle_bytes])"
    and "tracker_ok toy_crypto t"
  shows "mem_live_ok (toy_client_world reply) (LivePostBundleManager_new s t)"
    "stored_bundle (toy_client_world reply) (mem_client_peek s) i = Some toy_bundle" "servable 0 toy_bundle"
proof -
  have c: "counts_posts toy_bundle" by (simp add: counts_posts_def toy_bundle_def toy_bundle_header_def toy_header_def)
  have "codec_ok (const_codec toy_bundle_header)" by (simp add: codec_ok_def const_codec_def)
  moreover have "cache_counts (toy_client_world reply) (mem_client_peek s)"
    using c by (auto simp: cache_counts_def assms(2) toy_header_json toy_bundle_read toy_bundle_def split: if_splits)
  ultimately show "mem_live_ok (toy_client_world reply) (LivePostBundleManager_new s t)"
    using assms(1,3) by (simp add: live_ok_def toy_header_json LivePostBundleManager_new_def) (simp add: toy_client_world_def)
  show "stored_bundle (toy_client_world reply) (mem_client_peek s) i = Some toy_bundle"
    by (simp add: stored_bundle_def assms(2) toy_header_json toy_bundle_read Id_to_hex_str_def toy_bundle_def)
      (simp add: toy_client_world_def)
  show "servable 0 toy_bundle"
    by (simp add: servable_def toy_bundle_def toy_bundle_header_def toy_header_def time_sub_def CLIENT_POST_BUNDLE_CACHE_DURATION_def
        millis_values const_mul_def sat_i64_def I64_MIN_def I64_MAX_def)
qed

theorem submission_reports_commits_witness:
  "\<exists>reply s s' p bs. submit_post mem_client_storage (toy_posting_world reply) toy_client_id toy_random toy_random ''hi'' True
      (LivePostBundleManager_new s toy_tracker, []) = Some (s', Inr ([toy_commit_token], p, bs))
    \<and> pc_pen s' = [\<lparr>pen_bucket_location = toy_location, pen_post_id = Id_zero, pen_encoded_post_bytes = bs, pen_time_millis = 0\<rparr>]"
proof -
  obtain reply where r: "toy_answers reply SubmitPostClaimV1 SubmitPostClaimResponseV1" "toy_answers reply SubmitPostCommitV1 SubmitPostCommitResponseV1"
    using toy_reply by blast
  obtain s where s: "mem_client_ready s" "mem_client_peek s = (\<lambda>b k. None)(BUCKET_POST_BUNDLE := [bytes_str (id_bytes Id_zero) \<mapsto> toy_bundle_bytes])"
    using toy_bundle_in_storage by blast
  let ?P = "toy_posting_world reply" and ?m = "LivePostBundleManager_new s toy_tracker"
  have ok: "mem_live_ok (toy_client_world reply) ?m" "stored_bundle (toy_client_world reply) (mem_client_peek s) Id_zero = Some toy_bundle"
      "servable 0 toy_bundle" by (rule toy_live_ok[OF s toy_tracker_ok])+
  have P: "po_client ?P = toy_client_world reply" "cw_crypto (toy_client_world reply) = toy_crypto" "cw_now (toy_client_world reply) = 0"
      "po_env ?P = toy_env" "po_sign ?P = (\<lambda>m. Inr toy_signature)" by (simp_all add: toy_posting_world_def toy_client_world_def)
  have m: "lm_storage ?m = s" "lm_tracker ?m = toy_tracker" by (simp_all add: LivePostBundleManager_new_def)
  have loc: "generate_bucket_location toy_crypto User Id_zero MILLIS_IN_MONTH 0 = Inr toy_location" "bl_location_id toy_location = Id_zero"
    by (simp_all add: generate_bucket_location_def BucketLocation_new_def round_down_to_bucket_start_def checked_div_def toy_location_def
      bucket_hash_def hash_multiple_def toy_crypto_def Id_from_hash_def Id_zero_def byte_counts I64_MIN_def millis_values)
  obtain s1 where g: "live_get_post_bundle mem_client_storage (toy_client_world reply) toy_location 0 ?m
      = Some (?m\<lparr>lm_storage := s1\<rparr>, Inr (toy_bundle, [], [], []))"
    using mem_client.live_hit[OF ok(1), of toy_location toy_bundle 0] ok(2,3) loc(2) m by auto
  obtain ps where ps: "post_to_location ?P toy_job toy_location None User \<lparr>ps_tracker = toy_tracker, ps_pen = [], ps_outcomes = []\<rparr>
      = Some (ps, Inr [toy_commit_token])" "ps_outcomes ps = [(User, toy_commit_token)]" using toy_post_to_location[OF r] by blast
  have b: "build_locations toy_crypto (po_lowercase ?P) (po_hex_decode ?P) (po_parse_fragment ?P) toy_client_id ''hi''
      = Inr ([\<lparr>ld_linked_base_id = Id_zero, ld_bucket_type = User, ld_referenced_post_header_bytes = None\<rparr>], [])"
    by (simp add: build_locations_def html_select_def toy_posting_world_def toy_client_id_def)
  have unsealed: "\<not> pbh_overflowed (pb_header toy_bundle)" "\<not> pbh_sealed (pb_header toy_bundle)"
    by (simp_all add: toy_bundle_def toy_bundle_header_def toy_header_def)
  have ds: "bucket_durations_for_type User = MILLIS_IN_MONTH # drop 2 BUCKET_DURATIONS" by (simp add: BUCKET_DURATIONS_def)
  let ?d = "\<lparr>ld_linked_base_id = Id_zero, ld_bucket_type = User, ld_referenced_post_header_bytes = None\<rparr>"
  let ?s = "\<lparr>pc_manager = ?m, pc_pen = [], pc_outcomes = []\<rparr>"
  have "job_timestamp toy_job = 0" by (simp add: toy_job_def)
  then obtain s2 where w: "post_to_widest mem_client_storage ?P toy_job ?d (bucket_durations_for_type User) ?s = Some (s2, Inr 1)"
      "pc_outcomes s2 = [(User, toy_commit_token)]"
    using g ps m unsealed loc(1) unfolding ds by (simp add: P)
  then have l: "post_to_locations mem_client_storage ?P toy_job [?d] ?s = Some (s2, Inr ())" by simp
  obtain p bs where e: "toy_posted = (p, bs)" by (cases toy_posted)
  have job: "\<lparr>job_sponsor_id = cid_id toy_client_id, job_post = p, job_post_bytes = bs, job_referenced_hashtags = [], job_timestamp = 0\<rparr> = toy_job"
    by (simp add: toy_job_def e toy_client_id_def)
  have "submit_post mem_client_storage ?P toy_client_id toy_random toy_random ''hi'' True (?m, [])
      = Some (s2, Inr ([toy_commit_token], p, epb_bytes bs))"
    using b toy_encodes l w(2) unfolding submit_post_def e by (simp add: P job del: post_to_locations.simps)
  then obtain s' where s': "submit_post mem_client_storage ?P toy_client_id toy_random toy_random ''hi'' True (?m, [])
      = Some (s', Inr ([toy_commit_token], p, epb_bytes bs))" by blast
  have "mem_live_ok (po_client ?P) ?m" using ok(1) P by simp
  from submission_reports_commits[OF this s', THEN conjunct2, THEN conjunct2, rule_format, OF refl] obtain user
    and rest :: "(bucket_type \<times> submit_post_commit_token) list" where u: "[toy_commit_token] = (if True then user @ map snd rest else [hd user])"
      "pc_pen s' = [] @ map (\<lambda>t. \<lparr>pen_bucket_location = spm_bucket_location t, pen_post_id = spm_post_id t,
          pen_encoded_post_bytes = epb_bytes bs, pen_time_millis = cw_now (po_client ?P)\<rparr>) (user @ map snd rest)"
    by blast
  then have "user @ map snd rest = [toy_commit_token]" by simp
  then have "pc_pen s' = [\<lparr>pen_bucket_location = toy_location, pen_post_id = Id_zero, pen_encoded_post_bytes = epb_bytes bs,
      pen_time_millis = 0\<rparr>]" unfolding u(2) by (simp only: P list.map append_Nil) (simp add: toy_commit_token_def)
  with s' show ?thesis by blast
qed


theorem post_to_location_ends_witness:
  "\<exists>reply s'. post_to_location (toy_posting_world reply) toy_job toy_location None User \<lparr>ps_tracker = toy_tracker, ps_pen = [], ps_outcomes = []\<rparr>
     = Some (s', Inr [toy_commit_token]) \<and> length (ps_pen s') = 1 \<and> tracker_ok toy_crypto (ps_tracker s')"
proof -
  obtain reply where r: "toy_answers reply SubmitPostClaimV1 SubmitPostClaimResponseV1" "toy_answers reply SubmitPostCommitV1 SubmitPostCommitResponseV1"
    using toy_reply by blast
  let ?s = "\<lparr>ps_tracker = toy_tracker, ps_pen = [], ps_outcomes = []\<rparr>"
  obtain s' where s': "post_to_location (toy_posting_world reply) toy_job toy_location None User ?s = Some (s', Inr [toy_commit_token])"
    using toy_post_to_location[OF r] by blast
  have "tracker_ok (cw_crypto (po_client (toy_posting_world reply))) (ps_tracker ?s)" "wf_id (bl_location_id toy_location)"
    using toy_tracker_ok by (simp_all add: toy_posting_world_def toy_client_world_def toy_location_def wf_newtypes Id_zero_def byte_counts)
  from post_to_location_ends[OF this, of toy_job None User] s' have "length (ps_pen s') = 1" "tracker_ok toy_crypto (ps_tracker s')"
    by (auto simp: toy_posting_world_def toy_client_world_def)
  with s' show ?thesis by blast
qed

section \<open>The live managers\<close>

definition far_location :: bucket_location where
  "far_location = toy_location\<lparr>bl_location_id := Id (replicate 32 255)\<rparr>"

lemma toy_measures: "pow_measure toy_crypto ds s = Inr (255, Hash (replicate 32 0))"
proof -
  have "pow_measure toy_crypto ds s = pow_measure toy_crypto ds Salt_zero"
    by (simp add: pow_measure_def pow_measure_from_data_hash_def hash_two_def toy_crypto_def)
  then show ?thesis by (simp add: toy_measure)
qed

lemma toy_peers_agree: "acceptable toy_crypto p \<Longrightarrow> peer_agreement (Id (replicate 32 255)) p < 256"
proof -
  assume "acceptable toy_crypto p"
  then have "p_id p = Id_zero"
    by (auto simp: acceptable_def Peer_verify_def verify_server_id_def server_pow_measure_def toy_measures toy_pow_id)
  moreover have "leading_agreement_bits_xor (replicate 32 255) (id_bytes Id_zero) = 0" by code_simp
  ultimately show ?thesis by (simp add: peer_agreement_def)
qed

theorem live_manager_serves_witness:
  "\<exists>reply s m'. live_get_post_bundle mem_client_storage (toy_client_world reply) far_location 0 (LivePostBundleManager_new s toy_tracker)
      = Some (m', Inr (toy_bundle, [], [], []))
    \<and> (\<exists>s'. live_get_post_bundle mem_client_storage (toy_client_world reply) far_location 0 m' = Some (m'\<lparr>lm_storage := s'\<rparr>, Inr (toy_bundle, [], [], [])))"
proof -
  obtain s where s: "mem_client_ready s"
      "mem_client_peek s = (\<lambda>b k. None)(BUCKET_POST_BUNDLE := [bytes_str (id_bytes (Id (replicate 32 255))) \<mapsto> toy_bundle_bytes])"
    using toy_bundle_in_storage by blast
  let ?W = "toy_client_world (\<lambda>x. x)" and ?m = "LivePostBundleManager_new s toy_tracker"
  have ok: "mem_live_ok ?W ?m" "stored_bundle ?W (mem_client_peek s) (Id (replicate 32 255)) = Some toy_bundle" "servable 0 toy_bundle"
    by (rule toy_live_ok[OF s toy_tracker_ok])+
  have loc: "bl_location_id far_location = Id (replicate 32 255)" by (simp add: far_location_def)
  obtain s1 where g: "live_get_post_bundle mem_client_storage ?W far_location 0 ?m = Some (?m\<lparr>lm_storage := s1\<rparr>, Inr (toy_bundle, [], [], []))"
    using mem_client.live_hit[OF ok(1), of far_location toy_bundle 0] ok(2,3) loc by (auto simp: LivePostBundleManager_new_def)
  have "wf_id (bl_location_id far_location)" by (simp add: loc wf_newtypes byte_counts)
  moreover have "\<forall>p. acceptable (cw_crypto ?W) p \<longrightarrow> peer_agreement (bl_location_id far_location) p < 256"
    using toy_peers_agree by (simp add: loc toy_client_world_def)
  ultimately obtain m' r where l: "live_get_post_bundle mem_client_storage ?W far_location 0 ?m = Some (m', r)"
      "\<forall>b bg. r = Inr (b, bg) \<longrightarrow> counts_posts b \<and> (\<forall>later. servable later b \<longrightarrow> (\<exists>s'. live_get_post_bundle mem_client_storage ?W far_location later m'
             = Some (m'\<lparr>lm_storage := s'\<rparr>, Inr (b, [], [], [])) \<and> mem_client_peek s' = mem_client_peek (lm_storage m')))"
    using live_manager_serves[OF ok(1), of far_location 0] by blast
  then have "m' = ?m\<lparr>lm_storage := s1\<rparr>" "r = Inr (toy_bundle, [], [], [])" using g by simp_all
  with l ok(3) show ?thesis by blast
qed

theorem live_timeline_keeps_manager_witness:
  "\<exists>s st' m' pen' r. tl_get_more_posts toy_crypto (live_getter mem_client_storage (toy_client_world (\<lambda>x. x))) 1700000000000 20 BUCKET_DURATIONS
      (toy_timeline, LivePostBundleManager_new s toy_tracker, []) = Some ((st', m', pen'), r)
    \<and> mem_live_ok (toy_client_world (\<lambda>x. x)) m'"
proof -
  obtain s where s: "mem_client_ready s" "mem_client_peek s = (\<lambda>b k. None)(BUCKET_POST_BUNDLE := [bytes_str (id_bytes Id_zero) \<mapsto> toy_bundle_bytes])"
    using toy_bundle_in_storage by blast
  have n: "I64_MIN < (1700000000000 :: int)" by (simp add: I64_MIN_def)
  from live_timeline_keeps_manager[OF toy_crypto_ok toy_live_ok(1)[OF s toy_tracker_ok] ladder_ok(1) n toy_timeline_start(1)]
  show ?thesis by blast
qed

theorem feedback_fetch_heals_servers_witness:
  "\<exists>m' best work bs. finish_feedback mem_client_storage (toy_client_world (\<lambda>x. x)) toy_location 0
      (feedback_fetch_new\<lparr>ff_peers_visited := [toy_peer], ff_bundles := [toy_feedback_bundle 9, toy_feedback_bundle 12]\<rparr>)
      (LivePostBundleFeedbackManager_new mem_client_new toy_tracker) = (m', Inr (best, work, [], bs))
    \<and> get_post_pow_for_feedback_type best Id_zero 3 = 12
    \<and> map (\<lambda>w. (hfw_target_peer w, map vote_of (hfw_feedbacks_to_send w))) work = [(toy_peer, [((Id_zero, 3), Salt_zero, 12)])]"
proof -
  let ?W = "toy_client_world (\<lambda>x. x)" and ?bs = "[toy_feedback_bundle 9, toy_feedback_bundle 12]"
  let ?f = "feedback_fetch_new\<lparr>ff_peers_visited := [toy_peer], ff_bundles := ?bs\<rparr>"
  have v: "votes (toy_feedback_bundle p) = [((Id_zero, 3), Salt_zero, p)]" for p
    using view_iter_encoded[of "[toy_vote p]"] toy_vote_wf[of p]
    by (simp add: votes_def toy_feedback_bundle_def vote_of_view_encoded) (simp add: vote_of_def toy_vote_def)
  have W: "cw_hash_order ?W = id" by (simp add: toy_client_world_def)
  obtain best where best: "feedback_merge id ?bs = Some best"
    by (cases "feedback_merge id ?bs") (auto simp: feedback_merge_def Let_def split: option.splits)
  have "length (fbb_feedbacks_bytes (the (feedback_merge id ?bs))) = 43" by code_simp
  then have "feedback_buffer ?W best = Inr (fbb_to_bytes (cw_feedback_header_json ?W) best)"
    by (simp add: feedback_buffer_def best USIZE_MAX_def) (simp add: toy_client_world_def const_codec_def)
  moreover obtain s' where "cs_put mem_client_storage BUCKET_POST_BUNDLE_FEEDBACK (Id_to_hex_str (cw_hex ?W) (bl_location_id toy_location))
      (fbb_to_bytes (cw_feedback_header_json ?W) best) 0 mem_client_new = (s', Inr ())"
    using mem_client.put_stores[OF mem_client_new_ready(1)] by (metis (mono_tags) BUCKETS_def list.set_intros)
  ultimately obtain m' work bs where run: "finish_feedback mem_client_storage ?W toy_location 0 ?f
      (LivePostBundleFeedbackManager_new mem_client_new toy_tracker) = (m', Inr (best, work, [], bs))"
    using best W by (simp add: finish_feedback_def feedback_fetch_new_def LivePostBundleFeedbackManager_new_def)
  have p9: "get_post_pow_for_feedback_type (toy_feedback_bundle 9) Id_zero 3 = 9"
    by (simp add: get_post_pow_votes v)
  have b12: "best_pow (concat (map votes (ff_bundles ?f))) (Id_zero, 3) = 12" by (simp add: v best_pow_def)
  have "\<And>xs. mset (cw_hash_order ?W xs) = mset xs" by (simp add: W)
  note h = feedback_fetch_heals_servers[OF run this, of Id_zero 3]
  have g: "get_post_pow_for_feedback_type best Id_zero 3 = 12" using h b12 by simp
  have vb: "votes best = [((Id_zero, 3), Salt_zero, 12)]"
  proof -
    have d: "distinct (map fst (votes best))" "set (votes best) \<subseteq> {((Id_zero, 3), Salt_zero, 9), ((Id_zero, 3), Salt_zero, 12)}"
      using merged_votes_max[OF best, of Id_zero 3] by (simp_all add: v)
    then have "set (map fst (votes best)) \<subseteq> {(Id_zero, 3)}" by auto
    from card_mono[OF _ this] distinct_card[OF d(1)] have "length (votes best) \<le> 1" by simp
    then show ?thesis using d(2) g by (cases "votes best") (auto simp: get_post_pow_votes)
  qed
  have s9: "votes_short best (toy_feedback_bundle 9) = [((Id_zero, 3), Salt_zero, 12)]" "votes_short best (toy_feedback_bundle 12) = []"
    by (simp_all add: votes_short_def vb get_post_pow_votes v)
  have peer: "fh_peer (fbb_header (toy_feedback_bundle p)) = toy_peer" for p by (simp add: toy_feedback_bundle_def)
  have "map (\<lambda>w. (hfw_target_peer w, hfw_location_id w, map vote_of (hfw_feedbacks_to_send w))) work
      = [(toy_peer, fh_location_id (fbb_header (toy_feedback_bundle 9)), [((Id_zero, 3), Salt_zero, 12)])]"
    using h by (simp add: s9 peer)
  then have "map (\<lambda>w. (hfw_target_peer w, map vote_of (hfw_feedbacks_to_send w))) work = [(toy_peer, [((Id_zero, 3), Salt_zero, 12)])]"
    by auto
  then show ?thesis using run g by (intro exI[of _ m'] exI[of _ best] exI[of _ work] exI[of _ bs] conjI)
qed

section \<open>Profiles\<close>

definition toy_public :: meta_post_public where
  "toy_public = MetaPostPublic_from_bio 5 ''ada'' ''busy'' [] []"

definition toy_private :: meta_post_private where
  "toy_private = MetaPostPrivate_empty\<lparr>mv_content_thresholds := [(7, VersionedField_new 3 5)],
     mv_skip_warnings_for_followed := VersionedField_new True 5\<rparr>"

definition two_codec :: "'a \<Rightarrow> 'a \<Rightarrow> 'a codec" where
  "two_codec x y = \<lparr>enc = (\<lambda>z. if z = x then [0] else [1]), dec = (\<lambda>bs. Some (if bs = [0] then x else y))\<rparr>"

definition toy_meta_world :: meta_world where
  "toy_meta_world = \<lparr>mw_crypto = toy_crypto, mw_aead = toy_aead, mw_compressor = toy_compressor, mw_env = toy_env,
     mw_sign = (\<lambda>m. Inr toy_signature), mw_hex_encode = bytes_str, mw_hex_decode = (\<lambda>s. Some (str_bytes s)),
     mw_public_json = two_codec MetaPostPublic_empty toy_public, mw_private_json = two_codec MetaPostPrivate_empty toy_private,
     mw_envelope_json = \<lparr>enc = (\<lambda>m. str_bytes (m1_private_encrypted m)),
        dec = (\<lambda>bs. Some (MetaPostV1_new (bytes_str (id_bytes Id_zero)) Salt_zero toy_public (bytes_str bs)))\<rparr>,
     mw_meta_only_json = const_codec ''MetaPostV1'', mw_client_id = toy_client_id, mw_now = 10\<rparr>"

lemma toy_meta_world_simps [simp]:
  "mw_crypto toy_meta_world = toy_crypto" "mw_aead toy_meta_world = toy_aead" "mw_compressor toy_meta_world = toy_compressor"
  "mw_sign toy_meta_world m = Inr toy_signature" "mw_hex_encode toy_meta_world = bytes_str"
  "mw_hex_decode toy_meta_world t = Some (str_bytes t)"
  "mw_public_json toy_meta_world = two_codec MetaPostPublic_empty toy_public"
  "mw_private_json toy_meta_world = two_codec MetaPostPrivate_empty toy_private" "mw_client_id toy_meta_world = toy_client_id"
  by (simp_all add: toy_meta_world_def)

lemma two_codec_reads: "z \<in> {x, y} \<Longrightarrow> reads_back toy_compressor (two_codec x y) z"
  by (auto simp: reads_back_def two_codec_def toy_compressor_laws MAX_DECOMPRESSED_SIZE_def)

lemma toy_merges: "merge_public MetaPostPublic_empty toy_public = toy_public" "merge_private MetaPostPrivate_empty toy_private now = toy_private"
  by (simp_all add: merge_public_def toy_public_def MetaPostPublic_empty_def MetaPostPublic_from_bio_def merge_scalar_field_def
      tombstone_def VersionedField_new_def merge_private_def toy_private_def MetaPostPrivate_empty_def merge_collection_def
      collectable_def is_tombstone_def)

lemma toy_encrypts: "\<exists>ct. encrypt_strong toy_aead (replicate 32 3) [replicate 12 0] (replicate 12 2) x [k] = Inr ct"
  by (simp add: encrypt_strong_def encrypt_with_config_def to_argon2_def toy_aead_def wrap_slot_def derive_wrap_key_def
      Argon2Config_strong_def MAX_RECIPIENTS_def)

lemma toy_sections_encrypt:
  "\<exists>hx. encrypt_private_section toy_meta_world (replicate 32 3, [replicate 12 0], replicate 12 2) Salt_zero toy_private = Inr hx"
proof -
  let ?x = "enc (two_codec MetaPostPrivate_empty toy_private) toy_private"
  have "reads_back toy_compressor (two_codec MetaPostPrivate_empty toy_private) toy_private" by (rule two_codec_reads) simp
  then obtain g where g: "compress_for_size toy_compressor ?x = Inr g" using compress_size_ok[of toy_compressor ?x] unfolding reads_back_def by blast
  obtain k where k: "derive_meta_post_encryption_key toy_meta_world Salt_zero = Inr k" by (simp add: derive_meta_post_encryption_key_def)
  obtain ct where "encrypt_strong toy_aead (replicate 32 3) [replicate 12 0] (replicate 12 2) (g_to_bytes g) [k] = Inr ct" using toy_encrypts by blast
  then show ?thesis unfolding encrypt_private_section_def k by (simp only: toy_meta_world_simps g rbind_simps prod.case) simp
qed

text \<open>A device that has set its bio and thresholds.\<close>

lemma toy_first_device:
  "\<exists>sa. mem_client_ready sa \<and> public_in toy_meta_world (mem_client_peek sa) = Inr toy_public
     \<and> private_in toy_meta_world (mem_client_peek sa) = Inr toy_private"
proof -
  have rb: "reads_back (mw_compressor toy_meta_world) (mw_public_json toy_meta_world) toy_public"
    "reads_back (mw_compressor toy_meta_world) (mw_private_json toy_meta_world) toy_private"
    unfolding toy_meta_world_simps by (rule two_codec_reads, simp)+
  obtain s1 where s1: "mem_client_ready s1" "public_in toy_meta_world (mem_client_peek s1) = Inr toy_public"
    using mem_client.put_public_stores[OF mem_client_new_ready(1) rb(1)] by blast
  obtain s2 where s2: "mem_client_ready s2" "private_in toy_meta_world (mem_client_peek s2) = Inr toy_private"
      "only_changes {(BUCKET_CONFIG, private_config_key toy_meta_world)} (mem_client_peek s1) (mem_client_peek s2)"
    using mem_client.put_private_stores[OF s1(1) rb(2)] by blast
  have "public_in toy_meta_world (mem_client_peek s2) = public_in toy_meta_world (mem_client_peek s1)"
    using s2(3) config_keys_differ by (simp add: only_changes_def public_in_def)
  then show ?thesis using s1 s2 by auto
qed

lemma new_device:
  "public_in W (mem_client_peek mem_client_new) = Inr MetaPostPublic_empty" "private_in W (mem_client_peek mem_client_new) = Inr MetaPostPrivate_empty"
  "cached_profile_in W i (mem_client_peek mem_client_new) = Inr None"
  by (simp_all add: public_in_def private_in_def cached_profile_in_def mem_client_new_ready read_struct_def)

lemma bytes_str_inverse: "str_bytes (bytes_str bs) = bs"
proof (induction bs)
  case (Cons b bs)
  have "unat b < 256" using unsigned_less[of b] by simp
  then show ?case using Cons by (simp add: str_bytes_def bytes_str_def)
qed (simp add: str_bytes_def bytes_str_def)

theorem devices_exchange_settings_witness:
  "\<exists>sa post m sb' sa'. build_meta_post_json mem_client_storage toy_meta_world Salt_zero (replicate 32 3, [replicate 12 0], replicate 12 2) sa
        = (sa', Inr (str_bytes post))
    \<and> process_incoming_meta_post mem_client_storage (later_world 20 toy_meta_world) m toy_client_id mem_client_new = (sb', Inr ())
    \<and> snd (get_private mem_client_storage (later_world 20 toy_meta_world) sb') = Inr toy_private"
proof -
  obtain sa where sa: "mem_client_ready sa" "public_in toy_meta_world (mem_client_peek sa) = Inr toy_public"
      "private_in toy_meta_world (mem_client_peek sa) = Inr toy_private" using toy_first_device by blast
  obtain hx where hx: "encrypt_private_section toy_meta_world (replicate 32 3, [replicate 12 0], replicate 12 2) Salt_zero toy_private = Inr hx"
    using toy_sections_encrypt by blast
  let ?m = "MetaPostV1_new (Id_to_hex_str (mw_hex_encode toy_meta_world) (cid_id (mw_client_id toy_meta_world))) Salt_zero toy_public hx"
  have json: "enc (mw_envelope_json toy_meta_world) ?m = str_bytes hx" "dec (mw_envelope_json toy_meta_world) (str_bytes hx) = Some ?m"
      "dec (mw_meta_only_json toy_meta_world) (str_bytes hx) = Some (m1_meta ?m)"
    by (simp_all add: toy_meta_world_def MetaPostV1_new_def toy_client_id_def Id_to_hex_str_def const_codec_def META_POST_V1_META_def)
  have rb: "reads_back (mw_compressor toy_meta_world) (mw_public_json toy_meta_world) toy_public"
    "reads_back (mw_compressor toy_meta_world) (mw_private_json toy_meta_world) toy_private"
    unfolding toy_meta_world_simps by (rule two_codec_reads, simp)+
  have "\<exists>sa' sb'. build_meta_post_json mem_client_storage toy_meta_world Salt_zero (replicate 32 3, [replicate 12 0], replicate 12 2) sa
        = (sa', Inr (str_bytes hx))
    \<and> try_parse_meta_post (mw_meta_only_json toy_meta_world) (mw_envelope_json toy_meta_world) hx = Inr (MetaPostV1 ?m)
    \<and> process_incoming_meta_post mem_client_storage (later_world 20 toy_meta_world) ?m (mw_client_id toy_meta_world) mem_client_new = (sb', Inr ())
    \<and> snd (get_public mem_client_storage (later_world 20 toy_meta_world) sb') = Inr (merge_public MetaPostPublic_empty toy_public)
    \<and> snd (get_private mem_client_storage (later_world 20 toy_meta_world) sb') = Inr (merge_private MetaPostPrivate_empty toy_private 20)"
    by (rule devices_exchange_settings[OF sa(1) mem_client_new_ready(1) sa(2,3) new_device(1,2,3) hx])
      (simp_all only: toy_merges rb json, simp_all add: toy_aead_laws bytes_str_inverse)
  then show ?thesis unfolding toy_merges toy_meta_world_simps by blast
qed

theorem incoming_meta_post_stays_in_place_witness:
  "\<exists>sa s' r. process_incoming_meta_post mem_client_storage toy_meta_world (MetaPostV1_new [] Salt_zero toy_public []) (toy_client_id\<lparr>cid_id := Id []\<rparr>)
        sa = (s', r)
    \<and> private_in toy_meta_world (mem_client_peek s') = Inr toy_private \<and> mem_client_ready s'"
proof -
  obtain sa where sa: "mem_client_ready sa" "private_in toy_meta_world (mem_client_peek sa) = Inr toy_private" using toy_first_device by blast
  let ?mp = "MetaPostV1_new [] Salt_zero toy_public []" and ?author = "toy_client_id\<lparr>cid_id := Id []\<rparr>"
  obtain s' r where run: "process_incoming_meta_post mem_client_storage toy_meta_world ?mp ?author sa = (s', r)" by (metis prod.exhaust)
  have other: "cid_id ?author \<noteq> cid_id (mw_client_id toy_meta_world)" by (simp add: toy_client_id_def Id_zero_def ID_BYTES_def)
  have "mem_client_peek s' BUCKET_CONFIG k = mem_client_peek sa BUCKET_CONFIG k" for k
    using incoming_meta_post_stays_in_place[OF sa(1) run] other config_is_not_cache by blast
  then have "private_in toy_meta_world (mem_client_peek s') = Inr toy_private" using sa(2) by (simp add: private_in_def)
  then show ?thesis using run incoming_meta_post_stays_in_place[OF sa(1) run] by blast
qed

theorem private_sections_converge_witness:
  "same_settings (merge_all 10 [toy_private, MetaPostPrivate_empty] MetaPostPrivate_empty) (merge_all 10 [MetaPostPrivate_empty] toy_private)"
  by (rule private_sections_converge)
    (auto simp: toy_private_def MetaPostPrivate_empty_def wf_private_def deletions_recent_def entries_kept_def collectable_def is_tombstone_def
      VersionedField_new_def tombstone_def sections_agree_def collections_agree_def)

end
