(* ===== verification/ClientRuns.thy ===== *)
theory ClientRuns
  imports Client ClientSamples
begin

text \<open>
  Runs of a client. Every call of \<open>Client\<close> keeps the invariant of the managers (the tracker sorted with verified peers, stored bundles
  that count their posts), so every state that calls can reach from a new client has it; what a page of a timeline shows, which bytes
  a single post is, and what the strengths of votes are. The last sections apply each property to a concrete client.
\<close>


section \<open>What every call keeps\<close>

lemma visit_for_feedback_tracker:
  assumes "visit_for_feedback W loc p lab (f, t) = ((f', t'), r)" "tracker_ok (cw_crypto W) t"
  shows "tracker_ok (cw_crypto W) t'"
proof -
  have kept: "tracker_ok (cw_crypto W) u \<Longrightarrow> tracker_ok (cw_crypto W) (tracker_remove_peer p u)" for u
    by (rule tracker_remove_peer_refines(1))
  have added: "tracker_ok (cw_crypto W) u" if "tracker_add_peers (cw_crypto W) ps t = Inr u" for ps u
    using tracker_add_peers_refines[OF assms(2) that] by blast
  show ?thesis
    using assms kept added
    by (auto simp: visit_for_feedback_def Let_def split: if_splits sum.splits err.splits prod.splits bool.splits)
qed

lemma post_feedback_leaves:
  assumes "tracker_ok (cw_crypto (po_client P)) t" "post_feedback_to_location P sponsor_id loc fb t = Some (t', out)"
  shows "tracker_ok (cw_crypto (po_client P)) t'"
proof -
  let ?C = "cw_crypto (po_client P)"
  show ?thesis
  proof (cases "iterate_to_location ?C (cw_bootstrap (po_client P)) (bl_location_id loc) (2 * REDUNDANT_SERVERS_PER_POST) None t")
    case (Inl e)
    then show ?thesis using assms by (simp add: post_feedback_to_location_def Let_def)
  next
    case (Inr tit)
    obtain t1 it where tit: "tit = (t1, it)" by (cases tit)
    obtain as o1 where w: "walk_loop (visit_for_vote P sponsor_id loc fb) [] it t1 = Some ((as, t'), o1)"
      using assms(2) Inr tit by (auto simp: post_feedback_to_location_def Let_def)
    have "vote_ok ?C 2 ([], t1)" using iterate_to_location_ok(1)[OF assms(1) Inr[unfolded tit]] by (simp add: vote_ok_def)
    from walk_loop_leaves[OF w vote_visits this] show ?thesis by (simp add: vote_ok_def)
  qed
qed

context client_storage_laws
begin

lemma storage_change_keeps:
  "live_ok W peek ready m \<Longrightarrow> ready s' \<Longrightarrow> peek s' BUCKET_POST_BUNDLE = peek (lm_storage m) BUCKET_POST_BUNDLE
    \<Longrightarrow> live_ok W peek ready (m\<lparr>lm_storage := s'\<rparr>)"
  by (simp add: live_ok_def cache_counts_def)

lemma feedback_from_cache_keeps:
  assumes "ready s"
  shows "\<exists>s' r. feedback_from_cache S W i now s = (s', r) \<and> ready s' \<and> peek s' = peek s"
  using get_peeks[OF assms buckets_known(4), of "Id_to_hex_str (cw_hex W) i" now] by (auto simp: feedback_from_cache_def)

lemma finish_feedback_keeps:
  assumes "live_ok W peek ready m" "finish_feedback S W loc now f m = (m', r)"
  shows "live_ok W peek ready m'"
proof -
  let ?m1 = "if ff_positive f = [] then m
    else m\<lparr>lm_radii := cache_radius_update (bl_location_id loc) (Min (set (ff_positive f))) now (lm_radii m)\<rparr>"
  have m1: "live_ok W peek ready ?m1" "ready (lm_storage ?m1)" using assms(1) by (simp_all add: live_ok_def)
  have put: "live_ok W peek ready (?m1\<lparr>lm_storage := s'\<rparr>)"
    if "cs_put S BUCKET_POST_BUNDLE_FEEDBACK k bs now (lm_storage ?m1) = (s', r')" for k bs s' r'
    using put_stores[OF m1(2) buckets_known(4), of k bs now] that
    by (intro storage_change_keeps[OF m1(1)]) (auto simp: storage_buckets)
  define m1' where "m1' = ?m1"
  show ?thesis using assms(2) m1(1) put unfolding finish_feedback_def Let_def m1'_def[symmetric]
    by (auto split: option.splits sum.splits prod.splits)
qed

lemma fetch_feedback_keeps:
  assumes "live_ok W peek ready m" "fetch_feedback S W loc now m = Some (m', r)"
  shows "live_ok W peek ready m'"
proof -
  let ?radius = "cache_radius_get (bl_location_id loc) now (lm_radii m)"
  have t0: "tracker_ok (cw_crypto W) (lm_tracker m)" using assms(1) by (simp add: live_ok_def)
  show ?thesis
  proof (cases "iterate_to_location (cw_crypto W) (cw_bootstrap W) (bl_location_id loc) (2 * REDUNDANT_SERVERS_PER_POST) ?radius (lm_tracker m)")
    case (Inl e)
    then show ?thesis using assms by (auto simp: fetch_feedback_def Let_def)
  next
    case (Inr tit)
    obtain t it where tit: "tit = (t, it)" by (cases tit)
    have t: "tracker_ok (cw_crypto W) t" using iterate_to_location_ok(1)[OF t0 Inr[unfolded tit]] .
    obtain f t1 out where w: "walk_loop (visit_for_feedback W loc) feedback_fetch_new it t = Some ((f, t1), out)"
      using assms(2) Inr tit by (auto simp: fetch_feedback_def Let_def split: option.splits)
    have "case (f, t1) of (f, t) \<Rightarrow> tracker_ok (cw_crypto W) t"
      by (rule walk_loop_keeps[OF w]) (use visit_for_feedback_tracker t in auto)
    then have t1: "tracker_ok (cw_crypto W) t1" by simp
    show ?thesis
    proof (cases out)
      case (Inl e)
      then have "m' = m\<lparr>lm_tracker := t1\<rparr>" using assms(2) tit w \<open>iterate_to_location _ _ _ _ _ _ = _\<close>
        by (auto simp: fetch_feedback_def Let_def)
      then show ?thesis using assms(1) t1 by (simp add: live_ok_def)
    next
      case out: (Inr u)
      obtain t2 s2 where fl: "flush_tracker S W t1 (lm_storage m) = (t2, s2)" by fastforce
      have t2: "tracker_ok (cw_crypto W) t2" using flush_tracker_same[of S W t1 "lm_storage m"] fl t1 by (simp add: tracker_ok_def)
      have "live_ok W peek ready (m\<lparr>lm_tracker := t2, lm_storage := s2\<rparr>)"
        using flush_keeps[of "lm_storage m" W t1] fl assms(1) t2 by (simp add: live_ok_def cache_counts_def)
      moreover have "finish_feedback S W loc now f (m\<lparr>lm_tracker := t2, lm_storage := s2\<rparr>) = (m', r)"
        using assms(2) Inr tit w out fl by (simp add: fetch_feedback_def Let_def)
      ultimately show ?thesis by (rule finish_feedback_keeps)
    qed
  qed
qed

lemma feedback_keeps:
  assumes "live_ok W peek ready m" "live_get_post_bundle_feedback S W loc now m = Some (m', r)"
  shows "live_ok W peek ready m'"
proof -
  have r0: "ready (lm_storage m)" using assms(1) by (simp add: live_ok_def)
  obtain s1 r1 where c1: "feedback_from_cache S W (bl_location_id loc) now (lm_storage m) = (s1, r1)" "ready s1" "peek s1 = peek (lm_storage m)"
    using feedback_from_cache_keeps[OF r0, of W "bl_location_id loc" now] by blast
  obtain s2 r2 where c2: "feedback_from_cache S W (bl_location_id loc) now s1 = (s2, r2)" "ready s2" "peek s2 = peek s1"
    using feedback_from_cache_keeps[OF c1(2), of W "bl_location_id loc" now] by blast
  have ok1: "live_ok W peek ready (m\<lparr>lm_storage := s1\<rparr>)" by (rule storage_step_keeps[OF assms(1) c1(2,3)])
  have ok2: "live_ok W peek ready (m\<lparr>lm_storage := s2\<rparr>)"
    by (rule storage_step_keeps[OF assms(1) c2(2)]) (simp add: c1(3) c2(3))
  show ?thesis using assms(2) c1(1) c2(1) ok1 ok2 fetch_feedback_keeps[OF ok2]
    by (auto simp: live_get_post_bundle_feedback_def split: sum.splits option.splits)
qed

end


section \<open>The parts of a call\<close>

context post_bundle_manager
begin

lemma poll_keeps:
  assumes "callbacks_ok ds (\<lambda>(st, posts, m). inv m) Q (tl_callbacks C get now ms)" "durations_ok ds" "I64_MIN < now"
  shows "inv m \<Longrightarrow> \<forall>st \<in> set sts. walkable now st
    \<Longrightarrow> poll_timelines C get now mx ms ds sts posts (m, pen) = Some ((sts', m', pen'), r) \<Longrightarrow> inv m'"
proof (induction sts arbitrary: posts m pen sts' m' pen' r)
  case (Cons st sts)
  have "walkable now st" using Cons.prems(2) by simp
  then have w: "I64_MIN < time_sub_dur (tl_oldest_allowed (tl_start now st)) MILLIS_IN_MONTH" by (simp add: walkable_def)
  obtain st1 m1 pen1 r1 where run: "tl_get_more_posts C get now ms ds (st, m, pen) = Some ((st1, m1, pen1), r1)"
    using tl_page_returns[OF assms(2,3) w, of C get ms m pen] by (metis prod.collapse)
  have m1: "inv m1" using page_outcome[OF assms(1) Cons.prems(1) assms(2,3) w run] by blast
  have go: "inv m2" if "poll_timelines C get now mx ms ds sts ps (m1, pen1) = Some ((sts2, m2, pen2), r2)" for ps sts2 m2 pen2 r2
    using Cons.IH[OF m1 _ that] Cons.prems(2) by simp
  show ?case using Cons.prems(3) run m1 go
    by (auto split: sum.splits if_splits option.splits prod.splits)
qed simp

end

definition profile_of :: "hashiverse_world \<Rightarrow> timeline_post \<Rightarrow> (meta_post_v1 \<times> client_id) option" where
  "profile_of W = (\<lambda>(loc, bs, healed). case rbind (decode_from_bytes (po_env (hw_posting W)) bs (bl_base_id loc) True True) (\<lambda>p.
     rbind (try_parse_meta_post (mw_meta_only_json (hw_meta W)) (mw_envelope_json (hw_meta W)) (ep_post p)) (\<lambda>meta. case meta of
       MetaPostNone \<Rightarrow> Inl (Bail ''not a profile'')
     | MetaPostV1 m \<Rightarrow> rbind (post_header_client_id (cw_crypto (hw_client W)) (ep_header p)) (\<lambda>author. Inr (m, author)))) of
       Inl e \<Rightarrow> None | Inr x \<Rightarrow> Some x)"

definition shown_of :: "hashiverse_world \<Rightarrow> timeline_post \<Rightarrow> shown_post option" where
  "shown_of W = (\<lambda>(loc, bs, healed). case decode_from_bytes (po_env (hw_posting W)) bs (bl_base_id loc) True True of Inl e \<Rightarrow> None
     | Inr p \<Rightarrow> if try_parse_meta_post (mw_meta_only_json (hw_meta W)) (mw_envelope_json (hw_meta W)) (ep_post p) = Inr MetaPostNone
         then Some (loc, p, bs, healed) else None)"

definition profile_places :: "meta_world \<Rightarrow> (meta_post_v1 \<times> client_id) list \<Rightarrow> (string \<times> string) set" where
  "profile_places W ms = (\<Union>(m, author) \<in> set ms. {(BUCKET_META_POST_PUBLIC, cached_public_key W (cid_id author))}
      \<union> (if cid_id author = cid_id (mw_client_id W) then own_config_keys W else {}))"

lemma profile_places_Cons: "profile_places W ((m, author) # ms) = ({(BUCKET_META_POST_PUBLIC, cached_public_key W (cid_id author))}
      \<union> (if cid_id author = cid_id (mw_client_id W) then own_config_keys W else {})) \<union> profile_places W ms"
  by (simp add: profile_places_def)

lemma profile_places_bundles: "(BUCKET_POST_BUNDLE, k) \<notin> profile_places W ms"
  by (auto simp: profile_places_def own_config_keys_def storage_buckets split: if_splits)

lemma process_posts_cases:
  fixes W :: hashiverse_world
  obtains (panic) e where "shown_of W x = None" "profile_of W x = None" "\<And>rest shown s.
      post_process_timeline_posts S W (x # rest) shown s = (s, Inl (Panic e))"
  | (skipped) "shown_of W x = None" "profile_of W x = None" "\<And>rest shown s.
      post_process_timeline_posts S W (x # rest) shown s = post_process_timeline_posts S W rest shown s"
  | (shown) y where "shown_of W x = Some y" "profile_of W x = None" "\<And>rest shown s.
      post_process_timeline_posts S W (x # rest) shown s = post_process_timeline_posts S W rest (shown @ [y]) s"
  | (profile) m author where "shown_of W x = None" "profile_of W x = Some (m, author)" "\<And>rest shown s.
      post_process_timeline_posts S W (x # rest) shown s = (case process_incoming_meta_post S (hw_meta W) m author s of
          (s', Inl (Panic e)) \<Rightarrow> (s', Inl (Panic e))
        | (s', _) \<Rightarrow> post_process_timeline_posts S W rest shown s')"
proof -
  obtain loc bs healed where x: "x = (loc, bs, healed)" by (cases x)
  let ?d = "decode_from_bytes (po_env (hw_posting W)) bs (bl_base_id loc) True True"
  let ?t = "\<lambda>p. try_parse_meta_post (mw_meta_only_json (hw_meta W)) (mw_envelope_json (hw_meta W)) (ep_post p)"
  let ?a = "\<lambda>p. post_header_client_id (cw_crypto (hw_client W)) (ep_header p)"
  consider e where "?d = Inl e" | p e where "?d = Inr p" "?t p = Inl e" | p where "?d = Inr p" "?t p = Inr MetaPostNone"
    | p m e where "?d = Inr p" "?t p = Inr (MetaPostV1 m)" "?a p = Inl e"
    | p m author where "?d = Inr p" "?t p = Inr (MetaPostV1 m)" "?a p = Inr author"
    by (metis meta_post.exhaust sum.exhaust)
  then show thesis
  proof cases
    case (1 e)
    then show thesis using panic skipped by (cases e) (simp_all add: x shown_of_def profile_of_def)
  next
    case (2 p e)
    then show thesis using panic skipped by (cases e) (simp_all add: x shown_of_def profile_of_def)
  next
    case (3 p)
    then show thesis using shown by (simp add: x shown_of_def profile_of_def)
  next
    case (4 p m e)
    then show thesis using panic skipped by (cases e) (simp_all add: x shown_of_def profile_of_def)
  next
    case (5 p m author)
    then show thesis using profile by (simp add: x shown_of_def profile_of_def)
  qed
qed

lemma res_cases: "(\<And>m. r = Inl (Panic m) \<Longrightarrow> P) \<Longrightarrow> (\<And>m. r = Inl (Bail m) \<Longrightarrow> P) \<Longrightarrow> (\<And>x. r = Inr x \<Longrightarrow> P) \<Longrightarrow> P"
  by (metis err.exhaust sum.exhaust)

context client_storage_laws
begin

lemma process_posts_spec:
  assumes "ready s" "post_process_timeline_posts S W posts shown s = (s', r)"
  shows "ready s' \<and> only_changes (profile_places (hw_meta W) (List.map_filter (profile_of W) posts)) (peek s) (peek s')
    \<and> only_panics r \<and> (\<forall>out. r = Inr out \<longrightarrow> out = shown @ List.map_filter (shown_of W) posts)"
  using assms
proof (induction posts arbitrary: shown s)
  case Nil
  then show ?case by (auto simp: map_filter_simps)
next
  case (Cons x rest)
  show ?case
  proof (rule process_posts_cases[where W = W and x = x and S = S])
    fix e assume "shown_of W x = None" "profile_of W x = None"
      "\<And>rest shown s. post_process_timeline_posts S W (x # rest) shown s = (s, Inl (Panic e))"
    then have "(s, Inl (Panic e)) = (s', r)" using Cons.prems(2) by simp
    then show ?case using Cons.prems(1) by auto
  next
    assume a: "shown_of W x = None" "profile_of W x = None"
      "\<And>rest shown s. post_process_timeline_posts S W (x # rest) shown s = post_process_timeline_posts S W rest shown s"
    have "post_process_timeline_posts S W rest shown s = (s', r)" using Cons.prems(2) by (simp only: a(3))
    from Cons.IH[OF Cons.prems(1) this] show ?case by (simp add: map_filter_simps a(1,2))
  next
    fix y assume a: "shown_of W x = Some y" "profile_of W x = None"
      "\<And>rest shown s. post_process_timeline_posts S W (x # rest) shown s = post_process_timeline_posts S W rest (shown @ [y]) s"
    have "post_process_timeline_posts S W rest (shown @ [y]) s = (s', r)" using Cons.prems(2) by (simp only: a(3))
    from Cons.IH[OF Cons.prems(1) this] show ?case by (simp add: map_filter_simps a(1,2))
  next
    fix m author assume a: "shown_of W x = None" "profile_of W x = Some (m, author)" "\<And>rest shown s.
      post_process_timeline_posts S W (x # rest) shown s = (case process_incoming_meta_post S (hw_meta W) m author s of
          (s', Inl (Panic e)) \<Rightarrow> (s', Inl (Panic e))
        | (s', _) \<Rightarrow> post_process_timeline_posts S W rest shown s')"
    obtain s1 r1 where p: "process_incoming_meta_post S (hw_meta W) m author s = (s1, r1)" by fastforce
    let ?here = "{(BUCKET_META_POST_PUBLIC, cached_public_key (hw_meta W) (cid_id author))}
      \<union> (if cid_id author = cid_id (mw_client_id (hw_meta W)) then own_config_keys (hw_meta W) else {})"
    have f: "ready s1" "only_changes ?here (peek s) (peek s1)" using process_frame[OF Cons.prems(1) p] by blast+
    have places: "profile_places (hw_meta W) (List.map_filter (profile_of W) (x # rest))
        = ?here \<union> profile_places (hw_meta W) (List.map_filter (profile_of W) rest)"
      using a(2) by (simp add: map_filter_simps profile_places_Cons)
    have same: "List.map_filter (shown_of W) (x # rest) = List.map_filter (shown_of W) rest" using a(1) by (simp add: map_filter_simps)
    consider e where "r1 = Inl (Panic e)" "s' = s1" "r = Inl (Panic e)"
      | "post_process_timeline_posts S W rest shown s1 = (s', r)"
      using Cons.prems(2)[unfolded a(3) p] by (cases r1 rule: res_cases) auto
    then show ?case
    proof cases
      case 1
      have "only_changes (?here \<union> profile_places (hw_meta W) (List.map_filter (profile_of W) rest)) (peek s) (peek s1)"
        by (rule only_changes_mono[OF f(2)]) blast
      then show ?thesis using f(1) 1 places by simp
    next
      case 2
      note k = Cons.IH[OF f(1) 2]
      have "only_changes (?here \<union> profile_places (hw_meta W) (List.map_filter (profile_of W) rest)) (peek s) (peek s')"
        by (rule only_changes_trans[OF f(2)]) (use k in blast)
      then show ?thesis using k unfolding places same by blast
    qed
  qed
qed

lemma build_frame:
  assumes "ready s" "build_meta_post_json S W salt random s = (s', r)"
  shows "ready s' \<and> peek s' BUCKET_POST_BUNDLE = peek s BUCKET_POST_BUNDLE"
proof -
  obtain s1 where s1: "get_public S W s = (s1, public_in W (peek s))" "ready s1" "peek s1 = peek s"
    using get_public_reads[OF assms(1)] by blast
  obtain s2 where s2: "get_private S W s1 = (s2, private_in W (peek s1))" "ready s2" "peek s2 = peek s1"
    using get_private_reads[OF s1(2)] by blast
  have put: "ready s3 \<and> peek s3 BUCKET_POST_BUNDLE = peek s BUCKET_POST_BUNDLE"
    if "put_struct S (mw_compressor W) (mw_public_json W) BUCKET_META_POST_PUBLIC (cached_public_key W (cid_id (mw_client_id W))) p (mw_now W) s2
      = (s3, r3)" for p s3 r3
    using put_struct_frame[OF s2(2) meta_buckets(2) that] s1(3) s2(3) by (auto simp: only_changes_def storage_buckets)
  show ?thesis using assms s1 s2 put
    by (auto simp: build_meta_post_json_def cbind_def Let_def split: sum.splits prod.splits)
qed

lemma submit_leaves:
  assumes "live_ok (po_client P) peek ready m" "submit_post S P cid r1 r2 post wait_for_all (m, pen) = Some (s', out)"
  shows "live_ok (po_client P) peek ready (pc_manager s')"
proof -
  have run: "live_ok (po_client P) peek ready (pc_manager s1)"
    if "post_to_locations S P J ds \<lparr>pc_manager = m, pc_pen = pen, pc_outcomes = []\<rparr> = Some (s1, o1)" for J ds s1 o1
    using post_to_locations_leaves[OF _ that] assms(1) by simp
  show ?thesis using assms run
    by (auto simp: submit_post_def Let_def split: if_splits sum.splits prod.splits)
qed

end


section \<open>The client keeps its invariant\<close>

abbreviation client_ok :: "hashiverse_world \<Rightarrow> mem_client_storage hashiverse_client \<Rightarrow> bool" where
  "client_ok W h \<equiv> mem_live_ok (hw_client W) (bundle_manager h)"

definition call_keeps :: "hashiverse_world \<Rightarrow> (mem_client_storage, 'a) client_run \<Rightarrow> bool" where
  "call_keeps W out \<longleftrightarrow> (\<forall>h r. out = Some (h, r) \<longrightarrow> client_ok W h)"

lemma call_keeps_simps [simp]: "call_keeps W None" "call_keeps W (Some (h, r)) \<longleftrightarrow> client_ok W h"
  by (simp_all add: call_keeps_def)

lemma managers_share [simp]:
  "bundle_manager (put_bundle_manager m h) = m"
  "bundle_manager (h\<lparr>hc_pen := pen\<rparr>) = bundle_manager h" "bundle_manager (h\<lparr>hc_single := x\<rparr>) = bundle_manager h"
  "bundle_manager (h\<lparr>hc_multiple := y\<rparr>) = bundle_manager h"
  "bundle_manager (h\<lparr>hc_storage := s\<rparr>) = (bundle_manager h)\<lparr>lm_storage := s\<rparr>"
  "lm_storage (bundle_manager h) = hc_storage h" "lm_tracker (bundle_manager h) = hc_tracker h"
  by (simp_all add: bundle_manager_def put_bundle_manager_def)

lemma feedback_share [simp]:
  "live_ok W view ready (feedback_manager h) = live_ok W view ready (bundle_manager h)"
  "live_ok W view ready (bundle_manager (put_feedback_manager m h)) = live_ok W view ready m"
  by (simp_all add: feedback_manager_def bundle_manager_def put_feedback_manager_def live_ok_def)

lemma tracker_change_keeps:
  "client_ok W h \<Longrightarrow> tracker_ok (cw_crypto (hw_client W)) t \<Longrightarrow> client_ok W (h\<lparr>hc_tracker := t\<rparr>)"
  by (simp add: live_ok_def bundle_manager_def)

lemma storage_keeps:
  "client_ok W h \<Longrightarrow> mem_client_ready s \<Longrightarrow> mem_client_peek s BUCKET_POST_BUNDLE = mem_client_peek (hc_storage h) BUCKET_POST_BUNDLE
    \<Longrightarrow> client_ok W (h\<lparr>hc_storage := s\<rparr>)"
  using mem_client.storage_change_keeps[of "hw_client W" "bundle_manager h" s] by simp

lemma client_ok_ready: "client_ok W h \<Longrightarrow> mem_client_ready (hc_storage h)"
  by (simp add: live_ok_def)

lemma obind_keeps:
  "call_keeps W x \<Longrightarrow> (\<And>y h. client_ok W h \<Longrightarrow> call_keeps W (f y h)) \<Longrightarrow> call_keeps W (obind x f)"
  by (auto simp: obind_def split: option.split sum.split)

lemma submit_keeps: "client_ok W h \<Longrightarrow> call_keeps W (submit_post_with_wait mem_client_storage W post wait_for_all h)"
  using mem_client.submit_leaves[of "hw_posting W" "bundle_manager h" "hw_client_id W" "fst (hw_post_random W)" "snd (hw_post_random W)"
    post wait_for_all "hc_pen h"]
  by (auto simp: submit_post_with_wait_def call_keeps_def)

lemma submit_meta_keeps: "client_ok W h \<Longrightarrow> call_keeps W (submit_meta_post mem_client_storage W h)"
proof -
  assume h: "client_ok W h"
  obtain s r where b: "build_meta_post_json mem_client_storage (hw_meta W) (fst (hw_meta_random W)) (snd (hw_meta_random W)) (hc_storage h) = (s, r)"
    by fastforce
  have "client_ok W (h\<lparr>hc_storage := s\<rparr>)"
    using storage_keeps[OF h] mem_client.build_frame[OF client_ok_ready[OF h] b] by blast
  then show ?thesis using b
    by (cases r) (auto simp: submit_meta_post_def client_submit_post_def intro!: obind_keeps submit_keeps simp del: managers_share)
qed

lemma should_publish_keeps:
  assumes "mem_live_ok (hw_client W) m" "should_auto_publish M (live_getter mem_client_storage (hw_client W)) m = (m', r)"
  shows "mem_live_ok (hw_client W) m'"
proof -
  have get: "mem_live_ok (hw_client W) m1" if "live_getter mem_client_storage (hw_client W) loc now m = (m1, r1)" for loc now m1 r1
    using live.get_keeps[OF assms(1), of loc now] that by simp
  show ?thesis using assms get
    by (auto simp: should_auto_publish_def cbind_def split: prod.splits sum.splits list.splits if_splits)
qed

lemma ensure_meta_keeps: "client_ok W h \<Longrightarrow> call_keeps W (ensure_meta_post_in_current_bucket mem_client_storage W h)"
proof -
  assume h: "client_ok W h"
  obtain m r where p: "should_auto_publish (hw_meta W) (live_getter mem_client_storage (hw_client W)) (bundle_manager h) = (m, r)" by fastforce
  have "client_ok W (put_bundle_manager m h)" using should_publish_keeps[OF h p] by simp
  then show ?thesis using p submit_meta_keeps
    by (cases r) (auto simp: ensure_meta_post_in_current_bucket_def simp del: managers_share)
qed

lemma vote_keeps: "client_ok W h \<Longrightarrow> call_keeps W (submit_feedback mem_client_storage W loc i ty h)"
proof -
  assume h: "client_ok W h"
  have got: "client_ok W (put_feedback_manager m h)"
    if "live_get_post_bundle_feedback mem_client_storage (hw_client W) loc (hw_now W) (feedback_manager h) = Some (m, r)" for m r
    using mem_client.feedback_keeps[OF _ that] h by simp
  have sent: "client_ok W (put_feedback_manager m h\<lparr>hc_tracker := t\<rparr>)"
    if "live_get_post_bundle_feedback mem_client_storage (hw_client W) loc (hw_now W) (feedback_manager h) = Some (m, r)"
      "post_feedback_to_location (hw_posting W) (cid_id (hw_client_id W)) loc fb (hc_tracker (put_feedback_manager m h)) = Some (t, r')" for m r t fb r'
  proof (rule tracker_change_keeps[OF got[OF that(1)]])
    have "tracker_ok (cw_crypto (hw_client W)) (hc_tracker (put_feedback_manager m h))"
      using got[OF that(1)] unfolding live_ok_def managers_share by blast
    from post_feedback_leaves[OF this that(2)] show "tracker_ok (cw_crypto (hw_client W)) t" .
  qed
  show ?thesis using h got sent
    by (auto simp: submit_feedback_def call_keeps_def Let_def simp del: managers_share feedback_share
        split: sum.splits option.splits prod.splits if_splits)
qed

lemma get_post_keeps: "client_ok W h \<Longrightarrow> call_keeps W (get_post mem_client_storage W loc i h)"
  using mem_client.live_keeps[of "hw_client W" "bundle_manager h"] by (auto simp: get_post_def call_keeps_def)

lemma get_feedbacks_keeps: "client_ok W h \<Longrightarrow> call_keeps W (get_post_feedbacks mem_client_storage W loc i h)"
  using mem_client.feedback_keeps[of "hw_client W" "feedback_manager h"] by (auto simp: get_post_feedbacks_def call_keeps_def)

lemma shown_page_keeps: "client_ok W h \<Longrightarrow> call_keeps W (shown_page mem_client_storage W oldest page h)"
proof -
  assume h: "client_ok W h"
  obtain s r where p: "post_process_timeline_posts mem_client_storage W page [] (hc_storage h) = (s, r)" by fastforce
  have "mem_client_ready s" "mem_client_peek s BUCKET_POST_BUNDLE = mem_client_peek (hc_storage h) BUCKET_POST_BUNDLE"
    using mem_client.process_posts_spec[OF client_ok_ready[OF h] p] profile_places_bundles by (auto simp: only_changes_def)
  from storage_keeps[OF h this] show ?thesis using p by (simp add: shown_page_def del: managers_share)
qed

definition clock_ok :: "hashiverse_world \<Rightarrow> single_timeline list \<Rightarrow> bool" where
  "clock_ok W sts \<longleftrightarrow> crypto_ok (cw_crypto (hw_client W)) \<and> I64_MIN < hw_now W \<and> (\<forall>st \<in> set sts. walkable (hw_now W) st)"

lemma client_callbacks:
  assumes "crypto_ok (cw_crypto (hw_client W))"
  shows "callbacks_ok (bucket_durations_for_type ty) (\<lambda>(st, posts, m). mem_live_ok (hw_client W) m) (page_fails (\<lambda>e. True) UNIV)
     (tl_callbacks (cw_crypto (hw_client W)) (live_getter mem_client_storage (hw_client W)) now mx)"
  by (rule live.walk_outcome[OF assms]) (use ladder_ok in \<open>auto simp: durations_ok_def\<close>)

lemma single_keeps:
  assumes "client_ok W h" "clock_ok W [single_timeline_lock ty base_id h]"
  shows "call_keeps W (single_timeline_get_more mem_client_storage W ty base_id h)"
proof -
  let ?C = "cw_crypto (hw_client W)" and ?G = "live_getter mem_client_storage (hw_client W)" and ?st = "single_timeline_lock ty base_id h"
  have c: "crypto_ok ?C" "I64_MIN < hw_now W" "I64_MIN < time_sub_dur (tl_oldest_allowed (tl_start (hw_now W) ?st)) MILLIS_IN_MONTH"
    using assms(2) by (simp_all add: clock_ok_def walkable_def)
  obtain st m pen r where run: "tl_get_more_posts ?C ?G (hw_now W) 20 (bucket_durations_for_type ty) (?st, bundle_manager h, hc_pen h) = Some ((st, m, pen), r)"
    using tl_page_returns[OF ladder_ok(2)[of ty] c(2,3), of ?C ?G 20 "bundle_manager h" "hc_pen h"] by (metis prod.collapse)
  have "mem_live_ok (hw_client W) m"
    using live.page_outcome[OF client_callbacks[OF c(1)] assms(1) ladder_ok(2) c(2,3) run] by blast
  then have ok: "client_ok W (put_bundle_manager m h\<lparr>hc_pen := pen, hc_single := Some st\<rparr>)" by simp
  show ?thesis using run ok shown_page_keeps[OF ok]
    by (cases r) (simp_all add: single_timeline_get_more_def Let_def del: managers_share)
qed

lemma multiple_keeps:
  assumes "client_ok W h" "clock_ok W (mt_single_timelines (multiple_timeline_lock ty base_ids h))"
  shows "call_keeps W (multiple_timeline_get_more mem_client_storage W ty base_ids h)"
proof -
  let ?C = "cw_crypto (hw_client W)" and ?G = "live_getter mem_client_storage (hw_client W)" and ?mt = "multiple_timeline_lock ty base_ids h"
  have c: "crypto_ok ?C" "I64_MIN < hw_now W" using assms(2) by (simp_all add: clock_ok_def)
  have poll: "mem_live_ok (hw_client W) m"
    if "sort_timelines (hw_now W) (mt_single_timelines ?mt) = Inr sts"
      "poll_timelines ?C ?G (hw_now W) 60 5 (bucket_durations_for_type ty) sts [] (bundle_manager h, hc_pen h) = Some ((sts', m, pen), r)"
    for sts sts' m pen r
  proof -
    have "\<forall>st \<in> set sts. walkable (hw_now W) st"
      using assms(2) that(1) by (auto simp: clock_ok_def sort_timelines_def split: if_splits)
    from live.poll_keeps[OF client_callbacks[OF c(1)] ladder_ok(2) c(2) assms(1) this that(2)] show ?thesis .
  qed
  have ok: "client_ok W (put_bundle_manager m h\<lparr>hc_pen := pen, hc_multiple := Some mt\<rparr>)"
    if "mt_get_more_posts ?C ?G (hw_now W) 60 5 (bucket_durations_for_type ty) (?mt, bundle_manager h, hc_pen h) = Some ((mt, m, pen), r)"
    for mt m pen r
    using that poll assms(1) by (auto simp: mt_get_more_posts_def split: sum.splits option.splits prod.splits)
  show ?thesis unfolding call_keeps_def
  proof (intro allI impI)
    fix h' r assume run: "multiple_timeline_get_more mem_client_storage W ty base_ids h = Some (h', r)"
    then obtain mt m pen r1 where mt: "mt_get_more_posts ?C ?G (hw_now W) 60 5 (bucket_durations_for_type ty) (?mt, bundle_manager h, hc_pen h)
        = Some ((mt, m, pen), r1)"
      by (auto simp: multiple_timeline_get_more_def split: option.splits)
    show "client_ok W h'" using run mt ok[OF mt] shown_page_keeps[OF ok[OF mt]]
      by (cases r1) (auto simp: multiple_timeline_get_more_def call_keeps_def simp del: managers_share)
  qed
qed

lemma random_peer_keeps: "client_ok W h \<Longrightarrow> client_ok W (fst (get_random_peer W h))"
proof -
  assume h: "client_ok W h"
  have "client_ok W (h\<lparr>hc_tracker := t\<rparr>)" if "tracker_bootstrap (cw_crypto (hw_client W)) (cw_bootstrap (hw_client W)) (hc_tracker h) = Inr t" for t
  proof (rule tracker_change_keeps[OF h])
    have "tracker_ok (cw_crypto (hw_client W)) (hc_tracker h)" using h by (simp add: live_ok_def)
    from tracker_bootstrap_ok[OF this that] show "tracker_ok (cw_crypto (hw_client W)) t" .
  qed
  then show ?thesis using h by (auto simp: get_random_peer_def Let_def split: sum.splits)
qed

lemma clear_empties:
  assumes "mem_client_ready s" "set bs \<subseteq> set BUCKETS" "mem_client_clear bs s = (s', r)"
  shows "r = Inr () \<and> mem_client_ready s' \<and> (\<forall>b k. mem_client_peek s' b k = (if b \<in> set bs then None else mem_client_peek s b k))"
  using assms
proof (induction bs arbitrary: s)
  case (Cons b bs)
  obtain es where es: "map_of s b = Some es" using ready_bucket[OF Cons.prems(1)] Cons.prems(2) by auto
  have u: "mem_client_ready (AList.update b [] s)" by (rule ready_update[OF Cons.prems(1)]) simp
  have "mem_client_clear bs (AList.update b [] s) = (s', r)" using Cons.prems(3) es by simp
  from Cons.IH[OF u _ this] Cons.prems(2) show ?case by (auto simp: mem_client_peek_def update_conv')
qed simp

lemma reset_keeps: "client_ok W h \<Longrightarrow> call_keeps W (client_storage_reset mem_client_storage h)"
proof -
  assume h: "client_ok W h"
  obtain s r where c: "mem_client_clear BUCKETS (hc_storage h) = (s, r)" by fastforce
  note e = clear_empties[OF client_ok_ready[OF h] order.refl c]
  have "cache_counts (hw_client W) (mem_client_peek s)"
    using e by (simp add: cache_counts_def storage_buckets)
  then have "client_ok W (h\<lparr>hc_storage := s\<rparr>)" using h e by (simp add: live_ok_def)
  then show ?thesis using c by (simp add: client_storage_reset_def mem_client_storage_def del: managers_share)
qed


section \<open>Runs of a client\<close>

text \<open>Between two calls everything of the world may change but the signature scheme and the code of a bundle's header.\<close>

definition same_rules :: "hashiverse_world \<Rightarrow> hashiverse_world \<Rightarrow> bool" where
  "same_rules W W' \<longleftrightarrow> cw_crypto (hw_client W') = cw_crypto (hw_client W)
     \<and> pj_bundle_header (cw_json (hw_client W')) = pj_bundle_header (cw_json (hw_client W))"

lemma client_ok_same: "same_rules W W' \<Longrightarrow> client_ok W' h = client_ok W h"
  by (simp add: same_rules_def live_ok_def cache_counts_def)

inductive client_step :: "hashiverse_world \<Rightarrow> mem_client_storage hashiverse_client \<Rightarrow> mem_client_storage hashiverse_client \<Rightarrow> bool" for W0 where
  step_reset: "client_storage_reset mem_client_storage h = Some (h', r) \<Longrightarrow> client_step W0 h h'"
| step_post: "same_rules W0 W \<Longrightarrow> submit_post_with_wait mem_client_storage W post wait_for_all h = Some (h', r) \<Longrightarrow> client_step W0 h h'"
| step_meta: "same_rules W0 W \<Longrightarrow> submit_meta_post mem_client_storage W h = Some (h', r) \<Longrightarrow> client_step W0 h h'"
| step_ensure_meta: "same_rules W0 W \<Longrightarrow> ensure_meta_post_in_current_bucket mem_client_storage W h = Some (h', r) \<Longrightarrow> client_step W0 h h'"
| step_vote: "same_rules W0 W \<Longrightarrow> submit_feedback mem_client_storage W loc i ty h = Some (h', r) \<Longrightarrow> client_step W0 h h'"
| step_get_post: "same_rules W0 W \<Longrightarrow> get_post mem_client_storage W loc i h = Some (h', r) \<Longrightarrow> client_step W0 h h'"
| step_get_votes: "same_rules W0 W \<Longrightarrow> get_post_feedbacks mem_client_storage W loc i h = Some (h', r) \<Longrightarrow> client_step W0 h h'"
| step_single: "same_rules W0 W \<Longrightarrow> clock_ok W [single_timeline_lock bt base_id h]
    \<Longrightarrow> single_timeline_get_more mem_client_storage W bt base_id h = Some (h', r) \<Longrightarrow> client_step W0 h h'"
| step_multiple: "same_rules W0 W \<Longrightarrow> clock_ok W (mt_single_timelines (multiple_timeline_lock bt base_ids h))
    \<Longrightarrow> multiple_timeline_get_more mem_client_storage W bt base_ids h = Some (h', r) \<Longrightarrow> client_step W0 h h'"
| step_single_reset: "client_step W0 h (single_timeline_reset h)"
| step_multiple_reset: "client_step W0 h (multiple_timeline_reset h)"
| step_ask_peer: "same_rules W0 W \<Longrightarrow> get_random_peer W h = (h', r) \<Longrightarrow> client_step W0 h h'"

lemma client_step_keeps:
  assumes "client_step W0 h h'" "client_ok W0 h"
  shows "client_ok W0 h'"
proof -
  have use: "client_ok W0 h'" if "same_rules W0 W" "client_ok W h \<Longrightarrow> call_keeps W out" "out = Some (h', r)"
    for W r and out :: "(mem_client_storage, 'a) client_run"
    using that assms(2) client_ok_same[OF that(1)] by simp
  show ?thesis using assms(1)
  proof cases
    case step_reset
    then show ?thesis using reset_keeps[OF assms(2)] by simp
  next
    case (step_ask_peer W r)
    then show ?thesis using random_peer_keeps[of W h] client_ok_same[OF step_ask_peer(1)] assms(2) by simp
  next
    case step_single_reset
    then show ?thesis using assms(2) by (simp add: single_timeline_reset_def)
  next
    case step_multiple_reset
    then show ?thesis using assms(2) by (simp add: multiple_timeline_reset_def)
  next
    case (step_post W post wait_for_all r)
    show ?thesis by (rule use[OF step_post(1) submit_keeps step_post(2)])
  next
    case (step_meta W r)
    show ?thesis by (rule use[OF step_meta(1) submit_meta_keeps step_meta(2)])
  next
    case (step_ensure_meta W r)
    show ?thesis by (rule use[OF step_ensure_meta(1) ensure_meta_keeps step_ensure_meta(2)])
  next
    case (step_vote W loc i ty r)
    show ?thesis by (rule use[OF step_vote(1) vote_keeps step_vote(2)])
  next
    case (step_get_post W loc i r)
    show ?thesis by (rule use[OF step_get_post(1) get_post_keeps step_get_post(2)])
  next
    case (step_get_votes W loc i r)
    show ?thesis by (rule use[OF step_get_votes(1) get_feedbacks_keeps step_get_votes(2)])
  next
    case (step_single W bt base_id r)
    show ?thesis by (rule use[OF step_single(1) single_keeps[OF _ step_single(2)] step_single(3)])
  next
    case (step_multiple W bt base_ids r)
    show ?thesis by (rule use[OF step_multiple(1) multiple_keeps[OF _ step_multiple(2)] step_multiple(3)])
  qed
qed

lemma trim_new: "trim_buckets mem_client_storage (zip BUCKETS BUCKET_TRIMS) mem_client_new = (mem_client_new, Inr ())"
  by code_simp

text \<open>A client on an empty storage.\<close>

definition fresh_client :: "mem_client_storage hashiverse_client" where
  "fresh_client = \<lparr>hc_storage = mem_client_new, hc_tracker = PeerTracker_new (Inr None),
      hc_bundle_radii = lm_radii (LivePostBundleManager_new mem_client_new (PeerTracker_new (Inr None))),
      hc_feedback_radii = lm_radii (LivePostBundleFeedbackManager_new mem_client_new (PeerTracker_new (Inr None))),
      hc_pen = [], hc_single = None, hc_multiple = None\<rparr>"

lemma new_client_is: "HashiverseClient_new mem_client_storage W mem_client_new = (mem_client_new, Inr fresh_client)"
proof -
  have g: "get_struct mem_client_storage (cw_compressor (hw_client W)) (cw_peers_json (hw_client W)) BUCKET_PEER ''peers'' (hw_now W) mem_client_new
      = (mem_client_new, Inr None)"
    by (simp add: get_struct_def mem_client_storage_def mem_client_get_def update_bucket_def mem_client_new_def storage_buckets)
  have lengths: "ensure (length BUCKETS = length BUCKET_TRIMS) e = Inr ()" for e
    by (simp add: ensure_def storage_buckets BUCKET_TRIMS_def)
  show ?thesis unfolding HashiverseClient_new_def g prod.case Let_def lengths cbind_simps trim_new fresh_client_def ..
qed

lemma fresh_client_ok: "codec_ok (pj_bundle_header (cw_json (hw_client W))) \<Longrightarrow> client_ok W fresh_client"
  using mem_client_new_ready by (simp add: fresh_client_def live_ok_def cache_counts_def tracker_ok_def PeerTracker_new_def)


text \<open>C7: From a new client on an empty storage, after any calls in any order, at any times and whatever the servers answer, the known
  peers are sorted by identity without repetition and have signed themselves, and every bundle in the storage that can be read counts
  its posts. In each such state a post can be asked for, and the call ends, as long as no acceptable peer has the very identity of
  the location.\<close>

theorem client_runs_stay_consistent:
  assumes "HashiverseClient_new mem_client_storage W0 mem_client_new = (s, Inr h0)" "codec_ok (pj_bundle_header (cw_json (hw_client W0)))"
    and "(client_step W0)\<^sup>*\<^sup>* h0 h"
  shows "sorted_wrt (<) (map p_id (get_all_known_peers h)) \<and> list_all (acceptable (cw_crypto (hw_client W0))) (get_all_known_peers h)
    \<and> (\<forall>i b. stored_bundle (hw_client W0) (mem_client_peek (hc_storage h)) i = Some b \<longrightarrow> counts_posts b)
    \<and> (\<forall>W loc i. same_rules W0 W \<longrightarrow> wf_id (bl_location_id loc)
         \<longrightarrow> (\<forall>p. acceptable (cw_crypto (hw_client W0)) p \<longrightarrow> peer_agreement (bl_location_id loc) p < 256)
         \<longrightarrow> (\<exists>h' r. get_post mem_client_storage W loc i h = Some (h', r)))"
proof -
  have "h0 = fresh_client" using assms(1) by (simp add: new_client_is)
  then have start: "client_ok W0 h0" using fresh_client_ok[OF assms(2)] by blast
  have ok: "client_ok W0 h" using assms(3) by induction (auto intro: start client_step_keeps)
  have ends: "\<exists>h' r. get_post mem_client_storage W loc i h = Some (h', r)"
    if W: "same_rules W0 W" and loc: "wf_id (bl_location_id loc)"
      and away: "\<forall>p. acceptable (cw_crypto (hw_client W0)) p \<longrightarrow> peer_agreement (bl_location_id loc) p < 256" for W loc i
  proof -
    have "client_ok W h" using ok client_ok_same[OF W] by simp
    moreover have "\<forall>p. acceptable (cw_crypto (hw_client W)) p \<longrightarrow> peer_agreement (bl_location_id loc) p < 256"
      using away W by (simp add: same_rules_def)
    ultimately obtain m r where "live_get_post_bundle mem_client_storage (hw_client W) loc (hw_now W) (bundle_manager h) = Some (m, r)"
      using mem_client.live_returns loc by blast
    then show ?thesis by (simp add: get_post_def)
  qed
  have "\<forall>i b. stored_bundle (hw_client W0) (mem_client_peek (hc_storage h)) i = Some b \<longrightarrow> counts_posts b"
    using mem_client.stored_counts[OF ok] by simp
  moreover have "tracker_ok (cw_crypto (hw_client W0)) (hc_tracker h)" using ok by (simp add: live_ok_def)
  ultimately show ?thesis using ends by (simp add: tracker_ok_def get_all_known_peers_def)
qed


section \<open>A page as it is shown\<close>

text \<open>C21: What a page of a timeline turns into: the posts that decode under the base of their bucket and are no profiles, in their
  order. Everything else is left out without failing the page. Nothing of the storage changes but the cached profile of each author
  of a profile in the page, and the client's own settings if one of these authors is the client itself.\<close>

theorem page_shows_posts_only:
  assumes "mem_client_ready s" "post_process_timeline_posts mem_client_storage W page [] s = (s', r)"
  shows "(\<forall>out. r = Inr out \<longrightarrow> out = List.map_filter (shown_of W) page) \<and> (\<forall>e. r = Inl e \<longrightarrow> (\<exists>m. e = Panic m))
    \<and> (\<forall>b k. mem_client_peek s' b k \<noteq> mem_client_peek s b k \<longrightarrow> (\<exists>m author. Some (m, author) \<in> profile_of W ` set page
         \<and> (b = BUCKET_META_POST_PUBLIC \<and> k = cached_public_key (hw_meta W) (cid_id author)
            \<or> cid_id author = cid_id (mw_client_id (hw_meta W)) \<and> b = BUCKET_CONFIG
               \<and> k \<in> {public_config_key (hw_meta W), private_config_key (hw_meta W)})))"
proof (intro conjI allI impI)
  note p = mem_client.process_posts_spec[OF assms]
  show "\<And>out. r = Inr out \<Longrightarrow> out = List.map_filter (shown_of W) page" using p by simp
  show "\<And>e. r = Inl e \<Longrightarrow> \<exists>m. e = Panic m" using p by (auto simp: only_panics_def) (metis err.exhaust)
  fix b k assume "mem_client_peek s' b k \<noteq> mem_client_peek s b k"
  then have "(b, k) \<in> profile_places (hw_meta W) (List.map_filter (profile_of W) page)" using p by (auto simp: only_changes_def)
  then obtain m author where a: "(m, author) \<in> set (List.map_filter (profile_of W) page)"
      "(b, k) \<in> {(BUCKET_META_POST_PUBLIC, cached_public_key (hw_meta W) (cid_id author))}
      \<union> (if cid_id author = cid_id (mw_client_id (hw_meta W)) then own_config_keys (hw_meta W) else {})"
    by (auto simp: profile_places_def)
  have "Some (m, author) \<in> profile_of W ` set page"
    using a(1) by (auto simp: List.map_filter_def image_iff) (metis option.collapse)
  moreover have "b = BUCKET_META_POST_PUBLIC \<and> k = cached_public_key (hw_meta W) (cid_id author)
            \<or> cid_id author = cid_id (mw_client_id (hw_meta W)) \<and> b = BUCKET_CONFIG
               \<and> k \<in> {public_config_key (hw_meta W), private_config_key (hw_meta W)}"
    using a(2) by (auto simp: own_config_keys_def split: if_splits)
  ultimately show "\<exists>m author. Some (m, author) \<in> profile_of W ` set page
         \<and> (b = BUCKET_META_POST_PUBLIC \<and> k = cached_public_key (hw_meta W) (cid_id author)
            \<or> cid_id author = cid_id (mw_client_id (hw_meta W)) \<and> b = BUCKET_CONFIG
               \<and> k \<in> {public_config_key (hw_meta W), private_config_key (hw_meta W)})" by blast
qed


section \<open>A single post\<close>

lemma find_post_skips:
  assumes "n \<le> j" "j < m" "j < length (pbh_encoded_post_ids (pb_header b))" "j < length (pbh_encoded_post_lengths (pb_header b))"
    and "\<forall>k. n \<le> k \<longrightarrow> k < j \<longrightarrow> pbh_encoded_post_ids (pb_header b) ! k \<noteq> i"
    and "sum_list (take j (pbh_encoded_post_lengths (pb_header b))) \<le> USIZE_MAX"
  shows "find_post E loc i b [n..<m] (sum_list (take n (pbh_encoded_post_lengths (pb_header b))))
    = find_post E loc i b [j..<m] (sum_list (take j (pbh_encoded_post_lengths (pb_header b))))"
  using assms
proof (induction "j - n" arbitrary: n)
  case 0
  then show ?case by simp
next
  case (Suc d)
  let ?lens = "pbh_encoded_post_lengths (pb_header b)"
  have n: "n < j" "[n..<m] = n # [Suc n..<m]" using Suc.hyps(2) Suc.prems by (simp_all add: upt_conv_Cons)
  have off: "sum_list (take n ?lens) + ?lens ! n = sum_list (take (Suc n) ?lens)" using n(1) Suc.prems(4) by (simp add: take_Suc_conv_app_nth)
  have "take (Suc n) (take j ?lens) = take (Suc n) ?lens" using n(1) by (simp add: min_def)
  then have "sum_list (take j ?lens) = sum_list (take (Suc n) ?lens) + sum_list (drop (Suc n) (take j ?lens))"
    by (metis append_take_drop_id sum_list_append)
  then have "\<not> USIZE_MAX < sum_list (take (Suc n) ?lens)" using Suc.prems(6) by simp
  then have "find_post E loc i b [n..<m] (sum_list (take n ?lens)) = find_post E loc i b [Suc n..<m] (sum_list (take (Suc n) ?lens))"
    using n Suc.prems(3-5) by (simp add: Let_def off)
  then show ?case using Suc.hyps(1)[of "Suc n"] Suc.hyps(2) Suc.prems n(1) by simp
qed

text \<open>The post at place \<open>j\<close> is the first one listed under the identity, and its slice lies in the body.\<close>

definition first_listed :: "id \<Rightarrow> post_bundle \<Rightarrow> nat \<Rightarrow> bool" where
  "first_listed i b j \<longleftrightarrow> j < length (pbh_encoded_post_ids (pb_header b)) \<and> j < length (pbh_encoded_post_lengths (pb_header b))
    \<and> pbh_encoded_post_ids (pb_header b) ! j = i \<and> (\<forall>k < j. pbh_encoded_post_ids (pb_header b) ! k \<noteq> i)
    \<and> sum_list (take (Suc j) (pbh_encoded_post_lengths (pb_header b))) \<le> length (pb_encoded_posts_bytes b)
    \<and> sum_list (take (Suc j) (pbh_encoded_post_lengths (pb_header b))) \<le> USIZE_MAX"

definition listed_slice :: "post_bundle \<Rightarrow> nat \<Rightarrow> bytes" where
  "listed_slice b j = slice (sum_list (take j (pbh_encoded_post_lengths (pb_header b)))) (pbh_encoded_post_lengths (pb_header b) ! j)
    (pb_encoded_posts_bytes b)"

lemma find_post_first:
  assumes "first_listed i b j" "j < m"
  shows "find_post E loc i b [0..<m] 0 = rbind (decode_from_bytes E (listed_slice b j) (bl_base_id loc) True True)
    (\<lambda>p. Inr (loc, p, listed_slice b j, i \<in> pbh_encoded_post_healed (pb_header b)))"
proof -
  let ?lens = "pbh_encoded_post_lengths (pb_header b)"
  have off: "sum_list (take j ?lens) + ?lens ! j = sum_list (take (Suc j) ?lens)"
    using assms(1) by (simp add: first_listed_def take_Suc_conv_app_nth)
  have "find_post E loc i b [0..<m] 0 = find_post E loc i b [j..<m] (sum_list (take j ?lens))"
    using find_post_skips[of 0 j m b i E loc] assms off by (simp add: first_listed_def)
  also have "[j..<m] = j # [Suc j..<m]" using assms(2) by (simp add: upt_conv_Cons)
  finally show ?thesis using assms(1) off by (simp add: first_listed_def listed_slice_def Let_def not_less)
qed

lemma find_post_finds:
  assumes "find_post E loc i b [n..<m] (sum_list (take n (pbh_encoded_post_lengths (pb_header b)))) = Inr r"
    and "\<forall>k < n. pbh_encoded_post_ids (pb_header b) ! k \<noteq> i"
  shows "\<exists>j. first_listed i b j \<and> j < m"
  using assms
proof (induction "m - n" arbitrary: n)
  case 0
  then show ?case by simp
next
  case (Suc d)
  let ?lens = "pbh_encoded_post_lengths (pb_header b)"
  have n: "n < m" "[n..<m] = n # [Suc n..<m]" using Suc.hyps(2) by (simp_all add: upt_conv_Cons)
  have run: "find_post E loc i b (n # [Suc n..<m]) (sum_list (take n ?lens)) = Inr r" using Suc.prems(1) n(2) by simp
  then have bounds: "n < length ?lens" "n < length (pbh_encoded_post_ids (pb_header b))" by (auto simp: Let_def split: if_splits)
  have off: "sum_list (take n ?lens) + ?lens ! n = sum_list (take (Suc n) ?lens)" using bounds(1) by (simp add: take_Suc_conv_app_nth)
  show ?case
  proof (cases "pbh_encoded_post_ids (pb_header b) ! n = i")
    case True
    then have "first_listed i b n" using run bounds Suc.prems(2) off by (auto simp: first_listed_def Let_def split: if_splits)
    then show ?thesis using n(1) by blast
  next
    case False
    then have "find_post E loc i b [Suc n..<m] (sum_list (take (Suc n) ?lens)) = Inr r"
      using run bounds by (auto simp: Let_def off split: if_splits)
    moreover have "\<forall>k < Suc n. pbh_encoded_post_ids (pb_header b) ! k \<noteq> i" using False Suc.prems(2) by (simp add: less_Suc_eq)
    ultimately show ?thesis using Suc.hyps(1)[of "Suc n"] Suc.hyps(2) by simp
  qed
qed

lemma find_post_iff:
  "find_post E loc i b [0..<m] 0 = Inr (loc', p, bs, healed) \<longleftrightarrow> loc' = loc \<and> (\<exists>j < m. first_listed i b j
    \<and> bs = listed_slice b j \<and> decode_from_bytes E bs (bl_base_id loc) True True = Inr p
    \<and> healed = (i \<in> pbh_encoded_post_healed (pb_header b)))" (is "?L \<longleftrightarrow> ?R")
proof
  assume L: ?L
  then obtain j where j: "first_listed i b j" "j < m" using find_post_finds[of E loc i b 0 m] by auto
  show ?R using L unfolding find_post_first[OF j] by (intro conjI exI[of _ j]) (auto simp: j)
next
  assume ?R
  then obtain j where "j < m" "first_listed i b j" "bs = listed_slice b j" "loc' = loc"
    "decode_from_bytes E bs (bl_base_id loc) True True = Inr p" "healed = (i \<in> pbh_encoded_post_healed (pb_header b))" by blast
  then show ?L using find_post_first[of i b j m E loc] by simp
qed

text \<open>C22: A post that is asked for by its identity, exactly: it is served if and only if the bundle that the manager fetches, which is
  then the stored one, lists that identity among its posts, the slice that the listed lengths give the first such entry lies in the
  body, and the slice decodes under the base of the bucket. Served are that slice, what it decodes to and the mark of the listed
  identity. No other condition is made: the identity that the decoded post has itself is not compared with the one asked for.\<close>

theorem get_post_serves_listed_slice:
  assumes "mem_live_ok (hw_client W) (bundle_manager h)"
  shows "get_post mem_client_storage W loc i h = Some (h', Inr (loc', p, bs, healed)) \<longleftrightarrow> loc' = loc
    \<and> (\<exists>m b bg j. live_get_post_bundle mem_client_storage (hw_client W) loc (hw_now W) (bundle_manager h) = Some (m, Inr (b, bg))
    \<and> h' = put_bundle_manager m h
    \<and> stored_bundle (hw_client W) (mem_client_peek (hc_storage h')) (bl_location_id loc) = Some b
    \<and> j < unat (pbh_num_posts (pb_header b)) \<and> first_listed i b j \<and> bs = listed_slice b j
    \<and> decode_from_bytes (po_env (hw_posting W)) bs (bl_base_id loc) True True = Inr p
    \<and> healed = (i \<in> pbh_encoded_post_healed (pb_header b)))" (is "?L \<longleftrightarrow> ?R")
proof
  assume ?L
  then obtain m b bg where live: "live_get_post_bundle mem_client_storage (hw_client W) loc (hw_now W) (bundle_manager h) = Some (m, Inr (b, bg))"
    and h': "h' = put_bundle_manager m h"
    and f: "find_post (po_env (hw_posting W)) loc i b [0..<unat (pbh_num_posts (pb_header b))] 0 = Inr (loc', p, bs, healed)"
    by (auto simp: get_post_def)
  have "stored_bundle (hw_client W) (mem_client_peek (hc_storage h')) (bl_location_id loc) = Some b"
    using mem_client.live_keeps[OF assms live] by (cases bg) (simp add: h' put_bundle_manager_def)
  then show ?R using live h' f[unfolded find_post_iff] by blast
next
  assume ?R
  then obtain m b bg where live: "live_get_post_bundle mem_client_storage (hw_client W) loc (hw_now W) (bundle_manager h) = Some (m, Inr (b, bg))"
    and "h' = put_bundle_manager m h"
    "find_post (po_env (hw_posting W)) loc i b [0..<unat (pbh_num_posts (pb_header b))] 0 = Inr (loc', p, bs, healed)"
    unfolding find_post_iff by blast
  then show ?L by (simp add: get_post_def)
qed


section \<open>Strength of votes\<close>

lemma byte_below: "unat (ty :: byte) < 256"
proof -
  have "unat ty < 2 ^ LENGTH(8)" by (rule unsigned_less)
  then show ?thesis by simp
qed

lemma length_post_pows: "length (get_post_pows b i) = 256"
proof -
  have "length (fold (\<lambda>v result. if view_post_id_bytes v = id_bytes i then result[unat (view_feedback_type v) := view_pow v] else result) vs xs)
      = length xs" for vs and xs :: "pow list"
    by (induction vs arbitrary: xs) auto
  then show ?thesis by (simp add: get_post_pows_def)
qed

lemma post_pows_votes:
  assumes "distinct (map fst (votes b))"
  shows "get_post_pows b i ! unat ty = get_post_pow_for_feedback_type b i ty"
proof -
  let ?f = "\<lambda>v result. if view_post_id_bytes v = id_bytes i then result[unat (view_feedback_type v) := view_pow v] else result"
  have ty: "unat ty < 256" by (rule byte_below)
  have "distinct (map (fst \<circ> vote_of_view) vs) \<Longrightarrow> length xs = 256 \<Longrightarrow> fold ?f vs xs ! unat ty
      = (case map_of (map vote_of_view vs) (i, ty) of Some (s, p) \<Rightarrow> p | None \<Rightarrow> xs ! unat ty)" for vs xs
  proof (induction vs arbitrary: xs)
    case (Cons v vs)
    let ?xs = "?f v xs"
    have l: "length ?xs = 256" using Cons.prems(2) by simp
    have IH: "fold ?f vs ?xs ! unat ty = (case map_of (map vote_of_view vs) (i, ty) of Some (s, p) \<Rightarrow> p | None \<Rightarrow> ?xs ! unat ty)"
      using Cons.IH[OF _ l] Cons.prems(1) by simp
    show ?case
    proof (cases "fst (vote_of_view v) = (i, ty)")
      case True
      then have "map_of (map vote_of_view vs) (i, ty) = None"
        using Cons.prems(1) by (force simp: map_of_eq_None_iff)
      then show ?thesis using IH True Cons.prems(2) ty by (cases i) (auto simp: vote_of_view_def)
    next
      case False
      have "?xs ! unat ty = xs ! unat ty"
        using False by (cases i) (auto simp: vote_of_view_def word_unat_eq_iff nth_list_update)
      moreover have "map_of (map vote_of_view (v # vs)) (i, ty) = map_of (map vote_of_view vs) (i, ty)"
        using False by (cases "vote_of_view v") simp
      moreover have "fold ?f (v # vs) xs = fold ?f vs ?xs" by simp
      ultimately show ?thesis using IH by (simp only:)
    qed
  qed simp
  then show ?thesis using assms ty by (simp add: get_post_pows_def get_post_pow_votes votes_def comp_def split: option.splits)
qed

lemma strength_values:
  "feedback_strength p = (if p < 14 then 0 else if p < 64 then 2 ^ (unat p - 14) else 2 ^ 50 - 1)"
proof -
  have n: "CLIENT_FEEDBACK_POW_NUMERAIRE = 2 ^ 14" by (simp add: CLIENT_FEEDBACK_POW_NUMERAIRE_def)
  have lt: "p < 14 \<longleftrightarrow> unat p < 14" "p < 64 \<longleftrightarrow> unat p < 64" "0 < p \<longleftrightarrow> 0 < unat p" by (simp_all add: word_less_nat_alt)
  consider "unat p < 14" | "14 \<le> unat p" "unat p < 64" | "64 \<le> unat p" by linarith
  then show ?thesis
  proof cases
    case 1
    then have "(2::nat) ^ unat p div 2 ^ 14 = 0" by (simp add: power_strict_increasing del: power_numeral)
    then show ?thesis using 1 lt n by (simp add: feedback_strength_def statistical_attempts_def)
  next
    case 2
    then have "(2::nat) ^ unat p div 2 ^ 14 = 2 ^ (unat p - 14)" by (metis power_diff zero_neq_numeral)
    then show ?thesis using 2 lt n by (simp add: feedback_strength_def statistical_attempts_def)
  next
    case 3
    then show ?thesis using lt by (simp add: feedback_strength_def statistical_attempts_def CLIENT_FEEDBACK_POW_NUMERAIRE_def)
  qed
qed

text \<open>C36: The strengths an application is shown: one for each of the 256 types, below 2^50; if the bundle has at most one vote of a post
  and type, as merging makes it, each is that vote's work measured in units of 2^14 attempts, nothing below one unit, and all
  works of 64 bits and more count the same.\<close>

theorem vote_strengths_follow_work:
  assumes "get_post_feedbacks S W loc i h = Some (h', Inr xs)"
  shows "length xs = 256 \<and> list_all (\<lambda>x. x < 2 ^ 50) xs
    \<and> (\<exists>m b bg. live_get_post_bundle_feedback S (hw_client W) loc (hw_now W) (feedback_manager h) = Some (m, Inr (b, bg))
         \<and> (distinct (map fst (votes b)) \<longrightarrow> (\<forall>ty. xs ! unat ty = (let p = get_post_pow_for_feedback_type b i ty in
               if p < 14 then 0 else if p < 64 then 2 ^ (unat p - 14) else 2 ^ 50 - 1))))"
proof -
  obtain m b bg where live: "live_get_post_bundle_feedback S (hw_client W) loc (hw_now W) (feedback_manager h) = Some (m, Inr (b, bg))"
    and xs: "xs = map feedback_strength (get_post_pows b i)"
    using assms by (auto simp: get_post_feedbacks_def)
  have below: "feedback_strength p < 2 ^ 50" for p
  proof -
    have "(2::nat) ^ (unat p - 14) < 2 ^ 50" if "unat p < 64" using that by (intro power_strict_increasing) auto
    then show ?thesis by (simp add: strength_values word_less_nat_alt)
  qed
  have ty: "unat ty < length (get_post_pows b i)" for ty :: byte using byte_below[of ty] by (simp add: length_post_pows)
  have "list_all (\<lambda>x. x < 2 ^ 50) xs" unfolding list_all_iff xs using below by auto
  moreover have "length xs = 256" by (simp add: xs length_post_pows)
  moreover have "xs ! unat ty = (let p = get_post_pow_for_feedback_type b i ty in
      if p < 14 then 0 else if p < 64 then 2 ^ (unat p - 14) else 2 ^ 50 - 1)" if "distinct (map fst (votes b))" for ty
    using ty[of ty] by (simp only: xs nth_map post_pows_votes[OF that] strength_values Let_def)
  ultimately show ?thesis using live by blast
qed


section \<open>A concrete client\<close>

text \<open>The world of \<open>ClientSamples\<close> with the header of one post and of one bundle that lists it, under an identity of its own.\<close>

definition toy_unsent :: encoded_post where "toy_unsent = EncodedPost_new toy_client_id 0 [] ''hi''"

definition shown_header :: post_header where
  "shown_header = (ep_header toy_unsent)\<lparr>ph_sig_direct := Some ()\<rparr>"

definition shown_env :: post_env where
  "shown_env = toy_env\<lparr>pe_header_json := const_codec shown_header\<rparr>"

definition sample_post :: "encoded_post \<times> encoded_post_bytes" where
  "sample_post = (case encode_to_bytes_direct shown_env (\<lambda>m. Inr toy_signature) toy_random toy_random toy_unsent of
       Inr x \<Rightarrow> x | Inl e \<Rightarrow> (toy_post, \<lparr>epb_length_without_body = 0, epb_bytes = []\<rparr>))"

definition listed_id :: id where "listed_id = Id (replicate 32 9)"

definition listing_header :: post_bundle_header where
  "listing_header = toy_bundle_header\<lparr>pbh_num_posts := 1, pbh_encoded_post_ids := [listed_id],
     pbh_encoded_post_lengths := [length (epb_bytes (snd sample_post))]\<rparr>"

definition listing :: post_bundle where
  "listing = \<lparr>pb_header = listing_header, pb_encoded_posts_bytes = epb_bytes (snd sample_post)\<rparr>"

definition plain_meta :: meta_world where
  "plain_meta = toy_meta_world\<lparr>mw_meta_only_json := \<lparr>enc = (\<lambda>x. []), dec = (\<lambda>bs. None)\<rparr>\<rparr>"

definition facade_client :: client_world where
  "facade_client = (toy_client_world (\<lambda>x. x))\<lparr>cw_json := toy_json\<lparr>pj_bundle_header := const_codec listing_header\<rparr>,
     cw_feedback_header_json := const_codec (fbb_header (toy_feedback_bundle 20))\<rparr>"

definition facade_world :: hashiverse_world where
  "facade_world = \<lparr>hw_posting = (toy_posting_world (\<lambda>x. x))\<lparr>po_client := facade_client, po_env := shown_env\<rparr>, hw_meta = plain_meta,
     hw_best_effort = (\<lambda>n p h. Inl (Bail ''stopped'')), hw_random_index = (\<lambda>n. 0), hw_post_random = (toy_random, toy_random),
     hw_meta_random = (Salt_zero, toy_random), hw_url_preview_json = const_codec undefined, hw_trending_json = const_codec [],
     hw_stats_request_json = const_codec (), hw_stats_response_json = const_codec undefined, hw_stats_document_json = const_codec [], hw_unicode_alnum = (\<lambda>c. False),
     hw_uppercase = id\<rparr>"

lemma shown_encodes: "encode_to_bytes_direct shown_env (\<lambda>m. Inr toy_signature) toy_random toy_random toy_unsent = Inr sample_post"
proof -
  have "case encode_to_bytes_direct shown_env (\<lambda>m. Inr toy_signature) toy_random toy_random toy_unsent of Inr x \<Rightarrow> True | Inl e \<Rightarrow> False"
    by code_simp
  then show ?thesis by (auto simp: sample_post_def split: sum.splits)
qed

lemma sample_post_is: "ep_header (fst sample_post) = shown_header" "length (epb_bytes (snd sample_post)) = 381" "ep_post (fst sample_post) = ''hi''"
  "ep_post_id (fst sample_post) = Id_zero"
  by code_simp+

lemma shown_decodes: "decode_from_bytes shown_env (epb_bytes (snd sample_post)) Id_zero True True = Inr (fst sample_post)"
proof (rule encode_decode_post(2)[of shown_env "\<lambda>m. Inr toy_signature" toy_random toy_random toy_unsent])
  show "encode_to_bytes_direct shown_env (\<lambda>m. Inr toy_signature) toy_random toy_random toy_unsent = Inr (fst sample_post, snd sample_post)"
    by (simp add: shown_encodes)
  have env: "pe_crypto shown_env = toy_crypto" "pe_aead shown_env = toy_aead" "pe_compressor shown_env = toy_compressor"
    "pe_header_json shown_env = const_codec shown_header"
    by (simp_all add: shown_env_def toy_env_def)
  show "post_laws shown_env (\<lambda>m. Inr toy_signature) (ep_header (fst sample_post)) (ep_post toy_unsent)"
    unfolding post_laws_def env sample_post_is(1)
    by (simp add: toy_crypto_ok toy_aead_laws toy_compressor_laws const_codec_def MAX_DECOMPRESSED_SIZE_def toy_unsent_def EncodedPost_new_def
        wf_newtypes toy_signature_def byte_counts) (simp add: toy_crypto_def)
  show "post_passwords (pe_crypto shown_env) (ep_header (fst sample_post)) = Inr [id_bytes Id_zero]"
    by code_simp
  show "enc_random_ok (pe_aead shown_env) [id_bytes Id_zero] toy_random" "enc_random_ok (pe_aead shown_env) [id_bytes Id_zero] toy_random"
    by (simp_all add: enc_random_ok_def toy_random_def env toy_aead_laws)
  show "ph_post_length (ep_header toy_unsent) = length (ep_post toy_unsent)" by (simp add: toy_unsent_def EncodedPost_new_def)
  show "is_utf8 (ep_post toy_unsent)" by code_simp
  show "length (epb_bytes (snd sample_post)) < 2 ^ 32" by (simp add: sample_post_is)
qed simp

lemma facade_simps [simp]:
  "hw_client facade_world = facade_client" "po_env (hw_posting facade_world) = shown_env" "hw_meta facade_world = plain_meta"
  "cw_crypto facade_client = toy_crypto" "pj_bundle_header (cw_json facade_client) = const_codec listing_header"
  "cw_hex facade_client = bytes_str" "cw_now facade_client = 0"
  "cw_feedback_header_json facade_client = const_codec (fbb_header (toy_feedback_bundle 20))"
  by (simp_all add: facade_world_def facade_client_def toy_client_world_def toy_posting_world_def)

lemma const_codec_codec_ok: "codec_ok (const_codec v)"
  by (simp add: codec_ok_def const_codec_def)


section \<open>Each property there\<close>

theorem client_runs_stay_consistent_witness:
  "\<exists>h h' r. client_step facade_world fresh_client h \<and> get_post mem_client_storage facade_world far_location Id_zero h = Some (h', r)
    \<and> list_all (acceptable toy_crypto) (get_all_known_peers h)"
proof -
  obtain h r where g: "get_random_peer facade_world fresh_client = (h, r)" by fastforce
  have same: "same_rules facade_world facade_world" by (simp add: same_rules_def)
  have step: "client_step facade_world fresh_client h" by (rule step_ask_peer[OF same g])
  have loc: "wf_id (bl_location_id far_location)" by (simp add: far_location_def wf_newtypes byte_counts)
  have away: "\<forall>p. acceptable (cw_crypto (hw_client facade_world)) p \<longrightarrow> peer_agreement (bl_location_id far_location) p < 256"
    using toy_peers_agree by (simp add: far_location_def)
  have cod: "codec_ok (pj_bundle_header (cw_json (hw_client facade_world)))" by (simp add: const_codec_codec_ok)
  have run: "(client_step facade_world)\<^sup>*\<^sup>* fresh_client h" using step by (rule r_into_rtranclp)
  note k = client_runs_stay_consistent[OF new_client_is cod run]
  then have "\<exists>h' r. get_post mem_client_storage facade_world far_location Id_zero h = Some (h', r)" using same loc away by blast
  then show ?thesis using step k by auto
qed

theorem page_shows_posts_only_witness:
  "\<exists>s'. post_process_timeline_posts mem_client_storage facade_world
      [(toy_location, [], False), (toy_location, epb_bytes (snd sample_post), True)] [] mem_client_new
    = (s', Inr [(toy_location, fst sample_post, epb_bytes (snd sample_post), True)])
    \<and> mem_client_peek s' = mem_client_peek mem_client_new"
proof -
  let ?page = "[(toy_location, [], False), (toy_location, epb_bytes (snd sample_post), True)]"
  obtain s' r where run: "post_process_timeline_posts mem_client_storage facade_world ?page [] mem_client_new = (s', r)" by fastforce
  have base: "bl_base_id toy_location = Id_zero" by (simp add: toy_location_def)
  have none: "decode_from_bytes shown_env [] Id_zero True True = Inl (Bail ''Missing post_id'')"
    by (simp add: decode_from_bytes_def ensure_def ID_BYTES_def Let_def)
  have meta: "try_parse_meta_post (mw_meta_only_json plain_meta) (mw_envelope_json plain_meta) t = Inr MetaPostNone" for t
    by (simp add: try_parse_meta_post_def plain_meta_def)
  have prof: "profile_of facade_world x = None" if "x \<in> set ?page" for x
    using that none shown_decodes meta by (auto simp: profile_of_def base)
  note page = page_shows_posts_only[OF mem_client_new_ready(1) run]
  have "mem_client_peek s' b k = mem_client_peek mem_client_new b k" for b k
  proof (rule ccontr)
    assume "mem_client_peek s' b k \<noteq> mem_client_peek mem_client_new b k"
    from conjunct2[OF conjunct2[OF page], rule_format, OF this] obtain m author
      where "Some (m, author) \<in> profile_of facade_world ` set ?page" by (elim exE conjE) (rule that)
    then obtain x where "Some (m, author) = profile_of facade_world x" "x \<in> set ?page" by (rule imageE)
    then show False using prof[of x] by (simp only: option.distinct)
  qed
  then have same: "mem_client_peek s' = mem_client_peek mem_client_new" by (intro ext)
  have "r = Inr [(toy_location, fst sample_post, epb_bytes (snd sample_post), True)]"
  proof (cases r)
    case (Inl e)
    then show ?thesis using run none shown_decodes meta by (simp add: base)
  next
    case (Inr out)
    then have "out = List.map_filter (shown_of facade_world) ?page" using conjunct1[OF page, rule_format] by blast
    then show ?thesis using Inr none shown_decodes meta by (simp add: map_filter_simps shown_of_def base)
  qed
  then show ?thesis using run same by blast
qed

lemma listing_reads: "pb_from_bytes (const_codec listing_header) (pb_to_bytes (const_codec listing_header) listing) True = Inr listing"
  using pb_bytes_roundtrip[of "const_codec listing_header" listing]
  by (simp add: const_codec_def listing_def sample_post_is USIZE_MAX_def)

lemma listing_client:
  "\<exists>h. client_ok facade_world h \<and> stored_bundle facade_client (mem_client_peek (hc_storage h)) Id_zero = Some listing"
proof -
  let ?bs = "pb_to_bytes (const_codec listing_header) listing"
  obtain s where s: "mem_client_ready s" "mem_client_peek s = (\<lambda>b k. None)(BUCKET_POST_BUNDLE := [bytes_str (id_bytes Id_zero) \<mapsto> ?bs])"
    using mem_client.put_stores[OF mem_client_new_ready(1), of BUCKET_POST_BUNDLE "bytes_str (id_bytes Id_zero)" ?bs 0]
    by (auto simp: mem_client_new_ready BUCKETS_def)
  have c: "counts_posts listing" by (simp add: counts_posts_def listing_def listing_header_def)
  have "client_ok facade_world (fresh_client\<lparr>hc_storage := s\<rparr>)"
    using fresh_client_ok[of facade_world] const_codec_codec_ok[of listing_header] s(1) c
    by (auto simp: live_ok_def cache_counts_def s(2) listing_reads split: if_splits)
  moreover have "stored_bundle facade_client (mem_client_peek s) Id_zero = Some listing"
    by (simp add: stored_bundle_def s(2) Id_to_hex_str_def listing_reads)
  ultimately show ?thesis by (intro exI[of _ "fresh_client\<lparr>hc_storage := s\<rparr>"]) simp
qed

text \<open>The bundle lists the post under another identity than the post's own, and it is served under that.\<close>

theorem get_post_serves_listed_slice_witness:
  "\<exists>h h'. get_post mem_client_storage facade_world toy_location listed_id h
      = Some (h', Inr (toy_location, fst sample_post, epb_bytes (snd sample_post), False))
    \<and> ep_post_id (fst sample_post) \<noteq> listed_id \<and> stored_bundle facade_client (mem_client_peek (hc_storage h')) Id_zero = Some listing"
proof -
  obtain h where h: "client_ok facade_world h" "stored_bundle facade_client (mem_client_peek (hc_storage h)) Id_zero = Some listing"
    using listing_client by blast
  have loc: "bl_location_id toy_location = Id_zero" "bl_base_id toy_location = Id_zero" by (simp_all add: toy_location_def)
  have fresh: "servable 0 listing"
    by (simp add: servable_def listing_def listing_header_def toy_bundle_header_def toy_header_def time_sub_def CLIENT_POST_BUNDLE_CACHE_DURATION_def
        millis_values const_mul_def sat_i64_def I64_MIN_def I64_MAX_def)
  obtain s' where live: "live_get_post_bundle mem_client_storage facade_client toy_location 0 (bundle_manager h)
      = Some ((bundle_manager h)\<lparr>lm_storage := s'\<rparr>, Inr (listing, [], [], []))"
    using mem_client.live_hit[of facade_client "bundle_manager h" toy_location listing 0] h fresh loc by auto
  have l: "pbh_encoded_post_lengths (pb_header listing) = [length (epb_bytes (snd sample_post))]"
    "pbh_encoded_post_ids (pb_header listing) = [listed_id]" "pb_encoded_posts_bytes listing = epb_bytes (snd sample_post)"
    "unat (pbh_num_posts (pb_header listing)) = 1" "pbh_encoded_post_healed (pb_header listing) = {}"
    by (simp_all add: listing_def listing_header_def toy_bundle_header_def toy_header_def)
  have small: "length (epb_bytes (snd sample_post)) \<le> USIZE_MAX" by (simp add: sample_post_is USIZE_MAX_def)
  have j: "first_listed listed_id listing 0" "listed_slice listing 0 = epb_bytes (snd sample_post)"
    using small by (simp_all add: first_listed_def listed_slice_def l slice_def)
  let ?m = "(bundle_manager h)\<lparr>lm_storage := s'\<rparr>"
  have ok: "mem_live_ok (hw_client facade_world) (bundle_manager h)" using h(1) by simp
  have stored: "stored_bundle facade_client (mem_client_peek (hc_storage (put_bundle_manager ?m h))) Id_zero = Some listing"
    using mem_client.live_keeps[OF ok, of toy_location 0] live loc by (simp add: put_bundle_manager_def)
  have "get_post mem_client_storage facade_world toy_location listed_id h
      = Some (put_bundle_manager ?m h, Inr (toy_location, fst sample_post, epb_bytes (snd sample_post), False))"
    using live stored shown_decodes loc l j
    by (intro get_post_serves_listed_slice[OF ok, THEN iffD2] conjI exI[of _ ?m] exI[of _ listing] exI[of _ "([], [], [])"] exI[of _ 0]) simp_all
  moreover have "ep_post_id (fst sample_post) \<noteq> listed_id"
    by (simp add: sample_post_is listed_id_def Id_zero_def ID_BYTES_def)
  ultimately show ?thesis using stored by blast
qed

definition voted_storage :: "unit client_storage" where
  "voted_storage = \<lparr>cs_count = (\<lambda>b s. Inr 1), cs_keys = (\<lambda>b s. Inr []),
     cs_get = (\<lambda>b k t s. (s, Inr (Some (fbb_to_bytes (const_codec (fbb_header (toy_feedback_bundle 20))) (toy_feedback_bundle 20))))),
     cs_put = (\<lambda>b k v t s. (s, Inr ())), cs_remove = (\<lambda>b k s. (s, Inr ())), cs_trim = (\<lambda>b n s. (s, Inr ())), cs_reset = (\<lambda>s. (s, Inr ()))\<rparr>"

theorem vote_strengths_follow_work_witness:
  "\<exists>h h' xs. get_post_feedbacks voted_storage facade_world toy_location Id_zero h = Some (h', Inr xs) \<and> xs ! 3 = 64 \<and> length xs = 256"
proof -
  let ?b = "toy_feedback_bundle 20"
  let ?h = "\<lparr>hc_storage = (), hc_tracker = toy_tracker, hc_bundle_radii = lm_radii (LivePostBundleManager_new () toy_tracker),
      hc_feedback_radii = lm_radii (LivePostBundleManager_new () toy_tracker), hc_pen = [], hc_single = None, hc_multiple = None\<rparr>"
  have v: "votes ?b = [((Id_zero, 3), Salt_zero, 20)]"
    using view_iter_encoded[of "[toy_vote 20]"] toy_vote_wf[of 20]
    by (simp add: votes_def toy_feedback_bundle_def vote_of_view_encoded) (simp add: vote_of_def toy_vote_def)
  have len: "length (fbb_feedbacks_bytes ?b) = 43" by code_simp
  have "fbb_from_bytes (const_codec (fbb_header ?b)) (fbb_to_bytes (const_codec (fbb_header ?b)) ?b) = Inr ?b"
    using feedback_bundle_roundtrip[of "const_codec (fbb_header ?b)" ?b "[]"] len by (simp add: const_codec_def USIZE_MAX_def)
  moreover have "time_sub 0 (fh_time_millis (fbb_header ?b)) < CLIENT_POST_BUNDLE_FEEDBACK_CACHE_DURATION"
    by (simp add: toy_feedback_bundle_def time_sub_def CLIENT_POST_BUNDLE_FEEDBACK_CACHE_DURATION_def millis_values const_mul_def sat_i64_def
        I64_MIN_def I64_MAX_def)
  ultimately have hit: "feedback_from_cache voted_storage facade_client i 0 () = ((), Inr (Some ?b))" for i
    by (simp add: feedback_from_cache_def voted_storage_def logged_failure_def)
  then have live: "live_get_post_bundle_feedback voted_storage facade_client toy_location 0 (feedback_manager ?h)
      = Some ((feedback_manager ?h)\<lparr>lm_storage := ()\<rparr>, Inr (?b, [], [], []))"
    by (simp add: live_get_post_bundle_feedback_def feedback_manager_def)
  then obtain h' xs where run: "get_post_feedbacks voted_storage facade_world toy_location Id_zero ?h = Some (h', Inr xs)"
    by (simp add: get_post_feedbacks_def)
  have p: "get_post_pow_for_feedback_type ?b Id_zero 3 = 20" by (simp add: get_post_pow_votes v)
  have "distinct (map fst (votes ?b))" by (simp add: v)
  with vote_strengths_follow_work[OF run] live have "length xs = 256"
    "\<forall>ty. xs ! unat ty = (let p = get_post_pow_for_feedback_type ?b Id_zero ty in
        if p < 14 then 0 else if p < 64 then 2 ^ (unat p - 14) else 2 ^ 50 - 1)" by auto
  then have "length xs = 256" "xs ! 3 = 64" using p by (auto simp: Let_def dest!: spec[of _ 3])
  then show ?thesis using run by blast
qed


end
