(* ===== verification/PowGenerator.thy ===== *)
theory PowGenerator
  imports Identity Estimators "HOL-Library.AList"
begin

text \<open>
  The search for proofs of work: \<open>tools/pow_generator/pow_generator.rs\<close> (the registry of jobs, one chunk of attempts, the dispatcher
  over a pool of slots) and its three backends \<open>native_parallel_pow_generator.rs\<close>, \<open>single_threaded_pow_generator.rs\<close> and
  \<open>wasm_parallel_pow_generator.rs\<close>. The dispatcher is a step relation: which chunk in flight completes next, what the other jobs
  do to the shared registry and what time it is are not determined. What the dispatcher relies on is a locale.
\<close>

section \<open>The registry of jobs\<close>

record job_entry =
  je_label :: string
  je_pow_min :: pow
  je_best_pow_so_far :: pow

text \<open>The numbers of jobs do not run out.\<close>

record job_tracker =
  jt_next_id :: nat
  jt_jobs :: "(nat \<times> job_entry) list"
  jt_last_work_time_millis :: time_millis

definition JobTracker_default :: job_tracker where
  "JobTracker_default = \<lparr>jt_next_id = 0, jt_jobs = [], jt_last_work_time_millis = 0\<rparr>"

definition job_add :: "string \<Rightarrow> pow \<Rightarrow> job_tracker \<Rightarrow> nat \<times> job_tracker" where
  "job_add label pow_min t = (jt_next_id t, t\<lparr>jt_next_id := jt_next_id t + 1,
     jt_jobs := AList.update (jt_next_id t) \<lparr>je_label = label, je_pow_min = pow_min, je_best_pow_so_far = 0\<rparr> (jt_jobs t)\<rparr>)"

definition job_update :: "nat \<Rightarrow> pow \<Rightarrow> job_tracker \<Rightarrow> job_tracker" where
  "job_update job best t = t\<lparr>jt_jobs := AList.map_entry job (\<lambda>e. e\<lparr>je_best_pow_so_far := best\<rparr>) (jt_jobs t)\<rparr>"

definition job_remove :: "nat \<Rightarrow> job_tracker \<Rightarrow> job_tracker" where
  "job_remove job t = t\<lparr>jt_jobs := AList.delete job (jt_jobs t)\<rparr>"

definition job_mark_work :: "time_millis \<Rightarrow> job_tracker \<Rightarrow> job_tracker" where
  "job_mark_work now t = t\<lparr>jt_last_work_time_millis := now\<rparr>"

definition job_is_busy :: "time_millis \<Rightarrow> duration_millis \<Rightarrow> job_tracker \<Rightarrow> bool" where
  "job_is_busy now window t \<longleftrightarrow> jt_jobs t \<noteq> []
     \<or> jt_last_work_time_millis t \<noteq> 0 \<and> now - jt_last_work_time_millis t \<le> window"

text \<open>A status has the fields of an entry.\<close>

type_synonym pow_job_status = job_entry

definition job_snapshot :: "job_tracker \<Rightarrow> pow_job_status list" where
  "job_snapshot t = map snd (jt_jobs t)"

text \<open>The guard of a job: registered when made, removed when dropped, however the search ends.\<close>

definition guard_new :: "time_millis \<Rightarrow> string \<Rightarrow> pow \<Rightarrow> job_tracker \<Rightarrow> nat \<times> job_tracker" where
  "guard_new now label pow_min t = (case job_add label pow_min t of (job, t') \<Rightarrow> (job, job_mark_work now t'))"

definition guard_drop :: "time_millis \<Rightarrow> nat \<Rightarrow> job_tracker \<Rightarrow> job_tracker" where
  "guard_drop now job t = job_mark_work now (job_remove job t)"


section \<open>One chunk\<close>

type_synonym found = "salt \<times> pow \<times> hash"

abbreviation found_pow :: "found \<Rightarrow> pow" where "found_pow b \<equiv> fst (snd b)"

fun chunk_loop :: "crypto \<Rightarrow> pow \<Rightarrow> hash \<Rightarrow> (nat \<Rightarrow> salt) \<Rightarrow> nat list \<Rightarrow> found \<Rightarrow> found res" where
  "chunk_loop C pow_min data_hash salts [] best = Inr best"
| "chunk_loop C pow_min data_hash salts (i # is) best =
     rbind (pow_measure_from_data_hash C data_hash (salts i)) (\<lambda>(p, h).
       if p > found_pow best then (if p \<ge> pow_min then Inr (salts i, p, h) else chunk_loop C pow_min data_hash salts is (salts i, p, h))
       else chunk_loop C pow_min data_hash salts is best)"

text \<open>The random salts, in the order drawn, are an argument.\<close>

definition run_pool_chunk :: "crypto \<Rightarrow> nat \<Rightarrow> pow \<Rightarrow> hash \<Rightarrow> (nat \<Rightarrow> salt) \<Rightarrow> found res" where
  "run_pool_chunk C chunk_iterations pow_min data_hash salts =
     rbind (pow_measure_from_data_hash C data_hash (salts 0)) (\<lambda>(p, h).
       if p \<ge> pow_min then Inr (salts 0, p, h)
       else chunk_loop C pow_min data_hash salts [1..<chunk_iterations] (salts 0, p, h))"


section \<open>The backends\<close>

text \<open>What a slot may answer for a chunk: slot, iterations, minimum, data hash.\<close>

type_synonym chunk_results = "nat \<Rightarrow> nat \<Rightarrow> pow \<Rightarrow> hash \<Rightarrow> found res \<Rightarrow> bool"

inductive single_chunk :: "crypto \<Rightarrow> chunk_results" for C where
  "\<forall>i. wf_salt (salts i) \<Longrightarrow> single_chunk C slot n pow_min data_hash (run_pool_chunk C n pow_min data_hash salts)"

text \<open>The task of the native backend runs on its own thread: a panic there is an error here.\<close>

definition join_task :: "'a res \<Rightarrow> 'a res" where
  "join_task r = (case r of Inl (Panic m) \<Rightarrow> Inl (Bail ''task panicked'') | _ \<Rightarrow> r)"

inductive native_chunk :: "crypto \<Rightarrow> chunk_results" for C where
  "\<forall>i. wf_salt (salts i) \<Longrightarrow> native_chunk C slot n pow_min data_hash (join_task (run_pool_chunk C n pow_min data_hash salts))"

definition native_pool_size :: "nat option \<Rightarrow> nat" where
  "native_pool_size available_parallelism = (case available_parallelism of None \<Rightarrow> 1 | Some n \<Rightarrow> n)"

definition single_pool_size :: nat where "single_pool_size = 1"

text \<open>The entry point of a web worker, \<open>pow_compute_batch\<close> of the wasm crate: the best find as text.\<close>

definition pow_compute_batch :: "(bytes \<Rightarrow> string) \<Rightarrow> (string \<Rightarrow> bytes option) \<Rightarrow> crypto \<Rightarrow> nat \<Rightarrow> byte \<Rightarrow> string \<Rightarrow> (nat \<Rightarrow> salt) \<Rightarrow> string res" where
  "pow_compute_batch hex_encode hex_decode C iteration_limit pow_min data_hash_hex salts =
     rbind (of_option ''Invalid data_hash_hex'' (hex_decode data_hash_hex)) (\<lambda>bs.
     rbind (Hash_from_slice bs) (\<lambda>data_hash.
     rbind (run_pool_chunk C iteration_limit pow_min data_hash salts) (\<lambda>(s, p, h).
       Inr (hex_encode (salt_bytes s) @ '':'' @ show_nat (unat p) @ '':'' @ hex_encode (hash_bytes h)))))"

definition parse_batch_result :: "(string \<Rightarrow> bytes option) \<Rightarrow> string \<Rightarrow> found option" where
  "parse_batch_result hex_decode result =
     (case splitn_on 3 (CHR '':'') result of
        [salt_hex, pow_text, hash_hex] \<Rightarrow>
          Option.bind (hex_decode salt_hex) (\<lambda>salt_bs.
          Option.bind (case parse_int 0 255 pow_text of Inl e \<Rightarrow> None | Inr v \<Rightarrow> Some v) (\<lambda>p.
          Option.bind (hex_decode hash_hex) (\<lambda>hash_bs.
          case (Salt_from_slice salt_bs, Hash_from_slice hash_bs) of
            (Inr s, Inr h) \<Rightarrow> Some (s, word_of_int p, h)
          | _ \<Rightarrow> None)))
      | _ \<Rightarrow> None)"

text \<open>The browser's backend posts the chunk to the worker of the slot and reads the answer; its other ends are errors.\<close>

inductive wasm_chunk :: "(bytes \<Rightarrow> string) \<Rightarrow> (string \<Rightarrow> bytes option) \<Rightarrow> nat \<Rightarrow> crypto \<Rightarrow> chunk_results" for hex_encode hex_decode workers C where
  no_worker: "workers \<le> slot \<Longrightarrow> wasm_chunk hex_encode hex_decode workers C slot n pow_min data_hash (Inl (Bail m))"
| worker_error: "slot < workers \<Longrightarrow> wasm_chunk hex_encode hex_decode workers C slot n pow_min data_hash (Inl (Bail m))"
| reply: "slot < workers \<Longrightarrow> \<forall>i. wf_salt (salts i)
    \<Longrightarrow> pow_compute_batch hex_encode hex_decode C n pow_min (hex_encode (hash_bytes data_hash)) salts = Inr result
    \<Longrightarrow> wasm_chunk hex_encode hex_decode workers C slot n pow_min data_hash
          (of_option ''Invalid pow_compute_batch result format'' (parse_batch_result hex_decode result))"


section \<open>The dispatcher\<close>

definition CHUNK_ITERATIONS :: nat where "CHUNK_ITERATIONS = 4 * 1024"

definition pick_next_chunk_size :: "nat option \<Rightarrow> nat \<times> nat option" where
  "pick_next_chunk_size remaining = (case remaining of
     None \<Rightarrow> (CHUNK_ITERATIONS, None)
   | Some n \<Rightarrow> if n = 0 then (0, Some 0) else let chunk_size = min n CHUNK_ITERATIONS in (chunk_size, Some (n - chunk_size)))"

record pool_run =
  pl_best :: found
  pl_remaining_iterations :: "nat option"
  pl_in_flight :: "(nat \<times> nat) list"
  pl_tracker :: job_tracker
  pl_estimator :: pow_required_estimator

datatype pool_state = Searching pool_run | Returned "found res" job_tracker

fun fill_slots :: "nat list \<Rightarrow> nat option \<Rightarrow> (nat \<times> nat) list \<times> nat option" where
  "fill_slots [] remaining = ([], remaining)"
| "fill_slots (slot # slots) remaining =
     (case pick_next_chunk_size remaining of (chunk_size, remaining') \<Rightarrow>
        if chunk_size = 0 then ([], remaining')
        else (case fill_slots slots remaining' of (in_flight, remaining'') \<Rightarrow> ((slot, chunk_size) # in_flight, remaining'')))"

text \<open>Up to the first wait: the guard, the seed sample, the initial fill. The clock is read at each place.\<close>

definition run_pool_start :: "crypto \<Rightarrow> nat \<Rightarrow> string \<Rightarrow> nat option \<Rightarrow> pow \<Rightarrow> hash \<Rightarrow> salt \<Rightarrow> time_millis \<Rightarrow> job_tracker \<Rightarrow> nat \<times> pool_state" where
  "run_pool_start C pool_size label cap pow_min data_hash seed_salt now t0 =
     (case guard_new now label pow_min t0 of (job, t1) \<Rightarrow>
        (job, case pow_measure_from_data_hash C data_hash seed_salt of
           Inl e \<Rightarrow> Returned (Inl e) (guard_drop now job t1)
         | Inr (p, h) \<Rightarrow>
             let best = (seed_salt, p, h); t2 = job_update job p t1 in
             if p \<ge> pow_min then Returned (Inr best) (guard_drop now job t2)
             else (case fill_slots [0..<max pool_size 1] cap of (in_flight, remaining) \<Rightarrow>
               Searching \<lparr>pl_best = best, pl_remaining_iterations = remaining, pl_in_flight = in_flight, pl_tracker = t2,
                 pl_estimator = pe_new now label pow_min\<rparr>)))"

text \<open>One chunk has completed: the body of the loop.\<close>

definition pool_completion :: "nat \<Rightarrow> pow \<Rightarrow> time_millis \<Rightarrow> nat \<times> nat \<Rightarrow> found res \<Rightarrow> pool_run \<Rightarrow> pool_state" where
  "pool_completion job pow_min now chunk chunk_result st = (case chunk_result of
     Inl e \<Rightarrow> Returned (Inl e) (guard_drop now job (pl_tracker st))
   | Inr chunk_best \<Rightarrow>
       (case (if found_pow chunk_best > found_pow (pl_best st) then (chunk_best, job_update job (found_pow chunk_best) (pl_tracker st))
              else (pl_best st, pl_tracker st)) of (best, t) \<Rightarrow>
        if found_pow best \<ge> pow_min then Returned (Inr best) (guard_drop now job t)
        else (case pick_next_chunk_size (pl_remaining_iterations st) of (next_chunk_size, remaining) \<Rightarrow>
          Searching \<lparr>pl_best = best, pl_remaining_iterations = remaining,
            pl_in_flight = remove1 chunk (pl_in_flight st) @ (if next_chunk_size = 0 then [] else [(fst chunk, next_chunk_size)]),
            pl_tracker = t, pl_estimator = snd (pe_record_batch now (snd chunk) (found_pow best) (pl_estimator st))\<rparr>)))"

text \<open>What the other jobs of the generator may have done to the registry meanwhile.\<close>

definition other_jobs_ran :: "nat \<Rightarrow> job_tracker \<Rightarrow> job_tracker \<Rightarrow> bool" where
  "other_jobs_ran job t t' \<longleftrightarrow> map_of (jt_jobs t') job = map_of (jt_jobs t) job \<and> jt_next_id t \<le> jt_next_id t'"

inductive pool_step :: "chunk_results \<Rightarrow> nat \<Rightarrow> pow \<Rightarrow> hash \<Rightarrow> pool_state \<Rightarrow> pool_state \<Rightarrow> bool" for results job pow_min data_hash where
  completed: "(slot, chunk_size) \<in> set (pl_in_flight st) \<Longrightarrow> results slot chunk_size pow_min data_hash r
    \<Longrightarrow> other_jobs_ran job (pl_tracker st) t
    \<Longrightarrow> pool_step results job pow_min data_hash (Searching st) (pool_completion job pow_min now (slot, chunk_size) r (st\<lparr>pl_tracker := t\<rparr>))"
| drained: "pl_in_flight st = [] \<Longrightarrow> other_jobs_ran job (pl_tracker st) t
    \<Longrightarrow> pool_step results job pow_min data_hash (Searching st) (Returned (Inr (pl_best st)) (guard_drop now job t))"

inductive_cases pool_stepE: "pool_step results job pow_min data_hash (Searching st) x"
inductive_simps returned_is_final: "pool_step results job pow_min data_hash (Returned r t) x"

text \<open>A search: the states it can be in, with the number of steps taken.\<close>

inductive pool_reaches :: "crypto \<Rightarrow> chunk_results \<Rightarrow> nat \<Rightarrow> nat option \<Rightarrow> pow \<Rightarrow> hash \<Rightarrow> nat \<Rightarrow> nat \<Rightarrow> pool_state \<Rightarrow> bool"
  for C results pool_size cap pow_min data_hash where
  begins: "run_pool_start C pool_size label cap pow_min data_hash seed now t0 = (job, x) \<Longrightarrow> wf_salt seed
    \<Longrightarrow> pool_reaches C results pool_size cap pow_min data_hash job 0 x"
| goes_on: "pool_reaches C results pool_size cap pow_min data_hash job n x \<Longrightarrow> pool_step results job pow_min data_hash x y
    \<Longrightarrow> pool_reaches C results pool_size cap pow_min data_hash job (Suc n) y"

text \<open>The two calls of the trait.\<close>

abbreviation generate_best_effort_reaches :: "crypto \<Rightarrow> chunk_results \<Rightarrow> nat \<Rightarrow> nat \<Rightarrow> pow \<Rightarrow> hash \<Rightarrow> nat \<Rightarrow> nat \<Rightarrow> pool_state \<Rightarrow> bool" where
  "generate_best_effort_reaches C results pool_size iteration_limit \<equiv> pool_reaches C results pool_size (Some iteration_limit)"

abbreviation generate_reaches :: "crypto \<Rightarrow> chunk_results \<Rightarrow> nat \<Rightarrow> pow \<Rightarrow> hash \<Rightarrow> nat \<Rightarrow> nat \<Rightarrow> pool_state \<Rightarrow> bool" where
  "generate_reaches C results pool_size \<equiv> pool_reaches C results pool_size None"



section \<open>A chunk finds the best of its samples\<close>

definition found_ok :: "crypto \<Rightarrow> hash \<Rightarrow> found \<Rightarrow> bool" where
  "found_ok C data_hash b \<longleftrightarrow> pow_measure_from_data_hash C data_hash (fst b) = Inr (snd b)"

lemma chunk_loop_finds:
  assumes "found_ok C dh best" "found_pow best < pm" "chunk_loop C pm dh salts is best = Inr b"
  shows "found_ok C dh b \<and> found_pow best \<le> found_pow b \<and> (pm \<le> found_pow b
    \<or> (\<forall>i \<in> set is. \<exists>p h. pow_measure_from_data_hash C dh (salts i) = Inr (p, h) \<and> p \<le> found_pow b))"
  using assms
proof (induction "is" arbitrary: best)
  case (Cons i "is")
  obtain p h where m: "pow_measure_from_data_hash C dh (salts i) = Inr (p, h)" using Cons.prems(3) by auto
  show ?case
  proof (cases "found_pow best < p \<and> pm \<le> p")
    case True
    then show ?thesis using Cons.prems m by (auto simp: found_ok_def)
  next
    case False
    let ?b = "if found_pow best < p then (salts i, p, h) else best"
    have "found_ok C dh ?b" "found_pow ?b < pm" using Cons.prems(1,2) m False by (auto simp: found_ok_def)
    moreover have "chunk_loop C pm dh salts is ?b = Inr b" using Cons.prems(3) m False by (auto split: if_splits)
    ultimately have IH: "found_ok C dh b" "found_pow ?b \<le> found_pow b" "pm \<le> found_pow b
        \<or> (\<forall>i \<in> set is. \<exists>p h. pow_measure_from_data_hash C dh (salts i) = Inr (p, h) \<and> p \<le> found_pow b)"
      using Cons.IH[of ?b] by blast+
    have "found_pow best \<le> found_pow b" "p \<le> found_pow b" using IH(2) by (auto split: if_splits)
    then show ?thesis using IH m by auto
  qed
qed simp

lemma run_pool_chunk_finds:
  assumes "run_pool_chunk C n pm dh salts = Inr b"
  shows "found_ok C dh b \<and> (pm \<le> found_pow b
    \<or> (\<forall>i < max n 1. \<exists>p h. pow_measure_from_data_hash C dh (salts i) = Inr (p, h) \<and> p \<le> found_pow b))"
proof -
  obtain p h where m: "pow_measure_from_data_hash C dh (salts 0) = Inr (p, h)" using assms by (auto simp: run_pool_chunk_def)
  show ?thesis
  proof (cases "pm \<le> p")
    case True
    then show ?thesis using assms m by (auto simp: run_pool_chunk_def found_ok_def)
  next
    case False
    have "chunk_loop C pm dh salts [1..<n] (salts 0, p, h) = Inr b" using assms m False by (simp add: run_pool_chunk_def)
    from chunk_loop_finds[OF _ _ this] m False
    have b: "found_ok C dh b" "p \<le> found_pow b" "pm \<le> found_pow b
        \<or> (\<forall>i \<in> {1..<n}. \<exists>p h. pow_measure_from_data_hash C dh (salts i) = Inr (p, h) \<and> p \<le> found_pow b)"
      by (auto simp: found_ok_def)
    moreover have "\<exists>p h. pow_measure_from_data_hash C dh (salts i) = Inr (p, h) \<and> p \<le> found_pow b"
      if "i < max n 1" "\<forall>i \<in> {1..<n}. \<exists>p h. pow_measure_from_data_hash C dh (salts i) = Inr (p, h) \<and> p \<le> found_pow b" for i
      using that m b(2) by (cases "i = 0") auto
    ultimately show ?thesis by blast
  qed
qed

lemma run_pool_chunk_total:
  assumes "crypto_ok C"
  shows "\<exists>b. run_pool_chunk C n pm dh salts = Inr b"
proof -
  have m: "\<exists>p h. pow_measure_from_data_hash C dh s = Inr (p, h)" for s
    using chain_rounds_total[OF assms wf_hashing(2)[OF assms]] by (fastforce simp: pow_measure_from_data_hash_def clz_spec)
  have "\<exists>b'. chunk_loop C pm dh salts is b = Inr b'" for "is" b
    by (induction "is" arbitrary: b) (use m in \<open>auto, metis\<close>)
  note loop = this
  obtain p h where "pow_measure_from_data_hash C dh (salts 0) = Inr (p, h)" using m by blast
  then show ?thesis using loop[of "[1..<n]" "(salts 0, p, h)"] by (simp add: run_pool_chunk_def)
qed


section \<open>What the dispatcher relies on\<close>

locale pow_backend =
  fixes C :: crypto and results :: chunk_results
  assumes measured: "results slot n pm dh (Inr b) \<Longrightarrow> found_ok C dh b"

interpretation single: pow_backend C "single_chunk C" for C
  by unfold_locales (metis run_pool_chunk_finds single_chunk.cases)

lemma join_task_Inr [simp]: "join_task r = Inr b \<longleftrightarrow> r = Inr b"
  by (auto simp: join_task_def split: sum.splits err.splits)

interpretation native: pow_backend C "native_chunk C" for C
  by unfold_locales (metis join_task_Inr run_pool_chunk_finds native_chunk.cases)


section \<open>The invariant of a search\<close>

definition jobs_iterations :: "(nat \<times> nat) list \<Rightarrow> nat" where
  "jobs_iterations in_flight = sum_list (map snd in_flight)"

text \<open>How many iterations are yet to be handed out, are being made, and have been made.\<close>

definition work_accounted :: "nat \<Rightarrow> nat option \<Rightarrow> pool_run \<Rightarrow> bool" where
  "work_accounted slots cap st \<longleftrightarrow> (case cap of
     None \<Rightarrow> pl_remaining_iterations st = None \<and> length (pl_in_flight st) = slots
   | Some limit \<Rightarrow> (\<exists>k. pl_remaining_iterations st = Some k
       \<and> k + jobs_iterations (pl_in_flight st) + pe_total_iterations (pl_estimator st) = limit
       \<and> (0 < k \<longrightarrow> length (pl_in_flight st) = slots)))"

definition slots_ok :: "nat \<Rightarrow> (nat \<times> nat) list \<Rightarrow> bool" where
  "slots_ok slots in_flight \<longleftrightarrow> distinct (map fst in_flight) \<and> fst ` set in_flight \<subseteq> {..<slots}
     \<and> (\<forall>(slot, n) \<in> set in_flight. 0 < n \<and> n \<le> CHUNK_ITERATIONS)"

definition job_shown :: "nat \<Rightarrow> pow \<Rightarrow> pow \<Rightarrow> job_tracker \<Rightarrow> bool" where
  "job_shown job pow_min best t \<longleftrightarrow> (\<exists>e. map_of (jt_jobs t) job = Some e \<and> je_pow_min e = pow_min \<and> je_best_pow_so_far e = best)"

definition pool_inv :: "crypto \<Rightarrow> nat \<Rightarrow> nat option \<Rightarrow> pow \<Rightarrow> hash \<Rightarrow> nat \<Rightarrow> pool_run \<Rightarrow> bool" where
  "pool_inv C pool_size cap pow_min data_hash job st \<longleftrightarrow> found_ok C data_hash (pl_best st) \<and> found_pow (pl_best st) < pow_min
     \<and> slots_ok (max pool_size 1) (pl_in_flight st) \<and> work_accounted (max pool_size 1) cap st
     \<and> job_shown job pow_min (found_pow (pl_best st)) (pl_tracker st)"

text \<open>What a search may return: a true measure that meets the minimum, or, when it was bounded, the best there was.\<close>

definition return_ok :: "crypto \<Rightarrow> nat option \<Rightarrow> pow \<Rightarrow> hash \<Rightarrow> nat \<Rightarrow> found res \<Rightarrow> job_tracker \<Rightarrow> bool" where
  "return_ok C cap pow_min data_hash job r t \<longleftrightarrow> map_of (jt_jobs t) job = None
     \<and> (\<forall>b. r = Inr b \<longrightarrow> found_ok C data_hash b \<and> (pow_min \<le> found_pow b \<or> cap \<noteq> None))"

lemma pick_next_chunk_size_cases:
  assumes "pick_next_chunk_size remaining = (n, remaining')"
  shows "n \<le> CHUNK_ITERATIONS" "(remaining' = None) = (remaining = None)" "remaining = None \<Longrightarrow> n = CHUNK_ITERATIONS"
    "remaining = Some k \<Longrightarrow> remaining' = Some (k - n) \<and> n \<le> k \<and> (n = 0 \<longleftrightarrow> k = 0)"
  using assms by (auto simp: pick_next_chunk_size_def Let_def CHUNK_ITERATIONS_def split: option.splits if_splits)

lemma fill_slots_ok:
  assumes "fill_slots slots remaining = (in_flight, remaining')" "distinct slots"
  shows "distinct (map fst in_flight)" "fst ` set in_flight \<subseteq> set slots"
    "\<forall>(slot, n) \<in> set in_flight. 0 < n \<and> n \<le> CHUNK_ITERATIONS"
    "remaining = None \<Longrightarrow> remaining' = None \<and> length in_flight = length slots"
    "remaining = Some k \<Longrightarrow> \<exists>k'. remaining' = Some k' \<and> k' + jobs_iterations in_flight = k \<and> (0 < k' \<longrightarrow> length in_flight = length slots)"
proof -
  have "distinct (map fst in_flight) \<and> fst ` set in_flight \<subseteq> set slots
    \<and> (\<forall>(slot, n) \<in> set in_flight. 0 < n \<and> n \<le> CHUNK_ITERATIONS)
    \<and> (remaining = None \<longrightarrow> remaining' = None \<and> length in_flight = length slots)
    \<and> (\<forall>k. remaining = Some k \<longrightarrow> (\<exists>k'. remaining' = Some k' \<and> k' + jobs_iterations in_flight = k
          \<and> (0 < k' \<longrightarrow> length in_flight = length slots)))"
    using assms
  proof (induction slots remaining arbitrary: in_flight remaining' rule: fill_slots.induct)
    case (1 remaining)
    then show ?case by (auto simp: jobs_iterations_def)
  next
    case (2 slot slots remaining)
    obtain n r where n: "pick_next_chunk_size remaining = (n, r)" by fastforce
    note c = pick_next_chunk_size_cases[OF n]
    show ?case
    proof (cases "n = 0")
      case True
      then have "in_flight = []" "remaining' = r" using 2(2) n by simp_all
      moreover obtain k where "remaining = Some k" using True c(3) by (cases remaining) (auto simp: CHUNK_ITERATIONS_def)
      ultimately show ?thesis using True c(4) by (simp add: jobs_iterations_def)
    next
      case False
      obtain f r' where f: "fill_slots slots r = (f, r')" by fastforce
      have eq: "in_flight = (slot, n) # f" "remaining' = r'" using 2(2) n False f by simp_all
      note IH = 2(1)[OF n[symmetric] False f]
      have IH': "distinct (map fst f)" "fst ` set f \<subseteq> set slots" "\<forall>(slot, n) \<in> set f. 0 < n \<and> n \<le> CHUNK_ITERATIONS"
        "r = None \<longrightarrow> r' = None \<and> length f = length slots"
        "\<forall>k. r = Some k \<longrightarrow> (\<exists>k'. r' = Some k' \<and> k' + jobs_iterations f = k \<and> (0 < k' \<longrightarrow> length f = length slots))"
        using IH 2(3) by simp_all
      have "slot \<notin> fst ` set f" using IH'(2) 2(3) by auto
      moreover have "\<exists>k'. r' = Some k' \<and> k' + jobs_iterations ((slot, n) # f) = k \<and> (0 < k' \<longrightarrow> length f = length slots)"
        if "remaining = Some k" for k
      proof -
        have "r = Some (k - n)" "n \<le> k" using c(4)[OF that] by simp_all
        then show ?thesis using IH'(5) by (auto simp: jobs_iterations_def)
      qed
      ultimately show ?thesis using eq IH'(1-4) c(1,2) False by auto
    qed
  qed
  then show "distinct (map fst in_flight)" "fst ` set in_flight \<subseteq> set slots"
    "\<forall>(slot, n) \<in> set in_flight. 0 < n \<and> n \<le> CHUNK_ITERATIONS"
    "remaining = None \<Longrightarrow> remaining' = None \<and> length in_flight = length slots"
    "remaining = Some k \<Longrightarrow> \<exists>k'. remaining' = Some k' \<and> k' + jobs_iterations in_flight = k \<and> (0 < k' \<longrightarrow> length in_flight = length slots)"
    by blast+
qed



section \<open>Every step keeps the invariant\<close>

lemma map_of_map_entry: "map_of (AList.map_entry k f xs) j = (if j = k then map_option f (map_of xs k) else map_of xs j)"
  by (induction xs) auto

lemma tracker_lookups:
  "map_of (jt_jobs (job_update job best t)) j = (if j = job then map_option (\<lambda>e. e\<lparr>je_best_pow_so_far := best\<rparr>) (map_of (jt_jobs t) job)
     else map_of (jt_jobs t) j)"
  "map_of (jt_jobs (guard_drop now job t)) j = (if j = job then None else map_of (jt_jobs t) j)"
  by (simp_all add: job_update_def map_of_map_entry guard_drop_def job_mark_work_def job_remove_def delete_conv')

lemma guard_new_shows:
  assumes "guard_new now label pm t = (job, t')"
  shows "job_shown job pm 0 t'" "job = jt_next_id t" "j \<noteq> job \<Longrightarrow> map_of (jt_jobs t') j = map_of (jt_jobs t) j"
  using assms by (auto simp: guard_new_def job_add_def job_mark_work_def job_shown_def update_conv')

lemma job_shown_update: "job_shown job pm b t \<Longrightarrow> job_shown job pm best (job_update job best t)"
  by (auto simp: job_shown_def tracker_lookups)

lemma job_shown_others: "other_jobs_ran job t t' \<Longrightarrow> job_shown job pm b t' = job_shown job pm b t"
  by (simp add: job_shown_def other_jobs_ran_def)

lemma start_keeps:
  assumes "run_pool_start C ps label cap pm dh seed now t0 = (job, x)"
  shows "(\<forall>st. x = Searching st \<longrightarrow> pool_inv C ps cap pm dh job st \<and> pe_total_iterations (pl_estimator st) = 0)
    \<and> (\<forall>r t. x = Returned r t \<longrightarrow> return_ok C cap pm dh job r t)"
proof -
  obtain t1 where g: "guard_new now label pm t0 = (job, t1)" using assms by (auto simp: run_pool_start_def Let_def split: prod.splits)
  show ?thesis
  proof (cases "pow_measure_from_data_hash C dh seed")
    case (Inl e)
    then show ?thesis using assms g by (auto simp: run_pool_start_def return_ok_def tracker_lookups)
  next
    case (Inr ph)
    obtain p h where ph: "ph = (p, h)" by fastforce
    have f: "found_ok C dh (seed, p, h)" using Inr ph by (simp add: found_ok_def)
    show ?thesis
    proof (cases "pm \<le> p")
      case True
      then show ?thesis using assms g Inr ph f by (auto simp: run_pool_start_def return_ok_def tracker_lookups Let_def)
    next
      case False
      obtain fl r where fl: "fill_slots [0..<max ps 1] cap = (fl, r)" by fastforce
      note fill = fill_slots_ok[OF fl distinct_upt]
      have "x = Searching \<lparr>pl_best = (seed, p, h), pl_remaining_iterations = r, pl_in_flight = fl, pl_tracker = job_update job p t1,
          pl_estimator = pe_new now label pm\<rparr>"
        using assms g Inr ph False fl by (simp add: run_pool_start_def Let_def)
      moreover have "work_accounted (max ps 1) cap \<lparr>pl_best = (seed, p, h), pl_remaining_iterations = r, pl_in_flight = fl,
          pl_tracker = job_update job p t1, pl_estimator = pe_new now label pm\<rparr>"
        using fill(4,5) by (cases cap) (auto simp: work_accounted_def pe_new_def)
      moreover have "slots_ok (max ps 1) fl" using fill(1-3) by (auto simp: slots_ok_def)
      moreover have "job_shown job pm p (job_update job p t1)" by (rule job_shown_update[OF guard_new_shows(1)[OF g]])
      ultimately show ?thesis using False f by (auto simp: pool_inv_def pe_new_def)
    qed
  qed
qed

lemma total_iterations_recorded:
  "pe_total_iterations (snd (pe_record_batch now n b e)) = pe_total_iterations e + n"
  by (simp add: pe_record_batch_def Let_def)

lemma slots_after_completion:
  assumes "slots_ok k fl" "(slot, n) \<in> set fl" "m \<le> CHUNK_ITERATIONS"
  defines "fl' \<equiv> remove1 (slot, n) fl @ (if m = 0 then [] else [(slot, m)])"
  shows "slots_ok k fl'" "jobs_iterations fl' + n = jobs_iterations fl + m"
    "length fl' = (if m = 0 then length fl - 1 else length fl)"
proof -
  have d: "distinct (map fst fl)" and sub: "fst ` set fl \<subseteq> {..<k}" and sz: "\<forall>(slot, n) \<in> set fl. 0 < n \<and> n \<le> CHUNK_ITERATIONS"
    using assms(1) by (simp_all add: slots_ok_def)
  have dfl: "distinct fl" using d by (simp add: distinct_map)
  have "slot \<notin> fst ` set (remove1 (slot, n) fl)"
    using eq_key_imp_eq_value[OF d assms(2)] dfl by auto
  moreover have "distinct (map fst (remove1 (slot, n) fl))"
    using d set_remove1_subset[of "(slot, n)" fl] by (auto simp: distinct_map distinct_remove1 intro: inj_on_subset)
  moreover have "fst ` set fl' \<subseteq> {..<k}" using sub assms(2) set_remove1_subset[of "(slot, n)" fl]
    by (auto simp: fl'_def split: if_splits)
  moreover have "\<forall>(slot, n) \<in> set fl'. 0 < n \<and> n \<le> CHUNK_ITERATIONS" using sz assms(3) set_remove1_subset[of "(slot, n)" fl]
    by (fastforce simp: fl'_def split: if_splits)
  ultimately show "slots_ok k fl'" by (auto simp: slots_ok_def fl'_def)
  have "sum_list (map snd fl) = n + sum_list (map snd (remove1 (slot, n) fl))"
    using sum_list_map_remove1[OF assms(2), of snd] by simp
  then show "jobs_iterations fl' + n = jobs_iterations fl + m" by (simp add: jobs_iterations_def fl'_def)
  have "0 < length fl" using assms(2) by (cases fl) auto
  then show "length fl' = (if m = 0 then length fl - 1 else length fl)" using assms(2) by (simp add: fl'_def length_remove1)
qed

context pow_backend
begin

lemma step_keeps:
  assumes "pool_inv C ps cap pm dh job st" "pool_step results job pm dh (Searching st) x"
  shows "(\<forall>st'. x = Searching st' \<longrightarrow> pool_inv C ps cap pm dh job st'
      \<and> pe_total_iterations (pl_estimator st) < pe_total_iterations (pl_estimator st'))
    \<and> (\<forall>r t. x = Returned r t \<longrightarrow> return_ok C cap pm dh job r t)"
proof -
  consider (completed) slot n r t now where "x = pool_completion job pm now (slot, n) r (st\<lparr>pl_tracker := t\<rparr>)"
      "(slot, n) \<in> set (pl_in_flight st)" "results slot n pm dh r" "other_jobs_ran job (pl_tracker st) t"
    | (drained) t now where "x = Returned (Inr (pl_best st)) (guard_drop now job t)" "pl_in_flight st = []"
    using assms(2) by (elim pool_stepE) blast+
  then show ?thesis
  proof cases
  case drained
  have "cap \<noteq> None" using assms(1) drained(2) by (auto simp: pool_inv_def work_accounted_def split: option.splits)
  then show ?thesis using assms(1) drained by (auto simp: return_ok_def tracker_lookups pool_inv_def)
next
  case completed
  show ?thesis
  proof (cases r)
    case (Inl e)
    then show ?thesis using completed by (auto simp: pool_completion_def return_ok_def tracker_lookups)
  next
    case (Inr b)
    have inv: "found_ok C dh (pl_best st)" "found_pow (pl_best st) < pm" "slots_ok (max ps 1) (pl_in_flight st)"
      "work_accounted (max ps 1) cap st" "job_shown job pm (found_pow (pl_best st)) t"
      using assms(1) job_shown_others[OF completed(4)] by (auto simp: pool_inv_def)
    have b: "found_ok C dh b" using measured completed(3) Inr by blast
    obtain best t' where bt: "(if found_pow b > found_pow (pl_best st) then (b, job_update job (found_pow b) t) else (pl_best st, t)) = (best, t')"
      by fastforce
    have best: "found_ok C dh best" "job_shown job pm (found_pow best) t'"
      using bt inv(1,5) b job_shown_update by (auto split: if_splits)
    show ?thesis
    proof (cases "pm \<le> found_pow best")
      case True
      then have "x = Returned (Inr best) (guard_drop now job t')" using completed(1) Inr bt by (simp add: pool_completion_def cong: if_cong)
      then show ?thesis using True best(1) by (auto simp: return_ok_def tracker_lookups)
    next
      case False
      obtain m rem where m: "pick_next_chunk_size (pl_remaining_iterations st) = (m, rem)" by fastforce
      note pick = pick_next_chunk_size_cases[OF m]
      note sl = slots_after_completion[OF inv(3) completed(2) pick(1)]
      let ?est = "snd (pe_record_batch now n (found_pow best) (pl_estimator st))"
      let ?st' = "\<lparr>pl_best = best, pl_remaining_iterations = rem,
          pl_in_flight = remove1 (slot, n) (pl_in_flight st) @ (if m = 0 then [] else [(slot, m)]), pl_tracker = t', pl_estimator = ?est\<rparr>"
      have x: "x = Searching ?st'" using completed(1) Inr bt False m by (simp add: pool_completion_def cong: if_cong)
      have n: "0 < n" using inv(3) completed(2) by (auto simp: slots_ok_def)
      have "work_accounted (max ps 1) cap ?st'"
      proof (cases cap)
        case None
        then have "pl_remaining_iterations st = None" "length (pl_in_flight st) = max ps 1" using inv(4) by (simp_all add: work_accounted_def)
        then show ?thesis using None pick(2,3) sl(3) by (simp add: work_accounted_def CHUNK_ITERATIONS_def)
      next
        case (Some limit)
        then obtain k where k: "pl_remaining_iterations st = Some k"
            "k + jobs_iterations (pl_in_flight st) + pe_total_iterations (pl_estimator st) = limit" "0 < k \<longrightarrow> length (pl_in_flight st) = max ps 1"
          using inv(4) by (auto simp: work_accounted_def)
        have r: "rem = Some (k - m)" "m \<le> k" "m = 0 \<longleftrightarrow> k = 0" using pick(4)[OF k(1)] by simp_all
        then show ?thesis using Some k(2,3) sl(2,3) total_iterations_recorded[of now n "found_pow best" "pl_estimator st"]
          by (auto simp: work_accounted_def)
      qed
      then have "pool_inv C ps cap pm dh job ?st'" using best False sl(1) by (simp add: pool_inv_def)
      then show ?thesis using x n total_iterations_recorded[of now n "found_pow best" "pl_estimator st"] by simp
    qed
  qed
qed
qed

lemma reach_keeps:
  assumes "pool_reaches C results ps cap pm dh job n x"
  shows "(\<forall>st. x = Searching st \<longrightarrow> pool_inv C ps cap pm dh job st \<and> n \<le> pe_total_iterations (pl_estimator st))
    \<and> (\<forall>r t. x = Returned r t \<longrightarrow> return_ok C cap pm dh job r t)"
  using assms
proof induction
  case (begins label seed now t0 job x)
  then show ?case using start_keeps[OF begins(1)] by auto
next
  case (goes_on job n x y)
  obtain st where x: "x = Searching st" using goes_on.hyps(2) returned_is_final by (cases x) auto
  then have "pool_inv C ps cap pm dh job st" "n \<le> pe_total_iterations (pl_estimator st)" using goes_on.IH by simp_all
  then show ?case using step_keeps[of ps cap pm dh job st y] goes_on.hyps(2) x by fastforce
qed

end



section \<open>What a search promises\<close>

text \<open>C14: Whatever proof of work a search over the threads of the machine returns is real: the salt measures to the work and the hash it
  reports. An unbounded search returns only work that meets the minimum. Once it has returned, its job is gone from the registry.\<close>

theorem generated_pow_is_real:
  assumes "pool_reaches C (native_chunk C) pool_size cap pow_min data_hash job n (Returned r t)"
  shows "map_of (jt_jobs t) job = None
    \<and> (\<forall>s p h. r = Inr (s, p, h) \<longrightarrow> pow_measure_from_data_hash C data_hash s = Inr (p, h) \<and> (cap = None \<longrightarrow> pow_min \<le> p))"
  using native.reach_keeps[OF assms] by (auto simp: return_ok_def found_ok_def)

text \<open>What the rest of the model assumes of a search holds of every function that gives what unbounded searches return.\<close>

lemma generate_is_search:
  assumes "\<And>m dh s p h. gen m dh = Inr (s, p, h) \<Longrightarrow> \<exists>job n t. generate_reaches C (native_chunk C) pool_size m dh job n (Returned (Inr (s, p, h)) t)"
  shows "pow_search_ok C gen"
  unfolding pow_search_ok_def
proof (intro allI impI)
  fix m dh s p h assume "gen m dh = Inr (s, p, h)"
  then obtain job n t where "generate_reaches C (native_chunk C) pool_size m dh job n (Returned (Inr (s, p, h)) t)" using assms by blast
  from native.reach_keeps[OF this] show "pow_measure_from_data_hash C dh s = Inr (p, h) \<and> m \<le> p"
    by (auto simp: return_ok_def found_ok_def)
qed

text \<open>C15: While a search runs, no slot has two chunks, an unbounded search keeps every slot busy, and a bounded one neither loses nor
  repeats an iteration: what is yet to be handed out, what is in flight and what has been made add up to the bound, so that a
  search that has drained has made them all. The registry shows the job with the best work so far, below the minimum.\<close>

theorem search_accounts_for_iterations:
  assumes "pool_reaches C (native_chunk C) pool_size cap pow_min data_hash job n (Searching st)"
  shows "distinct (map fst (pl_in_flight st)) \<and> fst ` set (pl_in_flight st) \<subseteq> {..<max pool_size 1}
    \<and> (cap = None \<longrightarrow> length (pl_in_flight st) = max pool_size 1)
    \<and> (\<forall>limit. cap = Some limit \<longrightarrow> (\<exists>k. pl_remaining_iterations st = Some k
         \<and> k + sum_list (map snd (pl_in_flight st)) + pe_total_iterations (pl_estimator st) = limit
         \<and> (pl_in_flight st = [] \<longrightarrow> pe_total_iterations (pl_estimator st) = limit)))
    \<and> (\<exists>e. map_of (jt_jobs (pl_tracker st)) job = Some e \<and> je_best_pow_so_far e = found_pow (pl_best st) \<and> found_pow (pl_best st) < pow_min)"
proof -
  have i: "pool_inv C pool_size cap pow_min data_hash job st" using native.reach_keeps[OF assms] by simp
  have "\<exists>k. pl_remaining_iterations st = Some k \<and> k + sum_list (map snd (pl_in_flight st)) + pe_total_iterations (pl_estimator st) = limit
         \<and> (pl_in_flight st = [] \<longrightarrow> pe_total_iterations (pl_estimator st) = limit)" if "cap = Some limit" for limit
    using i that by (auto simp: pool_inv_def work_accounted_def jobs_iterations_def)
  then show ?thesis using i by (auto simp: pool_inv_def slots_ok_def work_accounted_def job_shown_def)
qed

text \<open>C16: A bounded search comes to an end: it takes at most one step more than the iterations it may make, and until it has returned it can
  take another.\<close>

theorem bounded_search_returns:
  assumes "generate_best_effort_reaches C (native_chunk C) pool_size limit pow_min data_hash job n x"
  shows "n \<le> limit + 1 \<and> ((\<exists>r t. x = Returned r t) \<or> (\<exists>y. pool_step (native_chunk C) job pow_min data_hash x y))"
proof -
  have early: "n \<le> limit" if "generate_best_effort_reaches C (native_chunk C) pool_size limit pow_min data_hash job n (Searching st)" for n st
    using native.reach_keeps[OF that] by (auto simp: pool_inv_def work_accounted_def)
  have "n \<le> limit + 1"
    using assms
  proof cases
    case (goes_on m y)
    then obtain st where "y = Searching st" using returned_is_final by (cases y) auto
    then show ?thesis using early goes_on by fastforce
  qed simp
  moreover have "\<exists>y. pool_step (native_chunk C) job pow_min data_hash (Searching st) y" for st
  proof -
    have o: "other_jobs_ran job (pl_tracker st) (pl_tracker st)" by (simp add: other_jobs_ran_def)
    show ?thesis
    proof (cases "pl_in_flight st")
      case Nil
      then show ?thesis using drained[OF _ o] by blast
    next
      case (Cons c cs)
      obtain slot m where "c = (slot, m)" by fastforce
      moreover have "native_chunk C slot m pow_min data_hash (join_task (run_pool_chunk C m pow_min data_hash (\<lambda>i. Salt_zero)))"
        by (rule native_chunk.intros) (simp add: wf_newtypes Salt_zero_def byte_counts)
      ultimately show ?thesis using completed[where results = "native_chunk C", OF _ _ o] Cons by (metis list.set_intros(1))
    qed
  qed
  ultimately show ?thesis by (cases x) auto
qed

text \<open>One chunk of attempts: what it finds is the best of the samples it took, unless one met the minimum and ended it early; with the
  hashes of the specification it always finds something.\<close>

theorem chunk_finds_best:
  assumes "crypto_ok C"
  shows "\<exists>s p h. run_pool_chunk C n pow_min data_hash salts = Inr (s, p, h) \<and> pow_measure_from_data_hash C data_hash s = Inr (p, h)
    \<and> (pow_min \<le> p \<or> (\<forall>i < max n 1. \<exists>q g. pow_measure_from_data_hash C data_hash (salts i) = Inr (q, g) \<and> q \<le> p))"
proof -
  obtain b where b: "run_pool_chunk C n pow_min data_hash salts = Inr b" using run_pool_chunk_total[OF assms] by blast
  from run_pool_chunk_finds[OF b] b show ?thesis by (cases b) (auto simp: found_ok_def)
qed


section \<open>Web workers\<close>

lemma colon_free_digits: "CHR '':'' \<notin> set (show_nat n)"
proof -
  have "\<not> is_digit (CHR '':'')" by code_simp
  then show ?thesis using show_nat_digits[of n] by (auto simp: list_all_iff)
qed

lemma worker_answer_parses:
  assumes "wf_salt s" "wf_hash h" "\<And>x. hex_decode (hex_encode x) = Some x" "\<And>x. CHR '':'' \<notin> set (hex_encode x)"
  shows "parse_batch_result hex_decode (hex_encode (salt_bytes s) @ '':'' @ show_nat (unat p) @ '':'' @ hex_encode (hash_bytes h)) = Some (s, p, h)"
proof -
  have "splitn_on 3 (CHR '':'') (hex_encode (salt_bytes s) @ '':'' @ show_nat (unat p) @ '':'' @ hex_encode (hash_bytes h))
      = [hex_encode (salt_bytes s), show_nat (unat p), hex_encode (hash_bytes h)]"
    using assms(4) colon_free_digits by (simp add: numeral_eq_Suc splitn_on_append del: splitn_on.simps)
  moreover have "parse_int 0 255 (show_nat (unat p)) = Inr (int (unat p))"
    by (rule parse_int_show_nat, simp, use byte_less[of p] in linarith)
  ultimately show ?thesis using assms(1-3) by (simp add: parse_batch_result_def from_slice_wf)
qed

lemma chunk_loop_salt: "chunk_loop C pm dh salts is best = Inr b \<Longrightarrow> fst b \<in> insert (fst best) (range salts)"
  by (induction "is" arbitrary: best) (auto split: if_splits)

lemma run_pool_chunk_salt: "run_pool_chunk C n pm dh salts = Inr b \<Longrightarrow> fst b \<in> range salts"
  using chunk_loop_salt[of C pm dh salts "[1..<n]" _ b] by (fastforce simp: run_pool_chunk_def split: if_splits)

lemma found_hash_wf:
  assumes "crypto_ok C" "found_ok C dh b"
  shows "wf_hash (snd (snd b))"
proof -
  obtain h' where "chain_rounds C CHAIN_LENGTH (hash_two C (hash_bytes dh) (salt_bytes (fst b))) = Inr h'" "snd (snd b) = h'"
    using assms(2) by (cases b) (auto simp: found_ok_def pow_measure_from_data_hash_def split: option.splits)
  then show ?thesis using chain_rounds_total[OF assms(1) wf_hashing(2)[OF assms(1)], of CHAIN_LENGTH "hash_bytes dh" "salt_bytes (fst b)"] by auto
qed

text \<open>With a hexadecimal text that can be read back and has no colon, the workers of the browser are a backend as well.\<close>

lemma wasm_is_backend:
  assumes "crypto_ok C" "\<And>x. hex_decode (hex_encode x) = Some x" "\<And>x. CHR '':'' \<notin> set (hex_encode x)"
  shows "pow_backend C (\<lambda>slot n pm dh r. wf_hash dh \<and> wasm_chunk hex_encode hex_decode workers C slot n pm dh r)"
proof
  fix slot n pm dh b
  assume "wf_hash dh \<and> wasm_chunk hex_encode hex_decode workers C slot n pm dh (Inr b)"
  then obtain salts result where dh: "wf_hash dh" and salts: "\<forall>i :: nat. wf_salt (salts i)"
    and batch: "pow_compute_batch hex_encode hex_decode C n pm (hex_encode (hash_bytes dh)) salts = Inr result"
    and b: "parse_batch_result hex_decode result = Some b"
    by (auto elim!: wasm_chunk.cases simp: of_option_def split: option.splits)
  then obtain c where c: "run_pool_chunk C n pm dh salts = Inr c"
      "result = hex_encode (salt_bytes (fst c)) @ '':'' @ show_nat (unat (found_pow c)) @ '':'' @ hex_encode (hash_bytes (snd (snd c)))"
    using assms(2) by (auto simp: pow_compute_batch_def from_slice_wf)
  have ok: "found_ok C dh c" using run_pool_chunk_finds[OF c(1)] by blast
  have "wf_salt (fst c)" "wf_hash (snd (snd c))"
    using run_pool_chunk_salt[OF c(1)] salts found_hash_wf[OF assms(1) ok] by auto
  from worker_answer_parses[OF this assms(2,3), of "found_pow c"] b c(2) ok show "found_ok C dh b" by simp
qed


section \<open>A search that finds nothing\<close>

text \<open>A crypto whose every hash starts with a one in its eighth bit: no sample does better than seven.\<close>

definition dull_crypto :: crypto where
  "dull_crypto = toy_crypto\<lparr>blake3 := (\<lambda>x. replicate 32 1), algo_digest := (\<lambda>i x. replicate 32 1)\<rparr>"

lemma dull_crypto_ok: "crypto_ok dull_crypto"
  by (simp add: crypto_ok_def dull_crypto_def toy_crypto_def)

lemma dull_measure: "pow_measure_from_data_hash dull_crypto dh s = Inr (7, Hash (replicate 32 1))"
proof -
  have "pow_measure_from_data_hash dull_crypto dh s = pow_measure_from_data_hash dull_crypto Hash_zero Salt_zero"
    by (simp add: pow_measure_from_data_hash_def hash_two_def dull_crypto_def)
  also have "\<dots> = Inr (7, Hash (replicate 32 1))" by code_simp
  finally show ?thesis .
qed

lemma dull_search:
  "\<exists>job st. generate_best_effort_reaches dull_crypto (native_chunk dull_crypto) 1 1 9 Hash_zero job 0 (Searching st) \<and> pl_in_flight st = [(0, 1)]
    \<and> pl_best st = (Salt_zero, 7, Hash (replicate 32 1)) \<and> pl_remaining_iterations st = Some 0"
proof -
  obtain job x where "run_pool_start dull_crypto 1 ''rpc'' (Some 1) 9 Hash_zero Salt_zero 5 JobTracker_default = (job, x)" by fastforce
  moreover from this obtain st where "x = Searching st" "pl_in_flight st = [(0, 1)]"
      "pl_best st = (Salt_zero, 7, Hash (replicate 32 1))" "pl_remaining_iterations st = Some 0"
    by (auto simp: run_pool_start_def dull_measure guard_new_def job_add_def pick_next_chunk_size_def CHUNK_ITERATIONS_def)
  moreover have "wf_salt Salt_zero" by (simp add: wf_newtypes Salt_zero_def byte_counts)
  ultimately show ?thesis using begins by blast
qed

theorem search_accounts_for_iterations_witness:
  "\<exists>job st. generate_best_effort_reaches dull_crypto (native_chunk dull_crypto) 1 1 9 Hash_zero job 0 (Searching st)
    \<and> pl_remaining_iterations st = Some 0 \<and> pe_total_iterations (pl_estimator st) = 0"
proof -
  obtain job st where s: "generate_best_effort_reaches dull_crypto (native_chunk dull_crypto) 1 1 9 Hash_zero job 0 (Searching st)"
      "pl_in_flight st = [(0, 1)]" using dull_search by blast
  from search_accounts_for_iterations[OF s(1)] s show ?thesis by auto
qed

lemma dull_search_drains:
  "\<exists>job t. generate_best_effort_reaches dull_crypto (native_chunk dull_crypto) 1 1 9 Hash_zero job 2 (Returned (Inr (Salt_zero, 7, Hash (replicate 32 1))) t)"
proof -
  obtain job st where s: "generate_best_effort_reaches dull_crypto (native_chunk dull_crypto) 1 1 9 Hash_zero job 0 (Searching st)"
      "pl_in_flight st = [(0, 1)]" "pl_best st = (Salt_zero, 7, Hash (replicate 32 1))" "pl_remaining_iterations st = Some 0"
    using dull_search by blast
  let ?r = "join_task (run_pool_chunk dull_crypto 1 9 Hash_zero (\<lambda>i. Salt_zero))"
  have r: "?r = Inr (Salt_zero, 7, Hash (replicate 32 1))" by (simp add: run_pool_chunk_def dull_measure)
  have "native_chunk dull_crypto 0 1 9 Hash_zero ?r"
    by (rule native_chunk.intros) (simp add: wf_newtypes Salt_zero_def byte_counts)
  moreover have o: "other_jobs_ran job t t" for t by (simp add: other_jobs_ran_def)
  ultimately have step: "pool_step (native_chunk dull_crypto) job 9 Hash_zero (Searching st)
      (pool_completion job 9 6 (0, 1) ?r (st\<lparr>pl_tracker := pl_tracker st\<rparr>))" by (intro completed) (simp_all add: s(2))
  obtain st' where st': "pool_completion job 9 6 (0, 1) ?r (st\<lparr>pl_tracker := pl_tracker st\<rparr>) = Searching st'"
      "pl_in_flight st' = []" "pl_best st' = (Salt_zero, 7, Hash (replicate 32 1))"
    unfolding r by (simp add: pool_completion_def s pick_next_chunk_size_def)
  have "pool_step (native_chunk dull_crypto) job 9 Hash_zero (Searching st')
      (Returned (Inr (pl_best st')) (guard_drop 7 job (pl_tracker st')))" by (rule drained[OF st'(2) o])
  with goes_on[OF goes_on[OF s(1) step[unfolded st'(1)]]] show ?thesis unfolding st'(3) by (metis numeral_2_eq_2)
qed

theorem bounded_search_returns_witness:
  "\<exists>job t. generate_best_effort_reaches dull_crypto (native_chunk dull_crypto) 1 1 9 Hash_zero job 2 (Returned (Inr (Salt_zero, 7, Hash (replicate 32 1))) t)
     \<and> (2 :: nat) \<le> 1 + 1"
proof -
  obtain job t where r: "generate_best_effort_reaches dull_crypto (native_chunk dull_crypto) 1 1 9 Hash_zero job 2
      (Returned (Inr (Salt_zero, 7, Hash (replicate 32 1))) t)" using dull_search_drains by blast
  from bounded_search_returns[OF r] r show ?thesis by blast
qed

theorem generated_pow_is_real_witness:
  "\<exists>job t. generate_best_effort_reaches dull_crypto (native_chunk dull_crypto) 1 1 9 Hash_zero job 2 (Returned (Inr (Salt_zero, 7, Hash (replicate 32 1))) t)
     \<and> map_of (jt_jobs t) job = None \<and> pow_measure_from_data_hash dull_crypto Hash_zero Salt_zero = Inr (7, Hash (replicate 32 1))"
proof -
  obtain job t where r: "generate_best_effort_reaches dull_crypto (native_chunk dull_crypto) 1 1 9 Hash_zero job 2
      (Returned (Inr (Salt_zero, 7, Hash (replicate 32 1))) t)" using dull_search_drains by blast
  from generated_pow_is_real[OF r] r show ?thesis by blast
qed

theorem chunk_finds_best_witness:
  "\<exists>s p h. run_pool_chunk dull_crypto 3 9 Hash_zero (\<lambda>i. Salt_zero) = Inr (s, p, h) \<and> p = 7"
  using chunk_finds_best[OF dull_crypto_ok, of 3 9 Hash_zero "\<lambda>i. Salt_zero"] by (auto simp: dull_measure)

end
