(* ===== verification/Ddos.thy ===== *)
theory Ddos
  imports Config Text Time "HOL-Library.AList"
begin

text \<open>
  Protection against floods: the score and the connection guard of \<open>transport/ddos/ddos.rs\<close>, and the implementations
  \<open>mem_ddos.rs\<close>, \<open>noop_ddos.rs\<close> and the server's \<open>ipset_ddos.rs\<close>. An \<open>f64\<close> is a real number. The cache of scores forgets an entry
  that has been idle for its time, the cache that throttles the \<open>ipset\<close> command one that has reached its age; the commands
  themselves are recorded, not run.
\<close>

section \<open>Scores\<close>

record ddos_score =
  ds_score :: real
  ds_last_updated :: "time_millis option"

definition DdosScore_new :: ddos_score where
  "DdosScore_new = \<lparr>ds_score = 0, ds_last_updated = None\<rparr>"

definition elapsed_secs :: "time_millis \<Rightarrow> ddos_score \<Rightarrow> real" where
  "elapsed_secs now s = (case ds_last_updated s of
     Some prev \<Rightarrow> real_of_int (max (sat_i64 (now - prev)) 0) / 1000
   | None \<Rightarrow> 0)"

definition ddos_current :: "real \<Rightarrow> time_millis \<Rightarrow> ddos_score \<Rightarrow> real" where
  "ddos_current decay now s = max (ds_score s - decay * elapsed_secs now s) 0"

definition ddos_increment :: "real \<Rightarrow> real \<Rightarrow> time_millis \<Rightarrow> ddos_score \<Rightarrow> ddos_score" where
  "ddos_increment points decay now s =
     \<lparr>ds_score = max (ds_score s - decay * elapsed_secs now s) 0 + points, ds_last_updated = Some now\<rparr>"


section \<open>The trait and the guard\<close>

record 'd ddos_protection =
  dd_allow_request :: "string \<Rightarrow> time_millis \<Rightarrow> 'd \<Rightarrow> 'd \<times> bool"
  dd_report_bad_request :: "string \<Rightarrow> time_millis \<Rightarrow> 'd \<Rightarrow> 'd"
  dd_try_acquire_connection :: "string \<Rightarrow> time_millis \<Rightarrow> 'd \<Rightarrow> 'd \<times> bool"
  dd_release_connection :: "string \<Rightarrow> 'd \<Rightarrow> 'd"

record connection_guard =
  cg_ip :: string

definition guard_try_new :: "'d ddos_protection \<Rightarrow> string \<Rightarrow> time_millis \<Rightarrow> 'd \<Rightarrow> 'd \<times> connection_guard option" where
  "guard_try_new D ip now d = (case dd_try_acquire_connection D ip now d of
     (d', True) \<Rightarrow> (d', Some \<lparr>cg_ip = ip\<rparr>)
   | (d', False) \<Rightarrow> (d', None))"

definition guard_allow_request :: "'d ddos_protection \<Rightarrow> connection_guard \<Rightarrow> time_millis \<Rightarrow> 'd \<Rightarrow> 'd \<times> bool" where
  "guard_allow_request D g = dd_allow_request D (cg_ip g)"

definition guard_report_bad_request :: "'d ddos_protection \<Rightarrow> connection_guard \<Rightarrow> time_millis \<Rightarrow> 'd \<Rightarrow> 'd" where
  "guard_report_bad_request D g = dd_report_bad_request D (cg_ip g)"

definition connection_guard_drop :: "'d ddos_protection \<Rightarrow> connection_guard \<Rightarrow> 'd \<Rightarrow> 'd" where
  "connection_guard_drop D g = dd_release_connection D (cg_ip g)"

definition noop_ddos :: "unit ddos_protection" where
  "noop_ddos = \<lparr>dd_allow_request = (\<lambda>ip now d. (d, True)), dd_report_bad_request = (\<lambda>ip now d. d),
     dd_try_acquire_connection = (\<lambda>ip now d. (d, True)), dd_release_connection = (\<lambda>ip d. d)\<rparr>"


section \<open>Protection in memory\<close>

record ddos_config =
  dc_score_threshold :: real
  dc_decay_per_second :: real
  dc_bad_request_penalty :: real
  dc_max_connections_per_ip :: nat

definition idle_secs :: "ddos_config \<Rightarrow> nat" where
  "idle_secs c = (if dc_decay_per_second c > 0 then nat \<lceil>dc_score_threshold c / dc_decay_per_second c * 2\<rceil> else 3600)"

text \<open>A score with the time it was last looked up; the connections of an address.\<close>

record mem_ddos =
  md_scores :: "(string \<times> ddos_score \<times> time_millis) list"
  md_connections :: "(string \<times> nat) list"

definition mem_ddos_new :: mem_ddos where
  "mem_ddos_new = \<lparr>md_scores = [], md_connections = []\<rparr>"

definition live_score :: "ddos_config \<Rightarrow> string \<Rightarrow> time_millis \<Rightarrow> 'x mem_ddos_scheme \<Rightarrow> ddos_score option" where
  "live_score c ip now d = (case map_of (md_scores d) ip of
     None \<Rightarrow> None
   | Some (s, accessed) \<Rightarrow> if accessed + 1000 * int (idle_secs c) \<le> now then None else Some s)"

definition increment_score :: "ddos_config \<Rightarrow> string \<Rightarrow> real \<Rightarrow> time_millis \<Rightarrow> 'x mem_ddos_scheme \<Rightarrow> 'x mem_ddos_scheme \<times> real" where
  "increment_score c ip points now d =
     (let s = ddos_increment points (dc_decay_per_second c) now (case live_score c ip now d of None \<Rightarrow> DdosScore_new | Some s \<Rightarrow> s)
      in (d\<lparr>md_scores := AList.update ip (s, now) (md_scores d)\<rparr>, ds_score s))"

definition is_score_banned :: "ddos_config \<Rightarrow> string \<Rightarrow> time_millis \<Rightarrow> 'x mem_ddos_scheme \<Rightarrow> 'x mem_ddos_scheme \<times> bool" where
  "is_score_banned c ip now d = (case live_score c ip now d of
     None \<Rightarrow> (d, False)
   | Some s \<Rightarrow> (d\<lparr>md_scores := AList.update ip (s, now) (md_scores d)\<rparr>,
       ddos_current (dc_decay_per_second c) now s \<ge> dc_score_threshold c))"

definition connections_of :: "'x mem_ddos_scheme \<Rightarrow> string \<Rightarrow> nat" where
  "connections_of d ip = (case map_of (md_connections d) ip of None \<Rightarrow> 0 | Some n \<Rightarrow> n)"

definition mem_allow_request :: "ddos_config \<Rightarrow> string \<Rightarrow> time_millis \<Rightarrow> 'x mem_ddos_scheme \<Rightarrow> 'x mem_ddos_scheme \<times> bool" where
  "mem_allow_request c ip now d = (case increment_score c ip 1 now d of (d', score) \<Rightarrow> (d', score < dc_score_threshold c))"

definition mem_report_bad_request :: "ddos_config \<Rightarrow> string \<Rightarrow> time_millis \<Rightarrow> 'x mem_ddos_scheme \<Rightarrow> 'x mem_ddos_scheme" where
  "mem_report_bad_request c ip now d = fst (increment_score c ip (dc_bad_request_penalty c) now d)"

definition take_connection :: "ddos_config \<Rightarrow> string \<Rightarrow> 'x mem_ddos_scheme \<Rightarrow> 'x mem_ddos_scheme \<times> bool" where
  "take_connection c ip d =
     (let n = connections_of d ip in
      if n \<ge> dc_max_connections_per_ip c then (d\<lparr>md_connections := AList.update ip n (md_connections d)\<rparr>, False)
      else (d\<lparr>md_connections := AList.update ip (n + 1) (md_connections d)\<rparr>, True))"

definition mem_try_acquire_connection :: "ddos_config \<Rightarrow> string \<Rightarrow> time_millis \<Rightarrow> 'x mem_ddos_scheme \<Rightarrow> 'x mem_ddos_scheme \<times> bool" where
  "mem_try_acquire_connection c ip now d = (case is_score_banned c ip now d of
     (d', True) \<Rightarrow> (d', False)
   | (d', False) \<Rightarrow> take_connection c ip d')"

definition mem_release_connection :: "string \<Rightarrow> 'x mem_ddos_scheme \<Rightarrow> 'x mem_ddos_scheme" where
  "mem_release_connection ip d = (case map_of (md_connections d) ip of
     None \<Rightarrow> d
   | Some n \<Rightarrow> d\<lparr>md_connections := (if n - 1 = 0 then AList.delete ip (md_connections d) else AList.update ip (n - 1) (md_connections d))\<rparr>)"

definition mem_ddos_protection :: "ddos_config \<Rightarrow> mem_ddos ddos_protection" where
  "mem_ddos_protection c = \<lparr>dd_allow_request = mem_allow_request c, dd_report_bad_request = mem_report_bad_request c,
     dd_try_acquire_connection = mem_try_acquire_connection c, dd_release_connection = mem_release_connection\<rparr>"


section \<open>Protection in the kernel\<close>

text \<open>The arguments of the commands run, oldest first: those at the start and one per ban.\<close>

record ipset_ddos = mem_ddos +
  ip_throttle :: "(string \<times> time_millis) list"
  ip_commands :: "string list list"

definition ipset_ddos_new :: "string \<Rightarrow> ddos_config \<Rightarrow> ipset_ddos" where
  "ipset_ddos_new set_name c = \<lparr>md_scores = [], md_connections = [], ip_throttle = [],
     ip_commands = [''ipset'', ''create'', set_name, ''hash:ip'', ''timeout'', show_nat (idle_secs c), ''--exist'']
       # concat (map (\<lambda>chain.
           [[''iptables'', ''-D'', chain, ''-m'', ''set'', ''--match-set'', set_name, ''src'', ''-j'', ''DROP''],
            [''iptables'', ''-I'', chain, ''-m'', ''set'', ''--match-set'', set_name, ''src'', ''-j'', ''DROP'']]) [''INPUT'', ''FORWARD''])\<rparr>"

definition maybe_call_ipset :: "string \<Rightarrow> string \<Rightarrow> time_millis \<Rightarrow> ipset_ddos \<Rightarrow> ipset_ddos" where
  "maybe_call_ipset set_name ip now d =
     (if (case map_of (ip_throttle d) ip of None \<Rightarrow> False | Some inserted \<Rightarrow> \<not> inserted + 10000 \<le> now) then d
      else d\<lparr>ip_throttle := AList.update ip now (ip_throttle d),
             ip_commands := ip_commands d @ [[''ipset'', ''add'', set_name, ip, ''--exist'']]\<rparr>)"

definition ipset_allow_request :: "string \<Rightarrow> ddos_config \<Rightarrow> string \<Rightarrow> time_millis \<Rightarrow> ipset_ddos \<Rightarrow> ipset_ddos \<times> bool" where
  "ipset_allow_request set_name c ip now d = (case increment_score c ip 1 now d of (d', score) \<Rightarrow>
     if score \<ge> dc_score_threshold c then (maybe_call_ipset set_name ip now d', False) else (d', True))"

definition ipset_report_bad_request :: "string \<Rightarrow> ddos_config \<Rightarrow> string \<Rightarrow> time_millis \<Rightarrow> ipset_ddos \<Rightarrow> ipset_ddos" where
  "ipset_report_bad_request set_name c ip now d = (case increment_score c ip (dc_bad_request_penalty c) now d of (d', score) \<Rightarrow>
     if score \<ge> dc_score_threshold c then maybe_call_ipset set_name ip now d' else d')"

definition ipset_try_acquire_connection :: "ddos_config \<Rightarrow> string \<Rightarrow> time_millis \<Rightarrow> ipset_ddos \<Rightarrow> ipset_ddos \<times> bool" where
  "ipset_try_acquire_connection c ip now d = (case is_score_banned c ip now d of
     (d', True) \<Rightarrow> (d', False)
   | (d', False) \<Rightarrow> take_connection c ip d')"

definition ipset_release_connection :: "string \<Rightarrow> ipset_ddos \<Rightarrow> ipset_ddos" where
  "ipset_release_connection = mem_release_connection"

definition ipset_ddos_protection :: "string \<Rightarrow> ddos_config \<Rightarrow> ipset_ddos ddos_protection" where
  "ipset_ddos_protection set_name c = \<lparr>dd_allow_request = ipset_allow_request set_name c, dd_report_bad_request = ipset_report_bad_request set_name c,
     dd_try_acquire_connection = ipset_try_acquire_connection c, dd_release_connection = ipset_release_connection\<rparr>"


section \<open>Guards never exceed the cap\<close>

text \<open>What happens to the connections of a server: the guards alive are a list.\<close>

datatype ddos_event = Connect string | Request connection_guard | BadRequest connection_guard | Close connection_guard

fun ddos_event_step :: "'d ddos_protection \<Rightarrow> time_millis \<times> ddos_event \<Rightarrow> 'd \<times> connection_guard list \<Rightarrow> 'd \<times> connection_guard list" where
  "ddos_event_step D (now, Connect ip) (d, gs) = (case guard_try_new D ip now d of
     (d', None) \<Rightarrow> (d', gs) | (d', Some g) \<Rightarrow> (d', g # gs))"
| "ddos_event_step D (now, Request g) (d, gs) = (if g \<in> set gs then (fst (guard_allow_request D g now d), gs) else (d, gs))"
| "ddos_event_step D (now, BadRequest g) (d, gs) = (if g \<in> set gs then (guard_report_bad_request D g now d, gs) else (d, gs))"
| "ddos_event_step D (now, Close g) (d, gs) = (if g \<in> set gs then (connection_guard_drop D g d, remove1 g gs) else (d, gs))"

definition ddos_run :: "'d ddos_protection \<Rightarrow> (time_millis \<times> ddos_event) list \<Rightarrow> 'd \<Rightarrow> 'd \<times> connection_guard list" where
  "ddos_run D events d = fold (ddos_event_step D) events (d, [])"

locale connection_limit =
  fixes D :: "'d ddos_protection" and held :: "'d \<Rightarrow> string \<Rightarrow> nat" and cap :: nat
  assumes acquires: "dd_try_acquire_connection D ip now d = (d', True) \<Longrightarrow> held d ip < cap \<and> held d' = (held d)(ip := held d ip + 1)"
    and refuses: "dd_try_acquire_connection D ip now d = (d', False) \<Longrightarrow> held d' = held d"
    and releases: "held (dd_release_connection D ip d) = (held d)(ip := held d ip - 1)"
    and allows: "held (fst (dd_allow_request D ip now d)) = held d"
    and reports: "held (dd_report_bad_request D ip now d) = held d"

definition guards_of :: "connection_guard list \<Rightarrow> string \<Rightarrow> nat" where
  "guards_of gs ip = count_list (map cg_ip gs) ip"

lemma guards_of_simps [simp]:
  "guards_of [] ip = 0" "guards_of (g # gs) ip = (if cg_ip g = ip then guards_of gs ip + 1 else guards_of gs ip)"
  by (simp_all add: guards_of_def)

lemma guards_of_remove1: "g \<in> set gs \<Longrightarrow> guards_of (remove1 g gs) ip = (if cg_ip g = ip then guards_of gs ip - 1 else guards_of gs ip)"
proof (induction gs)
  case (Cons h gs)
  have "g \<in> set gs \<Longrightarrow> 0 < guards_of gs (cg_ip g)" by (induction gs) auto
  then show ?case using Cons by auto
qed simp

definition guards_counted :: "('d \<Rightarrow> string \<Rightarrow> nat) \<Rightarrow> nat \<Rightarrow> 'd \<times> connection_guard list \<Rightarrow> bool" where
  "guards_counted held cap st \<longleftrightarrow> (\<forall>ip. guards_of (snd st) ip = held (fst st) ip \<and> held (fst st) ip \<le> cap)"

context connection_limit
begin

lemma event_accounted:
  assumes "guards_counted held cap (d, gs)"
  shows "guards_counted held cap (ddos_event_step D (now, e) (d, gs))"
proof (cases e)
  case (Connect ip)
  obtain d' ok where a: "dd_try_acquire_connection D ip now d = (d', ok)" by fastforce
  show ?thesis
  proof (cases ok)
    case True
    then show ?thesis using assms Connect a acquires[of ip now d d'] by (auto simp: guards_counted_def guard_try_new_def)
  next
    case False
    then show ?thesis using assms Connect a refuses[of ip now d d'] by (auto simp: guards_counted_def guard_try_new_def)
  qed
next
  case (Request g)
  then show ?thesis using assms allows by (simp add: guards_counted_def guard_allow_request_def)
next
  case (BadRequest g)
  then show ?thesis using assms reports by (simp add: guards_counted_def guard_report_bad_request_def)
next
  case (Close g)
  have "held d (cg_ip g) - 1 \<le> cap" using assms by (auto simp: guards_counted_def intro: diff_le_self le_trans)
  then show ?thesis using assms Close releases[of "cg_ip g" d] by (simp add: guards_counted_def connection_guard_drop_def guards_of_remove1)
qed

lemma run_accounted:
  assumes "guards_counted held cap (d, gs)"
  shows "guards_counted held cap (fold (ddos_event_step D) events (d, gs))"
  using assms
proof (induction events arbitrary: d gs)
  case (Cons e events)
  obtain now ev d' gs' where "e = (now, ev)" "ddos_event_step D e (d, gs) = (d', gs')" by (metis surj_pair)
  then show ?case using Cons event_accounted[of d gs now ev] by simp
qed simp

end

lemma increment_keeps_connections [simp]:
  "connections_of (fst (increment_score c ip points now d)) = connections_of d"
  "increment_score c ip points now d = (d', x) \<Longrightarrow> connections_of d' = connections_of d"
  by (auto simp: increment_score_def Let_def connections_of_def fun_eq_iff)

lemma banned_keeps_connections: "is_score_banned c ip now d = (d', b) \<Longrightarrow> connections_of d' = connections_of d"
  by (auto simp: is_score_banned_def connections_of_def fun_eq_iff split: option.splits)

lemma take_connection_counts:
  "take_connection c ip d = (d', True) \<Longrightarrow> connections_of d ip < dc_max_connections_per_ip c
     \<and> connections_of d' = (connections_of d)(ip := connections_of d ip + 1)"
  "take_connection c ip d = (d', False) \<Longrightarrow> connections_of d' = connections_of d"
  by (auto simp: take_connection_def Let_def connections_of_def fun_eq_iff update_conv' split: if_splits)

lemma release_counts: "connections_of (mem_release_connection ip d) = (connections_of d)(ip := connections_of d ip - 1)"
  by (auto simp: mem_release_connection_def connections_of_def fun_eq_iff update_conv' delete_conv' split: option.splits)

lemma throttle_keeps_connections [simp]: "connections_of (maybe_call_ipset set_name ip now d) = connections_of d"
  by (simp add: maybe_call_ipset_def connections_of_def fun_eq_iff)

interpretation mem_limit: connection_limit "mem_ddos_protection c" connections_of "dc_max_connections_per_ip c" for c
proof
  fix ip now d d'
  show "connections_of d ip < dc_max_connections_per_ip c \<and> connections_of d' = (connections_of d)(ip := connections_of d ip + 1)"
    if "dd_try_acquire_connection (mem_ddos_protection c) ip now d = (d', True)"
    using that banned_keeps_connections[of c ip now d] take_connection_counts(1)
    by (fastforce simp: mem_ddos_protection_def mem_try_acquire_connection_def split: prod.splits bool.splits)
  show "connections_of d' = connections_of d" if "dd_try_acquire_connection (mem_ddos_protection c) ip now d = (d', False)"
    using that banned_keeps_connections[of c ip now d] take_connection_counts(2)
    by (fastforce simp: mem_ddos_protection_def mem_try_acquire_connection_def split: prod.splits bool.splits)
qed (simp_all add: mem_ddos_protection_def release_counts mem_allow_request_def mem_report_bad_request_def split: prod.splits)

interpretation ipset_limit: connection_limit "ipset_ddos_protection set_name c" connections_of "dc_max_connections_per_ip c" for set_name c
proof
  fix ip now d d'
  show "connections_of d ip < dc_max_connections_per_ip c \<and> connections_of d' = (connections_of d)(ip := connections_of d ip + 1)"
    if "dd_try_acquire_connection (ipset_ddos_protection set_name c) ip now d = (d', True)"
    using that banned_keeps_connections[of c ip now d] take_connection_counts(1)
    by (fastforce simp: ipset_ddos_protection_def ipset_try_acquire_connection_def split: prod.splits bool.splits)
  show "connections_of d' = connections_of d" if "dd_try_acquire_connection (ipset_ddos_protection set_name c) ip now d = (d', False)"
    using that banned_keeps_connections[of c ip now d] take_connection_counts(2)
    by (fastforce simp: ipset_ddos_protection_def ipset_try_acquire_connection_def split: prod.splits bool.splits)
  show "connections_of (fst (dd_allow_request (ipset_ddos_protection set_name c) ip now d)) = connections_of d"
    "connections_of (dd_report_bad_request (ipset_ddos_protection set_name c) ip now d) = connections_of d"
    by (auto simp: ipset_ddos_protection_def ipset_allow_request_def ipset_report_bad_request_def split: prod.splits)
qed (simp add: ipset_ddos_protection_def release_counts ipset_release_connection_def)

text \<open>C29: Whatever connects, asks, misbehaves and disconnects in whatever order, the connections counted for an address are those whose
  guards are alive, and never more than the cap, under either implementation.\<close>

theorem connections_never_exceed_cap:
  "(case ddos_run (mem_ddos_protection c) events mem_ddos_new of (d, gs) \<Rightarrow>
      connections_of d ip = count_list (map cg_ip gs) ip \<and> count_list (map cg_ip gs) ip \<le> dc_max_connections_per_ip c)
   \<and> (case ddos_run (ipset_ddos_protection set_name c) events (ipset_ddos_new set_name c) of (d, gs) \<Rightarrow>
      connections_of d ip = count_list (map cg_ip gs) ip \<and> count_list (map cg_ip gs) ip \<le> dc_max_connections_per_ip c)"
proof -
  have m: "guards_counted connections_of (dc_max_connections_per_ip c) (mem_ddos_new, [])"
    by (simp add: guards_counted_def connections_of_def mem_ddos_new_def)
  have i: "guards_counted connections_of (dc_max_connections_per_ip c) (ipset_ddos_new set_name c, [])"
    by (simp add: guards_counted_def connections_of_def ipset_ddos_new_def)
  show ?thesis using mem_limit.run_accounted[OF m, of events] ipset_limit.run_accounted[where set_name = set_name and events = events, OF i]
    by (auto simp: ddos_run_def guards_counted_def guards_of_def split: prod.splits)
qed


section \<open>Who is banned, and for how long\<close>

definition server_ddos_config :: ddos_config where
  "server_ddos_config = \<lparr>dc_score_threshold = SERVER_DDOS_SCORE_THRESHOLD, dc_decay_per_second = SERVER_DDOS_DECAY_PER_SECOND,
     dc_bad_request_penalty = SERVER_DDOS_BAD_REQUEST_PENALTY, dc_max_connections_per_ip = SERVER_DDOS_MAX_CONNECTIONS_PER_IP\<rparr>"

lemma server_ddos_values [simp]:
  "dc_score_threshold server_ddos_config = 15" "dc_decay_per_second server_ddos_config = 1 / 2"
  "dc_bad_request_penalty server_ddos_config = 5" "dc_max_connections_per_ip server_ddos_config = 4" "idle_secs server_ddos_config = 60"
  by (simp_all add: server_ddos_config_def SERVER_DDOS_SCORE_THRESHOLD_def SERVER_DDOS_DECAY_PER_SECOND_def
      SERVER_DDOS_BAD_REQUEST_PENALTY_def SERVER_DDOS_MAX_CONNECTIONS_PER_IP_def idle_secs_def)

text \<open>The answers to the requests of one address at the given times.\<close>

fun requests_allowed :: "ddos_config \<Rightarrow> string \<Rightarrow> time_millis list \<Rightarrow> mem_ddos \<Rightarrow> bool list" where
  "requests_allowed c ip [] d = []"
| "requests_allowed c ip (t # ts) d = (case dd_allow_request (mem_ddos_protection c) ip t d of (d', ok) \<Rightarrow> ok # requests_allowed c ip ts d')"

text \<open>A bare look at the score of an address; an entry that would be forgotten counts as none.\<close>

lemma allow_request_score:
  assumes "mem_allow_request c ip now d = (d', ok)"
  defines "s \<equiv> ddos_increment 1 (dc_decay_per_second c) now (case live_score c ip now d of None \<Rightarrow> DdosScore_new | Some s \<Rightarrow> s)"
  shows "ok = (ds_score s < dc_score_threshold c)" "map_of (md_scores d') ip = Some (s, now)"
  using assms by (auto simp: mem_allow_request_def increment_score_def Let_def update_conv')

lemma steady_step:
  assumes "map_of (md_scores d) ip = Some (\<lparr>ds_score = x, ds_last_updated = Some t\<rparr>, t)" "1 / 2 \<le> x" "0 \<le> t" "t + 1000 \<le> I64_MAX"
  shows "\<exists>d'. mem_allow_request server_ddos_config ip (t + 1000) d = (d', x + 1 / 2 < 15)
    \<and> map_of (md_scores d') ip = Some (\<lparr>ds_score = x + 1 / 2, ds_last_updated = Some (t + 1000)\<rparr>, t + 1000)"
proof -
  have live: "live_score server_ddos_config ip (t + 1000) d = Some \<lparr>ds_score = x, ds_last_updated = Some t\<rparr>"
    using assms(1) by (simp add: live_score_def)
  have "ddos_increment 1 (1 / 2) (t + 1000) \<lparr>ds_score = x, ds_last_updated = Some t\<rparr>
      = \<lparr>ds_score = x + 1 / 2, ds_last_updated = Some (t + 1000)\<rparr>"
    using assms(2) by (simp add: ddos_increment_def elapsed_secs_def sat_i64_def I64_MIN_def I64_MAX_def)
  moreover obtain d' ok where r: "mem_allow_request server_ddos_config ip (t + 1000) d = (d', ok)" by fastforce
  ultimately show ?thesis using allow_request_score[OF r] live by simp
qed

lemma steady_requests:
  assumes "map_of (md_scores d) ip = Some (\<lparr>ds_score = 1 + real k / 2, ds_last_updated = Some (1000 * int k)\<rparr>, 1000 * int k)"
    and "1000 * int (k + n) \<le> I64_MAX"
  shows "requests_allowed server_ddos_config ip (map (\<lambda>i. 1000 * int i) [k + 1..<k + 1 + n]) d = map (\<lambda>i. i < 28) [k + 1..<k + 1 + n]"
  using assms
proof (induction n arbitrary: k d)
  case (Suc n)
  obtain d' where d': "mem_allow_request server_ddos_config ip (1000 * int k + 1000) d = (d', 1 + real k / 2 + 1 / 2 < 15)"
      "map_of (md_scores d') ip = Some (\<lparr>ds_score = 1 + real k / 2 + 1 / 2, ds_last_updated = Some (1000 * int k + 1000)\<rparr>, 1000 * int k + 1000)"
    using steady_step[OF Suc.prems(1)] Suc.prems(2) by auto
  have e: "1000 * int k + 1000 = 1000 * int (k + 1)" "1 + real k / 2 + 1 / 2 = 1 + real (k + 1) / 2"
    by (simp_all add: field_simps)
  have "requests_allowed server_ddos_config ip (map (\<lambda>i. 1000 * int i) [k + 1 + 1..<k + 1 + 1 + n]) d' = map (\<lambda>i. i < 28) [k + 1 + 1..<k + 1 + 1 + n]"
    by (rule Suc.IH) (use d'(2) e Suc.prems(2) in simp_all)
  moreover have "[k + 1..<k + 1 + Suc n] = (k + 1) # [k + 1 + 1..<k + 1 + 1 + n]" by (simp add: upt_conv_Cons)
  moreover have "(1 + real k / 2 + 1 / 2 < 15) = (k + 1 < 28)" by auto
  ultimately show ?case using d'(1) by (simp add: mem_ddos_protection_def algebra_simps del: upt_Suc)
qed simp

text \<open>C35: With the server's figures, a client that asks once a second is answered 28 times and then refused for as long as it goes on: the
  score has no steady state at that rate.\<close>

theorem steady_client_is_banned:
  assumes "1000 * int n \<le> I64_MAX"
  shows "requests_allowed server_ddos_config ip (map (\<lambda>i. 1000 * int i) [0..<n]) mem_ddos_new = map (\<lambda>i. i < 28) [0..<n]"
proof (cases n)
  case (Suc m)
  obtain d ok where r: "mem_allow_request server_ddos_config ip 0 mem_ddos_new = (d, ok)" by fastforce
  have "live_score server_ddos_config ip 0 mem_ddos_new = None" by (simp add: live_score_def mem_ddos_new_def)
  then have s: "ok" "map_of (md_scores d) ip = Some (\<lparr>ds_score = 1, ds_last_updated = Some 0\<rparr>, 0)"
    using allow_request_score[OF r] by (simp_all add: ddos_increment_def DdosScore_new_def elapsed_secs_def)
  have "requests_allowed server_ddos_config ip (map (\<lambda>i. 1000 * int i) [0 + 1..<0 + 1 + m]) d = map (\<lambda>i. i < 28) [0 + 1..<0 + 1 + m]"
    by (rule steady_requests) (use s(2) assms Suc in simp_all)
  moreover have "[0..<n] = 0 # [0 + 1..<0 + 1 + m]" using Suc by (simp add: upt_conv_Cons del: upt_Suc)
  ultimately show ?thesis using r s(1) by (simp add: mem_ddos_protection_def)
qed simp

text \<open>The gap between two requests is at least the time in which one request decays.\<close>

definition spaced_out :: "ddos_config \<Rightarrow> time_millis list \<Rightarrow> bool" where
  "spaced_out c = successively (\<lambda>t t'. t \<le> t' \<and> 1000 \<le> dc_decay_per_second c * real_of_int (t' - t))"

lemma spaced_requests:
  assumes "1 < dc_score_threshold c" "spaced_out c (t # ts)" "\<forall>u \<in> set (t # ts). 0 \<le> u \<and> u \<le> I64_MAX"
    and "map_of (md_scores d) ip = Some (\<lparr>ds_score = 1, ds_last_updated = Some t\<rparr>, t)"
  shows "False \<notin> set (requests_allowed c ip ts d)"
  using assms(2-)
proof (induction ts arbitrary: t d)
  case (Cons u ts)
  obtain d' ok where r: "mem_allow_request c ip u d = (d', ok)" by fastforce
  have gap: "t \<le> u" "1000 \<le> dc_decay_per_second c * real_of_int (u - t)" using Cons.prems(1) by (simp_all add: spaced_out_def)
  have sat: "sat_i64 (u - t) = u - t" using gap(1) Cons.prems(2) by (simp add: sat_i64_def I64_MIN_def I64_MAX_def)
  have "elapsed_secs u \<lparr>ds_score = 1, ds_last_updated = Some t\<rparr> = real_of_int (u - t) / 1000"
    using gap(1) by (simp only: elapsed_secs_def ddos_score.simps option.case sat) (simp add: max_def)
  then have "dc_decay_per_second c * elapsed_secs u \<lparr>ds_score = 1, ds_last_updated = Some t\<rparr> \<ge> 1"
    using gap(2) by (simp only:)
  then have "ddos_increment 1 (dc_decay_per_second c) u (case live_score c ip u d of None \<Rightarrow> DdosScore_new | Some s \<Rightarrow> s)
      = \<lparr>ds_score = 1, ds_last_updated = Some u\<rparr>"
    using Cons.prems(3) by (simp add: live_score_def ddos_increment_def DdosScore_new_def elapsed_secs_def)
  then have s: "ok" "map_of (md_scores d') ip = Some (\<lparr>ds_score = 1, ds_last_updated = Some u\<rparr>, u)"
    using allow_request_score[OF r] assms(1) by simp_all
  have "False \<notin> set (requests_allowed c ip ts d')"
    by (rule Cons.IH[OF _ _ s(2)]) (use Cons.prems(1,2) in \<open>simp_all add: spaced_out_def\<close>)
  then show ?case using r s(1) by (simp add: mem_ddos_protection_def)
qed simp

text \<open>A client that leaves a request the time to decay before it sends the next is never refused.\<close>

theorem slow_client_never_refused:
  assumes "1 < dc_score_threshold c" "spaced_out c ts" "\<forall>t \<in> set ts. 0 \<le> t \<and> t \<le> I64_MAX"
  shows "False \<notin> set (requests_allowed c ip ts mem_ddos_new)"
proof (cases ts)
  case (Cons t us)
  obtain d ok where r: "mem_allow_request c ip t mem_ddos_new = (d, ok)" by fastforce
  have "live_score c ip t mem_ddos_new = None" by (simp add: live_score_def mem_ddos_new_def)
  then have s: "ok" "map_of (md_scores d) ip = Some (\<lparr>ds_score = 1, ds_last_updated = Some t\<rparr>, t)"
    using allow_request_score[OF r] assms(1) by (simp_all add: ddos_increment_def DdosScore_new_def elapsed_secs_def)
  have "False \<notin> set (requests_allowed c ip us d)"
    by (rule spaced_requests[OF assms(1) _ _ s(2)]) (use assms(2,3) Cons in simp_all)
  then show ?thesis using Cons r s(1) by (simp add: mem_ddos_protection_def)
qed simp

text \<open>C38: A ban ends: an address that has stayed away for the idle time is a new one, whatever its score was. It gets a connection unless
  all of its connections are taken, and its first request is answered.\<close>

theorem banned_client_returns:
  assumes "map_of (md_scores d) ip = Some (s, accessed)" "accessed + 1000 * int (idle_secs c) \<le> now" "1 < dc_score_threshold c"
  shows "snd (dd_try_acquire_connection (mem_ddos_protection c) ip now d) = (connections_of d ip < dc_max_connections_per_ip c)
    \<and> snd (dd_allow_request (mem_ddos_protection c) ip now d)"
proof -
  have none: "live_score c ip now d = None" using assms(1,2) by (simp add: live_score_def)
  obtain d' ok where r: "mem_allow_request c ip now d = (d', ok)" by fastforce
  have "ok" using allow_request_score(1)[OF r] none assms(3) by (simp add: ddos_increment_def DdosScore_new_def elapsed_secs_def)
  then show ?thesis using none r
    by (auto simp: mem_ddos_protection_def mem_try_acquire_connection_def is_score_banned_def take_connection_def Let_def)
qed

text \<open>The penalties have no ceiling: a score of any size is forgotten with the entry, long before it would have decayed.\<close>

lemma score_outlives_its_entry:
  assumes "map_of (md_scores d) ip = Some (\<lparr>ds_score = 1000, ds_last_updated = Some 0\<rparr>, 0)"
  shows "snd (dd_allow_request (mem_ddos_protection server_ddos_config) ip 60000 d)"
    "1000 - dc_decay_per_second server_ddos_config * 60 > dc_score_threshold server_ddos_config"
proof -
  obtain d' ok where r: "mem_allow_request server_ddos_config ip 60000 d = (d', ok)" by fastforce
  have "live_score server_ddos_config ip 60000 d = None" using assms by (simp add: live_score_def)
  then show "snd (dd_allow_request (mem_ddos_protection server_ddos_config) ip 60000 d)"
    using allow_request_score(1)[OF r] r by (simp add: mem_ddos_protection_def ddos_increment_def DdosScore_new_def elapsed_secs_def)
qed simp

theorem steady_client_is_banned_witness:
  "requests_allowed server_ddos_config ''1.2.3.4'' (map (\<lambda>i. 1000 * int i) [0..<40]) mem_ddos_new = map (\<lambda>i. i < 28) [0..<40]"
  by (rule steady_client_is_banned) (simp add: I64_MAX_def)

theorem slow_client_never_refused_witness:
  "False \<notin> set (requests_allowed server_ddos_config ''1.2.3.4'' [0, 2000, 4000, 9000] mem_ddos_new)"
  by (rule slow_client_never_refused) (simp_all add: spaced_out_def I64_MAX_def)

theorem banned_client_returns_witness:
  "snd (dd_allow_request (mem_ddos_protection server_ddos_config) ''1.2.3.4'' 60000
     (mem_ddos_new\<lparr>md_scores := [(''1.2.3.4'', \<lparr>ds_score = 400, ds_last_updated = Some 0\<rparr>, 0)]\<rparr>))"
  using banned_client_returns[of "mem_ddos_new\<lparr>md_scores := [(''1.2.3.4'', \<lparr>ds_score = 400, ds_last_updated = Some 0\<rparr>, 0)]\<rparr>"
    "''1.2.3.4''" "\<lparr>ds_score = 400, ds_last_updated = Some 0\<rparr>" 0 server_ddos_config 60000] by simp

end
