(* ===== verification/DiskStore.thy ===== *)
theory DiskStore
  imports Environment EncodedPost
begin

text \<open>
  \<open>environment/disk_environment_store.rs\<close>: the storage of a production server. The bodies of the bundles are files in a tree of
  directories, everything else is in keyspaces of a \<open>fjall\<close> database, which is a parameter: a record of its operations, with its
  documented behaviour as a predicate over the contents of a keyspace in key order. The operating system may refuse any
  operation on any path.
\<close>

section \<open>The database and the files\<close>

datatype batch_item = BatchInsert string bytes bytes | BatchRemove string bytes

record 'd fjall =
  fj_open :: "string \<Rightarrow> 'd res"
  fj_keyspace :: "string \<Rightarrow> 'd \<Rightarrow> 'd res"
  fj_len :: "string \<Rightarrow> 'd \<Rightarrow> nat res"
  fj_get :: "string \<Rightarrow> bytes \<Rightarrow> 'd \<Rightarrow> bytes option res"
  fj_insert :: "string \<Rightarrow> bytes \<Rightarrow> bytes \<Rightarrow> 'd \<Rightarrow> 'd res"
  fj_prefix :: "string \<Rightarrow> bytes \<Rightarrow> 'd \<Rightarrow> (bytes \<times> bytes) res list"
  fj_range_from :: "string \<Rightarrow> bytes \<Rightarrow> 'd \<Rightarrow> (bytes \<times> bytes) res list"
  fj_range_to :: "string \<Rightarrow> bytes \<Rightarrow> 'd \<Rightarrow> (bytes \<times> bytes) res list"
  fj_commit :: "batch_item list \<Rightarrow> 'd \<Rightarrow> 'd res"

fun apply_item :: "string \<Rightarrow> batch_item \<Rightarrow> (bytes \<times> bytes) list \<Rightarrow> (bytes \<times> bytes) list" where
  "apply_item ks (BatchInsert ks' k v) xs = (if ks' = ks then bt_insert k v xs else xs)"
| "apply_item ks (BatchRemove ks' k) xs = (if ks' = ks then AList.delete k xs else xs)"

text \<open>What is documented: a keyspace is an ordered map, writes may fail and a batch is atomic. The medium does not lose data.\<close>

definition fjall_laws :: "'d fjall \<Rightarrow> ('d \<Rightarrow> string \<Rightarrow> (bytes \<times> bytes) list) \<Rightarrow> bool" where
  "fjall_laws F view \<longleftrightarrow>
     (\<forall>d ks. sorted_wrt (<) (map fst (view d ks)) \<and> fj_len F ks d = Inr (length (view d ks)))
   \<and> (\<forall>d ks k. fj_get F ks k d = Inr (map_of (view d ks) k)
        \<and> fj_prefix F ks k d = map Inr (List.filter (\<lambda>(k', v). take (length k) k' = k) (view d ks))
        \<and> fj_range_from F ks k d = map Inr (List.filter (\<lambda>(k', v). k \<le> k') (view d ks))
        \<and> fj_range_to F ks k d = map Inr (List.filter (\<lambda>(k', v). k' < k) (view d ks)))
   \<and> (\<forall>d d' ks k v. fj_insert F ks k v d = Inr d' \<longrightarrow>
        view d' = (view d)(ks := bt_insert k v (view d ks)))
   \<and> (\<forall>d d' items. fj_commit F items d = Inr d' \<longrightarrow> (\<forall>ks. view d' ks = fold (apply_item ks) items (view d ks)))
   \<and> (\<forall>d d' ks. fj_keyspace F ks d = Inr d' \<longrightarrow> view d' = view d)"

type_synonym files = "(string \<times> bytes) list"

text \<open>\<open>os_fails\<close> names the operation and the path it is refused for.\<close>

type_synonym os = "string \<Rightarrow> string \<Rightarrow> bool"

definition os_try :: "os \<Rightarrow> string \<Rightarrow> string \<Rightarrow> unit res" where
  "os_try os_fails operation path = ensure (\<not> os_fails operation path) operation"

definition fs_read :: "os \<Rightarrow> string \<Rightarrow> files \<Rightarrow> bytes res" where
  "fs_read os_fails path files = rbind (os_try os_fails ''read'' path) (\<lambda>_. of_option ''not found'' (map_of files path))"

definition fs_write :: "os \<Rightarrow> string \<Rightarrow> bytes \<Rightarrow> files \<Rightarrow> files res" where
  "fs_write os_fails path bs files = rbind (os_try os_fails ''write'' path) (\<lambda>_. Inr (AList.update path bs files))"

definition fs_rename :: "os \<Rightarrow> string \<Rightarrow> string \<Rightarrow> files \<Rightarrow> files res" where
  "fs_rename os_fails a b files = rbind (os_try os_fails ''rename'' a) (\<lambda>_. rbind (of_option ''not found'' (map_of files a)) (\<lambda>bs.
     Inr (AList.update b bs (AList.delete a files))))"

definition fs_remove_file :: "os \<Rightarrow> string \<Rightarrow> files \<Rightarrow> files" where
  "fs_remove_file os_fails path files = (if os_fails ''remove_file'' path then files else AList.delete path files)"

definition join :: "string \<Rightarrow> string \<Rightarrow> string" where
  "join a b = a @ ''/'' @ b"


section \<open>Keys and values of votes\<close>


definition feedback_key_new :: "id \<Rightarrow> id \<Rightarrow> byte \<Rightarrow> bytes" where
  "feedback_key_new location_id post_id feedback_type = id_bytes location_id @ id_bytes post_id @ [feedback_type]"




definition POST_BUNDLE_FEEDBACK_VALUE_SIZE :: nat where "POST_BUNDLE_FEEDBACK_VALUE_SIZE = SALT_BYTES + 1"

definition feedback_value_new :: "salt \<Rightarrow> pow \<Rightarrow> bytes" where
  "feedback_value_new s p = salt_bytes s @ [p]"

definition feedback_value_from_slice :: "bytes \<Rightarrow> bytes res" where
  "feedback_value_from_slice bs =
     rbind (ensure (length bs = POST_BUNDLE_FEEDBACK_VALUE_SIZE) ''Invalid PostBundleFeedbackValue length'') (\<lambda>_. Inr bs)"

definition value_pow :: "bytes \<Rightarrow> pow" where "value_pow v = v ! SALT_BYTES"


section \<open>The store\<close>

text \<open>The open lock file has no state of its own here.\<close>

record 'd disk_store =
  dk_path :: string
  dk_database :: 'd
  dk_files :: files

text \<open>What the store is built on: the database, the system, and the hex of an id.\<close>

record 'd disk_env =
  de_fjall :: "'d fjall"
  de_os :: os
  de_hex_encode :: "bytes \<Rightarrow> string"
  de_metadata :: "post_bundle_metadata codec"

abbreviation "KS_CONFIG \<equiv> ''config''"
abbreviation "KS_LAST_ACCESSED \<equiv> ''post_bundle_last_accessed''"
abbreviation "KS_METADATA \<equiv> ''keyspace_post_bundle_metadata''"
abbreviation "KS_FEEDBACK \<equiv> ''keyspace_post_bundle_feedback''"


definition path_for_location_id :: "'d disk_env \<Rightarrow> 'd disk_store \<Rightarrow> id \<Rightarrow> string \<times> string" where
  "path_for_location_id X s i =
     (let b0 = de_hex_encode X [id_bytes i ! 0]; b1 = de_hex_encode X [id_bytes i ! 1];
          directory = join (join (join (dk_path s) ''post_bundles'') b0) b1
      in (directory, join directory (Id_to_hex_str (de_hex_encode X) i)))"



definition disk_metadata_get :: "'d disk_env \<Rightarrow> 'd disk_store \<Rightarrow> id \<Rightarrow> post_bundle_metadata option res" where
  "disk_metadata_get X s i = rbind (fj_get (de_fjall X) KS_METADATA (id_bytes i) (dk_database s)) (\<lambda>v. case v of
     Some bs \<Rightarrow> rbind (of_option ''postcard'' (dec (de_metadata X) bs)) (\<lambda>m. Inr (Some m)) | None \<Rightarrow> Inr None)"


definition disk_bytes_get :: "'d disk_env \<Rightarrow> 'd disk_store \<Rightarrow> id \<Rightarrow> bytes option res" where
  "disk_bytes_get X s i = Inr (case fs_read (de_os X) (snd (path_for_location_id X s i)) (dk_files s) of
     Inl e \<Rightarrow> None | Inr bs \<Rightarrow> Some bs)"

definition disk_bytes_put :: "'d disk_env \<Rightarrow> id \<Rightarrow> bytes \<Rightarrow> 'd disk_store \<Rightarrow> 'd disk_store res" where
  "disk_bytes_put X i bs s =
     (let (directory, filename) = path_for_location_id X s i; filename_temp = filename @ ''.tmp'' in
      rbind (os_try (de_os X) ''create_dir_all'' directory) (\<lambda>_.
      rbind (fs_write (de_os X) filename_temp bs (dk_files s)) (\<lambda>files.
      rbind (fs_rename (de_os X) filename_temp filename files) (\<lambda>files.
        Inr (s\<lparr>dk_files := files\<rparr>)))))"



definition disk_feedback_put :: "'d disk_env \<Rightarrow> id \<Rightarrow> feedback \<Rightarrow> 'd disk_store \<Rightarrow> 'd disk_store res" where
  "disk_feedback_put X i f s =
     (let key = feedback_key_new i (fb_post_id f) (fb_feedback_type f);
          store = rbind (fj_insert (de_fjall X) KS_FEEDBACK key (feedback_value_new (fb_salt f) (fb_pow f)) (dk_database s))
            (\<lambda>d. Inr (s\<lparr>dk_database := d\<rparr>))
      in rbind (fj_get (de_fjall X) KS_FEEDBACK key (dk_database s)) (\<lambda>v. case v of
           None \<Rightarrow> store
         | Some bs \<Rightarrow> rbind (feedback_value_from_slice bs) (\<lambda>v. if value_pow v \<ge> fb_pow f then Inr s else store)))"

text \<open>The files go first, without regard to errors, then everything else in one batch. An error of the batch leaves the files gone.\<close>

definition disk_delete_run :: "'d disk_env \<Rightarrow> id list \<Rightarrow> 'd disk_store \<Rightarrow> 'd disk_store \<times> unit res" where
  "disk_delete_run X ids s =
     (let F = de_fjall X;
          feedback_keys = map fst (ok_values (concat (map (\<lambda>i. fj_prefix F KS_FEEDBACK (id_bytes i) (dk_database s)) ids)));
          items = concat (map (\<lambda>i. [BatchRemove KS_METADATA (id_bytes i), BatchRemove KS_LAST_ACCESSED (id_bytes i)]) ids)
            @ map (BatchRemove KS_FEEDBACK) feedback_keys;
          s' = s\<lparr>dk_files := fold (\<lambda>i. fs_remove_file (de_os X) (snd (path_for_location_id X s i))) ids (dk_files s)\<rparr>
      in case fj_commit F items (dk_database s) of
           Inl e \<Rightarrow> (s', Inl e)
         | Inr d \<Rightarrow> (s'\<lparr>dk_database := d\<rparr>, Inr ()))"



definition id_to_string :: "(bytes \<Rightarrow> string) \<Rightarrow> id \<Rightarrow> string" where
  "id_to_string hex_encode i = hex_encode (take 4 (id_bytes i)) @ ''...''"

definition decode_last_accessed :: "(bytes \<times> bytes) res \<Rightarrow> (id \<times> bytes) res" where
  "decode_last_accessed guard = rbind guard (\<lambda>(k, v).
     rbind (Id_from_slice k) (\<lambda>i. rbind (TimeMillisBytes_from_bytes v) (\<lambda>t. Inr (i, t))))"

text \<open>The ranges are bounded by the bytes of the displayed id, not by the id.\<close>

definition disk_last_accessed_iter :: "'d disk_env \<Rightarrow> 'd disk_store \<Rightarrow> id \<Rightarrow> (id \<times> bytes) res list" where
  "disk_last_accessed_iter X s i =
     (let bound = str_bytes (id_to_string (de_hex_encode X) i) in
      map decode_last_accessed (fj_range_from (de_fjall X) KS_LAST_ACCESSED bound (dk_database s)
        @ fj_range_to (de_fjall X) KS_LAST_ACCESSED bound (dk_database s)))"





text \<open>The first environment that can be opened is the one, also when it then fails.\<close>

fun open_first :: "(nat \<Rightarrow> 'd disk_store res) \<Rightarrow> ('d disk_store \<Rightarrow> 'd disk_store environment res) \<Rightarrow> nat list
    \<Rightarrow> 'd disk_store environment res" where
  "open_first new_store build [] = Inl (Bail ''no environments available'')"
| "open_first new_store build (env_id # env_ids) = (case new_store env_id of
     Inr s \<Rightarrow> build s
   | Inl (Panic m) \<Rightarrow> Inl (Panic m)
   | Inl (Bail m) \<Rightarrow> open_first new_store build env_ids)"




section \<open>It keeps the contract of a store\<close>

definition disk_ok :: "'d disk_env \<Rightarrow> ('d \<Rightarrow> string \<Rightarrow> (bytes \<times> bytes) list) \<Rightarrow> 'd disk_store \<Rightarrow> bool" where
  "disk_ok X view s \<longleftrightarrow> fjall_laws (de_fjall X) view \<and> (\<forall>m. dec (de_metadata X) (enc (de_metadata X) m) = Some m)"

lemma map_of_bt_insert: "map_of (bt_insert k v xs) j = (if j = k then Some v else map_of xs j)"
  by (induction k v xs rule: bt_insert.induct) auto

lemma id_bytes_inject [simp]: "id_bytes i = id_bytes j \<longleftrightarrow> i = j"
  by (cases i; cases j) simp

lemma laws:
  assumes "fjall_laws F view"
  shows "fj_get F ks k d = Inr (map_of (view d ks) k)"
    "fj_insert F ks k v d = Inr d' \<Longrightarrow> view d' = (view d)(ks := bt_insert k v (view d ks))"
    "fj_commit F items d = Inr d' \<Longrightarrow> view d' ks = fold (apply_item ks) items (view d ks)"
    "sorted_wrt (<) (map fst (view d ks))"
    "fj_prefix F ks k d = map Inr (List.filter (\<lambda>(k', v). take (length k) k' = k) (view d ks))"
    "fj_range_from F ks k d = map Inr (List.filter (\<lambda>(k', v). k \<le> k') (view d ks))"
    "fj_range_to F ks k d = map Inr (List.filter (\<lambda>(k', v). k' < k) (view d ks))"
  using assms by (simp_all add: fjall_laws_def)



lemma iterated_values_simps: "ok_values [] = []" "ok_values (Inr x # rs) = x # ok_values rs" "ok_values (Inl e # rs) = ok_values rs"
  by (simp_all add: ok_values_def)

lemma decode_last_accessed_ok:
  "ok_values (map decode_last_accessed (map Inr kvs)) =
     map (\<lambda>(k, v). (Id k, v)) (List.filter (\<lambda>(k, v). length k = 32 \<and> length v = 8) kvs)"
proof (induction kvs)
  case (Cons kv kvs)
  obtain k v where kv: "kv = (k, v)" by (cases kv)
  have "decode_last_accessed (Inr kv) = (if length k = 32 \<and> length v = 8 then Inr (Id k, v) else
      (if length k = 32 then Inl (Bail ''Invalid time millis bytes length'') else Inl (Bail ''Invalid id length'')))"
    by (simp add: kv decode_last_accessed_def Id_from_slice_def array_from_slice_def TimeMillisBytes_from_bytes_def ID_BYTES_def)
  then show ?case using Cons by (simp add: iterated_values_simps kv)
qed (simp add: iterated_values_simps)





lemma str_bytes_inject [simp]: "str_bytes a = str_bytes b \<longleftrightarrow> a = b"
  by (metis str_bytes_inverse)




section \<open>Bodies, votes and the order of the scan\<close>

definition hex_laws :: "(bytes \<Rightarrow> string) \<Rightarrow> bool" where
  "hex_laws hex_encode \<longleftrightarrow> inj hex_encode \<and> (\<forall>bs. length (hex_encode bs) = 2 * length bs
     \<and> set (hex_encode bs) \<subseteq> set ''0123456789abcdef'')"

lemma filename_inject:
  assumes "hex_laws (de_hex_encode X)" "wf_id i" "wf_id j"
  shows "snd (path_for_location_id X s i) = snd (path_for_location_id X s j) \<longleftrightarrow> i = j"
    "snd (path_for_location_id X s i) \<noteq> snd (path_for_location_id X s j) @ ''.tmp''"
proof -
  have len: "length (de_hex_encode X bs) = 2 * length bs" for bs using assms(1) by (simp add: hex_laws_def)
  have ends: "snd (path_for_location_id X s k) = fst (path_for_location_id X s k) @ ''/'' @ de_hex_encode X (id_bytes k)" for k
    by (simp add: path_for_location_id_def Let_def join_def Id_to_hex_str_def)
  have dirs: "length (fst (path_for_location_id X s k)) = length (dk_path s) + 19" for k
    by (simp add: path_for_location_id_def Let_def join_def len)
  have l: "length (snd (path_for_location_id X s k)) = length (dk_path s) + 84" if "wf_id k" for k
    using that by (simp add: ends dirs len wf_lengths)
  show "snd (path_for_location_id X s i) \<noteq> snd (path_for_location_id X s j) @ ''.tmp''"
  proof
    assume "snd (path_for_location_id X s i) = snd (path_for_location_id X s j) @ ''.tmp''"
    then have "length (snd (path_for_location_id X s i)) = length (snd (path_for_location_id X s j)) + 4" by simp
    then show False using l[OF assms(2)] l[OF assms(3)] by simp
  qed
  have "i = j" if "snd (path_for_location_id X s i) = snd (path_for_location_id X s j)"
  proof -
    have "de_hex_encode X (id_bytes i) = de_hex_encode X (id_bytes j)"
      using that dirs[of i] dirs[of j] by (simp add: ends)
    then show ?thesis using assms(1) by (auto simp: hex_laws_def dest: injD)
  qed
  then show "snd (path_for_location_id X s i) = snd (path_for_location_id X s j) \<longleftrightarrow> i = j" by blast
qed

lemma disk_bytes_get_files:
  assumes "\<And>path. \<not> de_os X ''read'' path"
  shows "disk_bytes_get X s j = Inr (map_of (dk_files s) (snd (path_for_location_id X s j)))"
  using assms by (cases "map_of (dk_files s) (snd (path_for_location_id X s j))")
    (simp_all add: disk_bytes_get_def fs_read_def os_try_def of_option_def)

text \<open>A body that was stored is read back byte for byte, whatever other location is asked for is as it was, and a body that
  could not be stored has replaced nothing.\<close>

theorem disk_body_read_back:
  assumes "hex_laws (de_hex_encode X)" "wf_id i" "wf_id j" "disk_bytes_put X i bs s = Inr s'"
    and "\<And>path. \<not> de_os X ''read'' path"
  shows "disk_bytes_get X s' j = (if j = i then Inr (Some bs) else disk_bytes_get X s j) \<and> dk_database s' = dk_database s"
proof -
  let ?f = "\<lambda>k. snd (path_for_location_id X s k)"
  have s': "s' = s\<lparr>dk_files := AList.update (?f i) bs (AList.delete (?f i @ ''.tmp'') (AList.update (?f i @ ''.tmp'') bs (dk_files s)))\<rparr>"
    using assms(4) by (auto simp: disk_bytes_put_def fs_write_def fs_rename_def os_try_def Let_def update_conv' split: prod.splits)
  have path: "path_for_location_id X s' k = path_for_location_id X s k" for k by (simp add: s' path_for_location_id_def)
  have "map_of (dk_files s') (?f j) = (if j = i then Some bs else map_of (dk_files s) (?f j))"
    using filename_inject[OF assms(1,3,2), of s] by (auto simp: s' update_conv' delete_conv')
  then show ?thesis using assms(5) by (simp add: disk_bytes_get_files path) (simp add: s')
qed


text \<open>The strength stored for a vote.\<close>

definition disk_vote_pow :: "'d disk_env \<Rightarrow> 'd disk_store \<Rightarrow> id \<Rightarrow> id \<Rightarrow> byte \<Rightarrow> pow option" where
  "disk_vote_pow X s i post_id ty = (case fj_get (de_fjall X) KS_FEEDBACK (feedback_key_new i post_id ty) (dk_database s) of
     Inr (Some v) \<Rightarrow> Some (value_pow v) | _ \<Rightarrow> None)"

lemma feedback_key_inject:
  assumes "wf_id i" "wf_id i'" "wf_id p" "wf_id p'"
  shows "feedback_key_new i p ty = feedback_key_new i' p' ty' \<longleftrightarrow> i = i' \<and> p = p' \<and> ty = ty'"
  using assms by (auto simp: feedback_key_new_def wf_lengths)

lemma value_pow_new [simp]: "wf_salt s \<Longrightarrow> value_pow (feedback_value_new s p) = p"
  by (simp add: value_pow_def feedback_value_new_def wf_lengths SALT_BYTES_def nth_append)

text \<open>A vote that was taken in is stored with the larger of its own and the stored work, as the in-memory store does; every other
  vote is as it was.\<close>

theorem disk_keeps_strongest_vote:
  assumes "disk_ok X view s" "disk_feedback_put X i f s = Inr s'"
    and "wf_id i" "wf_id (fb_post_id f)" "wf_salt (fb_salt f)" "wf_id j" "wf_id p"
  shows "disk_vote_pow X s' j p ty = (if j = i \<and> p = fb_post_id f \<and> ty = fb_feedback_type f
    then stronger (disk_vote_pow X s j p ty) (fb_pow f) else disk_vote_pow X s j p ty)"
proof -
  note F = assms(1)[unfolded disk_ok_def, THEN conjunct1]
  let ?k = "feedback_key_new i (fb_post_id f) (fb_feedback_type f)" and ?v = "feedback_value_new (fb_salt f) (fb_pow f)"
  have vote: "disk_vote_pow X s j p ty = map_option value_pow (map_of (view (dk_database s) KS_FEEDBACK) (feedback_key_new j p ty))"
    for s j p ty by (simp add: disk_vote_pow_def laws(1)[OF F] split: option.splits)
  note key = feedback_key_inject[OF assms(6,3,7,4), of ty "fb_feedback_type f"]
  show ?thesis
  proof (cases "map_of (view (dk_database s) KS_FEEDBACK) ?k")
    case (Some v)
    show ?thesis
    proof (cases "value_pow v \<ge> fb_pow f")
      case True
      then have "s' = s" using assms(2) Some by (auto simp: disk_feedback_put_def laws(1)[OF F] feedback_value_from_slice_def)
      then show ?thesis using True Some by (auto simp: vote stronger_def max_def)
    next
      case False
      then obtain d where d: "fj_insert (de_fjall X) KS_FEEDBACK ?k ?v (dk_database s) = Inr d" "s' = s\<lparr>dk_database := d\<rparr>"
        using assms(2) Some by (auto simp: disk_feedback_put_def laws(1)[OF F] feedback_value_from_slice_def)
      show ?thesis using False Some key laws(2)[OF F d(1)] assms(5) by (auto simp: vote d(2) map_of_bt_insert stronger_def)
    qed
  next
    case None
    then obtain d where d: "fj_insert (de_fjall X) KS_FEEDBACK ?k ?v (dk_database s) = Inr d" "s' = s\<lparr>dk_database := d\<rparr>"
      using assms(2) by (auto simp: disk_feedback_put_def laws(1)[OF F])
    show ?thesis using None key laws(2)[OF F d(1)] assms(5) by (auto simp: vote d(2) map_of_bt_insert stronger_def)
  qed
qed


text \<open>The bound of the ranges starts with a hexadecimal digit.\<close>

lemma bound_first:
  assumes "hex_laws hex_encode" "wf_id i"
  obtains b bs where "str_bytes (id_to_string hex_encode i) = b # bs" "0x30 \<le> b" "b \<le> 0x66"
proof -
  have "length (hex_encode (take 4 (id_bytes i))) = 8" using assms by (simp add: hex_laws_def wf_lengths)
  then obtain c cs where c: "hex_encode (take 4 (id_bytes i)) = c # cs" by (cases "hex_encode (take 4 (id_bytes i))") auto
  have "set (hex_encode (take 4 (id_bytes i))) \<subseteq> set ''0123456789abcdef''" using assms(1) by (simp add: hex_laws_def)
  then have "c \<in> set ''0123456789abcdef''" unfolding c by (rule subsetD) simp
  then have "0x30 \<le> (word_of_nat (of_char c) :: byte) \<and> (word_of_nat (of_char c) :: byte) \<le> 0x66"
    by (simp only: list.set insert_iff empty_iff) (elim disjE; simp)
  then show ?thesis using that by (simp add: id_to_string_def c str_bytes_def)
qed

lemma length_filter_mono: "(\<And>x. P x \<Longrightarrow> Q x) \<Longrightarrow> length (List.filter P xs) \<le> length (List.filter Q xs)"
  by (induction xs) auto

text \<open>C10: Wherever a scan starts, a sample that finds enough locations whose id begins with a byte above the letter \<open>f\<close> has none whose id
  begins with a byte below the digit \<open>0\<close>: decimation never evicts those.\<close>

theorem disk_scan_is_biased:
  assumes "fjall_laws (de_fjall X) view" "hex_laws (de_hex_encode X)" "wf_id i"
    and "n \<le> length (List.filter (\<lambda>(k, v). k \<noteq> [] \<and> 0x66 < hd k) (view (dk_database s) KS_LAST_ACCESSED))"
    and "(j, t) \<in> set (ok_values (take n (disk_last_accessed_iter X s i)))"
  shows "0x30 \<le> hd (id_bytes j)"
proof -
  obtain b bs where b: "str_bytes (id_to_string (de_hex_encode X) i) = b # bs" "0x30 \<le> b" "b \<le> 0x66"
    using bound_first[OF assms(2,3)] .
  let ?xs = "view (dk_database s) KS_LAST_ACCESSED"
  let ?A = "List.filter (\<lambda>(k, v). b # bs \<le> k) ?xs" and ?B = "List.filter (\<lambda>(k, v). k < b # bs) ?xs"
  have iter: "disk_last_accessed_iter X s i = map decode_last_accessed (map Inr (?A @ ?B))"
    by (simp only: disk_last_accessed_iter_def Let_def laws(6,7)[OF assms(1)] map_append b(1))
  have "b # bs \<le> k" if "k \<noteq> []" "0x66 < hd k" for k using that b(3) by (cases k) auto
  then have len: "length (List.filter (\<lambda>(k, v). k \<noteq> [] \<and> 0x66 < hd k) ?xs) \<le> length ?A"
    by (intro length_filter_mono) auto
  have "n - length ?A = 0" using order_trans[OF assms(4) len] by (rule diff_is_0_eq')
  then have "take n (?A @ ?B) = take n ?A" by (simp only: take_append take_0 append_Nil2)
  then have "ok_values (take n (disk_last_accessed_iter X s i))
      = map (\<lambda>(k, v). (Id k, v)) (List.filter (\<lambda>(k, v). length k = 32 \<and> length v = 8) (take n ?A))"
    unfolding iter take_map by (simp only: decode_last_accessed_ok)
  then have "(j, t) \<in> set (map (\<lambda>(k, v). (Id k, v)) (List.filter (\<lambda>(k, v). length k = 32 \<and> length v = 8) (take n ?A)))"
    using assms(5) by (simp only:)
  then obtain k v where kv: "(k, v) \<in> set (take n ?A)" "j = Id k" "length k = 32" by auto
  then have "b # bs \<le> k" by (auto dest: in_set_takeD)
  then have "b \<le> hd k" using kv(3) by (cases k) auto
  then show ?thesis using b(2) kv(2) by simp
qed

text \<open>The files of the locations are gone even if the batch that removes the rest fails: their metadata stays without them.\<close>

lemma failed_delete_loses_bodies:
  assumes "disk_delete_run X ids s = (s', Inl e)" "i \<in> set ids"
    and "\<And>path. \<not> de_os X ''remove_file'' path" "\<And>path. \<not> de_os X ''read'' path"
  shows "disk_bytes_get X s' i = Inr None \<and> disk_metadata_get X s' i = disk_metadata_get X s i"
proof -
  let ?f = "\<lambda>k. snd (path_for_location_id X s k)"
  have s': "s' = s\<lparr>dk_files := fold (\<lambda>i. fs_remove_file (de_os X) (?f i)) ids (dk_files s)\<rparr>"
    using assms(1) by (auto simp: disk_delete_run_def Let_def split: sum.splits)
  have "i \<in> set ids \<or> map_of files (?f i) = None \<Longrightarrow>
      map_of (fold (\<lambda>i. fs_remove_file (de_os X) (?f i)) ids files) (?f i) = None" for files
    by (induction ids arbitrary: files) (auto simp: fs_remove_file_def assms(3) delete_conv')
  then have "map_of (dk_files s') (?f i) = None" using assms(2) by (simp add: s')
  moreover have "path_for_location_id X s' i = path_for_location_id X s i" by (simp add: s' path_for_location_id_def)
  ultimately have "disk_bytes_get X s' i = Inr None" using disk_bytes_get_files[OF assms(4)] by simp
  then show ?thesis by (simp add: disk_metadata_get_def s')
qed

lemma open_first_picks:
  assumes "list_all (\<lambda>k. \<exists>m. new_store k = Inl (Bail m)) taken" "new_store k = Inr s"
  shows "open_first new_store build (taken @ k # rest) = build s"
  using assms by (induction taken) auto




section \<open>The accounting of a server on disk\<close>

text \<open>A call of the store that reports an error may have removed or left files; everything else is in the database, whose batches are
  atomic.\<close>

definition files_changed :: "'d disk_store \<Rightarrow> 'd disk_store \<Rightarrow> bool" where
  "files_changed s s' \<longleftrightarrow> dk_path s' = dk_path s \<and> dk_database s' = dk_database s"

lemma failed_delete_changes_files: "disk_delete_run X ids s = (s', Inl err) \<Longrightarrow> files_changed s s'"
  by (auto simp: disk_delete_run_def files_changed_def Let_def split: sum.splits)




section \<open>A concrete database\<close>

text \<open>The log of what was written, replayed for every read; a system that refuses nothing; lower-case hexadecimal digits.\<close>

definition replay :: "batch_item list \<Rightarrow> string \<Rightarrow> (bytes \<times> bytes) list" where
  "replay writes ks = fold (apply_item ks) writes []"

definition log_fjall :: "batch_item list fjall" where
  "log_fjall = \<lparr>fj_open = (\<lambda>path. Inr []), fj_keyspace = (\<lambda>ks d. Inr d), fj_len = (\<lambda>ks d. Inr (length (replay d ks))),
     fj_get = (\<lambda>ks k d. Inr (map_of (replay d ks) k)), fj_insert = (\<lambda>ks k v d. Inr (d @ [BatchInsert ks k v])),
     fj_prefix = (\<lambda>ks k d. map Inr (List.filter (\<lambda>(k', v). take (length k) k' = k) (replay d ks))),
     fj_range_from = (\<lambda>ks k d. map Inr (List.filter (\<lambda>(k', v). k \<le> k') (replay d ks))),
     fj_range_to = (\<lambda>ks k d. map Inr (List.filter (\<lambda>(k', v). k' < k) (replay d ks))),
     fj_commit = (\<lambda>items d. Inr (d @ items))\<rparr>"

lemma replay_sorted: "sorted_wrt (<) (map fst (replay writes ks))"
proof -
  have "sorted_wrt (<) (map fst xs) \<Longrightarrow> sorted_wrt (<) (map fst (fold (apply_item ks) writes xs))" for xs
  proof (induction writes arbitrary: xs)
    case (Cons item writes)
    have "sorted_wrt (<) (map fst (apply_item ks item xs))"
      using Cons.prems by (cases item) (auto simp: bt_insert_sorted delete_sorted)
    then show ?case using Cons.IH by simp
  qed simp
  then show ?thesis by (simp add: replay_def)
qed

lemma log_fjall_laws: "fjall_laws log_fjall replay"
  unfolding fjall_laws_def log_fjall_def using replay_sorted by (auto simp: replay_def)

definition hex_digit :: "nat \<Rightarrow> char" where "hex_digit n = ''0123456789abcdef'' ! n"

definition log_hex :: "bytes \<Rightarrow> string" where
  "log_hex bs = concat (map (\<lambda>b. [hex_digit (unat b div 16), hex_digit (unat b mod 16)]) bs)"

lemma hex_digit_inject: "m < 16 \<Longrightarrow> n < 16 \<Longrightarrow> hex_digit m = hex_digit n \<longleftrightarrow> m = n"
  unfolding hex_digit_def by (rule nth_eq_iff_index_eq) simp_all

lemma log_hex_laws: "hex_laws log_hex"
proof -
  have nibbles: "unat b div 16 < 16" "unat b mod 16 < 16" for b :: byte
    using byte_less[of b] by (simp_all add: less_mult_imp_div_less)
  have same: "b = c" if "unat b div 16 = unat c div 16" "unat b mod 16 = unat c mod 16" for b c :: byte
    using that by (metis div_mult_mod_eq word_unat_eq_iff)
  have "log_hex as = log_hex bs \<Longrightarrow> as = bs" for as bs
  proof (induction as arbitrary: bs)
    case Nil
    then show ?case by (cases bs) (simp_all add: log_hex_def)
  next
    case (Cons a as)
    then obtain b bs' where bs: "bs = b # bs'" by (cases bs) (simp_all add: log_hex_def)
    then show ?case using Cons same[of a b] by (simp add: log_hex_def hex_digit_inject nibbles)
  qed
  then have "inj log_hex" by (auto intro: injI)
  moreover have "length (log_hex bs) = 2 * length bs" for bs by (induction bs) (simp_all add: log_hex_def)
  moreover have "set (log_hex bs) \<subseteq> set ''0123456789abcdef''" for bs
  proof -
    have "set (log_hex bs) \<subseteq> S" if "\<And>n. n < 16 \<Longrightarrow> hex_digit n \<in> S" for S
      using that nibbles by (auto simp: log_hex_def)
    moreover have "hex_digit n \<in> set ''0123456789abcdef''" if "n < 16" for n unfolding hex_digit_def using that by (intro nth_mem) simp
    ultimately show ?thesis by blast
  qed
  ultimately show ?thesis unfolding hex_laws_def by blast
qed

definition log_env :: "batch_item list disk_env" where
  "log_env = \<lparr>de_fjall = log_fjall, de_os = (\<lambda>operation path. False), de_hex_encode = log_hex, de_metadata = toy_metadata_codec\<rparr>"

definition log_store :: "batch_item list disk_store" where
  "log_store = \<lparr>dk_path = ''/data/1'', dk_database = [], dk_files = []\<rparr>"

lemma log_env_simps [simp]: "de_fjall log_env = log_fjall" "de_hex_encode log_env = log_hex" "\<not> de_os log_env operation path"
  "de_metadata log_env = toy_metadata_codec"
  by (simp_all add: log_env_def)

lemma log_store_ok: "disk_ok log_env replay s"
  by (simp add: disk_ok_def log_fjall_laws toy_metadata_codec_law)

theorem disk_body_read_back_witness:
  "\<exists>s'. disk_bytes_put log_env Id_zero [1, 2] log_store = Inr s' \<and> disk_bytes_get log_env s' Id_zero = Inr (Some [1, 2])"
proof -
  obtain s' where s': "disk_bytes_put log_env Id_zero [1, 2] log_store = Inr s'"
    by (simp add: disk_bytes_put_def fs_write_def fs_rename_def os_try_def Let_def update_conv' case_prod_unfold)
  have "hex_laws (de_hex_encode log_env)" by (simp add: log_hex_laws)
  then have "disk_bytes_get log_env s' Id_zero = Inr (Some [1, 2])"
    using disk_body_read_back[OF _ _ _ s', of Id_zero] by (simp add: wf_zero)
  then show ?thesis using s' by blast
qed

theorem disk_keeps_strongest_vote_witness:
  "let f = \<lparr>fb_post_id = Id_zero, fb_feedback_type = 1, fb_salt = Salt_zero, fb_pow = 9\<rparr> in
   \<exists>s'. disk_feedback_put log_env Id_zero f log_store = Inr s' \<and> disk_vote_pow log_env s' Id_zero Id_zero 1 = Some 9"
proof -
  let ?f = "\<lparr>fb_post_id = Id_zero, fb_feedback_type = 1, fb_salt = Salt_zero, fb_pow = 9\<rparr>"
  have none: "disk_vote_pow log_env log_store Id_zero Id_zero 1 = None"
    by (simp add: disk_vote_pow_def log_fjall_def log_store_def replay_def)
  obtain s' where s': "disk_feedback_put log_env Id_zero ?f log_store = Inr s'"
    by (simp add: disk_feedback_put_def log_fjall_def log_store_def replay_def Let_def)
  have "disk_vote_pow log_env s' Id_zero Id_zero 1 = Some 9"
    using disk_keeps_strongest_vote[OF log_store_ok s', of Id_zero Id_zero 1] none by (simp add: wf_zero stronger_def)
  then show ?thesis using s' by (simp add: Let_def)
qed


text \<open>One location with a high id is enough to hide one with a low id from a sample of one.\<close>

theorem disk_scan_is_biased_witness:
  "\<exists>s high t. map fst (replay (dk_database s) KS_LAST_ACCESSED) = [replicate 32 1, replicate 32 0x70]
    \<and> ok_values (take 1 (disk_last_accessed_iter log_env s Id_zero)) = [(high, t)] \<and> id_bytes high = replicate 32 0x70
    \<and> 0x30 \<le> hd (id_bytes high)"
proof -
  let ?s = "log_store\<lparr>dk_database := [BatchInsert KS_LAST_ACCESSED (replicate 32 0x70) (replicate 8 0),
      BatchInsert KS_LAST_ACCESSED (replicate 32 1) (replicate 8 0)]\<rparr>"
  have c: "replicate 32 (1 :: byte) = 1 # replicate 31 1" "replicate 32 (0x70 :: byte) = 0x70 # replicate 31 0x70"
    by (simp_all add: numeral_eq_Suc)
  then have "replicate 32 (1 :: byte) < replicate 32 0x70" by simp
  then have r: "replay (dk_database ?s) KS_LAST_ACCESSED = [(replicate 32 1, replicate 8 0), (replicate 32 0x70, replicate 8 0)]"
    by (auto simp: replay_def)
  have n: "1 \<le> length (List.filter (\<lambda>(k, v). k \<noteq> [] \<and> 0x66 < hd k) (replay (dk_database ?s) KS_LAST_ACCESSED))"
    unfolding r by simp
  have L: "hex_laws (de_hex_encode log_env)" "fjall_laws (de_fjall log_env) replay" by (simp_all add: log_hex_laws log_fjall_laws)
  obtain b bs where b: "str_bytes (id_to_string log_hex Id_zero) = b # bs" "0x30 \<le> b" "b \<le> 0x66"
    using bound_first[OF log_hex_laws wf_zero(1)] .
  have "\<not> b # bs \<le> replicate 32 1" "b # bs \<le> replicate 32 0x70" using b c by (auto simp: word_le_nat_alt word_less_nat_alt)
  then have it: "disk_last_accessed_iter log_env ?s Id_zero
      = map decode_last_accessed [Inr (replicate 32 0x70, replicate 8 0), Inr (replicate 32 1, replicate 8 0)]"
    unfolding disk_last_accessed_iter_def Let_def log_env_simps laws(6,7)[OF log_fjall_laws] b(1) r by (simp add: not_le)
  have first: "ok_values (take 1 (disk_last_accessed_iter log_env ?s Id_zero)) = [(Id (replicate 32 0x70), replicate 8 0)]"
    unfolding it by (simp add: decode_last_accessed_def Id_from_slice_def array_from_slice_def TimeMillisBytes_from_bytes_def byte_counts)
  have "0x30 \<le> hd (id_bytes (Id (replicate 32 0x70)))"
    using disk_scan_is_biased[of log_env replay Id_zero 1 ?s "Id (replicate 32 0x70)" "replicate 8 0", OF _ _ _ n] L first by (simp add: wf_zero)
  then show ?thesis using r first by (intro exI[of _ ?s] exI[of _ "Id (replicate 32 0x70)"] exI[of _ "replicate 8 0"]) simp
qed

end
