(* ===== verification/Spec2Isabelle.thy ===== *)
theory Spec2Isabelle
  imports ClientRuns PowGenerator Ddos DiskStore
begin

text \<open>
  Hashiverse is a social network without owners. Posts live in time buckets of a base id (a user, a hashtag, a mention, a reply);
  the servers whose ids are nearest to the location of a bucket keep its posts as one signed bundle, and the votes on them as
  another. Clients write to a bucket by claiming a place with proof of work and committing the post, read it by walking towards
  its location, cache what they found with servers further out, and heal the servers that lag. This library models the logic of
  the Rust crates \<open>hashiverse-lib\<close> and \<open>hashiverse-server-lib\<close> (paths below are under \<open>src/hashiverse-rust/\<close>, \<open>lib\<close> and
  \<open>server\<close> stand for the \<open>src\<close> directories of the two crates) as executable functions and step relations and proves what makes
  it correct.

  \<^bold>\<open>Foundations\<close> (\<open>lib/tools\<close>). \<open>Prelude\<close>: bytes, readers, results and integer widths; \<open>Types\<close>: newtypes, hexadecimal,
  agreement of leading bits, shuffling (\<open>types.rs\<close>, \<open>tools.rs\<close>, \<open>json.rs\<close>); \<open>Text\<close>: Rust's \<open>str\<close> and number formatting; \<open>Time\<close>:
  saturating times and durations and their text forms (\<open>time.rs\<close>); \<open>Config\<close>: the constants (\<open>config.rs\<close>); \<open>Crypto\<close>: hashing,
  signing and the measurement of proof of work (\<open>hashing.rs\<close>, \<open>signing.rs\<close>, \<open>pow.rs\<close>); \<open>Gatherer\<close>: the scatter buffer refines a
  byte list (\<open>bytes_gatherer.rs\<close>); \<open>Compression\<close> and \<open>Encryption\<close>: formats and round trips (\<open>compression.rs\<close>, \<open>encryption.rs\<close>);
  \<open>Identity\<close>: client ids, server ids and peer records (\<open>client_id.rs\<close>, \<open>server_id.rs\<close>, \<open>keys.rs\<close>, \<open>protocol/peer.rs\<close>);
  \<open>Buckets\<close>: locations and the ladder of durations (\<open>buckets.rs\<close>); \<open>Estimators\<close>: sketches, decaying counters and the estimate of
  the work a server asks for (\<open>hyper_log_log.rs\<close>, \<open>decaying_counter.rs\<close>, \<open>pow_required_estimator.rs\<close>); \<open>PowGenerator\<close>: the
  registry of jobs, a chunk of attempts, and the pool that keeps its slots busy, as the step relation \<open>pool_run\<close>
  (\<open>tools/pow_generator\<close>); \<open>Ddos\<close>: scores, guards and the three implementations (\<open>transport/ddos\<close> of both crates).

  \<^bold>\<open>Protocol\<close> (\<open>lib/protocol\<close>). \<open>EncodedPost\<close>, \<open>Feedback\<close>, \<open>PostBundle\<close>: wire formats with every check of decoding, signatures
  and merges (\<open>posting\<close>); \<open>Payload\<close>: the bodies of all requests and the four signed tokens (\<open>payload\<close>); \<open>Rpc\<close>: the packets with
  their proof-of-work header and the calls built on them (\<open>rpc\<close>). The lemmas are round trips, what a decoder accepts, and which
  signatures cover what.

  \<^bold>\<open>Server\<close> (\<open>server\<close>). \<open>Kademlia\<close>: the routing table (\<open>server/kademlia\<close>); \<open>Environment\<close>: the storage, its accounting and
  decimation (\<open>environment\<close>); \<open>DiskStore\<close>: the store of a server over files and a database
  (\<open>environment/disk_environment_store.rs\<close>); \<open>Caching\<close>: the two caches and their tokens (\<open>server/post_bundle_caching.rs\<close> and its siblings);
  \<open>Server\<close>: state, admission of peers, maintenance, address filter (\<open>server/hashiverse_server.rs\<close>, \<open>tools/tools.rs\<close>);
  \<open>Handlers\<close> and \<open>Dispatch\<close>: one definition per handler of \<open>server/handlers/dispatch.rs\<close>, guards in the order of the code, and
  the envelope around them; \<open>Protocol\<close>: what the handlers together promise. A handler is a function from the server, the world it
  reads (time, random bits, the answers of third parties) and a request to the new server and a result; runs of requests and
  maintenance are \<open>server_run\<close> and \<open>bucket_run\<close>, those of an environment and of a cache \<open>counted_run\<close> and \<open>cache_life\<close>, and the
  invariants are proved by rule induction over them. A ghost value of a run says what it has left uncounted, so that its invariant
  holds whatever callers declare and whatever fails.

  \<^bold>\<open>Client\<close> (\<open>lib/client\<close>). \<open>Tracker\<close>: the sorted vector of known peers and the walk towards a location (\<open>peer_tracker\<close>,
  \<open>caching/cache_radius_tracker.rs\<close>); \<open>Visitor\<close>: the walk over the ladder of buckets, equal to a recursive description
  (\<open>timeline/recursive_bucket_visitor.rs\<close>); \<open>Timeline\<close>: a timeline over any bundle manager, the merged feed, the pen and the stub
  manager (\<open>timeline\<close>); \<open>ClientStorage\<close>: the storage trait and its in-memory implementation (\<open>client_storage\<close>); \<open>Healing\<close>:
  healing of servers and uploads to caches (\<open>post_bundle/*_healing.rs\<close>, \<open>caching/post_bundle_cache_uploader.rs\<close>);
  \<open>LiveManager\<close>: how a bundle is found in the storage or collected from servers (\<open>post_bundle/live_*_manager.rs\<close>);
  \<open>Posting\<close>: the links of a post, claim and commit with each server, and votes (\<open>post_bundle/posting.rs\<close>); \<open>MetaPost\<close>: profiles
  and settings, their merge and their exchange between devices (\<open>meta_post\<close>); \<open>PlainText\<close>: the markup of a post from plain text
  (\<open>lib/tools/plain_text_post.rs\<close>); \<open>Client\<close>: the state an application holds and its calls (\<open>hashiverse_client.rs\<close>); \<open>ClientRuns\<close>:
  the invariant that every call keeps and what calls return. Client and server meet in the lemmas of \<open>Healing\<close> and \<open>Posting\<close>, which
  decode on the server what the client encodes.

  \<^bold>\<open>Interfaces.\<close> Each contract between parts is a locale interpreted on the model of the code: \<open>byte_sink\<close> (both writers of the
  gatherer), \<open>signed_token\<close> (four tokens), \<open>environment_store\<close> (the in-memory and the disk store), \<open>bundle_cache\<close> (both caches),
  \<open>state_preorder\<close>, \<open>handler_frame\<close> and \<open>maintenance_frame\<close> (what no handler and no maintenance turn may change),
  \<open>client_storage_laws\<close> (the in-memory client storage), \<open>post_bundle_manager\<close> and \<open>whole_bundle_manager\<close> (what a timeline needs of
  its source: the live manager and the stub), \<open>pow_backend\<close> (the threaded and the single backend) and \<open>connection_limit\<close> (two
  guards). \<open>Samples\<close>, \<open>ClientSamples\<close> and the end of \<open>ClientRuns\<close> hold a concrete world in which the properties with hypotheses are applied.

  \<^bold>\<open>Conventions.\<close> A fallible function returns a sum: \<open>Inl (Bail m)\<close> for an error that is returned, \<open>Inl (Panic m)\<close> for a panic
  (a slice out of range, an overflow of \<open>usize\<close>, a division by zero), \<open>Inr\<close> for a result. State is passed and returned; what a
  failed operation has already changed stays changed. Integers keep their width where the code can overflow: \<open>i64\<close> times are
  integers with saturation written out, sizes are words where they wrap. Floating point numbers are real numbers. Third-party code
  is a parameter: the database fjall, digests and Ed25519 in the record \<open>crypto\<close>, compressors, ciphers, \<open>serde_json\<close> as codecs, the HTML parser, name
  lookup, the answers of other servers, and hash-order iteration. Hypotheses on them are the documented ones: a decoder inverts its
  encoder, a signature made with a key verifies with its public part, digests have their length.

  \<^bold>\<open>Loops.\<close> Recursion is structural or has a measure. Four loops of the code need not end or their end is itself a theorem, and
  are partial functions with \<open>None\<close> for not returning: the masked draw of a random number, the step of the peer iterator, the
  pump of the bucket visitor and the walk of a fetch; for the visitor the end is proved for all callbacks, for the iterator it is
  characterised exactly. No definition runs on fuel; the pool of the proof-of-work search is a step relation whose bounded form is
  shown to make progress and to end.

  \<^bold>\<open>Concurrency.\<close> Requests to one server, connections, and the slots of a search are interleaved by the step relations. A handler
  is one step where the code holds the lock of the location for its body. Where the code decides and acts without a common lock, the
  parts are steps of their own: \<open>server_run\<close> lets a request count itself, enter its salt and run its handler apart from the replay
  check, and \<open>cache_life\<close> lets reads of a cache decide and issue their tokens at different times. What then goes wrong is exhibited:
  two overlapping requests with one salt both pass (\<open>overlapping_replays_pass\<close>, over \<open>replay_step\<close>), overlapping reads both get a token
  (\<open>overlapping_reads_both_issued\<close>), and a write between the two parts of a decimation leaves the size counter too high
  (\<open>decimation_races_write\<close>). Otherwise the calls of the environment are whole: \<open>counted_run\<close> runs them one after the other, with all
  their results. Client tasks that run in the background are run to their end, in the order in which they are spawned.

  \<^bold>\<open>Not modelled\<close>, because it is input, output or glue: the bindings for Node.js, Python, Rust and the browser
  (\<open>hashiverse-client-*\<close>; of the browser's only the batch of a worker is in \<open>PowGenerator\<close>), the transports over TCP and HTTPS with
  their certificates, the bootstrap over DNS, the SQLite and IndexedDB storages (which implement a modelled interface over
  databases), key lockers, wall clocks, the server binary with its arguments, passphrase and system statistics, the keys of
  post-quantum crates, which only the key records carry, the preview of a web page, which is a list of queries to a third-party
  DOM, the upkeep of the third-party cache and its vendored source.
\<close>

end
